(* ===== verification/Prelude.thy ===== *)
theory Prelude
  imports Main "HOL-Library.Monad_Syntax"
begin

text \<open>
  What every other theory of the development shares: byte strings and the three ways the C
  code touches them (reading a range, overwriting a range, extending a file with zero bytes),
  C strings, and the collections of rewrite rules that the component theories add to.

  A file is its contents, a \<open>string\<close>; a HOL \<open>char\<close> is a byte.  A C string inside a
  buffer is the prefix before the first zero byte.  An operation that the C code may never
  return from (an endless loop, \<open>exit\<close>, a crash on memory it does not own) has type
  \<open>_ option\<close>, and \<open>None\<close> is that case.
\<close>

named_theorems codec \<open>encoders and decoders of on-disk and on-wire records\<close>
named_theorems fileops \<open>how the views of files change\<close>
named_theorems srvsimps \<open>the server state after an operation\<close>

type_synonym bytes = string

abbreviation NUL :: char where
  "NUL \<equiv> CHR 0x00"

abbreviation NL :: char where
  "NL \<equiv> CHR 0x0A"

subsection \<open>Ranges of a file\<close>

definition slice :: "nat \<Rightarrow> nat \<Rightarrow> 'a list \<Rightarrow> 'a list" where
  "slice pos n xs = take n (drop pos xs)"

definition pad_to :: "nat \<Rightarrow> bytes \<Rightarrow> bytes" where
  "pad_to n xs = xs @ replicate (n - length xs) NUL"

text \<open>\<open>lseek\<close> followed by \<open>write\<close>: a gap past the end of the file reads as zeros.\<close>

definition overwrite :: "nat \<Rightarrow> bytes \<Rightarrow> bytes \<Rightarrow> bytes" where
  "overwrite pos bs xs =
     (if bs = [] then xs
      else take pos (pad_to pos xs) @ bs @ drop (pos + length bs) xs)"

lemma length_slice: "length (slice pos n xs) = min n (length xs - pos)"
  by (simp add: slice_def)

lemma length_slice_eq [simp]: "pos + n \<le> length xs \<Longrightarrow> length (slice pos n xs) = n"
  by (simp add: length_slice)

lemma nth_slice [simp]: "i < n \<Longrightarrow> pos + i < length xs \<Longrightarrow> slice pos n xs ! i = xs ! (pos + i)"
  by (simp add: slice_def)

lemma slice_0 [simp]: "slice pos 0 xs = []"
  by (simp add: slice_def)

lemma slice_cong:
  assumes "\<And>i. i < n \<Longrightarrow> xs ! (pos + i) = ys ! (pos + i)"
    and "pos + n \<le> length xs" and "pos + n \<le> length ys"
  shows "slice pos n xs = slice pos n ys"
  using assms by (intro nth_equalityI) simp_all

lemma slice_append_left: "pos + n \<le> length xs \<Longrightarrow> slice pos n (xs @ ys) = slice pos n xs"
  by (simp add: slice_def)

lemma slice_append_right: "slice (length xs + k) n (xs @ ys) = slice k n ys"
  by (simp add: slice_def)

lemma slice_slice: "i + m \<le> n \<Longrightarrow> slice i m (slice pos n xs) = slice (pos + i) m xs"
  by (simp add: slice_def take_drop min_def add.commute)

lemma slice_add: "slice pos (m + n) xs = slice pos m xs @ slice (pos + m) n xs"
  by (simp add: slice_def take_add add.commute)

lemma length_pad_to [simp]: "length (pad_to n xs) = max n (length xs)"
  by (auto simp: pad_to_def)

lemma nth_pad_to: "i < max n (length xs) \<Longrightarrow> pad_to n xs ! i = (if i < length xs then xs ! i else NUL)"
  by (auto simp: pad_to_def nth_append)

lemma pad_to_le [simp]: "n \<le> length xs \<Longrightarrow> pad_to n xs = xs"
  by (simp add: pad_to_def)

lemma take_pad_to: "n \<le> length xs \<Longrightarrow> take n (pad_to m xs) = take n xs"
  by (simp add: pad_to_def)

lemma length_overwrite:
  "length (overwrite pos bs xs) = (if bs = [] then length xs else max (pos + length bs) (length xs))"
  by (auto simp: overwrite_def)

lemma nth_overwrite:
  assumes "i < length (overwrite pos bs xs)"
  shows "overwrite pos bs xs ! i =
    (if pos \<le> i \<and> i < pos + length bs then bs ! (i - pos)
     else if i < length xs then xs ! i else NUL)"
proof (cases "bs = []")
  case True
  with assms show ?thesis by (auto simp: overwrite_def)
next
  case False
  consider "i < pos" | "pos \<le> i" "i < pos + length bs" | "pos + length bs \<le> i" by linarith
  then show ?thesis
  proof cases
    case 1
    with False show ?thesis by (simp add: overwrite_def nth_append nth_pad_to)
  next
    case 2
    then have "i - pos < length bs" by simp
    with 2 False show ?thesis by (simp add: overwrite_def nth_append)
  next
    case 3
    with False assms have "i < length xs" by (auto simp: length_overwrite)
    with False 3 show ?thesis by (auto simp: overwrite_def nth_append)
  qed
qed

lemma overwrite_Nil [simp]: "overwrite pos [] xs = xs"
  by (simp add: overwrite_def)

lemma overwrite_end: "overwrite (length xs) bs xs = xs @ bs"
  by (simp add: overwrite_def)

lemma slice_overwrite_same [simp]: "slice pos (length bs) (overwrite pos bs xs) = bs"
  by (simp add: slice_def overwrite_def)

lemma slice_overwrite_disjoint:
  assumes "q + n \<le> pos \<or> pos + length bs \<le> q" and "q + n \<le> length xs"
  shows "slice q n (overwrite pos bs xs) = slice q n xs"
proof (rule slice_cong)
  show "q + n \<le> length (overwrite pos bs xs)"
    using assms(2) by (simp add: length_overwrite le_max_iff_disj)
  fix i assume "i < n"
  with assms show "overwrite pos bs xs ! (q + i) = xs ! (q + i)"
    by (subst nth_overwrite) (auto simp: length_overwrite)
qed (rule assms(2))

text \<open>Writing back what is there changes nothing.\<close>

lemma overwrite_same:
  assumes "pos + length bs \<le> length xs" and "slice pos (length bs) xs = bs"
  shows "overwrite pos bs xs = xs"
proof (intro nth_equalityI)
  show len: "length (overwrite pos bs xs) = length xs"
    using assms(1) by (simp add: length_overwrite)
  fix i assume "i < length (overwrite pos bs xs)"
  moreover from assms have "bs ! (i - pos) = xs ! i" if "pos \<le> i" "i < pos + length bs"
    using that nth_slice [of "i - pos" "length bs" pos xs] by auto
  ultimately show "overwrite pos bs xs ! i = xs ! i"
    using len by (auto simp: nth_overwrite)
qed

lemma take_overwrite: "n \<le> pos \<Longrightarrow> n \<le> length xs \<Longrightarrow> take n (overwrite pos bs xs) = take n xs"
  by (simp add: overwrite_def take_pad_to)

subsection \<open>C strings\<close>

definition cstr :: "bytes \<Rightarrow> string" where
  "cstr bs = takeWhile (\<lambda>c. c \<noteq> NUL) bs"

definition c_ok :: "string \<Rightarrow> bool" where
  "c_ok s \<longleftrightarrow> NUL \<notin> set s"

lemma cstr_append: "c_ok s \<Longrightarrow> cstr (s @ NUL # rest) = s"
  unfolding cstr_def c_ok_def by (induction s) auto

lemma cstr_append1 [simp]: "c_ok s \<Longrightarrow> cstr (s @ [NUL]) = s"
  by (simp add: cstr_append)

lemma cstr_id: "c_ok s \<Longrightarrow> cstr s = s"
  unfolding cstr_def c_ok_def takeWhile_eq_all_conv by metis

lemma c_ok_cstr [simp]: "c_ok (cstr bs)"
  using set_takeWhileD by (fastforce simp: cstr_def c_ok_def)

subsection \<open>Decimal numerals\<close>

text \<open>\<open>printf ("%d")\<close> and \<open>atoi\<close>, for numbers that are not negative.\<close>

definition digit :: "nat \<Rightarrow> char" where
  "digit d = char_of (48 + d)"

definition is_digit :: "char \<Rightarrow> bool" where
  "is_digit c \<longleftrightarrow> 48 \<le> (of_char c :: nat) \<and> (of_char c :: nat) \<le> 57"

fun decimal :: "nat \<Rightarrow> string" where
  "decimal n = (if n < 10 then [digit n] else decimal (n div 10) @ [digit (n mod 10)])"

declare decimal.simps [simp del]

fun atoi_from :: "nat \<Rightarrow> string \<Rightarrow> nat" where
  "atoi_from acc [] = acc"
| "atoi_from acc (c # cs) =
     (if is_digit c then atoi_from (10 * acc + (of_char c - 48)) cs else acc)"

definition atoi :: "string \<Rightarrow> nat" where
  "atoi s = atoi_from 0 s"

lemma is_digit_digit [simp]: "d < 10 \<Longrightarrow> is_digit (digit d)"
  by (simp add: is_digit_def digit_def of_char_of)

lemma of_char_digit [simp]: "d < 10 \<Longrightarrow> (of_char (digit d) :: nat) = 48 + d"
  by (simp add: digit_def of_char_of)

lemma digits_decimal: "c \<in> set (decimal n) \<Longrightarrow> is_digit c"
  by (induction n rule: decimal.induct) (subst (asm) (2) decimal.simps, auto split: if_splits)

lemma decimal_Cons: "\<exists>c cs. decimal n = c # cs \<and> is_digit c"
proof -
  have "decimal n \<noteq> []" by (subst decimal.simps) simp
  then obtain c cs where "decimal n = c # cs" by (cases "decimal n") auto
  moreover from this have "is_digit c" using digits_decimal [of c n] by simp
  ultimately show ?thesis by blast
qed

lemma atoi_from_append:
  "(\<And>c. c \<in> set xs \<Longrightarrow> is_digit c) \<Longrightarrow> atoi_from acc (xs @ ys) = atoi_from (atoi_from acc xs) ys"
  by (induction acc xs rule: atoi_from.induct) auto

lemma atoi_decimal: "ys = [] \<or> \<not> is_digit (hd ys) \<Longrightarrow> atoi (decimal n @ ys) = n"
proof -
  assume ys: "ys = [] \<or> \<not> is_digit (hd ys)"
  have "atoi_from 0 (decimal n) = n"
  proof (induction n rule: decimal.induct)
    case (1 n)
    show ?case
    proof (cases "n < 10")
      case True
      then show ?thesis by (subst decimal.simps) simp
    next
      case False
      with 1 have "atoi_from 0 (decimal (n div 10)) = n div 10" by simp
      with False show ?thesis
        by (subst decimal.simps) (simp add: atoi_from_append [OF digits_decimal])
    qed
  qed
  moreover from ys have "atoi_from a ys = a" for a by (cases ys) auto
  ultimately show ?thesis by (simp add: atoi_def atoi_from_append [OF digits_decimal])
qed

subsection \<open>Binds\<close>

lemma bind_case_prod [simp]:
  "Option.bind (Some (a, b)) (\<lambda>(x, y). f x y) = f a b"
  by simp

end
