(* ===== verification/Unix.thy ===== *)
theory Unix
  imports Prelude
begin

text \<open>
  The part of the UNIX file interface that the discuss server uses.  It is the C library's and
  the kernel's documented behaviour, not code of this repository, so nothing here is mapped to
  source lines: \<open>open\<close>, \<open>lseek\<close> with \<open>read\<close> or \<open>write\<close> (always paired in the server, so the
  file offset is an argument), \<open>fstat\<close>, \<open>ftruncate\<close>, \<open>unlink\<close>, \<open>mkdir\<close>, \<open>rmdir\<close> and \<open>rename\<close>.

  A file descriptor is the number of the inode it refers to (0 stands for "none", as the server
  uses it), so a file that is unlinked or renamed while open stays reachable through its
  descriptor.  Two things are left open to the environment and are fields of the state:
  \<^item> \<open>i_errno\<close>: the error that \<open>open\<close> of this file gives (0 for none);
  \<^item> \<open>faults\<close>: which of the coming \<open>write\<close> calls fail (an exhausted disk or quota).  A failing
    \<open>write\<close> writes nothing; writes that are cut short are not modelled.
\<close>

record inode =
  i_data :: bytes
  i_uid :: int
  i_mtime :: int
  i_errno :: int

record fsys =
  dirs :: "string list"
  links :: "(string \<times> nat) list"
  inodes :: "nat \<Rightarrow> inode"
  next_ino :: nat
  faults :: "bool list"
  now :: int
  euid :: int

text \<open>Constants of the system's header files.\<close>

definition MAXPATHLEN :: nat where "MAXPATHLEN = 4096"
definition BUFSIZ :: nat where "BUFSIZ = 8192"
definition ENOENT :: int where "ENOENT = 2"
definition EACCES :: int where "EACCES = 13"
definition EEXIST :: int where "EEXIST = 17"
definition ENOTEMPTY :: int where "ENOTEMPTY = 39"

abbreviation fdata :: "fsys \<Rightarrow> nat \<Rightarrow> bytes" where
  "fdata f d \<equiv> i_data (inodes f d)"

abbreviation set_data :: "fsys \<Rightarrow> nat \<Rightarrow> bytes \<Rightarrow> fsys" where
  "set_data f d bs \<equiv> f\<lparr>inodes := (inodes f)(d := (inodes f d)\<lparr>i_data := bs, i_mtime := now f\<rparr>)\<rparr>"

definition sys_read :: "fsys \<Rightarrow> nat \<Rightarrow> nat \<Rightarrow> nat \<Rightarrow> bytes" where
  "sys_read f d pos n = slice pos n (fdata f d)"

definition sys_write :: "fsys \<Rightarrow> nat \<Rightarrow> nat \<Rightarrow> bytes \<Rightarrow> int \<times> fsys" where
  "sys_write f d pos bs =
     (case faults f of
        True # r \<Rightarrow> (-1, f\<lparr>faults := r\<rparr>)
      | False # r \<Rightarrow> (int (length bs), (set_data f d (overwrite pos bs (fdata f d)))\<lparr>faults := r\<rparr>)
      | [] \<Rightarrow> (int (length bs), set_data f d (overwrite pos bs (fdata f d))))"

definition sys_ftruncate :: "fsys \<Rightarrow> nat \<Rightarrow> nat \<Rightarrow> fsys" where
  "sys_ftruncate f d n = set_data f d (take n (pad_to n (fdata f d)))"

definition sys_open :: "fsys \<Rightarrow> string \<Rightarrow> int + nat" where
  "sys_open f path =
     (case map_of (links f) path of
        None \<Rightarrow> Inl ENOENT
      | Some d \<Rightarrow> if i_errno (inodes f d) \<noteq> 0 then Inl (i_errno (inodes f d)) else Inr d)"

definition sys_stat :: "fsys \<Rightarrow> string \<Rightarrow> inode option" where
  "sys_stat f path = map_option (inodes f) (map_of (links f) path)"

text \<open>The directory a path lies in: the path up to its last slash.\<close>

definition dir_of :: "string \<Rightarrow> string" where
  "dir_of path = rev (drop 1 (dropWhile (\<lambda>c. c \<noteq> CHR ''/'') (rev path)))"

definition dir_exists :: "fsys \<Rightarrow> string \<Rightarrow> bool" where
  "dir_exists f path \<longleftrightarrow> path = [] \<or> path \<in> set (dirs f)"

definition sys_create :: "fsys \<Rightarrow> string \<Rightarrow> int + nat \<times> fsys" where
  \<comment> \<open>\<open>open\<close> with \<open>O_CREAT | O_EXCL\<close>\<close>
  "sys_create f path =
     (if map_of (links f) path \<noteq> None then Inl EEXIST
      else if \<not> dir_exists f (dir_of path) then Inl ENOENT
      else Inr (next_ino f,
        f\<lparr>links := (path, next_ino f) # links f,
          inodes := (inodes f)(next_ino f :=
            \<lparr>i_data = [], i_uid = euid f, i_mtime = now f, i_errno = 0\<rparr>),
          next_ino := Suc (next_ino f)\<rparr>))"

definition sys_open_trunc :: "fsys \<Rightarrow> string \<Rightarrow> int + nat \<times> fsys" where
  \<comment> \<open>\<open>open\<close> with \<open>O_CREAT | O_TRUNC\<close>\<close>
  "sys_open_trunc f path =
     (if map_of (links f) path = None then sys_create f path
      else case sys_open f path of Inl e \<Rightarrow> Inl e | Inr d \<Rightarrow> Inr (d, set_data f d []))"

definition sys_unlink :: "fsys \<Rightarrow> string \<Rightarrow> int \<times> fsys" where
  "sys_unlink f path =
     (if map_of (links f) path = None then (ENOENT, f)
      else (0, f\<lparr>links := filter (\<lambda>e. fst e \<noteq> path) (links f)\<rparr>))"

definition sys_mkdir :: "fsys \<Rightarrow> string \<Rightarrow> int \<times> fsys" where
  "sys_mkdir f path =
     (if path \<in> set (dirs f) \<or> map_of (links f) path \<noteq> None then (EEXIST, f)
      else if \<not> dir_exists f (dir_of path) then (ENOENT, f)
      else (0, f\<lparr>dirs := path # dirs f\<rparr>))"

definition sys_rmdir :: "fsys \<Rightarrow> string \<Rightarrow> int \<times> fsys" where
  "sys_rmdir f path =
     (if path \<notin> set (dirs f) then (ENOENT, f)
      else if list_ex (\<lambda>e. dir_of (fst e) = path) (links f)
           \<or> list_ex (\<lambda>q. q \<noteq> path \<and> dir_of q = path) (dirs f) then (ENOTEMPTY, f)
      else (0, f\<lparr>dirs := removeAll path (dirs f)\<rparr>))"

definition sys_rename :: "fsys \<Rightarrow> string \<Rightarrow> string \<Rightarrow> int \<times> fsys" where
  "sys_rename f old new =
     (case map_of (links f) old of
        None \<Rightarrow> (ENOENT, f)
      | Some d \<Rightarrow> (0, f\<lparr>links := (new, d) # filter (\<lambda>e. fst e \<noteq> new \<and> fst e \<noteq> old) (links f)\<rparr>))"

lemma sys_write_ok:
  "faults f = [] \<Longrightarrow>
   sys_write f d pos bs = (int (length bs), set_data f d (overwrite pos bs (fdata f d)))"
  by (simp add: sys_write_def)

text \<open>A write returns \<open>-1\<close> or everything, and touches no other file.\<close>

lemma sys_write_result: "sys_write f d pos bs = (r, f') \<Longrightarrow> r = -1 \<or> r = int (length bs)"
  by (auto simp: sys_write_def split: list.splits bool.splits)

lemma sys_write_data:
  "sys_write f d pos bs = (r, f') \<Longrightarrow>
   fdata f' d' = (if d' = d \<and> r \<ge> 0 then overwrite pos bs (fdata f d) else fdata f d')"
  by (auto simp: sys_write_def split: list.splits bool.splits)

lemma sys_write_frame:
  assumes "sys_write f d pos bs = (r, f')"
  shows "links f' = links f" and "dirs f' = dirs f" and "next_ino f' = next_ino f"
    and "euid f' = euid f" and "now f' = now f"
    and "i_uid (inodes f' d') = i_uid (inodes f d')"
    and "i_errno (inodes f' d') = i_errno (inodes f d')"
    and "d' \<noteq> d \<Longrightarrow> inodes f' d' = inodes f d'"
    and "faults f = [] \<Longrightarrow> faults f' = []"
  using assms by (auto simp: sys_write_def split: list.splits bool.splits)

end
