(* ===== verification/Byte_File.thy ===== *)
theory Byte_File
  imports Unix
begin

text \<open>
  The interface between the code that keeps records in a file and the file itself: \<open>rd\<close> reads a
  range, \<open>wr\<close> overwrites one, \<open>view\<close> is the contents a reader sees.  The laws are those that
  \<open>read_super\<close>, \<open>read_chain\<close> and their writing counterparts rely on.  A plain UNIX file provides
  the interface here, an atomic file does in \<open>Atom\<close>, and the control file of the open meeting
  (which is one or the other, by the flag \<open>nuclear\<close>) in \<open>Coreutil\<close>.
\<close>

text \<open>What a reader sees at a position: zeros past the end.\<close>

definition byte_at :: "bytes \<Rightarrow> nat \<Rightarrow> char" where
  "byte_at v i = (if i < length v then v ! i else NUL)"

lemma slice_byte_at:
  assumes "\<And>i. i < n \<Longrightarrow> byte_at xs (pos + i) = byte_at ys (qos + i)"
    and "pos + n \<le> length xs" and "qos + n \<le> length ys"
  shows "slice pos n xs = slice qos n ys"
proof (intro nth_equalityI)
  show "length (slice pos n xs) = length (slice qos n ys)" using assms by simp
  fix i assume "i < length (slice pos n xs)"
  with assms(2) have "i < n" by simp
  with assms(1) [of i] assms(2,3) show "slice pos n xs ! i = slice qos n ys ! i"
    by (simp add: byte_at_def)
qed

lemma byte_at_overwrite:
  "byte_at (overwrite pos bs xs) i =
     (if pos \<le> i \<and> i < pos + length bs then bs ! (i - pos) else byte_at xs i)"
proof (cases "i < length (overwrite pos bs xs)")
  case True
  then show ?thesis by (auto simp: byte_at_def nth_overwrite)
next
  case False
  then show ?thesis by (auto simp: byte_at_def length_overwrite split: if_splits)
qed

lemma byte_at_pad_to [simp]: "byte_at (pad_to n xs) i = byte_at xs i"
  by (auto simp: byte_at_def nth_pad_to)

lemma list_eq_byte_at:
  "length xs = length ys \<Longrightarrow> (\<And>i. byte_at xs i = byte_at ys i) \<Longrightarrow> xs = ys"
  by (metis (no_types, lifting) byte_at_def nth_equalityI)

text \<open>\<open>written v pos b v'\<close>: the view \<open>v'\<close> is \<open>v\<close> with \<open>b\<close> written at \<open>pos\<close>, possibly extended.\<close>

definition written :: "bytes \<Rightarrow> nat \<Rightarrow> bytes \<Rightarrow> bytes \<Rightarrow> bool" where
  "written v pos b v' \<longleftrightarrow>
     length v \<le> length v' \<and> pos + length b \<le> length v' \<and>
     (\<forall>i. byte_at v' i = (if pos \<le> i \<and> i < pos + length b then b ! (i - pos) else byte_at v i))"

lemma written_overwrite: "b \<noteq> [] \<Longrightarrow> written v pos b (overwrite pos b v)"
  by (auto simp: written_def byte_at_overwrite length_overwrite)

lemma written_same: "written v pos b v' \<Longrightarrow> slice pos (length b) v' = b"
  by (intro nth_equalityI)
    (auto simp: written_def byte_at_def slice_def split: if_splits)

lemma written_other:
  assumes "written v pos b v'" and "q + n \<le> pos \<or> pos + length b \<le> q" and "q + n \<le> length v"
  shows "slice q n v' = slice q n v"
  using assms by (intro slice_byte_at) (auto simp: written_def)

lemma written_length: "written v pos b v' \<Longrightarrow> length v \<le> length v' \<and> pos + length b \<le> length v'"
  by (simp add: written_def)

lemma written_trans:
  assumes "written v pos a w" and "written w (pos + length a) b u"
  shows "written v pos (a @ b) u"
  using assms by (auto simp: written_def nth_append)

lemma written_pad_to: "written (pad_to n v) pos b u \<Longrightarrow> written v pos b u"
  by (simp add: written_def)

lemma pad_to_pad_to [simp]: "pad_to n (pad_to m xs) = pad_to (max n m) xs"
  by (rule list_eq_byte_at) simp_all

locale byte_file =
  fixes rd :: "'s \<Rightarrow> nat \<Rightarrow> nat \<Rightarrow> bytes option"
    and wr :: "'s \<Rightarrow> nat \<Rightarrow> bytes \<Rightarrow> 's option"
    and view :: "'s \<Rightarrow> bytes"
    and ok :: "'s \<Rightarrow> bool"
    and lim :: nat
  assumes rd_view: "ok s \<Longrightarrow> 0 < n \<Longrightarrow> pos + n \<le> length (view s) \<Longrightarrow> pos + n \<le> lim \<Longrightarrow>
      rd s pos n = Some (slice pos n (view s))"
    and wr_view: "ok s \<Longrightarrow> b \<noteq> [] \<Longrightarrow> pos + length b \<le> lim \<Longrightarrow>
      \<exists>s'. wr s pos b = Some s' \<and> ok s' \<and> written (view s) pos b (view s')"
begin

lemma wr_obtain:
  assumes "ok s" and "b \<noteq> []" and "pos + length b \<le> lim"
  obtains s' where "wr s pos b = Some s'" and "ok s'" and "written (view s) pos b (view s')"
  using wr_view [OF assms] by blast

text \<open>A read gives what the last write of the range put there.\<close>

lemma rd_after_wr:
  assumes "ok s" and "b \<noteq> []" and "pos + length b \<le> lim" and "wr s pos b = Some s'"
  shows "rd s' pos (length b) = Some b"
proof -
  from wr_view [OF assms(1-3)] assms(4)
  have "ok s'" and w: "written (view s) pos b (view s')" by auto
  with assms(2,3) written_length [OF w] written_same [OF w] show ?thesis
    by (simp add: rd_view)
qed

text \<open>A write elsewhere does not change what a read gives.\<close>

lemma rd_wr_disjoint:
  assumes "ok s" and "b \<noteq> []" and "pos + length b \<le> lim" and "wr s pos b = Some s'"
    and "q + n \<le> pos \<or> pos + length b \<le> q" and "q + n \<le> length (view s)" and "q + n \<le> lim" and "0 < n"
  shows "rd s' q n = rd s q n"
proof -
  from wr_view [OF assms(1-3)] assms(4)
  have ok': "ok s'" and w: "written (view s) pos b (view s')" by auto
  from written_length [OF w] assms(6) have "q + n \<le> length (view s')" by simp
  with ok' assms written_other [OF w assms(5,6)] show ?thesis
    by (simp add: rd_view)
qed

text \<open>Two writes to the same range: the second one counts.\<close>

lemma rd_after_wr_wr:
  assumes "ok s" and "b \<noteq> []" and "pos + length b \<le> lim" and "wr s pos b = Some s1"
    and "wr s1 pos c = Some s2" and "length c = length b"
  shows "rd s2 pos (length b) = Some c"
proof -
  from wr_view [OF assms(1-3)] assms(4) have "ok s1" by auto
  moreover from assms(2,6) have "c \<noteq> []" by auto
  ultimately show ?thesis using rd_after_wr [of s1 c pos s2] assms(3,5,6) by simp
qed

end

subsection \<open>Plain files\<close>

type_synonym ufile = "fsys \<times> nat"

definition plain_rd :: "ufile \<Rightarrow> nat \<Rightarrow> nat \<Rightarrow> bytes option" where
  "plain_rd u pos n = Some (sys_read (fst u) (snd u) pos n)"

definition plain_wr :: "ufile \<Rightarrow> nat \<Rightarrow> bytes \<Rightarrow> ufile option" where
  "plain_wr u pos b = Some (snd (sys_write (fst u) (snd u) pos b), snd u)"

definition plain_view :: "ufile \<Rightarrow> bytes" where
  "plain_view u = fdata (fst u) (snd u)"

definition plain_ok :: "ufile \<Rightarrow> bool" where
  "plain_ok u \<longleftrightarrow> faults (fst u) = []"

interpretation plain: byte_file plain_rd plain_wr plain_view plain_ok lim for lim
proof
  fix s :: ufile and n pos :: nat
  assume "plain_ok s" "0 < n" "pos + n \<le> length (plain_view s)" "pos + n \<le> lim"
  show "plain_rd s pos n = Some (slice pos n (plain_view s))"
    by (simp add: plain_rd_def plain_view_def sys_read_def)
next
  fix s :: ufile and b :: bytes and pos :: nat
  assume "plain_ok s" "b \<noteq> []" "pos + length b \<le> lim"
  then show "\<exists>s'. plain_wr s pos b = Some s' \<and> plain_ok s' \<and>
      written (plain_view s) pos b (plain_view s')"
    by (simp add: plain_wr_def plain_ok_def plain_view_def sys_write_ok written_overwrite)
qed

end
