(* ===== verification/Atom.thy ===== *)
theory Atom
  imports Byte_File
begin

text \<open>
  The atomic files of \<^verbatim>\<open>athena/bin/discuss/server/atom.c\<close>.  An atomic file keeps every block
  that was written in memory and puts the blocks into the file when it is closed; when it is
  aborted the blocks are dropped and the file gets its old length back.  The directory of dirty
  blocks is the C list of \<open>dir_blk\<close>s of at most 24 entries, the block numbers are 16 bits wide.

  The theory also states what a client of a file of bytes relies on, as the locale
  \<open>byte_file\<close>, and proves that plain UNIX files and atomic files both provide it.
\<close>

definition ABLOCKSIZE :: nat where "ABLOCKSIZE = 512"
definition ABLKSINDIR :: nat where "ABLKSINDIR = 24"
definition BLOCK_NUMS :: nat where "BLOCK_NUMS = 65536" \<comment> \<open>values of an \<open>unsigned short\<close>\<close>

lemmas block_consts = ABLOCKSIZE_def ABLKSINDIR_def BLOCK_NUMS_def

type_synonym dir_blk = "(nat \<times> bytes) list"

record afile =
  a_desc :: nat
  dir_list :: "dir_blk list"
  dirty_blks :: nat
  file_size :: nat

definition aopen :: "fsys \<Rightarrow> nat \<Rightarrow> afile" where
  "aopen f d = \<lparr>a_desc = d, dir_list = [], dirty_blks = 0, file_size = length (fdata f d)\<rparr>"

text \<open>The first entry with the number, in the order of the \<open>dir_blk\<close>s.\<close>

definition find_block :: "afile \<Rightarrow> nat \<Rightarrow> bytes option" where
  "find_block af bn = map_of (concat (dir_list af)) bn"

definition add_block :: "afile \<Rightarrow> nat \<Rightarrow> bytes \<Rightarrow> afile" where
  "add_block af bn b =
     (let dl = (case dir_list af of [] \<Rightarrow> [[]] | d # ds \<Rightarrow> d # ds);
          db = hd dl;
          dl' = (if ABLKSINDIR \<le> length db then [(bn, b)] # dl
                 else (db @ [(bn, b)]) # tl dl)
      in af\<lparr>dir_list := dl', dirty_blks := Suc (dirty_blks af)\<rparr>)"

text \<open>
  \<open>memcpy\<close> into the block that \<open>find_block\<close> returned a pointer to.  A number occurs once in
  the directory, because \<open>add_block\<close> is only called after \<open>find_block\<close> found nothing.
\<close>

definition put_block :: "afile \<Rightarrow> nat \<Rightarrow> bytes \<Rightarrow> afile" where
  "put_block af bn b =
     af\<lparr>dir_list := map (map (\<lambda>(k, v). (k, if k = bn then b else v))) (dir_list af)\<rparr>"

text \<open>
  The loops over the blocks \<open>bstart \<dots> bend\<close>.  \<open>Some r\<close> as the first component is the
  \<open>goto read_error\<close> (\<open>write_error\<close>) with the value the C function then returns.
\<close>

fun aread_loop :: "afile \<Rightarrow> fsys \<Rightarrow> nat list \<Rightarrow> nat \<Rightarrow> nat \<Rightarrow> int option \<times> bytes" where
  "aread_loop af f [] offset numleft = (None, [])"
| "aread_loop af f (bn # bns) offset numleft =
     (let toread = min numleft (ABLOCKSIZE - offset) in
      case find_block af bn of
        None \<Rightarrow>
          (let got = sys_read f (a_desc af) (bn * ABLOCKSIZE + offset) toread in
           if length got \<noteq> toread then (Some (int (length got)), got)
           else (let (r, rest) = aread_loop af f bns 0 (numleft - toread) in (r, got @ rest)))
      | Some b \<Rightarrow>
          (let (r, rest) = aread_loop af f bns 0 (numleft - toread)
           in (r, slice offset toread b @ rest)))"

text \<open>
  \<open>bn <= bend\<close> is always true for a 16-bit \<open>bn\<close> when \<open>bend\<close> is 65535: the loop then only
  ends through an error, and otherwise never (\<open>None\<close>).
\<close>

definition aread :: "afile \<Rightarrow> fsys \<Rightarrow> nat \<Rightarrow> nat \<Rightarrow> (int \<times> bytes) option" where
  "aread af f nbytes pos =
     (let hi = pos + nbytes - 1;
          bstart = pos div ABLOCKSIZE mod BLOCK_NUMS;
          bend = hi div ABLOCKSIZE mod BLOCK_NUMS;
          offset = pos mod ABLOCKSIZE;
          (r, buf) = aread_loop af f [bstart ..< Suc bend] offset nbytes
      in case r of
           Some e \<Rightarrow> Some (e, buf)
         | None \<Rightarrow> if Suc bend = BLOCK_NUMS then None else Some (int nbytes, buf))"

fun awrite_loop :: "afile \<Rightarrow> fsys \<Rightarrow> nat list \<Rightarrow> nat \<Rightarrow> bytes \<Rightarrow> int option \<times> afile \<times> fsys" where
  "awrite_loop af f [] offset src = (None, af, f)"
| "awrite_loop af f (bn # bns) offset src =
     (let towrite = min (ABLOCKSIZE - offset) (length src) in
      case find_block af bn of
        None \<Rightarrow>
          (let b = pad_to ABLOCKSIZE (sys_read f (a_desc af) (bn * ABLOCKSIZE) ABLOCKSIZE);
               (r, f') = sys_write f (a_desc af) (bn * ABLOCKSIZE) b
           in if r < 0 then (Some r, af, f')
              else awrite_loop
                     (put_block (add_block af bn b) bn (overwrite offset (take towrite src) b))
                     f' bns 0 (drop towrite src))
      | Some b \<Rightarrow>
          awrite_loop (put_block af bn (overwrite offset (take towrite src) b))
            f bns 0 (drop towrite src))"

definition awrite :: "afile \<Rightarrow> fsys \<Rightarrow> bytes \<Rightarrow> nat \<Rightarrow> (int \<times> afile \<times> fsys) option" where
  "awrite af f buf pos =
     (let nbytes = length buf;
          hi = pos + nbytes - 1;
          bstart = pos div ABLOCKSIZE mod BLOCK_NUMS;
          bend = hi div ABLOCKSIZE mod BLOCK_NUMS;
          offset = pos mod ABLOCKSIZE;
          (r, af', f') = awrite_loop af f [bstart ..< Suc bend] offset buf
      in case r of
           Some e \<Rightarrow> Some (e, af', f')
         | None \<Rightarrow> if Suc bend = BLOCK_NUMS then None else Some (int nbytes, af', f'))"

text \<open>Every dirty block is written; the results of the writes are not looked at.\<close>

fun write_blocks :: "fsys \<Rightarrow> nat \<Rightarrow> (nat \<times> bytes) list \<Rightarrow> fsys" where
  "write_blocks f d [] = f"
| "write_blocks f d ((bn, b) # bs) =
     write_blocks (snd (sys_write f d (bn * ABLOCKSIZE) b)) d bs"

definition aclose :: "afile \<Rightarrow> fsys \<Rightarrow> fsys" where
  "aclose af f = write_blocks f (a_desc af) (concat (dir_list af))"

definition aabort :: "afile \<Rightarrow> fsys \<Rightarrow> fsys" where
  "aabort af f = sys_ftruncate f (a_desc af) (file_size af)"

subsection \<open>The directory of dirty blocks\<close>

definition entries :: "afile \<Rightarrow> (nat \<times> bytes) list" where
  "entries af = concat (dir_list af)"

lemma find_block_entries: "find_block af bn = map_of (entries af) bn"
  by (simp add: find_block_def entries_def)

text \<open>\<open>add_block\<close> inserts one entry somewhere; the others keep their order.\<close>

lemma entries_add_block:
  "\<exists>xs ys. entries af = xs @ ys \<and> entries (add_block af bn b) = xs @ (bn, b) # ys"
proof (cases "dir_list af")
  case Nil
  then show ?thesis by (simp add: entries_def add_block_def block_consts)
next
  case (Cons d ds)
  show ?thesis
  proof (cases "ABLKSINDIR \<le> length d")
    case True
    with Cons have "entries af = [] @ (d @ concat ds)"
      "entries (add_block af bn b) = [] @ (bn, b) # (d @ concat ds)"
      by (simp_all add: entries_def add_block_def)
    then show ?thesis by blast
  next
    case False
    with Cons have "entries af = d @ concat ds"
      "entries (add_block af bn b) = d @ (bn, b) # concat ds"
      by (simp_all add: entries_def add_block_def)
    then show ?thesis by blast
  qed
qed

lemma entries_put_block:
  "entries (put_block af bn b) = map (\<lambda>(k, v). (k, if k = bn then b else v)) (entries af)"
  by (simp add: entries_def put_block_def map_concat)

lemma block_fields [simp]:
  "a_desc (add_block af bn b) = a_desc af" "file_size (add_block af bn b) = file_size af"
  "a_desc (put_block af bn b) = a_desc af" "file_size (put_block af bn b) = file_size af"
  by (simp_all add: add_block_def put_block_def Let_def)

lemma map_of_map_key:
  "map_of (map (\<lambda>(k, v). (k, if k = bn then b else v)) xs) k =
     (if k = bn \<and> map_of xs k \<noteq> None then Some b else map_of xs k)"
  by (induction xs) auto

lemma find_put_block [simp]:
  "find_block (put_block af bn b) k =
     (if k = bn \<and> find_block af k \<noteq> None then Some b else find_block af k)"
  unfolding find_block_entries entries_put_block by (rule map_of_map_key)

lemma find_add_block:
  assumes "find_block af bn = None"
  shows "find_block (add_block af bn b) k = (if k = bn then Some b else find_block af k)"
proof -
  obtain xs ys where xy: "entries af = xs @ ys" "entries (add_block af bn b) = xs @ (bn, b) # ys"
    using entries_add_block by blast
  with assms have "map_of xs bn = None"
    by (simp add: find_block_entries map_add_None)
  with xy show ?thesis
    by (auto simp: find_block_entries map_add_def split: option.splits)
qed

subsection \<open>The invariant and the contents a reader sees\<close>

text \<open>
  A dirty block has its full length and lies inside the file, because \<open>awrite\<close> writes the
  block back before it keeps it.
\<close>

definition af_ok :: "afile \<Rightarrow> fsys \<Rightarrow> bool" where
  "af_ok af f \<longleftrightarrow> distinct (map fst (entries af)) \<and>
     (\<forall>(bn, b) \<in> set (entries af).
        length b = ABLOCKSIZE \<and> Suc bn * ABLOCKSIZE \<le> length (fdata f (a_desc af)))"

definition aview :: "afile \<Rightarrow> fsys \<Rightarrow> bytes" where
  "aview af f = map (\<lambda>p. case find_block af (p div ABLOCKSIZE) of
       Some b \<Rightarrow> b ! (p mod ABLOCKSIZE) | None \<Rightarrow> fdata f (a_desc af) ! p)
     [0 ..< length (fdata f (a_desc af))]"

lemma length_aview [simp]: "length (aview af f) = length (fdata f (a_desc af))"
  by (simp add: aview_def)

lemma nth_aview:
  "p < length (fdata f (a_desc af)) \<Longrightarrow>
   aview af f ! p = (case find_block af (p div ABLOCKSIZE) of
       Some b \<Rightarrow> b ! (p mod ABLOCKSIZE) | None \<Rightarrow> fdata f (a_desc af) ! p)"
  by (simp add: aview_def split: option.split)

lemma af_ok_block:
  assumes "af_ok af f" and "find_block af bn = Some b"
  shows "length b = ABLOCKSIZE" and "Suc bn * ABLOCKSIZE \<le> length (fdata f (a_desc af))"
proof -
  from assms(2) have "(bn, b) \<in> set (entries af)"
    by (simp add: find_block_entries map_of_SomeD)
  with assms(1) show "length b = ABLOCKSIZE" and "Suc bn * ABLOCKSIZE \<le> length (fdata f (a_desc af))"
    by (auto simp: af_ok_def)
qed

lemma af_ok_aopen: "af_ok (aopen f d) f"
  by (simp add: af_ok_def aopen_def entries_def)

lemma aview_aopen: "aview (aopen f d) f = fdata f d"
  by (rule nth_equalityI) (simp_all add: nth_aview find_block_def aopen_def)

lemma af_ok_put_block:
  "af_ok af f \<Longrightarrow> length b = ABLOCKSIZE \<Longrightarrow> af_ok (put_block af bn b) f"
  by (auto simp: af_ok_def entries_put_block comp_def case_prod_beta)

lemma af_ok_add_block:
  assumes "af_ok af f" and "find_block af bn = None" and "length b = ABLOCKSIZE"
    and "Suc bn * ABLOCKSIZE \<le> length (fdata f (a_desc af))"
  shows "af_ok (add_block af bn b) f"
proof -
  obtain xs ys where xy: "entries af = xs @ ys" "entries (add_block af bn b) = xs @ (bn, b) # ys"
    using entries_add_block by blast
  from assms(2) have "bn \<notin> fst ` set (entries af)"
    by (simp add: find_block_entries map_of_eq_None_iff)
  with assms xy show ?thesis by (auto simp: af_ok_def)
qed

lemma af_ok_longer:
  assumes "af_ok af f" and "length (fdata f (a_desc af)) \<le> length (fdata f' (a_desc af))"
  shows "af_ok af f'"
proof -
  from assms(1) have "\<And>bn b. (bn, b) \<in> set (entries af) \<Longrightarrow>
      length b = ABLOCKSIZE \<and> Suc bn * ABLOCKSIZE \<le> length (fdata f (a_desc af))"
    by (auto simp: af_ok_def)
  with assms show ?thesis unfolding af_ok_def by (fastforce intro: order_trans)
qed

subsection \<open>Reading\<close>

declare upt_Suc [simp del]

lemma block_div_mod:
  "off < ABLOCKSIZE \<Longrightarrow> (b * ABLOCKSIZE + off) div ABLOCKSIZE = b"
  "off < ABLOCKSIZE \<Longrightarrow> (b * ABLOCKSIZE + off) mod ABLOCKSIZE = off"
  by (simp_all add: block_consts)

lemma aview_in_block:
  assumes "off < ABLOCKSIZE" and "b * ABLOCKSIZE + off < length (fdata f (a_desc af))"
  shows "aview af f ! (b * ABLOCKSIZE + off) =
    (case find_block af b of Some v \<Rightarrow> v ! off | None \<Rightarrow> fdata f (a_desc af) ! (b * ABLOCKSIZE + off))"
  using assms by (simp add: nth_aview block_div_mod split: option.split)

lemma aview_slice_clean:
  assumes "find_block af b = None" and "off + n \<le> ABLOCKSIZE"
    and "b * ABLOCKSIZE + off + n \<le> length (fdata f (a_desc af))"
  shows "slice (b * ABLOCKSIZE + off) n (aview af f) = sys_read f (a_desc af) (b * ABLOCKSIZE + off) n"
  unfolding sys_read_def
proof (intro nth_equalityI)
  fix i assume "i < length (slice (b * ABLOCKSIZE + off) n (aview af f))"
  with assms(3) have "i < n" by simp
  with assms aview_in_block [of "off + i" b f af]
  show "slice (b * ABLOCKSIZE + off) n (aview af f) ! i =
      slice (b * ABLOCKSIZE + off) n (fdata f (a_desc af)) ! i"
    by (simp add: add.assoc)
qed (use assms in simp)

lemma aview_slice_dirty:
  assumes "find_block af b = Some v" and "length v = ABLOCKSIZE" and "off + n \<le> ABLOCKSIZE"
    and "b * ABLOCKSIZE + off + n \<le> length (fdata f (a_desc af))"
  shows "slice (b * ABLOCKSIZE + off) n (aview af f) = slice off n v"
proof (intro nth_equalityI)
  fix i assume "i < length (slice (b * ABLOCKSIZE + off) n (aview af f))"
  with assms(4) have "i < n" by simp
  with assms aview_in_block [of "off + i" b f af]
  show "slice (b * ABLOCKSIZE + off) n (aview af f) ! i = slice off n v ! i"
    by (simp add: add.assoc)
qed (use assms in simp)

lemma aread_loop_0 [simp]: "aread_loop af f bns off 0 = (None, [])"
  by (induction bns arbitrary: off) (auto simp: Let_def sys_read_def split: option.split)

text \<open>
  The loop over \<open>k\<close> blocks from block \<open>b\<close> on gives the view from \<open>b * 512 + off\<close> on.
\<close>

lemma aread_loop_view:
  assumes "af_ok af f" and "off < ABLOCKSIZE"
    and "b * ABLOCKSIZE + off + n \<le> length (fdata f (a_desc af))"
    and "off + n \<le> k * ABLOCKSIZE"
  shows "aread_loop af f [b ..< b + k] off n = (None, slice (b * ABLOCKSIZE + off) n (aview af f))"
  using assms
proof (induction k arbitrary: b off n)
  case 0
  then show ?case by simp
next
  case (Suc k)
  define t where "t = min n (ABLOCKSIZE - off)"
  have t: "t \<le> n" "off + t \<le> ABLOCKSIZE"
    using Suc.prems(2) by (auto simp: t_def)
  have rest: "aread_loop af f [Suc b ..< Suc b + k] 0 (n - t) =
      (None, slice (Suc b * ABLOCKSIZE) (n - t) (aview af f))"
  proof (cases "n - t = 0")
    case False
    then have "off + t = ABLOCKSIZE" using Suc.prems(2) by (auto simp: t_def)
    with Suc.IH [of 0 "Suc b" "n - t"] Suc.prems t show ?thesis
      by (simp add: ABLOCKSIZE_def)
  qed simp
  have join: "slice (b * ABLOCKSIZE + off) n (aview af f) =
      slice (b * ABLOCKSIZE + off) t (aview af f) @ slice (Suc b * ABLOCKSIZE) (n - t) (aview af f)"
  proof (cases "n \<le> ABLOCKSIZE - off")
    case True
    then show ?thesis by (simp add: t_def)
  next
    case False
    with Suc.prems(2) have "t + (n - t) = n" and "b * ABLOCKSIZE + off + t = Suc b * ABLOCKSIZE"
      by (auto simp: t_def)
    then show ?thesis by (metis slice_add)
  qed
  have upt: "[b ..< Suc (b + k)] = b # [Suc b ..< Suc (b + k)]"
    by (simp add: upt_conv_Cons)
  show ?case
  proof (cases "find_block af b")
    case None
    have "sys_read f (a_desc af) (b * ABLOCKSIZE + off) t = slice (b * ABLOCKSIZE + off) t (aview af f)"
      using aview_slice_clean [OF None t(2)] Suc.prems(3) t(1) by simp
    moreover have "length (slice (b * ABLOCKSIZE + off) t (aview af f)) = t"
      using Suc.prems(3) t(1) by simp
    ultimately show ?thesis
      using None rest by (simp add: upt join Let_def flip: t_def)
  next
    case (Some v)
    have "slice off t v = slice (b * ABLOCKSIZE + off) t (aview af f)"
      using aview_slice_dirty [OF Some af_ok_block(1) [OF Suc.prems(1) Some] t(2), of f] Suc.prems(3) t(1)
      by simp
    then show ?thesis
      using Some rest by (simp add: upt join Let_def flip: t_def)
  qed
qed

text \<open>The largest position below the last of the 65536 blocks.\<close>

definition ALIMIT :: nat where "ALIMIT = 33553920"

lemma block_range:
  fixes pos n :: nat
  assumes "0 < n" and "pos + n \<le> ALIMIT"
  defines "b \<equiv> pos div ABLOCKSIZE" and "e \<equiv> (pos + n - 1) div ABLOCKSIZE"
  shows "b mod BLOCK_NUMS = b" and "e mod BLOCK_NUMS = e" and "Suc e \<noteq> BLOCK_NUMS"
    and "Suc e = b + Suc (e - b)" and "pos mod ABLOCKSIZE + n \<le> Suc (e - b) * ABLOCKSIZE"
    and "b * ABLOCKSIZE + pos mod ABLOCKSIZE = pos"
proof -
  have "b \<le> e" unfolding b_def e_def using assms(1) by (intro div_le_mono) simp
  moreover have "e < 65535" using assms(1,2) by (simp add: e_def block_consts ALIMIT_def)
  ultimately show "b mod BLOCK_NUMS = b" "e mod BLOCK_NUMS = e" "Suc e \<noteq> BLOCK_NUMS"
    "Suc e = b + Suc (e - b)" by (simp_all add: block_consts)
  show pos: "b * ABLOCKSIZE + pos mod ABLOCKSIZE = pos"
    by (simp add: b_def)
  have "pos + n - 1 < Suc e * ABLOCKSIZE"
    unfolding e_def by (simp add: ABLOCKSIZE_def)
  with \<open>b \<le> e\<close> pos assms(1) show "pos mod ABLOCKSIZE + n \<le> Suc (e - b) * ABLOCKSIZE"
    by (simp add: ABLOCKSIZE_def diff_mult_distrib)
qed

lemma aread_view:
  assumes "af_ok af f" and "0 < n" and "pos + n \<le> length (fdata f (a_desc af))" and "pos + n \<le> ALIMIT"
  shows "aread af f n pos = Some (int n, slice pos n (aview af f))"
proof -
  note r = block_range [OF assms(2,4)]
  have "pos mod ABLOCKSIZE < ABLOCKSIZE" by (simp add: ABLOCKSIZE_def)
  then have "aread_loop af f
      [pos div ABLOCKSIZE ..< pos div ABLOCKSIZE + Suc ((pos + n - 1) div ABLOCKSIZE - pos div ABLOCKSIZE)]
      (pos mod ABLOCKSIZE) n = (None, slice pos n (aview af f))"
    using aread_loop_view [OF assms(1) _ _ r(5), of "pos div ABLOCKSIZE"] assms(3) r(6) by simp
  then show ?thesis
    using r(1-4) by (simp add: aread_def Let_def)
qed

subsection \<open>Writing\<close>

text \<open>One round of the loop: the bytes that fall into one block.\<close>

lemma awrite_dirty_step:
  assumes "af_ok af f" and "find_block af b = Some v" and "off + length src \<le> ABLOCKSIZE" and "src \<noteq> []"
  defines "af' \<equiv> put_block af b (overwrite off src v)"
  shows "af_ok af' f" and "written (aview af f) (b * ABLOCKSIZE + off) src (aview af' f)"
    and "length (aview af' f) = length (aview af f)"
proof -
  note v = af_ok_block [OF assms(1,2)]
  have len: "length (overwrite off src v) = ABLOCKSIZE"
    using v(1) assms(3,4) by (simp add: length_overwrite)
  show "af_ok af' f" unfolding af'_def by (rule af_ok_put_block [OF assms(1) len])
  show "length (aview af' f) = length (aview af f)" by (simp add: af'_def)
  have "byte_at (aview af' f) p = (if b * ABLOCKSIZE + off \<le> p \<and> p < b * ABLOCKSIZE + off + length src
      then src ! (p - (b * ABLOCKSIZE + off)) else byte_at (aview af f) p)" for p
  proof (cases "p < length (fdata f (a_desc af))")
    case False
    with v(2) assms(3) show ?thesis by (auto simp: byte_at_def af'_def)
  next
    case True
    show ?thesis
    proof (cases "p div ABLOCKSIZE = b")
      case False
      have "\<not> (b * ABLOCKSIZE + off \<le> p \<and> p < b * ABLOCKSIZE + off + length src)"
      proof
        assume *: "b * ABLOCKSIZE + off \<le> p \<and> p < b * ABLOCKSIZE + off + length src"
        then have "b * ABLOCKSIZE \<le> p" and "p - b * ABLOCKSIZE < ABLOCKSIZE"
          using assms(3) by linarith+
        with False block_div_mod(1) [of "p - b * ABLOCKSIZE" b] show "False" by simp
      qed
      with False True show ?thesis
        by (auto simp: byte_at_def af'_def nth_aview split: option.split)
    next
      case eq: True
      define q where "q = p mod ABLOCKSIZE"
      have p: "p = b * ABLOCKSIZE + q" and q: "q < ABLOCKSIZE"
        using eq by (auto simp: q_def ABLOCKSIZE_def)
      have "aview af' f ! p = overwrite off src v ! q"
        using True eq assms(2) by (simp add: af'_def nth_aview q_def)
      moreover have "aview af f ! p = v ! q"
        using True eq assms(2) by (simp add: nth_aview q_def)
      moreover have "overwrite off src v ! q =
          (if off \<le> q \<and> q < off + length src then src ! (q - off) else v ! q)"
        using len q v(1) by (simp add: nth_overwrite)
      ultimately show ?thesis
        using True p by (simp add: byte_at_def af'_def)
    qed
  qed
  then show "written (aview af f) (b * ABLOCKSIZE + off) src (aview af' f)"
    using v(2) assms(3) by (simp add: written_def af'_def)
qed

text \<open>Fetching a clean block and writing it back makes it dirty and changes no byte of the view.\<close>

lemma pad_slice_same:
  "overwrite p (pad_to n (slice p n xs)) xs = (if n = 0 then xs else pad_to (p + n) xs)"
proof (cases "n = 0")
  case True
  then show ?thesis by (simp add: pad_to_def)
next
  case False
  have ne: "pad_to n (slice p n xs) \<noteq> []" using False by (metis length_pad_to list.size(3) max_0R max.cobounded1 le_zero_eq)
  have len: "max n (length (slice p n xs)) = n" by (simp add: length_slice)
  have "overwrite p (pad_to n (slice p n xs)) xs = pad_to (p + n) xs"
  proof (rule list_eq_byte_at)
    show "length (overwrite p (pad_to n (slice p n xs)) xs) = length (pad_to (p + n) xs)"
      using ne by (simp add: length_overwrite len)
    fix i
    show "byte_at (overwrite p (pad_to n (slice p n xs)) xs) i = byte_at (pad_to (p + n) xs) i"
      by (simp add: byte_at_overwrite len) (auto simp: byte_at_def nth_pad_to length_slice)
  qed
  with False show ?thesis by simp
qed

lemma awrite_clean_step:
  assumes "af_ok af f" and "faults f = []" and "find_block af b = None"
  defines "v \<equiv> pad_to ABLOCKSIZE (sys_read f (a_desc af) (b * ABLOCKSIZE) ABLOCKSIZE)"
  defines "f' \<equiv> snd (sys_write f (a_desc af) (b * ABLOCKSIZE) v)"
  shows "af_ok (add_block af b v) f'" and "find_block (add_block af b v) b = Some v"
    and "aview (add_block af b v) f' = pad_to (Suc b * ABLOCKSIZE) (aview af f)"
    and "fdata f' (a_desc af) = pad_to (Suc b * ABLOCKSIZE) (fdata f (a_desc af))"
proof -
  have B: "ABLOCKSIZE \<noteq> 0" by (simp add: ABLOCKSIZE_def)
  have len: "length v = ABLOCKSIZE" by (simp add: v_def sys_read_def length_slice)
  show data: "fdata f' (a_desc af) = pad_to (Suc b * ABLOCKSIZE) (fdata f (a_desc af))"
    using assms(2) B pad_slice_same [of "b * ABLOCKSIZE" ABLOCKSIZE "fdata f (a_desc af)"]
    by (simp add: f'_def v_def sys_write_ok sys_read_def add.commute)
  have "af_ok af f'"
    by (rule af_ok_longer [OF assms(1)]) (simp add: data)
  then show "af_ok (add_block af b v) f'"
    using assms(3) len by (rule af_ok_add_block) (simp add: data)
  show "find_block (add_block af b v) b = Some v"
    using assms(3) by (simp add: find_add_block)
  show "aview (add_block af b v) f' = pad_to (Suc b * ABLOCKSIZE) (aview af f)"
  proof (rule list_eq_byte_at)
    show "length (aview (add_block af b v) f') = length (pad_to (Suc b * ABLOCKSIZE) (aview af f))"
      by (simp add: data)
    fix p
    show "byte_at (aview (add_block af b v) f') p = byte_at (pad_to (Suc b * ABLOCKSIZE) (aview af f)) p"
    proof (cases "p div ABLOCKSIZE = b")
      case True
      then have p: "p = b * ABLOCKSIZE + p mod ABLOCKSIZE" and m: "p mod ABLOCKSIZE < ABLOCKSIZE"
        by (auto simp: ABLOCKSIZE_def)
      have "v ! (p mod ABLOCKSIZE) = byte_at (fdata f (a_desc af)) p"
        using p m by (simp add: v_def nth_pad_to sys_read_def length_slice byte_at_def) (metis add.commute less_diff_conv)
      with True p m show ?thesis
        by (auto simp: byte_at_def nth_aview data find_add_block [OF assms(3)] assms(3) nth_pad_to)
    next
      case False
      have "p < Suc (p div ABLOCKSIZE) * ABLOCKSIZE"
        using dividend_less_div_times [of ABLOCKSIZE p] B by simp
      with False show ?thesis
        by (auto simp: byte_at_def nth_aview data find_add_block [OF assms(3)] nth_pad_to
            split: option.split dest!: af_ok_block(2) [OF assms(1)])
    qed
  qed
qed

text \<open>
  What \<open>awrite\<close> may do to the file system, whether or not a write fails: the file is padded
  with zeros and nothing else changes.
\<close>

definition padded :: "fsys \<Rightarrow> nat \<Rightarrow> fsys \<Rightarrow> bool" where
  "padded f d f' \<longleftrightarrow> (\<exists>n. fdata f' d = pad_to n (fdata f d)) \<and>
     (\<forall>d'. d' \<noteq> d \<longrightarrow> inodes f' d' = inodes f d') \<and>
     (\<forall>d'. i_uid (inodes f' d') = i_uid (inodes f d') \<and> i_errno (inodes f' d') = i_errno (inodes f d')) \<and>
     links f' = links f \<and> dirs f' = dirs f \<and> next_ino f' = next_ino f \<and>
     euid f' = euid f \<and> now f' = now f \<and> (faults f = [] \<longrightarrow> faults f' = [])"

lemma padded_refl [simp]: "padded f d f"
  unfolding padded_def by (metis pad_to_le order_refl)

lemma padded_trans: "padded f d g \<Longrightarrow> padded g d h \<Longrightarrow> padded f d h"
  unfolding padded_def by (metis pad_to_pad_to)

lemma padded_length: "padded f d f' \<Longrightarrow> length (fdata f d) \<le> length (fdata f' d)"
  by (auto simp: padded_def)

lemma write_back_padded:
  assumes "sys_write f d (b * ABLOCKSIZE) (pad_to ABLOCKSIZE (sys_read f d (b * ABLOCKSIZE) ABLOCKSIZE)) = (r, f')"
  shows "padded f d f'"
proof -
  have B: "ABLOCKSIZE \<noteq> 0" by (simp add: ABLOCKSIZE_def)
  have "fdata f' d = fdata f d \<or> fdata f' d = pad_to (b * ABLOCKSIZE + ABLOCKSIZE) (fdata f d)"
    using sys_write_data [OF assms, of d] pad_slice_same [of "b * ABLOCKSIZE" ABLOCKSIZE "fdata f d"] B
    by (auto simp: sys_read_def)
  then have "\<exists>n. fdata f' d = pad_to n (fdata f d)" by (metis pad_to_le order_refl)
  then show ?thesis
    using sys_write_frame [OF assms] unfolding padded_def by blast
qed

text \<open>The loop keeps the invariant and never changes bytes of the file, even when it fails.\<close>

lemma awrite_loop_safe:
  assumes "af_ok af f" and "awrite_loop af f bns off src = (r, af', f')"
    and "off \<le> ABLOCKSIZE"
  shows "af_ok af' f'" and "padded f (a_desc af) f'"
    and "a_desc af' = a_desc af" and "file_size af' = file_size af"
proof -
  have "af_ok af' f' \<and> padded f (a_desc af) f' \<and> a_desc af' = a_desc af \<and> file_size af' = file_size af"
    using assms
  proof (induction bns arbitrary: af f off src)
    case Nil
    then show ?case by auto
  next
    case (Cons b bns)
    define t where "t = min (ABLOCKSIZE - off) (length src)"
    have t: "off + t \<le> ABLOCKSIZE" "length (take t src) = t"
      using Cons.prems(3) by (auto simp: t_def)
    have upd: "length (overwrite off (take t src) v) = ABLOCKSIZE" if "length v = ABLOCKSIZE" for v
      using that t by (auto simp: length_overwrite)
    show ?case
    proof (cases "find_block af b")
      case (Some v)
      define g where "g = put_block af b (overwrite off (take t src) v)"
      have "af_ok g f"
        unfolding g_def using Cons.prems(1) upd [OF af_ok_block(1) [OF Cons.prems(1) Some]]
        by (rule af_ok_put_block)
      moreover have "awrite_loop g f bns 0 (drop t src) = (r, af', f')"
        using Cons.prems(2) Some by (simp add: Let_def g_def flip: t_def)
      ultimately show ?thesis
        using Cons.IH [of g f 0 "drop t src"] by (simp add: g_def)
    next
      case None
      define v where "v = pad_to ABLOCKSIZE (sys_read f (a_desc af) (b * ABLOCKSIZE) ABLOCKSIZE)"
      obtain r1 f1 where w: "sys_write f (a_desc af) (b * ABLOCKSIZE) v = (r1, f1)"
        by fastforce
      have pad: "padded f (a_desc af) f1"
        using w unfolding v_def by (rule write_back_padded)
      have ok1: "af_ok af f1"
        using Cons.prems(1) padded_length [OF pad] by (rule af_ok_longer)
      have len: "length v = ABLOCKSIZE" by (simp add: v_def sys_read_def length_slice)
      show ?thesis
      proof (cases "r1 < 0")
        case True
        with Cons.prems(2) None w ok1 pad show ?thesis
          by (auto simp: Let_def v_def)
      next
        case False
        define g where "g = put_block (add_block af b v) b (overwrite off (take t src) v)"
        have "fdata f1 (a_desc af) = overwrite (b * ABLOCKSIZE) v (fdata f (a_desc af))"
          using sys_write_data [OF w, of "a_desc af"] False by simp
        then have "Suc b * ABLOCKSIZE \<le> length (fdata f1 (a_desc af))"
          using len by (auto simp: length_overwrite ABLOCKSIZE_def)
        then have "af_ok (add_block af b v) f1"
          by (rule af_ok_add_block [OF ok1 None len])
        then have "af_ok g f1"
          unfolding g_def using upd [OF len] by (rule af_ok_put_block)
        moreover have "awrite_loop g f1 bns 0 (drop t src) = (r, af', f')"
          using Cons.prems(2) None w False by (simp add: Let_def g_def v_def flip: t_def)
        ultimately show ?thesis
          using Cons.IH [of g f1 0 "drop t src"] padded_trans [OF pad] by (simp add: g_def)
      qed
    qed
  qed
  then show "af_ok af' f'" "padded f (a_desc af) f'" "a_desc af' = a_desc af" "file_size af' = file_size af"
    by auto
qed

text \<open>One block, dirty or not, when no write fails.\<close>

lemma awrite_block:
  assumes "af_ok af f" and "faults f = []" and "off + length src \<le> ABLOCKSIZE" and "src \<noteq> []"
    and t: "length src = min (ABLOCKSIZE - off) (length (src @ rest))"
  obtains g f1 where "awrite_loop af f (b # bns) off (src @ rest) = awrite_loop g f1 bns 0 rest"
    and "af_ok g f1" and "faults f1 = []" and "a_desc g = a_desc af"
    and "written (aview af f) (b * ABLOCKSIZE + off) src (aview g f1)"
    and "length (aview g f1) = max (Suc b * ABLOCKSIZE) (length (aview af f))"
proof (cases "find_block af b")
  case (Some v)
  define g where "g = put_block af b (overwrite off src v)"
  have "awrite_loop af f (b # bns) off (src @ rest) = awrite_loop g f bns 0 rest"
    unfolding awrite_loop.simps t [symmetric] Let_def by (simp add: Some g_def)
  moreover note awrite_dirty_step [OF assms(1) Some assms(3,4), folded g_def]
  moreover have "a_desc g = a_desc af" by (simp add: g_def)
  moreover have "length (aview af f) = max (Suc b * ABLOCKSIZE) (length (aview af f))"
    using af_ok_block(2) [OF assms(1) Some] by simp
  ultimately show ?thesis using assms(2) by (intro that [of g f]) argo+
next
  case None
  define v where "v = pad_to ABLOCKSIZE (sys_read f (a_desc af) (b * ABLOCKSIZE) ABLOCKSIZE)"
  define f1 where "f1 = snd (sys_write f (a_desc af) (b * ABLOCKSIZE) v)"
  define h where "h = add_block af b v"
  define g where "g = put_block h b (overwrite off src v)"
  note c = awrite_clean_step [OF assms(1,2) None, folded v_def, folded f1_def h_def]
  have w: "sys_write f (a_desc af) (b * ABLOCKSIZE) v = (int (length v), f1)"
    using assms(2) by (simp add: f1_def sys_write_ok)
  have "awrite_loop af f (b # bns) off (src @ rest) = awrite_loop g f1 bns 0 rest"
    unfolding awrite_loop.simps t [symmetric] Let_def v_def [symmetric] by (simp add: None w g_def h_def)
  moreover note d = awrite_dirty_step [OF c(1,2) assms(3,4), folded g_def]
  moreover have "faults f1 = []" using sys_write_frame(9) [OF w assms(2)] .
  moreover have "written (aview af f) (b * ABLOCKSIZE + off) src (aview g f1)"
    using d(2) unfolding c(3) by (rule written_pad_to)
  moreover have "length (aview g f1) = max (Suc b * ABLOCKSIZE) (length (aview af f))"
    using d(3) by (simp add: c(3))
  moreover have "a_desc g = a_desc af" by (simp add: g_def h_def)
  ultimately show ?thesis by (intro that [of g f1]) argo+
qed

lemma awrite_loop_view:
  assumes "af_ok af f" and "faults f = []" and "off < ABLOCKSIZE" and "src \<noteq> []"
    and "k * ABLOCKSIZE < off + length src" and "off + length src \<le> Suc k * ABLOCKSIZE"
  shows "\<exists>g f'. awrite_loop af f [b ..< Suc (b + k)] off src = (None, g, f') \<and>
     af_ok g f' \<and> faults f' = [] \<and> a_desc g = a_desc af \<and>
     written (aview af f) (b * ABLOCKSIZE + off) src (aview g f') \<and>
     length (aview g f') = max (Suc (b + k) * ABLOCKSIZE) (length (aview af f))"
  using assms
proof (induction k arbitrary: af f b off src)
  case 0
  then have t: "length src = min (ABLOCKSIZE - off) (length (src @ []))"
    and l: "off + length src \<le> ABLOCKSIZE" by simp_all
  obtain g f1 where "awrite_loop af f (b # []) off (src @ []) = awrite_loop g f1 [] 0 []"
    and "af_ok g f1" "faults f1 = []" "a_desc g = a_desc af"
    "written (aview af f) (b * ABLOCKSIZE + off) src (aview g f1)"
    "length (aview g f1) = max (Suc b * ABLOCKSIZE) (length (aview af f))"
    by (rule awrite_block [OF 0(1,2) l 0(4) t])
  then show ?case by (simp add: upt_conv_Cons)
next
  case (Suc k)
  define n where "n = ABLOCKSIZE - off"
  have n: "n < length src" "off + n = ABLOCKSIZE" "0 < n"
    using Suc.prems(3,5) by (auto simp: n_def)
  have upt: "[b ..< Suc (b + Suc k)] = b # [Suc b ..< Suc (Suc b + k)]"
    by (simp add: upt_conv_Cons)
  obtain g1 f1 where g1: "awrite_loop af f (b # [Suc b ..< Suc (Suc b + k)]) off (take n src @ drop n src) =
        awrite_loop g1 f1 [Suc b ..< Suc (Suc b + k)] 0 (drop n src)"
    "af_ok g1 f1" "faults f1 = []" "a_desc g1 = a_desc af"
    "written (aview af f) (b * ABLOCKSIZE + off) (take n src) (aview g1 f1)"
    "length (aview g1 f1) = max (Suc b * ABLOCKSIZE) (length (aview af f))"
    by (rule awrite_block [OF Suc.prems(1,2), of off "take n src" "drop n src" b "[Suc b ..< Suc (Suc b + k)]"])
      (use n in \<open>auto simp flip: n_def\<close>)
  obtain g f' where g: "awrite_loop g1 f1 [Suc b ..< Suc (Suc b + k)] 0 (drop n src) = (None, g, f')"
    "af_ok g f'" "faults f' = []" "a_desc g = a_desc g1"
    "written (aview g1 f1) (Suc b * ABLOCKSIZE + 0) (drop n src) (aview g f')"
    "length (aview g f') = max (Suc (Suc b + k) * ABLOCKSIZE) (length (aview g1 f1))"
  proof -
    have "0 < ABLOCKSIZE" by (simp add: ABLOCKSIZE_def)
    moreover have "drop n src \<noteq> []" using n(1) by simp
    moreover have "k * ABLOCKSIZE < 0 + length (drop n src)" and "0 + length (drop n src) \<le> Suc k * ABLOCKSIZE"
      using n Suc.prems(5,6) by auto
    ultimately show thesis
      using Suc.IH [OF g1(2,3)] that by blast
  qed
  have "b * ABLOCKSIZE + off + length (take n src) = Suc b * ABLOCKSIZE + 0"
    using n by simp
  with g1(5) g(5) have "written (aview af f) (b * ABLOCKSIZE + off) (take n src @ drop n src) (aview g f')"
    by (metis written_trans)
  then have w: "written (aview af f) (b * ABLOCKSIZE + off) src (aview g f')" by simp
  have l: "length (aview g f') = max (Suc (b + Suc k) * ABLOCKSIZE) (length (aview af f))"
    using g(6) g1(6) by (simp add: add_mult_distrib max_def)
  have "awrite_loop af f (b # [Suc b ..< Suc (Suc b + k)]) off src = (None, g, f')"
    using g1(1) g(1) unfolding append_take_drop_id by (rule trans)
  with g(2-4) g1(4) w l show ?case unfolding upt by metis
qed

lemma awrite_view:
  assumes "af_ok af f" and "faults f = []" and "buf \<noteq> []" and "pos + length buf \<le> ALIMIT"
  obtains g f' where "awrite af f buf pos = Some (int (length buf), g, f')"
    and "af_ok g f'" and "faults f' = []" and "a_desc g = a_desc af" and "file_size g = file_size af"
    and "written (aview af f) pos buf (aview g f')" and "padded f (a_desc af) f'"
proof -
  have "0 < length buf" using assms(3) by simp
  note r = block_range [OF this assms(4)]
  define b where "b = pos div ABLOCKSIZE"
  define k where "k = (pos + length buf - 1) div ABLOCKSIZE - b"
  have "k * ABLOCKSIZE < pos mod ABLOCKSIZE + length buf"
  proof -
    have "(b + k) * ABLOCKSIZE \<le> pos + length buf - 1"
      using r(4) by (simp add: k_def b_def)
    then have "b * ABLOCKSIZE + k * ABLOCKSIZE < pos + length buf"
      using \<open>0 < length buf\<close> unfolding add_mult_distrib by linarith
    with r(6) show ?thesis unfolding b_def by linarith
  qed
  moreover have "pos mod ABLOCKSIZE < ABLOCKSIZE" by (simp add: ABLOCKSIZE_def)
  ultimately obtain g f' where g: "awrite_loop af f [b ..< Suc (b + k)] (pos mod ABLOCKSIZE) buf = (None, g, f')"
    "af_ok g f'" "faults f' = []" "a_desc g = a_desc af"
    "written (aview af f) (b * ABLOCKSIZE + pos mod ABLOCKSIZE) buf (aview g f')"
    using awrite_loop_view [OF assms(1,2), of "pos mod ABLOCKSIZE" buf k b] assms(3) r(5)
    by (auto simp: k_def b_def)
  then have aw: "awrite af f buf pos = Some (int (length buf), g, f')"
    using r(1-4) by (simp add: awrite_def Let_def b_def k_def)
  have "file_size g = file_size af" and "padded f (a_desc af) f'"
    using awrite_loop_safe [OF assms(1) g(1)] by (simp_all add: ABLOCKSIZE_def)
  with aw g r(6) show ?thesis by (intro that [of g f']) (simp_all add: b_def)
qed

subsection \<open>Closing and aborting\<close>

lemma fdata_write_blocks_other:
  "d' \<noteq> d \<Longrightarrow> inodes (write_blocks f d bs) d' = inodes f d'"
proof (induction f d bs rule: write_blocks.induct)
  case (2 f d bn b bs)
  then show ?case
    using sys_write_frame(8) [of f d "bn * ABLOCKSIZE" b _ "snd (sys_write f d (bn * ABLOCKSIZE) b)" d']
    by (metis prod.collapse write_blocks.simps(2))
qed simp

lemma write_blocks_frame:
  "links (write_blocks f d bs) = links f \<and> dirs (write_blocks f d bs) = dirs f \<and>
   next_ino (write_blocks f d bs) = next_ino f \<and> euid (write_blocks f d bs) = euid f \<and>
   now (write_blocks f d bs) = now f \<and> (faults f = [] \<longrightarrow> faults (write_blocks f d bs) = []) \<and>
   i_uid (inodes (write_blocks f d bs) d') = i_uid (inodes f d') \<and>
   i_errno (inodes (write_blocks f d bs) d') = i_errno (inodes f d')"
proof (induction f d bs rule: write_blocks.induct)
  case (2 f d bn b bs)
  obtain r f1 where w: "sys_write f d (bn * ABLOCKSIZE) b = (r, f1)" by fastforce
  with 2 sys_write_frame [OF w] show ?case by simp
qed simp

lemma byte_at_write_blocks:
  assumes "faults f = []" and "distinct (map fst bs)"
    and "\<forall>(bn, b) \<in> set bs. length b = ABLOCKSIZE \<and> Suc bn * ABLOCKSIZE \<le> length (fdata f d)"
  shows "length (fdata (write_blocks f d bs) d) = length (fdata f d)"
    and "byte_at (fdata (write_blocks f d bs) d) p =
      (case map_of bs (p div ABLOCKSIZE) of Some b \<Rightarrow> b ! (p mod ABLOCKSIZE) | None \<Rightarrow> byte_at (fdata f d) p)"
proof -
  have "length (fdata (write_blocks f d bs) d) = length (fdata f d) \<and>
    byte_at (fdata (write_blocks f d bs) d) p =
      (case map_of bs (p div ABLOCKSIZE) of Some b \<Rightarrow> b ! (p mod ABLOCKSIZE) | None \<Rightarrow> byte_at (fdata f d) p)"
    using assms
  proof (induction f d bs rule: write_blocks.induct)
    case (1 f d)
    then show ?case by simp
  next
    case (2 f d bn b bs)
    define f1 where "f1 = snd (sys_write f d (bn * ABLOCKSIZE) b)"
    have b: "length b = ABLOCKSIZE" "Suc bn * ABLOCKSIZE \<le> length (fdata f d)" "b \<noteq> []"
      using "2.prems"(3) by (auto simp: ABLOCKSIZE_def)
    have data: "fdata f1 d = overwrite (bn * ABLOCKSIZE) b (fdata f d)" and nf: "faults f1 = []"
      using "2.prems"(1) by (simp_all add: f1_def sys_write_ok)
    have len: "length (fdata f1 d) = length (fdata f d)"
      using b by (simp add: data length_overwrite add.commute)
    note IH = "2.IH" [folded f1_def, OF nf]
    have byte: "byte_at (fdata f1 d) p =
        (if p div ABLOCKSIZE = bn then b ! (p mod ABLOCKSIZE) else byte_at (fdata f d) p)"
    proof -
      have "(bn * ABLOCKSIZE \<le> p \<and> p < bn * ABLOCKSIZE + ABLOCKSIZE) = (p div ABLOCKSIZE = bn)"
        by (auto simp: ABLOCKSIZE_def)
      moreover have "p - bn * ABLOCKSIZE = p mod ABLOCKSIZE" if "p div ABLOCKSIZE = bn"
        using that by (auto simp: minus_div_mult_eq_mod)
      ultimately show ?thesis using b(1) by (auto simp: data byte_at_overwrite)
    qed
    have "map_of bs bn = None" using "2.prems"(2) by (simp add: map_of_eq_None_iff)
    with IH "2.prems"(2,3) len byte show ?case
      by (auto simp: f1_def [symmetric] split: option.split)
  qed
  then show "length (fdata (write_blocks f d bs) d) = length (fdata f d)"
    and "byte_at (fdata (write_blocks f d bs) d) p =
      (case map_of bs (p div ABLOCKSIZE) of Some b \<Rightarrow> b ! (p mod ABLOCKSIZE) | None \<Rightarrow> byte_at (fdata f d) p)"
    by auto
qed

text \<open>A close puts into the file what readers of the atomic file saw.\<close>

lemma aclose_view:
  assumes "af_ok af f" and "faults f = []"
  shows "fdata (aclose af f) (a_desc af) = aview af f"
proof (rule list_eq_byte_at)
  have c: "aclose af f = write_blocks f (a_desc af) (entries af)"
    by (simp add: aclose_def entries_def)
  note w = byte_at_write_blocks [OF assms(2), of "entries af" "a_desc af"]
  have ok: "distinct (map fst (entries af))"
    "\<forall>(bn, b) \<in> set (entries af). length b = ABLOCKSIZE \<and> Suc bn * ABLOCKSIZE \<le> length (fdata f (a_desc af))"
    using assms(1) by (simp_all add: af_ok_def)
  show "length (fdata (aclose af f) (a_desc af)) = length (aview af f)"
    using w(1) [OF ok] by (simp add: c)
  fix p
  have p: "p < Suc (p div ABLOCKSIZE) * ABLOCKSIZE"
    using dividend_less_div_times [of ABLOCKSIZE p] by (simp add: ABLOCKSIZE_def)
  show "byte_at (fdata (aclose af f) (a_desc af)) p = byte_at (aview af f) p"
  proof (cases "find_block af (p div ABLOCKSIZE)")
    case None
    then show ?thesis
      unfolding c w(2) [OF ok] by (simp add: byte_at_def nth_aview find_block_entries)
  next
    case (Some b)
    with af_ok_block(2) [OF assms(1) Some] p have "p < length (fdata f (a_desc af))" by linarith
    with Some show ?thesis
      unfolding c w(2) [OF ok] by (simp add: byte_at_def nth_aview find_block_entries)
  qed
qed

text \<open>An abort leaves the bytes that were in the file when it was opened.\<close>

lemma aabort_restores:
  assumes "fdata f (a_desc af) = pad_to n orig" and "file_size af = length orig"
  shows "fdata (aabort af f) (a_desc af) = orig"
  using assms by (simp add: aabort_def sys_ftruncate_def pad_to_def)

subsection \<open>Atomic files provide the interface\<close>

type_synonym atom_file = "afile \<times> fsys"

definition atom_rd :: "atom_file \<Rightarrow> nat \<Rightarrow> nat \<Rightarrow> bytes option" where
  "atom_rd a pos n = map_option snd (aread (fst a) (snd a) n pos)"

definition atom_wr :: "atom_file \<Rightarrow> nat \<Rightarrow> bytes \<Rightarrow> atom_file option" where
  "atom_wr a pos b = map_option snd (awrite (fst a) (snd a) b pos)"

definition atom_view :: "atom_file \<Rightarrow> bytes" where
  "atom_view a = aview (fst a) (snd a)"

definition atom_ok :: "atom_file \<Rightarrow> bool" where
  "atom_ok a \<longleftrightarrow> af_ok (fst a) (snd a) \<and> faults (snd a) = []"

interpretation atom: byte_file atom_rd atom_wr atom_view atom_ok ALIMIT
proof
  fix s :: atom_file and n pos :: nat
  assume "atom_ok s" "0 < n" "pos + n \<le> length (atom_view s)" "pos + n \<le> ALIMIT"
  then show "atom_rd s pos n = Some (slice pos n (atom_view s))"
    by (simp add: atom_rd_def atom_view_def atom_ok_def aread_view)
next
  fix s :: atom_file and b :: bytes and pos :: nat
  assume a: "atom_ok s" "b \<noteq> []" "pos + length b \<le> ALIMIT"
  then obtain g f' where "awrite (fst s) (snd s) b pos = Some (int (length b), g, f')"
    and "af_ok g f'" "faults f' = []" "written (aview (fst s) (snd s)) pos b (aview g f')"
    by (auto simp: atom_ok_def elim: awrite_view [of "fst s" "snd s" b pos])
  then show "\<exists>s'. atom_wr s pos b = Some s' \<and> atom_ok s' \<and> written (atom_view s) pos b (atom_view s')"
    by (simp add: atom_wr_def atom_ok_def atom_view_def)
qed

subsection \<open>Whole sessions: open, write, and close or abort\<close>

text \<open>The writes of a session in order, with the results \<open>awrite\<close> returned.\<close>

fun awrites :: "afile \<Rightarrow> fsys \<Rightarrow> (nat \<times> bytes) list \<Rightarrow> (int list \<times> afile \<times> fsys) option" where
  "awrites af f [] = Some ([], af, f)"
| "awrites af f ((pos, b) # ws) =
     do { (r, af1, f1) \<leftarrow> awrite af f b pos;
          (rs, af2, f2) \<leftarrow> awrites af1 f1 ws;
          Some (r # rs, af2, f2) }"

fun plain_writes :: "bytes \<Rightarrow> (nat \<times> bytes) list \<Rightarrow> bytes" where
  "plain_writes v [] = v"
| "plain_writes v ((pos, b) # ws) = plain_writes (overwrite pos b v) ws"

definition write_ok :: "nat \<times> bytes \<Rightarrow> bool" where
  "write_ok w \<longleftrightarrow> snd w \<noteq> [] \<and> fst w + length (snd w) \<le> ALIMIT"

lemma byte_at_plain_writes_cong:
  "(\<And>i. byte_at v i = byte_at u i) \<Longrightarrow> byte_at (plain_writes v ws) i = byte_at (plain_writes u ws) i"
  by (induction v ws arbitrary: u rule: plain_writes.induct) (auto simp: byte_at_overwrite)

lemma awrites_view:
  assumes "af_ok af f" and "faults f = []" and "\<forall>w \<in> set ws. write_ok w"
  shows "\<exists>g f'. awrites af f ws = Some (map (\<lambda>w. int (length (snd w))) ws, g, f') \<and>
    af_ok g f' \<and> faults f' = [] \<and> a_desc g = a_desc af \<and>
    (\<forall>i. byte_at (aview g f') i = byte_at (plain_writes (aview af f) ws) i)"
  using assms
proof (induction ws arbitrary: af f)
  case Nil
  then show ?case by simp
next
  case (Cons w ws)
  obtain pos b where w: "w = (pos, b)" by fastforce
  from Cons.prems w have "b \<noteq> []" "pos + length b \<le> ALIMIT" by (auto simp: write_ok_def)
  with Cons.prems(1,2) obtain g f1 where g: "awrite af f b pos = Some (int (length b), g, f1)"
    "af_ok g f1" "faults f1 = []" "a_desc g = a_desc af" "written (aview af f) pos b (aview g f1)"
    by (rule awrite_view)
  from g(5) have "byte_at (aview g f1) i = byte_at (overwrite pos b (aview af f)) i" for i
    by (simp add: written_def byte_at_overwrite)
  then have v: "byte_at (plain_writes (aview g f1) ws) i = byte_at (plain_writes (overwrite pos b (aview af f)) ws) i" for i
    by (rule byte_at_plain_writes_cong)
  from Cons.IH [OF g(2,3)] Cons.prems(3) g(1,4) w v show ?case by auto
qed

lemma awrites_safe:
  assumes "af_ok af f" and "awrites af f ws = Some (rs, g, f')"
  shows "af_ok g f' \<and> padded f (a_desc af) f' \<and> a_desc g = a_desc af \<and> file_size g = file_size af"
  using assms
proof (induction ws arbitrary: af f rs)
  case Nil
  then show ?case by simp
next
  case (Cons w ws)
  obtain pos b where w: "w = (pos, b)" by fastforce
  with Cons.prems(2) obtain r g1 f1 rs' where
    aw: "awrite af f b pos = Some (r, g1, f1)" and rest: "awrites g1 f1 ws = Some (rs', g, f')"
    by (auto simp: bind_eq_Some_conv)
  obtain e bns where "awrite_loop af f bns (pos mod ABLOCKSIZE) b = (e, g1, f1)"
    using aw by (auto simp: awrite_def Let_def split: prod.splits option.splits if_splits)
  from awrite_loop_safe [OF Cons.prems(1) this] Cons.IH [OF _ rest] show ?case
    by (auto simp: ABLOCKSIZE_def intro: padded_trans)
qed

text \<open>
  C16. Committing: if no write of the disk fails, every \<open>awrite\<close> reports success, and after
  \<open>aclose\<close> the file holds what the same writes made directly would have left (it may be
  longer, by zeros up to the end of a block).
\<close>

theorem atom_commit:
  assumes "faults f = []" and "\<forall>w \<in> set ws. write_ok w"
  shows "\<exists>g f'. awrites (aopen f d) f ws = Some (map (\<lambda>w. int (length (snd w))) ws, g, f') \<and>
    (\<forall>i. byte_at (fdata (aclose g f') d) i = byte_at (plain_writes (fdata f d) ws) i)"
proof -
  obtain g f' where g: "awrites (aopen f d) f ws = Some (map (\<lambda>w. int (length (snd w))) ws, g, f')"
    "af_ok g f'" "faults f' = []" "a_desc g = a_desc (aopen f d)"
    "\<forall>i. byte_at (aview g f') i = byte_at (plain_writes (aview (aopen f d) f) ws) i"
    using awrites_view [OF af_ok_aopen assms] by blast
  then have "fdata (aclose g f') d = aview g f'"
    using aclose_view [OF g(2,3)] by (simp add: aopen_def)
  with g show ?thesis by (auto simp: aview_aopen)
qed

definition demo_fs :: "bool list \<Rightarrow> fsys" where
  "demo_fs fs = \<lparr>dirs = [], links = [],
     inodes = (\<lambda>_. \<lparr>i_data = ''abcdef'', i_uid = 0, i_mtime = 0, i_errno = 0\<rparr>),
     next_ino = 2, faults = fs, now = 0, euid = 0\<rparr>"

theorem atom_commit_witness:
  "\<exists>g f'. awrites (aopen (demo_fs []) 1) (demo_fs []) [(2, ''XY''), (600, ''Z'')] = Some ([2, 1], g, f') \<and>
    (\<forall>i. byte_at (fdata (aclose g f') 1) i =
         byte_at (plain_writes (fdata (demo_fs []) 1) [(2, ''XY''), (600, ''Z'')]) i)"
  using atom_commit [of "demo_fs []" "[(2, ''XY''), (600, ''Z'')]" 1]
  by (simp add: write_ok_def ALIMIT_def demo_fs_def)

text \<open>
  C17. Aborting: whatever was written and whichever disk writes failed, \<open>aabort\<close> leaves exactly
  the bytes the file had when it was opened and touches no other file, and until then the file
  on disk only ever has zeros appended (so a crash before \<open>aclose\<close> loses nothing either).
\<close>

theorem atom_abort:
  assumes "awrites (aopen f d) f ws = Some (rs, g, f')"
  shows "fdata (aabort g f') d = fdata f d \<and> (\<exists>n. fdata f' d = pad_to n (fdata f d)) \<and>
    (\<forall>d'. d' = d \<or> inodes (aabort g f') d' = inodes f d')"
proof -
  have *: "padded f d f'" "a_desc g = d" "file_size g = length (fdata f d)"
    using awrites_safe [OF af_ok_aopen assms] by (simp_all add: aopen_def)
  then have p: "\<exists>n. fdata f' d = pad_to n (fdata f d)" by (simp add: padded_def)
  then have "fdata (aabort g f') d = fdata f d"
    using aabort_restores [of f' g] *(2,3) by auto
  moreover have "d' = d \<or> inodes (aabort g f') d' = inodes f d'" for d'
    using * by (simp add: aabort_def sys_ftruncate_def padded_def)
  ultimately show ?thesis using p by blast
qed

theorem atom_abort_witness:
  "\<exists>rs g f'. awrites (aopen (demo_fs [False, True]) 1) (demo_fs [False, True])
      [(2, ''XY''), (600, ''Z'')] = Some (rs, g, f') \<and> rs = [2, -1] \<and>
    fdata (aabort g f') 1 = ''abcdef''"
proof -
  define f where "f = demo_fs [False, True]"
  obtain g f' where run: "awrites (aopen f 1) f [(2, ''XY''), (600, ''Z'')] = Some ([2, -1], g, f')"
    by (simp add: f_def demo_fs_def aopen_def awrite_def find_block_def sys_read_def sys_write_def
        slice_def pad_to_def block_consts add_block_def put_block_def upt_conv_Cons upt_Suc Let_def)
  from atom_abort [OF this] have "fdata (aabort g f') 1 = ''abcdef''"
    by (simp add: f_def demo_fs_def)
  with run show ?thesis unfolding f_def by blast
qed

end
