(* ===== verification/Codec.thy ===== *)
theory Codec
  imports Byte_File
begin

text \<open>
  Integers of fixed width as bytes, and records as sequences of such fields: what the on-disk
  structures of the meetings and the values on the wire have in common.
\<close>

unbundle bit_operations_syntax

subsection \<open>Integers as bytes\<close>

definition putn :: "nat \<Rightarrow> int \<Rightarrow> bytes" where
  "putn w x = map (\<lambda>i. char_of (x div 256 ^ i)) [0 ..< w]"

fun unsigned_of :: "bytes \<Rightarrow> int" where
  "unsigned_of [] = 0"
| "unsigned_of (c # cs) = of_char c + 256 * unsigned_of cs"

definition getn :: "bytes \<Rightarrow> int" where
  "getn bs = (let u = unsigned_of bs; n = 8 * length bs
              in if 2 * u < 2 ^ n then u else u - 2 ^ n)"

definition fits :: "nat \<Rightarrow> int \<Rightarrow> bool" where
  "fits w x \<longleftrightarrow> - (2 ^ (8 * w)) \<le> 2 * x \<and> 2 * x < 2 ^ (8 * w)"

lemma length_putn [simp]: "length (putn w x) = w"
  by (simp add: putn_def)

lemma putn_Suc: "putn (Suc w) x = char_of x # putn w (x div 256)"
  unfolding putn_def upt_conv_Cons [OF zero_less_Suc] map_Suc_upt [symmetric]
  by (simp add: zdiv_zmult2_eq)

lemma unsigned_putn: "unsigned_of (putn w x) = x mod 256 ^ w"
proof (induction w arbitrary: x)
  case 0
  then show ?case by (simp add: putn_def)
next
  case (Suc w)
  have "x mod 256 ^ Suc w = 256 * (x div 256 mod 256 ^ w) + x mod 256"
    by (simp add: zmod_zmult2_eq mult.commute)
  then show ?case by (simp add: putn_Suc Suc.IH)
qed

lemma getn_putn [codec]: "fits w x \<Longrightarrow> getn (putn w x) = x"
proof -
  assume f: "fits w x"
  have p: "(256::int) ^ w = 2 ^ (8 * w)" by (simp add: power_mult)
  show ?thesis
  proof (cases "0 \<le> x")
    case True
    with f have "x mod 2 ^ (8 * w) = x" by (auto simp: fits_def intro!: mod_pos_pos_trivial)
    with f True show ?thesis by (simp add: getn_def unsigned_putn p fits_def Let_def)
  next
    case False
    have "x mod 2 ^ (8 * w) = (x + 2 ^ (8 * w)) mod 2 ^ (8 * w)" by simp
    also have "\<dots> = x + 2 ^ (8 * w)"
      by (rule mod_pos_pos_trivial) (use f False in \<open>auto simp: fits_def\<close>)
    finally have "x mod 2 ^ (8 * w) = x + 2 ^ (8 * w)" .
    with f False show ?thesis by (simp add: getn_def unsigned_putn p fits_def Let_def)
  qed
qed

lemma unsigned_bounds: "0 \<le> unsigned_of bs \<and> unsigned_of bs < 2 ^ (8 * length bs)"
proof (induction bs)
  case (Cons c cs)
  have "0 \<le> (of_char c :: int)" "(of_char c :: int) < 256"
    by (auto simp: of_char_def horner_sum_of_bool_2_less [of "[_, _, _, _, _, _, _, _]", simplified] split: char.split)
  with Cons show ?case by (auto simp: power_add)
qed simp

text \<open>Whatever is read fits, so a record that was read can be written back.\<close>

lemma fits_getn [simp]: "length bs = w \<Longrightarrow> fits w (getn bs)"
  using unsigned_bounds [of bs] by (auto simp: getn_def fits_def Let_def)

subsection \<open>Records as sequences of fields\<close>

text \<open>\<open>enc\<close> and \<open>dec\<close> lay out a list of field values with the given widths.\<close>

fun enc :: "nat list \<Rightarrow> int list \<Rightarrow> bytes" where
  "enc (w # ws) (x # xs) = putn w x @ enc ws xs"
| "enc _ _ = []"

fun dec :: "nat list \<Rightarrow> bytes \<Rightarrow> int list" where
  "dec [] bs = []"
| "dec (w # ws) bs = getn (take w bs) # dec ws (drop w bs)"

lemma length_enc: "length xs = length ws \<Longrightarrow> length (enc ws xs) = sum_list ws"
  by (induction ws xs rule: enc.induct) auto

lemma length_dec [simp]: "length (dec ws bs) = length ws"
  by (induction ws bs rule: dec.induct) auto

lemma dec_enc: "list_all2 fits ws xs \<Longrightarrow> dec ws (enc ws xs) = xs"
  by (induction ws xs rule: list_all2_induct) (auto simp: codec)

lemma fits_dec: "sum_list ws \<le> length bs \<Longrightarrow> list_all2 fits ws (dec ws bs)"
  by (induction ws bs rule: dec.induct) auto

subsection \<open>Signed C types\<close>

text \<open>\<open>i32\<close> and \<open>i16\<close> are what an assignment to an \<open>int\<close> and to a \<open>short\<close> keeps.\<close>

abbreviation i32 :: "int \<Rightarrow> int" where "i32 \<equiv> signed_take_bit 31"
abbreviation i16 :: "int \<Rightarrow> int" where "i16 \<equiv> signed_take_bit 15"

lemma fits_i32: "fits 4 x \<longleftrightarrow> i32 x = x"
  by (auto simp: fits_def signed_take_bit_int_eq_self_iff)

lemma fits_i16: "fits 2 x \<longleftrightarrow> i16 x = x"
  by (auto simp: fits_def signed_take_bit_int_eq_self_iff)

lemma fits_i32_i16 [simp]: "fits 4 (i32 x)" "fits 2 (i16 x)"
  by (simp_all add: fits_i32 fits_i16)

lemma bit_i32: "n < 32 \<Longrightarrow> bit (i32 x) n = bit x n"
  by (simp add: bit_signed_take_bit_iff min_absorb1)

lemma bit_i16: "n < 16 \<Longrightarrow> bit (i16 x) n = bit x n"
  by (simp add: bit_signed_take_bit_iff min_absorb1)

lemma getn_signed: "length bs = Suc w \<Longrightarrow> getn bs = signed_take_bit (8 * w + 7) (unsigned_of bs)"
proof -
  assume l: "length bs = Suc w"
  have "signed_take_bit (8 * w + 7) (getn bs) = getn bs"
    using fits_getn [OF l] by (simp add: fits_def signed_take_bit_int_eq_self_iff power_add)
  moreover have "take_bit (Suc (8 * w + 7)) (getn bs) = take_bit (Suc (8 * w + 7)) (unsigned_of bs)"
    using l by (simp add: getn_def Let_def take_bit_eq_mod)
  ultimately show ?thesis by (metis signed_take_bit_eq_iff_take_bit_eq)
qed

lemma of_char_take_bit: "take_bit 8 (of_char c :: int) = of_char c"
  using of_char_mod_256 [of c, where 'a = int] by (simp add: take_bit_eq_mod)

lemma bit_unsigned_of:
  "bit (unsigned_of (c # cs)) n = (if n < 8 then bit (of_char c :: int) n else bit (unsigned_of cs) (n - 8))"
proof -
  have "unsigned_of (c # cs) = concat_bit 8 (of_char c) (unsigned_of cs)"
    by (simp add: concat_bit_eq of_char_take_bit push_bit_eq_mult)
  then show ?thesis by (auto simp: bit_concat_bit_iff)
qed

lemma bit_byte: "bit (of_char (char_of (x :: int)) :: int) n = (n < 8 \<and> bit x n)"
proof -
  have "(of_char (char_of x) :: int) = take_bit 8 x" by (simp add: take_bit_eq_mod)
  then show ?thesis by (simp add: bit_take_bit_iff)
qed

lemma div_256: "x div 256 ^ k = drop_bit (8 * k) (x :: int)"
  by (simp add: drop_bit_eq_div power_mult)

end
