(* ===== verification/Mtg.thy ===== *)
theory Mtg
  imports Codec
begin

text \<open>
  The on-disk records of a meeting, \<^verbatim>\<open>athena/bin/discuss/server/mtg.h\<close>, as C structures and as
  bytes.  Fields are \<open>int\<close>s; \<open>int\<close> fields take 4 bytes and \<open>short\<close> fields 2, low byte first
  and two's complement, and the two bytes of padding that keep the \<open>int\<close> fields aligned are
  zero.  \<open>swap_*\<close> are the byte-order conversions of \<open>coreutil.c\<close> for meetings that were written
  on a machine of the other byte order.
\<close>

unbundle bit_operations_syntax

subsection \<open>The structures\<close>

record mtg_super =
  ms_version :: int
  ms_unique :: int
  ms_first :: int
  ms_last :: int
  ms_lowest :: int
  ms_highest :: int
  ms_highest_chain :: int
  ms_date_created :: int
  ms_date_modified :: int
  ms_long_name_addr :: int
  ms_chairman_addr :: int
  ms_long_name_len :: int
  ms_chairman_len :: int
  ms_flags :: int
  ms_chain_start :: int
  ms_high_water :: int
  ms_trn_fsize :: int
  ms_highest_trn_addr :: int

record chain_blk =
  cb_version :: int
  cb_unique :: int
  cb_current :: int
  cb_prev :: int
  cb_next :: int
  cb_pref :: int
  cb_nref :: int
  cb_trn_chain :: int
  cb_trn_addr :: int
  cb_flags :: int
  cb_filler :: int
  cb_chain_fref :: int
  cb_chain_lref :: int

record trn_base =
  tb_version :: int
  tb_unique :: int
  tb_date_created :: int
  tb_long_name_addr :: int
  tb_chairman_addr :: int
  tb_long_name_len :: int
  tb_chairman_len :: int
  tb_public_flag :: int

record trn_hdr =
  th_version :: int
  th_unique :: int
  th_current :: int
  th_orig_pref :: int
  th_date_entered :: int
  th_num_lines :: int
  th_num_chars :: int
  th_prev_trn :: int
  th_subject_addr :: int
  th_author_addr :: int
  th_text_addr :: int
  th_subject_len :: int
  th_author_len :: int

definition MTG_PUBLIC :: int where "MTG_PUBLIC = 1"
definition MTG_NOZEPHYR :: int where "MTG_NOZEPHYR = 2"
definition MTG_SUPER_1 :: int where "MTG_SUPER_1 = 1"
definition MTG_SUPER_UNIQUE :: int where "MTG_SUPER_UNIQUE = 100866"
definition MTG_SUPER_UNIQUE_SWAP :: int where "MTG_SUPER_UNIQUE_SWAP = 42598656"
definition CHAIN_BLK_1 :: int where "CHAIN_BLK_1 = 1"
definition CHAIN_BLK_UNIQUE :: int where "CHAIN_BLK_UNIQUE = 102966"
definition CB_DELETED :: int where "CB_DELETED = 1"
definition TRN_BASE_1 :: int where "TRN_BASE_1 = 1"
definition TRN_BASE_UNIQUE :: int where "TRN_BASE_UNIQUE = 28990" \<comment> \<open>octal \<open>070476\<close>\<close>
definition TRN_BASE_UNIQUE_SWAP :: int where
  "TRN_BASE_UNIQUE_SWAP = 1047592960" \<comment> \<open>octal \<open>07634200000\<close>\<close>
definition TRN_HDR_1 :: int where "TRN_HDR_1 = 1"
definition TRN_HDR_UNIQUE :: int where "TRN_HDR_UNIQUE = 102463"

lemmas mtg_consts = MTG_PUBLIC_def MTG_NOZEPHYR_def MTG_SUPER_1_def MTG_SUPER_UNIQUE_def
  MTG_SUPER_UNIQUE_SWAP_def CHAIN_BLK_1_def CHAIN_BLK_UNIQUE_def CB_DELETED_def TRN_BASE_1_def
  TRN_BASE_UNIQUE_def TRN_BASE_UNIQUE_SWAP_def TRN_HDR_1_def TRN_HDR_UNIQUE_def

definition super_widths :: "nat list" where
  "super_widths = [4, 4, 4, 4, 4, 4, 4, 4, 4, 4, 4, 2, 2, 2, 2, 4, 4, 4, 4]"

definition chain_widths :: "nat list" where
  "chain_widths = [4, 4, 4, 4, 4, 4, 4, 4, 4, 2, 2, 4, 4]"

definition base_widths :: "nat list" where
  "base_widths = [4, 4, 4, 4, 4, 2, 2, 2, 2]"

definition hdr_widths :: "nat list" where
  "hdr_widths = [4, 4, 4, 4, 4, 4, 4, 4, 4, 4, 4, 2, 2]"

text \<open>The sizes of the structures, \<open>sizeof (mtg_super)\<close> and so on.\<close>

definition SUPER_SIZE :: nat where "SUPER_SIZE = 68"
definition CHAIN_SIZE :: nat where "CHAIN_SIZE = 48"
definition BASE_SIZE :: nat where "BASE_SIZE = 28"
definition HDR_SIZE :: nat where "HDR_SIZE = 48"

lemmas mtg_layout = super_widths_def chain_widths_def base_widths_def hdr_widths_def
  SUPER_SIZE_def CHAIN_SIZE_def BASE_SIZE_def HDR_SIZE_def

lemma struct_sizes:
  "sum_list super_widths = SUPER_SIZE" "sum_list chain_widths = CHAIN_SIZE"
  "sum_list base_widths = BASE_SIZE" "sum_list hdr_widths = HDR_SIZE"
  by (simp_all add: mtg_layout)

definition super_fields :: "mtg_super \<Rightarrow> int list" where
  "super_fields s = [ms_version s, ms_unique s, ms_first s, ms_last s, ms_lowest s, ms_highest s,
     ms_highest_chain s, ms_date_created s, ms_date_modified s, ms_long_name_addr s,
     ms_chairman_addr s, ms_long_name_len s, ms_chairman_len s, ms_flags s, 0,
     ms_chain_start s, ms_high_water s, ms_trn_fsize s, ms_highest_trn_addr s]"

definition super_of :: "int list \<Rightarrow> mtg_super" where
  "super_of xs = \<lparr>ms_version = xs ! 0, ms_unique = xs ! 1, ms_first = xs ! 2, ms_last = xs ! 3,
     ms_lowest = xs ! 4, ms_highest = xs ! 5, ms_highest_chain = xs ! 6, ms_date_created = xs ! 7,
     ms_date_modified = xs ! 8, ms_long_name_addr = xs ! 9, ms_chairman_addr = xs ! 10,
     ms_long_name_len = xs ! 11, ms_chairman_len = xs ! 12, ms_flags = xs ! 13,
     ms_chain_start = xs ! 15, ms_high_water = xs ! 16, ms_trn_fsize = xs ! 17,
     ms_highest_trn_addr = xs ! 18\<rparr>"

definition chain_fields :: "chain_blk \<Rightarrow> int list" where
  "chain_fields c = [cb_version c, cb_unique c, cb_current c, cb_prev c, cb_next c, cb_pref c,
     cb_nref c, cb_trn_chain c, cb_trn_addr c, cb_flags c, cb_filler c, cb_chain_fref c,
     cb_chain_lref c]"

definition chain_of :: "int list \<Rightarrow> chain_blk" where
  "chain_of xs = \<lparr>cb_version = xs ! 0, cb_unique = xs ! 1, cb_current = xs ! 2, cb_prev = xs ! 3,
     cb_next = xs ! 4, cb_pref = xs ! 5, cb_nref = xs ! 6, cb_trn_chain = xs ! 7,
     cb_trn_addr = xs ! 8, cb_flags = xs ! 9, cb_filler = xs ! 10, cb_chain_fref = xs ! 11,
     cb_chain_lref = xs ! 12\<rparr>"

definition base_fields :: "trn_base \<Rightarrow> int list" where
  "base_fields t = [tb_version t, tb_unique t, tb_date_created t, tb_long_name_addr t,
     tb_chairman_addr t, tb_long_name_len t, tb_chairman_len t, tb_public_flag t, 0]"

definition base_of :: "int list \<Rightarrow> trn_base" where
  "base_of xs = \<lparr>tb_version = xs ! 0, tb_unique = xs ! 1, tb_date_created = xs ! 2,
     tb_long_name_addr = xs ! 3, tb_chairman_addr = xs ! 4, tb_long_name_len = xs ! 5,
     tb_chairman_len = xs ! 6, tb_public_flag = xs ! 7\<rparr>"

definition hdr_fields :: "trn_hdr \<Rightarrow> int list" where
  "hdr_fields t = [th_version t, th_unique t, th_current t, th_orig_pref t, th_date_entered t,
     th_num_lines t, th_num_chars t, th_prev_trn t, th_subject_addr t, th_author_addr t,
     th_text_addr t, th_subject_len t, th_author_len t]"

definition hdr_of :: "int list \<Rightarrow> trn_hdr" where
  "hdr_of xs = \<lparr>th_version = xs ! 0, th_unique = xs ! 1, th_current = xs ! 2, th_orig_pref = xs ! 3,
     th_date_entered = xs ! 4, th_num_lines = xs ! 5, th_num_chars = xs ! 6, th_prev_trn = xs ! 7,
     th_subject_addr = xs ! 8, th_author_addr = xs ! 9, th_text_addr = xs ! 10,
     th_subject_len = xs ! 11, th_author_len = xs ! 12\<rparr>"

definition enc_super :: "mtg_super \<Rightarrow> bytes" where "enc_super s = enc super_widths (super_fields s)"
definition dec_super :: "bytes \<Rightarrow> mtg_super" where "dec_super bs = super_of (dec super_widths bs)"
definition enc_chain :: "chain_blk \<Rightarrow> bytes" where "enc_chain c = enc chain_widths (chain_fields c)"
definition dec_chain :: "bytes \<Rightarrow> chain_blk" where "dec_chain bs = chain_of (dec chain_widths bs)"
definition enc_base :: "trn_base \<Rightarrow> bytes" where "enc_base t = enc base_widths (base_fields t)"
definition dec_base :: "bytes \<Rightarrow> trn_base" where "dec_base bs = base_of (dec base_widths bs)"
definition enc_hdr :: "trn_hdr \<Rightarrow> bytes" where "enc_hdr t = enc hdr_widths (hdr_fields t)"
definition dec_hdr :: "bytes \<Rightarrow> trn_hdr" where "dec_hdr bs = hdr_of (dec hdr_widths bs)"

text \<open>
  A structure whose fields fit their C types.  The fields are \<open>int\<close> in memory; the counters that the code increments in place are cut to their
  widths when the structure is encoded.
\<close>

definition super_ok :: "mtg_super \<Rightarrow> bool" where "super_ok s \<longleftrightarrow> list_all2 fits super_widths (super_fields s)"
definition chain_ok :: "chain_blk \<Rightarrow> bool" where "chain_ok c \<longleftrightarrow> list_all2 fits chain_widths (chain_fields c)"
definition base_ok :: "trn_base \<Rightarrow> bool" where "base_ok t \<longleftrightarrow> list_all2 fits base_widths (base_fields t)"
definition hdr_ok :: "trn_hdr \<Rightarrow> bool" where "hdr_ok t \<longleftrightarrow> list_all2 fits hdr_widths (hdr_fields t)"

lemma length_enc_structs [codec, simp]:
  "length (enc_super s) = SUPER_SIZE" "length (enc_chain c) = CHAIN_SIZE"
  "length (enc_base b) = BASE_SIZE" "length (enc_hdr t) = HDR_SIZE"
  by (simp_all add: enc_super_def enc_chain_def enc_base_def enc_hdr_def length_enc super_fields_def
      chain_fields_def base_fields_def hdr_fields_def mtg_layout)

lemma super_of_fields: "super_of (super_fields s) = s"
  by (simp add: super_of_def super_fields_def)

lemma chain_of_fields: "chain_of (chain_fields c) = c"
  by (simp add: chain_of_def chain_fields_def)

lemma base_of_fields: "base_of (base_fields t) = t"
  by (simp add: base_of_def base_fields_def)

lemma hdr_of_fields: "hdr_of (hdr_fields t) = t"
  by (simp add: hdr_of_def hdr_fields_def)

text \<open>Round trips: what is written and read back is the same structure.\<close>

lemma dec_enc_super [codec]: "super_ok s \<Longrightarrow> dec_super (enc_super s) = s"
  by (simp add: dec_super_def enc_super_def super_ok_def dec_enc super_of_fields)

lemma dec_enc_chain [codec]: "chain_ok c \<Longrightarrow> dec_chain (enc_chain c) = c"
  by (simp add: dec_chain_def enc_chain_def chain_ok_def dec_enc chain_of_fields)

lemma dec_enc_base [codec]: "base_ok b \<Longrightarrow> dec_base (enc_base b) = b"
  by (simp add: dec_base_def enc_base_def base_ok_def dec_enc base_of_fields)

lemma dec_enc_hdr [codec]: "hdr_ok t \<Longrightarrow> dec_hdr (enc_hdr t) = t"
  by (simp add: dec_hdr_def enc_hdr_def hdr_ok_def dec_enc hdr_of_fields)

subsection \<open>Byte order\<close>

text \<open>
  \<open>swap_32\<close> and \<open>swap_16\<close> compute an \<open>unsigned\<close> value; the fields they are assigned to are signed,
  which is what \<open>i32\<close> and \<open>i16\<close> (truncation to a signed type) are for.
\<close>


definition swap_32 :: "int \<Rightarrow> int" where
  "swap_32 val =
     (let b1 = drop_bit 24 val AND 0xff; b2 = drop_bit 16 val AND 0xff;
          b3 = drop_bit 8 val AND 0xff; b4 = val AND 0xff
      in push_bit 24 b4 OR push_bit 16 b3 OR push_bit 8 b2 OR b1)"

definition swap_16 :: "int \<Rightarrow> int" where
  "swap_16 val =
     (let b1 = drop_bit 8 val AND 0xff; b2 = val AND 0xff in push_bit 8 b2 OR b1)"

lemma and_255: "x AND 0xff = take_bit 8 (x :: int)"
  by (simp add: take_bit_eq_mask mask_eq_exp_minus_1)

lemma bit_swap_32:
  "bit (swap_32 x) n \<longleftrightarrow>
     (if n < 8 then bit x (n + 24) else if n < 16 then bit x (n + 8)
      else if n < 24 then bit x (n - 8) else n < 32 \<and> bit x (n - 24))"
  unfolding swap_32_def Let_def and_255 by (auto simp: bit_simps add.commute)

lemma bit_swap_16:
  "bit (swap_16 x) n \<longleftrightarrow> (if n < 8 then bit x (n + 8) else n < 16 \<and> bit x (n - 8))"
  unfolding swap_16_def Let_def and_255 by (auto simp: bit_simps add.commute)

lemma swap_32_swap_32: "i32 (swap_32 (i32 (swap_32 x))) = i32 x"
proof (rule bit_eqI)
  fix n
  have "bit (swap_32 (i32 (swap_32 x))) m = bit x m" if "m < 32" for m
  proof -
    consider "m < 8" | "8 \<le> m" "m < 16" | "16 \<le> m" "m < 24" | "24 \<le> m" by linarith
    then show ?thesis by cases (use that in \<open>auto simp: bit_swap_32 bit_i32\<close>)
  qed
  then show "bit (i32 (swap_32 (i32 (swap_32 x)))) n = bit (i32 x) n"
    by (simp add: bit_signed_take_bit_iff)
qed

lemma swap_16_swap_16: "i16 (swap_16 (i16 (swap_16 x))) = i16 x"
proof (rule bit_eqI)
  fix n
  have "bit (swap_16 (i16 (swap_16 x))) m = bit x m" if "m < 16" for m
  proof -
    consider "m < 8" | "8 \<le> m" by linarith
    then show ?thesis by cases (use that in \<open>auto simp: bit_swap_16 bit_i16\<close>)
  qed
  then show "bit (i16 (swap_16 (i16 (swap_16 x)))) n = bit (i16 x) n"
    by (simp add: bit_signed_take_bit_iff)
qed

text \<open>
  The byte order of the other machines: every field with its bytes reversed.
\<close>

fun enc_rev :: "nat list \<Rightarrow> int list \<Rightarrow> bytes" where
  "enc_rev (w # ws) (x # xs) = rev (putn w x) @ enc_rev ws xs"
| "enc_rev _ _ = []"

lemma getn_rev_putn_4: "getn (rev (putn 4 x)) = i32 (swap_32 x)"
proof -
  have "getn (rev (putn 4 x)) = i32 (unsigned_of (rev (putn 4 x)))"
    using getn_signed [of "rev (putn 4 x)" 3] by simp
  also have "\<dots> = i32 (swap_32 x)"
  proof (rule bit_eqI)
    fix n
    have "bit (unsigned_of (rev (putn 4 x))) m = bit (swap_32 x) m" for m
      by (auto simp: putn_def upt_rec div_256 bit_unsigned_of bit_byte bit_swap_32 bit_drop_bit_eq add.commute simp del: unsigned_of.simps(2) of_char_of)
    then show "bit (i32 (unsigned_of (rev (putn 4 x)))) n = bit (i32 (swap_32 x)) n"
      by (simp add: bit_signed_take_bit_iff)
  qed
  finally show ?thesis .
qed

lemma getn_rev_putn_2: "getn (rev (putn 2 x)) = i16 (swap_16 x)"
proof -
  have "getn (rev (putn 2 x)) = i16 (unsigned_of (rev (putn 2 x)))"
    using getn_signed [of "rev (putn 2 x)" 1] by simp
  also have "\<dots> = i16 (swap_16 x)"
  proof (rule bit_eqI)
    fix n
    have "bit (unsigned_of (rev (putn 2 x))) m = bit (swap_16 x) m" for m
      by (auto simp: putn_def upt_rec div_256 bit_unsigned_of bit_byte bit_swap_16 bit_drop_bit_eq
          add.commute simp del: unsigned_of.simps(2) of_char_of)
    then show "bit (i16 (unsigned_of (rev (putn 2 x)))) n = bit (i16 (swap_16 x)) n"
      by (simp add: bit_signed_take_bit_iff)
  qed
  finally show ?thesis .
qed

definition swap_super :: "mtg_super \<Rightarrow> mtg_super" where
  "swap_super s = \<lparr>ms_version = i32 (swap_32 (ms_version s)), ms_unique = i32 (swap_32 (ms_unique s)),
     ms_first = i32 (swap_32 (ms_first s)), ms_last = i32 (swap_32 (ms_last s)),
     ms_lowest = i32 (swap_32 (ms_lowest s)), ms_highest = i32 (swap_32 (ms_highest s)),
     ms_highest_chain = i32 (swap_32 (ms_highest_chain s)),
     ms_date_created = i32 (swap_32 (ms_date_created s)),
     ms_date_modified = i32 (swap_32 (ms_date_modified s)),
     ms_long_name_addr = i32 (swap_32 (ms_long_name_addr s)),
     ms_chairman_addr = i32 (swap_32 (ms_chairman_addr s)),
     ms_long_name_len = i16 (swap_16 (ms_long_name_len s)),
     ms_chairman_len = i16 (swap_16 (ms_chairman_len s)), ms_flags = i16 (swap_16 (ms_flags s)),
     ms_chain_start = i32 (swap_32 (ms_chain_start s)), ms_high_water = i32 (swap_32 (ms_high_water s)),
     ms_trn_fsize = i32 (swap_32 (ms_trn_fsize s)),
     ms_highest_trn_addr = i32 (swap_32 (ms_highest_trn_addr s))\<rparr>"

definition swap_chain :: "chain_blk \<Rightarrow> chain_blk" where
  "swap_chain c = \<lparr>cb_version = i32 (swap_32 (cb_version c)), cb_unique = i32 (swap_32 (cb_unique c)),
     cb_current = i32 (swap_32 (cb_current c)), cb_prev = i32 (swap_32 (cb_prev c)),
     cb_next = i32 (swap_32 (cb_next c)), cb_pref = i32 (swap_32 (cb_pref c)),
     cb_nref = i32 (swap_32 (cb_nref c)), cb_trn_chain = i32 (swap_32 (cb_trn_chain c)),
     cb_trn_addr = i32 (swap_32 (cb_trn_addr c)), cb_flags = i16 (swap_16 (cb_flags c)),
     cb_filler = i16 (swap_16 (cb_filler c)), cb_chain_fref = i32 (swap_32 (cb_chain_fref c)),
     cb_chain_lref = i32 (swap_32 (cb_chain_lref c))\<rparr>"

definition swap_trn_base :: "trn_base \<Rightarrow> trn_base" where
  "swap_trn_base t = \<lparr>tb_version = i32 (swap_32 (tb_version t)), tb_unique = i32 (swap_32 (tb_unique t)),
     tb_date_created = i32 (swap_32 (tb_date_created t)),
     tb_long_name_addr = i32 (swap_32 (tb_long_name_addr t)),
     tb_chairman_addr = i32 (swap_32 (tb_chairman_addr t)),
     tb_long_name_len = i16 (swap_16 (tb_long_name_len t)),
     tb_chairman_len = i16 (swap_16 (tb_chairman_len t)),
     tb_public_flag = i16 (swap_16 (tb_public_flag t))\<rparr>"

definition swap_trn :: "trn_hdr \<Rightarrow> trn_hdr" where
  "swap_trn t = \<lparr>th_version = i32 (swap_32 (th_version t)), th_unique = i32 (swap_32 (th_unique t)),
     th_current = i32 (swap_32 (th_current t)), th_orig_pref = i32 (swap_32 (th_orig_pref t)),
     th_date_entered = i32 (swap_32 (th_date_entered t)),
     th_num_lines = i32 (swap_32 (th_num_lines t)), th_num_chars = i32 (swap_32 (th_num_chars t)),
     th_prev_trn = i32 (swap_32 (th_prev_trn t)), th_subject_addr = i32 (swap_32 (th_subject_addr t)),
     th_author_addr = i32 (swap_32 (th_author_addr t)), th_text_addr = i32 (swap_32 (th_text_addr t)),
     th_subject_len = i16 (swap_16 (th_subject_len t)),
     th_author_len = i16 (swap_16 (th_author_len t))\<rparr>"

text \<open>Swapping twice is the identity on values that fit their fields.\<close>

lemma swap_super_twice [simp]: "super_ok s \<Longrightarrow> swap_super (swap_super s) = s"
  by (cases s) (simp add: super_ok_def super_fields_def super_widths_def fits_i32 fits_i16
      swap_super_def swap_32_swap_32 swap_16_swap_16)

lemma swap_chain_twice [simp]: "chain_ok c \<Longrightarrow> swap_chain (swap_chain c) = c"
  by (cases c) (simp add: chain_ok_def chain_fields_def chain_widths_def fits_i32 fits_i16
      swap_chain_def swap_32_swap_32 swap_16_swap_16)

lemma swap_trn_base_twice [simp]: "base_ok t \<Longrightarrow> swap_trn_base (swap_trn_base t) = t"
  by (cases t) (simp add: base_ok_def base_fields_def base_widths_def fits_i32 fits_i16
      swap_trn_base_def swap_32_swap_32 swap_16_swap_16)

lemma swap_trn_twice [simp]: "hdr_ok t \<Longrightarrow> swap_trn (swap_trn t) = t"
  by (cases t) (simp add: hdr_ok_def hdr_fields_def hdr_widths_def fits_i32 fits_i16
      swap_trn_def swap_32_swap_32 swap_16_swap_16)

lemma swap_ok [simp]:
  "super_ok (swap_super s)" "chain_ok (swap_chain c)" "base_ok (swap_trn_base b)" "hdr_ok (swap_trn h)"
  by (simp_all add: super_ok_def super_fields_def super_widths_def swap_super_def
      chain_ok_def chain_fields_def chain_widths_def swap_chain_def
      base_ok_def base_fields_def base_widths_def swap_trn_base_def
      hdr_ok_def hdr_fields_def hdr_widths_def swap_trn_def) (simp_all add: fits_def)

text \<open>What a machine of the other byte order wrote, read and swapped.\<close>

lemma dec_enc_rev:
  "length xs = length ws \<Longrightarrow> dec ws (enc_rev ws xs) = map2 (\<lambda>w x. getn (rev (putn w x))) ws xs"
  by (induction ws xs rule: enc_rev.induct) auto

lemma foreign_structs:
  "dec_super (enc_rev super_widths (super_fields s)) = swap_super s"
  "dec_chain (enc_rev chain_widths (chain_fields c)) = swap_chain c"
  "dec_base (enc_rev base_widths (base_fields b)) = swap_trn_base b"
  "dec_hdr (enc_rev hdr_widths (hdr_fields h)) = swap_trn h"
     apply (simp add: dec_super_def dec_enc_rev super_fields_def super_widths_def super_of_def
      swap_super_def getn_rev_putn_4 getn_rev_putn_2 nth_Cons')
    apply (simp add: dec_chain_def dec_enc_rev chain_fields_def chain_widths_def chain_of_def
      swap_chain_def getn_rev_putn_4 getn_rev_putn_2 nth_Cons')
   apply (simp add: dec_base_def dec_enc_rev base_fields_def base_widths_def base_of_def
      swap_trn_base_def getn_rev_putn_4 getn_rev_putn_2 nth_Cons')
  apply (simp add: dec_hdr_def dec_enc_rev hdr_fields_def hdr_widths_def hdr_of_def
      swap_trn_def getn_rev_putn_4 getn_rev_putn_2 nth_Cons')
  done

text \<open>
  C31. A meeting from a machine of the other byte order: reading each of the four structures and
  swapping it gives the structure that machine wrote, and the two \<open>_SWAP\<close> magic numbers are
  exactly what such a machine's superblock and transaction base carry in their \<open>unique\<close> field.
\<close>

theorem foreign_meeting:
  assumes "super_ok s" and "chain_ok c" and "base_ok b" and "hdr_ok h"
  shows "swap_super (dec_super (enc_rev super_widths (super_fields s))) = s \<and>
    swap_chain (dec_chain (enc_rev chain_widths (chain_fields c))) = c \<and>
    swap_trn_base (dec_base (enc_rev base_widths (base_fields b))) = b \<and>
    swap_trn (dec_hdr (enc_rev hdr_widths (hdr_fields h))) = h \<and>
    i32 (swap_32 MTG_SUPER_UNIQUE) = MTG_SUPER_UNIQUE_SWAP \<and>
    i32 (swap_32 TRN_BASE_UNIQUE) = TRN_BASE_UNIQUE_SWAP"
  using assms by (simp add: foreign_structs) (simp add: swap_32_def mtg_consts Let_def)

theorem foreign_meeting_witness:
  "let s = super_of [1, 100866, 0, 0, 1, 0, 0, 42, 42, 68, 80, 12, 9, 1, 0, 1024, 1024, 49, 0];
       c = chain_of [1, 102966, 1, 0, 0, 0, 0, 1, 49, 0, 0, 1, -1];
       b = base_of [1, 28990, 42, 28, 40, 12, 9, 1, 0];
       h = hdr_of [1, 102463, 1, 0, 77, 2, 300, 0, 97, 105, 120, 8, 15]
   in swap_chain (dec_chain (enc_rev chain_widths (chain_fields c))) = c \<and>
      swap_super (dec_super (enc_rev super_widths (super_fields s))) = s \<and>
      swap_trn_base (dec_base (enc_rev base_widths (base_fields b))) = b \<and>
      swap_trn (dec_hdr (enc_rev hdr_widths (hdr_fields h))) = h"
  unfolding Let_def
  using foreign_meeting [of "super_of [1, 100866, 0, 0, 1, 0, 0, 42, 42, 68, 80, 12, 9, 1, 0, 1024, 1024, 49, 0]"
      "chain_of [1, 102966, 1, 0, 0, 0, 0, 1, 49, 0, 0, 1, -1]"
      "base_of [1, 28990, 42, 28, 40, 12, 9, 1, 0]"
      "hdr_of [1, 102463, 1, 0, 77, 2, 300, 0, 97, 105, 120, 8, 15]"]
  by (simp add: super_ok_def chain_ok_def base_ok_def hdr_ok_def super_fields_def chain_fields_def
      base_fields_def hdr_fields_def mtg_layout super_of_def chain_of_def base_of_def hdr_of_def fits_def)

end
