(* ===== verification/Acl.thy ===== *)
theory Acl
  imports Unix
begin

text \<open>
  Access control lists, \<^verbatim>\<open>athena/bin/discuss/server/acl.c\<close>.  A list is the sequence of its
  entries, which is searched in order; the entry with principal \<open>*\<close> stands for everyone and is
  kept last.  Strings are C strings.

  Two operations of the file depend on memory that nobody wrote, and this is kept:
  \<^item> \<open>acl_is_subset\<close> of an empty string returns an uninitialised variable (\<open>None\<close>);
  \<^item> \<open>acl_union\<close> searches a buffer whose terminating zero it has overwritten, so the search goes
    on into what happens to follow in memory: the argument \<open>junk\<close>.
\<close>

record acl_entry =
  principal :: string
  modes :: string

type_synonym acl = "acl_entry list"

abbreviation STAR :: string where "STAR \<equiv> ''*''"

subsection \<open>Sets of modes\<close>

text \<open>\<open>last\<close> is the variable of that name: \<open>None\<close> as long as it is not assigned.\<close>

fun subset_loop :: "bool option \<Rightarrow> string \<Rightarrow> string \<Rightarrow> bool option" where
  "subset_loop lst [] s2 = lst"
| "subset_loop lst (c # cs) s2 = (if c \<in> set s2 then subset_loop (Some True) cs s2 else Some False)"

definition acl_is_subset :: "string \<Rightarrow> string \<Rightarrow> bool option" where
  "acl_is_subset s1 s2 = subset_loop None s1 s2"

definition acl_intersection :: "string \<Rightarrow> string \<Rightarrow> string" where
  "acl_intersection s1 s2 = filter (\<lambda>c. c \<in> set s2) s1"

definition acl_subtract :: "string \<Rightarrow> string \<Rightarrow> string" where
  "acl_subtract s1 s2 = filter (\<lambda>c. c \<notin> set s1) s2"

text \<open>
  \<open>dirty\<close> is true once the terminating zero of the result has been overwritten.
\<close>

fun union_loop :: "string \<Rightarrow> bool \<Rightarrow> string \<Rightarrow> string \<Rightarrow> string" where
  "union_loop junk dirty [] result = result"
| "union_loop junk dirty (c # cs) result =
     (if c \<in> set (if dirty then result @ junk else result) then union_loop junk dirty cs result
      else union_loop junk True cs (result @ [c]))"

definition acl_union :: "string \<Rightarrow> string \<Rightarrow> string \<Rightarrow> string" where
  "acl_union junk s1 s2 = union_loop junk False s1 s2"

definition acl_canon :: "string \<Rightarrow> string \<Rightarrow> bool \<times> string" where
  \<comment> \<open>the first component is \<open>*code == BAD_MODES\<close>\<close>
  "acl_canon s1 s2 =
     (list_ex (\<lambda>c. c \<noteq> CHR '' '' \<and> c \<notin> set s2) s1,
      map (\<lambda>c. if c \<in> set s1 then c else CHR '' '') s2)"

subsection \<open>Lists\<close>

fun acl_check :: "acl \<Rightarrow> string \<Rightarrow> string \<Rightarrow> bool option" where
  "acl_check [] princ ms = Some False"
| "acl_check (ae # aes) princ ms =
     (if princ = principal ae \<or> principal ae = STAR then acl_is_subset ms (modes ae)
      else acl_check aes princ ms)"

fun acl_get_access :: "acl \<Rightarrow> string \<Rightarrow> string" where
  "acl_get_access [] princ = []"
| "acl_get_access (ae # aes) princ =
     (if principal ae = princ \<or> principal ae = STAR then modes ae else acl_get_access aes princ)"

definition acl_create :: acl where
  "acl_create = []"

definition acl_copy :: "acl \<Rightarrow> acl" where
  "acl_copy old_acl = map (\<lambda>ae. \<lparr>principal = principal ae, modes = modes ae\<rparr>) old_acl"

text \<open>The loops that look for the principal and change its entry.\<close>

fun acl_update :: "string \<Rightarrow> (string \<Rightarrow> string) \<Rightarrow> acl \<Rightarrow> acl option" where
  "acl_update princ f [] = None"
| "acl_update princ f (ae # aes) =
     (if principal ae = princ then Some (ae\<lparr>modes := f (modes ae)\<rparr> # aes)
      else map_option ((#) ae) (acl_update princ f aes))"

definition acl_insert :: "acl \<Rightarrow> acl_entry \<Rightarrow> acl" where
  "acl_insert list new =
     (if list \<noteq> [] \<and> principal (last list) = STAR then butlast list @ [new, last list]
      else list @ [new])"

definition acl_add_access :: "string \<Rightarrow> acl \<Rightarrow> string \<Rightarrow> string \<Rightarrow> acl" where
  "acl_add_access junk list princ ms =
     (case acl_update princ (\<lambda>old. acl_union junk ms old) list of
        Some list' \<Rightarrow> list'
      | None \<Rightarrow> acl_insert list \<lparr>principal = princ, modes = ms\<rparr>)"

definition acl_replace_access :: "string \<Rightarrow> acl \<Rightarrow> string \<Rightarrow> string \<Rightarrow> acl" where
  "acl_replace_access junk list princ ms =
     (case acl_update princ (\<lambda>_. ms) list of
        Some list' \<Rightarrow> list'
      | None \<Rightarrow> acl_add_access junk list princ ms)"

fun acl_delete_access :: "acl \<Rightarrow> string \<Rightarrow> bool \<times> acl" where
  "acl_delete_access [] princ = (False, [])"
| "acl_delete_access (ae # aes) princ =
     (if principal ae = princ then (True, aes)
      else let (r, aes') = acl_delete_access aes princ in (r, ae # aes'))"

subsection \<open>Files\<close>

text \<open>\<open>fgets (buf, n, f)\<close>: the line with its newline, or its first \<open>n - 1\<close> bytes.\<close>

fun fgets_loop :: "nat \<Rightarrow> bytes \<Rightarrow> bytes \<times> bytes" where
  "fgets_loop 0 bs = ([], bs)"
| "fgets_loop (Suc n) [] = ([], [])"
| "fgets_loop (Suc n) (b # bs) =
     (if b = NL then ([b], bs) else let (l, r) = fgets_loop n bs in (b # l, r))"

definition fgets :: "nat \<Rightarrow> bytes \<Rightarrow> (string \<times> bytes) option" where
  "fgets n bs = (if bs = [] then None else let (l, r) = fgets_loop (n - 1) bs in Some (cstr l, r))"

definition acl_parse_line :: "string \<Rightarrow> acl_entry option" where
  "acl_parse_line buf =
     (let line = takeWhile (\<lambda>c. c \<noteq> NL) buf in
      if CHR '':'' \<in> set line
      then Some \<lparr>principal = drop 1 (dropWhile (\<lambda>c. c \<noteq> CHR '':'') line),
                 modes = takeWhile (\<lambda>c. c \<noteq> CHR '':'') line\<rparr>
      else None)"

fun acl_read_lines :: "nat \<Rightarrow> bytes \<Rightarrow> acl option" where
  "acl_read_lines 0 bs = Some []"
| "acl_read_lines (Suc n) bs =
     (case fgets 128 bs of
        None \<Rightarrow> None
      | Some (buf, r) \<Rightarrow>
          (case acl_read_lines n r of
             None \<Rightarrow> None
           | Some aes \<Rightarrow> Some (case acl_parse_line buf of Some ae \<Rightarrow> ae # aes | None \<Rightarrow> aes)))"

definition acl_read :: "bytes \<Rightarrow> acl option" where
  "acl_read bs =
     (case fgets 128 bs of
        None \<Rightarrow> None
      | Some (buf, r) \<Rightarrow>
          if buf = [] \<or> \<not> is_digit (hd buf) then None else acl_read_lines (atoi buf) r)"

definition acl_line :: "acl_entry \<Rightarrow> string" where
  "acl_line ae = modes ae @ '':'' @ take 100 (principal ae) @ [NL]"

definition acl_text :: "acl \<Rightarrow> string" where
  "acl_text list = decimal (length list) @ [NL] @ concat (map acl_line list)"

text \<open>The text is shorter than the buffer of \<open>stdio\<close>, which is written by \<open>fflush\<close>.\<close>

definition acl_write :: "fsys \<Rightarrow> nat \<Rightarrow> acl \<Rightarrow> bool \<times> fsys" where
  "acl_write f fd list =
     (let (r, f') = sys_write f fd 0 (acl_text list) in (r \<ge> 0, f'))"

subsection \<open>Modes\<close>

lemma subset_loop_Some: "subset_loop (Some True) s1 s2 = Some (set s1 \<subseteq> set s2)"
  by (induction s1) auto

lemma acl_is_subset_set: "s1 \<noteq> [] \<Longrightarrow> acl_is_subset s1 s2 = Some (set s1 \<subseteq> set s2)"
  by (cases s1) (auto simp: acl_is_subset_def subset_loop_Some)

lemma set_union_loop_junk:
  "set result \<subseteq> set (union_loop junk dirty s result) \<and>
   set (union_loop junk dirty s result) \<subseteq> set result \<union> set s \<and>
   set s - set junk \<subseteq> set (union_loop junk dirty s result)"
  by (induction junk dirty s result rule: union_loop.induct) (auto split: if_splits)

lemma distinct_union_loop: "distinct result \<Longrightarrow> distinct (union_loop junk dirty s result)"
  by (induction junk dirty s result rule: union_loop.induct) auto

subsection \<open>The abstract list: a map from principals to modes\<close>

definition acl_map :: "acl \<Rightarrow> string \<Rightarrow> string option" where
  "acl_map list = map_of (map (\<lambda>ae. (principal ae, modes ae)) list)"

text \<open>Every principal occurs once, and \<open>*\<close> only at the end.\<close>

definition acl_wf :: "acl \<Rightarrow> bool" where
  "acl_wf list \<longleftrightarrow> distinct (map principal list) \<and> STAR \<notin> set (map principal (butlast list))"

definition default_modes :: "acl \<Rightarrow> string" where
  "default_modes list = (case acl_map list STAR of Some m \<Rightarrow> m | None \<Rightarrow> [])"

lemma acl_map_simps [simp]:
  "acl_map [] = Map.empty"
  "acl_map (ae # aes) = (acl_map aes)(principal ae \<mapsto> modes ae)"
  by (simp_all add: acl_map_def)

lemma acl_map_None: "acl_map list p = None \<longleftrightarrow> p \<notin> set (map principal list)"
  by (induction list) auto

lemma acl_wf_Cons:
  "acl_wf (ae # aes) \<longleftrightarrow> principal ae \<notin> set (map principal aes) \<and> acl_wf aes \<and>
     (aes = [] \<or> principal ae \<noteq> STAR)"
  by (auto simp: acl_wf_def)

lemma acl_wf_create [simp]: "acl_wf acl_create"
  by (simp add: acl_wf_def acl_create_def)

lemma acl_get_access_map:
  "acl_wf list \<Longrightarrow> acl_get_access list p = (case acl_map list p of Some m \<Rightarrow> m | None \<Rightarrow> default_modes list)"
proof (induction list)
  case (Cons ae aes)
  show ?case
  proof (cases "principal ae = STAR")
    case True
    with Cons.prems have "aes = []" by (simp add: acl_wf_Cons)
    with True show ?thesis by (simp add: default_modes_def)
  next
    case False
    then have "default_modes (ae # aes) = default_modes aes" by (simp add: default_modes_def)
    with False Cons show ?thesis by (simp add: acl_wf_Cons split: option.split)
  qed
qed (simp add: default_modes_def)

lemma acl_check_get_access:
  "ms \<noteq> [] \<Longrightarrow> acl_check list p ms = acl_is_subset ms (acl_get_access list p)"
  by (induction list) (auto simp: acl_is_subset_set)

lemma acl_update_Some:
  assumes "acl_update p f list = Some list'"
  shows "map principal list' = map principal list \<and>
    (\<exists>m. acl_map list p = Some m \<and> (distinct (map principal list) \<longrightarrow> acl_map list' = (acl_map list)(p \<mapsto> f m)))"
  using assms
proof (induction p f list arbitrary: list' rule: acl_update.induct)
  case (2 p f ae aes)
  show ?case
  proof (cases "principal ae = p")
    case True
    with 2 show ?thesis by auto
  next
    case False
    with "2.prems" obtain aes' where l: "acl_update p f aes = Some aes'" "list' = ae # aes'" by auto
    from "2.IH" [OF False l(1)] False l(2) show ?thesis by (auto simp: fun_eq_iff)
  qed
qed simp

lemma acl_update_None: "acl_update p f list = None \<longleftrightarrow> acl_map list p = None"
  by (induction p f list rule: acl_update.induct) auto

lemma acl_wf_principals: "map principal xs = map principal ys \<Longrightarrow> acl_wf xs = acl_wf ys"
  by (metis acl_wf_def map_butlast)

lemma acl_map_snoc: "acl_map (xs @ [e]) = acl_map [e] ++ acl_map xs"
  by (induction xs) (auto simp: map_add_def fun_eq_iff split: option.split)

lemma acl_insert_refines:
  assumes "acl_wf list" and "principal e \<notin> set (map principal list)"
  shows "acl_wf (acl_insert list e) \<and> acl_map (acl_insert list e) = (acl_map list)(principal e \<mapsto> modes e)"
proof (cases "list \<noteq> [] \<and> principal (last list) = STAR")
  case True
  then obtain xs l where l: "list = xs @ [l]" "principal l = STAR"
    by (metis append_butlast_last_id)
  with assms have "acl_insert list e = xs @ [e, l]" by (simp add: acl_insert_def)
  moreover have "acl_map (xs @ [e, l]) = (acl_map list)(principal e \<mapsto> modes e)"
    using assms(2) acl_map_snoc [of "xs @ [e]" l] acl_map_snoc [of xs e] acl_map_snoc [of xs l] acl_map_None [of xs "principal e"]
    by (auto simp: l fun_eq_iff map_add_def split: option.split)
  ultimately show ?thesis using assms l by (auto simp: acl_wf_def butlast_append)
next
  case False
  then have "acl_insert list e = list @ [e]" by (auto simp: acl_insert_def)
  moreover have "acl_map (list @ [e]) = (acl_map list)(principal e \<mapsto> modes e)"
    using assms(2) acl_map_None [of list "principal e"]
    by (auto simp: acl_map_snoc fun_eq_iff map_add_def split: option.split)
  moreover have "STAR \<notin> set (map principal list)"
  proof (cases "list = []")
    case n: False
    then obtain xs l where l: "list = xs @ [l]" by (metis append_butlast_last_id)
    with False assms(1) show ?thesis by (simp add: acl_wf_def)
  qed simp
  ultimately show ?thesis using assms by (auto simp: acl_wf_def)
qed

text \<open>
  The operations refine those of the map: adding, replacing and deleting.
\<close>

lemma acl_add_refines:
  assumes "acl_wf list"
  shows "acl_wf (acl_add_access junk list p ms) \<and>
    acl_map (acl_add_access junk list p ms) =
      (acl_map list)(p \<mapsto> (case acl_map list p of Some old \<Rightarrow> acl_union junk ms old | None \<Rightarrow> ms))"
proof (cases "acl_update p (\<lambda>old. acl_union junk ms old) list")
  case None
  then have p: "acl_map list p = None" by (simp add: acl_update_None)
  then have "p \<notin> set (map principal list)" by (simp add: acl_map_None)
  with acl_insert_refines [OF assms, of "\<lparr>principal = p, modes = ms\<rparr>"] None p show ?thesis
    by (simp add: acl_add_access_def)
next
  case (Some list')
  with acl_update_Some [OF Some] assms acl_wf_principals [of list' list] show ?thesis
    by (auto simp: acl_add_access_def acl_wf_def)
qed

lemma acl_replace_refines:
  assumes "acl_wf list"
  shows "acl_wf (acl_replace_access junk list p ms) \<and>
    acl_map (acl_replace_access junk list p ms) = (acl_map list)(p \<mapsto> ms)"
proof (cases "acl_update p (\<lambda>_. ms) list")
  case None
  then have "acl_map list p = None" by (simp add: acl_update_None)
  with acl_add_refines [OF assms, of junk p ms] None show ?thesis by (simp add: acl_replace_access_def)
next
  case (Some list')
  with acl_update_Some [OF Some] assms acl_wf_principals [of list' list] show ?thesis
    by (auto simp: acl_replace_access_def acl_wf_def)
qed

lemma acl_delete_refines:
  assumes "acl_wf list" and "acl_delete_access list p = (r, list')"
  shows "acl_wf list' \<and> acl_map list' = (acl_map list)(p := None) \<and> (r \<longleftrightarrow> acl_map list p \<noteq> None) \<and>
    set (map principal list') \<subseteq> set (map principal list) \<and> (list = [] \<longrightarrow> list' = [])"
  using assms
proof (induction list p arbitrary: r list' rule: acl_delete_access.induct)
  case (2 ae aes p)
  show ?case
  proof (cases "principal ae = p")
    case True
    with "2.prems" show ?thesis
      using acl_map_None [of aes p] by (auto simp: acl_wf_Cons fun_eq_iff)
  next
    case False
    obtain r1 aes1 where d: "acl_delete_access aes p = (r1, aes1)" by fastforce
    from "2.prems"(1) have "acl_wf aes" by (simp add: acl_wf_Cons)
    note IH = "2.IH" [OF False this d]
    then have "principal ae \<notin> set (map principal aes1)" using "2.prems"(1) by (auto simp: acl_wf_Cons)
    moreover have "r = r1" "list' = ae # aes1" using "2.prems"(2) False d by simp_all
    moreover from IH have "set (map principal aes1) \<subseteq> set (map principal aes)"
      "acl_map aes1 = (acl_map aes)(p := None)" by blast+
    ultimately show ?thesis using IH "2.prems"(1) False
      by (auto simp: acl_wf_Cons fun_eq_iff subset_insertI2 simp del: not_None_eq)
  qed
qed simp

subsection \<open>The contract of a list of permissions\<close>

text \<open>
  What the editing calls of \<^verbatim>\<open>acl_core.c\<close> rely on, and what follows from it.
\<close>

locale permissions =
  fixes wf :: "'l \<Rightarrow> bool"
    and listed :: "'l \<Rightarrow> string \<Rightarrow> bool"
    and lookup :: "'l \<Rightarrow> string \<Rightarrow> string"
    and everyone :: "'l \<Rightarrow> string"
    and replace :: "'l \<Rightarrow> string \<Rightarrow> string \<Rightarrow> 'l"
    and delete :: "'l \<Rightarrow> string \<Rightarrow> bool \<times> 'l"
  assumes unlisted: "wf l \<Longrightarrow> \<not> listed l p \<Longrightarrow> lookup l p = everyone l"
    and replace_wf: "wf l \<Longrightarrow> wf (replace l p m)"
    and replace_lookup: "wf l \<Longrightarrow> p \<noteq> STAR \<Longrightarrow> lookup (replace l p m) q = (if q = p then m else lookup l q)"
    and replace_listed: "wf l \<Longrightarrow> listed (replace l p m) q \<longleftrightarrow> q = p \<or> listed l q"
    and replace_everyone: "wf l \<Longrightarrow> everyone (replace l p m) = (if p = STAR then m else everyone l)"
    and delete_wf: "wf l \<Longrightarrow> wf (snd (delete l p))"
    and delete_result: "wf l \<Longrightarrow> fst (delete l p) \<longleftrightarrow> listed l p"
    and delete_lookup: "wf l \<Longrightarrow> p \<noteq> STAR \<Longrightarrow>
      lookup (snd (delete l p)) q = (if q = p then everyone l else lookup l q)"
begin

lemma replace_twice:
  "wf l \<Longrightarrow> p \<noteq> STAR \<Longrightarrow> lookup (replace (replace l p m) p n) q = lookup (replace l p n) q"
  by (simp add: replace_lookup replace_wf)

lemma replace_commute:
  "wf l \<Longrightarrow> p \<noteq> STAR \<Longrightarrow> q \<noteq> STAR \<Longrightarrow> p \<noteq> q \<Longrightarrow>
   lookup (replace (replace l p m) q n) r = lookup (replace (replace l q n) p m) r"
  by (simp add: replace_lookup replace_wf)

text \<open>Giving access and taking it back leaves an unlisted principal what everyone has.\<close>

lemma delete_after_replace:
  assumes "wf l" and "p \<noteq> STAR" and "\<not> listed l p"
  shows "fst (delete (replace l p m) p)" and "lookup (snd (delete (replace l p m) p)) q = lookup l q"
  using assms by (simp_all add: delete_result delete_lookup replace_wf replace_listed replace_lookup
      replace_everyone unlisted)

end

interpretation acl: permissions acl_wf "\<lambda>l p. acl_map l p \<noteq> None" acl_get_access default_modes
  "acl_replace_access junk" acl_delete_access for junk
proof
  fix l p m q
  assume wf: "acl_wf l"
  have dwf: "acl_wf (snd (acl_delete_access l p))"
    and dm: "acl_map (snd (acl_delete_access l p)) = (acl_map l)(p := None)"
    and dr: "fst (acl_delete_access l p) \<longleftrightarrow> acl_map l p \<noteq> None"
    using acl_delete_refines [OF wf, of p "fst (acl_delete_access l p)" "snd (acl_delete_access l p)"] by auto
  note r = acl_replace_refines [OF wf, of junk p m]
  show "\<not> acl_map l p \<noteq> None \<Longrightarrow> acl_get_access l p = default_modes l"
    using wf by (simp add: acl_get_access_map)
  show "acl_wf (acl_replace_access junk l p m)" using r by simp
  show "p \<noteq> STAR \<Longrightarrow> acl_get_access (acl_replace_access junk l p m) q = (if q = p then m else acl_get_access l q)"
    using wf r by (auto simp: acl_get_access_map default_modes_def split: option.split)
  show "acl_map (acl_replace_access junk l p m) q \<noteq> None \<longleftrightarrow> q = p \<or> acl_map l q \<noteq> None"
    using r by auto
  show "default_modes (acl_replace_access junk l p m) = (if p = STAR then m else default_modes l)"
    using r by (auto simp: default_modes_def)
  show "acl_wf (snd (acl_delete_access l p))" by (rule dwf)
  show "fst (acl_delete_access l p) \<longleftrightarrow> acl_map l p \<noteq> None" by (rule dr)
  show "p \<noteq> STAR \<Longrightarrow>
      acl_get_access (snd (acl_delete_access l p)) q = (if q = p then default_modes l else acl_get_access l q)"
    using wf dwf dm by (auto simp: acl_get_access_map default_modes_def split: option.split)
qed

text \<open>
  Editing a well-formed access list changes the access of exactly the named principal:
  after \<open>acl_replace_access\<close> he has the new modes and everyone else what they had, a principal
  who was not on the list and is added and deleted again has what \<open>*\<close> has, the list stays well
  formed (each principal once, \<open>*\<close> last), and \<open>acl_check\<close> of a non-empty set of modes is the
  subset test against \<open>acl_get_access\<close>.
\<close>

theorem acl_edit:
  assumes "acl_wf l" and "p \<noteq> STAR" and "ms \<noteq> []"
  shows "acl_wf (acl_replace_access junk l p m) \<and>
    acl_check (acl_replace_access junk l p m) q ms =
      (if q = p then Some (set ms \<subseteq> set m) else acl_check l q ms) \<and>
    (acl_map l p = None \<longrightarrow>
       (\<exists>l'. acl_delete_access (acl_replace_access junk l p m) p = (True, l') \<and> acl_wf l' \<and>
             acl_check l' q ms = acl_check l q ms))"
proof -
  define l1 where "l1 = acl_replace_access junk l p m"
  have wf1: "acl_wf l1" using acl.replace_wf [OF assms(1)] by (simp add: l1_def)
  moreover have "acl_check l1 q ms = (if q = p then Some (set ms \<subseteq> set m) else acl_check l q ms)"
    using assms acl.replace_lookup [OF assms(1,2)]
    by (simp add: acl_check_get_access acl_is_subset_set l1_def)
  moreover have "\<exists>l'. acl_delete_access l1 p = (True, l') \<and> acl_wf l' \<and> acl_check l' q ms = acl_check l q ms"
    if "acl_map l p = None"
    using acl.delete_after_replace(1) [OF assms(1,2), of junk m]
      acl.delete_after_replace(2) [OF assms(1,2), of junk m q] acl.delete_wf [OF wf1, of p] that assms(3)
    by (intro exI [of _ "snd (acl_delete_access l1 p)"])
      (auto simp: l1_def acl_check_get_access prod_eq_iff)
  ultimately show ?thesis by (simp add: l1_def)
qed

definition demo_acl :: acl where
  "demo_acl = [\<lparr>principal = ''srz'', modes = ''acdorsw''\<rparr>, \<lparr>principal = STAR, modes = ''rs''\<rparr>]"

theorem acl_edit_witness:
  "acl_check (acl_replace_access [] demo_acl ''wes'' ''rw'') ''wes'' ''w'' = Some True \<and>
   acl_check (acl_replace_access [] demo_acl ''wes'' ''rw'') ''bob'' ''w'' = acl_check demo_acl ''bob'' ''w'' \<and>
   acl_check demo_acl ''bob'' ''w'' = Some False"
  using acl_edit [of demo_acl "''wes''" "''w''" "[]" "''rw''" "''wes''"]
    acl_edit [of demo_acl "''wes''" "''w''" "[]" "''rw''" "''bob''"]
  by (simp add: demo_acl_def acl_wf_def) (simp add: acl_is_subset_set)

subsection \<open>Round trip through a file\<close>

definition entry_ok :: "acl_entry \<Rightarrow> bool" where
  "entry_ok ae \<longleftrightarrow> c_ok (modes ae) \<and> NL \<notin> set (modes ae) \<and> CHR '':'' \<notin> set (modes ae) \<and>
     c_ok (principal ae) \<and> NL \<notin> set (principal ae) \<and>
     length (modes ae) + min 100 (length (principal ae)) \<le> 125"

lemma fgets_loop_line:
  "NL \<notin> set l \<Longrightarrow> length l < n \<Longrightarrow> fgets_loop n (l @ NL # r) = (l @ [NL], r)"
proof (induction l arbitrary: n)
  case Nil
  then show ?case by (cases n) auto
next
  case (Cons c l)
  then show ?case by (cases n) auto
qed

lemma fgets_line:
  "NL \<notin> set l \<Longrightarrow> c_ok l \<Longrightarrow> length l < 127 \<Longrightarrow> fgets 128 (l @ NL # r) = Some (l @ [NL], r)"
  by (simp add: fgets_def fgets_loop_line cstr_id c_ok_def)

lemma acl_parse_acl_line:
  assumes "entry_ok ae"
  shows "acl_parse_line (acl_line ae) = Some (ae\<lparr>principal := take 100 (principal ae)\<rparr>)"
proof -
  have nl: "NL \<notin> set (modes ae @ '':'' @ take 100 (principal ae))"
    using assms set_take_subset [of 100 "principal ae"] by (auto simp: entry_ok_def)
  have "takeWhile (\<lambda>c. c \<noteq> NL) (acl_line ae) = modes ae @ '':'' @ take 100 (principal ae)"
    unfolding acl_line_def append_assoc [symmetric] using nl
    by (subst takeWhile_append2) auto
  moreover have "takeWhile (\<lambda>c. c \<noteq> CHR '':'') (modes ae @ '':'' @ take 100 (principal ae)) = modes ae"
    using assms by (subst takeWhile_append2) (auto simp: entry_ok_def)
  moreover have "dropWhile (\<lambda>c. c \<noteq> CHR '':'') (modes ae @ '':'' @ take 100 (principal ae))
      = '':'' @ take 100 (principal ae)"
    using assms by (subst dropWhile_append2) (auto simp: entry_ok_def)
  ultimately show ?thesis by (simp add: acl_parse_line_def Let_def)
qed

lemma acl_read_lines_text:
  "\<forall>ae \<in> set list. entry_ok ae \<Longrightarrow>
   acl_read_lines (length list) (concat (map acl_line list) @ r) =
     Some (map (\<lambda>ae. ae\<lparr>principal := take 100 (principal ae)\<rparr>) list)"
proof (induction list)
  case (Cons ae list)
  define l where "l = modes ae @ '':'' @ take 100 (principal ae)"
  have "entry_ok ae" using Cons.prems by simp
  then have "NL \<notin> set l" "c_ok l" "length l < 127"
    using set_take_subset [of 100 "principal ae"] by (auto simp: l_def entry_ok_def c_ok_def)
  then have "fgets 128 (acl_line ae @ concat (map acl_line list) @ r)
      = Some (acl_line ae, concat (map acl_line list) @ r)"
    using fgets_line [of l] by (simp add: acl_line_def l_def)
  with Cons acl_parse_acl_line [OF \<open>entry_ok ae\<close>] show ?case by simp
qed simp

lemma acl_read_text:
  assumes "\<forall>ae \<in> set list. entry_ok ae" and "length list < 10 ^ 100"
  shows "acl_read (acl_text list) = Some (map (\<lambda>ae. ae\<lparr>principal := take 100 (principal ae)\<rparr>) list)"
proof -
  define d where "d = decimal (length list)"
  obtain c cs where d: "d = c # cs" "is_digit c" unfolding d_def using decimal_Cons by blast
  have dec: "x \<in> set d \<Longrightarrow> is_digit x" for x using digits_decimal by (simp add: d_def)
  have "\<not> is_digit NL" "\<not> is_digit NUL" by (simp_all add: is_digit_def)
  with dec have nl: "NL \<notin> set d" "c_ok d" by (auto simp: c_ok_def)
  have len: "length (decimal n) \<le> k" if "n < 10 ^ k" "0 < k" for n k :: nat
    using that
  proof (induction n arbitrary: k rule: decimal.induct)
    case (1 n)
    show ?case
    proof (cases "n < 10")
      case True
      with 1 show ?thesis by (subst decimal.simps) simp
    next
      case False
      with 1(2,3) obtain k' where k: "k = Suc k'" "0 < k'" by (cases k; cases "k - 1") auto
      with False 1 have "length (decimal (n div 10)) \<le> k'" by auto
      with False k show ?thesis by (subst decimal.simps) simp
    qed
  qed
  from len [OF assms(2)] have "length d < 127" by (simp add: d_def)
  from fgets_line [OF nl this]
  have f1: "fgets 128 (acl_text list) = Some (d @ [NL], concat (map acl_line list))"
    by (simp add: acl_text_def d_def)
  have "atoi (d @ [NL]) = length list"
    unfolding d_def by (rule atoi_decimal) (simp add: is_digit_def)
  with f1 d acl_read_lines_text [OF assms(1), of "[]"] show ?thesis by (simp add: acl_read_def)
qed

text \<open>
  C35. Round trip: what \<open>acl_write\<close> puts into a file is what \<open>acl_read\<close> gives back, with every
  principal cut to 100 characters, for lists whose entries have no colon in the modes, no
  newline, and fit the 128 bytes of the reader's line buffer.  (Kerberos names can be longer
  than 100 characters, and then the access is given to somebody else.)
\<close>

theorem acl_file_roundtrip:
  assumes "faults f = []" and "fdata f fd = []" and "\<forall>ae \<in> set list. entry_ok ae"
    and "length list < 10 ^ 100"
  shows "\<exists>f'. acl_write f fd list = (True, f') \<and>
    acl_read (fdata f' fd) = Some (map (\<lambda>ae. ae\<lparr>principal := take 100 (principal ae)\<rparr>) list)"
  using assms(1,2) acl_read_text [OF assms(3,4)] overwrite_end [of "[]" "acl_text list"]
  by (simp add: acl_write_def sys_write_ok)

theorem acl_file_roundtrip_witness:
  "\<exists>f'. acl_write \<lparr>dirs = [], links = [], inodes = (\<lambda>_. \<lparr>i_data = [], i_uid = 0, i_mtime = 0, i_errno = 0\<rparr>),
      next_ino = 2, faults = [], now = 0, euid = 0\<rparr> 1 demo_acl = (True, f') \<and>
    acl_read (fdata f' 1) = Some demo_acl"
  using acl_file_roundtrip [of "\<lparr>dirs = [], links = [], inodes = (\<lambda>_. \<lparr>i_data = [], i_uid = 0, i_mtime = 0,
      i_errno = 0\<rparr>), next_ino = 2, faults = [], now = 0, euid = 0\<rparr>" 1 demo_acl]
  by (simp add: demo_acl_def entry_ok_def c_ok_def)

end
