(* ===== verification/Usp.thy ===== *)
theory Usp
  imports Codec
begin

text \<open>
  The Unified Stream Protocol of \<^verbatim>\<open>athena/bin/discuss/usp\<close>: \<^verbatim>\<open>internal.c\<close> (bytes and sub-blocks)
  and \<^verbatim>\<open>block.c\<close> (blocks).  A stream is two sockets' worth of bytes: \<open>us_in\<close> is what the peer
  sends until it closes the connection, \<open>us_out\<close> what has been written so far.  \<open>us_wfail\<close> says
  that the connection no longer takes bytes.  A block is a type and a sequence of sub-blocks,
  the last of which is flagged; a reader sees only the payload, the concatenated sub-blocks.

  \<open>framed\<close> is the specification of the format, which the receiving half accepts in whatever way
  the peer cuts its payload into sub-blocks, and \<open>sent\<close> and \<open>recving\<close> are the abstract states of
  the two halves in terms of payloads.
\<close>

unbundle bit_operations_syntax

datatype errno = NoErr | ECONNRESET | EPIPE | UENOTRCVING | UENOTSENDING | UECBNOTENDED
  | UEPREMEOB | UEBADATA | UENOMEM | UEINTERNAL

datatype status = SUCCESS | ERROR | CLOSED

record usp =
  us_in :: bytes
  us_out :: bytes
  us_wfail :: bool
  receiving :: bool
  last_sub :: bool
  unread :: nat
  sending :: bool
  outbuf :: bytes
  us_errno :: errno
  internal_string :: string

definition MAX_SUB_BLOCK_LENGTH :: nat where "MAX_SUB_BLOCK_LENGTH = 508"
definition EOB_FLAG :: int where "EOB_FLAG = 0x8000"
definition CONNECTION_OPEN :: int where "CONNECTION_OPEN = 10"
definition CONNECTION_ERROR :: int where "CONNECTION_ERROR = 20"
definition CONNECTION_END :: int where "CONNECTION_END = 254"
definition CONNECTION_END_REPLY :: int where "CONNECTION_END_REPLY = 255"

text \<open>Network byte order: \<open>ntohs\<close> and \<open>htons\<close> of the host's low-byte-first integers.\<close>

abbreviation be :: "nat \<Rightarrow> int \<Rightarrow> bytes" where "be w x \<equiv> rev (putn w x)"
abbreviation cardinal_of :: "bytes \<Rightarrow> int" where "cardinal_of b \<equiv> unsigned_of (rev b)"
abbreviation integer_of :: "bytes \<Rightarrow> int" where "integer_of b \<equiv> getn (rev b)"

subsection \<open>Bytes\<close>

text \<open>
  \<open>fread\<close> gives what is asked for, or what there is before the end of the stream; at the end it
  gives nothing.
\<close>

function get_from_net :: "usp \<Rightarrow> nat \<Rightarrow> status \<times> bytes \<times> usp" where
  "get_from_net us req =
     (if req = 0 then (SUCCESS, [], us)
      else let n = min req (length (us_in us)) in
        if n = 0 then
          (ERROR, [], us\<lparr>us_errno := (if us_errno us \<noteq> NoErr then us_errno us else ECONNRESET)\<rparr>)
        else let (r, b, us') = get_from_net (us\<lparr>us_in := drop n (us_in us)\<rparr>) (req - n)
          in (r, take n (us_in us) @ b, us'))"
  by auto
termination by (relation "measure snd") auto

declare get_from_net.simps [simp del]

lemma get_from_net_0 [simp]: "get_from_net us 0 = (SUCCESS, [], us)"
  by (subst get_from_net.simps) simp

lemma get_from_net_ok:
  "req \<le> length (us_in us) \<Longrightarrow>
   get_from_net us req = (SUCCESS, take req (us_in us), us\<lparr>us_in := drop req (us_in us)\<rparr>)"
  by (subst get_from_net.simps) (simp add: Let_def)

lemma get_from_net_eof:
  "length (us_in us) < req \<Longrightarrow>
   get_from_net us req = (ERROR, us_in us, us\<lparr>us_in := [],
     us_errno := (if us_errno us \<noteq> NoErr then us_errno us else ECONNRESET)\<rparr>)"
  by (subst get_from_net.simps, subst get_from_net.simps) (auto simp: Let_def min_def)

text \<open>
  \<open>fwrite\<close>, with the connection's failure as \<open>us_wfail\<close>.  What is written is on the wire at once, so that the \<open>fflush\<close> at the end
  of a block has nothing left to do.
\<close>

definition put_onto_net :: "usp \<Rightarrow> bytes \<Rightarrow> status \<times> usp" where
  "put_onto_net us buf =
     (let bytes_sent = (if us_wfail us then 0 else length buf) in
      if bytes_sent \<noteq> length buf then (ERROR, us\<lparr>us_errno := EPIPE\<rparr>)
      else if bytes_sent = 0 \<and> us_errno us \<noteq> NoErr then (ERROR, us)
      else (SUCCESS, us\<lparr>us_out := us_out us @ buf\<rparr>))"

subsection \<open>Sub-blocks\<close>

text \<open>
  The length field counts itself, and the subtraction is unsigned, 32 bits wide.
\<close>

definition get_sub_block_header :: "usp \<Rightarrow> status \<times> usp" where
  "get_sub_block_header us =
     (let (r, b, us1) = get_from_net us 2; sbl = cardinal_of b in
      if r = ERROR then (ERROR, us1)
      else (SUCCESS, us1\<lparr>last_sub := (sbl AND EOB_FLAG \<noteq> 0),
                         unread := nat (((sbl AND 0x0FFF) - 2) mod 2 ^ 32)\<rparr>))"

function skip_sub_block :: "usp \<Rightarrow> status \<times> usp" where
  "skip_sub_block us =
     (if unread us = 0 then (SUCCESS, us)
      else if 1024 < unread us then
        (let (r, b, us1) = get_from_net us 1024 in
         if r = ERROR then (ERROR, us1)
         else skip_sub_block (us1\<lparr>unread := unread us - 1024\<rparr>))
      else
        (let (r, b, us1) = get_from_net us (unread us) in
         if r = ERROR then (ERROR, us1) else (SUCCESS, us1\<lparr>unread := 0\<rparr>)))"
  by auto
termination by (relation "measure unread") auto

declare skip_sub_block.simps [simp del]

lemma get_from_net_in:
  "get_from_net us req = (r, b, us') \<Longrightarrow>
   length (us_in us') \<le> length (us_in us) \<and>
   (r = ERROR \<or> r = SUCCESS \<and> length (us_in us') + req = length (us_in us))"
  by (cases "req \<le> length (us_in us)") (auto simp: get_from_net_ok get_from_net_eof)

lemma header_in:
  "get_sub_block_header us = (r, us') \<Longrightarrow>
   length (us_in us') \<le> length (us_in us) \<and> (r = ERROR \<or> length (us_in us') < length (us_in us))"
  by (auto simp: get_sub_block_header_def Let_def split: prod.splits if_splits
      dest!: get_from_net_in)

text \<open>The loop of \<open>get_from_sub_block\<close>; the bytes it returns are \<open>bytes_actually_read\<close> many.\<close>

function get_from_sub_blocks :: "usp \<Rightarrow> nat \<Rightarrow> status \<times> bytes \<times> usp" where
  "get_from_sub_blocks us req =
     (if unread us < req then
        (let (r, b, us1) = get_from_net us (unread us) in
         if r = ERROR then (ERROR, b, us1)
         else if last_sub us1 then (SUCCESS, b, us1\<lparr>unread := 0\<rparr>)
         else let (r2, us2) = get_sub_block_header us1 in
           if r2 = ERROR then (ERROR, b, us2)
           else let (r3, b3, us3) = get_from_sub_blocks us2 (req - unread us) in (r3, b @ b3, us3))
      else
        (let (r, b, us1) = get_from_net us req in
         if r = ERROR then (ERROR, b, us1)
         else (SUCCESS, b, us1\<lparr>unread := unread us1 - req\<rparr>)))"
  by auto
termination
proof (relation "measure (\<lambda>(us, req). length (us_in us))")
  fix us :: usp and req r b us1 r2 us2 and x y z
  assume "x = get_from_net us (unread us)" "(r, y) = x" "(b, us1) = y" "r \<noteq> ERROR"
    and "\<not> last_sub us1" "z = get_sub_block_header us1" "(r2, us2) = z" "r2 \<noteq> ERROR"
  then have "get_from_net us (unread us) = (r, b, us1)" "get_sub_block_header us1 = (r2, us2)" "r2 \<noteq> ERROR"
    by auto
  with get_from_net_in [OF this(1)] header_in [OF this(2)]
  show "((us2, req - unread us), (us, req)) \<in> measure (\<lambda>(us, req). length (us_in us))" by auto
qed simp

declare get_from_sub_blocks.simps [simp del]

definition get_from_sub_block :: "usp \<Rightarrow> nat \<Rightarrow> status \<times> bytes \<times> usp" where
  "get_from_sub_block us req = (if req = 0 then (SUCCESS, [], us) else get_from_sub_blocks us req)"

definition send_sub_block :: "usp \<Rightarrow> bool \<Rightarrow> status \<times> usp" where
  "send_sub_block us last_p =
     (let len = int (length (outbuf us)) + 2;
          len = (if last_p then len OR EOB_FLAG else len);
          (r, us1) = put_onto_net us (be 2 len)
      in if r = ERROR then (ERROR, us1)
         else let (r, us2) = put_onto_net us1 (outbuf us1)
           in if r = ERROR then (ERROR, us2) else (SUCCESS, us2))"

function put_into_sub_block :: "usp \<Rightarrow> bytes \<Rightarrow> status \<times> usp" where
  "put_into_sub_block us buf =
     (let avail = MAX_SUB_BLOCK_LENGTH - length (outbuf us) in
      if avail < length buf then
        (let (r, us1) = send_sub_block (us\<lparr>outbuf := outbuf us @ take avail buf\<rparr>) False in
         if r = ERROR then (ERROR, us1)
         else put_into_sub_block (us1\<lparr>outbuf := []\<rparr>) (drop avail buf))
      else (SUCCESS, us\<lparr>outbuf := outbuf us @ buf\<rparr>))"
  by auto
termination
proof (relation "measure (\<lambda>(us, buf). 2 * length buf + (if outbuf us = [] then 0 else 1))")
  fix us :: usp and buf :: bytes and avail r us1 x
  assume "avail = MAX_SUB_BLOCK_LENGTH - length (outbuf us)" "avail < length buf"
  moreover from this have "outbuf us = [] \<Longrightarrow> 0 < avail" by (simp add: MAX_SUB_BLOCK_LENGTH_def)
  ultimately show "((us1\<lparr>outbuf := []\<rparr>, drop avail buf), us, buf)
      \<in> measure (\<lambda>(us, buf). 2 * length buf + (if outbuf us = [] then 0 else 1))"
    by (cases "outbuf us = []") auto
qed simp

declare put_into_sub_block.simps [simp del]

subsection \<open>Payloads\<close>

text \<open>
  The format: a payload is cut into sub-blocks, the last of which carries the flag and is empty
  only when the whole payload is.  (A reader that has got all its items does not notice that an
  empty last sub-block is still to come.)
\<close>

definition sub_block :: "bool \<Rightarrow> bytes \<Rightarrow> bytes" where
  "sub_block lst c = be 2 (int (length c) + 2 + (if lst then EOB_FLAG else 0)) @ c"

inductive framed :: "bytes \<Rightarrow> bytes \<Rightarrow> bool" where
  framed_last: "length c \<le> 4093 \<Longrightarrow> framed c (sub_block True c)"
| framed_more: "length c \<le> 4093 \<Longrightarrow> p \<noteq> [] \<Longrightarrow> framed p f \<Longrightarrow> framed (c @ p) (sub_block False c @ f)"

text \<open>
  The sending half has put the payload \<open>p\<close> into the current block, which began after the bytes
  \<open>w\<close>; the receiving half has still to deliver the payload \<open>p\<close>, after which come the bytes
  \<open>rest\<close>.
\<close>

definition buffered :: "usp \<Rightarrow> bytes \<Rightarrow> bytes \<Rightarrow> bool" where
  "buffered us w p \<longleftrightarrow> sending us \<and> \<not> us_wfail us \<and> length (outbuf us) \<le> MAX_SUB_BLOCK_LENGTH \<and>
     (\<exists>cs. us_out us = w @ concat (map (sub_block False) cs) \<and> p = concat cs @ outbuf us \<and>
           (\<forall>c \<in> set cs. length c \<le> 4093))"

definition sent :: "usp \<Rightarrow> bytes \<Rightarrow> bytes \<Rightarrow> bool" where
  "sent us w p \<longleftrightarrow> buffered us w p \<and> (us_out us = w \<or> outbuf us \<noteq> [])"

definition recving :: "usp \<Rightarrow> bytes \<Rightarrow> bytes \<Rightarrow> bool" where
  "recving us p rest \<longleftrightarrow> receiving us \<and>
     (\<exists>q f. unread us = length q \<and> us_in us = q @ f \<and>
       (if last_sub us then p = q \<and> f = rest
        else \<exists>p' f'. p' \<noteq> [] \<and> p = q @ p' \<and> f = f' @ rest \<and> framed p' f'))"

lemma recvingI_more:
  "receiving us \<Longrightarrow> \<not> last_sub us \<Longrightarrow> unread us = length q \<Longrightarrow> us_in us = q @ f @ rest \<Longrightarrow>
   p \<noteq> [] \<Longrightarrow> framed p f \<Longrightarrow> recving us (q @ p) rest"
  by (auto simp: recving_def)

text \<open>After the whole payload the stream is at the next block.\<close>

lemma recving_done: "recving us [] rest \<Longrightarrow> us_in us = rest \<and> unread us = 0 \<and> last_sub us"
  by (auto simp: recving_def split: if_splits)

text \<open>What an operation on one half leaves of the other.\<close>

definition same_in :: "usp \<Rightarrow> usp \<Rightarrow> bool" where
  "same_in us us' \<longleftrightarrow> us_in us' = us_in us \<and> receiving us' = receiving us \<and>
     last_sub us' = last_sub us \<and> unread us' = unread us"

definition same_out :: "usp \<Rightarrow> usp \<Rightarrow> bool" where
  "same_out us us' \<longleftrightarrow> us_out us' = us_out us \<and> us_wfail us' = us_wfail us \<and>
     sending us' = sending us \<and> outbuf us' = outbuf us"

lemma same_refl [simp]: "same_in us us" "same_out us us"
  by (simp_all add: same_in_def same_out_def)

lemma same_in_trans: "same_in a b \<Longrightarrow> same_in b c \<Longrightarrow> same_in a c"
  by (simp add: same_in_def)

lemma same_out_trans: "same_out a b \<Longrightarrow> same_out b c \<Longrightarrow> same_out a c"
  by (simp add: same_out_def)

lemma sent_same_out: "same_out us us' \<Longrightarrow> sent us' w p = sent us w p"
  by (simp add: same_out_def sent_def buffered_def)

lemma recving_same_in: "same_in us us' \<Longrightarrow> recving us' p rest = recving us p rest"
  by (simp add: same_in_def recving_def)

text \<open>The length field, read back.\<close>

lemma unsigned_be: "cardinal_of (be w x) = x mod 256 ^ w"
  by (simp add: unsigned_putn)

lemma and_fff: "x AND 0x0FFF = x mod 4096" for x :: int
  using take_bit_eq_mask [of 12 x] by (simp add: take_bit_eq_mod mask_eq_exp_minus_1)

lemma eob_bit:
  "n < 4096 \<Longrightarrow> (0 :: int) \<le> n \<Longrightarrow>
   n AND EOB_FLAG = 0 \<and> n OR EOB_FLAG = n + EOB_FLAG \<and> (n + EOB_FLAG) AND EOB_FLAG \<noteq> 0"
proof -
  assume n: "n < 4096" "0 \<le> n"
  have flag: "bit EOB_FLAG k \<longleftrightarrow> k = 15" for k
  proof -
    have eq: "EOB_FLAG = push_bit 15 1" by (simp add: EOB_FLAG_def)
    show ?thesis unfolding eq bit_push_bit_iff bit_1_iff by auto
  qed
  have bits: "\<not> bit n k" if "12 \<le> k" for k
  proof -
    have "take_bit 12 n = n" using n by (simp add: take_bit_int_eq_self_iff)
    with that show ?thesis by (metis bit_take_bit_iff not_less)
  qed
  have "n AND EOB_FLAG = 0"
    by (rule bit_eqI) (use bits in \<open>auto simp: flag bit_simps\<close>)
  moreover from this have or: "n OR EOB_FLAG = n + EOB_FLAG"
    by (simp add: disjunctive_add_eq_or)
  have "bit ((n + EOB_FLAG) AND EOB_FLAG) 15"
    unfolding or [symmetric] by (simp add: flag bit_simps)
  then have "(n + EOB_FLAG) AND EOB_FLAG \<noteq> 0" by auto
  ultimately show ?thesis using or by simp
qed

lemma get_header:
  assumes "us_in us = be 2 (int n + 2 + (if lst then EOB_FLAG else 0)) @ f" and "n \<le> 4093"
  shows "get_sub_block_header us = (SUCCESS, us\<lparr>us_in := f, last_sub := lst, unread := n\<rparr>)"
proof -
  define h where "h = int n + 2 + (if lst then EOB_FLAG else 0)"
  have "0 \<le> h" "h < 65536" using assms(2) by (auto simp: h_def EOB_FLAG_def)
  then have h: "cardinal_of (be 2 h) = h" by (simp add: unsigned_putn)
  have "(h AND EOB_FLAG \<noteq> 0) = lst"
    using eob_bit [of "int n + 2"] assms(2) by (auto simp: h_def add.assoc)
  moreover have "h AND 0x0FFF = int n + 2"
  proof -
    have "(0x8000 + (int n + 2)) mod 4096 = (int n + 2) mod 4096"
      using mod_mult_self1 [of "int n + 2" 8 4096] by (simp add: add.commute)
    moreover have "(int n + 2) mod 4096 = int n + 2" using assms(2) by simp
    ultimately show ?thesis by (simp add: and_fff h_def EOB_FLAG_def add.commute)
  qed
  moreover have "nat (int n mod 2 ^ 32) = n" using assms(2) by simp
  ultimately show ?thesis
    using assms(1) h by (simp add: get_sub_block_header_def get_from_net_ok h_def [symmetric] Let_def)
qed

lemma framed_header:
  assumes "framed p f" and "us_in us = f @ rest" and "receiving us"
  shows "\<exists>us'. get_sub_block_header us = (SUCCESS, us') \<and> recving us' p rest \<and> same_out us us'"
  using assms
proof cases
  case framed_last
  with assms(2,3) get_header [of us "length p" True "p @ rest"] show ?thesis
    by (auto simp: sub_block_def recving_def same_out_def)
next
  case (framed_more c p' f')
  with assms(2,3) get_header [of us "length c" False "c @ f' @ rest"] show ?thesis
    by (auto simp: sub_block_def recving_def same_out_def)
qed

lemma get_sub_blocks_payload:
  "recving us p rest \<Longrightarrow>
   \<exists>us'. get_from_sub_blocks us n = (SUCCESS, take n p, us') \<and> recving us' (drop n p) rest \<and> same_out us us'"
proof (induction "length (us_in us)" arbitrary: us n p rule: less_induct)
  case less
  from less.prems obtain q f where q: "unread us = length q" "us_in us = q @ f" "receiving us"
    and f: "if last_sub us then p = q \<and> f = rest else \<exists>p' f'. p' \<noteq> [] \<and> p = q @ p' \<and> f = f' @ rest \<and> framed p' f'"
    by (auto simp: recving_def)
  show ?case
  proof (cases "length q < n")
    case False
    with q have g: "get_from_sub_blocks us n =
        (SUCCESS, take n q, us\<lparr>us_in := drop n q @ f, unread := length (drop n q)\<rparr>)"
      by (subst get_from_sub_blocks.simps) (simp add: get_from_net_ok)
    show ?thesis
    proof (cases "last_sub us")
      case True
      with f q False g show ?thesis by (auto simp: recving_def same_out_def)
    next
      case nl: False
      with f obtain p' f' where "p' \<noteq> []" "p = q @ p'" "f = f' @ rest" "framed p' f'" by auto
      with q nl False g show ?thesis
        by (auto simp: same_out_def intro!: recvingI_more [of _ "drop n q" f'])
    qed
  next
    case True
    define us1 where "us1 = us\<lparr>us_in := f\<rparr>"
    from q True have g: "get_from_sub_blocks us n =
       (if last_sub us then (SUCCESS, q, us1\<lparr>unread := 0\<rparr>)
        else let (r2, us2) = get_sub_block_header us1 in
           if r2 = ERROR then (ERROR, q, us2)
           else let (r3, b3, us3) = get_from_sub_blocks us2 (n - length q) in (r3, q @ b3, us3))"
      by (subst get_from_sub_blocks.simps) (simp add: get_from_net_ok us1_def Let_def split: prod.split)
    show ?thesis
    proof (cases "last_sub us")
      case l: True
      with g q f True show ?thesis by (auto simp: recving_def same_out_def us1_def)
    next
      case False
      with f obtain p' f' where p: "p = q @ p'" "f = f' @ rest" "framed p' f'" by auto
      from framed_header [OF p(3), of us1 rest] q p obtain us2 where
        h: "get_sub_block_header us1 = (SUCCESS, us2)" "recving us2 p' rest" "same_out us1 us2"
        by (auto simp: us1_def)
      from header_in [OF h(1)] q have "length (us_in us2) < length (us_in us)" by (simp add: us1_def)
      from less.hyps [OF this h(2), of "n - length q"] obtain us3 where
        "get_from_sub_blocks us2 (n - length q) = (SUCCESS, take (n - length q) p', us3)"
        "recving us3 (drop (n - length q) p') rest" "same_out us2 us3" by blast
      with g h False p True show ?thesis by (auto simp: same_out_def us1_def)
    qed
  qed
qed

text \<open>Reading from a block gives the next bytes of its payload, however it is cut.\<close>

lemma get_payload:
  assumes "recving us p rest"
  obtains us' where "get_from_sub_block us n = (SUCCESS, take n p, us')"
    and "recving us' (drop n p) rest" and "same_out us us'"
  using get_sub_blocks_payload [OF assms, of n] assms
  by (cases "n = 0") (auto simp: get_from_sub_block_def)

lemma send_payload:
  assumes "buffered us w p" and "outbuf us \<noteq> [] \<or> us_errno us = NoErr"
  shows "send_sub_block us lst = (SUCCESS, us\<lparr>us_out := us_out us @ sub_block lst (outbuf us)\<rparr>)"
proof -
  have "int (length (outbuf us)) + 2 < 4096"
    using assms(1) by (simp add: buffered_def MAX_SUB_BLOCK_LENGTH_def)
  from eob_bit [OF this] assms show ?thesis
    by (auto simp: send_sub_block_def put_onto_net_def buffered_def sub_block_def Let_def)
qed

text \<open>Putting bytes into a block appends them to its payload.\<close>

lemma put_buffered:
  assumes "buffered us w p" and "b \<noteq> [] \<or> sent us w p"
  shows "\<exists>us'. put_into_sub_block us b = (SUCCESS, us') \<and> sent us' w (p @ b) \<and> same_in us us' \<and>
    us_errno us' = us_errno us"
  using assms
proof (induction us b arbitrary: p rule: put_into_sub_block.induct)
  case (1 us b)
  define avail where "avail = MAX_SUB_BLOCK_LENGTH - length (outbuf us)"
  from "1.prems" have len: "length (outbuf us) \<le> MAX_SUB_BLOCK_LENGTH" by (simp add: buffered_def)
  show ?case
  proof (cases "avail < length b")
    case False
    then have "put_into_sub_block us b = (SUCCESS, us\<lparr>outbuf := outbuf us @ b\<rparr>)"
      by (subst put_into_sub_block.simps) (simp add: avail_def)
    with "1.prems" False len show ?thesis
      by (auto simp: sent_def buffered_def same_in_def avail_def)
  next
    case True
    define us0 where "us0 = us\<lparr>outbuf := outbuf us @ take avail b\<rparr>"
    have full: "length (outbuf us0) = MAX_SUB_BLOCK_LENGTH"
      using True len by (simp add: us0_def avail_def)
    have s0: "buffered us0 w (p @ take avail b)"
      using "1.prems" full by (auto simp: buffered_def us0_def)
    define us1 where "us1 = us0\<lparr>us_out := us_out us0 @ sub_block False (outbuf us0), outbuf := []\<rparr>"
    from full have "outbuf us0 \<noteq> []" by (auto simp: MAX_SUB_BLOCK_LENGTH_def)
    then have send: "send_sub_block us0 False = (SUCCESS, us0\<lparr>us_out := us_out us0 @ sub_block False (outbuf us0)\<rparr>)"
      by (intro send_payload [OF s0]) simp
    have s1: "buffered us1 w (p @ take avail b)"
    proof -
      from s0 obtain cs where cs: "us_out us0 = w @ concat (map (sub_block False) cs)"
        "p @ take avail b = concat cs @ outbuf us0" "\<forall>c \<in> set cs. length c \<le> 4093"
        by (auto simp: buffered_def)
      with full s0 show ?thesis
        by (auto simp: buffered_def us1_def MAX_SUB_BLOCK_LENGTH_def intro!: exI [of _ "cs @ [outbuf us0]"])
    qed
    from True send have "put_into_sub_block us b = put_into_sub_block us1 (drop avail b)"
      by (subst put_into_sub_block.simps) (simp add: avail_def [symmetric] us0_def [symmetric] us1_def Let_def)
    moreover have "drop avail b \<noteq> []" using True by simp
    with "1.IH" [OF avail_def True, folded us0_def, unfolded send, OF refl refl _, of "p @ take avail b"] s1
    obtain us' where "put_into_sub_block us1 (drop avail b) = (SUCCESS, us')"
      "sent us' w ((p @ take avail b) @ drop avail b)" "same_in us1 us'" "us_errno us' = us_errno us1"
      by (auto simp: us1_def)
    ultimately show ?thesis by (auto simp: same_in_def us1_def us0_def)
  qed
qed

lemma put_payload:
  assumes "sent us w p"
  shows "\<exists>us'. put_into_sub_block us b = (SUCCESS, us') \<and> sent us' w (p @ b) \<and> same_in us us' \<and>
    us_errno us' = us_errno us"
  using put_buffered [of us w p b] assms by (simp add: sent_def)

end
