(* ===== verification/Usp_Data.thy ===== *)
theory Usp_Data
  imports Usp
begin

text \<open>
  The data types of the stream protocol, \<^verbatim>\<open>usp/put.c\<close> and \<^verbatim>\<open>usp/get.c\<close>.  The locale
  \<open>usp_item\<close> is the contract a pair of a \<open>put\<close> and a \<open>get\<close> operation has to fulfil for a type of
  values: \<open>put\<close> appends the value's wire form to the block's payload and \<open>get\<close> takes it off
  again.  It is interpreted for each of the six types and for their union \<open>item\<close>.
\<close>

subsection \<open>put.c\<close>

definition USP_put_boolean :: "usp \<Rightarrow> int \<Rightarrow> status \<times> usp" where
  "USP_put_boolean us0 bo =
     (let us = us0\<lparr>us_errno := NoErr\<rparr> in
      if \<not> sending us then (ERROR, us\<lparr>us_errno := UENOTSENDING\<rparr>)
      else if bo \<noteq> 1 \<and> bo \<noteq> 0 then (ERROR, us\<lparr>us_errno := UEBADATA\<rparr>)
      else put_into_sub_block us (be 2 bo))"

definition USP_put_integer :: "usp \<Rightarrow> int \<Rightarrow> status \<times> usp" where
  "USP_put_integer us0 ui =
     (let us = us0\<lparr>us_errno := NoErr\<rparr> in
      if \<not> sending us then (ERROR, us\<lparr>us_errno := UENOTSENDING\<rparr>)
      else put_into_sub_block us (be 2 ui))"

definition USP_put_cardinal :: "usp \<Rightarrow> int \<Rightarrow> status \<times> usp" where
  "USP_put_cardinal us0 ca =
     (let us = us0\<lparr>us_errno := NoErr\<rparr> in
      if \<not> sending us then (ERROR, us\<lparr>us_errno := UENOTSENDING\<rparr>)
      else put_into_sub_block us (be 2 ca))"

definition USP_put_long_integer :: "usp \<Rightarrow> int \<Rightarrow> status \<times> usp" where
  "USP_put_long_integer us0 li =
     (let us = us0\<lparr>us_errno := NoErr\<rparr> in
      if \<not> sending us then (ERROR, us\<lparr>us_errno := UENOTSENDING\<rparr>)
      else put_into_sub_block us (be 4 li))"

definition USP_put_long_cardinal :: "usp \<Rightarrow> int \<Rightarrow> status \<times> usp" where
  "USP_put_long_cardinal us0 lc =
     (let us = us0\<lparr>us_errno := NoErr\<rparr> in
      if \<not> sending us then (ERROR, us\<lparr>us_errno := UENOTSENDING\<rparr>)
      else put_into_sub_block us (be 4 lc))"

abbreviation CR :: char where "CR \<equiv> CHR 0x0D"

text \<open>The length of the string on the wire, in a 16-bit counter.\<close>

fun netascii_len :: "string \<Rightarrow> nat" where
  "netascii_len [] = 0"
| "netascii_len (c # cs) = (if c = CR \<or> c = NL then 2 else 1) + netascii_len cs"

definition us_then :: "status \<times> usp \<Rightarrow> (usp \<Rightarrow> status \<times> usp) \<Rightarrow> status \<times> usp" where
  "us_then p f = (case p of (r, us) \<Rightarrow> if r = ERROR then (ERROR, us) else f us)"

text \<open>\<open>run\<close> is the stretch between \<open>stptr\<close> and \<open>sptr\<close> that has not been put yet.\<close>

fun put_string_loop :: "usp \<Rightarrow> string \<Rightarrow> string \<Rightarrow> status \<times> usp" where
  "put_string_loop us run [] = (if run \<noteq> [] then put_into_sub_block us run else (SUCCESS, us))"
| "put_string_loop us run (c # cs) =
     (if c = NL \<or> c = CR then
        us_then (if run \<noteq> [] then put_into_sub_block us run else (SUCCESS, us)) (\<lambda>us1.
        us_then (put_into_sub_block us1 (if c = NL then [CR, NL] else [CR, NUL])) (\<lambda>us2.
        put_string_loop us2 [] cs))
      else put_string_loop us (run @ [c]) cs)"

definition USP_put_string :: "usp \<Rightarrow> string \<Rightarrow> status \<times> usp" where
  "USP_put_string us0 str =
     (let us = us0\<lparr>us_errno := NoErr\<rparr> in
      if \<not> sending us then (ERROR, us\<lparr>us_errno := UENOTSENDING\<rparr>)
      else let sl = netascii_len str mod 65536 in
        us_then (put_into_sub_block us (be 2 (int sl))) (\<lambda>us1.
        us_then (put_string_loop us1 [] str) (\<lambda>us2.
        if odd sl then put_into_sub_block us2 [NUL] else (SUCCESS, us2))))"

definition USP_put_byte_block :: "usp \<Rightarrow> bytes \<Rightarrow> status \<times> usp" where
  "USP_put_byte_block us buf = put_into_sub_block us buf"

subsection \<open>get.c\<close>

text \<open>What the fixed-size operations share: \<open>n\<close> bytes, converted by \<open>f\<close>.\<close>

definition get_fixed :: "usp \<Rightarrow> nat \<Rightarrow> (bytes \<Rightarrow> int) \<Rightarrow> status \<times> int \<times> usp" where
  "get_fixed us0 n f =
     (let us = us0\<lparr>us_errno := NoErr\<rparr> in
      if \<not> receiving us then (ERROR, 0, us\<lparr>us_errno := UENOTRCVING\<rparr>)
      else let (r, b, us1) = get_from_sub_block us n in
        if r = ERROR then (ERROR, 0, us1)
        else if length b \<noteq> n then (ERROR, 0, us1\<lparr>us_errno := UEPREMEOB\<rparr>)
        else (SUCCESS, f b, us1))"

definition USP_get_boolean :: "usp \<Rightarrow> status \<times> int \<times> usp" where
  "USP_get_boolean us =
     (let (r, bo, us1) = get_fixed us 2 cardinal_of in
      if r = ERROR then (ERROR, bo, us1)
      else if bo = 1 \<or> bo = 0 then (SUCCESS, bo, us1)
      else (ERROR, bo, us1\<lparr>us_errno := UEBADATA\<rparr>))"

definition USP_get_integer :: "usp \<Rightarrow> status \<times> int \<times> usp" where
  "USP_get_integer us = get_fixed us 2 integer_of"

definition USP_get_cardinal :: "usp \<Rightarrow> status \<times> int \<times> usp" where
  "USP_get_cardinal us = get_fixed us 2 cardinal_of"

definition USP_get_long_integer :: "usp \<Rightarrow> status \<times> int \<times> usp" where
  "USP_get_long_integer us = get_fixed us 4 integer_of"

definition USP_get_long_cardinal :: "usp \<Rightarrow> status \<times> int \<times> usp" where
  "USP_get_long_cardinal us = get_fixed us 4 cardinal_of"

fun de_netascii :: "bytes \<Rightarrow> bytes" where
  "de_netascii (c # d # cs) =
     (if c = CR then (if d = NL then NL else CR) # de_netascii cs else c # de_netascii (d # cs))"
| "de_netascii [c] = [c]"
| "de_netascii [] = []"

text \<open>The string that is returned is what a C reader of the buffer sees.\<close>

definition USP_get_string :: "usp \<Rightarrow> status \<times> string \<times> usp" where
  "USP_get_string us0 =
     (let us = us0\<lparr>us_errno := NoErr\<rparr> in
      if \<not> receiving us then (ERROR, [], us\<lparr>us_errno := UENOTRCVING\<rparr>)
      else let (r, b, us1) = get_from_sub_block us 2 in
        if r = ERROR then (ERROR, [], us1)
        else if length b \<noteq> 2 then (ERROR, [], us1\<lparr>us_errno := UEPREMEOB\<rparr>)
        else let sl = nat (cardinal_of b); oddp = (if odd sl then 1 else 0);
                 (r, b, us2) = get_from_sub_block us1 (sl + oddp) in
          if r = ERROR then (ERROR, [], us2)
          else if length b \<noteq> sl + oddp then (ERROR, [], us2\<lparr>us_errno := UEPREMEOB\<rparr>)
          else (SUCCESS, cstr (de_netascii (take sl b)), us2))"

definition USP_get_byte_block :: "usp \<Rightarrow> nat \<Rightarrow> status \<times> bytes \<times> usp" where
  "USP_get_byte_block us len = get_from_sub_block us len"

subsection \<open>The contract of a data type\<close>

fun put_all :: "(usp \<Rightarrow> 'v \<Rightarrow> status \<times> usp) \<Rightarrow> usp \<Rightarrow> 'v list \<Rightarrow> status \<times> usp" where
  "put_all put us [] = (SUCCESS, us)"
| "put_all put us (v # vs) = us_then (put us v) (\<lambda>us1. put_all put us1 vs)"

text \<open>\<open>get_all\<close> takes the kinds of the values to expect.\<close>

fun get_all :: "(usp \<Rightarrow> 'k \<Rightarrow> status \<times> 'v \<times> usp) \<Rightarrow> usp \<Rightarrow> 'k list \<Rightarrow> status \<times> 'v list \<times> usp" where
  "get_all get us [] = (SUCCESS, [], us)"
| "get_all get us (k # ks) =
     (let (r, v, us1) = get us k in
      if r = ERROR then (ERROR, [], us1)
      else let (r, vs, us2) = get_all get us1 ks in (r, v # vs, us2))"

locale usp_item =
  fixes put :: "usp \<Rightarrow> 'v \<Rightarrow> status \<times> usp"
    and get :: "usp \<Rightarrow> 'k \<Rightarrow> status \<times> 'v \<times> usp"
    and kind :: "'v \<Rightarrow> 'k"
    and wire :: "'v \<Rightarrow> bytes"
    and good :: "'v \<Rightarrow> bool"
  assumes put_wire: "sent us w p \<Longrightarrow> good v \<Longrightarrow>
      \<exists>us'. put us v = (SUCCESS, us') \<and> sent us' w (p @ wire v) \<and> same_in us us'"
    and get_wire: "recving us (wire v @ p) rest \<Longrightarrow> good v \<Longrightarrow>
      \<exists>us'. get us (kind v) = (SUCCESS, v, us') \<and> recving us' p rest \<and> same_out us us'"
begin

lemma put_all_wire:
  assumes "sent us w p" and "\<forall>v \<in> set vs. good v"
  shows "\<exists>us'. put_all put us vs = (SUCCESS, us') \<and> sent us' w (p @ concat (map wire vs)) \<and> same_in us us'"
  using assms
proof (induction vs arbitrary: us p)
  case Nil
  then show ?case by auto
next
  case (Cons v vs)
  from Cons.prems obtain us1 where 1: "put us v = (SUCCESS, us1)" "sent us1 w (p @ wire v)" "same_in us us1"
    using put_wire by fastforce
  with Cons.IH [OF 1(2)] Cons.prems(2) show ?case
    by (auto simp: us_then_def intro: same_in_trans)
qed

lemma get_all_wire:
  assumes "recving us (concat (map wire vs) @ p) rest" and "\<forall>v \<in> set vs. good v"
  shows "\<exists>us'. get_all get us (map kind vs) = (SUCCESS, vs, us') \<and> recving us' p rest \<and> same_out us us'"
  using assms
proof (induction vs arbitrary: us)
  case Nil
  then show ?case by auto
next
  case (Cons v vs)
  from Cons.prems get_wire [of us v "concat (map wire vs) @ p" rest] obtain us1 where
    1: "get us (kind v) = (SUCCESS, v, us1)" "recving us1 (concat (map wire vs) @ p) rest" "same_out us us1"
    by auto
  with Cons.IH [OF 1(2)] Cons.prems(2) show ?case
    by (auto intro: same_out_trans)
qed

end

subsection \<open>The six types fulfil it\<close>

lemma errno_sent [simp]: "sent (us\<lparr>us_errno := e\<rparr>) w p = sent us w p"
  by (rule sent_same_out) (simp add: same_out_def)

lemma errno_recving [simp]: "recving (us\<lparr>us_errno := e\<rparr>) p rest = recving us p rest"
  by (rule recving_same_in) (simp add: same_in_def)

lemma errno_same [simp]:
  "same_in (us\<lparr>us_errno := e\<rparr>) us' = same_in us us'" "same_out (us\<lparr>us_errno := e\<rparr>) us' = same_out us us'"
  "same_in us (us'\<lparr>us_errno := e\<rparr>) = same_in us us'" "same_out us (us'\<lparr>us_errno := e\<rparr>) = same_out us us'"
  by (simp_all add: same_in_def same_out_def)

lemma sent_sending: "sent us w p \<Longrightarrow> sending us"
  by (simp add: sent_def buffered_def)

lemma recving_receiving: "recving us p rest \<Longrightarrow> receiving us"
  by (simp add: recving_def)

lemma put_obtain:
  assumes "sent us w p"
  obtains us' where "put_into_sub_block (us\<lparr>us_errno := NoErr\<rparr>) b = (SUCCESS, us')"
    and "sent us' w (p @ b)" and "same_in us us'" and "sending us"
  using put_payload [of "us\<lparr>us_errno := NoErr\<rparr>" w p b] assms sent_sending by auto

lemma get_fixed_wire:
  assumes "recving us (b @ p) rest" and "length b = n"
  shows "\<exists>us'. get_fixed us n f = (SUCCESS, f b, us') \<and> recving us' p rest \<and> same_out us us'"
proof -
  have "recving (us\<lparr>us_errno := NoErr\<rparr>) (b @ p) rest" using assms(1) by simp
  then show ?thesis
    by (rule get_payload [where n = n])
      (use assms recving_receiving in \<open>auto simp: get_fixed_def Let_def\<close>)
qed

definition fits_u :: "nat \<Rightarrow> int \<Rightarrow> bool" where
  "fits_u w x \<longleftrightarrow> 0 \<le> x \<and> x < 256 ^ w"

lemma cardinal_of_be: "fits_u w x \<Longrightarrow> cardinal_of (be w x) = x"
  by (simp add: unsigned_putn fits_u_def)

lemma integer_of_be: "fits w x \<Longrightarrow> integer_of (be w x) = x"
  by (simp add: getn_putn)

interpretation boolean: usp_item USP_put_boolean "\<lambda>us (_ :: unit). USP_get_boolean us" "\<lambda>_. ()"
  "be 2" "\<lambda>bo. bo = 0 \<or> bo = 1"
proof
  fix us :: usp and w p and v :: int
  assume "sent us w p" and v: "v = 0 \<or> v = 1"
  then show "\<exists>us'. USP_put_boolean us v = (SUCCESS, us') \<and> sent us' w (p @ be 2 v) \<and> same_in us us'"
    by (elim put_obtain [of us w p "be 2 v"]) (auto simp: USP_put_boolean_def Let_def)
next
  fix us :: usp and v :: int and p rest
  assume "recving us (be 2 v @ p) rest" and v: "v = 0 \<or> v = 1"
  from get_fixed_wire [OF this(1), of 2 cardinal_of] v
  show "\<exists>us'. USP_get_boolean us = (SUCCESS, v, us') \<and> recving us' p rest \<and> same_out us us'"
    by (auto simp: USP_get_boolean_def cardinal_of_be fits_u_def simp del: rev_rev_ident)
qed

interpretation integer: usp_item USP_put_integer "\<lambda>us (_ :: unit). USP_get_integer us" "\<lambda>_. ()"
  "be 2" "fits 2"
proof
  fix us :: usp and w p and v :: int
  assume "sent us w p"
  then show "\<exists>us'. USP_put_integer us v = (SUCCESS, us') \<and> sent us' w (p @ be 2 v) \<and> same_in us us'"
    by (elim put_obtain [of us w p "be 2 v"]) (auto simp: USP_put_integer_def Let_def)
next
  fix us :: usp and v :: int and p rest
  assume "recving us (be 2 v @ p) rest" and "fits 2 v"
  with get_fixed_wire [OF this(1), of 2 integer_of]
  show "\<exists>us'. USP_get_integer us = (SUCCESS, v, us') \<and> recving us' p rest \<and> same_out us us'"
    by (simp add: USP_get_integer_def integer_of_be del: rev_rev_ident)
qed

interpretation cardinal: usp_item USP_put_cardinal "\<lambda>us (_ :: unit). USP_get_cardinal us" "\<lambda>_. ()"
  "be 2" "fits_u 2"
proof
  fix us :: usp and w p and v :: int
  assume "sent us w p"
  then show "\<exists>us'. USP_put_cardinal us v = (SUCCESS, us') \<and> sent us' w (p @ be 2 v) \<and> same_in us us'"
    by (elim put_obtain [of us w p "be 2 v"]) (auto simp: USP_put_cardinal_def Let_def)
next
  fix us :: usp and v :: int and p rest
  assume "recving us (be 2 v @ p) rest" and "fits_u 2 v"
  with get_fixed_wire [OF this(1), of 2 cardinal_of]
  show "\<exists>us'. USP_get_cardinal us = (SUCCESS, v, us') \<and> recving us' p rest \<and> same_out us us'"
    by (simp add: USP_get_cardinal_def cardinal_of_be del: rev_rev_ident)
qed

interpretation long_integer: usp_item USP_put_long_integer "\<lambda>us (_ :: unit). USP_get_long_integer us"
  "\<lambda>_. ()" "be 4" "fits 4"
proof
  fix us :: usp and w p and v :: int
  assume "sent us w p"
  then show "\<exists>us'. USP_put_long_integer us v = (SUCCESS, us') \<and> sent us' w (p @ be 4 v) \<and> same_in us us'"
    by (elim put_obtain [of us w p "be 4 v"]) (auto simp: USP_put_long_integer_def Let_def)
next
  fix us :: usp and v :: int and p rest
  assume "recving us (be 4 v @ p) rest" and "fits 4 v"
  with get_fixed_wire [OF this(1), of 4 integer_of]
  show "\<exists>us'. USP_get_long_integer us = (SUCCESS, v, us') \<and> recving us' p rest \<and> same_out us us'"
    by (simp add: USP_get_long_integer_def integer_of_be del: rev_rev_ident)
qed

interpretation long_cardinal: usp_item USP_put_long_cardinal "\<lambda>us (_ :: unit). USP_get_long_cardinal us"
  "\<lambda>_. ()" "be 4" "fits_u 4"
proof
  fix us :: usp and w p and v :: int
  assume "sent us w p"
  then show "\<exists>us'. USP_put_long_cardinal us v = (SUCCESS, us') \<and> sent us' w (p @ be 4 v) \<and> same_in us us'"
    by (elim put_obtain [of us w p "be 4 v"]) (auto simp: USP_put_long_cardinal_def Let_def)
next
  fix us :: usp and v :: int and p rest
  assume "recving us (be 4 v @ p) rest" and "fits_u 4 v"
  with get_fixed_wire [OF this(1), of 4 cardinal_of]
  show "\<exists>us'. USP_get_long_cardinal us = (SUCCESS, v, us') \<and> recving us' p rest \<and> same_out us us'"
    by (simp add: USP_get_long_cardinal_def cardinal_of_be del: rev_rev_ident)
qed

subsection \<open>Strings\<close>

fun netascii :: "string \<Rightarrow> bytes" where
  "netascii [] = []"
| "netascii (c # cs) =
     (if c = NL then [CR, NL] else if c = CR then [CR, NUL] else [c]) @ netascii cs"

definition string_wire :: "string \<Rightarrow> bytes" where
  "string_wire s = be 2 (int (netascii_len s)) @ netascii s @ (if odd (netascii_len s) then [NUL] else [])"

definition string_good :: "string \<Rightarrow> bool" where
  "string_good s \<longleftrightarrow> c_ok s \<and> netascii_len s < 65536"

lemma length_netascii [simp]: "length (netascii s) = netascii_len s"
  by (induction s) auto

lemma netascii_append: "netascii (xs @ ys) = netascii xs @ netascii ys"
  by (induction xs) auto

lemma netascii_plain: "CR \<notin> set xs \<Longrightarrow> NL \<notin> set xs \<Longrightarrow> netascii xs = xs"
  by (induction xs) auto

lemma de_netascii_Cons: "c \<noteq> CR \<Longrightarrow> de_netascii (c # cs) = c # de_netascii cs"
  by (cases cs) auto

lemma de_netascii_netascii: "de_netascii (netascii s) = s"
  by (induction s) (auto simp: de_netascii_Cons)

lemma put_string_loop_wire:
  "sent us w p \<Longrightarrow> CR \<notin> set run \<Longrightarrow> NL \<notin> set run \<Longrightarrow>
   \<exists>us'. put_string_loop us run s = (SUCCESS, us') \<and> sent us' w (p @ run @ netascii s) \<and> same_in us us'"
proof (induction us run s arbitrary: p rule: put_string_loop.induct)
  case (1 us run)
  with put_payload [of us w p run] show ?case by auto
next
  case (2 us run c cs)
  show ?case
  proof (cases "c = NL \<or> c = CR")
    case False
    with "2.IH"(2) [of p] "2.prems" show ?thesis by (auto split: if_splits)
  next
    case True
    from put_payload [OF "2.prems"(1), of run] "2.prems"(1)
    obtain us1 where 1: "(if run \<noteq> [] then put_into_sub_block us run else (SUCCESS, us)) = (SUCCESS, us1)"
      "sent us1 w (p @ run)" "same_in us us1" by (cases "run = []") auto
    from put_payload [OF 1(2), of "if c = NL then [CR, NL] else [CR, NUL]"]
    obtain us2 where 2: "put_into_sub_block us1 (if c = NL then [CR, NL] else [CR, NUL]) = (SUCCESS, us2)"
      "sent us2 w ((p @ run) @ (if c = NL then [CR, NL] else [CR, NUL]))" "same_in us1 us2" by blast
    have "put_string_loop us run (c # cs) = put_string_loop us2 [] cs"
      using True 1(1) 2(1) by (simp add: us_then_def)
    moreover from "2.IH"(1) [OF True 2(2)] obtain us3 where "put_string_loop us2 [] cs = (SUCCESS, us3)"
      "sent us3 w (p @ run @ netascii (c # cs))" "same_in us2 us3"
      using True by auto
    ultimately show ?thesis using same_in_trans [OF same_in_trans [OF 1(3) 2(3)]] by auto
  qed
qed

interpretation string: usp_item USP_put_string "\<lambda>us (_ :: unit). USP_get_string us" "\<lambda>_. ()"
  string_wire string_good
proof
  fix us :: usp and w p and s :: string
  assume "sent us w p" and good: "string_good s"
  define us0 where "us0 = us\<lparr>us_errno := NoErr\<rparr>"
  define sl where "sl = netascii_len s"
  from good have sl: "sl mod 65536 = sl" by (simp add: string_good_def sl_def)
  from \<open>sent us w p\<close> obtain us1 where 1: "put_into_sub_block us0 (be 2 (int sl)) = (SUCCESS, us1)"
    "sent us1 w (p @ be 2 (int sl))" "same_in us us1" and "sending us0"
    by (rule put_obtain) (auto simp: us0_def)
  obtain us2 where 2: "put_string_loop us1 [] s = (SUCCESS, us2)"
    "sent us2 w ((p @ be 2 (int sl)) @ netascii s)" "same_in us1 us2"
    using put_string_loop_wire [OF 1(2), of "[]" s] by auto
  have put: "USP_put_string us s =
      (if odd sl then put_into_sub_block us2 [NUL] else (SUCCESS, us2))"
    using \<open>sending us0\<close> 1(1) 2(1) sl
    by (simp add: USP_put_string_def us0_def [symmetric] sl_def [symmetric] us_then_def Let_def)
  show "\<exists>us'. USP_put_string us s = (SUCCESS, us') \<and> sent us' w (p @ string_wire s) \<and> same_in us us'"
  proof (cases "odd sl")
    case True
    with put_payload [OF 2(2), of "[NUL]"] put 1(3) 2(3) show ?thesis
      by (auto simp: string_wire_def sl_def same_in_def)
  next
    case False
    with put 1(3) 2 show ?thesis by (auto simp: string_wire_def sl_def same_in_def)
  qed
next
  fix us :: usp and s :: string and p rest
  assume rc: "recving us (string_wire s @ p) rest" and good: "string_good s"
  define us0 where "us0 = us\<lparr>us_errno := NoErr\<rparr>"
  define sl where "sl = netascii_len s"
  define body where "body = netascii s @ (if odd sl then [NUL] else [])"
  define oddp where "oddp = (if odd sl then 1 else 0 :: nat)"
  have len: "length body = sl + oddp" by (simp add: body_def sl_def oddp_def)
  have "fits_u 2 (int sl)" using good by (simp add: fits_u_def string_good_def sl_def)
  then have card: "cardinal_of (be 2 (int sl)) = int sl" by (rule cardinal_of_be)
  have "recving us0 (be 2 (int sl) @ body @ p) rest"
    using rc by (simp add: us0_def string_wire_def sl_def body_def)
  then obtain us1 where 1: "get_from_sub_block us0 2 = (SUCCESS, be 2 (int sl), us1)"
    "recving us1 (body @ p) rest" "same_out us0 us1"
    by (rule get_payload [where n = 2]) simp
  from 1(2) obtain us2 where 2: "get_from_sub_block us1 (sl + oddp) = (SUCCESS, body, us2)"
    "recving us2 p rest" "same_out us1 us2"
    by (rule get_payload [where n = "sl + oddp"]) (simp add: len)
  have "receiving us0" using recving_receiving [OF rc] by (simp add: us0_def)
  moreover have "take sl body = netascii s" by (simp add: body_def sl_def)
  moreover have "cstr s = s" using good by (simp add: string_good_def cstr_id)
  ultimately have "USP_get_string us = (SUCCESS, s, us2)"
    using 1(1) 2(1) len card
    by (simp add: USP_get_string_def us0_def [symmetric] Let_def oddp_def [symmetric]
        de_netascii_netascii split: prod.split del: rev_rev_ident)
  with 1(3) 2 show "\<exists>us'. USP_get_string us = (SUCCESS, s, us') \<and> recving us' p rest \<and> same_out us us'"
    by (auto simp: us0_def same_out_def)
qed

end
