(* ===== verification/Usp_Block.thy ===== *)
theory Usp_Block
  imports Usp_Data
begin

text \<open>
  Whole blocks: \<^verbatim>\<open>usp/block.c\<close> and the closing of a connection in \<^verbatim>\<open>usp/main.c\<close>, and the
  round trip of a block through a connection.  \<open>USP_rcv_blk\<close> is partial: \<open>None\<close> is the overrun
  of the 256 bytes of \<open>usp_internal_string\<close>.
\<close>

subsection \<open>block.c\<close>

definition USP_begin_block :: "usp \<Rightarrow> int \<Rightarrow> status \<times> usp" where
  "USP_begin_block us0 bt =
     (let us = us0\<lparr>us_errno := NoErr\<rparr> in
      if sending us then (ERROR, us\<lparr>us_errno := UECBNOTENDED\<rparr>)
      else let (r, us1) = put_onto_net us (be 2 bt) in
        if r = ERROR then (ERROR, us1)
        else (SUCCESS, us1\<lparr>sending := True, outbuf := []\<rparr>))"

definition USP_end_block :: "usp \<Rightarrow> status \<times> usp" where
  "USP_end_block us0 =
     (let us = us0\<lparr>us_errno := NoErr\<rparr> in
      if \<not> sending us then (ERROR, us\<lparr>us_errno := UENOTSENDING\<rparr>)
      else let (r, us1) = send_sub_block us True in
        if r = ERROR then (ERROR, us1) else (SUCCESS, us1\<lparr>sending := False\<rparr>))"

lemma skip_in: "skip_sub_block us = (r, us') \<Longrightarrow> length (us_in us') \<le> length (us_in us)"
proof (induction us arbitrary: r us' rule: skip_sub_block.induct)
  case (1 us)
  show ?case
  proof (cases "1024 < unread us")
    case True
    obtain r1 b1 u1 where g: "get_from_net us 1024 = (r1, b1, u1)" by (metis prod_cases3)
    with "1.prems" True "1.IH" [OF _ True g [symmetric]] get_from_net_in [OF g] show ?thesis
      by (subst (asm) skip_sub_block.simps) (force split: if_splits)
  next
    case False
    obtain r1 b1 u1 where g: "get_from_net us (unread us) = (r1, b1, u1)" by (metis prod_cases3)
    with "1.prems" False get_from_net_in [OF g] show ?thesis
      by (subst (asm) skip_sub_block.simps) (auto split: if_splits)
  qed
qed

function flush_loop :: "usp \<Rightarrow> status \<times> usp" where
  "flush_loop us =
     (if last_sub us then (SUCCESS, us)
      else let (r, us1) = skip_sub_block us in
        if r = ERROR then (ERROR, us1)
        else let (r2, us2) = get_sub_block_header us1 in
          if r2 = ERROR then (ERROR, us2) else flush_loop us2)"
  by auto
termination
proof (relation "measure (\<lambda>us. length (us_in us))")
  fix us r us1 r2 us2 x y
  assume "x = skip_sub_block us" "(r, us1) = x" "y = get_sub_block_header us1" "(r2, us2) = y" "r2 \<noteq> ERROR"
  then have "skip_sub_block us = (r, us1)" "get_sub_block_header us1 = (r2, us2)" "r2 \<noteq> ERROR" by auto
  with skip_in [OF this(1)] header_in [OF this(2)] show "(us2, us) \<in> measure (\<lambda>us. length (us_in us))" by auto
qed simp

declare flush_loop.simps [simp del]

definition USP_flush_block :: "usp \<Rightarrow> usp" where
  "USP_flush_block us0 =
     (let us = us0\<lparr>us_errno := NoErr\<rparr> in
      if \<not> receiving us then us
      else let (r, us1) = flush_loop us in
        if r = ERROR then us1
        else let (r2, us2) = skip_sub_block us1 in
          if r2 = ERROR then us2 else us2\<lparr>receiving := False\<rparr>)"

definition USP_end_of_block_p :: "usp \<Rightarrow> bool" where
  "USP_end_of_block_p us \<longleftrightarrow> unread us = 0 \<and> last_sub us"

definition usp_setup_errlist :: "string list" where
  "usp_setup_errlist = [''foreign name unknown'', ''service identifier unknown'', ''host down'',
     ''service not supported on host'', ''service not currently available'',
     ''protocol conversion not available'']"

definition usp_during_errlist :: "string list" where
  "usp_during_errlist = [''transport failure'', ''transport timeout'', ''foreign client failure'',
     ''path transformation impossible'']"

definition what_string :: "int \<Rightarrow> string" where
  "what_string e =
     (if e = 1 then ''unknown internal error''
      else if 10 \<le> e \<and> e \<le> 15 then usp_setup_errlist ! nat (e - 10)
      else if 20 \<le> e \<and> e \<le> 23 then usp_during_errlist ! nat (e - 20)
      else ''(unknown internal error code '' @ decimal (nat e) @ '')'')"

definition who_string :: "int \<Rightarrow> string" where
  "who_string w =
     (if w = 1 then ''foreign client'' else if w = 2 then ''transport layer''
      else if w = 3 then ''protocol converter'' else ''[unknown]'')"

abbreviation QUOTE :: char where "QUOTE \<equiv> CHR 0x22"

definition internal_message :: "int \<Rightarrow> string \<Rightarrow> int \<Rightarrow> string \<Rightarrow> string" where
  "internal_message what_error info who_reported module_name =
     ''Internal error '' @ [QUOTE] @ what_string what_error @ [QUOTE] @ '' ('' @ info @
     ''), detected by '' @ who_string who_reported @ '' '' @ [QUOTE] @ module_name @ [QUOTE]"

definition read_error_string :: string where
  "read_error_string = ''CONNECTION-ERROR block read error''"

text \<open>The branch of \<open>USP_rcv_blk\<close> for a \<open>CONNECTION_ERROR\<close> block.\<close>

definition rcv_connection_error :: "usp \<Rightarrow> usp option" where
  "rcv_connection_error us0 =
     (let punt = (\<lambda>us. Some ((USP_flush_block us)\<lparr>internal_string := read_error_string\<rparr>));
          (r, what_error, us1) = USP_get_cardinal (us0\<lparr>us_errno := UEINTERNAL\<rparr>) in
      if r = ERROR then punt us1
      else let (r, info, us2) = USP_get_string us1 in
      if r = ERROR then punt us2
      else let (r, who_reported, us3) = USP_get_cardinal us2 in
      if r = ERROR then punt us3
      else let (r, module_name, us4) = USP_get_string us3 in
      if r = ERROR then punt us4
      else let msg = internal_message what_error info who_reported module_name in
        if length msg < 256 then Some (us4\<lparr>internal_string := msg\<rparr>) else None)"

lemma flush_loop_in: "flush_loop us = (r, us') \<Longrightarrow> length (us_in us') \<le> length (us_in us)"
proof (induction us arbitrary: r us' rule: flush_loop.induct)
  case (1 us)
  obtain r1 u1 where s: "skip_sub_block us = (r1, u1)" by fastforce
  obtain r2 u2 where h: "get_sub_block_header u1 = (r2, u2)" by fastforce
  from "1.prems" "1.IH" [OF _ s [symmetric] refl _ h [symmetric] refl] skip_in [OF s] header_in [OF h] s h
  show ?case by (subst (asm) flush_loop.simps) (force split: if_splits)
qed

lemma flush_in: "length (us_in (USP_flush_block us)) \<le> length (us_in us)"
proof -
  define us0 where "us0 = us\<lparr>us_errno := NoErr\<rparr>"
  obtain r1 u1 where f: "flush_loop us0 = (r1, u1)" by fastforce
  obtain r2 u2 where s: "skip_sub_block u1 = (r2, u2)" by fastforce
  from flush_loop_in [OF f] skip_in [OF s] f s show ?thesis
    by (auto simp: USP_flush_block_def us0_def [symmetric] Let_def) (simp add: us0_def)+
qed

function USP_rcv_blk :: "usp \<Rightarrow> (status \<times> int \<times> usp) option" where
  "USP_rcv_blk us0 =
     (let (r, b, us1) = get_from_net (us0\<lparr>us_errno := NoErr\<rparr>) 2 in
      if r = ERROR then Some (ERROR, 0, us1)
      else let bt = cardinal_of b;
               (r2, us2) = get_sub_block_header (us1\<lparr>receiving := True, unread := 0\<rparr>) in
        if r2 = ERROR then Some (ERROR, bt, us2)
        else if bt = CONNECTION_ERROR then map_option (\<lambda>us. (ERROR, bt, us)) (rcv_connection_error us2)
        else if bt = CONNECTION_END then
          Some (CLOSED, bt, snd (USP_end_block (snd (USP_begin_block us2 CONNECTION_END_REPLY))))
        else if bt = CONNECTION_OPEN then USP_rcv_blk (USP_flush_block us2)
        else Some (SUCCESS, bt, us2))"
  by auto
termination
proof (relation "measure (\<lambda>us. length (us_in us))")
  fix us0 r b us1 bt r2 us2 x y z
  assume "x = get_from_net (us0\<lparr>us_errno := NoErr\<rparr>) 2" "(r, y) = x" "(b, us1) = y" "r \<noteq> ERROR"
    and "z = get_sub_block_header (us1\<lparr>receiving := True, unread := 0\<rparr>)" "(r2, us2) = z" "r2 \<noteq> ERROR"
  then have "get_from_net (us0\<lparr>us_errno := NoErr\<rparr>) 2 = (r, b, us1)" and
    "get_sub_block_header (us1\<lparr>receiving := True, unread := 0\<rparr>) = (r2, us2)" and "r2 \<noteq> ERROR" by auto
  with get_from_net_in [OF this(1)] header_in [OF this(2)] flush_in [of us2]
  show "(USP_flush_block us2, us0) \<in> measure (\<lambda>us. length (us_in us))" by auto
qed simp

declare USP_rcv_blk.simps [simp del]

text \<open>
  \<open>main.c\<close>: the closing handshake.  Whatever it gave, the result is that of \<open>USP_shutdown\<close>,
  which only closes the two \<open>FILE\<close>s and is the argument \<open>shut\<close>.
\<close>

definition USP_close_connection :: "status \<Rightarrow> usp \<Rightarrow> (status \<times> usp) option" where
  "USP_close_connection shut us =
     (let us1 = snd (USP_end_block (snd (USP_begin_block (us\<lparr>us_errno := NoErr\<rparr>) CONNECTION_END))) in
      do { (r, bt, us2) \<leftarrow> USP_rcv_blk us1;
           let us3 = (if r \<noteq> ERROR \<and> bt = CONNECTION_END_REPLY
                      then snd (us_then (USP_begin_block us2 CONNECTION_END_REPLY) USP_end_block)
                      else us2);
           Some (shut, us3) })"

subsection \<open>Values of all types\<close>

datatype item = Boolean int | Integer int | Cardinal int | Long_integer int | Long_cardinal int
  | String string

datatype item_type = BOOLEAN | INTEGER | CARDINAL | LONG_INTEGER | LONG_CARDINAL | STRING

primrec item_kind :: "item \<Rightarrow> item_type" where
  "item_kind (Boolean x) = BOOLEAN"
| "item_kind (Integer x) = INTEGER"
| "item_kind (Cardinal x) = CARDINAL"
| "item_kind (Long_integer x) = LONG_INTEGER"
| "item_kind (Long_cardinal x) = LONG_CARDINAL"
| "item_kind (String s) = STRING"

primrec put_item :: "usp \<Rightarrow> item \<Rightarrow> status \<times> usp" where
  "put_item us (Boolean x) = USP_put_boolean us x"
| "put_item us (Integer x) = USP_put_integer us x"
| "put_item us (Cardinal x) = USP_put_cardinal us x"
| "put_item us (Long_integer x) = USP_put_long_integer us x"
| "put_item us (Long_cardinal x) = USP_put_long_cardinal us x"
| "put_item us (String s) = USP_put_string us s"

definition with_value :: "('a \<Rightarrow> item) \<Rightarrow> status \<times> 'a \<times> usp \<Rightarrow> status \<times> item \<times> usp" where
  "with_value C p = (case p of (r, x, us) \<Rightarrow> (r, C x, us))"

primrec get_item :: "usp \<Rightarrow> item_type \<Rightarrow> status \<times> item \<times> usp" where
  "get_item us BOOLEAN = with_value Boolean (USP_get_boolean us)"
| "get_item us INTEGER = with_value Integer (USP_get_integer us)"
| "get_item us CARDINAL = with_value Cardinal (USP_get_cardinal us)"
| "get_item us LONG_INTEGER = with_value Long_integer (USP_get_long_integer us)"
| "get_item us LONG_CARDINAL = with_value Long_cardinal (USP_get_long_cardinal us)"
| "get_item us STRING = with_value String (USP_get_string us)"

primrec item_wire :: "item \<Rightarrow> bytes" where
  "item_wire (Boolean x) = be 2 x"
| "item_wire (Integer x) = be 2 x"
| "item_wire (Cardinal x) = be 2 x"
| "item_wire (Long_integer x) = be 4 x"
| "item_wire (Long_cardinal x) = be 4 x"
| "item_wire (String s) = string_wire s"

primrec item_good :: "item \<Rightarrow> bool" where
  "item_good (Boolean x) \<longleftrightarrow> x = 0 \<or> x = 1"
| "item_good (Integer x) \<longleftrightarrow> fits 2 x"
| "item_good (Cardinal x) \<longleftrightarrow> fits_u 2 x"
| "item_good (Long_integer x) \<longleftrightarrow> fits 4 x"
| "item_good (Long_cardinal x) \<longleftrightarrow> fits_u 4 x"
| "item_good (String s) \<longleftrightarrow> string_good s"

lemma with_value_eq: "p = (r, x, us) \<Longrightarrow> with_value C p = (r, C x, us)"
  by (simp add: with_value_def)

interpretation item: usp_item put_item get_item item_kind item_wire item_good
proof
  fix us w p and v :: item
  assume "sent us w p" and "item_good v"
  then show "\<exists>us'. put_item us v = (SUCCESS, us') \<and> sent us' w (p @ item_wire v) \<and> same_in us us'"
    using boolean.put_wire integer.put_wire cardinal.put_wire long_integer.put_wire
      long_cardinal.put_wire string.put_wire
    by (cases v) (simp_all del: ex_simps)
next
  fix us and v :: item and p rest
  assume rc: "recving us (item_wire v @ p) rest" and good: "item_good v"
  show "\<exists>us'. get_item us (item_kind v) = (SUCCESS, v, us') \<and> recving us' p rest \<and> same_out us us'"
  proof (cases v)
    case (Boolean x)
    with rc good boolean.get_wire [of us x p rest] show ?thesis by (force simp: with_value_def)
  next
    case (Integer x)
    with rc good integer.get_wire [of us x p rest] show ?thesis by (force simp: with_value_def)
  next
    case (Cardinal x)
    with rc good cardinal.get_wire [of us x p rest] show ?thesis by (force simp: with_value_def)
  next
    case (Long_integer x)
    with rc good long_integer.get_wire [of us x p rest] show ?thesis by (force simp: with_value_def)
  next
    case (Long_cardinal x)
    with rc good long_cardinal.get_wire [of us x p rest] show ?thesis by (force simp: with_value_def)
  next
    case (String s)
    with rc good string.get_wire [of us s p rest] show ?thesis by (force simp: with_value_def)
  qed
qed

subsection \<open>Blocks as a whole\<close>

text \<open>A block on the wire: its type, then a framing of its payload.\<close>

lemma begin_sent:
  assumes "\<not> sending us" and "\<not> us_wfail us"
  shows "\<exists>us'. USP_begin_block us bt = (SUCCESS, us') \<and> sent us' (us_out us @ be 2 bt) [] \<and> same_in us us'"
  using assms by (auto simp: USP_begin_block_def put_onto_net_def sent_def buffered_def same_in_def Let_def
      intro!: exI [of _ "[]"])

lemma framed_concat:
  "\<forall>c \<in> set cs. length c \<le> 4093 \<Longrightarrow> cs = [] \<or> p \<noteq> [] \<Longrightarrow> framed p f \<Longrightarrow>
   framed (concat cs @ p) (concat (map (sub_block False) cs) @ f)"
  by (induction cs) (auto intro: framed_more)

lemma end_sent:
  assumes "sent us w p"
  shows "\<exists>us' f. USP_end_block us = (SUCCESS, us') \<and> framed p f \<and> us_out us' = w @ f \<and>
    \<not> sending us' \<and> \<not> us_wfail us' \<and> same_in us us'"
proof -
  define us0 where "us0 = us\<lparr>us_errno := NoErr\<rparr>"
  have s0: "sent us0 w p" using assms by (simp add: us0_def)
  then obtain cs where cs: "us_out us0 = w @ concat (map (sub_block False) cs)" "p = concat cs @ outbuf us0"
    "\<forall>c \<in> set cs. length c \<le> 4093" and "length (outbuf us0) \<le> MAX_SUB_BLOCK_LENGTH"
    by (auto simp: sent_def buffered_def)
  moreover have "cs = [] \<or> outbuf us0 \<noteq> []"
  proof (cases "us_out us0 = w")
    case True
    then have "length (concat (map (sub_block False) cs)) = 0" using cs(1) by simp
    moreover have "length (sub_block False c) \<noteq> 0" for c by (simp add: sub_block_def)
    ultimately show ?thesis by (cases cs) auto
  next
    case False
    with s0 show ?thesis by (simp add: sent_def)
  qed
  ultimately have "framed p (concat (map (sub_block False) cs) @ sub_block True (outbuf us0))"
    by (auto intro!: framed_concat framed_last simp: MAX_SUB_BLOCK_LENGTH_def)
  moreover have "send_sub_block us0 True = (SUCCESS, us0\<lparr>us_out := us_out us0 @ sub_block True (outbuf us0)\<rparr>)"
    using s0 by (intro send_payload [of us0 w p]) (simp_all add: sent_def, simp add: us0_def)
  ultimately show ?thesis
    using s0 cs(1) by (auto simp: USP_end_block_def us0_def [symmetric] Let_def sent_def buffered_def same_in_def)
      (auto simp: us0_def)
qed

lemma rcv_blk_payload:
  assumes "us_in us = be 2 bt @ f @ rest" and "framed p f" and "fits_u 2 bt"
    and "bt \<notin> {CONNECTION_OPEN, CONNECTION_ERROR, CONNECTION_END}"
  shows "\<exists>us'. USP_rcv_blk us = Some (SUCCESS, bt, us') \<and> recving us' p rest \<and> same_out us us'"
proof -
  define us1 where "us1 = us\<lparr>us_errno := NoErr, us_in := f @ rest, receiving := True, unread := 0\<rparr>"
  have "get_from_net (us\<lparr>us_errno := NoErr\<rparr>) 2 = (SUCCESS, be 2 bt, us\<lparr>us_errno := NoErr, us_in := f @ rest\<rparr>)"
    using assms(1) by (simp add: get_from_net_ok)
  moreover obtain us2 where "get_sub_block_header us1 = (SUCCESS, us2)" "recving us2 p rest" "same_out us1 us2"
    using framed_header [OF assms(2), of us1 rest] by (auto simp: us1_def)
  ultimately show ?thesis
    using assms(3,4) cardinal_of_be [OF assms(3)]
    by (subst USP_rcv_blk.simps) (auto simp: us1_def same_out_def Let_def simp del: rev_rev_ident)
qed

lemma skip_sub_block_all:
  "unread us \<le> length (us_in us) \<Longrightarrow>
   skip_sub_block us = (SUCCESS, us\<lparr>us_in := drop (unread us) (us_in us), unread := 0\<rparr>)"
proof (induction us rule: skip_sub_block.induct)
  case (1 us)
  show ?case
  proof (cases "1024 < unread us")
    case True
    then have g: "get_from_net us 1024 = (SUCCESS, take 1024 (us_in us), us\<lparr>us_in := drop 1024 (us_in us)\<rparr>)"
      using "1.prems" by (simp add: get_from_net_ok)
    from "1.IH" [OF _ True g [symmetric] refl] "1.prems" True
    show ?thesis by (subst skip_sub_block.simps) (simp add: g)
  next
    case False
    with "1.prems" show ?thesis by (subst skip_sub_block.simps) (simp add: get_from_net_ok)
  qed
qed

lemma flush_payload: "recving us p rest \<Longrightarrow> us_in (USP_flush_block us) = rest \<and> \<not> receiving (USP_flush_block us)"
proof -
  have loop: "recving us p rest \<Longrightarrow>
      \<exists>us1 q. flush_loop us = (SUCCESS, us1) \<and> unread us1 = length q \<and> us_in us1 = q @ rest" for us p
  proof (induction "length (us_in us)" arbitrary: us p rule: less_induct)
    case less
    from less.prems obtain q f where q: "unread us = length q" "us_in us = q @ f" "receiving us"
      and f: "if last_sub us then p = q \<and> f = rest else \<exists>p' f'. p' \<noteq> [] \<and> p = q @ p' \<and> f = f' @ rest \<and> framed p' f'"
      by (auto simp: recving_def)
    show ?case
    proof (cases "last_sub us")
      case True
      with q f show ?thesis by (subst flush_loop.simps) auto
    next
      case False
      with f obtain p' f' where p: "f = f' @ rest" "framed p' f'" by auto
      define us1 where "us1 = us\<lparr>us_in := f, unread := 0\<rparr>"
      have s: "skip_sub_block us = (SUCCESS, us1)"
        using q by (simp add: skip_sub_block_all us1_def)
      from framed_header [OF p(2), of us1 rest] q p(1) obtain us2 where
        h: "get_sub_block_header us1 = (SUCCESS, us2)" "recving us2 p' rest"
        by (auto simp: us1_def)
      from header_in [OF h(1)] q have "length (us_in us2) < length (us_in us)" by (simp add: us1_def)
      from less.hyps [OF this h(2)] s h(1) False show ?thesis
        by (subst flush_loop.simps) simp
    qed
  qed
  assume rc: "recving us p rest"
  define us0 where "us0 = us\<lparr>us_errno := NoErr\<rparr>"
  from rc have "recving us0 p rest" by (simp add: us0_def)
  from loop [OF this] obtain us1 q where "flush_loop us0 = (SUCCESS, us1)" "unread us1 = length q"
    "us_in us1 = q @ rest" by blast
  with recving_receiving [OF \<open>recving us0 p rest\<close>] show ?thesis
    by (simp add: USP_flush_block_def us0_def [symmetric] Let_def skip_sub_block_all)
qed

text \<open>
  C13. A block put on one end of a connection is received on the other: for every list of values
  that fit their types, beginning a block, putting the values and ending the block succeeds, and
  a peer that receives the bytes written gets the block's type, then with the matching \<open>get\<close>
  operations exactly the values in their order, and after flushing the block it is at the first
  byte after it.  The block may span any number of sub-blocks.
\<close>

theorem block_roundtrip:
  assumes "\<not> sending us" and "\<not> us_wfail us" and "\<forall>v \<in> set vs. item_good v"
    and "fits_u 2 bt" and "bt \<notin> {CONNECTION_OPEN, CONNECTION_ERROR, CONNECTION_END}"
  shows "\<exists>us' blk. us_then (USP_begin_block us bt) (\<lambda>us1.
        us_then (put_all put_item us1 vs) USP_end_block) = (SUCCESS, us') \<and>
      us_out us' = us_out us @ blk \<and> \<not> sending us' \<and>
      (\<forall>peer rest. us_in peer = blk @ rest \<longrightarrow>
         (\<exists>p1 p2. USP_rcv_blk peer = Some (SUCCESS, bt, p1) \<and>
            get_all get_item p1 (map item_kind vs) = (SUCCESS, vs, p2) \<and>
            us_in (USP_flush_block p2) = rest))"
proof -
  obtain us1 where 1: "USP_begin_block us bt = (SUCCESS, us1)" "sent us1 (us_out us @ be 2 bt) []"
    using begin_sent [OF assms(1,2)] by blast
  define p where "p = concat (map item_wire vs)"
  from item.put_all_wire [OF 1(2) assms(3)] obtain us2 where
    2: "put_all put_item us1 vs = (SUCCESS, us2)" "sent us2 (us_out us @ be 2 bt) p"
    by (auto simp: p_def)
  from end_sent [OF 2(2)] obtain us3 f where
    3: "USP_end_block us2 = (SUCCESS, us3)" "framed p f" "us_out us3 = us_out us @ be 2 bt @ f" "\<not> sending us3"
    by auto
  have "\<exists>p1 p2. USP_rcv_blk peer = Some (SUCCESS, bt, p1) \<and>
      get_all get_item p1 (map item_kind vs) = (SUCCESS, vs, p2) \<and> us_in (USP_flush_block p2) = rest"
    if inp: "us_in peer = (be 2 bt @ f) @ rest" for peer rest
  proof -
    from rcv_blk_payload [of peer bt f rest p] inp 3(2) assms(4,5) obtain p1 where
      p1: "USP_rcv_blk peer = Some (SUCCESS, bt, p1)" "recving p1 (concat (map item_wire vs) @ []) rest"
      by (auto simp: p_def)
    from item.get_all_wire [OF p1(2) assms(3)] obtain p2 where
      "get_all get_item p1 (map item_kind vs) = (SUCCESS, vs, p2)" "recving p2 [] rest" by blast
    with p1(1) flush_payload show ?thesis by blast
  qed
  with 1(1) 2(1) 3(1,3,4) show ?thesis by (auto simp: us_then_def)
qed

definition new_stream :: "bytes \<Rightarrow> usp" where
  "new_stream inp = \<lparr>us_in = inp, us_out = [], us_wfail = False, receiving = False, last_sub = False,
     unread = 0, sending = False, outbuf = [], us_errno = NoErr, internal_string = []\<rparr>"

theorem block_roundtrip_witness:
  "\<exists>us' blk. us_then (USP_begin_block (new_stream []) 440) (\<lambda>us1.
        us_then (put_all put_item us1 [Long_integer (-2), String ''a'']) USP_end_block) = (SUCCESS, us') \<and>
      us_out us' = us_out (new_stream []) @ blk \<and> \<not> sending us' \<and>
      (\<forall>peer rest. us_in peer = blk @ rest \<longrightarrow>
         (\<exists>p1 p2. USP_rcv_blk peer = Some (SUCCESS, 440, p1) \<and>
            get_all get_item p1 (map item_kind [Long_integer (-2), String ''a'']) =
              (SUCCESS, [Long_integer (-2), String ''a''], p2) \<and>
            us_in (USP_flush_block p2) = rest))"
  by (rule block_roundtrip)
    (auto simp: new_stream_def fits_def fits_u_def string_good_def c_ok_def CONNECTION_OPEN_def
      CONNECTION_ERROR_def CONNECTION_END_def)

subsection \<open>Connection errors\<close>

lemma get_from_net_errno: "get_from_net us n = (r, b, us') \<Longrightarrow> r \<noteq> ERROR \<Longrightarrow> us_errno us' = us_errno us"
  by (cases "n \<le> length (us_in us)") (auto simp: get_from_net_ok get_from_net_eof)

lemma header_errno:
  assumes "get_sub_block_header us = (r, us')" and "r \<noteq> ERROR"
  shows "us_errno us' = us_errno us"
proof -
  obtain r1 b1 u1 where g: "get_from_net us 2 = (r1, b1, u1)" by (metis prod_cases3)
  with assms get_from_net_errno [OF g] show ?thesis
    by (auto simp: get_sub_block_header_def Let_def split: if_splits)
qed

lemma get_from_sub_blocks_errno:
  "get_from_sub_blocks us n = (r, b, us') \<Longrightarrow> r \<noteq> ERROR \<Longrightarrow> us_errno us' = us_errno us"
proof (induction us n arbitrary: r b us' rule: get_from_sub_blocks.induct)
  case (1 us n)
  obtain r1 b1 u1 where g: "get_from_net us (unread us) = (r1, b1, u1)" by (metis prod_cases3)
  obtain r2 u2 where h: "get_sub_block_header u1 = (r2, u2)" by fastforce
  obtain r3 b3 u3 where l: "get_from_sub_blocks u2 (n - unread us) = (r3, b3, u3)" by (metis prod_cases3)
  obtain r4 b4 u4 where g': "get_from_net us n = (r4, b4, u4)" by (metis prod_cases3)
  show ?case
  proof (cases "unread us < n")
    case False
    with "1.prems" g' get_from_net_errno [OF g'] show ?thesis
      by (subst (asm) get_from_sub_blocks.simps) (auto split: if_splits)
  next
    case True
    have IH: "us_errno u3 = us_errno u2" if "r1 \<noteq> ERROR" "\<not> last_sub u1" "r2 \<noteq> ERROR" "r3 \<noteq> ERROR"
      using "1.IH" [OF True g [symmetric] refl refl that(1,2) h [symmetric] refl that(3) l that(4)] .
    from "1.prems"(1) True g h l have "(r, b, us') =
      (if r1 = ERROR then (ERROR, b1, u1) else if last_sub u1 then (SUCCESS, b1, u1\<lparr>unread := 0\<rparr>)
       else if r2 = ERROR then (ERROR, b1, u2) else (r3, b1 @ b3, u3))"
      by (subst (asm) get_from_sub_blocks.simps) (simp add: Let_def split: if_splits)
    with "1.prems"(2) IH get_from_net_errno [OF g] header_errno [OF h] show ?thesis
      by (simp split: if_splits)
  qed
qed

lemma get_errno: "get_from_sub_block us n = (r, b, us') \<Longrightarrow> r \<noteq> ERROR \<Longrightarrow> us_errno us' = us_errno us"
  by (auto simp: get_from_sub_block_def get_from_sub_blocks_errno split: if_splits)

lemma get_string_errno:
  assumes "USP_get_string us = (r, s, us')" and "r \<noteq> ERROR"
  shows "us_errno us' = NoErr"
proof -
  define us0 where "us0 = us\<lparr>us_errno := NoErr\<rparr>"
  obtain r1 b1 u1 where 1: "get_from_sub_block us0 2 = (r1, b1, u1)" by (metis prod_cases3)
  define sl where "sl = nat (cardinal_of b1)"
  define oddp where "oddp = (if odd sl then 1 else 0 :: nat)"
  obtain r2 b2 u2 where 2: "get_from_sub_block u1 (sl + oddp) = (r2, b2, u2)" by (metis prod_cases3)
  from assms 1 2 have "r1 \<noteq> ERROR \<and> r2 \<noteq> ERROR \<and> us' = u2"
    by (simp add: USP_get_string_def us0_def [symmetric] Let_def sl_def [symmetric] oddp_def [symmetric]
        split: if_splits)
  with get_errno [OF 1] get_errno [OF 2] show ?thesis by (simp add: us0_def)
qed

text \<open>
  A \<open>CONNECTION_ERROR\<close> block that arrives complete is intercepted and its text is put into
  \<open>usp_internal_string\<close>, but \<open>errno\<close> is zero afterwards and not \<open>UEINTERNAL\<close> (the \<open>get\<close>
  operations that parse the block clear it), so the caller sees a failure without a reason; and
  a text that does not fit into 256 bytes overruns the buffer.
\<close>

theorem connection_error_lost:
  assumes "us_in us = be 2 CONNECTION_ERROR @ f @ rest"
    and "framed (concat (map item_wire [Cardinal what, String info, Cardinal who, String modname])) f"
    and "\<forall>v \<in> {Cardinal what, String info, Cardinal who, String modname}. item_good v"
  shows "if length (internal_message what info who modname) < 256
    then \<exists>us'. USP_rcv_blk us = Some (ERROR, CONNECTION_ERROR, us') \<and>
      internal_string us' = internal_message what info who modname \<and> us_errno us' = NoErr
    else USP_rcv_blk us = None"
proof -
  define us1 where "us1 = us\<lparr>us_errno := NoErr, us_in := f @ rest, receiving := True, unread := 0\<rparr>"
  have g: "get_from_net (us\<lparr>us_errno := NoErr\<rparr>) 2 =
      (SUCCESS, be 2 CONNECTION_ERROR, us\<lparr>us_errno := NoErr, us_in := f @ rest\<rparr>)"
    using assms(1) by (simp add: get_from_net_ok)
  obtain us2 where 2: "get_sub_block_header us1 = (SUCCESS, us2)"
    "recving us2 (be 2 what @ string_wire info @ be 2 who @ string_wire modname) rest"
    using framed_header [OF assms(2), of us1 rest] by (auto simp: us1_def)
  from assms(3) have good: "fits_u 2 what" "string_good info" "fits_u 2 who" "string_good modname" by auto
  have "recving (us2\<lparr>us_errno := UEINTERNAL\<rparr>) (be 2 what @ string_wire info @ be 2 who @ string_wire modname) rest"
    using 2(2) by simp
  from cardinal.get_wire [OF this good(1)] obtain us3 where
    3: "USP_get_cardinal (us2\<lparr>us_errno := UEINTERNAL\<rparr>) = (SUCCESS, what, us3)"
    "recving us3 (string_wire info @ be 2 who @ string_wire modname) rest" by auto
  from string.get_wire [OF 3(2) good(2)] obtain us4 where
    4: "USP_get_string us3 = (SUCCESS, info, us4)" "recving us4 (be 2 who @ string_wire modname) rest" by auto
  from cardinal.get_wire [OF 4(2) good(3)] obtain us5 where
    5: "USP_get_cardinal us4 = (SUCCESS, who, us5)" "recving us5 (string_wire modname @ []) rest" by auto
  from string.get_wire [OF 5(2) good(4)] obtain us6 where
    6: "USP_get_string us5 = (SUCCESS, modname, us6)" by auto
  have "rcv_connection_error us2 =
      (if length (internal_message what info who modname) < 256
       then Some (us6\<lparr>internal_string := internal_message what info who modname\<rparr>) else None)"
    using 3(1) 4(1) 5(1) 6 by (simp add: rcv_connection_error_def Let_def)
  moreover have "cardinal_of (be 2 CONNECTION_ERROR) = CONNECTION_ERROR"
    by (rule cardinal_of_be) (simp add: fits_u_def CONNECTION_ERROR_def)
  ultimately have "USP_rcv_blk us =
      (if length (internal_message what info who modname) < 256
       then Some (ERROR, CONNECTION_ERROR, us6\<lparr>internal_string := internal_message what info who modname\<rparr>)
       else None)"
    using g 2(1) by (subst USP_rcv_blk.simps) (simp add: us1_def Let_def del: rev_rev_ident)
  with get_string_errno [OF 6] show ?thesis by simp
qed

theorem connection_error_lost_witness:
  "\<exists>us'. USP_rcv_blk (new_stream (be 2 CONNECTION_ERROR @
        sub_block True (concat (map item_wire [Cardinal 12, String ''x'', Cardinal 1, String ''m''])))) =
      Some (ERROR, CONNECTION_ERROR, us') \<and>
    internal_string us' = internal_message 12 ''x'' 1 ''m'' \<and> us_errno us' = NoErr"
proof -
  have "length (internal_message 12 ''x'' 1 ''m'') < 256"
    by (simp add: internal_message_def what_string_def who_string_def usp_setup_errlist_def)
  moreover have "framed (concat (map item_wire [Cardinal 12, String ''x'', Cardinal 1, String ''m'']))
      (sub_block True (concat (map item_wire [Cardinal 12, String ''x'', Cardinal 1, String ''m''])))"
    by (rule framed_last) (simp add: string_wire_def)
  moreover have "\<forall>v \<in> {Cardinal 12, String ''x'', Cardinal 1, String ''m''}. item_good v"
    by (simp add: fits_u_def string_good_def c_ok_def)
  ultimately show ?thesis
    using connection_error_lost [of "new_stream (be 2 CONNECTION_ERROR @ sub_block True
        (concat (map item_wire [Cardinal 12, String ''x'', Cardinal 1, String ''m''])))" _ "[]" 12 "''x''" 1 "''m''"]
    by (simp add: new_stream_def del: list.map concat.simps)
qed

end
