(* ===== verification/Tfile.thy ===== *)
theory Tfile
  imports Usp_Block
begin

text \<open>
  The file objects of \<^verbatim>\<open>athena/bin/discuss/libds\<close>: \<^verbatim>\<open>tfile.c\<close> with its three handlers
  \<^verbatim>\<open>tnet.c\<close> (a block of the client's connection), \<^verbatim>\<open>tunix.c\<close> (an open file) and \<^verbatim>\<open>tmem.c\<close>
  (a vector of buffers).  A call of the server uses one such object, so it is a field of the
  state, next to the file system and the connection; \<open>None\<close> is a null pointer.  The theory also
  fixes the results of the server's calls, \<open>code\<close>.

  \<open>byte_source\<close> is the contract of something that is read sequentially; the three handlers
  fulfil it.
\<close>

text \<open>
  The result codes: the error table \<^verbatim>\<open>discuss/ets/dsc_et.et\<close>, system error numbers, and the
  errors of the stream protocol.
\<close>

datatype code = OK | DUP_MTG_NAME | BAD_PATH | NO_ACCESS | NO_SUCH_MTG | NEW_VERSION | INCONSISTENT
  | BAD_MTG_NAME | NO_SUCH_TRN | DELETED_TRN | NO_WRITE | EXPUNGED_TRN | TRN_NOT_DELETED
  | CANNOT_REMOVE | BAD_MODES | NO_PRINC | NO_MTGS_FILE | BAD_MTGS_FILE | YOU_TWIT | NO_SUCH_USER
  | CANT_WRITE_TEMP | CANT_ATTEND | NO_SUPPORT | MTG_MOVED | ERRNO int | USP errno

definition of_errno :: "errno \<Rightarrow> code" where
  "of_errno e = (if e = NoErr then OK else USP e)"

definition EBADF :: int where "EBADF = 9"
definition EINVAL :: int where "EINVAL = 22"
definition ENOSPC :: int where "ENOSPC = 28"

text \<open>
  The kinds with the state their handlers keep: \<open>info\<close> of \<open>tnet\<close> (1 reading, -1 writing), the
  descriptor, offset and last character of \<open>tunix\<close>, and what is left of the buffers of \<open>tmem\<close>
  with the bytes that were stored into them.
\<close>

datatype tkind = Tnet int | Tunix nat nat char | Tmem "bytes list" bytes

record tfile =
  tf_kind :: tkind
  tf_size :: int

record world =
  fs :: fsys
  us :: usp
  tf :: "tfile option"

definition TFILE_BLK :: int where "TFILE_BLK = 500"

subsection \<open>tnet.c\<close>

definition tnet_open :: "char \<Rightarrow> usp \<Rightarrow> (int \<times> code \<times> int option \<times> usp) option" where
  \<comment> \<open>the third component is the new value of \<open>*info\<close>\<close>
  "tnet_open mode u =
     (if mode = CHR ''r'' then
        do { (r, bt, u1) \<leftarrow> USP_rcv_blk u;
             if r \<noteq> SUCCESS then Some (-1, of_errno (us_errno u1), None, u1)
             else if bt \<noteq> TFILE_BLK then Some (-1, ERRNO EBADF, None, u1)
             else Some (0, OK, Some 1, u1) }
      else
        let (r, u1) = USP_begin_block u TFILE_BLK in
          if r \<noteq> SUCCESS then Some (-1, of_errno (us_errno u1), None, u1)
          else Some (0, OK, Some (-1), u1))"

definition tnet_close :: "int \<Rightarrow> usp \<Rightarrow> usp" where
  "tnet_close info u = (if 0 < info then USP_flush_block u else snd (USP_end_block u))"

definition tnet_read :: "nat \<Rightarrow> usp \<Rightarrow> int \<times> bytes \<times> code \<times> usp" where
  "tnet_read argn u =
     (let (r, b, u1) = USP_get_byte_block u argn in
      if r \<noteq> SUCCESS then (-1, b, of_errno (us_errno u1), u1) else (int (length b), b, OK, u1))"

definition tnet_write :: "bytes \<Rightarrow> usp \<Rightarrow> int \<times> code \<times> usp" where
  "tnet_write argp u =
     (let (r, u1) = USP_put_byte_block u argp in
      if r \<noteq> SUCCESS then (-1, of_errno (us_errno u1), u1) else (int (length argp), OK, u1))"

subsection \<open>tunix.c\<close>

definition tunix_read :: "nat \<Rightarrow> nat \<Rightarrow> nat \<Rightarrow> fsys \<Rightarrow> bytes" where
  "tunix_read d pos argn f = sys_read f d pos argn"

text \<open>\<open>ts -> last_char = argp [numwrite-1]\<close> is outside the buffer for an empty write.\<close>

definition tunix_write :: "nat \<Rightarrow> nat \<Rightarrow> char \<Rightarrow> bytes \<Rightarrow> fsys \<Rightarrow> (int \<times> code \<times> tkind \<times> fsys) option" where
  "tunix_write d pos lc argp f =
     (let (r, f1) = sys_write f d pos argp in
      if r < 0 then Some (-1, ERRNO ENOSPC, Tunix d pos lc, f1)
      else if argp = [] then None
      else Some (r, OK, Tunix d (pos + length argp) (last argp), f1))"

definition tunix_force_nl :: "nat \<Rightarrow> nat \<Rightarrow> char \<Rightarrow> fsys \<Rightarrow> tkind \<times> fsys" where
  "tunix_force_nl d pos lc f =
     (if lc \<noteq> NL then
        let (r, f1) = sys_write f d pos [NL] in (Tunix d (if r < 0 then pos else pos + 1) NL, f1)
      else (Tunix d pos lc, f))"

definition unix_tfile :: "nat \<Rightarrow> fsys \<Rightarrow> tfile" where
  "unix_tfile d f = \<lparr>tf_kind = Tunix d 0 NUL, tf_size = i32 (int (length (fdata f d)))\<rparr>"

subsection \<open>tmem.c\<close>

text \<open>
  The vector ends with an entry of length zero, here the end of the list.  Moving on from that
  entry reads past the vector: \<open>None\<close>.
\<close>

fun iov_gather :: "bytes list \<Rightarrow> nat \<Rightarrow> (bytes \<times> bytes list) option" where
  "iov_gather iov 0 = Some ([], iov)"
| "iov_gather [] len = None"
| "iov_gather (b # iov) len =
     (if len < length b then Some (take len b, drop len b # iov)
      else if iov = [] then Some (b, [])
      else map_option (\<lambda>(bs, r). (b @ bs, r)) (iov_gather iov (len - length b)))"

fun iov_scatter :: "bytes list \<Rightarrow> bytes \<Rightarrow> (bytes \<times> bytes list) option" where
  "iov_scatter iov [] = Some ([], iov)"
| "iov_scatter [] buf = None"
| "iov_scatter (b # iov) buf =
     (if length buf < length b then Some (buf, drop (length buf) b # iov)
      else if iov = [] then Some (take (length b) buf, [])
      else map_option (\<lambda>(bs, r). (take (length b) buf @ bs, r)) (iov_scatter iov (drop (length b) buf)))"

definition mem_tfile :: "bytes \<Rightarrow> tfile" where
  "mem_tfile buffer = \<lparr>tf_kind = Tmem [buffer] [], tf_size = int (length buffer)\<rparr>"

definition memv_tfile :: "bytes list \<Rightarrow> tfile" where
  "memv_tfile vec =
     (let v = takeWhile (\<lambda>b. b \<noteq> []) vec in
      \<lparr>tf_kind = Tmem v [], tf_size = int (sum_list (map length v))\<rparr>)"

subsection \<open>tfile.c\<close>

definition set_kind :: "tfile \<Rightarrow> tkind \<Rightarrow> 'a world_scheme \<Rightarrow> 'a world_scheme" where
  "set_kind t k w = w\<lparr>tf := Some (t\<lparr>tf_kind := k\<rparr>)\<rparr>"

definition tfsize :: "tfile \<Rightarrow> int" where
  "tfsize t = tf_size t"

definition topen :: "char \<Rightarrow> 'a world_scheme \<Rightarrow> (int \<times> code \<times> 'a world_scheme) option" where
  "topen mode w =
     (case tf w of
        None \<Rightarrow> Some (-1, ERRNO EINVAL, w)
      | Some t \<Rightarrow>
          (case tf_kind t of
             Tnet info \<Rightarrow>
               do { (r, c, i, u1) \<leftarrow> tnet_open mode (us w);
                    Some (r, c, set_kind t (Tnet (case i of Some x \<Rightarrow> x | None \<Rightarrow> info)) (w\<lparr>us := u1\<rparr>)) }
           | _ \<Rightarrow> Some (0, OK, w)))"

definition tclose :: "'a world_scheme \<Rightarrow> int \<times> code \<times> 'a world_scheme" where
  "tclose w =
     (case tf w of
        None \<Rightarrow> (-1, ERRNO EINVAL, w)
      | Some t \<Rightarrow>
          (case tf_kind t of
             Tnet info \<Rightarrow> (0, OK, w\<lparr>us := tnet_close info (us w)\<rparr>)
           | _ \<Rightarrow> (0, OK, w)))"

definition tread :: "nat \<Rightarrow> 'a world_scheme \<Rightarrow> (int \<times> bytes \<times> code \<times> 'a world_scheme) option" where
  "tread wanted w =
     (case tf w of
        None \<Rightarrow> Some (-1, [], ERRNO EINVAL, w)
      | Some t \<Rightarrow>
          (case tf_kind t of
             Tnet info \<Rightarrow>
               let (r, b, c, u1) = tnet_read wanted (us w) in Some (r, b, c, w\<lparr>us := u1\<rparr>)
           | Tunix d pos lc \<Rightarrow>
               let b = tunix_read d pos wanted (fs w)
               in Some (int (length b), b, OK, set_kind t (Tunix d (pos + length b) lc) w)
           | Tmem iov st \<Rightarrow>
               do { (b, iov') \<leftarrow> iov_gather iov wanted;
                    Some (int (length b), b, OK, set_kind t (Tmem iov' st) w) }))"

definition twrite :: "bytes \<Rightarrow> 'a world_scheme \<Rightarrow> (int \<times> code \<times> 'a world_scheme) option" where
  "twrite buf w =
     (case tf w of
        None \<Rightarrow> Some (-1, ERRNO EINVAL, w)
      | Some t \<Rightarrow>
          (case tf_kind t of
             Tnet info \<Rightarrow>
               let (r, c, u1) = tnet_write buf (us w) in Some (r, c, w\<lparr>us := u1\<rparr>)
           | Tunix d pos lc \<Rightarrow>
               do { (r, c, k, f1) \<leftarrow> tunix_write d pos lc buf (fs w);
                    Some (r, c, set_kind t k (w\<lparr>fs := f1\<rparr>)) }
           | Tmem iov st \<Rightarrow>
               do { (b, iov') \<leftarrow> iov_scatter iov buf;
                    Some (int (length b), OK, set_kind t (Tmem iov' (st @ b)) w) }))"

definition TFC_FORCE_NL :: int where "TFC_FORCE_NL = 15"

definition tcontrol :: "int \<Rightarrow> 'a world_scheme \<Rightarrow> int \<times> code \<times> 'a world_scheme" where
  "tcontrol op w =
     (case tf w of
        None \<Rightarrow> (-1, ERRNO EINVAL, w)
      | Some t \<Rightarrow>
          (case tf_kind t of
             Tnet info \<Rightarrow> (-1, ERRNO EBADF, w)
           | Tunix d pos lc \<Rightarrow>
               (if op = TFC_FORCE_NL then
                  let (k, f1) = tunix_force_nl d pos lc (fs w) in (0, OK, set_kind t k (w\<lparr>fs := f1\<rparr>))
                else (0, OK, w))
           | Tmem iov st \<Rightarrow> (-1, ERRNO EINVAL, w)))"

definition tdestroy :: "'a world_scheme \<Rightarrow> int \<times> 'a world_scheme" where
  "tdestroy w = (case tf w of None \<Rightarrow> (-1, w) | Some t \<Rightarrow> (0, w\<lparr>tf := None\<rparr>))"

definition net_tfile :: "int \<Rightarrow> tfile" where
  "net_tfile tfs = \<lparr>tf_kind = Tnet 0, tf_size = tfs\<rparr>"

subsection \<open>Sequential reading\<close>

text \<open>Reads of the given sizes, one after the other.\<close>

fun reads :: "('s \<Rightarrow> nat \<Rightarrow> (int \<times> bytes \<times> code \<times> 's) option) \<Rightarrow> 's \<Rightarrow> nat list \<Rightarrow> (bytes \<times> 's) option" where
  "reads rd s [] = Some ([], s)"
| "reads rd s (n # ns) =
     do { (r, b, c, s1) \<leftarrow> rd s n;
          if c \<noteq> OK then None else do { (bs, s2) \<leftarrow> reads rd s1 ns; Some (b @ bs, s2) } }"

locale byte_source =
  fixes rd :: "'s \<Rightarrow> nat \<Rightarrow> (int \<times> bytes \<times> code \<times> 's) option"
    and src :: "'s \<Rightarrow> bytes \<Rightarrow> bool"
  assumes rd_src: "src s p \<Longrightarrow> n \<le> length p \<Longrightarrow>
      \<exists>s'. rd s n = Some (int n, take n p, OK, s') \<and> src s' (drop n p)"
begin

lemma reads_src:
  "src s p \<Longrightarrow> sum_list ns \<le> length p \<Longrightarrow>
   \<exists>s'. reads rd s ns = Some (take (sum_list ns) p, s') \<and> src s' (drop (sum_list ns) p)"
proof (induction ns arbitrary: s p)
  case (Cons n ns)
  from rd_src [OF Cons.prems(1), of n] Cons.prems(2) obtain s1 where
    1: "rd s n = Some (int n, take n p, OK, s1)" "src s1 (drop n p)" by auto
  have "sum_list ns \<le> length (drop n p)" using Cons.prems(2) by simp
  from Cons.IH [OF 1(2) this] obtain s2 where
    "reads rd s1 ns = Some (take (sum_list ns) (drop n p), s2)" "src s2 (drop (sum_list ns) (drop n p))"
    by blast
  with 1(1) show ?case by (auto simp: take_add add.commute)
qed simp

text \<open>However a reader cuts its reads, it gets the same bytes.\<close>

lemma reads_same:
  assumes "src s p" and "sum_list ns = length p" and "sum_list ms = length p"
  shows "map_option fst (reads rd s ns) = map_option fst (reads rd s ms)"
    and "map_option fst (reads rd s ns) = Some p"
  using reads_src [OF assms(1), of ns] reads_src [OF assms(1), of ms] assms(2,3) by auto

end

definition net_src :: "'a world_scheme \<Rightarrow> bytes \<Rightarrow> bool" where
  "net_src w p \<longleftrightarrow> (\<exists>t i rest. tf w = Some t \<and> tf_kind t = Tnet i \<and> recving (us w) p rest)"

definition unix_src :: "'a world_scheme \<Rightarrow> bytes \<Rightarrow> bool" where
  "unix_src w p \<longleftrightarrow> (\<exists>t d pos lc. tf w = Some t \<and> tf_kind t = Tunix d pos lc \<and> p = drop pos (fdata (fs w) d))"

definition mem_src :: "'a world_scheme \<Rightarrow> bytes \<Rightarrow> bool" where
  "mem_src w p \<longleftrightarrow> (\<exists>t iov st. tf w = Some t \<and> tf_kind t = Tmem iov st \<and> p = concat iov)"

lemma iov_gather_concat:
  "n \<le> length (concat iov) \<Longrightarrow>
   \<exists>iov'. iov_gather iov n = Some (take n (concat iov), iov') \<and> concat iov' = drop n (concat iov)"
proof (induction iov n rule: iov_gather.induct)
  case (3 b iov v)
  show ?case
  proof (cases "Suc v < length b \<or> iov = []")
    case True
    with 3 show ?thesis by auto
  next
    case False
    then have "\<not> Suc v < length b" "iov \<noteq> []" "Suc v - length b \<le> length (concat iov)"
      using 3(2) by auto
    from 3(1) [OF this] obtain iov' where "iov_gather iov (Suc v - length b) = Some (take (Suc v - length b) (concat iov), iov')"
      "concat iov' = drop (Suc v - length b) (concat iov)" by blast
    with False show ?thesis by auto
  qed
qed auto

interpretation net: byte_source "\<lambda>w n. tread n w" net_src
proof
  fix w :: "'a world_scheme" and p n
  assume "net_src w p" and n: "n \<le> length p"
  then obtain t i rest where t: "tf w = Some t" "tf_kind t = Tnet i" "recving (us w) p rest"
    by (auto simp: net_src_def)
  from t(3) obtain u1 where "get_from_sub_block (us w) n = (SUCCESS, take n p, u1)" "recving u1 (drop n p) rest"
    by (rule get_payload [where n = n])
  with t n show "\<exists>w'. tread n w = Some (int n, take n p, OK, w') \<and> net_src w' (drop n p)"
    by (auto simp: tread_def tnet_read_def USP_get_byte_block_def net_src_def)
qed

interpretation unix: byte_source "\<lambda>w n. tread n w" unix_src
proof
  fix w :: "'a world_scheme" and p n
  assume "unix_src w p" and n: "n \<le> length p"
  then obtain t d pos lc where t: "tf w = Some t" "tf_kind t = Tunix d pos lc" "p = drop pos (fdata (fs w) d)"
    by (auto simp: unix_src_def)
  with n show "\<exists>w'. tread n w = Some (int n, take n p, OK, w') \<and> unix_src w' (drop n p)"
    by (auto simp: tread_def tunix_read_def sys_read_def slice_def unix_src_def set_kind_def Let_def add.commute)
qed

interpretation mem: byte_source "\<lambda>w n. tread n w" mem_src
proof
  fix w :: "'a world_scheme" and p n
  assume "mem_src w p" and n: "n \<le> length p"
  then obtain t iov st where t: "tf w = Some t" "tf_kind t = Tmem iov st" "p = concat iov"
    by (auto simp: mem_src_def)
  with n iov_gather_concat [of n iov] show "\<exists>w'. tread n w = Some (int n, take n p, OK, w') \<and> mem_src w' (drop n p)"
    by (auto simp: tread_def mem_src_def set_kind_def)
qed

end
