(* ===== verification/Coreutil.thy ===== *)
theory Coreutil
  imports Atom Mtg Acl Tfile
begin

text \<open>
  The lower layer of the server, \<^verbatim>\<open>athena/bin/discuss/server/coreutil.c\<close>: the global state, the
  in-memory superblock, opening a meeting, and reading and writing its records.  Every global
  variable of the server is a field of \<open>srv\<close>; descriptors are 0 when there is none (the C code
  also has -1 after a failed \<open>open\<close>, and does nothing but \<open>close\<close> with either).

  \<open>None\<close> is an execution that never returns or has no defined result: \<open>panic\<close> and \<open>exit\<close>, the use
  of a null or freed pointer or of memory that was never written, a negative length or address.
  A \<open>cbuf\<close> is a chain block variable of a C function, \<open>None\<close> before anything is read into it.
\<close>

datatype acl_ptr = NoAcl | Acl acl | Freed

record srv = world +
  current_mtg :: string
  u_trn_f :: nat
  u_control_f :: nat
  u_acl_f :: nat
  nuclear :: bool
  a_control_f :: afile
  abort_file :: bool
  read_lock :: bool
  mtg_swapped :: bool
  mtg_acl :: acl_ptr
  last_acl_mod :: int
  super :: mtg_super
  super_chairman :: "bytes option"
  super_long_name :: "bytes option"
  has_privs :: bool
  no_nuke :: bool
  rpc_caller :: string

type_synonym cbuf = "chain_blk option"

definition new_string :: "string \<Rightarrow> string" where
  "new_string s = cstr s"

text \<open>A buffer used as a C string: it has to contain its end.\<close>

definition c_string :: "bytes option \<Rightarrow> string option" where
  "c_string b = (case b of None \<Rightarrow> None | Some bs \<Rightarrow> if NUL \<in> set bs then Some (cstr bs) else None)"

definition fsize :: "fsys \<Rightarrow> nat \<Rightarrow> int" where
  "fsize f d = i32 (int (length (fdata f d)))"

definition fis_owner :: "fsys \<Rightarrow> nat \<Rightarrow> int \<Rightarrow> bool" where
  "fis_owner f d uid \<longleftrightarrow> uid = i_uid (inodes f d)"

subsection \<open>The control file\<close>

text \<open>
  What every access to the control file does: through the atomic file when \<open>nuclear\<close> is set, by
  \<open>lseek\<close> with \<open>read\<close> or \<open>write\<close> when not.  \<open>ctl_read\<close> gives the bytes that arrive in the buffer.
\<close>

definition ctl_read :: "srv \<Rightarrow> int \<Rightarrow> int \<Rightarrow> bytes option" where
  "ctl_read s pos n =
     (if pos < 0 \<or> n < 0 then None
      else if nuclear s then map_option snd (aread (a_control_f s) (fs s) (nat n) (nat pos))
      else Some (sys_read (fs s) (u_control_f s) (nat pos) (nat n)))"

definition ctl_write :: "srv \<Rightarrow> int \<Rightarrow> int \<Rightarrow> bytes \<Rightarrow> (int \<times> srv) option" where
  "ctl_write s pos n buf =
     (if pos < 0 \<or> n < 0 then None
      else if nuclear s then
        map_option (\<lambda>(r, af, f). (r, s\<lparr>a_control_f := af, fs := f\<rparr>))
          (awrite (a_control_f s) (fs s) (take (nat n) buf) (nat pos))
      else let (r, f) = sys_write (fs s) (u_control_f s) (nat pos) (take (nat n) buf)
        in Some (r, s\<lparr>fs := f\<rparr>))"

definition read_super :: "srv \<Rightarrow> (code \<times> srv) option" where
  "read_super s0 =
     do { b \<leftarrow> ctl_read s0 0 (int SUPER_SIZE);
          let sblk = dec_super (b @ drop (length b) (enc_super (super s0)));
          let s = s0\<lparr>super := sblk\<rparr>;
          if \<not> mtg_swapped s \<and> ms_unique sblk \<noteq> MTG_SUPER_UNIQUE then Some (INCONSISTENT, s)
          else if mtg_swapped s \<and> ms_unique sblk \<noteq> MTG_SUPER_UNIQUE_SWAP then Some (INCONSISTENT, s)
          else
            let sblk = (if mtg_swapped s then swap_super sblk else sblk); s = s\<lparr>super := sblk\<rparr> in
            if ms_version sblk \<noteq> MTG_SUPER_1 then Some (NEW_VERSION, s)
            else do { ln \<leftarrow> ctl_read s (ms_long_name_addr sblk) (ms_long_name_len sblk);
                      ch \<leftarrow> ctl_read s (ms_chairman_addr sblk) (ms_chairman_len sblk);
                      Some (OK, s\<lparr>super_long_name := Some ln, super_chairman := Some ch\<rparr>) } }"

definition write_super :: "srv \<Rightarrow> srv option" where
  "write_super s =
     do { chairman \<leftarrow> c_string (super_chairman s);
          long_name \<leftarrow> c_string (super_long_name s);
          let sc_len = int (length chairman) + 1;
          let sl_len = int (length long_name) + 1;
          let sblk0 = super s;
          let sblk = (if sc_len \<noteq> ms_chairman_len sblk0 \<or> sl_len \<noteq> ms_long_name_len sblk0
                     then sblk0\<lparr>ms_long_name_addr := int SUPER_SIZE,
                               ms_long_name_len := i16 sl_len,
                               ms_chairman_addr := int SUPER_SIZE + i16 sl_len,
                               ms_chairman_len := i16 sc_len\<rparr>
                     else sblk0);
          let sblk1 = (if mtg_swapped s then swap_super sblk else sblk);
          (_, s1) \<leftarrow> ctl_write s 0 (int SUPER_SIZE) (enc_super sblk1);
          (_, s2) \<leftarrow> ctl_write s1 (ms_long_name_addr sblk) (ms_long_name_len sblk) (long_name @ [NUL]);
          (_, s3) \<leftarrow> ctl_write s2 (ms_chairman_addr sblk) (ms_chairman_len sblk) (chairman @ [NUL]);
          Some (s3\<lparr>super_chairman := None, super_long_name := None, super := sblk1\<lparr>ms_unique := 0\<rparr>\<rparr>) }"

definition forget_super :: "srv \<Rightarrow> srv" where
  "forget_super s =
     s\<lparr>super_long_name := None, super_chairman := None, super := (super s)\<lparr>ms_unique := 0\<rparr>\<rparr>"

text \<open>One process is modelled, so a lock is always granted.\<close>

definition start_read :: "srv \<Rightarrow> srv" where
  "start_read s = (if \<not> no_nuke s then s\<lparr>read_lock := True\<rparr> else s)"

definition finish_read :: "srv \<Rightarrow> srv" where
  "finish_read s = (if \<not> no_nuke s then s\<lparr>read_lock := False\<rparr> else s)"

definition chain_addr :: "mtg_super \<Rightarrow> int \<Rightarrow> int" where
  "chain_addr sblk trn =
     (if trn < ms_lowest sblk \<or> trn > ms_highest sblk then 0
      else i32 (ms_chain_start sblk + (trn - 1) * int CHAIN_SIZE))"

definition read_chain :: "srv \<Rightarrow> int \<Rightarrow> cbuf \<Rightarrow> (code \<times> cbuf) option" where
  "read_chain s trn cb0 =
     (let cbaddr = chain_addr (super s) trn in
      if cbaddr = 0 then Some (NO_SUCH_TRN, cb0)
      else do { b \<leftarrow> ctl_read s cbaddr (int CHAIN_SIZE);
                cb \<leftarrow> (case cb0 of
                         None \<Rightarrow> if length b < CHAIN_SIZE then None else Some (dec_chain b)
                       | Some old \<Rightarrow> Some (dec_chain (b @ drop (length b) (enc_chain old))));
                let cb = (if mtg_swapped s then swap_chain cb else cb);
                if cb_unique cb \<noteq> CHAIN_BLK_UNIQUE \<or> cb_current cb \<noteq> trn then Some (INCONSISTENT, Some cb)
                else if cb_version cb \<noteq> CHAIN_BLK_1 then Some (NEW_VERSION, Some cb)
                else Some (OK, Some cb) })"

definition write_chain :: "srv \<Rightarrow> chain_blk \<Rightarrow> (code \<times> srv) option" where
  "write_chain s cb =
     (let cbaddr = chain_addr (super s) (cb_current cb) in
      if cbaddr = 0 then Some (NO_SUCH_TRN, s)
      else do { (r, s1) \<leftarrow> ctl_write s cbaddr (int CHAIN_SIZE)
                            (enc_chain (if mtg_swapped s then swap_chain cb else cb));
                Some (if r \<noteq> int CHAIN_SIZE then NO_WRITE else OK, s1) })"

subsection \<open>The transaction file\<close>

text \<open>
  \<open>read_trn\<close> with the flags which of the strings are wanted (which pointers are not null); the
  buffers are returned as they are in memory.
\<close>

definition trn_read :: "srv \<Rightarrow> int \<Rightarrow> int \<Rightarrow> bytes option" where
  "trn_read s pos n = (if pos < 0 \<or> n < 0 then None else Some (sys_read (fs s) (u_trn_f s) (nat pos) (nat n)))"

definition signature_of :: "trn_hdr \<Rightarrow> bytes \<Rightarrow> string option" where
  "signature_of th author =
     do { a \<leftarrow> c_string (Some author);
          if int (length a) + 1 = th_author_len th then Some a
          else c_string (Some (drop (length a + 1) author)) }"

definition read_trn :: "srv \<Rightarrow> int \<Rightarrow> bool \<Rightarrow> bool \<Rightarrow> bool \<Rightarrow>
    (code \<times> trn_hdr \<times> bytes \<times> bytes \<times> string) option" where
  "read_trn s trn_addr subj auth sig =
     do { b \<leftarrow> trn_read s trn_addr (int HDR_SIZE);
          if length b < HDR_SIZE then None else
          let th = dec_hdr b; th = (if mtg_swapped s then swap_trn th else th) in
          if th_unique th \<noteq> TRN_HDR_UNIQUE then Some (INCONSISTENT, th, [], [], [])
          else if th_version th \<noteq> TRN_HDR_1 then Some (NEW_VERSION, th, [], [], [])
          else do { sb \<leftarrow> (if subj then trn_read s (th_subject_addr th) (th_subject_len th) else Some []);
                    au \<leftarrow> (if auth \<or> sig then trn_read s (th_author_addr th) (th_author_len th) else Some []);
                    sg \<leftarrow> (if sig then signature_of th au else Some []);
                    Some (OK, th, sb, au, sg) } }"

subsection \<open>Aborting\<close>

definition core_abort :: "srv \<Rightarrow> srv" where
  "core_abort s0 =
     (let s1 = (if nuclear s0 then s0\<lparr>fs := aabort (a_control_f s0) (fs s0), nuclear := False\<rparr> else s0);
          s2 = (if abort_file s1 then (snd (snd (tclose s1)))\<lparr>abort_file := False\<rparr> else s1);
          s3 = (if read_lock s2 then finish_read s2 else s2)
      in forget_super s3)"

subsection \<open>Access\<close>

definition check_acl :: "srv \<Rightarrow> string \<Rightarrow> bool option" where
  "check_acl s test_modes =
     (case mtg_acl s of Acl l \<Rightarrow> acl_check l (rpc_caller s) test_modes | _ \<Rightarrow> None)"

definition has_trn_access :: "srv \<Rightarrow> bytes \<Rightarrow> char \<Rightarrow> bool option" where
  "has_trn_access s author mode =
     (if has_privs s then Some True
      else if mode = CHR ''d'' then
        do { a \<leftarrow> c_string (Some author);
             check_acl s (if a = rpc_caller s then ''o'' else ''d'') }
      else if mode = CHR ''r'' then
        do { r \<leftarrow> check_acl s ''r'';
             if r then Some True
             else do { a \<leftarrow> c_string (Some author);
                       if a = rpc_caller s then check_acl s ''o'' else Some False } }
      else None)"

definition has_mtg_access :: "srv \<Rightarrow> char \<Rightarrow> bool option" where
  "has_mtg_access s mode =
     (if has_privs s then Some True
      else if mode \<in> set ''warsoc'' then check_acl s [mode]
      else None)"

subsection \<open>Opening a meeting\<close>

definition acl_destroy :: "acl_ptr \<Rightarrow> acl_ptr option" where
  "acl_destroy p = (case p of NoAcl \<Rightarrow> Some NoAcl | Acl l \<Rightarrow> Some Freed | Freed \<Rightarrow> None)"

definition punt_mtg :: "code \<Rightarrow> srv \<Rightarrow> (code \<times> srv) option" where
  "punt_mtg result s = do { _ \<leftarrow> acl_destroy (mtg_acl s); Some (result, s\<lparr>mtg_acl := NoAcl\<rparr>) }"

definition open_error :: "int \<Rightarrow> code" where
  "open_error e = (if e = ENOENT then NO_SUCH_MTG else if e = EACCES then NO_ACCESS else BAD_PATH)"

definition good_path :: "string \<Rightarrow> nat \<Rightarrow> bool" where
  "good_path name maxlen \<longleftrightarrow>
     name \<noteq> [] \<and> hd name = CHR ''/'' \<and> length name \<le> maxlen \<and> last name \<noteq> CHR ''/''"

text \<open>The last part: the transaction file and its base.\<close>

definition open_trn_file :: "string \<Rightarrow> srv \<Rightarrow> (code \<times> srv) option" where
  "open_trn_file mtg_name s =
     (case sys_open (fs s) (mtg_name @ ''/transactions'') of
        Inl e \<Rightarrow> punt_mtg (open_error e) s
      | Inr d \<Rightarrow>
          let s = s\<lparr>u_trn_f := d\<rparr> in
          if \<not> fis_owner (fs s) d (euid (fs s)) then punt_mtg NO_ACCESS s
          else
            let b = sys_read (fs s) d 0 BASE_SIZE; tb = dec_base b in
            if length b < 8 then None
            else if tb_unique tb = TRN_BASE_UNIQUE_SWAP then
              let s = s\<lparr>mtg_swapped := True\<rparr> in
              if tb_unique (swap_trn_base tb) \<noteq> TRN_BASE_UNIQUE then punt_mtg INCONSISTENT s
              else Some (OK, s\<lparr>current_mtg := mtg_name\<rparr>)
            else
              let s = s\<lparr>mtg_swapped := False\<rparr> in
              if tb_unique tb \<noteq> TRN_BASE_UNIQUE then punt_mtg INCONSISTENT s
              else Some (OK, s\<lparr>current_mtg := mtg_name\<rparr>))"

text \<open>The middle part: the access list and the control file.\<close>

definition open_files :: "string \<Rightarrow> srv \<Rightarrow> (code \<times> srv) option" where
  "open_files mtg_name s =
     (case sys_open (fs s) (mtg_name @ ''/acl'') of
        Inl e \<Rightarrow> punt_mtg (open_error e) s
      | Inr d \<Rightarrow>
          if \<not> fis_owner (fs s) d (euid (fs s)) then punt_mtg NO_ACCESS (s\<lparr>u_acl_f := d\<rparr>)
          else
            let s = s\<lparr>mtg_acl := (case acl_read (fdata (fs s) d) of None \<Rightarrow> NoAcl | Some l \<Rightarrow> Acl l),
                      last_acl_mod := i_mtime (inodes (fs s) d), u_acl_f := 0\<rparr> in
            (case sys_open (fs s) (mtg_name @ ''/control'') of
               Inl e \<Rightarrow> punt_mtg (open_error e) s
             | Inr d \<Rightarrow>
                 let s = s\<lparr>u_control_f := d\<rparr> in
                 if \<not> fis_owner (fs s) d (euid (fs s)) then punt_mtg NO_ACCESS s
                 else open_trn_file mtg_name s))"

definition close_previous :: "srv \<Rightarrow> srv option" where
  "close_previous s =
     (if current_mtg s \<noteq> [] then
        if nuclear s then None
        else do { p \<leftarrow> acl_destroy (mtg_acl s); Some (s\<lparr>current_mtg := [], mtg_acl := p\<rparr>) }
      else Some s)"

definition open_mtg :: "string \<Rightarrow> srv \<Rightarrow> (code \<times> srv) option" where
  "open_mtg mtg_name s =
     (if \<not> good_path mtg_name 168 then Some (BAD_PATH, s)
      else if sys_stat (fs s) (mtg_name @ ''/forward'') \<noteq> None then Some (MTG_MOVED, s)
      else if mtg_name = current_mtg s \<and>
          (case sys_stat (fs s) (mtg_name @ ''/acl'') of
             Some sb \<Rightarrow> i_mtime sb \<le> last_acl_mod s | None \<Rightarrow> False) then Some (OK, s)
      else do { s1 \<leftarrow> close_previous s;
                open_files mtg_name (s1\<lparr>u_trn_f := 0, u_control_f := 0, u_acl_f := 0\<rparr>) })"

end
