(* ===== verification/Acl_core.thy ===== *)
theory Acl_core
  imports Coreutil
begin

text \<open>
  The remote calls on access lists, \<^verbatim>\<open>athena/bin/discuss/server/acl_core.c\<close>.  The access list of
  a meeting is the file \<open>acl\<close> in its directory.  It is never changed in place: the new list is
  written to \<open>acl~\<close>, which is then renamed, so that \<open>acl\<close> always is a complete list.  The
  lock on the control file is granted, one process being modelled; descriptors that are only
  closed do not appear.

  A local variable that a C function passes on without having set it is an argument \<open>junk\<close>.
\<close>

definition unusable_name :: "string \<Rightarrow> nat \<Rightarrow> bool" where
  "unusable_name mtg_name extra \<longleftrightarrow>
     mtg_name = [] \<or> hd mtg_name \<noteq> CHR ''/'' \<or> length mtg_name + extra \<ge> MAXPATHLEN \<or>
     last mtg_name = CHR ''/''"

text \<open>
  \<open>read_acl\<close>.  The two null results of \<open>acl_read\<close> in the model come from an empty or malformed
  file, for which \<open>errno\<close> stays 0.
\<close>

definition read_acl :: "string \<Rightarrow> bool \<Rightarrow> srv \<Rightarrow> (code \<times> acl option) option" where
  "read_acl mtg_name check s =
     (if unusable_name mtg_name 5 then Some (BAD_PATH, None)
      else case sys_open (fs s) (mtg_name @ ''/acl'') of
        Inl e \<Rightarrow> Some (ERRNO e, None)
      | Inr fd \<Rightarrow>
          (case acl_read (fdata (fs s) fd) of
             None \<Rightarrow> Some (NO_ACCESS, None)
           | Some list \<Rightarrow>
               do { ok \<leftarrow> (if check then acl_check list (rpc_caller s) ''s'' else Some True);
                    if \<not> ok then Some (NO_ACCESS, None) else Some (OK, Some list) }))"

definition get_acl :: "string \<Rightarrow> srv \<Rightarrow> (code \<times> acl option) option" where
  "get_acl mtg_name s = read_acl mtg_name (\<not> has_privs s) s"

definition get_access :: "string \<Rightarrow> string \<Rightarrow> srv \<Rightarrow> (code \<times> string option) option" where
  "get_access mtg_name princ_name s =
     do { (c, list) \<leftarrow> read_acl mtg_name (\<not> has_privs s \<and> princ_name \<noteq> rpc_caller s) s;
          if c \<noteq> OK then Some (c, None)
          else do { l \<leftarrow> list; Some (OK, Some (new_string (acl_get_access l princ_name))) } }"

subsection \<open>Editing under the lock\<close>

text \<open>
  A failed open destroys what the caller's pointer holds, which neither caller has set.
\<close>

definition locked_punt :: "code \<Rightarrow> acl_ptr \<Rightarrow> (code \<times> string \<times> acl_ptr) option" where
  "locked_punt result acl = do { p \<leftarrow> acl_destroy acl; Some (result, [], p) }"

definition locked_open_mtg :: "acl_ptr \<Rightarrow> string \<Rightarrow> srv \<Rightarrow> (code \<times> string \<times> acl_ptr) option" where
  "locked_open_mtg junk mtg_name s =
     (if unusable_name mtg_name 9 then locked_punt BAD_PATH junk
      else case sys_open (fs s) (mtg_name @ ''/control'') of
        Inl e \<Rightarrow> locked_punt (ERRNO e) junk
      | Inr lockfd \<Rightarrow>
          (case sys_open (fs s) (mtg_name @ ''/acl'') of
             Inl e \<Rightarrow> locked_punt (open_error e) junk
           | Inr afd \<Rightarrow>
               if \<not> fis_owner (fs s) afd (euid (fs s)) then locked_punt NO_ACCESS junk
               else Some (OK, mtg_name @ ''/acl'',
                      case acl_read (fdata (fs s) afd) of None \<Rightarrow> NoAcl | Some l \<Rightarrow> Acl l)))"

definition locked_abort :: "acl_ptr \<Rightarrow> srv \<Rightarrow> srv option" where
  "locked_abort acl s = do { _ \<leftarrow> acl_destroy acl; Some s }"

definition locked_close_mtg :: "string \<Rightarrow> acl \<Rightarrow> srv \<Rightarrow> (code \<times> srv) option" where
  "locked_close_mtg acl_name acl s =
     do { ok \<leftarrow> (if has_privs s then Some True else acl_check acl (rpc_caller s) ''c'');
          if \<not> ok then Some (YOU_TWIT, s)
          else case sys_open_trunc (fs s) (acl_name @ ''~'') of
            Inl e \<Rightarrow> Some (ERRNO e, s)
          | Inr (afd, f) \<Rightarrow>
              let (w, f) = acl_write f afd acl in
              if \<not> w then Some (ERRNO ENOSPC, s\<lparr>fs := f\<rparr>)
              else let (e, f) = sys_rename f (acl_name @ ''~'') acl_name in
                if e \<noteq> 0 then Some (ERRNO e, s\<lparr>fs := f\<rparr>) else Some (OK, s\<lparr>fs := f\<rparr>) }"

text \<open>
  The test of the access in \<open>set_access\<close> and \<open>delete_access\<close>: a null list is dereferenced, by
  \<open>acl_check\<close> or by what follows.
\<close>

definition locked_acl :: "acl_ptr \<Rightarrow> srv \<Rightarrow> (bool \<times> acl) option" where
  "locked_acl p s =
     (case p of
        Acl l \<Rightarrow> do { ok \<leftarrow> (if has_privs s then Some True else acl_check l (rpc_caller s) ''c'');
                      Some (ok, l) }
      | _ \<Rightarrow> None)"

definition set_access :: "string \<Rightarrow> acl_ptr \<Rightarrow> string \<Rightarrow> string \<Rightarrow> string \<Rightarrow> srv \<Rightarrow> (code \<times> srv) option" where
  "set_access buf junk mtg_name princ_name ms s =
     (let (bad, n_modes) = acl_canon ms ''acdorsw'' in
      if bad then Some (BAD_MODES, s)
      else do { (c, acl_name, p) \<leftarrow> locked_open_mtg junk mtg_name s;
                if c \<noteq> OK then Some (c, s)
                else do { (ok, l) \<leftarrow> locked_acl p s;
                          if \<not> ok then do { s \<leftarrow> locked_abort p s; Some (NO_ACCESS, s) }
                          else locked_close_mtg acl_name (acl_replace_access buf l princ_name n_modes) s } })"

definition delete_access :: "acl_ptr \<Rightarrow> string \<Rightarrow> string \<Rightarrow> srv \<Rightarrow> (code \<times> srv) option" where
  "delete_access junk mtg_name princ_name s =
     do { (c, acl_name, p) \<leftarrow> locked_open_mtg junk mtg_name s;
          if c \<noteq> OK then Some (c, s)
          else do { (ok, l) \<leftarrow> locked_acl p s;
                    if \<not> ok then do { s \<leftarrow> locked_abort p s; Some (NO_ACCESS, s) }
                    else let (found, l') = acl_delete_access l princ_name in
                      if \<not> found then do { s \<leftarrow> locked_abort p s; Some (NO_PRINC, s) }
                      else locked_close_mtg acl_name l' s } }"

subsection \<open>Editing as one operation\<close>

text \<open>
  Both calls are the same protocol around a change of the list, which may give up with a code.
\<close>

definition locked_edit :: "acl_ptr \<Rightarrow> string \<Rightarrow> (acl \<Rightarrow> code + acl) \<Rightarrow> srv \<Rightarrow> (code \<times> srv) option" where
  "locked_edit junk mtg_name change s =
     do { (c, acl_name, p) \<leftarrow> locked_open_mtg junk mtg_name s;
          if c \<noteq> OK then Some (c, s)
          else do { (ok, l) \<leftarrow> locked_acl p s;
                    if \<not> ok then Some (NO_ACCESS, s)
                    else case change l of Inl e \<Rightarrow> Some (e, s) | Inr l' \<Rightarrow> locked_close_mtg acl_name l' s } }"

definition deletion :: "string \<Rightarrow> acl \<Rightarrow> code + acl" where
  "deletion princ l = (let (found, l') = acl_delete_access l princ in if found then Inr l' else Inl NO_PRINC)"

lemma locked_acl_abort: "locked_acl p s = Some (ok, l) \<Longrightarrow> locked_abort p s = Some s"
  by (cases p) (auto simp: locked_acl_def locked_abort_def acl_destroy_def)

lemma set_access_edit:
  "set_access buf junk mtg princ ms s =
     (if fst (acl_canon ms ''acdorsw'') then Some (BAD_MODES, s)
      else locked_edit junk mtg
             (\<lambda>l. Inr (acl_replace_access buf l princ (snd (acl_canon ms ''acdorsw'')))) s)"
  by (auto simp: set_access_def locked_edit_def locked_acl_abort split: prod.splits Option.bind_splits)

lemma delete_access_edit: "delete_access junk mtg princ s = locked_edit junk mtg (deletion princ) s"
  by (auto simp: delete_access_def locked_edit_def deletion_def locked_acl_abort Let_def
      split: prod.splits Option.bind_splits)

subsection \<open>The file is replaced as a whole or not at all\<close>

definition contents :: "fsys \<Rightarrow> string \<Rightarrow> bytes option" where
  "contents f path = map_option (fdata f) (map_of (links f) path)"

text \<open>Inodes in use are numbered below \<open>next_ino\<close>, and \<open>path\<close> is the only name of its inode.\<close>

definition sole_link :: "fsys \<Rightarrow> string \<Rightarrow> bool" where
  "sole_link f path \<longleftrightarrow>
     (\<forall>q d. map_of (links f) q = Some d \<longrightarrow> d < next_ino f \<and> (map_of (links f) path = Some d \<longrightarrow> q = path))"

lemma open_trunc_contents:
  assumes "sys_open_trunc f path = Inr (d, f1)" and "sole_link f path"
  shows "map_of (links f1) path = Some d" and "fdata f1 d = []"
    and "q \<noteq> path \<Longrightarrow> map_of (links f1) q = map_of (links f) q \<and> map_of (links f) q \<noteq> Some d"
    and "d' \<noteq> d \<Longrightarrow> fdata f1 d' = fdata f d'"
proof -
  have "map_of (links f1) path = Some d \<and> fdata f1 d = [] \<and>
      (q \<noteq> path \<longrightarrow> map_of (links f1) q = map_of (links f) q \<and> map_of (links f) q \<noteq> Some d) \<and>
      (d' \<noteq> d \<longrightarrow> fdata f1 d' = fdata f d')"
  proof (cases "map_of (links f) path")
    case None
    with assms(1) have "d = next_ino f" and "links f1 = (path, next_ino f) # links f"
      and "inodes f1 = (inodes f)(next_ino f := \<lparr>i_data = [], i_uid = euid f, i_mtime = now f, i_errno = 0\<rparr>)"
      by (simp_all add: sys_open_trunc_def sys_create_def split: if_splits) auto
    with assms(2) show ?thesis by (auto simp: sole_link_def)
  next
    case (Some e)
    with assms(1) have "d = e" and f1: "f1 = set_data f e []"
      by (auto simp add: sys_open_trunc_def sys_open_def split: if_splits)
    have "q \<noteq> path \<Longrightarrow> map_of (links f) q \<noteq> Some d"
      using assms(2) Some \<open>d = e\<close> unfolding sole_link_def by metis
    moreover have "map_of (links f1) path = Some d" using Some \<open>d = e\<close> by (simp add: f1)
    moreover have "fdata f1 d = []" using \<open>d = e\<close> by (simp add: f1)
    moreover have "links f1 = links f" by (simp add: f1)
    moreover have "d' \<noteq> d \<Longrightarrow> fdata f1 d' = fdata f d'" using \<open>d = e\<close> by (simp add: f1)
    ultimately show ?thesis by (intro conjI impI) simp_all
  qed
  then show "map_of (links f1) path = Some d" and "fdata f1 d = []"
    and "q \<noteq> path \<Longrightarrow> map_of (links f1) q = map_of (links f) q \<and> map_of (links f) q \<noteq> Some d"
    and "d' \<noteq> d \<Longrightarrow> fdata f1 d' = fdata f d'" by (iprover, iprover, iprover, iprover)
qed

lemma map_of_filter_key: "map_of (filter (\<lambda>e. P (fst e)) l) q = (if P q then map_of l q else None)"
  by (induction l) auto

lemma rename_contents:
  assumes "sys_rename f old new = (e, f1)" and "old \<noteq> new"
  shows "e = 0 \<Longrightarrow> contents f1 new = contents f old"
    and "q \<noteq> new \<Longrightarrow> q \<noteq> old \<Longrightarrow> contents f1 q = contents f q"
    and "e \<noteq> 0 \<Longrightarrow> f1 = f"
  using assms map_of_filter_key [of "\<lambda>k. k \<noteq> new \<and> k \<noteq> old" "links f" q]
  by (auto simp: sys_rename_def contents_def ENOENT_def split: option.splits)

lemma acl_write_contents:
  assumes "acl_write f d l = (w, f1)"
  shows "links f1 = links f" and "d' \<noteq> d \<Longrightarrow> fdata f1 d' = fdata f d'"
    and "w \<Longrightarrow> fdata f d = [] \<Longrightarrow> fdata f1 d = acl_text l"
proof -
  obtain r where r: "sys_write f d 0 (acl_text l) = (r, f1)" "w = (r \<ge> 0)"
    using assms by (auto simp: acl_write_def split: prod.splits)
  show "links f1 = links f" by (rule sys_write_frame [OF r(1)])
  show "d' \<noteq> d \<Longrightarrow> fdata f1 d' = fdata f d'" using sys_write_data [OF r(1), of d'] by simp
  show "w \<Longrightarrow> fdata f d = [] \<Longrightarrow> fdata f1 d = acl_text l"
    using sys_write_data [OF r(1), of d] overwrite_end [of "[]"] r(2) by simp
qed

lemma locked_close_commits:
  assumes "locked_close_mtg name l s = Some (c, s')" and sole: "sole_link (fs s) (name @ ''~'')"
  shows "s' = s\<lparr>fs := fs s'\<rparr>"
    and "c = OK \<Longrightarrow> contents (fs s') name = Some (acl_text l) \<and>
      (has_privs s \<or> acl_check l (rpc_caller s) ''c'' = Some True)"
    and "q \<noteq> name @ ''~'' \<Longrightarrow> c \<noteq> OK \<or> q \<noteq> name \<Longrightarrow> contents (fs s') q = contents (fs s) q"
proof -
  define tmp where "tmp = name @ ''~''"
  have [simp]: "name \<noteq> tmp" "tmp \<noteq> name" by (simp_all add: tmp_def)
  have "s' = s\<lparr>fs := fs s'\<rparr> \<and>
    (c = OK \<longrightarrow> contents (fs s') name = Some (acl_text l) \<and>
      (has_privs s \<or> acl_check l (rpc_caller s) ''c'' = Some True)) \<and>
    (q \<noteq> tmp \<longrightarrow> c \<noteq> OK \<or> q \<noteq> name \<longrightarrow> contents (fs s') q = contents (fs s) q)"
  proof (cases "sys_open_trunc (fs s) tmp")
    case (Inl e)
    with assms(1) show ?thesis
      by (auto simp: locked_close_mtg_def tmp_def split: if_splits Option.bind_splits)
  next
    case (Inr p)
    obtain d f1 where p: "p = (d, f1)" by fastforce
    obtain w f2 where w: "acl_write f1 d l = (w, f2)" by fastforce
    obtain e f3 where r: "sys_rename f2 tmp name = (e, f3)" by fastforce
    note ot = open_trunc_contents [OF Inr [unfolded p] sole [folded tmp_def]]
    note aw = acl_write_contents [OF w]
    have same: "contents f2 q = contents (fs s) q" if "q \<noteq> tmp"
      using ot(3) [OF that] ot(4) aw(1,2) by (auto simp: contents_def map_option_case split: option.splits)
    have tmp: "contents f2 tmp = Some (acl_text l)" if "w"
      using ot(1,2) aw(1) aw(3) [OF that] by (simp add: contents_def)
    have "e = 0" using r ot(1) aw(1) by (auto simp: sys_rename_def split: option.splits)
    with r rename_contents(1,2) [OF r] have ren: "contents f3 name = contents f2 tmp"
      "q \<noteq> name \<Longrightarrow> q \<noteq> tmp \<Longrightarrow> contents f3 q = contents f2 q" by simp_all
    from assms(1) show ?thesis
      using same tmp ren
      by (auto simp: locked_close_mtg_def Inr [unfolded p] tmp_def [symmetric] w r \<open>e = 0\<close>
          split: if_splits Option.bind_splits)
  qed
  then show "s' = s\<lparr>fs := fs s'\<rparr>"
    and "c = OK \<Longrightarrow> contents (fs s') name = Some (acl_text l) \<and>
      (has_privs s \<or> acl_check l (rpc_caller s) ''c'' = Some True)"
    and "q \<noteq> name @ ''~'' \<Longrightarrow> c \<noteq> OK \<or> q \<noteq> name \<Longrightarrow> contents (fs s') q = contents (fs s) q"
    by (auto simp: tmp_def)
qed

text \<open>The list that a meeting has, and the right to change it.\<close>

definition acl_of :: "srv \<Rightarrow> string \<Rightarrow> acl option" where
  "acl_of s mtg = (case sys_open (fs s) (mtg @ ''/acl'') of Inl _ \<Rightarrow> None | Inr d \<Rightarrow> acl_read (fdata (fs s) d))"

definition may_control :: "srv \<Rightarrow> acl \<Rightarrow> bool" where
  "may_control s l \<longleftrightarrow> has_privs s \<or> acl_check l (rpc_caller s) ''c'' = Some True"

lemma locked_punt_code: "locked_punt r p = Some (c, n, q) \<Longrightarrow> c = r"
  by (auto simp: locked_punt_def split: Option.bind_splits)

lemma locked_open_mtg_ok:
  assumes "locked_open_mtg junk mtg s = Some (OK, name, p)"
  shows "name = mtg @ ''/acl'' \<and> p = (case acl_of s mtg of None \<Rightarrow> NoAcl | Some l \<Rightarrow> Acl l)"
  using assms
  by (auto simp: locked_open_mtg_def acl_of_def open_error_def dest: locked_punt_code
      split: if_splits sum.splits)

lemma locked_acl_may: "locked_acl p s = Some (ok, l) \<Longrightarrow> p = Acl l \<and> (ok \<longleftrightarrow> may_control s l)"
  by (cases p) (auto simp: locked_acl_def may_control_def split: if_splits Option.bind_splits)

lemma locked_edit_commits:
  assumes edit: "locked_edit junk mtg change s = Some (c, s')"
    and sole: "sole_link (fs s) (mtg @ ''/acl~'')" and change: "\<And>l. change l \<noteq> Inl OK"
  shows "s' = s\<lparr>fs := fs s'\<rparr>"
    and "c = OK \<Longrightarrow> \<exists>l l'. acl_of s mtg = Some l \<and> change l = Inr l' \<and> may_control s l \<and> may_control s l' \<and>
      contents (fs s') (mtg @ ''/acl'') = Some (acl_text l')"
    and "q \<noteq> mtg @ ''/acl~'' \<Longrightarrow> c \<noteq> OK \<or> q \<noteq> mtg @ ''/acl'' \<Longrightarrow> contents (fs s') q = contents (fs s) q"
proof -
  consider "s' = s" "c \<noteq> OK"
    | l l' where "acl_of s mtg = Some l" "change l = Inr l'" "may_control s l"
        "locked_close_mtg (mtg @ ''/acl'') l' s = Some (c, s')"
  proof -
    obtain c1 name p where o: "locked_open_mtg junk mtg s = Some (c1, name, p)"
      using edit by (auto simp: locked_edit_def split: Option.bind_splits)
    show thesis
    proof (cases "c1 = OK")
      case False
      with o edit that(1) show thesis by (auto simp: locked_edit_def)
    next
      case True
      note n = locked_open_mtg_ok [OF o [unfolded True]]
      with o True edit obtain ok l where a: "locked_acl p s = Some (ok, l)"
        by (auto simp: locked_edit_def split: Option.bind_splits)
      show thesis
      proof (cases "ok")
        case False
        with o True a edit that(1) show thesis by (auto simp: locked_edit_def)
      next
        case ok: True
        with locked_acl_may [OF a] n have "acl_of s mtg = Some l" "may_control s l"
          by (auto split: option.splits)
        with o True a ok n edit that change [of l] show thesis
          by (cases "change l") (auto simp: locked_edit_def)
      qed
    qed
  qed
  then have "s' = s\<lparr>fs := fs s'\<rparr> \<and>
    (c = OK \<longrightarrow> (\<exists>l l'. acl_of s mtg = Some l \<and> change l = Inr l' \<and> may_control s l \<and> may_control s l' \<and>
      contents (fs s') (mtg @ ''/acl'') = Some (acl_text l'))) \<and>
    (q \<noteq> mtg @ ''/acl~'' \<longrightarrow> c \<noteq> OK \<or> q \<noteq> mtg @ ''/acl'' \<longrightarrow> contents (fs s') q = contents (fs s) q)"
  proof cases
    case (2 l l')
    with locked_close_commits(1,2) [OF 2(4)] locked_close_commits(3) [OF 2(4), of q] sole show ?thesis by (simp add: may_control_def)
  qed simp
  then show "s' = s\<lparr>fs := fs s'\<rparr>"
    and "c = OK \<Longrightarrow> \<exists>l l'. acl_of s mtg = Some l \<and> change l = Inr l' \<and> may_control s l \<and> may_control s l' \<and>
      contents (fs s') (mtg @ ''/acl'') = Some (acl_text l')"
    and "q \<noteq> mtg @ ''/acl~'' \<Longrightarrow> c \<noteq> OK \<or> q \<noteq> mtg @ ''/acl'' \<Longrightarrow> contents (fs s') q = contents (fs s) q"
    by blast+
qed

subsection \<open>A successful edit\<close>

text \<open>The meeting can be opened for an edit.\<close>

definition edit_ready :: "srv \<Rightarrow> string \<Rightarrow> acl \<Rightarrow> bool" where
  "edit_ready s mtg l \<longleftrightarrow>
     \<not> unusable_name mtg 9 \<and> (\<exists>d. sys_open (fs s) (mtg @ ''/control'') = Inr d) \<and>
     (\<exists>d. sys_open (fs s) (mtg @ ''/acl'') = Inr d \<and> fis_owner (fs s) d (euid (fs s)) \<and>
          acl_read (fdata (fs s) d) = Some l) \<and>
     (\<exists>p. sys_open_trunc (fs s) (mtg @ ''/acl~'') = Inr p) \<and>
     sole_link (fs s) (mtg @ ''/acl~'')"

lemma open_trunc_usable:
  "sys_open_trunc f path = Inr (d, f1) \<Longrightarrow>
   i_errno (inodes f1 d) = 0 \<and> faults f1 = faults f \<and> map_of (links f1) path = Some d"
  by (auto simp: sys_open_trunc_def sys_create_def sys_open_def split: if_splits option.splits)

lemma locked_close_ok:
  assumes "may_control s l" and "sys_open_trunc (fs s) (name @ ''~'') = Inr (d, f1)"
    and "sole_link (fs s) (name @ ''~'')" and "faults (fs s) = []"
  shows "\<exists>f'. locked_close_mtg name l s = Some (OK, s\<lparr>fs := f'\<rparr>) \<and>
    (\<exists>d'. sys_open f' name = Inr d' \<and> fdata f' d' = acl_text l)"
proof -
  note u = open_trunc_usable [OF assms(2)]
  from assms(4) u have "faults f1 = []" by simp
  moreover have "fdata f1 d = []" using open_trunc_contents(2) [OF assms(2,3)] .
  ultimately have w: "acl_write f1 d l = (True, set_data f1 d (acl_text l))"
    using overwrite_end [of "[]" "acl_text l"] by (simp add: acl_write_def sys_write_ok)
  define f2 where "f2 = set_data f1 d (acl_text l)"
  define f3 where "f3 = f2\<lparr>links := (name, d) # filter (\<lambda>e. fst e \<noteq> name \<and> fst e \<noteq> name @ ''~'') (links f2)\<rparr>"
  have "map_of (links f2) (name @ ''~'') = Some d" using u by (simp add: f2_def)
  then have "sys_rename f2 (name @ ''~'') name = (0, f3)" by (simp add: sys_rename_def f3_def)
  with assms(1,2) w have "locked_close_mtg name l s = Some (OK, s\<lparr>fs := f3\<rparr>)"
    by (auto simp: locked_close_mtg_def may_control_def f2_def)
  moreover have "sys_open f3 name = Inr d" "fdata f3 d = acl_text l"
    using u by (simp_all add: f3_def f2_def sys_open_def)
  ultimately show ?thesis by blast
qed

lemma locked_edit_close:
  assumes ready: "edit_ready s mtg l" and "may_control s l" and "change l = Inr l'"
  shows "locked_edit junk mtg change s = locked_close_mtg (mtg @ ''/acl'') l' s"
proof -
  from ready obtain lk d where "sys_open (fs s) (mtg @ ''/control'') = Inr lk"
    "sys_open (fs s) (mtg @ ''/acl'') = Inr d" "fis_owner (fs s) d (euid (fs s))"
    "acl_read (fdata (fs s) d) = Some l" by (auto simp: edit_ready_def)
  with ready have "locked_open_mtg junk mtg s = Some (OK, mtg @ ''/acl'', Acl l)"
    by (simp add: locked_open_mtg_def edit_ready_def)
  moreover have "locked_acl (Acl l) s = Some (True, l)"
    using assms(2) by (auto simp: locked_acl_def may_control_def)
  ultimately show ?thesis using assms(3) by (simp add: locked_edit_def)
qed

lemma locked_edit_ok:
  assumes ready: "edit_ready s mtg l" and "may_control s l" and "change l = Inr l'" and "may_control s l'"
    and "faults (fs s) = []"
  shows "\<exists>s'. locked_edit junk mtg change s = Some (OK, s') \<and> s' = s\<lparr>fs := fs s'\<rparr> \<and>
    (\<exists>d. sys_open (fs s') (mtg @ ''/acl'') = Inr d \<and> fdata (fs s') d = acl_text l')"
proof -
  obtain dt f1 where "sys_open_trunc (fs s) ((mtg @ ''/acl'') @ ''~'') = Inr (dt, f1)"
    using ready by (auto simp: edit_ready_def)
  then obtain f' where "locked_close_mtg (mtg @ ''/acl'') l' s = Some (OK, s\<lparr>fs := f'\<rparr>)"
    "\<exists>d. sys_open f' (mtg @ ''/acl'') = Inr d \<and> fdata f' d = acl_text l'"
    using locked_close_ok [OF assms(4), of "mtg @ ''/acl''"] ready assms(5) by (fastforce simp: edit_ready_def)
  then show ?thesis by (simp add: locked_edit_close [where change = change, OF assms(1-3)])
qed

text \<open>Entries of a list that a file can hold, and how the edits keep them.\<close>

definition entry_fits :: "acl_entry \<Rightarrow> bool" where
  "entry_fits ae \<longleftrightarrow> entry_ok ae \<and> length (principal ae) \<le> 100"

lemma acl_read_fits:
  assumes "\<forall>ae \<in> set l. entry_fits ae" and "length l < 10 ^ 100"
  shows "acl_read (acl_text l) = Some l"
proof -
  have "map (\<lambda>ae. ae\<lparr>principal := take 100 (principal ae)\<rparr>) l = l"
    using assms(1) by (intro map_idI) (simp add: entry_fits_def)
  with acl_read_text [of l] assms show ?thesis by (simp add: entry_fits_def)
qed

lemma acl_update_entries:
  "acl_update p f l = Some l' \<Longrightarrow> (\<And>m. f m = n) \<Longrightarrow>
   length l' = length l \<and> (\<forall>ae \<in> set l'. ae \<in> set l \<or> ae = \<lparr>principal = p, modes = n\<rparr>)"
  by (induction p f l arbitrary: l' rule: acl_update.induct) (fastforce split: if_splits)+

lemma acl_replace_entries:
  "length (acl_replace_access buf l p n) \<le> Suc (length l) \<and>
   (\<forall>ae \<in> set (acl_replace_access buf l p n). ae \<in> set l \<or> ae = \<lparr>principal = p, modes = n\<rparr>)"
proof (cases "acl_update p (\<lambda>_. n) l")
  case None
  then have "acl_update p (\<lambda>old. acl_union buf n old) l = None" by (simp add: acl_update_None)
  with None show ?thesis
    by (auto simp: acl_replace_access_def acl_add_access_def acl_insert_def dest: in_set_butlastD)
next
  case (Some l')
  with acl_update_entries [OF Some, of n] show ?thesis by (auto simp: acl_replace_access_def)
qed

lemma acl_delete_entries: "acl_delete_access l p = (r, l') \<Longrightarrow> length l' \<le> length l \<and> set l' \<subseteq> set l"
  by (induction l p arbitrary: r l' rule: acl_delete_access.induct) (fastforce split: if_splits prod.splits)+

lemma get_access_own:
  assumes "\<not> unusable_name mtg 5" and "sys_open (fs s) (mtg @ ''/acl'') = Inr d"
    and "acl_read (fdata (fs s) d) = Some l" and "\<forall>ae \<in> set l. entry_fits ae"
  shows "get_access mtg (rpc_caller s) s = Some (OK, Some (acl_get_access l (rpc_caller s)))"
proof -
  have "\<forall>ae \<in> set l. c_ok (modes ae)" using assms(4) by (simp add: entry_fits_def entry_ok_def)
  then have "c_ok (acl_get_access l q)" for q by (induction l) (auto simp: c_ok_def)
  with assms show ?thesis
    by (simp add: get_access_def read_acl_def new_string_def cstr_id)
qed

text \<open>
  C23. A remote edit of an access list is atomic and safe, whichever disk writes fail: when
  \<open>set_access\<close> does not return \<open>OK\<close> the meeting's \<open>acl\<close> is untouched; when it does, the caller
  had control of the meeting, the file is the complete text of the list with the principal's
  modes replaced, and the caller still has control.  No other file changes but \<open>acl~\<close>, provided
  that \<open>acl~\<close> is not another name of some file's inode (the lock protocol of the source assumes
  this silently).
\<close>

theorem set_access_atomic:
  assumes "set_access buf junk mtg p ms s = Some (c, s')"
    and "sole_link (fs s) (mtg @ ''/acl~'')"
  shows "(if c = OK
     then \<exists>l l'. acl_of s mtg = Some l \<and> may_control s l \<and>
            l' = acl_replace_access buf l p (snd (acl_canon ms ''acdorsw'')) \<and> may_control s l' \<and>
            contents (fs s') (mtg @ ''/acl'') = Some (acl_text l')
     else contents (fs s') (mtg @ ''/acl'') = contents (fs s) (mtg @ ''/acl'')) \<and>
    (\<forall>q. q \<noteq> mtg @ ''/acl'' \<and> q \<noteq> mtg @ ''/acl~'' \<longrightarrow> contents (fs s') q = contents (fs s) q)"
proof (cases "fst (acl_canon ms ''acdorsw'')")
  case True
  with assms show ?thesis by (auto simp: set_access_edit)
next
  case False
  with assms(1) have e: "locked_edit junk mtg
      (\<lambda>l. Inr (acl_replace_access buf l p (snd (acl_canon ms ''acdorsw'')))) s = Some (c, s')"
    by (simp add: set_access_edit)
  show ?thesis
    using locked_edit_commits(2) [OF e assms(2)] locked_edit_commits(3) [OF e assms(2)] by auto
qed

text \<open>
  The same for \<open>delete_access\<close>, whose list without the principal is the one from
  \<open>acl_delete_access\<close>.
\<close>

theorem delete_access_atomic:
  assumes "delete_access junk mtg p s = Some (c, s')"
    and "sole_link (fs s) (mtg @ ''/acl~'')"
  shows "(if c = OK
     then \<exists>l l'. acl_of s mtg = Some l \<and> may_control s l \<and> acl_delete_access l p = (True, l') \<and>
            may_control s l' \<and> contents (fs s') (mtg @ ''/acl'') = Some (acl_text l')
     else contents (fs s') (mtg @ ''/acl'') = contents (fs s) (mtg @ ''/acl'')) \<and>
    (\<forall>q. q \<noteq> mtg @ ''/acl'' \<and> q \<noteq> mtg @ ''/acl~'' \<longrightarrow> contents (fs s') q = contents (fs s) q)"
proof -
  have e: "locked_edit junk mtg (deletion p) s = Some (c, s')"
    using assms(1) by (simp add: delete_access_edit)
  have d: "deletion p l \<noteq> Inl OK" for l by (simp add: deletion_def split: prod.split)
  have "deletion p l = Inr l' \<Longrightarrow> acl_delete_access l p = (True, l')" for l l'
    by (auto simp: deletion_def split: prod.splits if_splits)
  then show ?thesis
    using locked_edit_commits(2) [OF e assms(2) d] locked_edit_commits(3) [OF e assms(2) d] by auto
qed

definition canon_modes :: "string \<Rightarrow> string" where
  "canon_modes ms = map (\<lambda>c. if c \<in> set ms then c else CHR '' '') ''acdorsw''"

lemma acl_canon_modes:
  "snd (acl_canon ms ''acdorsw'') = canon_modes ms"
  "set ms \<subseteq> set '' acdorsw'' \<Longrightarrow> \<not> fst (acl_canon ms ''acdorsw'')"
  by (auto simp: acl_canon_def canon_modes_def list_ex_iff)

lemma canon_modes_fits:
  assumes "c_ok p" and "NL \<notin> set p" and "length p \<le> 100"
  shows "entry_fits \<lparr>principal = p, modes = canon_modes ms\<rparr>"
  using assms by (auto simp: entry_fits_def entry_ok_def canon_modes_def c_ok_def)

text \<open>After an edit that the conditions allow, every principal who asks for himself is told so.\<close>

lemma locked_edit_seen:
  assumes ready: "edit_ready s mtg l" and "may_control s l" and "change l = Inr l'" and "may_control s l'"
    and "faults (fs s) = []" and "\<forall>ae \<in> set l'. entry_fits ae" and "length l' < 10 ^ 100"
  shows "\<exists>s'. locked_edit junk mtg change s = Some (OK, s') \<and>
    (\<forall>q. get_access mtg q (s'\<lparr>rpc_caller := q\<rparr>) = Some (OK, Some (acl_get_access l' q)))"
proof -
  obtain s' d where s': "locked_edit junk mtg change s = Some (OK, s')"
    "sys_open (fs s') (mtg @ ''/acl'') = Inr d" "fdata (fs s') d = acl_text l'"
    using locked_edit_ok [where change = change, OF assms(1-5)] by blast
  have "\<not> unusable_name mtg 5" using ready by (auto simp: edit_ready_def unusable_name_def)
  then have "get_access mtg q (s'\<lparr>rpc_caller := q\<rparr>) = Some (OK, Some (acl_get_access l' q))" for q
    using get_access_own [of mtg "s'\<lparr>rpc_caller := q\<rparr>" d l'] s' acl_read_fits [OF assms(6,7)] assms(6)
    by simp
  with s'(1) show ?thesis by blast
qed

text \<open>
  C30. Setting access works and is seen: if the caller controls the meeting and does not take
  his own control away, \<open>set_access\<close> succeeds, and afterwards \<open>get_access\<close> tells every principal
  what he has: the one named the new modes in canonical form, everybody else what he had.
\<close>

theorem set_access_seen:
  assumes ready: "edit_ready s mtg l" and may: "may_control s l" and disk: "faults (fs s) = []" and wf: "acl_wf l"
    and l: "\<forall>ae \<in> set l. entry_fits ae" "length l < 1000"
    and p: "p \<noteq> STAR" "c_ok p" "NL \<notin> set p" "length p \<le> 100"
    and ms: "set ms \<subseteq> set '' acdorsw''" and keep: "has_privs s \<or> p \<noteq> rpc_caller s \<or> CHR ''c'' \<in> set ms"
  shows "\<exists>s'. set_access buf junk mtg p ms s = Some (OK, s') \<and>
    (\<forall>q. get_access mtg q (s'\<lparr>rpc_caller := q\<rparr>) =
       Some (OK, Some (if q = p then canon_modes ms else acl_get_access l q)))"
proof -
  define l' where "l' = acl_replace_access buf l p (canon_modes ms)"
  have look: "acl_get_access l' q = (if q = p then canon_modes ms else acl_get_access l q)" for q
    using acl.replace_lookup [OF wf p(1)] by (simp add: l'_def)
  have "may_control s l'"
    using may keep by (auto simp: may_control_def acl_check_get_access acl_is_subset_set look canon_modes_def)
  moreover have "\<forall>ae \<in> set l'. entry_fits ae"
    using acl_replace_entries [of buf l p "canon_modes ms"] l(1) canon_modes_fits [OF p(2-4)]
    by (auto simp: l'_def)
  moreover have "length l' < 10 ^ 100"
  proof -
    have "length l' \<le> 1000"
      using acl_replace_entries [of buf l p "canon_modes ms"] l(2) by (simp add: l'_def)
    also have "(1000 :: nat) < 10 ^ 100" by simp
    finally show ?thesis .
  qed
  ultimately have "\<exists>s'. locked_edit junk mtg (\<lambda>l. Inr (acl_replace_access buf l p (canon_modes ms))) s = Some (OK, s') \<and>
      (\<forall>q. get_access mtg q (s'\<lparr>rpc_caller := q\<rparr>) = Some (OK, Some (acl_get_access l' q)))"
    by (intro locked_edit_seen [OF ready may]) (simp_all add: disk l'_def)
  from this [unfolded look] show ?thesis using acl_canon_modes [of ms] ms by (simp add: set_access_edit)
qed

text \<open>
  Deleting works and is seen: a listed principal who is deleted is left with what \<open>*\<close> has,
  everybody else keeps his modes; deleting somebody who is not listed gives \<open>NO_PRINC\<close> and
  changes nothing.
\<close>

theorem delete_access_seen:
  assumes ready: "edit_ready s mtg l" and may: "may_control s l" and disk: "faults (fs s) = []" and wf: "acl_wf l"
    and l: "\<forall>ae \<in> set l. entry_fits ae" "length l < 1000" and p: "p \<noteq> STAR"
    and keep: "has_privs s \<or> p \<noteq> rpc_caller s \<or> CHR ''c'' \<in> set (default_modes l)"
  shows "if acl_map l p = None then delete_access junk mtg p s = Some (NO_PRINC, s)
    else \<exists>s'. delete_access junk mtg p s = Some (OK, s') \<and>
      (\<forall>q. get_access mtg q (s'\<lparr>rpc_caller := q\<rparr>) =
         Some (OK, Some (if q = p then default_modes l else acl_get_access l q)))"
proof -
  obtain r l' where d: "acl_delete_access l p = (r, l')" by fastforce
  have r: "r \<longleftrightarrow> acl_map l p \<noteq> None" using acl.delete_result [OF wf, of p] d by simp
  have look: "acl_get_access l' q = (if q = p then default_modes l else acl_get_access l q)" for q
    using acl.delete_lookup [OF wf p, of q] d by simp
  show ?thesis
  proof (cases "r")
    case False
    from ready obtain lk d' where "locked_open_mtg junk mtg s = Some (OK, mtg @ ''/acl'', Acl l)"
      by (auto simp: edit_ready_def locked_open_mtg_def)
    moreover have "locked_acl (Acl l) s = Some (True, l)"
      using may by (auto simp: locked_acl_def may_control_def)
    ultimately show ?thesis
      using False r d by (simp add: delete_access_edit locked_edit_def deletion_def)
  next
    case True
    have "may_control s l'"
      using may keep by (auto simp: may_control_def acl_check_get_access acl_is_subset_set look)
    moreover have "\<forall>ae \<in> set l'. entry_fits ae" "length l' < 1000"
      using acl_delete_entries [OF d] l by auto
    moreover have "(1000 :: nat) < 10 ^ 100" by simp
    ultimately have "\<exists>s'. locked_edit junk mtg (deletion p) s = Some (OK, s') \<and>
        (\<forall>q. get_access mtg q (s'\<lparr>rpc_caller := q\<rparr>) = Some (OK, Some (acl_get_access l' q)))"
      using True d by (intro locked_edit_seen [OF ready may]) (simp_all add: disk deletion_def)
    moreover have "(acl_map l p = None) = False" using True r by simp
    ultimately show ?thesis by (simp only: look delete_access_edit if_False)
  qed
qed

subsection \<open>A small meeting\<close>

definition acl_fs :: fsys where
  "acl_fs = \<lparr>dirs = [''/m''], links = [(''/m/control'', 1), (''/m/acl'', 2)],
     inodes = (\<lambda>d. \<lparr>i_data = (if d = 2 then acl_text demo_acl else []), i_uid = 7, i_mtime = 0, i_errno = 0\<rparr>),
     next_ino = 3, faults = [], now = 50, euid = 7\<rparr>"

definition acl_srv :: srv where
  "acl_srv = \<lparr>fs = acl_fs, us = new_stream [], tf = None, current_mtg = [], u_trn_f = 0, u_control_f = 0,
     u_acl_f = 0, nuclear = False, a_control_f = aopen acl_fs 1, abort_file = False, read_lock = False,
     mtg_swapped = False, mtg_acl = NoAcl, last_acl_mod = 0, super = dec_super [], super_chairman = None,
     super_long_name = None, has_privs = False, no_nuke = False, rpc_caller = ''srz''\<rparr>"

lemma demo_acl_fits: "\<forall>ae \<in> set demo_acl. entry_fits ae" "acl_wf demo_acl"
  by (simp_all add: demo_acl_def entry_fits_def entry_ok_def c_ok_def acl_wf_def)

lemma acl_srv_disk: "faults (fs acl_srv) = []"
  by (simp add: acl_srv_def acl_fs_def)

lemma acl_srv_ready: "edit_ready acl_srv ''/m'' demo_acl" "may_control acl_srv demo_acl"
proof -
  have "acl_read (acl_text demo_acl) = Some demo_acl"
    by (rule acl_read_fits [OF demo_acl_fits(1)]) (simp add: demo_acl_def)
  then show "edit_ready acl_srv ''/m'' demo_acl"
    by (simp add: edit_ready_def acl_srv_def acl_fs_def unusable_name_def MAXPATHLEN_def sys_open_def
        sys_open_trunc_def sys_create_def dir_exists_def dir_of_def fis_owner_def sole_link_def)
  show "may_control acl_srv demo_acl"
    by (simp add: may_control_def acl_srv_def demo_acl_def acl_is_subset_set)
qed

theorem set_access_seen_witness:
  "\<exists>s'. set_access [] NoAcl ''/m'' ''wes'' ''wr'' acl_srv = Some (OK, s') \<and>
     get_access ''/m'' ''wes'' (s'\<lparr>rpc_caller := ''wes''\<rparr>) = Some (OK, Some ''    r w'') \<and>
     get_access ''/m'' ''bob'' (s'\<lparr>rpc_caller := ''bob''\<rparr>) = Some (OK, Some ''rs'')"
proof -
  obtain s' where s': "set_access [] NoAcl ''/m'' ''wes'' ''wr'' acl_srv = Some (OK, s')"
    "\<forall>q. get_access ''/m'' q (s'\<lparr>rpc_caller := q\<rparr>) =
       Some (OK, Some (if q = ''wes'' then canon_modes ''wr'' else acl_get_access demo_acl q))"
    using set_access_seen [OF acl_srv_ready acl_srv_disk demo_acl_fits(2,1), of "''wes''" "''wr''" "[]" NoAcl]
    by (auto simp: demo_acl_def c_ok_def acl_srv_def)
  from s'(2) [rule_format, of "''wes''"] s'(2) [rule_format, of "''bob''"] s'(1) show ?thesis
    by (auto simp: canon_modes_def demo_acl_def)
qed

theorem delete_access_seen_witness:
  "\<exists>s'. delete_access NoAcl ''/m'' ''srz'' (acl_srv\<lparr>has_privs := True\<rparr>) = Some (OK, s') \<and>
     get_access ''/m'' ''srz'' (s'\<lparr>rpc_caller := ''srz''\<rparr>) = Some (OK, Some ''rs'')"
proof -
  have "edit_ready (acl_srv\<lparr>has_privs := True\<rparr>) ''/m'' demo_acl"
    using acl_srv_ready(1) by (simp add: edit_ready_def)
  then obtain s' where s': "delete_access NoAcl ''/m'' ''srz'' (acl_srv\<lparr>has_privs := True\<rparr>) = Some (OK, s')"
    "\<forall>q. get_access ''/m'' q (s'\<lparr>rpc_caller := q\<rparr>) =
       Some (OK, Some (if q = ''srz'' then default_modes demo_acl else acl_get_access demo_acl q))"
    using acl_srv_disk delete_access_seen [of "acl_srv\<lparr>has_privs := True\<rparr>" "''/m''" demo_acl "''srz''" NoAcl] demo_acl_fits
    by (auto simp: demo_acl_def may_control_def)
  from s'(2) [rule_format, of "''srz''"] s'(1) show ?thesis
    by (auto simp: default_modes_def demo_acl_def)
qed

theorem set_access_atomic_witness:
  "\<exists>s'. set_access [] NoAcl ''/m'' ''wes'' ''wr'' (acl_srv\<lparr>fs := acl_fs\<lparr>faults := [True]\<rparr>\<rparr>) = Some (ERRNO ENOSPC, s') \<and>
     contents (fs s') ''/m/acl'' = contents acl_fs ''/m/acl''"
proof -
  define s where "s = acl_srv\<lparr>fs := acl_fs\<lparr>faults := [True]\<rparr>\<rparr>"
  define l where "l = acl_replace_access [] demo_acl ''wes'' (canon_modes ''wr'')"
  have r: "edit_ready s ''/m'' demo_acl" and may: "may_control s demo_acl"
    using acl_srv_ready
    by (simp_all add: s_def edit_ready_def may_control_def acl_srv_def sys_open_def sys_open_trunc_def
        sys_create_def sole_link_def fis_owner_def)
      (simp_all add: acl_fs_def dir_exists_def dir_of_def)
  have "acl_check l ''srz'' ''c'' = Some True"
    by (simp add: l_def demo_acl_def acl_replace_access_def acl_add_access_def acl_insert_def acl_is_subset_set)
  then obtain s' where "locked_close_mtg ''/m/acl'' l s = Some (ERRNO ENOSPC, s')"
    by (simp add: s_def locked_close_mtg_def acl_srv_def acl_fs_def sys_open_trunc_def sys_create_def
        dir_exists_def dir_of_def acl_write_def sys_write_def)
  then have "set_access [] NoAcl ''/m'' ''wes'' ''wr'' s = Some (ERRNO ENOSPC, s')"
    using locked_edit_close [OF r may, of "\<lambda>l. Inr (acl_replace_access [] l ''wes'' (canon_modes ''wr''))"]
      acl_canon_modes [of "''wr''"] by (simp add: set_access_edit l_def)
  moreover have "sole_link (fs s) ''/m/acl~''" using r by (simp add: edit_ready_def)
  ultimately show ?thesis
    using set_access_atomic [of "[]" NoAcl "''/m''" "''wes''" "''wr''" s "ERRNO ENOSPC" s']
    by (auto simp: s_def contents_def)
qed

theorem delete_access_atomic_witness:
  "\<exists>s'. delete_access NoAcl ''/m'' ''srz'' (acl_srv\<lparr>has_privs := True\<rparr>) = Some (OK, s') \<and>
     contents (fs s') ''/m/acl'' = Some (acl_text [\<lparr>principal = STAR, modes = ''rs''\<rparr>])"
proof -
  define s where "s = acl_srv\<lparr>has_privs := True\<rparr>"
  have r: "edit_ready s ''/m'' demo_acl" using acl_srv_ready(1) by (simp add: s_def edit_ready_def)
  have d: "deletion ''srz'' demo_acl = Inr [\<lparr>principal = STAR, modes = ''rs''\<rparr>]"
    by (simp add: deletion_def demo_acl_def)
  have may: "may_control s l" for l by (simp add: may_control_def s_def)
  obtain s' where s': "delete_access NoAcl ''/m'' ''srz'' s = Some (OK, s')"
    using locked_edit_ok [where change = "deletion ''srz''", OF r may d may] acl_srv_disk by (auto simp: delete_access_edit s_def)
  moreover have "acl_of s ''/m'' = Some demo_acl"
    using r by (auto simp: acl_of_def edit_ready_def)
  moreover have "sole_link (fs s) ''/m/acl~''" using r by (simp add: edit_ready_def)
  ultimately show ?thesis
    using delete_access_atomic [of NoAcl "''/m''" "''srz''" s OK s']
    by (auto simp: s_def demo_acl_def)
qed

end
