(* ===== verification/Core.thy ===== *)
theory Core
  imports Coreutil
begin

text \<open>
  The operations of the discuss server, \<^verbatim>\<open>athena/bin/discuss/server/core.c\<close>.  The C functions
  are longer than a definition should be, so the largest are composed of named parts; every part
  covers a contiguous stretch of the function.  The call of \<open>mtg_znotify\<close> (a notice over Zephyr,
  which changes no state of the server) is left out.
\<close>

unbundle bit_operations_syntax

text \<open>\<open>time (0)\<close>\<close>

definition time_now :: "srv \<Rightarrow> int" where
  "time_now s = i32 (now (fs s))"

definition begin_atomic :: "srv \<Rightarrow> srv" where
  "begin_atomic s =
     (if \<not> no_nuke s then s\<lparr>a_control_f := aopen (fs s) (u_control_f s), nuclear := True\<rparr> else s)"

definition end_atomic :: "srv \<Rightarrow> srv" where
  "end_atomic s =
     (if \<not> no_nuke s then s\<lparr>fs := aclose (a_control_f s) (fs s), nuclear := False\<rparr> else s)"

abbreviation deleted :: "chain_blk \<Rightarrow> bool" where
  "deleted c \<equiv> cb_flags c AND CB_DELETED \<noteq> 0"

text \<open>
  The step that repeats in \<open>delete_trn\<close> and \<open>retrieve_trn\<close>: read a block into \<open>spare_cb\<close>, give up
  if that fails, change it and write it back.
\<close>

definition relink :: "srv \<Rightarrow> int \<Rightarrow> (chain_blk \<Rightarrow> chain_blk) \<Rightarrow> cbuf \<Rightarrow> (code \<times> cbuf \<times> srv) option" where
  "relink s trn f spare =
     do { (c, sp) \<leftarrow> read_chain s trn spare;
          if c \<noteq> OK then Some (c, sp, core_abort s)
          else do { b \<leftarrow> sp;
                    (_, s1) \<leftarrow> write_chain s (f b);
                    Some (OK, Some (f b), s1) } }"

subsection \<open>Adding a transaction\<close>

text \<open>The first part of \<open>add_trn_priv\<close>; a code other than \<open>OK\<close> is returned after the abort.\<close>

definition reopen_expunged :: "string \<Rightarrow> srv \<Rightarrow> (code \<times> srv) option" where
  "reopen_expunged mtg_name s =
     do { s1 \<leftarrow> write_super s;
          (c, s2) \<leftarrow> open_mtg mtg_name (end_atomic s1);
          if c \<noteq> OK then Some (c, core_abort s2)
          else do { (c, s3) \<leftarrow> read_super (begin_atomic s2);
                    if c \<noteq> OK then Some (c, core_abort s3) else Some (OK, s3) } }"

definition add_start :: "string \<Rightarrow> int \<Rightarrow> srv \<Rightarrow> (code \<times> cbuf \<times> srv) option" where
  "add_start mtg_name reply_trn s0 =
     do { (_, c, s) \<leftarrow> topen CHR ''r'' s0;
          if c \<noteq> OK then Some (c, None, s) else
     do { (c, s) \<leftarrow> open_mtg mtg_name (s\<lparr>abort_file := True\<rparr>);
          if c \<noteq> OK then Some (c, None, core_abort s) else
     do { ok \<leftarrow> has_mtg_access s (if reply_trn \<noteq> 0 then CHR ''a'' else CHR ''w'');
          if \<not> ok then Some (NO_ACCESS, None, core_abort s) else
     do { (c, s) \<leftarrow> read_super (begin_atomic s);
          if c \<noteq> OK then Some (c, None, core_abort s) else
     do { (c, s) \<leftarrow> (if ms_date_created (super s) = 0 then reopen_expunged mtg_name s else Some (OK, s));
          if c \<noteq> OK then Some (c, None, s)
          else if reply_trn = 0 then Some (OK, None, s)
          else do { (c, cb) \<leftarrow> read_chain s reply_trn None;
                    if c \<noteq> OK then Some (c, None, core_abort s)
                    else do { b \<leftarrow> cb;
                              if deleted b then Some (DELETED_TRN, None, core_abort s)
                              else Some (OK, cb, s) } } } } } } }"

text \<open>The chain blocks: the new one, its chain's, and those of \<open>pref\<close> and \<open>prev\<close>.\<close>

definition next_trn :: "mtg_super \<Rightarrow> int \<Rightarrow> int" where
  "next_trn sb desired_trn =
     (if desired_trn = 0 \<or> desired_trn \<le> ms_highest sb then ms_highest sb + 1 else desired_trn)"

definition new_block :: "srv \<Rightarrow> int \<Rightarrow> chain_blk" where
  "new_block s flags =
     \<lparr>cb_version = CHAIN_BLK_1, cb_unique = CHAIN_BLK_UNIQUE, cb_current = ms_highest (super s),
      cb_prev = ms_last (super s), cb_next = 0, cb_pref = 0, cb_nref = 0, cb_trn_chain = 0,
      cb_trn_addr = fsize (fs s) (u_trn_f s), cb_flags = i16 (flags AND NOT CB_DELETED),
      cb_filler = 0, cb_chain_fref = 0, cb_chain_lref = 0\<rparr>"

text \<open>The two updates whose errors are not looked at.\<close>

definition add_link :: "srv \<Rightarrow> int \<Rightarrow> (chain_blk \<Rightarrow> chain_blk) \<Rightarrow> cbuf \<Rightarrow> (cbuf \<times> srv) option" where
  "add_link s trn f spare =
     do { (_, sp) \<leftarrow> read_chain s trn spare;
          b \<leftarrow> sp;
          (_, s1) \<leftarrow> write_chain s (f b);
          Some (Some (f b), s1) }"

definition add_chain :: "int \<Rightarrow> int \<Rightarrow> int \<Rightarrow> cbuf \<Rightarrow> srv \<Rightarrow> (code \<times> chain_blk \<times> srv) option" where
  "add_chain reply_trn desired_trn flags reply_cb s0 =
     (let s = s0\<lparr>super := (super s0)\<lparr>ms_highest := next_trn (super s0) desired_trn\<rparr>\<rparr>;
          cb0 = new_block s flags in
      do { (cb, spare, s) \<leftarrow>
             (if reply_trn \<noteq> 0 then
                do { r \<leftarrow> reply_cb;
                     (_, spare) \<leftarrow> read_chain s (cb_trn_chain r) None;
                     b \<leftarrow> spare;
                     Some (cb0\<lparr>cb_trn_chain := cb_trn_chain r, cb_pref := cb_chain_lref b\<rparr>, spare, s) }
              else
                let s = s\<lparr>super := (super s)\<lparr>ms_highest_chain := ms_highest_chain (super s) + 1\<rparr>\<rparr>
                in Some (cb0\<lparr>cb_trn_chain := ms_highest_chain (super s)\<rparr>, None, s));
           (c, s) \<leftarrow> write_chain s cb;
           if c \<noteq> OK then Some (NO_WRITE, cb, core_abort s) else
      do { (_, spare) \<leftarrow> read_chain s (cb_trn_chain cb) spare;
           b \<leftarrow> spare;
           let b = b\<lparr>cb_chain_lref := cb_current cb\<rparr>;
           let b = (if cb_pref cb = 0 then b\<lparr>cb_chain_fref := cb_current cb\<rparr> else b);
           (c, s) \<leftarrow> write_chain s b;
           if c \<noteq> OK then Some (NO_WRITE, cb, core_abort s) else
      do { (spare, s) \<leftarrow> (if reply_trn \<noteq> 0
              then add_link s (cb_pref cb) (\<lambda>x. x\<lparr>cb_nref := cb_current cb\<rparr>) (Some b) else Some (Some b, s));
           (spare, s) \<leftarrow> (if cb_prev cb \<noteq> 0
              then add_link s (cb_prev cb) (\<lambda>x. x\<lparr>cb_next := cb_current cb\<rparr>) spare else Some (spare, s));
           Some (OK, cb, s) } } })"

text \<open>
  Writing at an offset of the transaction file.  A negative length is a \<open>size_t\<close> that no buffer
  has, for which \<open>write\<close> fails.
\<close>

definition trn_write :: "srv \<Rightarrow> nat \<Rightarrow> int \<Rightarrow> bytes \<Rightarrow> int \<times> srv" where
  "trn_write s pos n buf =
     (if n < 0 then (-1, s)
      else let (r, f) = sys_write (fs s) (u_trn_f s) pos (take (nat n) buf) in (r, s\<lparr>fs := f\<rparr>))"

definition new_hdr :: "srv \<Rightarrow> chain_blk \<Rightarrow> string \<Rightarrow> string \<Rightarrow> string option \<Rightarrow> int \<Rightarrow> int \<Rightarrow> trn_hdr" where
  "new_hdr s cb subject author signature sz prev_addr =
     (let subject_len = i16 (int (length subject) + 1);
          author_len = i16 (int (length author) + 1);
          author_len = (case signature of None \<Rightarrow> author_len
                        | Some sg \<Rightarrow> i16 (author_len + int (length sg) + 1));
          subject_addr = i32 (cb_trn_addr cb + int HDR_SIZE);
          author_addr = i32 (subject_addr + subject_len)
      in \<lparr>th_version = TRN_HDR_1, th_unique = TRN_HDR_UNIQUE, th_current = cb_current cb,
          th_orig_pref = cb_pref cb, th_date_entered = ms_date_modified (super s), th_num_lines = 0,
          th_num_chars = sz, th_prev_trn = prev_addr, th_subject_addr = subject_addr,
          th_author_addr = author_addr, th_text_addr = i32 (author_addr + author_len),
          th_subject_len = subject_len, th_author_len = author_len\<rparr>)"

definition disk_hdr :: "srv \<Rightarrow> trn_hdr \<Rightarrow> trn_hdr" where
  "disk_hdr s th = (if mtg_swapped s then swap_trn th else th)"

text \<open>
  The header with the strings.  The result is the offset after them, or \<open>None\<close> inside the pair
  for \<open>goto werror\<close>.
\<close>

definition add_strings :: "srv \<Rightarrow> trn_hdr \<Rightarrow> string \<Rightarrow> string \<Rightarrow> string option \<Rightarrow> nat option \<times> srv" where
  "add_strings s th subject author signature =
     (let pos = length (fdata (fs s) (u_trn_f s));
          (r, s) = trn_write s pos (int HDR_SIZE) (enc_hdr (disk_hdr s th)) in
      if r \<noteq> int HDR_SIZE then (None, s) else
      let pos = pos + HDR_SIZE;
          (r, s) = trn_write s pos (th_subject_len th) (subject @ [NUL]) in
      if r \<noteq> th_subject_len th then (None, s) else
      let pos = pos + nat (th_subject_len th) in
      case signature of
        None \<Rightarrow>
          let (r, s) = trn_write s pos (th_author_len th) (author @ [NUL]) in
          if r \<noteq> th_author_len th then (None, s) else (Some (pos + nat (th_author_len th)), s)
      | Some sg \<Rightarrow>
          let len = int (length author) + 1;
              (r, s) = trn_write s pos len (author @ [NUL]) in
          if r \<noteq> len then (None, s) else
          let pos = pos + nat len; len = th_author_len th - len;
              (r, s) = trn_write s pos len (sg @ [NUL]) in
          if r \<noteq> len then (None, s) else (Some (pos + nat len), s))"

definition count_nl :: "bytes \<Rightarrow> int" where
  "count_nl bs = int (length (filter (\<lambda>c. c = NL) bs))"

text \<open>
  The loop that copies the text, which does not end when the source gives no more bytes.  The
  code is \<open>OK\<close>, that of \<open>tread\<close>, or \<open>NO_WRITE\<close>; with the latter two the call is aborted.
\<close>

partial_function (option) copy_loop :: "int \<Rightarrow> nat \<Rightarrow> int \<Rightarrow> srv \<Rightarrow> (code \<times> int \<times> srv) option" where
  "copy_loop tfs pos num_lines s =
     (if tfs \<le> 0 then Some (OK, num_lines, s)
      else do { (tocopy, b, c, s) \<leftarrow> tread (nat (min 512 tfs)) s;
                if c \<noteq> OK then Some (c, num_lines, s)
                else let (r, s) = trn_write s pos tocopy b in
                  if r \<noteq> tocopy then Some (NO_WRITE, num_lines, s)
                  else copy_loop (tfs - tocopy) (pos + nat tocopy) (num_lines + count_nl b) s })"

definition add_text :: "chain_blk \<Rightarrow> string \<Rightarrow> string \<Rightarrow> string option \<Rightarrow> int \<Rightarrow> srv \<Rightarrow>
    (code \<times> int option \<times> srv) option" where
  "add_text cb subject0 author signature0 date_entered s0 =
     (let sb = super s0;
          sb = sb\<lparr>ms_last := cb_current cb,
                  ms_first := (if ms_first sb = 0 then cb_current cb else ms_first sb),
                  ms_date_modified := date_entered,
                  ms_high_water := i32 (ms_high_water sb + int CHAIN_SIZE)\<rparr>;
          s = s0\<lparr>super := sb\<rparr>;
          signature = (case signature0 of None \<Rightarrow> None
                       | Some sg \<Rightarrow> if sg = [] \<or> sg = author then None else Some sg);
          subject = takeWhile (\<lambda>c. c \<noteq> NL) subject0 in
      do { t \<leftarrow> tf s;
           let th = new_hdr s cb subject author signature (tfsize t) (ms_highest_trn_addr sb);
           let s = s\<lparr>super := sb\<lparr>ms_highest_trn_addr := cb_trn_addr cb\<rparr>\<rparr>;
           let (p, s) = add_strings s th subject author signature;
           (case p of
              None \<Rightarrow> Some (NO_WRITE, None, core_abort s)
            | Some pos \<Rightarrow>
                do { (c, num_lines, s) \<leftarrow> copy_loop (th_num_chars th) pos (th_num_lines th) s;
                     if c \<noteq> OK then Some (c, None, core_abort s) else
                     let (_, _, s) = tclose s; s = s\<lparr>abort_file := False\<rparr>;
                         (r, s) = trn_write s (nat (cb_trn_addr cb)) (int HDR_SIZE)
                                    (enc_hdr (disk_hdr s (th\<lparr>th_num_lines := num_lines\<rparr>))) in
                     if cb_trn_addr cb < 0 then None
                     else if r \<noteq> int HDR_SIZE then Some (NO_WRITE, None, core_abort s)
                     else do { s \<leftarrow> write_super (s\<lparr>super := (super s)\<lparr>ms_trn_fsize := fsize (fs s) (u_trn_f s)\<rparr>\<rparr>);
                               Some (OK, Some (cb_current cb), end_atomic s) } }) })"

definition add_trn_priv :: "string \<Rightarrow> string \<Rightarrow> string option \<Rightarrow> int \<Rightarrow> int \<Rightarrow> string \<Rightarrow> int \<Rightarrow> int \<Rightarrow> srv \<Rightarrow>
    (code \<times> int option \<times> srv) option" where
  "add_trn_priv mtg_name subject signature reply_trn desired_trn author date_entered flags s =
     do { (c, reply_cb, s) \<leftarrow> add_start mtg_name reply_trn s;
          if c \<noteq> OK then Some (c, None, s) else
     do { (c, cb, s) \<leftarrow> add_chain reply_trn desired_trn flags reply_cb s;
          if c \<noteq> OK then Some (c, None, s)
          else add_text cb subject author signature date_entered s } }"

definition add_trn :: "string \<Rightarrow> string \<Rightarrow> int \<Rightarrow> srv \<Rightarrow> (code \<times> int option \<times> srv) option" where
  "add_trn mtg_name subject reply_trn s =
     add_trn_priv mtg_name subject None reply_trn 0 (rpc_caller s) (time_now s) 0 s"

definition add_trn2 :: "string \<Rightarrow> string \<Rightarrow> string \<Rightarrow> int \<Rightarrow> srv \<Rightarrow> (code \<times> int option \<times> srv) option" where
  "add_trn2 mtg_name subject signature reply_trn s =
     add_trn_priv mtg_name subject (Some signature) reply_trn 0 (rpc_caller s) (time_now s) 0 s"

subsection \<open>Expunging a transaction\<close>

text \<open>
  The block that marks a number as expunged.  The C function does not initialise \<open>cb.flags\<close>
  (it sets the bit \<open>CB_DELETED\<close> in it), \<open>cb.pref\<close> and \<open>cb.trn_chain\<close>: \<open>junk\<close> is what the stack
  holds there.
\<close>

definition expunged_block :: "chain_blk \<Rightarrow> int \<Rightarrow> chain_blk" where
  "expunged_block junk current =
     junk\<lparr>cb_version := CHAIN_BLK_1, cb_unique := CHAIN_BLK_UNIQUE, cb_current := current,
       cb_prev := 0, cb_next := 0, cb_nref := 0, cb_chain_fref := 0, cb_chain_lref := 0,
       cb_flags := i16 (cb_flags junk OR CB_DELETED), cb_filler := 0, cb_trn_addr := 0\<rparr>"

definition expunge_trn :: "chain_blk \<Rightarrow> string \<Rightarrow> int \<Rightarrow> srv \<Rightarrow> (code \<times> srv) option" where
  "expunge_trn junk mtg_name desired_trn s =
     do { (c, s) \<leftarrow> open_mtg mtg_name s;
          if c \<noteq> OK then Some (c, core_abort s) else
     do { ok \<leftarrow> has_mtg_access s CHR ''c'';
          if \<not> ok then Some (NO_ACCESS, core_abort s) else
     do { (c, s) \<leftarrow> read_super (begin_atomic s);
          if c \<noteq> OK then Some (c, core_abort s) else
          let s = s\<lparr>super := (super s)\<lparr>ms_highest := next_trn (super s) desired_trn\<rparr>\<rparr> in
     do { (c, s) \<leftarrow> write_chain s (expunged_block junk (ms_highest (super s)));
          if c \<noteq> OK then Some (NO_WRITE, core_abort s) else
     do { s \<leftarrow> write_super (s\<lparr>super := (super s)\<lparr>ms_date_modified := time_now s,
                              ms_high_water := i32 (ms_high_water (super s) + int CHAIN_SIZE)\<rparr>\<rparr>);
          Some (OK, end_atomic s) } } } } }"

subsection \<open>Information about a transaction\<close>

text \<open>The structures of \<^verbatim>\<open>discuss/interface.h\<close>; each call adds a field to the one before.\<close>

record trn_info =
  ti_version :: int
  ti_current :: int
  ti_prev :: int
  ti_next :: int
  ti_pref :: int
  ti_nref :: int
  ti_fref :: int
  ti_lref :: int
  ti_chain_index :: int
  ti_date_entered :: int
  ti_num_lines :: int
  ti_num_chars :: int
  ti_subject :: bytes
  ti_author :: bytes

record trn_info2 = trn_info +
  ti_flags :: int

record trn_info3 = trn_info2 +
  ti_signature :: string

definition null_info :: trn_info where
  "null_info = \<lparr>ti_version = 0, ti_current = 0, ti_prev = 0, ti_next = 0, ti_pref = 0, ti_nref = 0,
     ti_fref = 0, ti_lref = 0, ti_chain_index = 0, ti_date_entered = 0, ti_num_lines = 0,
     ti_num_chars = 0, ti_subject = [NUL], ti_author = [NUL]\<rparr>"

definition info_of :: "chain_blk \<Rightarrow> chain_blk \<Rightarrow> trn_hdr \<Rightarrow> bytes \<Rightarrow> bytes \<Rightarrow> trn_info" where
  "info_of cb chain th subject author =
     \<lparr>ti_version = 1, ti_current = cb_current cb, ti_prev = cb_prev cb, ti_next = cb_next cb,
      ti_pref = cb_pref cb, ti_nref = cb_nref cb, ti_fref = cb_chain_fref chain,
      ti_lref = cb_chain_lref chain, ti_chain_index = cb_trn_chain cb,
      ti_date_entered = th_date_entered th, ti_num_lines = th_num_lines th,
      ti_num_chars = th_num_chars th, ti_subject = subject, ti_author = author\<rparr>"

text \<open>
  What the three calls share: \<open>Some\<close> of the records found, for a transaction the caller may see.
\<close>

definition find_trn :: "string \<Rightarrow> int \<Rightarrow> bool \<Rightarrow> srv \<Rightarrow>
    (code \<times> (chain_blk \<times> chain_blk \<times> trn_hdr \<times> bytes \<times> bytes \<times> string) option \<times> srv) option" where
  "find_trn mtg_name trn sig s =
     do { (c, s) \<leftarrow> open_mtg mtg_name s;
          if c \<noteq> OK then Some (c, None, s) else
     do { (c, s) \<leftarrow> read_super (start_read s);
          if c \<noteq> OK then Some (c, None, core_abort s) else
     do { (c, cb) \<leftarrow> read_chain s trn None;
          if c \<noteq> OK then Some (c, None, core_abort s) else
     do { cb \<leftarrow> cb;
          if cb_trn_addr cb = 0 then Some (DELETED_TRN, None, core_abort s) else
     do { (c, spare) \<leftarrow> read_chain s (cb_trn_chain cb) None;
          if c \<noteq> OK then Some (c, None, core_abort s) else
     do { spare \<leftarrow> spare;
          (c, th, subject, author, signature) \<leftarrow> read_trn s (cb_trn_addr cb) True True sig;
          if c \<noteq> OK then Some (c, None, core_abort s) else
          let s = finish_read s in
     do { may_read \<leftarrow> has_trn_access s author CHR ''r'';
          if \<not> may_read then Some (NO_ACCESS, None, s) else
     do { may_see \<leftarrow> (if deleted cb then has_trn_access s author CHR ''d'' else Some True);
          if \<not> may_see then Some (DELETED_TRN, None, s)
          else Some (if deleted cb then DELETED_TRN else OK,
                     Some (cb, spare, th, subject, author, signature), forget_super s) } } } } } } } }"

definition get_trn_info :: "string \<Rightarrow> int \<Rightarrow> srv \<Rightarrow> (code \<times> trn_info \<times> srv) option" where
  "get_trn_info mtg_name trn s =
     do { (c, r, s) \<leftarrow> find_trn mtg_name trn False s;
          Some (c, (case r of None \<Rightarrow> null_info
                    | Some (cb, spare, th, subject, author, _) \<Rightarrow> info_of cb spare th subject author), s) }"

definition get_trn_info2 :: "string \<Rightarrow> int \<Rightarrow> srv \<Rightarrow> (code \<times> trn_info2 \<times> srv) option" where
  "get_trn_info2 mtg_name trn s =
     do { (c, r, s) \<leftarrow> find_trn mtg_name trn False s;
          Some (c, (case r of None \<Rightarrow> trn_info.extend null_info \<lparr>ti_flags = 0\<rparr>
                    | Some (cb, spare, th, subject, author, _) \<Rightarrow>
                        trn_info.extend (info_of cb spare th subject author) \<lparr>ti_flags = cb_flags cb\<rparr>), s) }"

definition get_trn_info3 :: "string \<Rightarrow> int \<Rightarrow> srv \<Rightarrow> (code \<times> trn_info3 \<times> srv) option" where
  "get_trn_info3 mtg_name trn s =
     do { (c, r, s) \<leftarrow> find_trn mtg_name trn True s;
          Some (c, (case r of
              None \<Rightarrow> trn_info.extend null_info \<lparr>ti_flags = 0, ti_signature = []\<rparr>
            | Some (cb, spare, th, subject, author, sg) \<Rightarrow>
                trn_info.extend (info_of cb spare th subject author)
                  \<lparr>ti_flags = cb_flags cb, ti_signature = sg\<rparr>), s) }"

subsection \<open>Deleting, retrieving, flags\<close>

text \<open>The beginning that \<open>set_trn_flags\<close>, \<open>delete_trn\<close> and \<open>retrieve_trn\<close> share.\<close>

definition edit_start :: "string \<Rightarrow> int \<Rightarrow> (chain_blk \<Rightarrow> code) \<Rightarrow> srv \<Rightarrow> (code \<times> cbuf \<times> srv) option" where
  "edit_start mtg_name trn check s =
     do { (c, s) \<leftarrow> open_mtg mtg_name s;
          if c \<noteq> OK then Some (c, None, s) else
     do { (c, s) \<leftarrow> read_super (begin_atomic s);
          if c \<noteq> OK then Some (c, None, core_abort s) else
     do { (c, cb) \<leftarrow> read_chain s trn None;
          if c \<noteq> OK then Some (c, None, core_abort s) else
     do { cb \<leftarrow> cb;
          if check cb \<noteq> OK then Some (check cb, None, core_abort s) else
     do { (c, th, _, author, _) \<leftarrow> read_trn s (cb_trn_addr cb) False True False;
          if c \<noteq> OK then Some (c, None, core_abort s) else
     do { ok \<leftarrow> has_trn_access s author CHR ''d'';
          if \<not> ok then Some (NO_ACCESS, None, core_abort s) else Some (OK, Some cb, s) } } } } } }"

definition not_deleted :: "chain_blk \<Rightarrow> code" where
  "not_deleted cb = (if deleted cb \<or> cb_trn_addr cb = 0 then DELETED_TRN else OK)"

definition set_trn_flags :: "string \<Rightarrow> int \<Rightarrow> int \<Rightarrow> srv \<Rightarrow> (code \<times> srv) option" where
  "set_trn_flags mtg_name trn flags s =
     do { (c, cb, s) \<leftarrow> edit_start mtg_name trn not_deleted s;
          if c \<noteq> OK then Some (c, s) else
     do { cb \<leftarrow> cb;
          (_, s) \<leftarrow> write_chain s (cb\<lparr>cb_flags := i16 ((cb_flags cb AND CB_DELETED) OR (flags AND NOT CB_DELETED))\<rparr>);
          Some (OK, end_atomic (forget_super s)) } }"

text \<open>Taking the block out of the two lists it is in.\<close>

definition delete_links :: "chain_blk \<Rightarrow> srv \<Rightarrow> (code \<times> srv) option" where
  "delete_links cb s =
     do { (c, sp, s) \<leftarrow> (if cb_prev cb \<noteq> 0 then relink s (cb_prev cb) (\<lambda>x. x\<lparr>cb_next := cb_next cb\<rparr>) None
                        else Some (OK, None, s));
          if c \<noteq> OK then Some (c, s) else
     do { (c, sp, s) \<leftarrow> (if cb_next cb \<noteq> 0 then relink s (cb_next cb) (\<lambda>x. x\<lparr>cb_prev := cb_prev cb\<rparr>) sp
                        else Some (OK, sp, s));
          if c \<noteq> OK then Some (c, s) else
     do { (c, sp, s) \<leftarrow> (if cb_pref cb \<noteq> 0 then relink s (cb_pref cb) (\<lambda>x. x\<lparr>cb_nref := cb_nref cb\<rparr>) sp
                        else Some (OK, sp, s));
          if c \<noteq> OK then Some (c, s) else
     do { (c, sp, s) \<leftarrow> (if cb_nref cb \<noteq> 0 then relink s (cb_nref cb) (\<lambda>x. x\<lparr>cb_pref := cb_pref cb\<rparr>) sp
                        else Some (OK, sp, s));
          if c \<noteq> OK then Some (c, s) else
     do { (c, sp, s) \<leftarrow> (if cb_nref cb = 0 \<or> cb_pref cb = 0 then
              relink s (cb_trn_chain cb) (\<lambda>x.
                let x = (if cb_nref cb = 0 then x\<lparr>cb_chain_lref := cb_pref cb\<rparr> else x)
                in if cb_pref cb = 0 then x\<lparr>cb_chain_fref := cb_nref cb\<rparr> else x) sp
            else Some (OK, sp, s));
          Some (c, s) } } } } }"

definition delete_trn :: "string \<Rightarrow> int \<Rightarrow> srv \<Rightarrow> (code \<times> srv) option" where
  "delete_trn mtg_name trn s =
     do { (c, cb, s) \<leftarrow> edit_start mtg_name trn not_deleted s;
          if c \<noteq> OK then Some (c, s) else
     do { cb0 \<leftarrow> cb;
          let cb = cb0\<lparr>cb_flags := i16 (cb_flags cb0 OR CB_DELETED)\<rparr>;
          (_, s) \<leftarrow> write_chain s cb;
          (c, s) \<leftarrow> delete_links cb s;
          if c \<noteq> OK then Some (c, s) else
          let sb = super s;
              sb = (if cb_prev cb = 0 then sb\<lparr>ms_first := cb_next cb\<rparr> else sb);
              sb = (if cb_next cb = 0 then sb\<lparr>ms_last := cb_prev cb\<rparr> else sb) in
          do { s \<leftarrow> write_super (s\<lparr>super := sb\<rparr>);
               Some (OK, end_atomic s) } } }"

text \<open>
  The four searches of \<open>retrieve_trn\<close>.  The first two follow links and may go round in circles in
  a damaged meeting; the others count, and end because numbers outside the meeting give an error.
\<close>

partial_function (option) find_pref :: "int \<Rightarrow> int \<Rightarrow> cbuf \<Rightarrow> srv \<Rightarrow> (code \<times> int \<times> cbuf) option" where
  "find_pref current pref spare s =
     (if pref = 0 then Some (OK, pref, spare)
      else do { (c, sp) \<leftarrow> read_chain s pref spare;
                if c \<noteq> OK then Some (c, pref, sp)
                else do { b \<leftarrow> sp;
                          if cb_nref b > current \<or> cb_nref b = 0 then Some (OK, pref, sp)
                          else find_pref current (cb_nref b) sp s } })"

partial_function (option) find_nref :: "int \<Rightarrow> int \<Rightarrow> cbuf \<Rightarrow> srv \<Rightarrow> (code \<times> int \<times> cbuf) option" where
  "find_nref current nref spare s =
     (if nref = 0 then Some (OK, nref, spare)
      else do { (c, sp) \<leftarrow> read_chain s nref spare;
                if c \<noteq> OK then Some (c, nref, sp)
                else do { b \<leftarrow> sp;
                          if cb_pref b < current then Some (OK, nref, sp)
                          else find_nref current (cb_pref b) sp s } })"

partial_function (option) find_prev :: "int \<Rightarrow> cbuf \<Rightarrow> srv \<Rightarrow> (code \<times> int \<times> cbuf) option" where
  "find_prev prev spare s =
     (if prev = 0 then Some (OK, prev, spare)
      else do { (c, sp) \<leftarrow> read_chain s prev spare;
                if c \<noteq> OK then Some (c, prev, sp)
                else do { b \<leftarrow> sp;
                          if \<not> deleted b then Some (OK, prev, sp)
                          else find_prev (prev - 1) sp s } })"

partial_function (option) find_next :: "int \<Rightarrow> cbuf \<Rightarrow> srv \<Rightarrow> (code \<times> int \<times> cbuf) option" where
  "find_next nxt spare s =
     (if nxt = 0 then Some (OK, nxt, spare)
      else do { (c, sp) \<leftarrow> read_chain s nxt spare;
                if c \<noteq> OK then Some (c, nxt, sp)
                else do { b \<leftarrow> sp;
                          if \<not> deleted b then Some (OK, nxt, sp)
                          else find_next (nxt + 1) sp s } })"

text \<open>The neighbours of the block: the block with its new links.\<close>

definition retrieve_search :: "chain_blk \<Rightarrow> srv \<Rightarrow> (code \<times> chain_blk \<times> cbuf) option" where
  "retrieve_search cb s =
     do { (c, chain) \<leftarrow> read_chain s (cb_trn_chain cb) None;
          if c \<noteq> OK then Some (c, cb, None) else
     do { chain \<leftarrow> chain;
          (c, pref, sp) \<leftarrow> find_pref (cb_current cb)
             (if cb_chain_fref chain > cb_current cb \<or> cb_chain_fref chain = 0 then 0 else cb_chain_fref chain) None s;
          if c \<noteq> OK then Some (c, cb, sp) else
     do { (c, nref, sp) \<leftarrow> find_nref (cb_current cb)
             (if cb_chain_lref chain < cb_current cb then 0 else cb_chain_lref chain) sp s;
          if c \<noteq> OK then Some (c, cb, sp) else
     do { (c, prev, sp) \<leftarrow> find_prev
             (if ms_first (super s) > cb_current cb \<or> ms_first (super s) = 0 then 0 else cb_current cb - 1) sp s;
          if c \<noteq> OK then Some (c, cb, sp) else
     do { (c, nxt, sp) \<leftarrow> find_next
             (if ms_last (super s) < cb_current cb then 0 else cb_current cb + 1) sp s;
          Some (c, cb\<lparr>cb_pref := pref, cb_nref := nref, cb_prev := prev, cb_next := nxt\<rparr>, sp) } } } } }"

definition retrieve_links :: "chain_blk \<Rightarrow> cbuf \<Rightarrow> srv \<Rightarrow> (code \<times> srv) option" where
  "retrieve_links cb sp s =
     do { (c, sp, s) \<leftarrow> (if cb_prev cb \<noteq> 0 then relink s (cb_prev cb) (\<lambda>x. x\<lparr>cb_next := cb_current cb\<rparr>) sp
                        else Some (OK, sp, s));
          if c \<noteq> OK then Some (c, s) else
     do { (c, sp, s) \<leftarrow> (if cb_next cb \<noteq> 0 then relink s (cb_next cb) (\<lambda>x. x\<lparr>cb_prev := cb_current cb\<rparr>) sp
                        else Some (OK, sp, s));
          if c \<noteq> OK then Some (c, s) else
     do { (c, sp, s) \<leftarrow> (if cb_pref cb \<noteq> 0 then relink s (cb_pref cb) (\<lambda>x. x\<lparr>cb_nref := cb_current cb\<rparr>) sp
                        else Some (OK, sp, s));
          if c \<noteq> OK then Some (c, s) else
     do { (c, sp, s) \<leftarrow> (if cb_nref cb \<noteq> 0 then relink s (cb_nref cb) (\<lambda>x. x\<lparr>cb_pref := cb_current cb\<rparr>) sp
                        else Some (OK, sp, s));
          if c \<noteq> OK then Some (c, s) else
     do { (c, sp, s) \<leftarrow> (if cb_nref cb = 0 \<or> cb_pref cb = 0 then
              relink s (cb_trn_chain cb) (\<lambda>x.
                let x = (if cb_nref cb = 0 then x\<lparr>cb_chain_lref := cb_current cb\<rparr> else x)
                in if cb_pref cb = 0 then x\<lparr>cb_chain_fref := cb_current cb\<rparr> else x) sp
            else Some (OK, sp, s));
          Some (c, s) } } } } }"

definition was_deleted :: "chain_blk \<Rightarrow> code" where
  "was_deleted cb = (if \<not> deleted cb then TRN_NOT_DELETED else if cb_trn_addr cb = 0 then EXPUNGED_TRN else OK)"

definition retrieve_trn :: "string \<Rightarrow> int \<Rightarrow> srv \<Rightarrow> (code \<times> srv) option" where
  "retrieve_trn mtg_name trn s =
     do { (c, cb, s) \<leftarrow> edit_start mtg_name trn was_deleted s;
          if c \<noteq> OK then Some (c, s) else
     do { cb \<leftarrow> cb;
          (c, cb, sp) \<leftarrow> retrieve_search cb s;
          if c \<noteq> OK then Some (c, core_abort s) else
          let cb = cb\<lparr>cb_flags := i16 (cb_flags cb AND NOT CB_DELETED)\<rparr> in
     do { (_, s) \<leftarrow> write_chain s cb;
          (c, s) \<leftarrow> retrieve_links cb sp s;
          if c \<noteq> OK then Some (c, s) else
          let sb = super s;
              sb = (if cb_prev cb = 0 then sb\<lparr>ms_first := cb_current cb\<rparr> else sb);
              sb = (if cb_next cb = 0 then sb\<lparr>ms_last := cb_current cb\<rparr> else sb) in
          do { s \<leftarrow> write_super (s\<lparr>super := sb\<rparr>);
               Some (OK, end_atomic s) } } } }"

subsection \<open>Creating a meeting\<close>

text \<open>
  Successive writes at the end of what has been written: the offset only moves when the write
  succeeds, and its result is not looked at.
\<close>

definition trn_append :: "nat \<times> srv \<Rightarrow> int \<Rightarrow> bytes \<Rightarrow> nat \<times> srv" where
  "trn_append p n buf =
     (let (pos, s) = p; (r, s1) = trn_write s pos n buf in (pos + nat r, s1))"

text \<open>The access test against \<open>location/../cacl\<close>, which is \<open>cacl\<close> in the directory above.\<close>

definition may_create :: "string \<Rightarrow> srv \<Rightarrow> bool option" where
  "may_create location s =
     (if has_privs s then Some True
      else case sys_open (fs s) (dir_of location @ ''/cacl'') of
             Inl e \<Rightarrow> Some False
           | Inr d \<Rightarrow>
               (case acl_read (fdata (fs s) d) of
                  None \<Rightarrow> Some False
                | Some l \<Rightarrow> acl_check l (rpc_caller s) ''a''))"

definition create_error :: "int \<Rightarrow> code" where
  "create_error e = (if e = EEXIST then DUP_MTG_NAME else if e = EACCES then NO_ACCESS else BAD_PATH)"

text \<open>The two data files and their first contents.\<close>

definition new_super :: "int \<Rightarrow> int \<Rightarrow> int \<Rightarrow> mtg_super" where
  "new_super public date_created trn_fsize =
     \<lparr>ms_version = MTG_SUPER_1, ms_unique = MTG_SUPER_UNIQUE, ms_first = 0, ms_last = 0, ms_lowest = 1,
      ms_highest = 0, ms_highest_chain = 0, ms_date_created = date_created,
      ms_date_modified = date_created, ms_long_name_addr = 0, ms_chairman_addr = 0,
      ms_long_name_len = 0, ms_chairman_len = 0, ms_flags = (if public \<noteq> 0 then MTG_PUBLIC else 0),
      ms_chain_start = 1024, ms_high_water = 1024, ms_trn_fsize = trn_fsize, ms_highest_trn_addr = 0\<rparr>"

definition new_base :: "string \<Rightarrow> string \<Rightarrow> int \<Rightarrow> int \<Rightarrow> trn_base" where
  "new_base long_name chairman public date_created =
     \<lparr>tb_version = TRN_BASE_1, tb_unique = TRN_BASE_UNIQUE, tb_date_created = date_created,
      tb_long_name_addr = int BASE_SIZE, tb_chairman_addr = int BASE_SIZE + i16 (int (length long_name) + 1),
      tb_long_name_len = i16 (int (length long_name) + 1),
      tb_chairman_len = i16 (int (length chairman) + 1), tb_public_flag = public\<rparr>"

definition create_files :: "string \<Rightarrow> string \<Rightarrow> int \<Rightarrow> int \<Rightarrow> string \<Rightarrow> srv \<Rightarrow> (code \<times> srv) option" where
  "create_files location long_mtg_name public date_created chairman s =
     (case sys_create (fs s) (location @ ''/control'') of
        Inl e \<Rightarrow> Some (create_error e, s\<lparr>u_control_f := 0\<rparr>)
      | Inr (d, f) \<Rightarrow>
          let s = s\<lparr>fs := f, u_control_f := d\<rparr> in
          (case sys_create (fs s) (location @ ''/transactions'') of
             Inl e \<Rightarrow> Some (create_error e, s\<lparr>u_trn_f := 0\<rparr>)
           | Inr (d, f) \<Rightarrow>
               let tb = new_base long_mtg_name chairman public date_created;
                   sb = new_super public date_created
                          (i32 (int BASE_SIZE + tb_long_name_len tb + tb_chairman_len tb));
                   s = s\<lparr>fs := f, u_trn_f := d, mtg_swapped := False, super := sb,
                         super_long_name := Some (long_mtg_name @ [NUL]),
                         super_chairman := Some (chairman @ [NUL])\<rparr>;
                   p = trn_append (0, s) (int BASE_SIZE) (enc_base tb);
                   p = trn_append p (tb_long_name_len tb) (long_mtg_name @ [NUL]);
                   p = trn_append p (tb_chairman_len tb) (chairman @ [NUL])
               in do { s \<leftarrow> write_super (snd p); Some (OK, s) }))"

definition chairman_modes :: string where "chairman_modes = ''acdorsw''"
definition public_modes :: string where "public_modes = ''a  orsw''"

text \<open>\<open>junk\<close> is the memory behind the string that \<open>acl_union\<close> builds, see \<open>Acl\<close>.\<close>

definition create_acl :: "string \<Rightarrow> int \<Rightarrow> string \<Rightarrow> acl option \<Rightarrow> acl" where
  "create_acl junk public chairman new_acl =
     (case new_acl of
        None \<Rightarrow>
          let l = acl_add_access junk acl_create chairman chairman_modes
          in if public = 1 then acl_add_access junk l STAR public_modes else l
      | Some l \<Rightarrow> acl_copy l)"

definition create_mtg_priv :: "string \<Rightarrow> string \<Rightarrow> string \<Rightarrow> int \<Rightarrow> int \<Rightarrow> string \<Rightarrow> acl option \<Rightarrow> srv \<Rightarrow>
    (code \<times> srv) option" where
  "create_mtg_priv junk location long_mtg_name public date_created chairman new_acl s =
     (if \<not> good_path location 241 then Some (BAD_PATH, s)
      else if long_mtg_name = [] then Some (BAD_MTG_NAME, s)
      else let (e, f) = sys_mkdir (fs s) location in
      if e \<noteq> 0 then Some (if e = EEXIST then DUP_MTG_NAME else BAD_PATH, s)
      else let s = s\<lparr>fs := f\<rparr> in
      do { ok \<leftarrow> may_create location s;
           if \<not> ok then Some (NO_ACCESS, s\<lparr>fs := snd (sys_rmdir (fs s) location)\<rparr>)
           else do { (c, s) \<leftarrow> create_files location long_mtg_name public date_created chairman s;
                     if c \<noteq> OK then Some (c, s)
                     else do { _ \<leftarrow> acl_destroy (mtg_acl s);
                               let l = create_acl junk public chairman new_acl;
                               let s = s\<lparr>current_mtg := location, mtg_acl := Acl l\<rparr>;
                               (case sys_create (fs s) (location @ ''/acl'') of
                                  Inl e \<Rightarrow> Some (BAD_PATH, s\<lparr>u_acl_f := 0\<rparr>)
                                | Inr (d, f) \<Rightarrow>
                                    Some (OK, s\<lparr>u_acl_f := d, fs := snd (acl_write f d l)\<rparr>)) } } })"

definition create_mtg :: "string \<Rightarrow> string \<Rightarrow> string \<Rightarrow> int \<Rightarrow> srv \<Rightarrow> (code \<times> srv) option" where
  "create_mtg junk location long_mtg_name public s =
     create_mtg_priv junk location long_mtg_name public (time_now s) (rpc_caller s) None s"

subsection \<open>Information about a meeting\<close>

record mtg_info =
  mi_version :: int
  mi_location :: string
  mi_long_name :: string
  mi_chairman :: string
  mi_first :: int
  mi_last :: int
  mi_lowest :: int
  mi_highest :: int
  mi_date_created :: int
  mi_date_modified :: int
  mi_public_flag :: int
  mi_access_modes :: string

text \<open>
  \<open>strchr\<close> in a buffer whose end is not written: \<open>None\<close> when neither the character nor the end of
  the string is in it, \<open>Some None\<close> for a null pointer.
\<close>

definition c_strchr :: "char \<Rightarrow> bytes \<Rightarrow> nat option option" where
  "c_strchr c buf =
     (let n = length (takeWhile (\<lambda>x. x \<noteq> c \<and> x \<noteq> NUL) buf) in
      if n = length buf then None else Some (if buf ! n = c then Some n else None))"

text \<open>The branch for a meeting that has moved: its new host and path from the file \<open>forward\<close>.\<close>

definition moved_info :: "string \<Rightarrow> mtg_info \<Rightarrow> srv \<Rightarrow> (code \<times> mtg_info \<times> srv) option" where
  "moved_info mtg_name info s =
     (let path = take 99 (mtg_name @ ''/forward'') in
      case sys_open (fs s) path of
        Inl e \<Rightarrow> Some (INCONSISTENT, info, s)
      | Inr d \<Rightarrow>
          let b = sys_read (fs s) d 0 100; buf = b @ drop (length b) (path @ [NUL]) in
          do { i \<leftarrow> c_strchr NL buf;
               (case i of
                  None \<Rightarrow> Some (INCONSISTENT, info, s)
                | Some i \<Rightarrow>
                    let line = take i buf in
                    do { j \<leftarrow> c_strchr CHR '':'' (line @ [NUL]);
                         (case j of
                            None \<Rightarrow> Some (INCONSISTENT, info, s)
                          | Some j \<Rightarrow>
                              Some (MTG_MOVED, info\<lparr>mi_long_name := take j line,
                                                   mi_location := drop (j + 1) line\<rparr>, s)) }) })"

text \<open>\<open>info0\<close> is what the caller's structure holds before the call; \<open>dispatch\<close> does not clear it.\<close>

definition get_mtg_info :: "string \<Rightarrow> mtg_info \<Rightarrow> srv \<Rightarrow> (code \<times> mtg_info \<times> srv) option" where
  "get_mtg_info mtg_name info0 s =
     (let info = info0\<lparr>mi_chairman := [], mi_long_name := [], mi_location := mtg_name,
                       mi_access_modes := [], mi_public_flag := 1\<rparr> in
      do { (c, s) \<leftarrow> open_mtg mtg_name s;
           if c = MTG_MOVED then moved_info mtg_name info s
           else if c \<noteq> OK then Some (c, info, s) else
      do { l \<leftarrow> (case mtg_acl s of Acl l \<Rightarrow> Some l | _ \<Rightarrow> None);
           let info = info\<lparr>mi_access_modes := acl_get_access l (rpc_caller s)\<rparr>;
           status \<leftarrow> has_mtg_access s CHR ''s'';
           ok \<leftarrow> (if status then Some True else has_mtg_access s CHR ''r'');
           if \<not> ok then Some (NO_ACCESS, info, s) else
      do { (c, s) \<leftarrow> read_super (start_read s);
           if c \<noteq> OK then Some (c, info, core_abort s) else
           let s = finish_read s; sb = super s in
      do { ln \<leftarrow> c_string (super_long_name s);
           ch \<leftarrow> c_string (super_chairman s);
           Some (OK, info\<lparr>mi_version := 2, mi_long_name := ln, mi_chairman := ch,
                   mi_first := ms_first sb, mi_last := ms_last sb, mi_lowest := ms_lowest sb,
                   mi_highest := ms_highest sb, mi_date_created := ms_date_created sb,
                   mi_date_modified := ms_date_modified sb,
                   mi_public_flag := ms_flags sb AND MTG_PUBLIC\<rparr>, forget_super s) } } } })"

subsection \<open>Reading a transaction\<close>

text \<open>
  The loop that feeds the text to the destination.  A \<open>read\<close> that is cut short leaves the old
  contents of the buffer behind its bytes, or nothing that was ever written (\<open>None\<close>).
\<close>

function feed_loop :: "int \<Rightarrow> nat \<Rightarrow> bytes \<Rightarrow> srv \<Rightarrow> srv option" where
  "feed_loop tfs pos buffer s =
     (if tfs \<le> 0 then Some s
      else let tocopy = nat (min 512 tfs);
               b = sys_read (fs s) (u_trn_f s) pos tocopy;
               buffer = b @ drop (length b) buffer in
        if length buffer < tocopy then None
        else do { (_, _, s) \<leftarrow> twrite (take tocopy buffer) s;
                  feed_loop (tfs - int tocopy) (pos + length b) buffer s })"
  by auto
termination by (relation "measure (\<lambda>(tfs, _). nat tfs)") auto

declare feed_loop.simps [simp del]

definition get_trn :: "string \<Rightarrow> int \<Rightarrow> srv \<Rightarrow> (code \<times> srv) option" where
  "get_trn mtg_name trn s =
     do { (_, _, s) \<leftarrow> topen CHR ''w'' s;
          (c, s) \<leftarrow> open_mtg mtg_name (s\<lparr>abort_file := True\<rparr>);
          if c \<noteq> OK then Some (c, core_abort s) else
     do { (c, s) \<leftarrow> read_super (start_read s);
          if c \<noteq> OK then Some (c, core_abort s) else
     do { (c, cb) \<leftarrow> read_chain s trn None;
          if c \<noteq> OK then Some (c, core_abort s) else
     do { cb \<leftarrow> cb;
          if cb_trn_addr cb = 0 then Some (DELETED_TRN, core_abort s) else
     do { (c, th, _, author, _) \<leftarrow> read_trn s (cb_trn_addr cb) False True False;
          if c \<noteq> OK then Some (c, core_abort s) else
          let s = finish_read s in
     do { may_see \<leftarrow> (if deleted cb then has_trn_access s author CHR ''d'' else Some True);
          if \<not> may_see then Some (DELETED_TRN, core_abort s) else
     do { may_read \<leftarrow> has_trn_access s author CHR ''r'';
          if \<not> may_read then Some (NO_ACCESS, core_abort s)
          else if th_text_addr th < 0 then None
          else do { s \<leftarrow> feed_loop (th_num_chars th) (nat (th_text_addr th)) [] s;
                    let (_, _, s) = tclose s;
                    Some (if deleted cb then DELETED_TRN else OK, s\<lparr>abort_file := False\<rparr>) } } } } } } } }"

subsection \<open>Removing a meeting, and the quick test for news\<close>

definition remove_mtg :: "string \<Rightarrow> srv \<Rightarrow> (code \<times> srv) option" where
  "remove_mtg mtg_name s =
     do { (c, s) \<leftarrow> open_mtg mtg_name s;
          if c \<noteq> OK then Some (c, s) else
     do { ok \<leftarrow> has_mtg_access s CHR ''c'';
          if \<not> ok then Some (NO_ACCESS, s) else
          let (e, f) = sys_unlink (fs s) (mtg_name @ ''/control'') in
          if e \<noteq> 0 \<and> e \<noteq> ENOENT then Some (CANNOT_REMOVE, s) else
          let f = snd (sys_unlink f (mtg_name @ ''/transactions''));
              f = snd (sys_unlink f (mtg_name @ ''/acl''));
              f = snd (sys_rmdir f mtg_name) in
     do { (c, s) \<leftarrow> read_super (s\<lparr>fs := f\<rparr>);
          s \<leftarrow> write_super (s\<lparr>super := (super s)\<lparr>ms_date_created := 0\<rparr>\<rparr>);
          _ \<leftarrow> acl_destroy (mtg_acl s);
          Some (c, s\<lparr>mtg_acl := NoAcl, current_mtg := []\<rparr>) } } }"

text \<open>Only fields of the first 24 bytes of the superblock are used.\<close>

definition updated_mtg :: "string \<Rightarrow> int \<Rightarrow> srv \<Rightarrow> (code \<times> bool) option" where
  "updated_mtg mtg_name lst s =
     (if \<not> good_path mtg_name 246 then Some (BAD_PATH, False)
      else if sys_stat (fs s) (mtg_name @ ''/forward'') \<noteq> None then Some (OK, True)
      else case sys_open (fs s) (mtg_name @ ''/control'') of
        Inl e \<Rightarrow> Some (open_error e, False)
      | Inr d \<Rightarrow>
          let b = sys_read (fs s) d 0 SUPER_SIZE; mysuper = dec_super b;
              mysuper = (if ms_unique mysuper = MTG_SUPER_UNIQUE_SWAP then swap_super mysuper else mysuper) in
          if length b < 24 then None
          else Some (if ms_highest mysuper < lst then NO_SUCH_TRN else OK, ms_last mysuper > lst))"

end
