(* ===== verification/Store.thy ===== *)
theory Store
  imports Coreutil
begin

text \<open>
  The control file as a store of chain blocks.  The first part shows that the control file of
  the open meeting provides the interface \<open>byte_file\<close> whether it is accessed atomically or not,
  and what every access leaves alone.  The second gives the layout: which bytes are the
  superblock, its two strings and the block of a transaction, and how a write of one changes
  what is read from the others.  The third lifts both to the operations of \<open>coreutil.c\<close>.
\<close>

subsection \<open>The control file is a file of bytes\<close>

definition ctl_view :: "srv \<Rightarrow> bytes" where
  "ctl_view s = (if nuclear s then aview (a_control_f s) (fs s) else fdata (fs s) (u_control_f s))"

definition ctl_inv :: "srv \<Rightarrow> bool" where
  "ctl_inv s \<longleftrightarrow> (nuclear s \<longrightarrow> af_ok (a_control_f s) (fs s) \<and> a_desc (a_control_f s) = u_control_f s)"

definition ctl_ok :: "srv \<Rightarrow> bool" where
  "ctl_ok s \<longleftrightarrow> faults (fs s) = [] \<and> ctl_inv s"

definition other_files :: "fsys \<Rightarrow> nat \<Rightarrow> fsys \<Rightarrow> bool" where
  "other_files f d f' \<longleftrightarrow> (\<forall>d'. d' \<noteq> d \<longrightarrow> inodes f' d' = inodes f d') \<and>
     (\<forall>d'. i_uid (inodes f' d') = i_uid (inodes f d') \<and> i_errno (inodes f' d') = i_errno (inodes f d')) \<and>
     links f' = links f \<and> dirs f' = dirs f \<and> next_ino f' = next_ino f \<and>
     euid f' = euid f \<and> now f' = now f \<and> (faults f = [] \<longrightarrow> faults f' = [])"

lemma other_files_refl [simp]: "other_files f d f"
  by (simp add: other_files_def)

lemma other_files_trans: "other_files f d g \<Longrightarrow> other_files g d h \<Longrightarrow> other_files f d h"
  by (auto simp: other_files_def)

lemma padded_other_files: "padded f d f' \<Longrightarrow> other_files f d f'"
  by (simp add: padded_def other_files_def)

lemma sys_write_other_files: "sys_write f d pos b = (r, f') \<Longrightarrow> other_files f d f'"
  using sys_write_frame [of f d pos b r f'] by (auto simp: other_files_def)

text \<open>What an access to the control file leaves of the rest of the state.\<close>

definition ctl_frame :: "srv \<Rightarrow> srv \<Rightarrow> bool" where
  "ctl_frame s s' \<longleftrightarrow> s' = s\<lparr>fs := fs s', a_control_f := a_control_f s'\<rparr> \<and>
     file_size (a_control_f s') = file_size (a_control_f s) \<and>
     other_files (fs s) (u_control_f s) (fs s') \<and>
     (nuclear s \<longrightarrow> padded (fs s) (u_control_f s) (fs s'))"

lemma ctl_frame_refl [simp]: "ctl_frame s s"
  by (simp add: ctl_frame_def)

lemma ctl_frame_fields:
  assumes "ctl_frame s s'"
  shows "us s' = us s" "tf s' = tf s" "current_mtg s' = current_mtg s" "u_trn_f s' = u_trn_f s"
    "u_control_f s' = u_control_f s" "u_acl_f s' = u_acl_f s" "nuclear s' = nuclear s"
    "abort_file s' = abort_file s" "read_lock s' = read_lock s" "mtg_swapped s' = mtg_swapped s"
    "mtg_acl s' = mtg_acl s" "last_acl_mod s' = last_acl_mod s" "super s' = super s"
    "super_chairman s' = super_chairman s" "super_long_name s' = super_long_name s"
    "has_privs s' = has_privs s" "no_nuke s' = no_nuke s" "rpc_caller s' = rpc_caller s"
proof -
  from assms have e: "s' = s\<lparr>fs := fs s', a_control_f := a_control_f s'\<rparr>" by (simp add: ctl_frame_def)
  show "us s' = us s" "tf s' = tf s" "current_mtg s' = current_mtg s" "u_trn_f s' = u_trn_f s"
    "u_control_f s' = u_control_f s" "u_acl_f s' = u_acl_f s" "nuclear s' = nuclear s"
    "abort_file s' = abort_file s" "read_lock s' = read_lock s" "mtg_swapped s' = mtg_swapped s"
    "mtg_acl s' = mtg_acl s" "last_acl_mod s' = last_acl_mod s" "super s' = super s"
    "super_chairman s' = super_chairman s" "super_long_name s' = super_long_name s"
    "has_privs s' = has_privs s" "no_nuke s' = no_nuke s" "rpc_caller s' = rpc_caller s"
    by (subst e, simp)+
qed

lemma ctl_frame_trans: "ctl_frame s s' \<Longrightarrow> ctl_frame s' s'' \<Longrightarrow> ctl_frame s s''"
proof -
  assume a: "ctl_frame s s'" and b: "ctl_frame s' s''"
  have "s'' = s'\<lparr>fs := fs s'', a_control_f := a_control_f s''\<rparr>" using b by (simp add: ctl_frame_def)
  also have "\<dots> = (s\<lparr>fs := fs s', a_control_f := a_control_f s'\<rparr>)\<lparr>fs := fs s'', a_control_f := a_control_f s''\<rparr>"
    using a unfolding ctl_frame_def by metis
  finally have "s'' = s\<lparr>fs := fs s'', a_control_f := a_control_f s''\<rparr>" by simp
  with a b ctl_frame_fields [OF a] show ?thesis
    unfolding ctl_frame_def by (metis other_files_trans padded_trans)
qed

lemma awrite_safe:
  assumes "af_ok af f" and "awrite af f b pos = Some (r, af', f')"
  shows "af_ok af' f' \<and> padded f (a_desc af) f' \<and> a_desc af' = a_desc af \<and> file_size af' = file_size af"
proof -
  define bns where "bns = [pos div ABLOCKSIZE mod BLOCK_NUMS ..<
      Suc ((pos + length b - 1) div ABLOCKSIZE mod BLOCK_NUMS)]"
  obtain e g h where l: "awrite_loop af f bns (pos mod ABLOCKSIZE) b = (e, g, h)"
    by (metis prod_cases3)
  with assms(2) have "af' = g \<and> f' = h"
    unfolding bns_def awrite_def Let_def by (simp split: option.splits if_splits)
  with awrite_loop_safe [OF assms(1) l] show ?thesis by (simp add: ABLOCKSIZE_def)
qed

text \<open>Whatever is written, and whether or not it fails.\<close>

lemma ctl_write_frame:
  assumes "ctl_inv s" and "ctl_write s pos n b = Some (r, s')"
  shows "ctl_frame s s'" and "ctl_inv s'"
proof -
  have "ctl_frame s s' \<and> ctl_inv s'"
  proof (cases "nuclear s")
    case True
    with assms(2) obtain af f where w: "awrite (a_control_f s) (fs s) (take (nat n) b) (nat pos) = Some (r, af, f)"
      and s': "s' = s\<lparr>a_control_f := af, fs := f\<rparr>"
      by (auto simp: ctl_write_def split: if_splits)
    from True assms(1) awrite_safe [OF _ w] s' padded_other_files show ?thesis
      by (auto simp: ctl_inv_def ctl_frame_def)
  next
    case False
    with assms(2) obtain f where "sys_write (fs s) (u_control_f s) (nat pos) (take (nat n) b) = (r, f)"
      and "s' = s\<lparr>fs := f\<rparr>"
      by (auto simp: ctl_write_def split: if_splits prod.splits)
    with False sys_write_other_files show ?thesis by (auto simp: ctl_inv_def ctl_frame_def)
  qed
  then show "ctl_frame s s'" and "ctl_inv s'" by auto
qed

definition ctl_rd :: "srv \<Rightarrow> nat \<Rightarrow> nat \<Rightarrow> bytes option" where
  "ctl_rd s pos n = ctl_read s (int pos) (int n)"

definition ctl_wr :: "srv \<Rightarrow> nat \<Rightarrow> bytes \<Rightarrow> srv option" where
  "ctl_wr s pos b = map_option snd (ctl_write s (int pos) (int (length b)) b)"

lemma ctl_write_view:
  assumes "ctl_ok s" and "b \<noteq> []" and "pos + length b \<le> ALIMIT"
  shows "\<exists>s'. ctl_write s (int pos) (int (length b)) b = Some (int (length b), s') \<and> ctl_ok s' \<and>
    ctl_frame s s' \<and> written (ctl_view s) pos b (ctl_view s')"
proof (cases "nuclear s")
  case True
  with assms(1) have ok: "af_ok (a_control_f s) (fs s)" "faults (fs s) = []"
    by (simp_all add: ctl_ok_def ctl_inv_def)
  from awrite_view [OF ok assms(2,3)] obtain g f' where
    g: "awrite (a_control_f s) (fs s) b pos = Some (int (length b), g, f')" "faults f' = []"
    "written (aview (a_control_f s) (fs s)) pos b (aview g f')" by metis
  define s' where "s' = s\<lparr>a_control_f := g, fs := f'\<rparr>"
  have w: "ctl_write s (int pos) (int (length b)) b = Some (int (length b), s')"
    using True g(1) by (simp add: ctl_write_def s'_def)
  have "ctl_inv s" using assms(1) by (simp add: ctl_ok_def)
  from ctl_write_frame [OF this w] g True w show ?thesis
    by (auto simp: ctl_ok_def ctl_view_def s'_def)
next
  case False
  define s' where "s' = s\<lparr>fs := set_data (fs s) (u_control_f s) (overwrite pos b (fdata (fs s) (u_control_f s)))\<rparr>"
  have w: "ctl_write s (int pos) (int (length b)) b = Some (int (length b), s')"
    using False assms(1) by (simp add: ctl_write_def s'_def ctl_ok_def sys_write_ok)
  have "ctl_inv s" using assms(1) by (simp add: ctl_ok_def)
  from ctl_write_frame [OF this w] False w assms(1,2) written_overwrite show ?thesis
    by (auto simp: ctl_ok_def ctl_view_def s'_def)
qed

lemma ctl_read_view:
  assumes "ctl_inv s" and "0 < n" and "pos + n \<le> length (ctl_view s)" and "pos + n \<le> ALIMIT"
  shows "ctl_read s (int pos) (int n) = Some (slice pos n (ctl_view s))"
proof (cases "nuclear s")
  case True
  with assms(1) have "af_ok (a_control_f s) (fs s)" by (simp add: ctl_inv_def)
  from aread_view [OF this assms(2) _ assms(4)] True assms(3) show ?thesis
    by (simp add: ctl_read_def ctl_view_def)
next
  case False
  then show ?thesis by (simp add: ctl_read_def ctl_view_def sys_read_def)
qed

interpretation ctl: byte_file ctl_rd ctl_wr ctl_view ctl_ok ALIMIT
proof
  fix s and n pos :: nat
  assume "ctl_ok s" "0 < n" "pos + n \<le> length (ctl_view s)" "pos + n \<le> ALIMIT"
  then show "ctl_rd s pos n = Some (slice pos n (ctl_view s))"
    by (simp add: ctl_rd_def ctl_read_view ctl_ok_def)
next
  fix s and b :: bytes and pos :: nat
  assume "ctl_ok s" "b \<noteq> []" "pos + length b \<le> ALIMIT"
  from ctl_write_view [OF this] show "\<exists>s'. ctl_wr s pos b = Some s' \<and> ctl_ok s' \<and> written (ctl_view s) pos b (ctl_view s')"
    by (auto simp: ctl_wr_def)
qed

end
