(* ===== verification/Layout.thy ===== *)
theory Layout
  imports Core Store
begin

text \<open>
  The layout of the control file and the operations of \<open>coreutil.c\<close> on it.  \<open>blocks_in\<close> says that
  the file holds the chain blocks of a map from transaction numbers, \<open>head_in\<close> that it starts
  with a superblock and its two strings.  The lemmas state what reading and writing of a block or
  of the superblock do to the map; the operations of \<open>Core\<close> are verified against the map only.
\<close>

subsection \<open>Chain blocks\<close>

type_synonym chains = "int \<rightharpoonup> chain_blk"

definition blk_pos :: "mtg_super \<Rightarrow> int \<Rightarrow> nat" where
  "blk_pos sb t = nat (ms_chain_start sb + (t - 1) * int CHAIN_SIZE)"

definition disk_chain :: "bool \<Rightarrow> chain_blk \<Rightarrow> chain_blk" where
  "disk_chain sw c = (if sw then swap_chain c else c)"

definition blk_ok :: "mtg_super \<Rightarrow> int \<Rightarrow> chain_blk \<Rightarrow> bool" where
  "blk_ok sb t c \<longleftrightarrow> chain_ok c \<and> cb_version c = CHAIN_BLK_1 \<and> cb_unique c = CHAIN_BLK_UNIQUE \<and>
     cb_current c = t \<and> 1 \<le> t \<and> t \<le> ms_highest sb"

text \<open>A superblock with which the blocks lie where atomic files can reach them.\<close>

definition sb_ok :: "mtg_super \<Rightarrow> bool" where
  "sb_ok sb \<longleftrightarrow> super_ok sb \<and> ms_lowest sb = 1 \<and> int SUPER_SIZE \<le> ms_chain_start sb \<and> 0 \<le> ms_highest sb \<and>
     ms_chain_start sb + ms_highest sb * int CHAIN_SIZE \<le> int ALIMIT"

definition blocks_in :: "bytes \<Rightarrow> bool \<Rightarrow> mtg_super \<Rightarrow> chains \<Rightarrow> bool" where
  "blocks_in v sw sb m \<longleftrightarrow> (\<forall>t c. m t = Some c \<longrightarrow>
     blk_ok sb t c \<and> blk_pos sb t + CHAIN_SIZE \<le> length v \<and>
     slice (blk_pos sb t) CHAIN_SIZE v = enc_chain (disk_chain sw c))"

lemma chain_ok_disk [simp]: "chain_ok c \<Longrightarrow> chain_ok (disk_chain sw c)"
  by (simp add: disk_chain_def)

lemma disk_chain_twice [simp]: "chain_ok c \<Longrightarrow> disk_chain sw (disk_chain sw c) = c"
  by (simp add: disk_chain_def)

lemma blk_range:
  assumes "sb_ok sb" and "1 \<le> t" and "t \<le> ms_highest sb"
  shows "chain_addr sb t = int (blk_pos sb t)" and "SUPER_SIZE \<le> blk_pos sb t"
    and "nat (ms_chain_start sb) \<le> blk_pos sb t" and "blk_pos sb t + CHAIN_SIZE \<le> ALIMIT"
proof -
  have s: "68 \<le> ms_chain_start sb" "ms_lowest sb = 1"
    and h: "ms_chain_start sb + ms_highest sb * 48 \<le> 33553920"
    using assms(1) by (simp_all add: sb_ok_def mtg_layout ALIMIT_def)
  with assms have p: "0 \<le> (t - 1) * 48" "(t - 1) * 48 + 48 \<le> ms_highest sb * 48" by simp_all
  have "i32 (ms_chain_start sb + (t - 1) * 48) = ms_chain_start sb + (t - 1) * 48"
    using p s h by (simp add: signed_take_bit_int_eq_self_iff)
  with assms s p show "chain_addr sb t = int (blk_pos sb t)"
    by (simp add: chain_addr_def blk_pos_def mtg_layout)
  show "SUPER_SIZE \<le> blk_pos sb t" and "nat (ms_chain_start sb) \<le> blk_pos sb t"
    and "blk_pos sb t + CHAIN_SIZE \<le> ALIMIT"
    using s p h by (simp_all add: blk_pos_def mtg_layout ALIMIT_def)
qed

lemma blk_disjoint:
  assumes "sb_ok sb" and "1 \<le> t" and "1 \<le> u" and "t \<noteq> u"
  shows "blk_pos sb t + CHAIN_SIZE \<le> blk_pos sb u \<or> blk_pos sb u + CHAIN_SIZE \<le> blk_pos sb t"
proof -
  have s: "68 \<le> ms_chain_start sb" using assms(1) by (simp add: sb_ok_def mtg_layout)
  have *: "blk_pos sb x + CHAIN_SIZE \<le> blk_pos sb y" if "1 \<le> x" "x < y" for x y
    using s that by (simp add: blk_pos_def mtg_layout)
  show ?thesis using assms *[of t u] *[of u t] by (cases "t < u") auto
qed

text \<open>Only these fields of the superblock matter for the blocks.\<close>

lemma blocks_in_super:
  assumes "blocks_in v sw sb m" and "ms_chain_start sb' = ms_chain_start sb" and "ms_highest sb \<le> ms_highest sb'"
  shows "blocks_in v sw sb' m"
  using assms by (fastforce simp: blocks_in_def blk_ok_def blk_pos_def)

subsection \<open>Reading and writing a block\<close>

definition rep :: "srv \<Rightarrow> chains \<Rightarrow> bool" where
  "rep s m \<longleftrightarrow> ctl_ok s \<and> sb_ok (super s) \<and> blocks_in (ctl_view s) (mtg_swapped s) (super s) m"

text \<open>What writing of blocks leaves: everything below the first block.\<close>

definition same_head :: "srv \<Rightarrow> srv \<Rightarrow> bool" where
  "same_head s s' \<longleftrightarrow> ctl_frame s s' \<and> length (ctl_view s) \<le> length (ctl_view s') \<and>
     (\<forall>q n. q + n \<le> nat (ms_chain_start (super s)) \<and> q + n \<le> length (ctl_view s) \<longrightarrow>
        slice q n (ctl_view s') = slice q n (ctl_view s))"

lemma same_head_refl [simp]: "same_head s s"
  by (simp add: same_head_def)

lemma same_head_trans: "same_head s s' \<Longrightarrow> same_head s' s'' \<Longrightarrow> same_head s s''"
proof -
  assume a: "same_head s s'" and b: "same_head s' s''"
  then have c: "ms_chain_start (super s') = ms_chain_start (super s)"
    by (metis same_head_def ctl_frame_fields(13))
  show ?thesis
    using a b unfolding same_head_def c by (auto intro: ctl_frame_trans)
qed

lemma read_chain_rep:
  assumes "rep s m" and "m t = Some c"
  shows "read_chain s t cb0 = Some (OK, Some c)"
proof -
  from assms have v: "ctl_inv s" "sb_ok (super s)" "blk_ok (super s) t c"
    "blk_pos (super s) t + CHAIN_SIZE \<le> length (ctl_view s)"
    "slice (blk_pos (super s) t) CHAIN_SIZE (ctl_view s) = enc_chain (disk_chain (mtg_swapped s) c)"
    by (auto simp: rep_def ctl_ok_def blocks_in_def)
  then have r: "1 \<le> t" "t \<le> ms_highest (super s)" and c: "chain_ok c" by (simp_all add: blk_ok_def)
  note b = blk_range [OF v(2) r]
  have "ctl_read s (int (blk_pos (super s) t)) (int CHAIN_SIZE) = Some (enc_chain (disk_chain (mtg_swapped s) c))"
    using ctl_read_view [OF v(1) _ v(4) b(4)] v(5) by (simp add: mtg_layout)
  moreover have "(if mtg_swapped s then swap_chain (disk_chain (mtg_swapped s) c) else disk_chain (mtg_swapped s) c) = c"
    using c by (simp add: disk_chain_def)
  moreover have "blk_pos (super s) t \<noteq> 0" using b(2) by (simp add: mtg_layout)
  ultimately show ?thesis
    using c v(3) by (simp add: read_chain_def b(1) blk_ok_def dec_enc_chain Let_def split: option.split)
qed

lemma read_chain_none:
  assumes "ms_lowest (super s) = 1" and "t < 1 \<or> ms_highest (super s) < t"
  shows "read_chain s t cb0 = Some (NO_SUCH_TRN, cb0)"
  using assms by (auto simp: read_chain_def chain_addr_def)

lemma write_chain_rep:
  assumes "rep s m" and "blk_ok (super s) t c"
  shows "\<exists>s'. write_chain s c = Some (OK, s') \<and> rep s' (m(t \<mapsto> c)) \<and> same_head s s'"
proof -
  from assms have v: "ctl_ok s" "sb_ok (super s)" "blocks_in (ctl_view s) (mtg_swapped s) (super s) m"
    and r: "1 \<le> t" "t \<le> ms_highest (super s)" and c: "chain_ok c" and t: "cb_current c = t"
    by (auto simp: rep_def blk_ok_def)
  note b = blk_range [OF v(2) r]
  define p where "p = blk_pos (super s) t"
  define e where "e = enc_chain (disk_chain (mtg_swapped s) c)"
  have le: "length e = CHAIN_SIZE" "e \<noteq> []"
    by (simp_all add: e_def) (metis length_enc_structs(2) CHAIN_SIZE_def list.size(3) zero_neq_numeral)
  from ctl_write_view [OF v(1) le(2), of p] b(4) le(1) obtain s' where
    w: "ctl_write s (int p) (int CHAIN_SIZE) e = Some (int CHAIN_SIZE, s')"
    and s': "ctl_ok s'" "ctl_frame s s'" and wr: "written (ctl_view s) p e (ctl_view s')"
    by (auto simp: p_def)
  note f = ctl_frame_fields [OF s'(2)]
  have p0: "blk_pos (super s) t \<noteq> 0" using b(2) by (simp add: mtg_layout)
  have "write_chain s c = Some (OK, s')"
    using w p0 by (simp add: write_chain_def t b(1) Let_def p_def e_def disk_chain_def)
  moreover have "blocks_in (ctl_view s') (mtg_swapped s) (super s) (m(t \<mapsto> c))"
    unfolding blocks_in_def
  proof (intro allI impI)
    fix u d assume d: "(m(t \<mapsto> c)) u = Some d"
    show "blk_ok (super s) u d \<and> blk_pos (super s) u + CHAIN_SIZE \<le> length (ctl_view s') \<and>
        slice (blk_pos (super s) u) CHAIN_SIZE (ctl_view s') = enc_chain (disk_chain (mtg_swapped s) d)"
    proof (cases "u = t")
      case True
      with d assms(2) written_length [OF wr] written_same [OF wr] le show ?thesis
        by (simp add: p_def e_def)
    next
      case False
      with d v(3) have u: "blk_ok (super s) u d" "blk_pos (super s) u + CHAIN_SIZE \<le> length (ctl_view s)"
        "slice (blk_pos (super s) u) CHAIN_SIZE (ctl_view s) = enc_chain (disk_chain (mtg_swapped s) d)"
        by (auto simp: blocks_in_def)
      from u(1) have "1 \<le> u" by (simp add: blk_ok_def)
      from blk_disjoint [OF v(2) this r(1) False] written_other [OF wr _ u(2)] u written_length [OF wr] le
      show ?thesis by (auto simp: p_def)
    qed
  qed
  moreover have "same_head s s'"
    unfolding same_head_def
  proof (intro conjI allI impI)
    fix q n assume "q + n \<le> nat (ms_chain_start (super s)) \<and> q + n \<le> length (ctl_view s)"
    with b(3) show "slice q n (ctl_view s') = slice q n (ctl_view s)"
      using written_other [OF wr, of q n] by (simp add: p_def)
  qed (use s' written_length [OF wr] in auto)
  ultimately show ?thesis using s'(1) v f by (auto simp: rep_def)
qed

subsection \<open>The superblock and its strings\<close>

definition disk_super :: "bool \<Rightarrow> mtg_super \<Rightarrow> mtg_super" where
  "disk_super sw sb = (if sw then swap_super sb else sb)"

definition string_area :: "mtg_super \<Rightarrow> int \<Rightarrow> int \<Rightarrow> string \<Rightarrow> bool" where
  "string_area sb addr len str \<longleftrightarrow> c_ok str \<and> len = int (length str) + 1 \<and> int SUPER_SIZE \<le> addr \<and>
     addr + len \<le> ms_chain_start sb"

text \<open>A superblock whose strings lie between it and the first block, one not over the other.\<close>

definition names_ok :: "mtg_super \<Rightarrow> string \<Rightarrow> string \<Rightarrow> bool" where
  "names_ok sb ln ch \<longleftrightarrow> ms_unique sb = MTG_SUPER_UNIQUE \<and> ms_version sb = MTG_SUPER_1 \<and>
     string_area sb (ms_long_name_addr sb) (ms_long_name_len sb) ln \<and>
     string_area sb (ms_chairman_addr sb) (ms_chairman_len sb) ch \<and>
     (ms_long_name_addr sb + ms_long_name_len sb \<le> ms_chairman_addr sb \<or>
      ms_chairman_addr sb + ms_chairman_len sb \<le> ms_long_name_addr sb)"

definition string_in :: "bytes \<Rightarrow> int \<Rightarrow> string \<Rightarrow> bool" where
  "string_in v addr str \<longleftrightarrow> nat addr + length str + 1 \<le> length v \<and>
     slice (nat addr) (length str + 1) v = str @ [NUL]"

definition head_in :: "bytes \<Rightarrow> bool \<Rightarrow> mtg_super \<Rightarrow> string \<Rightarrow> string \<Rightarrow> bool" where
  "head_in v sw sb ln ch \<longleftrightarrow> SUPER_SIZE \<le> length v \<and> slice 0 SUPER_SIZE v = enc_super (disk_super sw sb) \<and>
     string_in v (ms_long_name_addr sb) ln \<and> string_in v (ms_chairman_addr sb) ch"

text \<open>A control file that holds the superblock, the strings and the blocks.\<close>

definition mtg_in :: "bytes \<Rightarrow> bool \<Rightarrow> mtg_super \<Rightarrow> string \<Rightarrow> string \<Rightarrow> chains \<Rightarrow> bool" where
  "mtg_in v sw sb ln ch m \<longleftrightarrow> sb_ok sb \<and> names_ok sb ln ch \<and> head_in v sw sb ln ch \<and> blocks_in v sw sb m"

lemma chain_start_limit: "sb_ok sb \<Longrightarrow> 0 \<le> ms_chain_start sb \<and> nat (ms_chain_start sb) \<le> ALIMIT"
  by (auto simp: sb_ok_def mtg_layout ALIMIT_def)

lemma swap_unique: "ms_unique (swap_super sb) = MTG_SUPER_UNIQUE_SWAP" if "ms_unique sb = MTG_SUPER_UNIQUE"
  using that by (simp add: swap_super_def mtg_consts swap_32_def)

lemma read_string_in:
  assumes "ctl_inv s" and "sb_ok sb" and "string_area sb addr len str" and "string_in (ctl_view s) addr str"
  shows "ctl_read s addr len = Some (str @ [NUL])"
proof -
  from chain_start_limit [OF assms(2)] assms(3) have a: "nat addr + (length str + 1) \<le> ALIMIT" "0 \<le> addr"
    "len = int (length str + 1)"
    by (auto simp: string_area_def)
  from ctl_read_view [OF assms(1) _ _ a(1)] assms(4) a(2,3) show ?thesis
    by (simp add: string_in_def)
qed

definition with_super :: "mtg_super \<Rightarrow> string \<Rightarrow> string \<Rightarrow> srv \<Rightarrow> srv" where
  "with_super sb ln ch s = s\<lparr>super := sb, super_long_name := Some (ln @ [NUL]), super_chairman := Some (ch @ [NUL])\<rparr>"

lemma ctl_read_with [simp]:
  "ctl_read (s\<lparr>super := sb\<rparr>) = ctl_read s" "ctl_read (with_super sb ln ch s) = ctl_read s"
  by (auto simp: ctl_read_def with_super_def fun_eq_iff)

lemma with_super_fields [simp]:
  "super (with_super sb ln ch s) = sb" "super_long_name (with_super sb ln ch s) = Some (ln @ [NUL])"
  "super_chairman (with_super sb ln ch s) = Some (ch @ [NUL])"
  "fs (with_super sb ln ch s) = fs s" "nuclear (with_super sb ln ch s) = nuclear s"
  "u_control_f (with_super sb ln ch s) = u_control_f s" "u_trn_f (with_super sb ln ch s) = u_trn_f s"
  "mtg_swapped (with_super sb ln ch s) = mtg_swapped s" "a_control_f (with_super sb ln ch s) = a_control_f s"
  "no_nuke (with_super sb ln ch s) = no_nuke s"
  "ctl_view (with_super sb ln ch s) = ctl_view s" "ctl_inv (with_super sb ln ch s) = ctl_inv s"
  "ctl_ok (with_super sb ln ch s) = ctl_ok s"
  by (simp_all add: with_super_def ctl_view_def ctl_inv_def ctl_ok_def)

lemma read_super_in:
  assumes "ctl_inv s" and "mtg_in (ctl_view s) (mtg_swapped s) sb ln ch m"
  shows "read_super s = Some (OK, with_super sb ln ch s)"
proof -
  define d where "d = disk_super (mtg_swapped s) sb"
  from assms(2) have ok: "sb_ok sb" "super_ok sb" "super_ok d" "names_ok sb ln ch"
    and h: "head_in (ctl_view s) (mtg_swapped s) sb ln ch"
    by (auto simp: mtg_in_def sb_ok_def d_def disk_super_def)
  have "ctl_read s (int 0) (int SUPER_SIZE) = Some (enc_super d)"
    using ctl_read_view [OF assms(1), of SUPER_SIZE 0] h by (simp add: head_in_def d_def mtg_layout ALIMIT_def)
  then have b: "ctl_read s 0 (int SUPER_SIZE) = Some (enc_super d)" by simp
  have st: "ctl_read s (ms_long_name_addr sb) (ms_long_name_len sb) = Some (ln @ [NUL])"
    "ctl_read s (ms_chairman_addr sb) (ms_chairman_len sb) = Some (ch @ [NUL])"
    using read_string_in [OF assms(1) ok(1)] ok(4) h by (simp_all add: names_ok_def head_in_def)
  have sw: "mtg_swapped s \<Longrightarrow> ms_unique d = MTG_SUPER_UNIQUE_SWAP" "mtg_swapped s \<Longrightarrow> swap_super d = sb"
    "\<not> mtg_swapped s \<Longrightarrow> d = sb"
    using ok(2,4) swap_unique [of sb] by (simp_all add: d_def disk_super_def names_ok_def)
  have v: "ms_version sb = MTG_SUPER_1" "ms_unique sb = MTG_SUPER_UNIQUE" using ok(4) by (simp_all add: names_ok_def)
  show ?thesis
    by (cases "mtg_swapped s") (simp_all add: read_super_def b st sw v dec_enc_super ok with_super_def)
qed

lemma blocks_in_written:
  assumes "blocks_in v sw sb m" and "sb_ok sb" and "written v p b v'" and "p + length b \<le> nat (ms_chain_start sb)"
  shows "blocks_in v' sw sb m"
  unfolding blocks_in_def
proof (intro allI impI)
  fix t c assume "m t = Some c"
  with assms(1) have c: "blk_ok sb t c" "blk_pos sb t + CHAIN_SIZE \<le> length v"
    "slice (blk_pos sb t) CHAIN_SIZE v = enc_chain (disk_chain sw c)" by (auto simp: blocks_in_def)
  then have "nat (ms_chain_start sb) \<le> blk_pos sb t" using blk_range(3) [OF assms(2)] by (simp add: blk_ok_def)
  with written_other [OF assms(3) _ c(2)] written_length [OF assms(3)] c assms(4)
  show "blk_ok sb t c \<and> blk_pos sb t + CHAIN_SIZE \<le> length v' \<and>
      slice (blk_pos sb t) CHAIN_SIZE v' = enc_chain (disk_chain sw c)" by auto
qed

lemma string_in_written:
  assumes "string_in v addr str" and "written v p b v'"
    and "nat addr + length str + 1 \<le> p \<or> p + length b \<le> nat addr"
  shows "string_in v' addr str"
  using assms(1) written_other [OF assms(2), of "nat addr" "length str + 1"] written_length [OF assms(2)] assms(3)
  by (auto simp: string_in_def)

lemma write_string:
  assumes "ctl_ok s" and "sb_ok sb" and "string_area sb addr len str"
  shows "\<exists>s'. ctl_write s addr len (str @ [NUL]) = Some (len, s') \<and> ctl_ok s' \<and> ctl_frame s s' \<and>
    written (ctl_view s) (nat addr) (str @ [NUL]) (ctl_view s') \<and> string_in (ctl_view s') addr str"
proof -
  from chain_start_limit [OF assms(2)] assms(3) have a: "nat addr + length (str @ [NUL]) \<le> ALIMIT" "0 \<le> addr"
    "len = int (length (str @ [NUL]))"
    by (auto simp: string_area_def)
  from ctl_write_view [OF assms(1) _ a(1)] a(2,3) show ?thesis
    by (fastforce simp: string_in_def dest: written_same written_length)
qed

lemma write_super_in:
  assumes "ctl_ok s" and "sb_ok (super s)" and "names_ok (super s) ln ch"
    and "super_long_name s = Some (ln @ [NUL])" and "super_chairman s = Some (ch @ [NUL])"
    and "blocks_in (ctl_view s) (mtg_swapped s) (super s) m"
  shows "\<exists>s1. write_super s = Some (s1\<lparr>super_chairman := None, super_long_name := None,
      super := (disk_super (mtg_swapped s) (super s))\<lparr>ms_unique := 0\<rparr>\<rparr>) \<and> ctl_ok s1 \<and> ctl_frame s s1 \<and>
      mtg_in (ctl_view s1) (mtg_swapped s) (super s) ln ch m"
proof -
  define sb where "sb = super s"
  define e where "e = enc_super (disk_super (mtg_swapped s) sb)"
  have sb: "sb_ok sb" "names_ok sb ln ch" using assms(2,3) by (simp_all add: sb_def)
  then have a: "string_area sb (ms_long_name_addr sb) (ms_long_name_len sb) ln"
    "string_area sb (ms_chairman_addr sb) (ms_chairman_len sb) ch"
    and d: "ms_long_name_addr sb + ms_long_name_len sb \<le> ms_chairman_addr sb \<or>
      ms_chairman_addr sb + ms_chairman_len sb \<le> ms_long_name_addr sb" by (simp_all add: names_ok_def)
  have le: "length e = SUPER_SIZE" "e \<noteq> []"
    by (simp_all add: e_def) (metis length_enc_structs(1) SUPER_SIZE_def list.size(3) zero_neq_numeral)
  obtain s1 where s1: "ctl_write s 0 (int SUPER_SIZE) e = Some (int SUPER_SIZE, s1)" "ctl_ok s1" "ctl_frame s s1"
    "written (ctl_view s) 0 e (ctl_view s1)"
    using ctl_write_view [OF assms(1) le(2), of 0] le by (auto simp: mtg_layout ALIMIT_def)
  obtain s2 where s2: "ctl_write s1 (ms_long_name_addr sb) (ms_long_name_len sb) (ln @ [NUL]) = Some (ms_long_name_len sb, s2)"
    "ctl_ok s2" "ctl_frame s1 s2" "written (ctl_view s1) (nat (ms_long_name_addr sb)) (ln @ [NUL]) (ctl_view s2)"
    "string_in (ctl_view s2) (ms_long_name_addr sb) ln"
    using write_string [OF s1(2) sb(1) a(1)] by blast
  obtain s3 where s3: "ctl_write s2 (ms_chairman_addr sb) (ms_chairman_len sb) (ch @ [NUL]) = Some (ms_chairman_len sb, s3)"
    "ctl_ok s3" "ctl_frame s2 s3" "written (ctl_view s2) (nat (ms_chairman_addr sb)) (ch @ [NUL]) (ctl_view s3)"
    "string_in (ctl_view s3) (ms_chairman_addr sb) ch"
    using write_string [OF s2(2) sb(1) a(2)] by blast
  have c: "c_string (super_chairman s) = Some ch" "c_string (super_long_name s) = Some ln"
    using a assms(4,5) by (simp_all add: c_string_def string_area_def)
  have l: "ms_chairman_len sb = int (length ch) + 1" "ms_long_name_len sb = int (length ln) + 1"
    using a by (simp_all add: string_area_def)
  have "write_super s = Some (s3\<lparr>super_chairman := None, super_long_name := None,
      super := (disk_super (mtg_swapped s) sb)\<lparr>ms_unique := 0\<rparr>\<rparr>)"
    using s1(1) s2(1) s3(1) unfolding e_def disk_super_def
    by (simp add: write_super_def c l [symmetric] flip: sb_def)
  moreover have "mtg_in (ctl_view s3) (mtg_swapped s) sb ln ch m"
  proof -
    have S: "SUPER_SIZE \<le> nat (ms_long_name_addr sb)" "SUPER_SIZE \<le> nat (ms_chairman_addr sb)"
      "nat (ms_long_name_addr sb) + length (ln @ [NUL]) \<le> nat (ms_chain_start sb)"
      "nat (ms_chairman_addr sb) + length (ch @ [NUL]) \<le> nat (ms_chain_start sb)"
      "SUPER_SIZE \<le> nat (ms_chain_start sb)"
      using a by (auto simp: string_area_def mtg_layout)
    have D: "nat (ms_long_name_addr sb) + length ln + 1 \<le> nat (ms_chairman_addr sb) \<or>
        nat (ms_chairman_addr sb) + length (ch @ [NUL]) \<le> nat (ms_long_name_addr sb)"
      using a d by (auto simp: string_area_def)
    have "string_in (ctl_view s3) (ms_long_name_addr sb) ln"
      by (rule string_in_written [OF s2(5) s3(4) D])
    moreover have "slice 0 SUPER_SIZE (ctl_view s1) = e" "SUPER_SIZE \<le> length (ctl_view s1)"
      using written_same [OF s1(4)] written_length [OF s1(4)] le by simp_all
    then have "slice 0 SUPER_SIZE (ctl_view s3) = e" "SUPER_SIZE \<le> length (ctl_view s3)"
      using written_other [OF s2(4), of 0 SUPER_SIZE] written_length [OF s2(4)]
        written_other [OF s3(4), of 0 SUPER_SIZE] written_length [OF s3(4)] S by simp_all
    moreover have "blocks_in (ctl_view s3) (mtg_swapped s) sb m"
      using assms(6) blocks_in_written [OF blocks_in_written [OF blocks_in_written [OF _ sb(1) s1(4)] sb(1) s2(4)] sb(1) s3(4)]
        S le by (simp add: sb_def)
    ultimately show ?thesis using sb s3(5) by (simp add: mtg_in_def head_in_def e_def)
  qed
  ultimately show ?thesis
    using s3(2) ctl_frame_trans [OF ctl_frame_trans [OF s1(3) s2(3)] s3(3)] by (auto simp: sb_def)
qed

end
