(* ===== verification/Edit.thy ===== *)
theory Edit
  imports Layout
begin

text \<open>
  The frame of an operation that changes the meeting: \<open>begin_atomic\<close> and \<open>read_super\<close> at the
  start, \<open>write_super\<close> and \<open>end_atomic\<close> or \<open>core_abort\<close> at the end, and \<open>relink\<close> in between.  An
  operation that ends well leaves a control file which holds the new map of blocks; one that
  aborts leaves the one it found.
\<close>

subsection \<open>Frames\<close>

text \<open>What an operation leaves of the rest of the state.\<close>

definition op_frame :: "srv \<Rightarrow> srv \<Rightarrow> bool" where
  "op_frame s s' \<longleftrightarrow> s' = s\<lparr>fs := fs s', a_control_f := a_control_f s', nuclear := nuclear s', super := super s',
       super_chairman := super_chairman s', super_long_name := super_long_name s'\<rparr> \<and>
     other_files (fs s) (u_control_f s) (fs s')"

lemma op_frame_refl [simp]: "op_frame s s"
  by (simp add: op_frame_def)

lemma op_frame_fields:
  assumes "op_frame s s'"
  shows "us s' = us s" "tf s' = tf s" "current_mtg s' = current_mtg s" "u_trn_f s' = u_trn_f s"
    "u_control_f s' = u_control_f s" "abort_file s' = abort_file s" "read_lock s' = read_lock s"
    "mtg_swapped s' = mtg_swapped s" "mtg_acl s' = mtg_acl s" "has_privs s' = has_privs s"
    "no_nuke s' = no_nuke s" "rpc_caller s' = rpc_caller s" "last_acl_mod s' = last_acl_mod s"
    "other_files (fs s) (u_control_f s) (fs s')"
proof -
  from assms have e: "s' = s\<lparr>fs := fs s', a_control_f := a_control_f s', nuclear := nuclear s', super := super s',
       super_chairman := super_chairman s', super_long_name := super_long_name s'\<rparr>" by (simp add: op_frame_def)
  show "us s' = us s" "tf s' = tf s" "current_mtg s' = current_mtg s" "u_trn_f s' = u_trn_f s"
    "u_control_f s' = u_control_f s" "abort_file s' = abort_file s" "read_lock s' = read_lock s"
    "mtg_swapped s' = mtg_swapped s" "mtg_acl s' = mtg_acl s" "has_privs s' = has_privs s"
    "no_nuke s' = no_nuke s" "rpc_caller s' = rpc_caller s" "last_acl_mod s' = last_acl_mod s"
    by (subst e, simp)+
qed (use assms in \<open>simp add: op_frame_def\<close>)

lemma op_frame_trans [trans]:
  assumes a: "op_frame s s'" and b: "op_frame s' s''"
  shows "op_frame s s''"
proof -
  have "s'' = s'\<lparr>fs := fs s'', a_control_f := a_control_f s'', nuclear := nuclear s'', super := super s'',
       super_chairman := super_chairman s'', super_long_name := super_long_name s''\<rparr>" using b by (simp add: op_frame_def)
  also have "\<dots> = (s\<lparr>fs := fs s', a_control_f := a_control_f s', nuclear := nuclear s', super := super s',
       super_chairman := super_chairman s', super_long_name := super_long_name s'\<rparr>)
      \<lparr>fs := fs s'', a_control_f := a_control_f s'', nuclear := nuclear s'', super := super s'',
       super_chairman := super_chairman s'', super_long_name := super_long_name s''\<rparr>"
    using a unfolding op_frame_def by metis
  finally show ?thesis
    using op_frame_fields(14) [OF a] op_frame_fields(14) [OF b] op_frame_fields(5) [OF a]
    unfolding op_frame_def by (auto intro: other_files_trans)
qed

lemma ctl_frame_op:
  assumes "ctl_frame s s'"
  shows "op_frame s s'"
proof -
  obtain f a where e: "s' = s\<lparr>fs := f, a_control_f := a\<rparr>" and o: "other_files (fs s) (u_control_f s) (fs s')"
    using assms by (auto simp: ctl_frame_def)
  from o show ?thesis by (simp add: e op_frame_def)
qed

lemma op_frame_steps [simp]:
  "op_frame s (begin_atomic s)" "op_frame s (with_super sb ln ch s)" "op_frame s (s\<lparr>super := sb\<rparr>)"
  "op_frame s (s\<lparr>super_chairman := x, super_long_name := y, super := sb\<rparr>)" "op_frame s (forget_super s)"
  by (simp_all add: op_frame_def begin_atomic_def with_super_def forget_super_def)

lemma write_blocks_other_files: "other_files f d (write_blocks f d bs)"
  using write_blocks_frame [of f d bs] fdata_write_blocks_other [of _ d f bs] by (simp add: other_files_def)

lemma end_atomic_frame:
  assumes "ctl_inv s" and "nuclear s \<longleftrightarrow> \<not> no_nuke s"
  shows "op_frame s (end_atomic s)"
  using assms write_blocks_other_files
  by (simp add: op_frame_def end_atomic_def ctl_inv_def aclose_def)

subsection \<open>The start and the end of an operation\<close>

text \<open>Between operations: the control file of the open meeting holds the superblock and the blocks.\<close>

definition at_rest :: "srv \<Rightarrow> mtg_super \<Rightarrow> string \<Rightarrow> string \<Rightarrow> chains \<Rightarrow> bool" where
  "at_rest s sb ln ch m \<longleftrightarrow> \<not> nuclear s \<and> faults (fs s) = [] \<and>
     mtg_in (fdata (fs s) (u_control_f s)) (mtg_swapped s) sb ln ch m"

text \<open>Inside an operation: the superblock is in memory.\<close>

definition editing :: "srv \<Rightarrow> string \<Rightarrow> string \<Rightarrow> chains \<Rightarrow> bool" where
  "editing s ln ch m \<longleftrightarrow> rep s m \<and> names_ok (super s) ln ch \<and> (nuclear s \<longleftrightarrow> \<not> no_nuke s) \<and>
     super_long_name s = Some (ln @ [NUL]) \<and> super_chairman s = Some (ch @ [NUL])"

lemma begin_atomic_view:
  assumes "\<not> nuclear s" and "faults (fs s) = []"
  shows "ctl_ok (begin_atomic s)" and "ctl_view (begin_atomic s) = fdata (fs s) (u_control_f s)"
    and "nuclear (begin_atomic s) \<longleftrightarrow> \<not> no_nuke s"
  using assms by (auto simp: begin_atomic_def ctl_ok_def ctl_inv_def ctl_view_def af_ok_aopen aview_aopen)
    (simp_all add: aopen_def)

lemma edit_begin:
  assumes "at_rest s sb ln ch m"
  defines "s1 \<equiv> with_super sb ln ch (begin_atomic s)"
  shows "read_super (begin_atomic s) = Some (OK, s1)" and "editing s1 ln ch m" and "op_frame s s1" and "super s1 = sb"
proof -
  from assms(1) have r: "\<not> nuclear s" "faults (fs s) = []"
    and m: "mtg_in (fdata (fs s) (u_control_f s)) (mtg_swapped s) sb ln ch m" by (simp_all add: at_rest_def)
  note b = begin_atomic_view [OF r]
  have f: "mtg_swapped (begin_atomic s) = mtg_swapped s" "no_nuke (begin_atomic s) = no_nuke s"
    by (simp_all add: begin_atomic_def)
  show "read_super (begin_atomic s) = Some (OK, s1)"
    using read_super_in [of "begin_atomic s" sb ln ch m] b m by (simp add: f ctl_ok_def s1_def)
  show "editing s1 ln ch m"
    using b m by (simp add: editing_def rep_def s1_def f mtg_in_def)
  show "op_frame s s1"
    unfolding s1_def by (rule op_frame_trans [of _ "begin_atomic s"]) simp_all
  show "super s1 = sb" by (simp add: s1_def)
qed

lemma edit_end:
  assumes "editing s ln ch m"
  shows "\<exists>s1. write_super s = Some s1 \<and> at_rest (end_atomic s1) (super s) ln ch m \<and> op_frame s (end_atomic s1)"
proof -
  from assms have e: "ctl_ok s" "sb_ok (super s)" "names_ok (super s) ln ch" "super_long_name s = Some (ln @ [NUL])"
    "super_chairman s = Some (ch @ [NUL])" "blocks_in (ctl_view s) (mtg_swapped s) (super s) m"
    and n: "nuclear s \<longleftrightarrow> \<not> no_nuke s" by (auto simp: editing_def rep_def)
  from write_super_in [OF e] obtain s1 where
    w: "write_super s = Some (s1\<lparr>super_chairman := None, super_long_name := None,
      super := (disk_super (mtg_swapped s) (super s))\<lparr>ms_unique := 0\<rparr>\<rparr>)" (is "_ = Some ?s2")
    and s1: "ctl_ok s1" "ctl_frame s s1" "mtg_in (ctl_view s1) (mtg_swapped s) (super s) ln ch m" by blast
  note f = ctl_frame_fields [OF s1(2)]
  have o: "op_frame s ?s2" by (rule op_frame_trans [OF ctl_frame_op [OF s1(2)] op_frame_steps(4)])
  have i: "ctl_ok ?s2" "ctl_view ?s2 = ctl_view s1" using s1(1) by (simp_all add: ctl_ok_def ctl_inv_def ctl_view_def)
  have "op_frame ?s2 (end_atomic ?s2)"
    by (rule end_atomic_frame) (use i(1) n in \<open>simp_all add: ctl_ok_def f\<close>)
  from op_frame_trans [OF o this] have fr: "op_frame s (end_atomic ?s2)" .
  have "fdata (fs (end_atomic ?s2)) (u_control_f s) = ctl_view s1 \<and> \<not> nuclear (end_atomic ?s2)"
  proof (cases "no_nuke s")
    case True
    with n f(5,7,17) show ?thesis by (simp add: end_atomic_def ctl_view_def)
  next
    case False
    with s1(1) n f(5,7,17) aclose_view [of "a_control_f s1" "fs s1"] show ?thesis
      by (simp add: end_atomic_def ctl_view_def ctl_ok_def ctl_inv_def)
  qed
  moreover have "faults (fs (end_atomic ?s2)) = []"
    using op_frame_fields(14) [OF fr] e(1) by (simp add: other_files_def ctl_ok_def)
  ultimately have "at_rest (end_atomic ?s2) (super s) ln ch m"
    using s1(3) op_frame_fields [OF fr] by (simp add: at_rest_def)
  with w fr show ?thesis by blast
qed

end
