(* ===== verification/Links.thy ===== *)
theory Links
  imports Layout
begin

text \<open>
  The transactions of a meeting as a set.  The chain blocks link the transactions that are not
  deleted into one list in order of their numbers, and those of each chain into a list of their
  own; the superblock holds the ends of the first, the block with the number of the chain those of
  the second.  \<open>mtg_inv\<close> states this for a map of blocks; the lemmas show that taking a block out
  of its lists, putting it back and adding one at the end keep it.  All numbers are positive, and
  0 stands for no transaction.
\<close>

subsection \<open>Neighbours in a set of numbers\<close>

definition before :: "int set \<Rightarrow> int \<Rightarrow> int \<Rightarrow> bool" where
  "before S t p \<longleftrightarrow> (p \<noteq> 0 \<longrightarrow> p \<in> S \<and> p < t) \<and> (\<forall>x \<in> S. x < t \<longrightarrow> p \<noteq> 0 \<and> x \<le> p)"

definition after :: "int set \<Rightarrow> int \<Rightarrow> int \<Rightarrow> bool" where
  "after S t n \<longleftrightarrow> (n \<noteq> 0 \<longrightarrow> n \<in> S \<and> t < n) \<and> (\<forall>x \<in> S. t < x \<longrightarrow> n \<noteq> 0 \<and> n \<le> x)"

definition least :: "int set \<Rightarrow> int \<Rightarrow> bool" where
  "least S f \<longleftrightarrow> (f \<noteq> 0 \<longrightarrow> f \<in> S) \<and> (\<forall>x \<in> S. f \<noteq> 0 \<and> f \<le> x)"

definition greatest :: "int set \<Rightarrow> int \<Rightarrow> bool" where
  "greatest S l \<longleftrightarrow> (l \<noteq> 0 \<longrightarrow> l \<in> S) \<and> (\<forall>x \<in> S. l \<noteq> 0 \<and> x \<le> l)"

lemmas order_defs = before_def after_def least_def greatest_def

text \<open>Elimination of the definitions, one number at a time.\<close>

lemma beforeD:
  assumes "before S t p"
  shows "p \<noteq> 0 \<Longrightarrow> p \<in> S" and "p \<noteq> 0 \<Longrightarrow> p < t" and "x \<in> S \<Longrightarrow> x < t \<Longrightarrow> p \<noteq> 0" and "x \<in> S \<Longrightarrow> x < t \<Longrightarrow> x \<le> p"
  using assms by (simp_all add: before_def)

lemma afterD:
  assumes "after S t n"
  shows "n \<noteq> 0 \<Longrightarrow> n \<in> S" and "n \<noteq> 0 \<Longrightarrow> t < n" and "x \<in> S \<Longrightarrow> t < x \<Longrightarrow> n \<noteq> 0" and "x \<in> S \<Longrightarrow> t < x \<Longrightarrow> n \<le> x"
  using assms by (simp_all add: after_def)

lemma leastD:
  assumes "least S f"
  shows "f \<noteq> 0 \<Longrightarrow> f \<in> S" and "x \<in> S \<Longrightarrow> f \<noteq> 0" and "x \<in> S \<Longrightarrow> f \<le> x"
  using assms by (simp_all add: least_def)

lemma greatestD:
  assumes "greatest S l"
  shows "l \<noteq> 0 \<Longrightarrow> l \<in> S" and "x \<in> S \<Longrightarrow> l \<noteq> 0" and "x \<in> S \<Longrightarrow> x \<le> l"
  using assms by (simp_all add: greatest_def)

text \<open>How neighbours and ends change when a number leaves the set.\<close>

lemma remove_before:
  assumes "t \<in> S" and "0 \<notin> S" and "before S t pt" and "after S t nt" and "before S x p" and "x \<in> S" and "x \<noteq> t"
  shows "before (S - {t}) x (if x = nt then pt else p)"
proof (cases "x = nt")
  case True
  with assms(2,6) have "t < x" and n: "\<And>y. y \<in> S \<Longrightarrow> t < y \<Longrightarrow> x \<le> y"
    using afterD(2,4) [OF assms(4)] by auto
  have "pt \<noteq> 0 \<and> y \<le> pt" if "y \<in> S - {t}" "y < x" for y
    using that n [of y] beforeD(3,4) [OF assms(3), of y] by fastforce
  with \<open>t < x\<close> True beforeD(1,2) [OF assms(3)] show ?thesis by (auto simp: before_def)
next
  case False
  have "p \<noteq> t"
  proof
    assume p: "p = t"
    with assms(1,2) have "t \<noteq> 0" by auto
    with p have "t < x" using beforeD(2) [OF assms(5)] by simp
    with assms(6) have n: "nt \<noteq> 0" "nt \<le> x" using afterD(3,4) [OF assms(4)] by auto
    with False have "nt \<le> t" using beforeD(4) [OF assms(5), of nt] afterD(1) [OF assms(4)] p by simp
    with n(1) show False using afterD(2) [OF assms(4)] by simp
  qed
  with False assms(5) show ?thesis by (auto simp: before_def)
qed

lemma remove_after:
  assumes "t \<in> S" and "0 \<notin> S" and "before S t pt" and "after S t nt" and "after S x n" and "x \<in> S" and "x \<noteq> t"
  shows "after (S - {t}) x (if x = pt then nt else n)"
proof (cases "x = pt")
  case True
  with assms(2,6) have "x < t" and n: "\<And>y. y \<in> S \<Longrightarrow> y < t \<Longrightarrow> y \<le> x"
    using beforeD(2,4) [OF assms(3)] by auto
  have "nt \<noteq> 0 \<and> nt \<le> y" if "y \<in> S - {t}" "x < y" for y
    using that n [of y] afterD(3,4) [OF assms(4), of y] by fastforce
  with \<open>x < t\<close> True afterD(1,2) [OF assms(4)] show ?thesis by (auto simp: after_def)
next
  case False
  have "n \<noteq> t"
  proof
    assume p: "n = t"
    with assms(1,2) have "t \<noteq> 0" by auto
    with p have "x < t" using afterD(2) [OF assms(5)] by simp
    with assms(6) have n: "pt \<noteq> 0" "x \<le> pt" using beforeD(3,4) [OF assms(3)] by auto
    with False have "t \<le> pt" using afterD(4) [OF assms(5), of pt] beforeD(1) [OF assms(3)] p by simp
    with n(1) show False using beforeD(2) [OF assms(3)] by simp
  qed
  with False assms(5) show ?thesis by (auto simp: after_def)
qed

lemma remove_least:
  assumes "t \<in> S" and "\<forall>x \<in> S. 0 < x" and "before S t pt" and "after S t nt" and "least S f"
  shows "least (S - {t}) (if pt = 0 then nt else f)"
proof (cases "pt = 0")
  case True
  have "nt \<noteq> 0 \<and> nt \<le> y" if "y \<in> S - {t}" for y
    using that beforeD(3) [OF assms(3), of y] afterD(3,4) [OF assms(4), of y] True by fastforce
  with True afterD(1,2) [OF assms(4)] show ?thesis by (auto simp: least_def)
next
  case False
  have "f \<noteq> t" using beforeD(1,2) [OF assms(3) False] leastD(3) [OF assms(5), of pt] by auto
  with False assms(5) show ?thesis by (auto simp: least_def)
qed

lemma remove_greatest:
  assumes "t \<in> S" and "\<forall>x \<in> S. 0 < x" and "before S t pt" and "after S t nt" and "greatest S l"
  shows "greatest (S - {t}) (if nt = 0 then pt else l)"
proof (cases "nt = 0")
  case True
  have "pt \<noteq> 0 \<and> y \<le> pt" if "y \<in> S - {t}" for y
    using that afterD(3) [OF assms(4), of y] beforeD(3,4) [OF assms(3), of y] True by fastforce
  with True beforeD(1,2) [OF assms(3)] show ?thesis by (auto simp: greatest_def)
next
  case False
  have "l \<noteq> t" using afterD(1,2) [OF assms(4) False] greatestD(3) [OF assms(5), of nt] by auto
  with False assms(5) show ?thesis by (auto simp: greatest_def)
qed

text \<open>How they change when a number joins it.\<close>

lemma insert_before:
  assumes "t \<notin> S" and "t \<noteq> 0" and "before S t pt" and "after S t nt" and "before S x p" and "x \<in> S" and "x \<noteq> 0"
  shows "before (insert t S) x (if x = nt then t else p)"
proof (cases "x = nt")
  case True
  with assms(7) have "t < x" and "\<And>y. y \<in> S \<Longrightarrow> y < x \<Longrightarrow> y \<le> t" using afterD(2,4) [OF assms(4)] by fastforce+
  with True assms(2) show ?thesis by (auto simp: before_def)
next
  case False
  have "p \<noteq> 0 \<and> t \<le> p" if "t < x"
  proof -
    have n: "nt \<noteq> 0" "nt \<le> x" using that afterD(3,4) [OF assms(4,6)] by auto
    with False have "nt < x" by simp
    with n(1) show ?thesis using afterD(1,2) [OF assms(4)] beforeD(3,4) [OF assms(5), of nt] by force
  qed
  with False assms(5) show ?thesis by (auto simp: before_def)
qed

lemma insert_after:
  assumes "t \<notin> S" and "t \<noteq> 0" and "before S t pt" and "after S t nt" and "after S x n" and "x \<in> S" and "x \<noteq> 0"
  shows "after (insert t S) x (if x = pt then t else n)"
proof (cases "x = pt")
  case True
  with assms(7) have "x < t" and "\<And>y. y \<in> S \<Longrightarrow> x < y \<Longrightarrow> t \<le> y" using beforeD(2,4) [OF assms(3)] by fastforce+
  with True assms(2) show ?thesis by (auto simp: after_def)
next
  case False
  have "n \<noteq> 0 \<and> n \<le> t" if "x < t"
  proof -
    have n: "pt \<noteq> 0" "x \<le> pt" using that beforeD(3,4) [OF assms(3,6)] by auto
    with False have "x < pt" by simp
    with n(1) show ?thesis using beforeD(1,2) [OF assms(3)] afterD(3,4) [OF assms(5), of pt] by force
  qed
  with False assms(5) show ?thesis by (auto simp: after_def)
qed

lemma insert_least:
  assumes "t \<notin> S" and "t \<noteq> 0" and "before S t pt" and "after S t nt" and "least S f"
  shows "least (insert t S) (if pt = 0 then t else f)"
proof (cases "pt = 0")
  case True
  have "t \<le> y" if "y \<in> S" for y using that beforeD(3) [OF assms(3), of y] True by fastforce
  with True assms(2) show ?thesis by (auto simp: least_def)
next
  case False
  then have "f \<noteq> 0 \<and> f \<le> t"
    using beforeD(1,2) [OF assms(3)] leastD(2,3) [OF assms(5), of pt] by force
  with False assms(5) show ?thesis by (auto simp: least_def)
qed

lemma insert_greatest:
  assumes "t \<notin> S" and "t \<noteq> 0" and "before S t pt" and "after S t nt" and "greatest S l"
  shows "greatest (insert t S) (if nt = 0 then t else l)"
proof (cases "nt = 0")
  case True
  have "y \<le> t" if "y \<in> S" for y using that afterD(3) [OF assms(4), of y] True by fastforce
  with True assms(2) show ?thesis by (auto simp: greatest_def)
next
  case False
  then have "l \<noteq> 0 \<and> t \<le> l"
    using afterD(1,2) [OF assms(4)] greatestD(2,3) [OF assms(5), of nt] by force
  with False assms(5) show ?thesis by (auto simp: greatest_def)
qed

text \<open>Neighbours and ends are unique.\<close>

lemma neighbour_unique:
  "before S t p \<Longrightarrow> before S t q \<Longrightarrow> p = q" "after S t p \<Longrightarrow> after S t q \<Longrightarrow> p = q"
  "least S p \<Longrightarrow> least S q \<Longrightarrow> p = q" "greatest S p \<Longrightarrow> greatest S q \<Longrightarrow> p = q"
  unfolding order_defs by force+

subsection \<open>The invariant of a meeting\<close>

definition live :: "chains \<Rightarrow> int set" where
  "live m = {t. \<exists>c. m t = Some c \<and> \<not> deleted c}"

definition live_chain :: "chains \<Rightarrow> int \<Rightarrow> int set" where
  "live_chain m k = {t. \<exists>c. m t = Some c \<and> \<not> deleted c \<and> cb_trn_chain c = k}"

definition linked :: "chains \<Rightarrow> int \<Rightarrow> chain_blk \<Rightarrow> bool" where
  "linked m t c \<longleftrightarrow> before (live m) t (cb_prev c) \<and> after (live m) t (cb_next c) \<and>
     before (live_chain m (cb_trn_chain c)) t (cb_pref c) \<and> after (live_chain m (cb_trn_chain c)) t (cb_nref c)"

definition chain_ends :: "chains \<Rightarrow> int \<Rightarrow> chain_blk \<Rightarrow> bool" where
  "chain_ends m k c \<longleftrightarrow> least (live_chain m k) (cb_chain_fref c) \<and> greatest (live_chain m k) (cb_chain_lref c)"

definition mtg_inv :: "mtg_super \<Rightarrow> chains \<Rightarrow> bool" where
  "mtg_inv sb m \<longleftrightarrow> dom m = {1 .. ms_highest sb} \<and> 0 \<le> ms_highest_chain sb \<and> ms_highest_chain sb \<le> ms_highest sb \<and>
     (\<forall>t c. m t = Some c \<longrightarrow> (if cb_trn_addr c = 0 then deleted c
        else 1 \<le> cb_trn_chain c \<and> cb_trn_chain c \<le> ms_highest_chain sb)) \<and>
     (\<forall>t c. m t = Some c \<and> \<not> deleted c \<longrightarrow> linked m t c) \<and>
     (\<forall>k c. m k = Some c \<longrightarrow> chain_ends m k c) \<and>
     least (live m) (ms_first sb) \<and> greatest (live m) (ms_last sb)"

definition upd :: "int \<Rightarrow> (chain_blk \<Rightarrow> chain_blk) \<Rightarrow> chains \<Rightarrow> chains" where
  "upd t f m = m(t := map_option f (m t))"

lemma upd_apply: "upd t f m u = (if u = t then map_option f (m t) else m u)"
  by (simp add: upd_def)

lemma dom_upd [simp]: "dom (upd t f m) = dom m"
  by (auto simp: upd_def)

lemma upd_none: "m t = None \<Longrightarrow> upd t f m = m"
  by (auto simp: upd_def)

lemma mtg_inv_positive:
  assumes "mtg_inv sb m"
  shows "m 0 = None" and "\<forall>x \<in> live m. 0 < x" and "\<forall>x \<in> live_chain m k. 0 < x"
    and "0 \<notin> live m" and "0 \<notin> live_chain m k"
proof -
  from assms have d: "dom m = {1 .. ms_highest sb}" by (simp add: mtg_inv_def)
  then have "m x \<noteq> None \<Longrightarrow> 1 \<le> x" for x by (metis atLeastAtMost_iff domI not_None_eq)
  then show "m 0 = None" "\<forall>x \<in> live m. 0 < x" "\<forall>x \<in> live_chain m k. 0 < x" "0 \<notin> live m" "0 \<notin> live_chain m k"
    by (fastforce simp: live_def live_chain_def)+
qed

subsection \<open>Taking a block out and putting one in\<close>

text \<open>
  What \<open>delete_trn\<close> and \<open>retrieve_trn\<close> do to the other blocks when \<open>cb\<close> leaves or joins the lists,
  in the order of the code: \<open>n\<close>, \<open>p\<close>, \<open>nr\<close> and \<open>pr\<close> are what the neighbours are linked to.
\<close>

definition relinked :: "chain_blk \<Rightarrow> int \<Rightarrow> int \<Rightarrow> int \<Rightarrow> int \<Rightarrow> chains \<Rightarrow> chains" where
  "relinked cb n p nr pr m =
     (let m1 = upd (cb_prev cb) (\<lambda>x. x\<lparr>cb_next := n\<rparr>) m;
          m2 = upd (cb_next cb) (\<lambda>x. x\<lparr>cb_prev := p\<rparr>) m1;
          m3 = upd (cb_pref cb) (\<lambda>x. x\<lparr>cb_nref := nr\<rparr>) m2;
          m4 = upd (cb_nref cb) (\<lambda>x. x\<lparr>cb_pref := pr\<rparr>) m3 in
      if cb_nref cb = 0 \<or> cb_pref cb = 0 then
        upd (cb_trn_chain cb) (\<lambda>x.
          let x = (if cb_nref cb = 0 then x\<lparr>cb_chain_lref := pr\<rparr> else x)
          in if cb_pref cb = 0 then x\<lparr>cb_chain_fref := nr\<rparr> else x) m4
      else m4)"

text \<open>The same block by block.\<close>

definition repoint :: "chain_blk \<Rightarrow> int \<Rightarrow> int \<Rightarrow> int \<Rightarrow> int \<Rightarrow> int \<Rightarrow> chain_blk \<Rightarrow> chain_blk" where
  "repoint cb n p nr pr u c = c\<lparr>cb_prev := (if u = cb_next cb then p else cb_prev c),
     cb_next := (if u = cb_prev cb then n else cb_next c),
     cb_pref := (if u = cb_nref cb then pr else cb_pref c),
     cb_nref := (if u = cb_pref cb then nr else cb_nref c),
     cb_chain_fref := (if u = cb_trn_chain cb \<and> cb_pref cb = 0 then nr else cb_chain_fref c),
     cb_chain_lref := (if u = cb_trn_chain cb \<and> cb_nref cb = 0 then pr else cb_chain_lref c)\<rparr>"

lemma repoint_fields [simp]:
  "cb_prev (repoint cb n p nr pr u c) = (if u = cb_next cb then p else cb_prev c)"
  "cb_next (repoint cb n p nr pr u c) = (if u = cb_prev cb then n else cb_next c)"
  "cb_pref (repoint cb n p nr pr u c) = (if u = cb_nref cb then pr else cb_pref c)"
  "cb_nref (repoint cb n p nr pr u c) = (if u = cb_pref cb then nr else cb_nref c)"
  "cb_chain_fref (repoint cb n p nr pr u c) = (if u = cb_trn_chain cb \<and> cb_pref cb = 0 then nr else cb_chain_fref c)"
  "cb_chain_lref (repoint cb n p nr pr u c) = (if u = cb_trn_chain cb \<and> cb_nref cb = 0 then pr else cb_chain_lref c)"
  "cb_flags (repoint cb n p nr pr u c) = cb_flags c" "cb_trn_chain (repoint cb n p nr pr u c) = cb_trn_chain c"
  "cb_trn_addr (repoint cb n p nr pr u c) = cb_trn_addr c" "cb_current (repoint cb n p nr pr u c) = cb_current c"
  "cb_version (repoint cb n p nr pr u c) = cb_version c" "cb_unique (repoint cb n p nr pr u c) = cb_unique c"
  "cb_filler (repoint cb n p nr pr u c) = cb_filler c"
  by (simp_all add: repoint_def)

text \<open>An update of one field as an update of every block, and the two ends of a chain.\<close>

lemma upd_field:
  "upd t (cb_next_update (\<lambda>_. x)) m u = map_option (\<lambda>c. c\<lparr>cb_next := if u = t then x else cb_next c\<rparr>) (m u)"
  "upd t (cb_prev_update (\<lambda>_. x)) m u = map_option (\<lambda>c. c\<lparr>cb_prev := if u = t then x else cb_prev c\<rparr>) (m u)"
  "upd t (cb_nref_update (\<lambda>_. x)) m u = map_option (\<lambda>c. c\<lparr>cb_nref := if u = t then x else cb_nref c\<rparr>) (m u)"
  "upd t (cb_pref_update (\<lambda>_. x)) m u = map_option (\<lambda>c. c\<lparr>cb_pref := if u = t then x else cb_pref c\<rparr>) (m u)"
  by (cases "m u"; auto simp: upd_apply)+

lemma upd_ends:
  "upd t (\<lambda>c. if A then (if B then c\<lparr>cb_chain_lref := y\<rparr> else c)\<lparr>cb_chain_fref := x\<rparr>
      else if B then c\<lparr>cb_chain_lref := y\<rparr> else c) m u =
    map_option (\<lambda>c. c\<lparr>cb_chain_fref := if u = t \<and> A then x else cb_chain_fref c,
      cb_chain_lref := if u = t \<and> B then y else cb_chain_lref c\<rparr>) (m u)"
  by (cases "m u"; auto simp: upd_apply)

lemma relinked_apply: "relinked cb n p nr pr m u = map_option (repoint cb n p nr pr u) (m u)"
  by (cases "m u") (simp_all add: relinked_def Let_def upd_field upd_ends repoint_def)

definition unlinked :: "chain_blk \<Rightarrow> chains \<Rightarrow> chains" where
  "unlinked cb m = relinked cb (cb_next cb) (cb_prev cb) (cb_nref cb) (cb_pref cb) m"

definition linked_in :: "chain_blk \<Rightarrow> chains \<Rightarrow> chains" where
  "linked_in cb m = relinked cb (cb_current cb) (cb_current cb) (cb_current cb) (cb_current cb) m"

definition super_without :: "chain_blk \<Rightarrow> mtg_super \<Rightarrow> mtg_super" where
  "super_without cb sb = sb\<lparr>ms_first := (if cb_prev cb = 0 then cb_next cb else ms_first sb),
     ms_last := (if cb_next cb = 0 then cb_prev cb else ms_last sb)\<rparr>"

definition super_with :: "chain_blk \<Rightarrow> mtg_super \<Rightarrow> mtg_super" where
  "super_with cb sb = sb\<lparr>ms_first := (if cb_prev cb = 0 then cb_current cb else ms_first sb),
     ms_last := (if cb_next cb = 0 then cb_current cb else ms_last sb)\<rparr>"

lemma live_chain_sub: "live_chain m k \<subseteq> live m"
  by (auto simp: live_chain_def live_def)

lemma in_live: "m t = Some c \<Longrightarrow> t \<in> live m \<longleftrightarrow> \<not> deleted c"
  "m t = Some c \<Longrightarrow> t \<in> live_chain m k \<longleftrightarrow> \<not> deleted c \<and> cb_trn_chain c = k"
  by (simp_all add: live_def live_chain_def)

lemma live_relinked:
  "live (relinked cb n p nr pr (m(t \<mapsto> c))) = (if deleted c then live m - {t} else insert t (live m))"
  "live_chain (relinked cb n p nr pr (m(t \<mapsto> c))) k =
     (if deleted c \<or> cb_trn_chain c \<noteq> k then live_chain m k - {t} else insert t (live_chain m k))"
  by (auto simp: live_def live_chain_def relinked_apply split: if_splits)

text \<open>What the invariant says of one live block.\<close>

lemma mtg_inv_live:
  assumes "mtg_inv sb m" and "m t = Some c" and "\<not> deleted c"
  shows "linked m t c" and "1 \<le> cb_trn_chain c" and "cb_trn_chain c \<le> ms_highest_chain sb"
    and "1 \<le> t" and "cb_trn_addr c \<noteq> 0" and "t \<in> live m" and "t \<in> live_chain m (cb_trn_chain c)"
proof -
  show "linked m t c" using assms by (auto simp: mtg_inv_def)
  have a: "if cb_trn_addr c = 0 then deleted c else 1 \<le> cb_trn_chain c \<and> cb_trn_chain c \<le> ms_highest_chain sb"
    using assms(1,2) unfolding mtg_inv_def by blast
  with assms(3) show "1 \<le> cb_trn_chain c" "cb_trn_chain c \<le> ms_highest_chain sb" "cb_trn_addr c \<noteq> 0"
    by (auto split: if_splits)
  show "1 \<le> t" using assms(1,2) by (auto simp: mtg_inv_def)
  show "t \<in> live m" "t \<in> live_chain m (cb_trn_chain c)" using assms(2,3) by (simp_all add: in_live)
qed

lemma linkedD:
  assumes "linked m t c"
  shows "before (live m) t (cb_prev c)" "after (live m) t (cb_next c)"
    "before (live_chain m (cb_trn_chain c)) t (cb_pref c)" "after (live_chain m (cb_trn_chain c)) t (cb_nref c)"
  using assms by (simp_all add: linked_def)

lemma delete_inv:
  assumes inv: "mtg_inv sb m" and c: "m t = Some c" "\<not> deleted c"
    and d: "deleted d" "d = c\<lparr>cb_flags := cb_flags d\<rparr>"
  shows "mtg_inv (super_without c sb) (unlinked c (m(t \<mapsto> d)))"
    and "live (unlinked c (m(t \<mapsto> d))) = live m - {t}"
proof -
  let ?m = "unlinked c (m(t \<mapsto> d))"
  let ?r = "repoint c (cb_next c) (cb_prev c) (cb_nref c) (cb_pref c)"
  note t = mtg_inv_live [OF inv c] and l = linkedD [OF mtg_inv_live(1) [OF inv c]]
  note p = mtg_inv_positive [OF inv]
  show lv: "live ?m = live m - {t}" using d(1) by (simp add: unlinked_def live_relinked)
  have lc: "live_chain ?m k = live_chain m k - {t}" for k
    using d(1) by (simp add: unlinked_def live_relinked)
  have other: "live_chain m k - {t} = live_chain m k" if "k \<noteq> cb_trn_chain c" for k
    using c that by (auto simp: live_chain_def)
  have df: "cb_trn_addr d = cb_trn_addr c" "cb_trn_chain d = cb_trn_chain c" "cb_chain_fref d = cb_chain_fref c"
    "cb_chain_lref d = cb_chain_lref c" by (subst d(2), simp)+
  have m: "?m u = (if u = t then Some (?r t d) else map_option (?r u) (m u))" for u
    by (simp add: unlinked_def relinked_apply)
  have "linked ?m u b'" if b': "?m u = Some b'" "\<not> deleted b'" for u b'
  proof -
    from b' d(1) obtain b where b: "m u = Some b" "u \<noteq> t" "b' = ?r u b" "\<not> deleted b"
      by (auto simp: m split: if_splits)
    note u = mtg_inv_live [OF inv b(1,4)] and k = linkedD [OF mtg_inv_live(1) [OF inv b(1,4)]]
    have "before (live m - {t}) u (cb_prev b')" "after (live m - {t}) u (cb_next b')"
      using remove_before [OF t(6) p(4) l(1,2) k(1) u(6) b(2)] remove_after [OF t(6) p(4) l(1,2) k(2) u(6) b(2)]
      by (simp_all add: b(3))
    moreover have "before (live_chain m (cb_trn_chain b) - {t}) u (cb_pref b') \<and>
        after (live_chain m (cb_trn_chain b) - {t}) u (cb_nref b')"
    proof (cases "cb_trn_chain b = cb_trn_chain c")
      case True
      show ?thesis
        using remove_before [OF t(7) p(5) l(3,4) k(3) [unfolded True] u(7) [unfolded True] b(2)]
          remove_after [OF t(7) p(5) l(3,4) k(4) [unfolded True] u(7) [unfolded True] b(2)]
        by (simp add: b(3) True)
    next
      case False
      have "u \<noteq> cb_nref c" "u \<noteq> cb_pref c"
        using beforeD(1) [OF l(3)] afterD(1) [OF l(4)] b(1) False u(4) by (auto simp: live_chain_def)
      with k(3,4) other [OF False] show ?thesis by (simp add: b(3))
    qed
    ultimately show ?thesis by (simp add: linked_def lv lc b(3))
  qed
  moreover have "chain_ends ?m k b'" if k: "?m k = Some b'" for k b'
  proof -
    obtain b where b: "m k = Some b" "cb_chain_fref b' = cb_chain_fref (?r k b)" "cb_chain_lref b' = cb_chain_lref (?r k b)"
      using k c(1) by (auto simp: m df split: if_splits)
    have e: "least (live_chain m k) (cb_chain_fref b)" "greatest (live_chain m k) (cb_chain_lref b)"
      using inv b(1) by (auto simp: mtg_inv_def chain_ends_def)
    show ?thesis
    proof (cases "k = cb_trn_chain c")
      case True
      with remove_least [OF t(7) p(3) l(3,4) e(1) [unfolded True]] remove_greatest [OF t(7) p(3) l(3,4) e(2) [unfolded True]]
      show ?thesis by (simp add: chain_ends_def lc b(2,3))
    next
      case False
      with e other [OF False] show ?thesis by (simp add: chain_ends_def lc b(2,3))
    qed
  qed
  moreover have "dom ?m = dom m" using c(1) by (auto simp: m dom_def)
  moreover have "if cb_trn_addr b' = 0 then deleted b' else 1 \<le> cb_trn_chain b' \<and> cb_trn_chain b' \<le> ms_highest_chain sb"
    if b': "?m u = Some b'" for u b'
  proof -
    have *: "m u = Some b \<Longrightarrow> if cb_trn_addr b = 0 then deleted b else 1 \<le> cb_trn_chain b \<and> cb_trn_chain b \<le> ms_highest_chain sb" for b
      using inv unfolding mtg_inv_def by blast
    from b' t(2,3,5) show ?thesis by (auto simp: m df dest!: * split: if_splits)
  qed
  moreover have "least (live m - {t}) (if cb_prev c = 0 then cb_next c else ms_first sb)"
    "greatest (live m - {t}) (if cb_next c = 0 then cb_prev c else ms_last sb)"
    using remove_least [OF t(6) p(2) l(1,2)] remove_greatest [OF t(6) p(2) l(1,2)] inv by (auto simp: mtg_inv_def)
  ultimately show "mtg_inv (super_without c sb) ?m"
    using inv unfolding mtg_inv_def super_without_def lv by simp
qed

text \<open>The block \<open>d\<close> that comes back: the deleted one with its neighbours of now.\<close>

definition rejoins :: "chains \<Rightarrow> int \<Rightarrow> chain_blk \<Rightarrow> chain_blk \<Rightarrow> bool" where
  "rejoins m t c d \<longleftrightarrow> \<not> deleted d \<and> linked m t d \<and> cb_current d = t \<and>
     d = c\<lparr>cb_flags := cb_flags d, cb_prev := cb_prev d, cb_next := cb_next d, cb_pref := cb_pref d, cb_nref := cb_nref d\<rparr>"

lemma retrieve_inv:
  assumes inv: "mtg_inv sb m" and c: "m t = Some c" "deleted c" "cb_trn_addr c \<noteq> 0"
    and d: "rejoins m t c d"
  shows "mtg_inv (super_with d sb) (linked_in d (m(t \<mapsto> d)))"
    and "live (linked_in d (m(t \<mapsto> d))) = insert t (live m)"
proof -
  let ?m = "linked_in d (m(t \<mapsto> d))"
  let ?r = "repoint d t t t t"
  have dl: "\<not> deleted d" "cb_current d = t" "linked m t d" using d by (simp_all add: rejoins_def)
  note l = linkedD [OF dl(3)]
  note p = mtg_inv_positive [OF inv]
  have d2: "d = c\<lparr>cb_flags := cb_flags d, cb_prev := cb_prev d, cb_next := cb_next d, cb_pref := cb_pref d, cb_nref := cb_nref d\<rparr>"
    using d by (simp add: rejoins_def)
  have df: "cb_trn_addr d = cb_trn_addr c" "cb_trn_chain d = cb_trn_chain c" "cb_chain_fref d = cb_chain_fref c"
    "cb_chain_lref d = cb_chain_lref c" by (subst d2, simp)+
  have t: "t \<notin> live m" "t \<notin> live_chain m k" for k using c by (simp_all add: in_live)
  have t0: "t \<noteq> 0" using c(1) p(1) by auto
  have tc: "1 \<le> cb_trn_chain c" "cb_trn_chain c \<le> ms_highest_chain sb"
    using inv c(1,3) unfolding mtg_inv_def by metis+
  show lv: "live ?m = insert t (live m)" using dl by (simp add: linked_in_def live_relinked)
  have lc: "live_chain ?m k = (if k = cb_trn_chain c then insert t (live_chain m k) else live_chain m k)" for k
    using dl df t by (auto simp: linked_in_def live_relinked)
  have m: "?m u = (if u = t then Some (?r t d) else map_option (?r u) (m u))" for u
    by (simp add: linked_in_def relinked_apply dl)
  have tt: "t \<noteq> cb_prev d" "t \<noteq> cb_next d" "t \<noteq> cb_pref d" "t \<noteq> cb_nref d"
    using beforeD(1) [OF l(1)] afterD(1) [OF l(2)] beforeD(1) [OF l(3)] afterD(1) [OF l(4)] t t0 by auto
  have "linked ?m u b'" if b': "?m u = Some b'" "\<not> deleted b'" for u b'
  proof (cases "u = t")
    case True
    with b'(1) tt have f: "cb_prev b' = cb_prev d" "cb_next b' = cb_next d" "cb_pref b' = cb_pref d" "cb_nref b' = cb_nref d"
      "cb_trn_chain b' = cb_trn_chain c" by (auto simp: m df)
    show ?thesis using l by (simp add: linked_def f lv lc df True before_def after_def)
  next
    case False
    with b' obtain b where b: "m u = Some b" "b' = ?r u b" "\<not> deleted b"
      by (auto simp: m split: if_splits)
    note u = mtg_inv_live [OF inv b(1,3)] and k = linkedD [OF mtg_inv_live(1) [OF inv b(1,3)]]
    have u0: "u \<noteq> 0" using u(4) by simp
    have "before (insert t (live m)) u (cb_prev b')" "after (insert t (live m)) u (cb_next b')"
      using insert_before [OF t(1) t0 l(1,2) k(1) u(6) u0] insert_after [OF t(1) t0 l(1,2) k(2) u(6) u0]
      by (simp_all add: b(2))
    moreover have "before (live_chain ?m (cb_trn_chain b)) u (cb_pref b') \<and> after (live_chain ?m (cb_trn_chain b)) u (cb_nref b')"
    proof (cases "cb_trn_chain b = cb_trn_chain d")
      case True
      show ?thesis
        using insert_before [OF t(2) t0 l(3,4) k(3) [unfolded True] u(7) [unfolded True] u0]
          insert_after [OF t(2) t0 l(3,4) k(4) [unfolded True] u(7) [unfolded True] u0]
        by (simp add: b(2) True lc df)
    next
      case False
      have "u \<noteq> cb_nref d" "u \<noteq> cb_pref d"
        using beforeD(1) [OF l(3)] afterD(1) [OF l(4)] b(1) False u0 by (auto simp: live_chain_def)
      with k(3,4) False show ?thesis by (simp add: b(2) lc df)
    qed
    ultimately show ?thesis by (simp add: linked_def lv b(2))
  qed
  moreover have "chain_ends ?m k b'" if k: "?m k = Some b'" for k b'
  proof -
    obtain b where b: "m k = Some b" "cb_chain_fref b' = cb_chain_fref (?r k b)" "cb_chain_lref b' = cb_chain_lref (?r k b)"
      using k c(1) by (auto simp: m df split: if_splits)
    have e: "least (live_chain m k) (cb_chain_fref b)" "greatest (live_chain m k) (cb_chain_lref b)"
      using inv b(1) by (auto simp: mtg_inv_def chain_ends_def)
    show ?thesis
    proof (cases "k = cb_trn_chain d")
      case True
      with insert_least [OF t(2) t0 l(3,4) e(1) [unfolded True]] insert_greatest [OF t(2) t0 l(3,4) e(2) [unfolded True]]
      show ?thesis by (simp add: chain_ends_def lc b(2,3) df)
    next
      case False
      with e show ?thesis by (simp add: chain_ends_def lc b(2,3) df)
    qed
  qed
  moreover have "dom ?m = dom m" using c(1) by (auto simp: m dom_def)
  moreover have "if cb_trn_addr b' = 0 then deleted b' else 1 \<le> cb_trn_chain b' \<and> cb_trn_chain b' \<le> ms_highest_chain sb"
    if b': "?m u = Some b'" for u b'
  proof -
    have *: "m u = Some b \<Longrightarrow> if cb_trn_addr b = 0 then deleted b else 1 \<le> cb_trn_chain b \<and> cb_trn_chain b \<le> ms_highest_chain sb" for b
      using inv unfolding mtg_inv_def by blast
    from b' tc c(3) show ?thesis by (auto simp: m df dest!: * split: if_splits)
  qed
  moreover have "least (insert t (live m)) (if cb_prev d = 0 then t else ms_first sb)"
    "greatest (insert t (live m)) (if cb_next d = 0 then t else ms_last sb)"
    using insert_least [OF t(1) t0 l(1,2)] insert_greatest [OF t(1) t0 l(1,2)] inv by (auto simp: mtg_inv_def)
  ultimately show "mtg_inv (super_with d sb) ?m"
    using inv unfolding mtg_inv_def super_with_def lv dl(2) by simp
qed

text \<open>The neighbours of a number have it as theirs.\<close>

lemma neighbours_back:
  assumes "t \<in> S" and "t \<noteq> 0"
  shows "after S t n \<Longrightarrow> n \<noteq> 0 \<Longrightarrow> before S n t" and "before S t p \<Longrightarrow> p \<noteq> 0 \<Longrightarrow> after S p t"
    and "before S t 0 \<Longrightarrow> least S t" and "after S t 0 \<Longrightarrow> greatest S t"
  using assms by (auto simp: order_defs)

lemma neighbours_without: "before (S - {t}) t p \<longleftrightarrow> before S t p" "after (S - {t}) t n \<longleftrightarrow> after S t n"
  by (auto simp: order_defs)

lemma delete_retrieve:
  assumes inv: "mtg_inv sb m" and c: "m t = Some c" "\<not> deleted c" "cb_current c = t"
    and d: "deleted d" "d = c\<lparr>cb_flags := cb_flags d\<rparr>"
    and e: "unlinked c (m(t \<mapsto> d)) t = Some d'" "rejoins (unlinked c (m(t \<mapsto> d))) t d' e" "cb_flags e = cb_flags c"
  shows "linked_in e ((unlinked c (m(t \<mapsto> d)))(t \<mapsto> e)) = m" and "super_with e (super_without c sb) = sb"
proof -
  let ?m = "unlinked c (m(t \<mapsto> d))"
  let ?r = "repoint c (cb_next c) (cb_prev c) (cb_nref c) (cb_pref c)"
  note t = mtg_inv_live [OF inv c(1,2)] and l = linkedD [OF mtg_inv_live(1) [OF inv c(1,2)]]
  have t0: "t \<noteq> 0" using t(4) by simp
  have lv: "live ?m = live m - {t}" and lc: "live_chain ?m k = live_chain m k - {t}" for k
    using d(1) by (simp_all add: unlinked_def live_relinked)
  have d': "d' = ?r t d" using e(1) by (simp add: unlinked_def relinked_apply)
  have el: "linked ?m t e" "cb_current e = t"
    and ed: "e = d'\<lparr>cb_flags := cb_flags e, cb_prev := cb_prev e, cb_next := cb_next e, cb_pref := cb_pref e, cb_nref := cb_nref e\<rparr>"
    using e(2) by (simp_all add: rejoins_def)
  have ek: "cb_trn_chain e = cb_trn_chain c" by (subst ed, simp add: d', subst d(2), simp)
  have ef: "cb_next e = cb_next c" "cb_prev e = cb_prev c" "cb_nref e = cb_nref c" "cb_pref e = cb_pref c"
    using linkedD [OF el(1)] l unfolding lv lc neighbours_without ek by (blast intro: neighbour_unique)+
  have ends: "chain_ends m k b" if "m k = Some b" for k b
    using inv that by (simp add: mtg_inv_def)
  have nb: "u = cb_next c \<Longrightarrow> cb_prev b = t" "u = cb_prev c \<Longrightarrow> cb_next b = t"
    "u = cb_nref c \<Longrightarrow> cb_pref b = t" "u = cb_pref c \<Longrightarrow> cb_nref b = t"
    "u = cb_trn_chain c \<Longrightarrow> cb_pref c = 0 \<Longrightarrow> cb_chain_fref b = t"
    "u = cb_trn_chain c \<Longrightarrow> cb_nref c = 0 \<Longrightarrow> cb_chain_lref b = t" if b: "m u = Some b" for u b
  proof -
    have u0: "u \<noteq> 0" using b mtg_inv_positive(1) [OF inv] by auto
    have lk: "linked m u b" if "u \<in> live m" using inv b that by (auto simp: mtg_inv_def live_def)
    have ch: "cb_trn_chain b = k" if "u \<in> live_chain m k" for k using b that by (simp add: live_chain_def)
    show "cb_prev b = t" if "u = cb_next c"
      using that u0 neighbours_back(1) [OF t(6) t0 l(2)] lk afterD(1) [OF l(2)] linkedD(1) neighbour_unique(1) by blast
    show "cb_next b = t" if "u = cb_prev c"
      using that u0 neighbours_back(2) [OF t(6) t0 l(1)] lk beforeD(1) [OF l(1)] linkedD(2) neighbour_unique(2) by blast
    show "cb_pref b = t" if u: "u = cb_nref c"
    proof -
      have "u \<in> live_chain m (cb_trn_chain c)" using u u0 afterD(1) [OF l(4)] by simp
      with lk live_chain_sub ch have "linked m u b" "cb_trn_chain b = cb_trn_chain c" by blast+
      then show ?thesis using u u0 neighbours_back(1) [OF t(7) t0 l(4)] linkedD(3) neighbour_unique(1) by metis
    qed
    show "cb_nref b = t" if u: "u = cb_pref c"
    proof -
      have "u \<in> live_chain m (cb_trn_chain c)" using u u0 beforeD(1) [OF l(3)] by simp
      with lk live_chain_sub ch have "linked m u b" "cb_trn_chain b = cb_trn_chain c" by blast+
      then show ?thesis using u u0 neighbours_back(2) [OF t(7) t0 l(3)] linkedD(4) neighbour_unique(2) by metis
    qed
    show "cb_chain_fref b = t" if "u = cb_trn_chain c" "cb_pref c = 0"
      using ends [OF b] neighbours_back(3) [OF t(7) t0] l(3) that neighbour_unique(3)
      by (metis chain_ends_def)
    show "cb_chain_lref b = t" if "u = cb_trn_chain c" "cb_nref c = 0"
      using ends [OF b] neighbours_back(4) [OF t(7) t0] l(4) that neighbour_unique(4)
      by (metis chain_ends_def)
  qed
  show "linked_in e (?m(t \<mapsto> e)) = m"
  proof
    fix u
    show "linked_in e (?m(t \<mapsto> e)) u = m u"
    proof (cases "u = t")
      case True
      have es: "cb_version e = cb_version c" "cb_unique e = cb_unique c" "cb_current e = cb_current c"
        "cb_trn_addr e = cb_trn_addr c" "cb_filler e = cb_filler c"
        by (subst ed, simp add: d', subst d(2), simp)+
      have ee: "cb_chain_fref e = (if t = cb_trn_chain c \<and> cb_pref c = 0 then cb_nref c else cb_chain_fref c)"
        "cb_chain_lref e = (if t = cb_trn_chain c \<and> cb_nref c = 0 then cb_pref c else cb_chain_lref c)"
      proof -
        have "cb_chain_fref e = cb_chain_fref d'" "cb_chain_lref e = cb_chain_lref d'" by (subst ed, simp)+
        moreover have "cb_chain_fref d = cb_chain_fref c" "cb_chain_lref d = cb_chain_lref c" by (subst d(2), simp)+
        ultimately show "cb_chain_fref e = (if t = cb_trn_chain c \<and> cb_pref c = 0 then cb_nref c else cb_chain_fref c)"
          "cb_chain_lref e = (if t = cb_trn_chain c \<and> cb_nref c = 0 then cb_pref c else cb_chain_lref c)"
          by (simp_all add: d')
      qed
      have tt: "t \<noteq> cb_prev c" "t \<noteq> cb_next c" "t \<noteq> cb_pref c" "t \<noteq> cb_nref c"
        using beforeD(2) [OF l(1)] afterD(2) [OF l(2)] beforeD(2) [OF l(3)] afterD(2) [OF l(4)] t0 by auto
      have "repoint e t t t t t e = c"
        by (rule chain_blk.equality) (use nb(5,6) [OF c(1)] tt in \<open>simp_all add: ef ek es ee e(3)\<close>)
      then show ?thesis using True c(1) by (simp add: linked_in_def relinked_apply el(2))
    next
      case False
      show ?thesis
      proof (cases "m u")
        case (Some b)
        have "repoint e t t t t u (?r u b) = b"
          by (rule chain_blk.equality) (use nb [OF Some] in \<open>simp_all add: ef ek\<close>)
        then show ?thesis using False Some by (simp add: linked_in_def unlinked_def relinked_apply el(2))
      qed (simp add: False linked_in_def unlinked_def relinked_apply)
    qed
  qed
  have "least (live m) (ms_first sb)" "greatest (live m) (ms_last sb)" using inv by (simp_all add: mtg_inv_def)
  with neighbours_back(3,4) [OF t(6) t0] l(1,2)
  have "cb_prev c = 0 \<Longrightarrow> ms_first sb = t" "cb_next c = 0 \<Longrightarrow> ms_last sb = t" by (auto intro: neighbour_unique)
  then show "super_with e (super_without c sb) = sb"
    by (auto intro!: mtg_super.equality simp: super_with_def super_without_def ef el(2))
qed

text \<open>A new transaction at the end: a deleted block with its number that is retrieved at once.\<close>

definition super_added :: "chain_blk \<Rightarrow> mtg_super \<Rightarrow> mtg_super" where
  "super_added cb sb = sb\<lparr>ms_highest := cb_current cb,
     ms_highest_chain := max (ms_highest_chain sb) (cb_trn_chain cb),
     ms_first := (if ms_first sb = 0 then cb_current cb else ms_first sb), ms_last := cb_current cb\<rparr>"

definition fresh :: "mtg_super \<Rightarrow> chains \<Rightarrow> chain_blk \<Rightarrow> bool" where
  "fresh sb m cb \<longleftrightarrow> cb_current cb = ms_highest sb + 1 \<and> \<not> deleted cb \<and> cb_trn_addr cb \<noteq> 0 \<and>
     cb_prev cb = ms_last sb \<and> cb_next cb = 0 \<and> cb_nref cb = 0 \<and> cb_chain_fref cb = 0 \<and> cb_chain_lref cb = 0 \<and>
     1 \<le> cb_trn_chain cb \<and> cb_trn_chain cb \<le> ms_highest_chain sb + 1 \<and>
     greatest (live_chain m (cb_trn_chain cb)) (cb_pref cb)"

lemma append_linked:
  assumes "greatest S l" and "\<forall>x \<in> S. x < t"
  shows "before S t l" and "after S t 0"
  using assms by (auto simp: order_defs)

lemma add_inv:
  assumes inv: "mtg_inv sb m" and cb: "fresh sb m cb" and t: "t = cb_current cb"
  shows "mtg_inv (super_added cb sb) (linked_in cb (m(t \<mapsto> cb)))"
    and "live (linked_in cb (m(t \<mapsto> cb))) = insert t (live m)"
proof -
  define sb1 where "sb1 = sb\<lparr>ms_highest := t, ms_highest_chain := max (ms_highest_chain sb) (cb_trn_chain cb)\<rparr>"
  define c where "c = cb\<lparr>cb_flags := 1\<rparr>"
  have del: "deleted c" by (simp add: c_def CB_DELETED_def)
  have d: "dom m = {1 .. ms_highest sb}" and h: "0 \<le> ms_highest_chain sb" "ms_highest_chain sb \<le> ms_highest sb"
    using inv by (simp_all add: mtg_inv_def)
  have t': "t = ms_highest sb + 1" using cb t by (simp add: fresh_def)
  have "t \<notin> dom m" unfolding d by (simp add: t')
  then have new: "m t = None" by (simp add: domIff)
  have below: "u < t" if "u \<in> live m" for u
  proof -
    from that have "u \<in> dom m" by (auto simp: live_def)
    with d t' show ?thesis by simp
  qed
  have lv: "live (m(t \<mapsto> c)) = live m" "live_chain (m(t \<mapsto> c)) k = live_chain m k" for k
    using new del by (auto simp: live_def live_chain_def)
  have "mtg_inv sb1 (m(t \<mapsto> c))"
    unfolding mtg_inv_def lv
  proof (intro conjI allI impI)
    show "dom (m(t \<mapsto> c)) = {1..ms_highest sb1}" using d h t' by (auto simp: sb1_def)
    show "0 \<le> ms_highest_chain sb1" "ms_highest_chain sb1 \<le> ms_highest sb1"
      using h t' cb by (auto simp: sb1_def fresh_def)
    show "least (live m) (ms_first sb1)" "greatest (live m) (ms_last sb1)" using inv by (simp_all add: mtg_inv_def sb1_def)
    fix u b assume b: "(m(t \<mapsto> c)) u = Some b"
    show "if cb_trn_addr b = 0 then deleted b else 1 \<le> cb_trn_chain b \<and> cb_trn_chain b \<le> ms_highest_chain sb1"
    proof (cases "u = t")
      case False
      with b have "if cb_trn_addr b = 0 then deleted b else 1 \<le> cb_trn_chain b \<and> cb_trn_chain b \<le> ms_highest_chain sb"
        using inv unfolding mtg_inv_def by (metis fun_upd_other)
      then show ?thesis by (auto simp: sb1_def split: if_splits)
    qed (use b cb in \<open>auto simp: c_def fresh_def sb1_def\<close>)
    show "chain_ends (m(t \<mapsto> c)) u b"
    proof (cases "u = t")
      case True
      have "live_chain m t = {}"
        using mtg_inv_live(3) [OF inv] h t' by (fastforce simp: live_chain_def)
      moreover have "b = c" using True b by simp
      moreover have "cb_chain_fref c = 0" "cb_chain_lref c = 0" using cb by (simp_all add: c_def fresh_def)
      ultimately show ?thesis by (simp add: True chain_ends_def lv least_def greatest_def)
    next
      case False
      with b inv show ?thesis by (simp add: chain_ends_def lv mtg_inv_def)
    qed
  next
    fix u b assume b: "(m(t \<mapsto> c)) u = Some b \<and> \<not> deleted b"
    then have "m u = Some b" using del by (auto split: if_splits)
    with b inv have "linked m u b" by (simp add: mtg_inv_def)
    then show "linked (m(t \<mapsto> c)) u b" by (simp add: linked_def lv)
  qed
  moreover have "rejoins (m(t \<mapsto> c)) t c cb"
  proof -
    have "greatest (live m) (cb_prev cb)" "greatest (live_chain m (cb_trn_chain cb)) (cb_pref cb)"
      using inv cb by (simp_all add: mtg_inv_def fresh_def)
    moreover have "\<forall>x \<in> live_chain m k. x < t" "\<forall>x \<in> live m. x < t" for k
      using below live_chain_sub by blast+
    ultimately have "linked m t cb"
      using append_linked [of "live m" _ t] append_linked [of "live_chain m (cb_trn_chain cb)" _ t] cb
      by (simp add: linked_def fresh_def)
    then have "linked (m(t \<mapsto> c)) t cb" by (simp add: linked_def lv)
    then show ?thesis using cb t by (simp add: rejoins_def c_def fresh_def)
  qed
  ultimately have "mtg_inv (super_with cb sb1) (linked_in cb ((m(t \<mapsto> c))(t \<mapsto> cb)))"
    "live (linked_in cb ((m(t \<mapsto> c))(t \<mapsto> cb))) = insert t (live (m(t \<mapsto> c)))"
    using retrieve_inv [of sb1 "m(t \<mapsto> c)" t c cb] del cb by (simp_all add: c_def fresh_def)
  moreover have "super_with cb sb1 = super_added cb sb"
  proof -
    have "ms_last sb = 0 \<longleftrightarrow> ms_first sb = 0"
      using inv mtg_inv_positive(4) [OF inv] by (auto simp: mtg_inv_def least_def greatest_def)
    with cb t show ?thesis by (auto simp: super_with_def super_added_def sb1_def fresh_def intro!: mtg_super.equality)
  qed
  ultimately show "mtg_inv (super_added cb sb) (linked_in cb (m(t \<mapsto> cb)))"
    "live (linked_in cb (m(t \<mapsto> cb))) = insert t (live m)" by (simp_all add: lv)
qed

end
