(* ===== verification/Meeting.thy ===== *)
theory Meeting
  imports Edit Links
begin

text \<open>
  What the theorems about operations assume of the state: the meeting is open, the caller may do
  what the operation does; and a small meeting for which all of it holds.
\<close>

text \<open>The transaction of the block can be read and its author or the access list lets the caller edit it.\<close>

definition may_edit :: "srv \<Rightarrow> chain_blk \<Rightarrow> bool" where
  "may_edit s c \<longleftrightarrow> (case read_trn s (cb_trn_addr c) False True False of
     Some (code, _, _, author, _) \<Rightarrow> code = OK \<and> has_trn_access s author CHR ''d'' = Some True | None \<Rightarrow> False)"

text \<open>Reading the transaction file and checking access do not depend on the rest of the state.\<close>

lemma read_trn_cong:
  assumes "fs s' = fs s" and "u_trn_f s' = u_trn_f s" and "mtg_swapped s' = mtg_swapped s"
  shows "read_trn s' = read_trn s"
proof -
  have f: "trn_read s' = trn_read s" by (simp add: trn_read_def fun_eq_iff assms)
  show ?thesis by (simp only: read_trn_def [abs_def] f assms)
qed

lemma access_cong:
  assumes "has_privs s' = has_privs s" and "rpc_caller s' = rpc_caller s" and "mtg_acl s' = mtg_acl s"
  shows "has_trn_access s' = has_trn_access s" and "has_mtg_access s' = has_mtg_access s"
proof -
  have f: "check_acl s' = check_acl s" by (simp only: check_acl_def [abs_def] assms)
  show "has_trn_access s' = has_trn_access s" and "has_mtg_access s' = has_mtg_access s"
    by (simp_all only: has_trn_access_def [abs_def] has_mtg_access_def [abs_def] f assms)
qed

text \<open>The meeting that the server has open, with an access list that is up to date.\<close>

definition open_on :: "srv \<Rightarrow> string \<Rightarrow> bool" where
  "open_on s name \<longleftrightarrow> good_path name 168 \<and> current_mtg s = name \<and>
     map_of (links (fs s)) (name @ ''/forward'') = None \<and>
     (case map_of (links (fs s)) (name @ ''/acl'') of
        Some d \<Rightarrow> d \<noteq> u_control_f s \<and> d \<noteq> u_trn_f s \<and> i_mtime (inodes (fs s) d) \<le> last_acl_mod s
      | None \<Rightarrow> False) \<and> u_control_f s \<noteq> u_trn_f s"

lemma open_on_again: "open_on s name \<Longrightarrow> open_mtg name s = Some (OK, s)"
  by (auto simp: open_on_def open_mtg_def sys_stat_def split: option.splits)

lemma open_on_frame:
  assumes "open_on s name" and "op_frame s s'"
  shows "open_on s' name"
  using assms op_frame_fields [OF assms(2)] by (auto simp: open_on_def other_files_def split: option.splits)

lemma may_edit_frame:
  assumes "open_on s name" and "op_frame s s'"
  shows "may_edit s' c = may_edit s c"
proof -
  note f = op_frame_fields [OF assms(2)]
  have "fdata (fs s') (u_trn_f s) = fdata (fs s) (u_trn_f s)"
    using assms(1) f(14) unfolding open_on_def other_files_def by metis
  then have g: "trn_read s' = trn_read s" by (simp add: trn_read_def sys_read_def fun_eq_iff f)
  have r: "read_trn s' = read_trn s" by (simp only: read_trn_def [abs_def] g f)
  have a: "has_trn_access s' = has_trn_access s" by (rule access_cong) (simp_all add: f)
  show ?thesis by (simp only: may_edit_def r a)
qed

subsection \<open>A small meeting\<close>

text \<open>Three transactions, the second a reply to the first, in a meeting of the native byte order.\<close>

definition demo_sb :: mtg_super where
  "demo_sb = \<lparr>ms_version = MTG_SUPER_1, ms_unique = MTG_SUPER_UNIQUE, ms_first = 1, ms_last = 3, ms_lowest = 1,
     ms_highest = 3, ms_highest_chain = 2, ms_date_created = 42, ms_date_modified = 42,
     ms_long_name_addr = 68, ms_chairman_addr = 73, ms_long_name_len = 5, ms_chairman_len = 4,
     ms_flags = 1, ms_chain_start = 77, ms_high_water = 221, ms_trn_fsize = 90, ms_highest_trn_addr = 28\<rparr>"

definition demo_blk :: "int \<Rightarrow> int \<Rightarrow> int \<Rightarrow> int \<Rightarrow> int \<Rightarrow> int \<Rightarrow> int \<Rightarrow> int \<Rightarrow> chain_blk" where
  "demo_blk t p n pr nr k f l = \<lparr>cb_version = CHAIN_BLK_1, cb_unique = CHAIN_BLK_UNIQUE, cb_current = t,
     cb_prev = p, cb_next = n, cb_pref = pr, cb_nref = nr, cb_trn_chain = k, cb_trn_addr = 28, cb_flags = 0,
     cb_filler = 0, cb_chain_fref = f, cb_chain_lref = l\<rparr>"

definition demo_1 :: chain_blk where "demo_1 = demo_blk 1 0 2 0 2 1 1 2"
definition demo_2 :: chain_blk where "demo_2 = demo_blk 2 1 3 1 0 1 3 3"
definition demo_3 :: chain_blk where "demo_3 = demo_blk 3 2 0 0 0 2 0 0"

definition demo_chains :: chains where
  "demo_chains = [1 \<mapsto> demo_1, 2 \<mapsto> demo_2, 3 \<mapsto> demo_3]"

definition demo_control :: bytes where
  "demo_control = enc_super demo_sb @ ''demo'' @ [NUL] @ ''srz'' @ [NUL] @
     enc_chain demo_1 @ enc_chain demo_2 @ enc_chain demo_3"

definition demo_hdr :: trn_hdr where
  "demo_hdr = \<lparr>th_version = TRN_HDR_1, th_unique = TRN_HDR_UNIQUE, th_current = 1, th_orig_pref = 0,
     th_date_entered = 42, th_num_lines = 1, th_num_chars = 6, th_prev_trn = 0, th_subject_addr = 76,
     th_author_addr = 80, th_text_addr = 84, th_subject_len = 4, th_author_len = 4\<rparr>"

definition demo_base :: trn_base where
  "demo_base = \<lparr>tb_version = TRN_BASE_1, tb_unique = TRN_BASE_UNIQUE, tb_date_created = 42, tb_long_name_addr = 0,
     tb_chairman_addr = 0, tb_long_name_len = 0, tb_chairman_len = 0, tb_public_flag = 1\<rparr>"

definition demo_trns :: bytes where
  "demo_trns = enc_base demo_base @ enc_hdr demo_hdr @ ''Hi!'' @ [NUL] @ ''srz'' @ [NUL] @ ''hello'' @ [NL]"

definition demo_mtg_fs :: fsys where
  "demo_mtg_fs = \<lparr>dirs = [''/m''], links = [(''/m/control'', 1), (''/m/transactions'', 2), (''/m/acl'', 3)],
     inodes = (\<lambda>d. \<lparr>i_data = (if d = 1 then demo_control else if d = 2 then demo_trns else acl_text demo_acl),
       i_uid = 7, i_mtime = 1, i_errno = 0\<rparr>),
     next_ino = 4, faults = [], now = 50, euid = 7\<rparr>"

definition demo_srv :: srv where
  "demo_srv = \<lparr>fs = demo_mtg_fs, us = new_stream [], tf = None, current_mtg = ''/m'', u_trn_f = 2, u_control_f = 1,
     u_acl_f = 0, nuclear = False, a_control_f = aopen demo_mtg_fs 1, abort_file = False, read_lock = False,
     mtg_swapped = False, mtg_acl = Acl demo_acl, last_acl_mod = 1, super = demo_sb, super_chairman = None,
     super_long_name = None, has_privs = False, no_nuke = False, rpc_caller = ''srz''\<rparr>"

lemmas demo_blocks = demo_1_def demo_2_def demo_3_def demo_blk_def

lemma demo_blks_ok: "blk_ok demo_sb 1 demo_1" "blk_ok demo_sb 2 demo_2" "blk_ok demo_sb 3 demo_3"
  by (simp_all add: blk_ok_def chain_ok_def chain_fields_def chain_widths_def fits_def demo_blocks demo_sb_def mtg_consts)

lemma demo_sb_ok: "sb_ok demo_sb" "names_ok demo_sb ''demo'' ''srz''"
  by (simp_all add: sb_ok_def super_ok_def super_fields_def super_widths_def fits_def demo_sb_def mtg_consts mtg_layout
      ALIMIT_def names_ok_def string_area_def c_ok_def)

lemma length_demo_control: "length demo_control = 221"
  by (simp add: demo_control_def mtg_layout)

lemma demo_chains_cases:
  assumes "demo_chains t = Some c"
  obtains "t = 1" "c = demo_1" | "t = 2" "c = demo_2" | "t = 3" "c = demo_3"
  using assms by (auto simp: demo_chains_def split: if_splits)

lemma demo_at_rest: "at_rest demo_srv demo_sb ''demo'' ''srz'' demo_chains"
proof -
  have p: "blk_pos demo_sb 1 = 77" "blk_pos demo_sb 2 = 125" "blk_pos demo_sb 3 = 173"
    by (simp_all add: blk_pos_def demo_sb_def CHAIN_SIZE_def)
  have "blocks_in demo_control False demo_sb demo_chains"
    unfolding blocks_in_def
  proof (intro allI impI)
    fix t c assume "demo_chains t = Some c"
    then show "blk_ok demo_sb t c \<and> blk_pos demo_sb t + CHAIN_SIZE \<le> length demo_control \<and>
        slice (blk_pos demo_sb t) CHAIN_SIZE demo_control = enc_chain (disk_chain False c)"
      by (rule demo_chains_cases) (simp_all add: demo_blks_ok length_demo_control p disk_chain_def slice_def CHAIN_SIZE_def,
          simp_all add: demo_control_def mtg_layout)
  qed
  moreover have "head_in demo_control False demo_sb ''demo'' ''srz''"
    by (simp add: head_in_def string_in_def length_demo_control mtg_layout disk_super_def)
      (simp add: demo_control_def demo_sb_def slice_def mtg_layout)
  ultimately show ?thesis
    using demo_sb_ok by (simp add: at_rest_def mtg_in_def demo_srv_def demo_mtg_fs_def)
qed

lemma demo_live: "live demo_chains = {1, 2, 3}" "live_chain demo_chains k = (if k = 1 then {1, 2} else if k = 2 then {3} else {})"
  by (auto simp: live_def live_chain_def demo_chains_def demo_blocks split: if_splits)

lemma demo_inv: "mtg_inv demo_sb demo_chains"
proof -
  have d: "dom demo_chains = {1, 2, 3}" by (auto simp: demo_chains_def)
  have i: "{1 .. (3 :: int)} = {1, 2, 3}" by auto
  have l: "linked demo_chains 1 demo_1" "linked demo_chains 2 demo_2" "linked demo_chains 3 demo_3"
    by (simp_all add: linked_def demo_live order_defs demo_blocks)
  have e: "chain_ends demo_chains 1 demo_1" "chain_ends demo_chains 2 demo_2" "chain_ends demo_chains 3 demo_3"
    by (simp_all add: chain_ends_def demo_live order_defs demo_blocks)
  have "linked demo_chains t b \<and> chain_ends demo_chains t b \<and> cb_trn_addr b = 28 \<and> cb_trn_chain b \<in> {1, 2}"
    if "demo_chains t = Some b" for t b
    using that by (rule demo_chains_cases) (simp_all add: l e, simp_all add: demo_blocks)
  then show ?thesis
    unfolding mtg_inv_def d by (fastforce simp: demo_live order_defs demo_sb_def i)
qed

lemma demo_open: "open_on demo_srv ''/m''"
  by (simp add: open_on_def good_path_def demo_srv_def demo_mtg_fs_def)

lemma demo_hdr_ok: "hdr_ok demo_hdr"
  by (simp add: hdr_ok_def hdr_fields_def hdr_widths_def demo_hdr_def mtg_consts fits_def)

lemma demo_read_trn: "read_trn demo_srv 28 subj True sig = Some (OK, demo_hdr,
    if subj then ''Hi!'' @ [NUL] else [], ''srz'' @ [NUL], if sig then ''srz'' else [])"
proof -
  have f: "fdata (fs demo_srv) (u_trn_f demo_srv) = demo_trns" "\<not> mtg_swapped demo_srv"
    by (simp_all add: demo_srv_def demo_mtg_fs_def)
  have "trn_read demo_srv 28 48 = Some (enc_hdr demo_hdr)" "trn_read demo_srv 76 4 = Some (''Hi!'' @ [NUL])"
    "trn_read demo_srv 80 4 = Some (''srz'' @ [NUL])"
    by (simp_all add: trn_read_def sys_read_def f slice_def demo_trns_def mtg_layout)
  then show ?thesis
    using dec_enc_hdr [OF demo_hdr_ok] by (simp add: read_trn_def f HDR_SIZE_def) (simp add: demo_hdr_def mtg_layout signature_of_def c_string_def cstr_def)
qed

lemma demo_may_edit: "cb_trn_addr c = 28 \<Longrightarrow> may_edit demo_srv c"
  by (simp add: may_edit_def demo_read_trn has_trn_access_def c_string_def cstr_def check_acl_def)
    (simp add: demo_srv_def demo_acl_def acl_is_subset_def)

lemma demo_2_facts:
  "demo_chains 2 = Some demo_2" "\<not> deleted demo_2" "cb_trn_addr demo_2 = 28" "may_edit demo_srv demo_2"
  by (simp_all add: demo_may_edit demo_chains_def demo_2_def demo_blk_def)

end
