(* ===== verification/Delete.thy ===== *)
theory Delete
  imports Meeting
begin

text \<open>
  \<open>delete_trn\<close> and \<open>retrieve_trn\<close> refine their effect on the set of transactions: on a control
  file that holds a meeting, \<open>delete_trn\<close> takes a number out of the set and \<open>retrieve_trn\<close> puts it
  back, the links in the file stay those of the set, and the two undo each other.
\<close>

subsection \<open>Relinking on the map of blocks\<close>

lemma blk_ok_update:
  assumes "blk_ok sb t c"
  shows "fits 4 x \<Longrightarrow> blk_ok sb t (c\<lparr>cb_next := x\<rparr>)" "fits 4 x \<Longrightarrow> blk_ok sb t (c\<lparr>cb_prev := x\<rparr>)"
    "fits 4 x \<Longrightarrow> blk_ok sb t (c\<lparr>cb_nref := x\<rparr>)" "fits 4 x \<Longrightarrow> blk_ok sb t (c\<lparr>cb_pref := x\<rparr>)"
    "fits 4 x \<Longrightarrow> blk_ok sb t (c\<lparr>cb_chain_fref := x\<rparr>)" "fits 4 x \<Longrightarrow> blk_ok sb t (c\<lparr>cb_chain_lref := x\<rparr>)"
    "fits 2 x \<Longrightarrow> blk_ok sb t (c\<lparr>cb_flags := x\<rparr>)"
  using assms by (auto simp: blk_ok_def chain_ok_def chain_fields_def chain_widths_def)

lemma blk_ok_fits:
  assumes "blk_ok sb t c"
  shows "fits 4 (cb_next c)" "fits 4 (cb_prev c)" "fits 4 (cb_nref c)" "fits 4 (cb_pref c)" "fits 4 (cb_current c)"
    "fits 4 (cb_trn_chain c)" "fits 4 (cb_chain_fref c)" "fits 4 (cb_chain_lref c)" "fits 2 (cb_flags c)"
    "fits 4 (cb_trn_addr c)"
  using assms by (auto simp: blk_ok_def chain_ok_def chain_fields_def chain_widths_def)

lemma editing_blk: "editing s ln ch m \<Longrightarrow> m t = Some c \<Longrightarrow> blk_ok (super s) t c"
  by (simp add: editing_def rep_def blocks_in_def)

lemma editing_0: "editing s ln ch m \<Longrightarrow> m 0 = None"
  using editing_blk [of s ln ch m 0] by (cases "m 0") (auto simp: blk_ok_def)

text \<open>The state goes on, with the superblock in memory and everything but the control file as it was.\<close>

definition goes_on :: "srv \<Rightarrow> srv \<Rightarrow> string \<Rightarrow> string \<Rightarrow> chains \<Rightarrow> bool" where
  "goes_on s s' ln ch m \<longleftrightarrow> editing s' ln ch m \<and> op_frame s s' \<and> super s' = super s"

lemma goes_on_trans: "goes_on s s' ln ch m \<Longrightarrow> goes_on s' s'' ln ch m' \<Longrightarrow> goes_on s s'' ln ch m'"
  by (auto simp: goes_on_def intro: op_frame_trans)

lemma goes_on_refl: "editing s ln ch m \<Longrightarrow> goes_on s s ln ch m"
  by (simp add: goes_on_def)

lemma write_chain_editing:
  assumes "editing s ln ch m" and "blk_ok (super s) t c"
  shows "\<exists>s'. write_chain s c = Some (OK, s') \<and> goes_on s s' ln ch (m(t \<mapsto> c))"
proof -
  from assms(1) have "rep s m" by (simp add: editing_def)
  from write_chain_rep [OF this assms(2)] obtain s' where
    s': "write_chain s c = Some (OK, s')" "rep s' (m(t \<mapsto> c))" "ctl_frame s s'" by (auto simp: same_head_def)
  with assms(1) ctl_frame_fields [OF s'(3)] ctl_frame_op [OF s'(3)] show ?thesis
    by (auto simp: editing_def goes_on_def)
qed

text \<open>One step of relinking, which the code makes only for a number that is not 0.\<close>

lemma relink_step:
  assumes "editing s ln ch m" and "t \<noteq> 0 \<Longrightarrow> m t \<noteq> None"
    and "\<And>c. blk_ok (super s) t c \<Longrightarrow> blk_ok (super s) t (f c)"
  shows "\<exists>sp' s'. (if t \<noteq> 0 then relink s t f sp else Some (OK, sp, s)) = Some (OK, sp', s') \<and>
    goes_on s s' ln ch (upd t f m)"
proof (cases "t = 0")
  case True
  with assms(1) editing_0 [OF assms(1)] show ?thesis by (simp add: goes_on_def upd_none)
next
  case False
  with assms(2) obtain c where c: "m t = Some c" by auto
  from assms(1) have "rep s m" by (simp add: editing_def)
  note r = read_chain_rep [OF this c, of sp]
  from write_chain_editing [OF assms(1) assms(3) [OF editing_blk [OF assms(1) c]]] obtain s' where
    s': "write_chain s (f c) = Some (OK, s')" "goes_on s s' ln ch (m(t \<mapsto> f c))" by blast
  moreover have "m(t \<mapsto> f c) = upd t f m" by (simp add: upd_def c)
  ultimately show ?thesis using False r by (simp add: relink_def)
qed

lemma relinked_ok:
  assumes "editing s ln ch m" and "blk_ok (super s) t cb" and "fits 4 n" "fits 4 p" "fits 4 nr" "fits 4 pr"
    and "cb_prev cb \<noteq> 0 \<Longrightarrow> m (cb_prev cb) \<noteq> None" "cb_next cb \<noteq> 0 \<Longrightarrow> m (cb_next cb) \<noteq> None"
    and "cb_pref cb \<noteq> 0 \<Longrightarrow> m (cb_pref cb) \<noteq> None" "cb_nref cb \<noteq> 0 \<Longrightarrow> m (cb_nref cb) \<noteq> None"
    and "cb_trn_chain cb \<noteq> 0" and "m (cb_trn_chain cb) \<noteq> None"
  shows "\<exists>s'. do { (c, sp, s) \<leftarrow> (if cb_prev cb \<noteq> 0 then relink s (cb_prev cb) (\<lambda>x. x\<lparr>cb_next := n\<rparr>) sp
                        else Some (OK, sp, s));
          if c \<noteq> OK then Some (c, s) else
     do { (c, sp, s) \<leftarrow> (if cb_next cb \<noteq> 0 then relink s (cb_next cb) (\<lambda>x. x\<lparr>cb_prev := p\<rparr>) sp
                        else Some (OK, sp, s));
          if c \<noteq> OK then Some (c, s) else
     do { (c, sp, s) \<leftarrow> (if cb_pref cb \<noteq> 0 then relink s (cb_pref cb) (\<lambda>x. x\<lparr>cb_nref := nr\<rparr>) sp
                        else Some (OK, sp, s));
          if c \<noteq> OK then Some (c, s) else
     do { (c, sp, s) \<leftarrow> (if cb_nref cb \<noteq> 0 then relink s (cb_nref cb) (\<lambda>x. x\<lparr>cb_pref := pr\<rparr>) sp
                        else Some (OK, sp, s));
          if c \<noteq> OK then Some (c, s) else
     do { (c, sp, s) \<leftarrow> (if cb_nref cb = 0 \<or> cb_pref cb = 0 then
              relink s (cb_trn_chain cb) (\<lambda>x.
                let x = (if cb_nref cb = 0 then x\<lparr>cb_chain_lref := pr\<rparr> else x)
                in if cb_pref cb = 0 then x\<lparr>cb_chain_fref := nr\<rparr> else x) sp
            else Some (OK, sp, s));
          Some (c, s) } } } } } = Some (OK, s') \<and> goes_on s s' ln ch (relinked cb n p nr pr m)"
proof -
  define m1 where "m1 = upd (cb_prev cb) (\<lambda>x. x\<lparr>cb_next := n\<rparr>) m"
  define m2 where "m2 = upd (cb_next cb) (\<lambda>x. x\<lparr>cb_prev := p\<rparr>) m1"
  define m3 where "m3 = upd (cb_pref cb) (\<lambda>x. x\<lparr>cb_nref := nr\<rparr>) m2"
  define m4 where "m4 = upd (cb_nref cb) (\<lambda>x. x\<lparr>cb_pref := pr\<rparr>) m3"
  define f where "f = (\<lambda>x :: chain_blk. let x = (if cb_nref cb = 0 then x\<lparr>cb_chain_lref := pr\<rparr> else x)
      in if cb_pref cb = 0 then x\<lparr>cb_chain_fref := nr\<rparr> else x)"
  have dm: "m1 x = None \<longleftrightarrow> m x = None" "m2 x = None \<longleftrightarrow> m x = None" "m3 x = None \<longleftrightarrow> m x = None" "m4 x = None \<longleftrightarrow> m x = None" for x
    by (simp_all add: m1_def m2_def m3_def m4_def upd_def)
  have d1: "cb_prev cb \<noteq> 0 \<Longrightarrow> m (cb_prev cb) \<noteq> None" using assms(7) dm by simp
  from relink_step [where f = "\<lambda>x. x\<lparr>cb_next := n\<rparr>" and sp = sp, OF assms(1) d1 blk_ok_update(1) [OF _ assms(3)]]
  obtain sp1 s1 where 1: "(if cb_prev cb \<noteq> 0 then relink s (cb_prev cb) (\<lambda>x. x\<lparr>cb_next := n\<rparr>) sp else Some (OK, sp, s))
      = Some (OK, sp1, s1)" "goes_on s s1 ln ch m1" unfolding m1_def by auto
  have e1: "editing s1 ln ch m1" using 1(2) by (simp add: goes_on_def)
  have d2: "cb_next cb \<noteq> 0 \<Longrightarrow> m1 (cb_next cb) \<noteq> None" using assms(8) dm by simp
  from relink_step [where f = "\<lambda>x. x\<lparr>cb_prev := p\<rparr>" and sp = sp1, OF e1 d2 blk_ok_update(2) [OF _ assms(4)]]
  obtain sp2 s2 where 2: "(if cb_next cb \<noteq> 0 then relink s1 (cb_next cb) (\<lambda>x. x\<lparr>cb_prev := p\<rparr>) sp1 else Some (OK, sp1, s1))
      = Some (OK, sp2, s2)" "goes_on s1 s2 ln ch m2" unfolding m2_def by blast
  have e2: "editing s2 ln ch m2" using 2(2) by (simp add: goes_on_def)
  have d3: "cb_pref cb \<noteq> 0 \<Longrightarrow> m2 (cb_pref cb) \<noteq> None" using assms(9) dm by simp
  from relink_step [where f = "\<lambda>x. x\<lparr>cb_nref := nr\<rparr>" and sp = sp2, OF e2 d3 blk_ok_update(3) [OF _ assms(5)]]
  obtain sp3 s3 where 3: "(if cb_pref cb \<noteq> 0 then relink s2 (cb_pref cb) (\<lambda>x. x\<lparr>cb_nref := nr\<rparr>) sp2 else Some (OK, sp2, s2))
      = Some (OK, sp3, s3)" "goes_on s2 s3 ln ch m3" unfolding m3_def by blast
  have e3: "editing s3 ln ch m3" using 3(2) by (simp add: goes_on_def)
  have d4: "cb_nref cb \<noteq> 0 \<Longrightarrow> m3 (cb_nref cb) \<noteq> None" using assms(10) dm by simp
  from relink_step [where f = "\<lambda>x. x\<lparr>cb_pref := pr\<rparr>" and sp = sp3, OF e3 d4 blk_ok_update(4) [OF _ assms(6)]]
  obtain sp4 s4 where 4: "(if cb_nref cb \<noteq> 0 then relink s3 (cb_nref cb) (\<lambda>x. x\<lparr>cb_pref := pr\<rparr>) sp3 else Some (OK, sp3, s3))
      = Some (OK, sp4, s4)" "goes_on s3 s4 ln ch m4" unfolding m4_def by blast
  have e4: "editing s4 ln ch m4" using 4(2) by (simp add: goes_on_def)
  have g4: "goes_on s s4 ln ch m4"
    by (rule goes_on_trans [OF goes_on_trans [OF goes_on_trans [OF 1(2) 2(2)] 3(2)] 4(2)])
  have f: "blk_ok sb x (f c)" if "blk_ok sb x c" for sb x c
    using that assms(5,6) by (simp add: f_def Let_def blk_ok_update)
  show ?thesis
  proof (cases "cb_nref cb = 0 \<or> cb_pref cb = 0")
    case True
    from relink_step [OF e4, of "cb_trn_chain cb" f sp4] assms(11,12) dm f obtain sp5 s5 where
      5: "relink s4 (cb_trn_chain cb) f sp4 = Some (OK, sp5, s5)" "goes_on s4 s5 ln ch (upd (cb_trn_chain cb) f m4)"
      by auto
    have "relinked cb n p nr pr m = upd (cb_trn_chain cb) f m4"
      using True unfolding relinked_def Let_def m4_def m3_def m2_def m1_def f_def by simp
    with goes_on_trans [OF g4 5(2)] True show ?thesis
      by (simp add: 1(1) 2(1) 3(1) 4(1) 5(1) flip: f_def)
  next
    case False
    then have "relinked cb n p nr pr m = m4"
      unfolding relinked_def Let_def m4_def m3_def m2_def m1_def by simp
    with g4 False 3(1) 4(1) show ?thesis by (simp add: 1(1) 2(1))
  qed
qed

lemma delete_links_ok:
  assumes "editing s ln ch m" and "blk_ok (super s) t cb"
    and "cb_prev cb \<noteq> 0 \<Longrightarrow> m (cb_prev cb) \<noteq> None" "cb_next cb \<noteq> 0 \<Longrightarrow> m (cb_next cb) \<noteq> None"
    and "cb_pref cb \<noteq> 0 \<Longrightarrow> m (cb_pref cb) \<noteq> None" "cb_nref cb \<noteq> 0 \<Longrightarrow> m (cb_nref cb) \<noteq> None"
    and "cb_trn_chain cb \<noteq> 0" and "m (cb_trn_chain cb) \<noteq> None"
  shows "\<exists>s'. delete_links cb s = Some (OK, s') \<and> goes_on s s' ln ch (unlinked cb m)"
  unfolding delete_links_def unlinked_def
  by (rule relinked_ok [OF assms(1,2) _ _ _ _ assms(3-8)]) (use blk_ok_fits [OF assms(2)] in simp_all)

lemma retrieve_links_ok:
  assumes "editing s ln ch m" and "blk_ok (super s) t cb"
    and "cb_prev cb \<noteq> 0 \<Longrightarrow> m (cb_prev cb) \<noteq> None" "cb_next cb \<noteq> 0 \<Longrightarrow> m (cb_next cb) \<noteq> None"
    and "cb_pref cb \<noteq> 0 \<Longrightarrow> m (cb_pref cb) \<noteq> None" "cb_nref cb \<noteq> 0 \<Longrightarrow> m (cb_nref cb) \<noteq> None"
    and "cb_trn_chain cb \<noteq> 0" and "m (cb_trn_chain cb) \<noteq> None"
  shows "\<exists>s'. retrieve_links cb sp s = Some (OK, s') \<and> goes_on s s' ln ch (linked_in cb m)"
  unfolding retrieve_links_def linked_in_def
  by (rule relinked_ok [OF assms(1,2) _ _ _ _ assms(3-8)]) (use blk_ok_fits [OF assms(2)] in simp_all)

subsection \<open>The flag\<close>

lemma even_i16 [simp]: "even (i16 x) \<longleftrightarrow> even x"
  using bit_i16 [of 0 x] by (simp add: bit_0)

lemma deleted_i16: "i16 x AND CB_DELETED = x AND CB_DELETED"
  by (simp add: CB_DELETED_def and_one_eq mod_2_eq_odd)

lemma deleted_flags [simp]:
  "i16 (x OR CB_DELETED) AND CB_DELETED \<noteq> 0" "i16 (x AND NOT CB_DELETED) AND CB_DELETED = 0"
  by (simp_all add: deleted_i16 CB_DELETED_def and_one_eq mod_2_eq_odd even_or_iff even_and_iff)

lemma deleted_flags_back:
  assumes "fits 2 x" and "x AND CB_DELETED = 0"
  shows "i16 (i16 (x OR CB_DELETED) AND NOT CB_DELETED) = x"
proof (rule bit_eqI)
  fix n
  have x: "i16 x = x" using assms(1) by (simp add: fits_i16)
  have "\<not> bit x 0" using assms(2) by (simp add: CB_DELETED_def and_one_eq mod_2_eq_odd bit_0)
  then show "bit (i16 (i16 (x OR CB_DELETED) AND NOT CB_DELETED)) n = bit x n"
    by (cases "n = 0"; subst (2) x [symmetric]) (auto simp: bit_simps CB_DELETED_def bit_1_iff min_def)
qed

subsection \<open>The checks at the start\<close>

lemma edit_start_ok:
  assumes "open_mtg name s = Some (OK, s0)" and "at_rest s0 sb ln ch m" and "m t = Some c"
    and "check c = OK" and "may_edit s0 c"
  shows "edit_start name t check s = Some (OK, Some c, with_super sb ln ch (begin_atomic s0))"
    and "editing (with_super sb ln ch (begin_atomic s0)) ln ch m"
proof -
  let ?s = "with_super sb ln ch (begin_atomic s0)"
  note b = edit_begin [OF assms(2)]
  show "editing ?s ln ch m" by (rule b)
  then have r: "read_chain ?s t None = Some (OK, Some c)"
    using read_chain_rep [of ?s m t c None] assms(3) by (simp add: editing_def)
  have t: "read_trn ?s = read_trn s0" by (rule read_trn_cong) (simp_all add: with_super_def begin_atomic_def)
  have a: "has_trn_access ?s = has_trn_access s0" by (rule access_cong) (simp_all add: with_super_def begin_atomic_def)
  from assms(5) obtain th sj au sg where
    rt: "read_trn s0 (cb_trn_addr c) False True False = Some (OK, th, sj, au, sg)" "has_trn_access s0 au CHR ''d'' = Some True"
    by (auto simp: may_edit_def split: option.splits)
  show "edit_start name t check s = Some (OK, Some c, ?s)"
    by (simp add: edit_start_def assms(1,4) b(1) r t rt a)
qed

lemma linked_dom:
  assumes "linked m t c"
  shows "cb_prev c \<noteq> 0 \<Longrightarrow> m (cb_prev c) \<noteq> None" "cb_next c \<noteq> 0 \<Longrightarrow> m (cb_next c) \<noteq> None"
    "cb_pref c \<noteq> 0 \<Longrightarrow> m (cb_pref c) \<noteq> None" "cb_nref c \<noteq> 0 \<Longrightarrow> m (cb_nref c) \<noteq> None"
  using beforeD(1) [OF linkedD(1) [OF assms]] afterD(1) [OF linkedD(2) [OF assms]]
    beforeD(1) [OF linkedD(3) [OF assms]] afterD(1) [OF linkedD(4) [OF assms]]
  by (auto simp: live_def live_chain_def)

lemma chain_dom:
  assumes "mtg_inv sb m" and "m t = Some c" and "cb_trn_addr c \<noteq> 0"
  shows "cb_trn_chain c \<noteq> 0" and "m (cb_trn_chain c) \<noteq> None"
proof -
  have "1 \<le> cb_trn_chain c \<and> cb_trn_chain c \<le> ms_highest_chain sb"
    using assms unfolding mtg_inv_def by metis
  with assms(1) have "cb_trn_chain c \<noteq> 0 \<and> cb_trn_chain c \<in> dom m" by (auto simp: mtg_inv_def)
  then show "cb_trn_chain c \<noteq> 0" and "m (cb_trn_chain c) \<noteq> None" by (simp_all add: domIff)
qed

text \<open>The last step: the ends of the list in the superblock.\<close>

lemma editing_super:
  assumes "editing s ln ch m" and "fits 4 a" and "fits 4 b"
  shows "editing (s\<lparr>super := (super s)\<lparr>ms_first := a, ms_last := b\<rparr>\<rparr>) ln ch m"
proof -
  have "super_ok ((super s)\<lparr>ms_first := a, ms_last := b\<rparr>)"
    using assms by (auto simp: editing_def rep_def sb_ok_def super_ok_def super_fields_def super_widths_def)
  moreover have "blocks_in v sw (super s) m \<Longrightarrow> blocks_in v sw ((super s)\<lparr>ms_first := a, ms_last := b\<rparr>) m" for v sw
    by (erule blocks_in_super) simp_all
  moreover have "ctl_view (s\<lparr>super := x\<rparr>) = ctl_view s" "ctl_ok (s\<lparr>super := x\<rparr>) = ctl_ok s" for x
    by (simp_all add: ctl_view_def ctl_ok_def ctl_inv_def)
  ultimately show ?thesis using assms(1)
    by (auto simp: editing_def rep_def sb_ok_def names_ok_def string_area_def)
qed

lemma edit_end_ends:
  assumes "editing s ln ch m" and "fits 4 a" and "fits 4 b"
  shows "\<exists>s1. write_super (s\<lparr>super := (super s)\<lparr>ms_first := a, ms_last := b\<rparr>\<rparr>) = Some s1 \<and>
    at_rest (end_atomic s1) ((super s)\<lparr>ms_first := a, ms_last := b\<rparr>) ln ch m \<and> op_frame s (end_atomic s1)"
  using edit_end [OF editing_super [OF assms]] op_frame_trans [OF op_frame_steps(3) [of s]] by fastforce

lemma super_ends_fit:
  assumes "editing s ln ch m"
  shows "fits 4 (ms_first (super s))" and "fits 4 (ms_last (super s))"
  using assms by (auto simp: editing_def rep_def sb_ok_def super_ok_def super_fields_def super_widths_def)

text \<open>What the two operations leave in the file.\<close>

lemma delete_trn_blocks:
  assumes "open_mtg name s = Some (OK, s0)" and "at_rest s0 sb ln ch m" and "mtg_inv sb m"
    and "m t = Some c" and "\<not> deleted c" and "may_edit s0 c"
  defines "d \<equiv> c\<lparr>cb_flags := i16 (cb_flags c OR CB_DELETED)\<rparr>"
  shows "\<exists>s'. delete_trn name t s = Some (OK, s') \<and> op_frame s0 s' \<and>
    at_rest s' (super_without c sb) ln ch (unlinked c (m(t \<mapsto> d)))"
proof -
  let ?s1 = "with_super sb ln ch (begin_atomic s0)"
  note live = mtg_inv_live [OF assms(3,4,5)]
  have chk: "not_deleted c = OK" using assms(5) live(5) by (simp add: not_deleted_def)
  note e = edit_start_ok [where check = not_deleted, OF assms(1,2,4) chk assms(6)]
  have c: "blk_ok (super ?s1) t c" by (rule editing_blk [OF e(2) assms(4)])
  then have d: "blk_ok (super ?s1) t d" unfolding d_def by (rule blk_ok_update) simp
  from write_chain_editing [OF e(2) d] obtain s2 where
    s2: "write_chain ?s1 d = Some (OK, s2)" "goes_on ?s1 s2 ln ch (m(t \<mapsto> d))" by blast
  then have e2: "editing s2 ln ch (m(t \<mapsto> d))" "super s2 = sb" by (simp_all add: goes_on_def)
  have dm: "(m(t \<mapsto> d)) x \<noteq> None" if "m x \<noteq> None" for x using that by simp
  note dl = linked_dom [OF live(1), THEN dm] chain_dom [OF assms(3,4) live(5)]
  obtain s3 where s3: "delete_links d s2 = Some (OK, s3)" "goes_on s2 s3 ln ch (unlinked d (m(t \<mapsto> d)))"
    using delete_links_ok [OF e2(1), of t d] d dl(1-4,5) dm [OF dl(6)] by (auto simp: d_def e2(2))
  have "repoint d n p nr pr u = repoint c n p nr pr u" for n p nr pr u by (simp add: repoint_def d_def fun_eq_iff)
  then have rp: "repoint d = repoint c" by blast
  have "cb_next d = cb_next c" "cb_prev d = cb_prev c" "cb_nref d = cb_nref c" "cb_pref d = cb_pref c" by (simp_all add: d_def)
  then have "unlinked d x = unlinked c x" for x by (simp add: unlinked_def relinked_apply rp fun_eq_iff)
  with s3 e2 have e3: "editing s3 ln ch (unlinked c (m(t \<mapsto> d)))" "super s3 = sb" by (simp_all add: goes_on_def)
  define a where "a = (if cb_prev c = 0 then cb_next c else ms_first sb)"
  define b where "b = (if cb_next c = 0 then cb_prev c else ms_last sb)"
  have fit: "fits 4 a" "fits 4 b"
    using super_ends_fit [OF e3(1)] blk_ok_fits [OF c] by (simp_all add: a_def b_def e3(2))
  have sw: "super_without c sb = sb\<lparr>ms_first := a, ms_last := b\<rparr>" by (simp add: super_without_def a_def b_def)
  from edit_end_ends [OF e3(1) fit] obtain s4 where
    s4: "write_super (s3\<lparr>super := super_without c sb\<rparr>) = Some s4"
      "at_rest (end_atomic s4) (super_without c sb) ln ch (unlinked c (m(t \<mapsto> d)))" "op_frame s3 (end_atomic s4)"
    by (auto simp: sw e3(2))
  have code: "(if cb_next c = 0 then (if cb_prev c = 0 then sb\<lparr>ms_first := cb_next c\<rparr> else sb)\<lparr>ms_last := cb_prev c\<rparr>
       else if cb_prev c = 0 then sb\<lparr>ms_first := cb_next c\<rparr> else sb) = super_without c sb"
    by (auto simp: super_without_def intro!: mtg_super.equality)
  have "delete_trn name t s = Some (OK, end_atomic s4)"
    using s2(1) s3(1) s4(1) code by (simp add: delete_trn_def e(1) e3(2) Let_def split del: if_split cong: if_cong flip: d_def)
  moreover have "op_frame s0 (end_atomic s4)"
    using edit_begin(3) [OF assms(2)] s2(2) s3(2) s4(3) unfolding goes_on_def by (blast intro: op_frame_trans)
  ultimately show ?thesis using s4(2) by blast
qed

text \<open>
  C9. Deleting a transaction of a meeting at rest succeeds when the caller may edit it: the
  transaction leaves the set of live transactions and no other does, and the control file again
  holds a meeting, whose two kinds of lists run through exactly the live transactions.
\<close>

theorem delete_trn_refines:
  assumes "open_mtg name s = Some (OK, s0)" and "at_rest s0 sb ln ch m" and "mtg_inv sb m"
    and "m t = Some c" and "\<not> deleted c" and "may_edit s0 c"
  shows "\<exists>s' sb' m'. delete_trn name t s = Some (OK, s') \<and> at_rest s' sb' ln ch m' \<and> mtg_inv sb' m' \<and>
    live m' = live m - {t} \<and> op_frame s0 s'"
  using delete_trn_blocks [OF assms] delete_inv [OF assms(3-5), of "c\<lparr>cb_flags := i16 (cb_flags c OR CB_DELETED)\<rparr>"]
  by force

theorem delete_trn_refines_witness:
  "\<exists>s' sb' m'. delete_trn ''/m'' 2 demo_srv = Some (OK, s') \<and> at_rest s' sb' ''demo'' ''srz'' m' \<and>
     mtg_inv sb' m' \<and> live m' = {1, 3} \<and> op_frame demo_srv s'"
  using delete_trn_refines [OF open_on_again [OF demo_open] demo_at_rest demo_inv demo_2_facts(1,2,4)]
  by (simp add: demo_live insert_Diff_if)

end
