(* ===== verification/Retrieve.thy ===== *)
theory Retrieve
  imports Delete
begin

text \<open>
  \<open>retrieve_trn\<close>: its four searches find the neighbours of the transaction that comes back, among
  the transactions that are live now, and it undoes \<open>delete_trn\<close>.
\<close>

subsection \<open>The searches\<close>

lemma live_block:
  assumes "rep s m" and "mtg_inv sb m" and "t \<in> live m"
  obtains b where "m t = Some b" and "read_chain s t sp = Some (OK, Some b)" and "linked m t b"
proof -
  from assms(3) obtain b where b: "m t = Some b" "\<not> deleted b" by (auto simp: live_def)
  with read_chain_rep [OF assms(1) b(1)] mtg_inv_live(1) [OF assms(2) b] that show ?thesis by blast
qed

lemma find_pref_ok:
  assumes "rep s m" and "mtg_inv sb m" and "t \<notin> live_chain m k" and "p \<in> live_chain m k" and "p < t"
  shows "\<exists>q sp'. find_pref t p sp s = Some (OK, q, sp') \<and> before (live_chain m k) t q"
  using assms(4,5)
proof (induction "nat (t - p)" arbitrary: p sp rule: less_induct)
  case less
  let ?S = "live_chain m k"
  have "p \<in> live m" using less.prems(1) live_chain_sub by blast
  then obtain b where b: "m p = Some b" "read_chain s p sp = Some (OK, Some b)" "linked m p b"
    by (rule live_block [OF assms(1,2)])
  have "cb_trn_chain b = k" using less.prems(1) b(1) by (simp add: live_chain_def)
  with b(3) have n: "after ?S p (cb_nref b)" by (simp add: linked_def)
  have p0: "p \<noteq> 0" using less.prems(1) mtg_inv_positive(5) [OF assms(2)] by metis
  show ?case
  proof (cases "t < cb_nref b \<or> cb_nref b = 0")
    case True
    have "before ?S t p"
      using less.prems p0 afterD(3,4) [OF n] True by (fastforce simp: before_def not_less)
    moreover have "find_pref t p sp s = Some (OK, p, Some b)"
      using True p0 b(2) by (subst find_pref.simps) auto
    ultimately show ?thesis by blast
  next
    case False
    then have nr: "cb_nref b \<in> ?S" "p < cb_nref b" "cb_nref b < t"
      using afterD(1,2) [OF n] assms(3) by (metis linorder_neqE_linordered_idom)+
    then obtain q sp' where "find_pref t (cb_nref b) (Some b) s = Some (OK, q, sp')" "before ?S t q"
      using less.hyps [of "cb_nref b" "Some b"] by auto
    moreover have "find_pref t p sp s = find_pref t (cb_nref b) (Some b) s"
      using False p0 b(2) by (subst find_pref.simps) auto
    ultimately show ?thesis by auto
  qed
qed

lemma find_nref_ok:
  assumes "rep s m" and "mtg_inv sb m" and "t \<notin> live_chain m k" and "p \<in> live_chain m k" and "t < p" and "0 < t"
  shows "\<exists>q sp'. find_nref t p sp s = Some (OK, q, sp') \<and> after (live_chain m k) t q"
  using assms(4,5)
proof (induction "nat (p - t)" arbitrary: p sp rule: less_induct)
  case less
  let ?S = "live_chain m k"
  have "p \<in> live m" using less.prems(1) live_chain_sub by blast
  then obtain b where b: "m p = Some b" "read_chain s p sp = Some (OK, Some b)" "linked m p b"
    by (rule live_block [OF assms(1,2)])
  have "cb_trn_chain b = k" using less.prems(1) b(1) by (simp add: live_chain_def)
  with b(3) have n: "before ?S p (cb_pref b)" by (simp add: linked_def)
  have p0: "p \<noteq> 0" using less.prems(2) assms(6) by simp
  show ?case
  proof (cases "cb_pref b < t")
    case True
    have "after ?S t p"
      using less.prems p0 beforeD(4) [OF n] True by (fastforce simp: after_def not_less)
    moreover have "find_nref t p sp s = Some (OK, p, Some b)"
      using True p0 b(2) by (subst find_nref.simps) auto
    ultimately show ?thesis by blast
  next
    case False
    then have nr: "cb_pref b \<in> ?S" "cb_pref b < p" "t < cb_pref b"
      using beforeD(1,2) [OF n] assms(3,6) by (metis linorder_neqE_linordered_idom)+
    then obtain q sp' where "find_nref t (cb_pref b) (Some b) s = Some (OK, q, sp')" "after ?S t q"
      using less.hyps [of "cb_pref b" "Some b"] by auto
    moreover have "find_nref t p sp s = find_nref t (cb_pref b) (Some b) s"
      using False p0 b(2) by (subst find_nref.simps) auto
    ultimately show ?thesis by auto
  qed
qed

lemma find_prev_ok:
  assumes "rep s m" and "mtg_inv sb m" and "l \<in> live m" and "l \<le> p" and "p < t" and "t \<le> ms_highest sb"
    and "\<forall>x \<in> live m. x < t \<longrightarrow> x \<le> p"
  shows "\<exists>q sp'. find_prev p sp s = Some (OK, q, sp') \<and> before (live m) t q"
  using assms(4,5,7)
proof (induction "nat (p - l)" arbitrary: p sp rule: less_induct)
  case less
  have l: "0 < l" using assms(3) mtg_inv_positive(2) [OF assms(2)] by blast
  have "p \<in> dom m" using assms(2) less.prems(1,2) assms(6) l by (simp add: mtg_inv_def)
  then obtain b where b: "m p = Some b" by auto
  note r = read_chain_rep [OF assms(1) b, of sp]
  show ?case
  proof (cases "deleted b")
    case False
    then have "before (live m) t p" using b less.prems l by (auto simp: before_def in_live)
    moreover have "find_prev p sp s = Some (OK, p, Some b)"
      using False less.prems(1) l r by (subst find_prev.simps) auto
    ultimately show ?thesis by blast
  next
    case True
    then have np: "p \<notin> live m" using b by (simp add: in_live)
    with assms(3) less.prems(1) have "l \<le> p - 1" by (cases "l = p") auto
    moreover have "\<forall>x \<in> live m. x < t \<longrightarrow> x \<le> p - 1" using less.prems(3) np by (metis zle_diff1_eq order_le_less)
    ultimately obtain q sp' where "find_prev (p - 1) (Some b) s = Some (OK, q, sp')" "before (live m) t q"
      using less.hyps [of "p - 1" "Some b"] less.prems(2) by auto
    moreover have "find_prev p sp s = find_prev (p - 1) (Some b) s"
      using True less.prems(1) l r by (subst find_prev.simps) auto
    ultimately show ?thesis by auto
  qed
qed

lemma find_next_ok:
  assumes "rep s m" and "mtg_inv sb m" and "l \<in> live m" and "p \<le> l" and "t < p" and "0 < t"
    and "\<forall>x \<in> live m. t < x \<longrightarrow> p \<le> x"
  shows "\<exists>q sp'. find_next p sp s = Some (OK, q, sp') \<and> after (live m) t q"
  using assms(4,5,7)
proof (induction "nat (l - p)" arbitrary: p sp rule: less_induct)
  case less
  have "l \<in> dom m" using assms(3) by (auto simp: live_def)
  then have "p \<in> dom m" using assms(2) less.prems(1,2) assms(6) by (simp add: mtg_inv_def)
  then obtain b where b: "m p = Some b" by auto
  note r = read_chain_rep [OF assms(1) b, of sp]
  show ?case
  proof (cases "deleted b")
    case False
    then have "after (live m) t p" using b less.prems assms(6) by (auto simp: after_def in_live)
    moreover have "find_next p sp s = Some (OK, p, Some b)"
      using False less.prems(2) assms(6) r by (subst find_next.simps) auto
    ultimately show ?thesis by blast
  next
    case True
    then have np: "p \<notin> live m" using b by (simp add: in_live)
    with assms(3) less.prems(1) have "p + 1 \<le> l" by (cases "l = p") auto
    moreover have "\<forall>x \<in> live m. t < x \<longrightarrow> p + 1 \<le> x" using less.prems(3) np by (metis zless_imp_add1_zle order_le_less)
    ultimately obtain q sp' where "find_next (p + 1) (Some b) s = Some (OK, q, sp')" "after (live m) t q"
      using less.hyps [of "p + 1" "Some b"] less.prems(2) by auto
    moreover have "find_next p sp s = find_next (p + 1) (Some b) s"
      using True less.prems(2) assms(6) r by (subst find_next.simps) auto
    ultimately show ?thesis by auto
  qed
qed

lemma retrieve_search_ok:
  assumes "rep s m" and inv: "mtg_inv (super s) m" and c: "m t = Some c" "deleted c" "cb_trn_addr c \<noteq> 0"
  shows "\<exists>d sp. retrieve_search c s = Some (OK, d, sp) \<and> linked m t d \<and>
    d = c\<lparr>cb_prev := cb_prev d, cb_next := cb_next d, cb_pref := cb_pref d, cb_nref := cb_nref d\<rparr>"
proof -
  let ?S = "live_chain m (cb_trn_chain c)"
  have cur: "cb_current c = t" using assms(1) c(1) by (auto simp: rep_def blocks_in_def blk_ok_def)
  have t: "t \<notin> live m" "t \<notin> ?S" using c by (simp_all add: in_live)
  have "t \<in> dom m" using c(1) by auto
  then have tr: "1 \<le> t" "t \<le> ms_highest (super s)" using inv by (simp_all add: mtg_inv_def)
  from chain_dom [OF inv c(1,3)] obtain h where h: "m (cb_trn_chain c) = Some h" by auto
  have e: "least ?S (cb_chain_fref h)" "greatest ?S (cb_chain_lref h)"
    using inv h by (auto simp: mtg_inv_def chain_ends_def)
  have l: "least (live m) (ms_first (super s))" "greatest (live m) (ms_last (super s))"
    using inv by (simp_all add: mtg_inv_def)
  obtain p1 sp1 where 1: "find_pref t (if t < cb_chain_fref h \<or> cb_chain_fref h = 0 then 0 else cb_chain_fref h) None s = Some (OK, p1, sp1)"
    "before ?S t p1"
  proof (cases "t < cb_chain_fref h \<or> cb_chain_fref h = 0")
    case True
    then have "before ?S t 0" using leastD(2,3) [OF e(1)] by (fastforce simp: before_def)
    moreover have "find_pref t 0 None s = Some (OK, 0, None)" by (subst find_pref.simps) simp
    ultimately show thesis using that True by simp
  next
    case False
    then have f: "cb_chain_fref h \<in> ?S" using leastD(1) [OF e(1)] by simp
    with False t(2) have "cb_chain_fref h < t" by (metis linorder_neqE_linordered_idom)
    from find_pref_ok [OF assms(1,2) t(2) f this] False show thesis using that by auto
  qed
  obtain n1 sp2 where 2: "find_nref t (if cb_chain_lref h < t then 0 else cb_chain_lref h) sp1 s = Some (OK, n1, sp2)"
    "after ?S t n1"
  proof (cases "cb_chain_lref h < t")
    case True
    then have "after ?S t 0" using greatestD(3) [OF e(2)] by (fastforce simp: after_def)
    moreover have "find_nref t 0 sp1 s = Some (OK, 0, sp1)" by (subst find_nref.simps) simp
    ultimately show thesis using that True by simp
  next
    case False
    then have f: "cb_chain_lref h \<in> ?S" using greatestD(1) [OF e(2)] tr(1) by simp
    with False t(2) have "t < cb_chain_lref h" by (metis linorder_neqE_linordered_idom)
    from find_nref_ok [OF assms(1,2) t(2) f this] False tr(1) show thesis using that by auto
  qed
  obtain p2 sp3 where 3: "find_prev (if t < ms_first (super s) \<or> ms_first (super s) = 0 then 0 else t - 1) sp2 s = Some (OK, p2, sp3)"
    "before (live m) t p2"
  proof (cases "t < ms_first (super s) \<or> ms_first (super s) = 0")
    case True
    then have "before (live m) t 0" using leastD(2,3) [OF l(1)] by (fastforce simp: before_def)
    moreover have "find_prev 0 sp2 s = Some (OK, 0, sp2)" by (subst find_prev.simps) simp
    ultimately show thesis using that True by simp
  next
    case False
    then have f: "ms_first (super s) \<in> live m" using leastD(1) [OF l(1)] by simp
    with False t(1) have "ms_first (super s) \<le> t - 1" by (metis linorder_neqE_linordered_idom zle_diff1_eq)
    from find_prev_ok [where t = t and sp = sp2, OF assms(1,2) f this] False tr(2) show thesis using that by auto
  qed
  obtain n2 sp4 where 4: "find_next (if ms_last (super s) < t then 0 else t + 1) sp3 s = Some (OK, n2, sp4)"
    "after (live m) t n2"
  proof (cases "ms_last (super s) < t")
    case True
    then have "after (live m) t 0" using greatestD(3) [OF l(2)] by (fastforce simp: after_def)
    moreover have "find_next 0 sp3 s = Some (OK, 0, sp3)" by (subst find_next.simps) simp
    ultimately show thesis using that True by simp
  next
    case False
    then have f: "ms_last (super s) \<in> live m" using greatestD(1) [OF l(2)] tr(1) by simp
    with False t(1) have "t + 1 \<le> ms_last (super s)" by (metis linorder_neqE_linordered_idom zless_imp_add1_zle)
    from find_next_ok [where t = t and sp = sp3, OF assms(1,2) f this] False tr(1) show thesis using that by auto
  qed
  define d where "d = c\<lparr>cb_pref := p1, cb_nref := n1, cb_prev := p2, cb_next := n2\<rparr>"
  have "retrieve_search c s = Some (OK, d, sp4)"
    using 1(1) 2(1) 3(1) 4(1)
    by (simp add: retrieve_search_def read_chain_rep [OF assms(1) h] cur d_def split del: if_split cong: if_cong)
  moreover have "linked m t d" using 1(2) 2(2) 3(2) 4(2) by (simp add: linked_def d_def)
  moreover have "d = c\<lparr>cb_prev := cb_prev d, cb_next := cb_next d, cb_pref := cb_pref d, cb_nref := cb_nref d\<rparr>"
    by (simp add: d_def)
  ultimately show ?thesis by blast
qed

subsection \<open>Bringing a transaction back\<close>

lemma retrieve_trn_blocks:
  assumes "open_mtg name s = Some (OK, s0)" and "at_rest s0 sb ln ch m" and "mtg_inv sb m"
    and "m t = Some c" and "deleted c" and "cb_trn_addr c \<noteq> 0" and "may_edit s0 c"
  shows "\<exists>s' d. retrieve_trn name t s = Some (OK, s') \<and> op_frame s0 s' \<and> rejoins m t c d \<and>
    cb_flags d = i16 (cb_flags c AND NOT CB_DELETED) \<and>
    at_rest s' (super_with d sb) ln ch (linked_in d (m(t \<mapsto> d)))"
proof -
  let ?s1 = "with_super sb ln ch (begin_atomic s0)"
  have chk: "was_deleted c = OK" using assms(5,6) by (simp add: was_deleted_def)
  note e = edit_start_ok [where check = was_deleted, OF assms(1,2,4) chk assms(7)]
  have c: "blk_ok (super ?s1) t c" by (rule editing_blk [OF e(2) assms(4)])
  have rp: "rep ?s1 m" using e(2) by (simp add: editing_def)
  from retrieve_search_ok [OF rp _ assms(4-6)] assms(3) obtain d0 sp where
    d0: "retrieve_search c ?s1 = Some (OK, d0, sp)" "linked m t d0"
    "d0 = c\<lparr>cb_prev := cb_prev d0, cb_next := cb_next d0, cb_pref := cb_pref d0, cb_nref := cb_nref d0\<rparr>" by auto
  define d where "d = d0\<lparr>cb_flags := i16 (cb_flags d0 AND NOT CB_DELETED)\<rparr>"
  have df: "cb_flags d0 = cb_flags c" "cb_current d0 = cb_current c" "cb_trn_chain d0 = cb_trn_chain c"
    by (subst d0(3), simp)+
  have cur: "cb_current c = t" using c by (simp add: blk_ok_def)
  have rj: "rejoins m t c d"
    using d0(2) df cur unfolding rejoins_def d_def by (simp add: linked_def) (subst d0(3), simp)
  have neigh: "x \<noteq> 0 \<Longrightarrow> x \<in> {cb_prev d, cb_next d, cb_pref d, cb_nref d} \<Longrightarrow> m x \<noteq> None" for x
    using linked_dom [OF d0(2)] by (auto simp: d_def)
  have fit: "fits 4 (cb_prev d0)" "fits 4 (cb_next d0)" "fits 4 (cb_pref d0)" "fits 4 (cb_nref d0)"
  proof -
    have "fits 4 x" if "x \<in> {cb_prev d, cb_next d, cb_pref d, cb_nref d}" for x
    proof (cases "x = 0")
      case True
      then show ?thesis by (simp add: fits_def)
    next
      case False
      with neigh that obtain b where "m x = Some b" by blast
      note bk = editing_blk [OF e(2) this]
      from blk_ok_fits(5) [OF bk] bk show ?thesis by (simp add: blk_ok_def)
    qed
    then show "fits 4 (cb_prev d0)" "fits 4 (cb_next d0)" "fits 4 (cb_pref d0)" "fits 4 (cb_nref d0)"
      by (simp_all add: d_def)
  qed
  have d: "blk_ok (super ?s1) t d"
    unfolding d_def by (subst d0(3)) (intro blk_ok_update c fit fits_i32_i16)
  from write_chain_editing [OF e(2) d] obtain s2 where
    s2: "write_chain ?s1 d = Some (OK, s2)" "goes_on ?s1 s2 ln ch (m(t \<mapsto> d))" by blast
  then have e2: "editing s2 ln ch (m(t \<mapsto> d))" "super s2 = sb" by (simp_all add: goes_on_def)
  have dm: "(m(t \<mapsto> d)) x \<noteq> None" if "m x \<noteq> None" for x using that by simp
  have kc: "cb_trn_chain d = cb_trn_chain c" by (simp add: d_def df)
  note kd = chain_dom [OF assms(3,4,6)]
  obtain s3 where s3: "retrieve_links d sp s2 = Some (OK, s3)" "goes_on s2 s3 ln ch (linked_in d (m(t \<mapsto> d)))"
    using retrieve_links_ok [OF e2(1), of t d sp] d neigh dm kd by (auto simp: e2(2) kc)
  with e2 have e3: "editing s3 ln ch (linked_in d (m(t \<mapsto> d)))" "super s3 = sb" by (simp_all add: goes_on_def)
  define a where "a = (if cb_prev d = 0 then cb_current d else ms_first sb)"
  define b where "b = (if cb_next d = 0 then cb_current d else ms_last sb)"
  have fab: "fits 4 a" "fits 4 b"
    using super_ends_fit [OF e3(1)] blk_ok_fits [OF d] by (simp_all add: a_def b_def e3(2))
  have sw: "super_with d sb = sb\<lparr>ms_first := a, ms_last := b\<rparr>" by (simp add: super_with_def a_def b_def)
  from edit_end_ends [OF e3(1) fab] obtain s4 where
    s4: "write_super (s3\<lparr>super := super_with d sb\<rparr>) = Some s4"
      "at_rest (end_atomic s4) (super_with d sb) ln ch (linked_in d (m(t \<mapsto> d)))" "op_frame s3 (end_atomic s4)"
    by (auto simp: sw e3(2))
  have code: "(if cb_next d0 = 0 then (if cb_prev d0 = 0 then sb\<lparr>ms_first := cb_current d0\<rparr> else sb)\<lparr>ms_last := cb_current d0\<rparr>
       else if cb_prev d0 = 0 then sb\<lparr>ms_first := cb_current d0\<rparr> else sb) = super_with d sb"
    by (auto simp: super_with_def d_def intro!: mtg_super.equality)
  have "retrieve_trn name t s = Some (OK, end_atomic s4)"
    using s2(1) s3(1) s4(1) code
    by (simp add: retrieve_trn_def e(1) d0(1) e3(2) Let_def split del: if_split cong: if_cong flip: d_def)
  moreover have "op_frame s0 (end_atomic s4)"
    using edit_begin(3) [OF assms(2)] s2(2) s3(2) s4(3) unfolding goes_on_def by (blast intro: op_frame_trans)
  ultimately show ?thesis using s4(2) rj by (auto simp: d_def df)
qed

text \<open>
  C10. Retrieving a deleted transaction, one that has not been expunged, succeeds when the caller
  may edit it, and terminates: exactly this transaction joins the set of live ones, and the
  control file again holds a meeting whose lists run through exactly the live transactions, even
  when its neighbours have been deleted or retrieved in the meantime.
\<close>

theorem retrieve_trn_refines:
  assumes "open_mtg name s = Some (OK, s0)" and "at_rest s0 sb ln ch m" and "mtg_inv sb m"
    and "m t = Some c" and "deleted c" and "cb_trn_addr c \<noteq> 0" and "may_edit s0 c"
  shows "\<exists>s' sb' m'. retrieve_trn name t s = Some (OK, s') \<and> at_rest s' sb' ln ch m' \<and> mtg_inv sb' m' \<and>
    live m' = insert t (live m) \<and> op_frame s0 s'"
proof -
  from retrieve_trn_blocks [OF assms] obtain s' d where
    "retrieve_trn name t s = Some (OK, s')" "op_frame s0 s'" "rejoins m t c d"
    "at_rest s' (super_with d sb) ln ch (linked_in d (m(t \<mapsto> d)))" by blast
  with retrieve_inv [OF assms(3-6)] show ?thesis by blast
qed

theorem retrieve_trn_refines_witness:
  "\<exists>s1 s' sb' m'. delete_trn ''/m'' 2 demo_srv = Some (OK, s1) \<and> retrieve_trn ''/m'' 2 s1 = Some (OK, s') \<and>
     at_rest s' sb' ''demo'' ''srz'' m' \<and> mtg_inv sb' m' \<and> live m' = {1, 2, 3}"
proof -
  define d where "d = demo_2\<lparr>cb_flags := i16 (cb_flags demo_2 OR CB_DELETED)\<rparr>"
  let ?m1 = "unlinked demo_2 (demo_chains(2 \<mapsto> d))"
  have d: "deleted d" "d = demo_2\<lparr>cb_flags := cb_flags d\<rparr>" by (simp_all add: d_def)
  obtain s1 where s1: "delete_trn ''/m'' 2 demo_srv = Some (OK, s1)" "op_frame demo_srv s1"
    "at_rest s1 (super_without demo_2 demo_sb) ''demo'' ''srz'' ?m1"
    using delete_trn_blocks [OF open_on_again [OF demo_open] demo_at_rest demo_inv demo_2_facts(1,2,4)] by (auto simp: d_def)
  obtain d' where d': "?m1 2 = Some d'" "deleted d'" "cb_trn_addr d' = 28"
    by (simp add: unlinked_def relinked_apply d_def demo_2_facts)
  have "may_edit s1 d'"
    using demo_2_facts(4) may_edit_frame [OF demo_open s1(2), of demo_2] by (simp add: may_edit_def d'(3) demo_2_facts(3))
  moreover have "cb_trn_addr d' \<noteq> 0" using d'(3) by simp
  ultimately obtain s' sb' m' where "retrieve_trn ''/m'' 2 s1 = Some (OK, s')" "at_rest s' sb' ''demo'' ''srz'' m'"
    "mtg_inv sb' m'" "live m' = insert 2 (live ?m1)"
    using retrieve_trn_refines [OF open_on_again [OF open_on_frame [OF demo_open s1(2)]] s1(3)
        delete_inv(1) [OF demo_inv demo_2_facts(1,2) d] d'(1,2)] by blast
  moreover have "live ?m1 = {1, 3}"
    unfolding delete_inv(2) [OF demo_inv demo_2_facts(1,2) d] demo_live by auto
  moreover have "insert 2 {1, 3} = {1, 2, (3 :: int)}" by auto
  ultimately show ?thesis using s1(1) by metis
qed

subsection \<open>Undoing a deletion\<close>

text \<open>
  C18. Retrieving undoes deleting: after \<open>delete_trn\<close> and \<open>retrieve_trn\<close> of the same transaction
  both calls have succeeded and the control file holds the superblock and every block, with all
  links and ends of chains, exactly as before.
\<close>

theorem delete_retrieve_roundtrip:
  assumes "open_on s name" and "at_rest s sb ln ch m" and "mtg_inv sb m"
    and "m t = Some c" and "\<not> deleted c" and "may_edit s c"
  shows "\<exists>s1 s2. delete_trn name t s = Some (OK, s1) \<and> retrieve_trn name t s1 = Some (OK, s2) \<and>
    live m - {t} \<noteq> live m \<and> at_rest s2 sb ln ch m \<and> op_frame s s2"
proof -
  define d where "d = c\<lparr>cb_flags := i16 (cb_flags c OR CB_DELETED)\<rparr>"
  let ?m1 = "unlinked c (m(t \<mapsto> d))"
  have o: "open_mtg name s = Some (OK, s)" by (rule open_on_again [OF assms(1)])
  from delete_trn_blocks [OF o assms(2-6)] obtain s1 where
    s1: "delete_trn name t s = Some (OK, s1)" "op_frame s s1" "at_rest s1 (super_without c sb) ln ch ?m1"
    by (auto simp: d_def)
  have d: "deleted d" "d = c\<lparr>cb_flags := cb_flags d\<rparr>" by (simp_all add: d_def)
  note inv1 = delete_inv(1) [OF assms(3-5) d]
  note live = mtg_inv_live [OF assms(3-5)]
  have blk: "blk_ok sb t c" using assms(2,4) by (auto simp: at_rest_def mtg_in_def blocks_in_def)
  define d' where "d' = repoint c (cb_next c) (cb_prev c) (cb_nref c) (cb_pref c) t d"
  have m1: "?m1 t = Some d'" by (simp add: unlinked_def relinked_apply d'_def)
  have d': "deleted d'" "cb_trn_addr d' \<noteq> 0" "cb_flags d' = i16 (cb_flags c OR CB_DELETED)"
    using live(5) by (simp_all add: d'_def d_def)
  have o1: "open_mtg name s1 = Some (OK, s1)" by (rule open_on_again [OF open_on_frame [OF assms(1) s1(2)]])
  have "may_edit s1 d'"
    using assms(6) may_edit_frame [OF assms(1) s1(2), of c] by (simp add: may_edit_def d'_def d_def)
  from retrieve_trn_blocks [OF o1 s1(3) inv1 m1 d'(1,2) this] obtain s2 e where
    s2: "retrieve_trn name t s1 = Some (OK, s2)" "op_frame s1 s2" "rejoins ?m1 t d' e"
      "cb_flags e = i16 (cb_flags d' AND NOT CB_DELETED)"
      "at_rest s2 (super_with e (super_without c sb)) ln ch (linked_in e (?m1(t \<mapsto> e)))" by blast
  have "cb_flags e = cb_flags c"
    using deleted_flags_back [OF blk_ok_fits(9) [OF blk]] assms(5) by (simp add: s2(4) d'(3))
  with delete_retrieve [OF assms(3-5) _ d m1 s2(3)] blk s2(5) have "at_rest s2 sb ln ch m" by (simp add: blk_ok_def)
  with s1(1) s2(1) op_frame_trans [OF s1(2) s2(2)] live(6) show ?thesis by blast
qed

theorem delete_retrieve_roundtrip_witness:
  "\<exists>s1 s2. delete_trn ''/m'' 2 demo_srv = Some (OK, s1) \<and> retrieve_trn ''/m'' 2 s1 = Some (OK, s2) \<and>
    live demo_chains - {2} \<noteq> live demo_chains \<and> at_rest s2 demo_sb ''demo'' ''srz'' demo_chains \<and> op_frame demo_srv s2"
  by (rule delete_retrieve_roundtrip [OF demo_open demo_at_rest demo_inv demo_2_facts(1,2,4)])

end
