(* ===== verification/Rpc.thy ===== *)
theory Rpc
  imports Core Acl_core
begin

text \<open>
  What the two sides of the remote procedure calls share, \<^verbatim>\<open>athena/bin/discuss/include/rpc.h\<close>:
  the procedure numbers, the block types, and the numbers of the result codes.  A result code
  travels as a long integer: 0, a system error number, or a number of one of the error tables
  of \<^verbatim>\<open>ets\<close>.  The base of a table is what \<open>compile_et\<close> documents: the letters of its name in
  six bits each, times 256.
\<close>

definition et_char :: "char \<Rightarrow> nat" where
  "et_char c =
     (let n = of_char c :: nat in
      if 65 \<le> n \<and> n \<le> 90 then n - 64 else if 97 \<le> n \<and> n \<le> 122 then n - 70
      else if 48 \<le> n \<and> n \<le> 57 then n + 5 else 63)"

definition et_base :: "string \<Rightarrow> int" where
  "et_base name = 256 * int (foldl (\<lambda>n c. 64 * n + et_char c) 0 name)"

definition ERROR_TABLE_BASE_rpc :: int where "ERROR_TABLE_BASE_rpc = et_base ''rpc''"
definition ERROR_TABLE_BASE_usp :: int where "ERROR_TABLE_BASE_usp = et_base ''usp''"
definition ERROR_TABLE_BASE_dsc :: int where "ERROR_TABLE_BASE_dsc = et_base ''dsc''"

definition RPC_PROTOCOL :: int where "RPC_PROTOCOL = ERROR_TABLE_BASE_rpc + 2"
definition RPC_NOT_INIT :: int where "RPC_NOT_INIT = ERROR_TABLE_BASE_rpc + 3"
definition RPC_UNIMPL_CALL :: int where "RPC_UNIMPL_CALL = ERROR_TABLE_BASE_rpc + 7"

text \<open>The numbers of \<open>errno\<close>; those of the system are Linux's.\<close>

primrec errno_int :: "errno \<Rightarrow> int" where
  "errno_int NoErr = 0"
| "errno_int ECONNRESET = 104"
| "errno_int EPIPE = 32"
| "errno_int UENOTRCVING = ERROR_TABLE_BASE_usp"
| "errno_int UENOTSENDING = ERROR_TABLE_BASE_usp + 1"
| "errno_int UECBNOTENDED = ERROR_TABLE_BASE_usp + 2"
| "errno_int UEPREMEOB = ERROR_TABLE_BASE_usp + 3"
| "errno_int UEBADATA = ERROR_TABLE_BASE_usp + 4"
| "errno_int UENOMEM = ERROR_TABLE_BASE_usp + 5"
| "errno_int UEINTERNAL = ERROR_TABLE_BASE_usp + 6"

fun code_int :: "code \<Rightarrow> int" where
  "code_int OK = 0"
| "code_int (ERRNO e) = e"
| "code_int (USP e) = errno_int e"
| "code_int DUP_MTG_NAME = ERROR_TABLE_BASE_dsc"
| "code_int BAD_PATH = ERROR_TABLE_BASE_dsc + 1"
| "code_int NO_ACCESS = ERROR_TABLE_BASE_dsc + 2"
| "code_int NO_SUCH_MTG = ERROR_TABLE_BASE_dsc + 3"
| "code_int NEW_VERSION = ERROR_TABLE_BASE_dsc + 4"
| "code_int INCONSISTENT = ERROR_TABLE_BASE_dsc + 5"
| "code_int BAD_MTG_NAME = ERROR_TABLE_BASE_dsc + 6"
| "code_int NO_SUCH_TRN = ERROR_TABLE_BASE_dsc + 7"
| "code_int DELETED_TRN = ERROR_TABLE_BASE_dsc + 8"
| "code_int NO_WRITE = ERROR_TABLE_BASE_dsc + 9"
| "code_int EXPUNGED_TRN = ERROR_TABLE_BASE_dsc + 10"
| "code_int TRN_NOT_DELETED = ERROR_TABLE_BASE_dsc + 11"
| "code_int CANNOT_REMOVE = ERROR_TABLE_BASE_dsc + 12"
| "code_int BAD_MODES = ERROR_TABLE_BASE_dsc + 13"
| "code_int NO_PRINC = ERROR_TABLE_BASE_dsc + 14"
| "code_int NO_MTGS_FILE = ERROR_TABLE_BASE_dsc + 15"
| "code_int BAD_MTGS_FILE = ERROR_TABLE_BASE_dsc + 16"
| "code_int YOU_TWIT = ERROR_TABLE_BASE_dsc + 17"
| "code_int NO_SUCH_USER = ERROR_TABLE_BASE_dsc + 18"
| "code_int CANT_WRITE_TEMP = ERROR_TABLE_BASE_dsc + 19"
| "code_int CANT_ATTEND = ERROR_TABLE_BASE_dsc + 20"
| "code_int NO_SUPPORT = ERROR_TABLE_BASE_dsc + 21"
| "code_int MTG_MOVED = ERROR_TABLE_BASE_dsc + 22"

definition ADD_TRN :: int where "ADD_TRN = 1"
definition GET_TRN_INFO :: int where "GET_TRN_INFO = 2"
definition DELETE_TRN :: int where "DELETE_TRN = 3"
definition RETRIEVE_TRN :: int where "RETRIEVE_TRN = 4"
definition CREATE_MTG :: int where "CREATE_MTG = 5"
definition OLD_GET_MTG_INFO :: int where "OLD_GET_MTG_INFO = 6"
definition START_MTG_INFO :: int where "START_MTG_INFO = 7"
definition NEXT_MTG_INFO :: int where "NEXT_MTG_INFO = 8"
definition GET_TRN :: int where "GET_TRN = 9"
definition REMOVE_MTG :: int where "REMOVE_MTG = 10"
definition UPDATED_MTG :: int where "UPDATED_MTG = 11"
definition GET_MTG_INFO :: int where "GET_MTG_INFO = 12"
definition GET_ACL :: int where "GET_ACL = 13"
definition GET_ACCESS :: int where "GET_ACCESS = 14"
definition SET_ACCESS :: int where "SET_ACCESS = 15"
definition DELETE_ACCESS :: int where "DELETE_ACCESS = 16"
definition WHO_AM_I :: int where "WHO_AM_I = 17"
definition GET_TRN_INFO2 :: int where "GET_TRN_INFO2 = 18"
definition GET_SERVER_VERSION :: int where "GET_SERVER_VERSION = 19"
definition SET_TRN_FLAGS :: int where "SET_TRN_FLAGS = 20"
definition ADD_TRN2 :: int where "ADD_TRN2 = 21"
definition GET_TRN_INFO3 :: int where "GET_TRN_INFO3 = 22"

lemmas proc_numbers = ADD_TRN_def GET_TRN_INFO_def DELETE_TRN_def RETRIEVE_TRN_def CREATE_MTG_def
  OLD_GET_MTG_INFO_def START_MTG_INFO_def NEXT_MTG_INFO_def GET_TRN_def REMOVE_MTG_def UPDATED_MTG_def
  GET_MTG_INFO_def GET_ACL_def GET_ACCESS_def SET_ACCESS_def DELETE_ACCESS_def WHO_AM_I_def
  GET_TRN_INFO2_def GET_SERVER_VERSION_def SET_TRN_FLAGS_def ADD_TRN2_def GET_TRN_INFO3_def

definition REPLY_TYPE :: int where "REPLY_TYPE = 440"
definition PROC_BASE :: int where "PROC_BASE = 400"
definition KRB_TICKET :: int where "KRB_TICKET = 501"
definition UNKNOWN_CALL :: int where "UNKNOWN_CALL = 502"
definition KRB_TICKET2 :: int where "KRB_TICKET2 = 503"
definition TICKET_REPLY :: int where "TICKET_REPLY = 504"

definition SERVER_0 :: int where "SERVER_0 = 0"
definition SERVER_3 :: int where "SERVER_3 = 3"

lemmas block_types = REPLY_TYPE_def PROC_BASE_def KRB_TICKET_def UNKNOWN_CALL_def KRB_TICKET2_def
  TICKET_REPLY_def TFILE_BLK_def CONNECTION_OPEN_def CONNECTION_ERROR_def CONNECTION_END_def

text \<open>Result codes are distinct numbers, but for the system's own.\<close>

lemma et_bases:
  "ERROR_TABLE_BASE_rpc = 46832896" "ERROR_TABLE_BASE_usp = 50031104" "ERROR_TABLE_BASE_dsc = 32201984"
  by (simp_all add: ERROR_TABLE_BASE_rpc_def ERROR_TABLE_BASE_usp_def ERROR_TABLE_BASE_dsc_def et_base_def et_char_def)

end
