(* ===== verification/Rpproc.thy ===== *)
theory Rpproc
  imports Rpc
begin

text \<open>
  The server's side of the remote procedure calls: \<^verbatim>\<open>athena/bin/discuss/server/rpproc.c\<close>, with the
  main loop of \<^verbatim>\<open>disserve.c\<close>, and \<^verbatim>\<open>dispatch.c\<close>.  The state adds \<open>rpc_err\<close> to the server's.

  \<open>recvstr\<close> returns a constant when it fails, which \<open>dispatch\<close> then frees: a received string is
  an option, \<open>None\<close> being that constant.  The library that decides whether a Kerberos ticket is
  good is the argument \<open>auth\<close>; it gives the parts of the principal's name.
\<close>

record rsrv =
  core :: srv
  rpc_err :: int

definition set_us :: "usp \<Rightarrow> rsrv \<Rightarrow> rsrv" where
  "set_us u s = s\<lparr>core := (core s)\<lparr>us := u\<rparr>\<rparr>"

type_synonym rstr = "string option"

definition str :: "rstr \<Rightarrow> string" where
  "str r = (case r of None \<Rightarrow> [] | Some t \<Rightarrow> t)"

definition free_str :: "rstr \<Rightarrow> unit option" where
  "free_str r = map_option (\<lambda>_. ()) r"

subsection \<open>Receiving and sending values\<close>

text \<open>What the receiving routines share, and what the sending ones do.\<close>

definition recv_value :: "(usp \<Rightarrow> status \<times> 'v \<times> usp) \<Rightarrow> ('v \<Rightarrow> 'r) \<Rightarrow> 'r \<Rightarrow> rsrv \<Rightarrow> 'r \<times> rsrv" where
  "recv_value get conv failed s =
     (let (r, x, u) = get (us (core s)); s1 = set_us u s in
      if r \<noteq> SUCCESS then (failed, s1\<lparr>rpc_err := errno_int (us_errno u)\<rparr>) else (conv x, s1))"

definition recvint :: "rsrv \<Rightarrow> int \<times> rsrv" where
  "recvint = recv_value USP_get_long_integer id 0"

definition recvshort :: "rsrv \<Rightarrow> int \<times> rsrv" where
  "recvshort = recv_value USP_get_integer id 0"

definition recvstr :: "rsrv \<Rightarrow> rstr \<times> rsrv" where
  "recvstr = recv_value USP_get_string Some None"

definition recvbool :: "rsrv \<Rightarrow> int \<times> rsrv" where
  "recvbool = recv_value USP_get_boolean id 0"

definition recvfile :: "rsrv \<Rightarrow> rsrv" where
  "recvfile s =
     (let (r, tfs, u) = USP_get_long_integer (us (core s)); s1 = set_us u s in
      if r \<noteq> SUCCESS then s1\<lparr>rpc_err := errno_int (us_errno u), core := (core s1)\<lparr>tf := None\<rparr>\<rparr>
      else s1\<lparr>core := (core s1)\<lparr>tf := Some (net_tfile tfs)\<rparr>\<rparr>)"

definition startreply :: "rsrv \<Rightarrow> rsrv" where
  "startreply s = set_us (snd (USP_begin_block (us (core s)) REPLY_TYPE)) s"

definition send_value :: "(usp \<Rightarrow> status \<times> usp) \<Rightarrow> rsrv \<Rightarrow> rsrv" where
  "send_value put s =
     (let (r, u) = put (us (core s)); s1 = set_us u s in
      if r \<noteq> SUCCESS then s1\<lparr>rpc_err := errno_int (us_errno u) + ERROR_TABLE_BASE_rpc\<rparr> else s1)"

definition sendint :: "int \<Rightarrow> rsrv \<Rightarrow> rsrv" where
  "sendint i = send_value (\<lambda>u. USP_put_long_integer u i)"

text \<open>A null pointer is sent as the empty string.\<close>

definition sendstr :: "string option \<Rightarrow> rsrv \<Rightarrow> rsrv" where
  "sendstr p = send_value (\<lambda>u. USP_put_string u (case p of None \<Rightarrow> [] | Some s \<Rightarrow> s))"

definition sendbool :: "int \<Rightarrow> rsrv \<Rightarrow> rsrv" where
  "sendbool b = send_value (\<lambda>u. USP_put_boolean u b)"

definition sendreply :: "rsrv \<Rightarrow> rsrv" where
  "sendreply = send_value USP_end_block"

definition senddunno :: "rsrv \<Rightarrow> rsrv" where
  "senddunno s = send_value USP_end_block (set_us (snd (USP_begin_block (us (core s)) UNKNOWN_CALL)) s)"

subsection \<open>Authentication\<close>

definition REALM :: string where "REALM = ''ATHENA.MIT.EDU''"
definition MAX_KTXT_LEN :: int where "MAX_KTXT_LEN = 1250"

text \<open>The bytes of the ticket, one to a short integer.\<close>

fun recv_ticket :: "nat \<Rightarrow> rsrv \<Rightarrow> bytes \<times> rsrv" where
  "recv_ticket 0 s = ([], s)"
| "recv_ticket (Suc n) s =
     (let (x, s) = recvshort s; (b, s) = recv_ticket n s in (char_of (nat (x mod 256)) # b, s))"

type_synonym krb_name = "string \<times> string \<times> string"

text \<open>
  The two Kerberos libraries: version 5 refuses a request (\<open>None\<close>), or accepts it and converts the
  client's name to the three parts of version 4, or fails to; version 4 may not be there at all.
\<close>

record kerberos =
  krb5 :: "string \<Rightarrow> bytes \<Rightarrow> krb_name option option"
  krb4 :: "(string \<Rightarrow> bytes \<Rightarrow> krb_name option) option"

text \<open>What the C functions' local variables hold before they are set.\<close>

record stack =
  st_i :: int
  st_kdata :: krb_name
  st_trn :: int
  st_info :: mtg_info
  st_acl :: acl_ptr
  st_buf :: string

definition principal_name :: "krb_name \<Rightarrow> string" where
  "principal_name k =
     (let (pname, pinst, prealm) = k in pname @ (if pinst \<noteq> [] then ''.'' @ pinst else []) @ ''@'' @ prealm)"

definition set_caller :: "string \<Rightarrow> rsrv \<Rightarrow> rsrv" where
  "set_caller p s = s\<lparr>core := (core s)\<lparr>rpc_caller := p\<rparr>\<rparr>"

text \<open>
  The name that the ticket proves: without version 4, a request that version 5 refuses falls
  through to the use of \<open>kdata\<close>, which nobody has set.
\<close>

definition ticket_name :: "kerberos \<Rightarrow> krb_name \<Rightarrow> string \<Rightarrow> bytes \<Rightarrow> krb_name option" where
  "ticket_name k kdata service dat =
     (case krb5 k service dat of
        Some r \<Rightarrow> r
      | None \<Rightarrow> (case krb4 k of None \<Rightarrow> Some kdata | Some rd_req \<Rightarrow> rd_req service dat))"

text \<open>
  The variable \<open>i\<close> that is sent in the reply to a \<open>KRB_TICKET2\<close> counts the bytes received, and
  is not set when the length is refused.
\<close>

definition handle_kerberos :: "kerberos \<Rightarrow> stack \<Rightarrow> int \<Rightarrow> string \<Rightarrow> rsrv \<Rightarrow> rsrv" where
  "handle_kerberos k st bt service s =
     (let s = set_caller (''???@'' @ REALM) s;
          (len, s) = recvshort s;
          (i, s) =
            (if len \<le> 0 \<or> len > MAX_KTXT_LEN then (st_i st, s)
             else let (dat, s) = recv_ticket (nat len) s in
               (len, case ticket_name k (st_kdata st) service dat of
                       None \<Rightarrow> s | Some n \<Rightarrow> set_caller (principal_name n) s));
          s = set_us (USP_flush_block (us (core s))) s
      in if bt = KRB_TICKET2 then
           set_us (snd (USP_end_block (snd (USP_put_long_integer
             (snd (USP_begin_block (us (core s)) TICKET_REPLY)) i)))) s
         else s)"

end
