(* ===== verification/Dispatch.thy ===== *)
theory Dispatch
  imports Rpproc
begin

text \<open>
  The procedure table and the dispatcher, \<^verbatim>\<open>athena/bin/discuss/server/dispatch.c\<close>, with the main
  loop of \<^verbatim>\<open>rpproc.c\<close> and \<^verbatim>\<open>disserve.c\<close>: each case of the \<open>switch\<close> is a definition, which
  receives the arguments, calls the operation on the server's state, and sends the reply.
\<close>

subsection \<open>Sending structures\<close>

text \<open>A buffer that is sent has to contain the end of its string.\<close>

definition sendbuf :: "bytes \<Rightarrow> rsrv \<Rightarrow> rsrv option" where
  "sendbuf b s = do { t \<leftarrow> c_string (Some b); Some (sendstr (Some t) s) }"

definition send_trn_info :: "'a trn_info_scheme \<Rightarrow> rsrv \<Rightarrow> rsrv option" where
  "send_trn_info tinfo s =
     (let s = sendint (ti_version tinfo) s; s = sendint (ti_current tinfo) s;
          s = sendint (ti_prev tinfo) s; s = sendint (ti_next tinfo) s;
          s = sendint (ti_pref tinfo) s; s = sendint (ti_nref tinfo) s;
          s = sendint (ti_fref tinfo) s; s = sendint (ti_lref tinfo) s;
          s = sendint (ti_chain_index tinfo) s; s = sendint (ti_date_entered tinfo) s;
          s = sendint (ti_num_lines tinfo) s; s = sendint (ti_num_chars tinfo) s in
      do { s \<leftarrow> sendbuf (ti_subject tinfo) s; sendbuf (ti_author tinfo) s })"

definition send_trn_info2 :: "'a trn_info2_scheme \<Rightarrow> rsrv \<Rightarrow> rsrv option" where
  "send_trn_info2 tinfo s = do { s \<leftarrow> send_trn_info tinfo s; Some (sendint (ti_flags tinfo) s) }"

definition send_trn_info3 :: "trn_info3 \<Rightarrow> rsrv \<Rightarrow> rsrv option" where
  "send_trn_info3 tinfo s =
     do { s \<leftarrow> send_trn_info2 tinfo s; Some (sendstr (Some (ti_signature tinfo)) s) }"

definition old_send_mtg_info :: "mtg_info \<Rightarrow> rsrv \<Rightarrow> rsrv" where
  "old_send_mtg_info minfo s =
     (let s = sendint (mi_version minfo) s; s = sendstr (Some (mi_location minfo)) s;
          s = sendstr (Some (mi_long_name minfo)) s; s = sendstr (Some (mi_chairman minfo)) s;
          s = sendint (mi_first minfo) s; s = sendint (mi_last minfo) s;
          s = sendint (mi_lowest minfo) s; s = sendint (mi_highest minfo) s;
          s = sendint (mi_date_created minfo) s; s = sendint (mi_date_modified minfo) s
      in sendbool (mi_public_flag minfo) s)"

definition send_mtg_info :: "mtg_info \<Rightarrow> rsrv \<Rightarrow> rsrv" where
  "send_mtg_info minfo s = sendstr (Some (mi_access_modes minfo)) (old_send_mtg_info minfo s)"

fun send_entries :: "acl \<Rightarrow> rsrv \<Rightarrow> rsrv" where
  "send_entries [] s = s"
| "send_entries (ae # aes) s =
     send_entries aes (sendstr (Some (principal ae)) (sendstr (Some (modes ae)) s))"

definition send_acl :: "acl option \<Rightarrow> rsrv \<Rightarrow> rsrv" where
  "send_acl acl s =
     (case acl of None \<Rightarrow> sendint 0 s
      | Some l \<Rightarrow> send_entries l (sendint (int (length l)) s))"

subsection \<open>The cases of the switch\<close>

text \<open>A reply that consists of the result, and the call of an operation on the server's state.\<close>

definition reply_code :: "code \<Rightarrow> rsrv \<Rightarrow> rsrv" where
  "reply_code result s = sendreply (sendint (code_int result) (startreply s))"

definition on_core :: "(srv \<Rightarrow> ('r \<times> srv) option) \<Rightarrow> rsrv \<Rightarrow> ('r \<times> rsrv) option" where
  "on_core f s = map_option (\<lambda>(r, k). (r, s\<lparr>core := k\<rparr>)) (f (core s))"

definition destroy_file :: "rsrv \<Rightarrow> rsrv" where
  "destroy_file s = s\<lparr>core := snd (tdestroy (core s))\<rparr>"

text \<open>
  The number of the new transaction is sent whether or not the operation has set it.
\<close>

definition do_add_trn :: "stack \<Rightarrow> rsrv \<Rightarrow> rsrv option" where
  "do_add_trn st s =
     (let (c1, s) = recvstr s; s = recvfile s; (c2, s) = recvstr s; (i1, s) = recvint s in
      do { ((result, i2), s) \<leftarrow> on_core (\<lambda>k. map_option (\<lambda>(c, t, k). ((c, t), k)) (add_trn (str c1) (str c2) i1 k)) s;
           let s = sendint (case i2 of Some t \<Rightarrow> t | None \<Rightarrow> st_trn st) (startreply s);
           let s = destroy_file (sendreply (sendint (code_int result) s));
           _ \<leftarrow> free_str c1; _ \<leftarrow> free_str c2; Some s })"

definition do_add_trn2 :: "stack \<Rightarrow> rsrv \<Rightarrow> rsrv option" where
  "do_add_trn2 st s =
     (let (c1, s) = recvstr s; s = recvfile s; (c2, s) = recvstr s; (c3, s) = recvstr s; (i1, s) = recvint s in
      do { ((result, i2), s) \<leftarrow>
             on_core (\<lambda>k. map_option (\<lambda>(c, t, k). ((c, t), k)) (add_trn2 (str c1) (str c2) (str c3) i1 k)) s;
           let s = sendint (case i2 of Some t \<Rightarrow> t | None \<Rightarrow> st_trn st) (startreply s);
           let s = destroy_file (sendreply (sendint (code_int result) s));
           _ \<leftarrow> free_str c1; _ \<leftarrow> free_str c2; _ \<leftarrow> free_str c3; Some s })"

definition do_get_trn_info :: "rsrv \<Rightarrow> rsrv option" where
  "do_get_trn_info s =
     (let (c1, s) = recvstr s; (i1, s) = recvint s in
      do { ((result, tinfo), s) \<leftarrow>
             on_core (\<lambda>k. map_option (\<lambda>(c, t, k). ((c, t), k)) (get_trn_info (str c1) i1 k)) s;
           s \<leftarrow> send_trn_info tinfo (startreply s);
           let s = sendreply (sendint (code_int result) s);
           _ \<leftarrow> free_str c1; Some s })"

definition do_get_trn_info2 :: "rsrv \<Rightarrow> rsrv option" where
  "do_get_trn_info2 s =
     (let (c1, s) = recvstr s; (i1, s) = recvint s in
      do { ((result, tinfo), s) \<leftarrow>
             on_core (\<lambda>k. map_option (\<lambda>(c, t, k). ((c, t), k)) (get_trn_info2 (str c1) i1 k)) s;
           s \<leftarrow> send_trn_info2 tinfo (startreply s);
           let s = sendreply (sendint (code_int result) s);
           _ \<leftarrow> free_str c1; Some s })"

definition do_get_trn_info3 :: "rsrv \<Rightarrow> rsrv option" where
  "do_get_trn_info3 s =
     (let (c1, s) = recvstr s; (i1, s) = recvint s in
      do { ((result, tinfo), s) \<leftarrow>
             on_core (\<lambda>k. map_option (\<lambda>(c, t, k). ((c, t), k)) (get_trn_info3 (str c1) i1 k)) s;
           s \<leftarrow> send_trn_info3 tinfo (startreply s);
           let s = sendreply (sendint (code_int result) s);
           _ \<leftarrow> free_str c1; Some s })"

definition do_delete_trn :: "rsrv \<Rightarrow> rsrv option" where
  "do_delete_trn s =
     (let (c1, s) = recvstr s; (i1, s) = recvint s in
      do { (result, s) \<leftarrow> on_core (delete_trn (str c1) i1) s;
           let s = reply_code result s; _ \<leftarrow> free_str c1; Some s })"

definition do_retrieve_trn :: "rsrv \<Rightarrow> rsrv option" where
  "do_retrieve_trn s =
     (let (c1, s) = recvstr s; (i1, s) = recvint s in
      do { (result, s) \<leftarrow> on_core (retrieve_trn (str c1) i1) s;
           let s = reply_code result s; _ \<leftarrow> free_str c1; Some s })"

definition do_set_trn_flags :: "rsrv \<Rightarrow> rsrv option" where
  "do_set_trn_flags s =
     (let (c1, s) = recvstr s; (i1, s) = recvint s; (i2, s) = recvint s in
      do { (result, s) \<leftarrow> on_core (set_trn_flags (str c1) i1 i2) s;
           let s = reply_code result s; _ \<leftarrow> free_str c1; Some s })"

definition do_create_mtg :: "stack \<Rightarrow> rsrv \<Rightarrow> rsrv option" where
  "do_create_mtg st s =
     (let (c1, s) = recvstr s; (c2, s) = recvstr s; (b1, s) = recvbool s in
      do { (result, s) \<leftarrow> on_core (create_mtg (st_buf st) (str c1) (str c2) b1) s;
           let s = reply_code result s; _ \<leftarrow> free_str c1; _ \<leftarrow> free_str c2; Some s })"

definition do_get_mtg_info :: "(mtg_info \<Rightarrow> rsrv \<Rightarrow> rsrv) \<Rightarrow> stack \<Rightarrow> rsrv \<Rightarrow> rsrv option" where
  "do_get_mtg_info send st s =
     (let (c1, s) = recvstr s in
      do { ((result, minfo), s) \<leftarrow>
             on_core (\<lambda>k. map_option (\<lambda>(c, t, k). ((c, t), k)) (get_mtg_info (str c1) (st_info st) k)) s;
           let s = sendreply (sendint (code_int result) (send minfo (startreply s)));
           _ \<leftarrow> free_str c1; Some s })"

definition do_get_trn :: "rsrv \<Rightarrow> rsrv option" where
  "do_get_trn s =
     (let (c1, s) = recvstr s; (i1, s) = recvint s; s = recvfile s in
      do { (result, s) \<leftarrow> on_core (get_trn (str c1) i1) s;
           let s = reply_code result (destroy_file s); _ \<leftarrow> free_str c1; Some s })"

definition do_remove_mtg :: "rsrv \<Rightarrow> rsrv option" where
  "do_remove_mtg s =
     (let (c1, s) = recvstr s in
      do { (result, s) \<leftarrow> on_core (remove_mtg (str c1)) s;
           let s = reply_code result s; _ \<leftarrow> free_str c1; Some s })"

definition do_updated_mtg :: "rsrv \<Rightarrow> rsrv option" where
  "do_updated_mtg s =
     (let (c1, s) = recvstr s; (i1, s) = recvint s; (i2, s) = recvint s in
      do { (result, b1) \<leftarrow> updated_mtg (str c1) i2 (core s);
           let s = sendbool (if b1 then 1 else 0) (startreply s);
           let s = sendreply (sendint (code_int result) s);
           _ \<leftarrow> free_str c1; Some s })"

definition do_get_acl :: "rsrv \<Rightarrow> rsrv option" where
  "do_get_acl s =
     (let (c1, s) = recvstr s in
      do { (result, list) \<leftarrow> get_acl (str c1) (core s);
           let s = sendreply (send_acl list (sendint (code_int result) (startreply s)));
           _ \<leftarrow> free_str c1; Some s })"

definition do_get_access :: "rsrv \<Rightarrow> rsrv option" where
  "do_get_access s =
     (let (c1, s) = recvstr s; (c2, s) = recvstr s in
      do { (result, ms) \<leftarrow> get_access (str c1) (str c2) (core s);
           let s = sendreply (sendint (code_int result) (sendstr ms (startreply s)));
           _ \<leftarrow> free_str c1; _ \<leftarrow> free_str c2; Some s })"

definition do_set_access :: "stack \<Rightarrow> rsrv \<Rightarrow> rsrv option" where
  "do_set_access st s =
     (let (c1, s) = recvstr s; (c2, s) = recvstr s; (c3, s) = recvstr s in
      do { (result, s) \<leftarrow> on_core (set_access (st_buf st) (st_acl st) (str c1) (str c2) (str c3)) s;
           let s = reply_code result s;
           _ \<leftarrow> free_str c1; _ \<leftarrow> free_str c2; _ \<leftarrow> free_str c3; Some s })"

definition do_delete_access :: "stack \<Rightarrow> rsrv \<Rightarrow> rsrv option" where
  "do_delete_access st s =
     (let (c1, s) = recvstr s; (c2, s) = recvstr s in
      do { (result, s) \<leftarrow> on_core (delete_access (st_acl st) (str c1) (str c2)) s;
           let s = reply_code result s; _ \<leftarrow> free_str c1; _ \<leftarrow> free_str c2; Some s })"

definition do_whoami :: "rsrv \<Rightarrow> rsrv option" where
  "do_whoami s = Some (sendreply (sendstr (Some (rpc_caller (core s))) (startreply s)))"

definition do_get_server_version :: "rsrv \<Rightarrow> rsrv option" where
  "do_get_server_version s = Some (sendreply (sendint 0 (sendint SERVER_3 (startreply s))))"

subsection \<open>The dispatcher\<close>

text \<open>
  The number of entries of \<open>procs\<close>: there is none for \<open>UPDATED_MTG\<close>, so it is one less than the
  numbers from 0 to \<open>GET_TRN_INFO3\<close>, which the comparison in \<open>recvit\<close> makes up for.  A number
  without a case is not answered at all.
\<close>

definition numprocs :: int where "numprocs = 22"

definition dispatch :: "stack \<Rightarrow> int \<Rightarrow> rsrv \<Rightarrow> rsrv option" where
  "dispatch st procno s =
     (if procno = ADD_TRN then do_add_trn st s
      else if procno = GET_TRN_INFO then do_get_trn_info s
      else if procno = DELETE_TRN then do_delete_trn s
      else if procno = RETRIEVE_TRN then do_retrieve_trn s
      else if procno = CREATE_MTG then do_create_mtg st s
      else if procno = GET_MTG_INFO then do_get_mtg_info send_mtg_info st s
      else if procno = OLD_GET_MTG_INFO then do_get_mtg_info old_send_mtg_info st s
      else if procno = GET_TRN then do_get_trn s
      else if procno = REMOVE_MTG then do_remove_mtg s
      else if procno = UPDATED_MTG then do_updated_mtg s
      else if procno = GET_ACL then do_get_acl s
      else if procno = GET_ACCESS then do_get_access s
      else if procno = SET_ACCESS then do_set_access st s
      else if procno = DELETE_ACCESS then do_delete_access st s
      else if procno = WHO_AM_I then do_whoami s
      else if procno = GET_TRN_INFO2 then do_get_trn_info2 s
      else if procno = GET_SERVER_VERSION then do_get_server_version s
      else if procno = SET_TRN_FLAGS then do_set_trn_flags s
      else if procno = ADD_TRN2 then do_add_trn2 st s
      else if procno = GET_TRN_INFO3 then do_get_trn_info3 s
      else Some s)"

text \<open>
  \<open>recvit\<close>: the result is the error number with which the main loop stops, and \<open>errno\<close> is that
  of the stream.
\<close>

definition recvit :: "kerberos \<Rightarrow> stack \<Rightarrow> string \<Rightarrow> rsrv \<Rightarrow> (int \<times> rsrv) option" where
  "recvit k st service s =
     do { (r, bt, u) \<leftarrow> USP_rcv_blk (us (core s));
          let s = set_us u s;
          if r \<noteq> SUCCESS then Some (errno_int (us_errno u), s)
          else if bt = KRB_TICKET \<or> bt = KRB_TICKET2 then Some (0, handle_kerberos k st bt service s)
          else let procno = bt - PROC_BASE in
            if procno = 0 then Some (RPC_PROTOCOL, s)
            else if procno > numprocs then
              Some (0, senddunno (set_us (USP_flush_block (us (core s))) s))
            else do { s \<leftarrow> dispatch st procno (s\<lparr>rpc_err := 0\<rparr>); Some (rpc_err s, s) } }"

partial_function (option) serve :: "kerberos \<Rightarrow> stack \<Rightarrow> string \<Rightarrow> rsrv \<Rightarrow> rsrv option" where
  "serve k st service s =
     do { (code, s) \<leftarrow> recvit k st service s;
          if code \<noteq> 0 then Some s else serve k st service s }"

end
