(* ===== verification/Rpcall.thy ===== *)
theory Rpcall
  imports Rpc
begin

text \<open>
  The caller's side of the remote procedure calls, \<^verbatim>\<open>athena/bin/discuss/libds/rpcall.c\<close>.  The
  state is a stream, which there may be none of, and the error of the current call.  Opening a
  connection is system calls, but for the Kerberos ticket that is sent over it.
\<close>

record client = world +
  connected :: bool
  cl_err :: int

definition cl_value :: "(usp \<Rightarrow> status \<times> 'v \<times> usp) \<Rightarrow> 'v \<Rightarrow> client \<Rightarrow> 'v \<times> client" where
  "cl_value get failed c =
     (let (r, x, u) = get (us c); c = c\<lparr>us := u\<rparr> in
      if r \<noteq> SUCCESS then (failed, c\<lparr>cl_err := errno_int (us_errno u)\<rparr>) else (x, c))"

definition cl_put :: "(usp \<Rightarrow> status \<times> usp) \<Rightarrow> client \<Rightarrow> client" where
  "cl_put put c =
     (let (r, u) = put (us c); c = c\<lparr>us := u\<rparr> in
      if r \<noteq> SUCCESS then c\<lparr>cl_err := errno_int (us_errno u)\<rparr> else c)"

definition cl_startsend :: "int \<Rightarrow> client \<Rightarrow> client" where
  "cl_startsend whichproc c =
     (if \<not> connected c then c\<lparr>cl_err := RPC_NOT_INIT\<rparr>
      else c\<lparr>us := snd (USP_begin_block (us c) (PROC_BASE + whichproc)), cl_err := 0\<rparr>)"

definition cl_sendint :: "int \<Rightarrow> client \<Rightarrow> client" where
  "cl_sendint i = cl_put (\<lambda>u. USP_put_long_integer u i)"

definition cl_sendshort :: "int \<Rightarrow> client \<Rightarrow> client" where
  "cl_sendshort i = cl_put (\<lambda>u. USP_put_integer u i)"

definition cl_sendstr :: "string \<Rightarrow> client \<Rightarrow> client" where
  "cl_sendstr str c =
     (if \<not> connected c then c\<lparr>cl_err := RPC_NOT_INIT\<rparr> else cl_put (\<lambda>u. USP_put_string u str) c)"

definition cl_sendbool :: "int \<Rightarrow> client \<Rightarrow> client" where
  "cl_sendbool b = cl_put (\<lambda>u. USP_put_boolean u b)"

text \<open>The size of the file; a null file has no size.\<close>

definition rpc_sendfile :: "client \<Rightarrow> client option" where
  "rpc_sendfile c = do { t \<leftarrow> tf c; Some (cl_put (\<lambda>u. USP_put_long_integer u (tfsize t)) c) }"

definition cl_sendit :: "client \<Rightarrow> client" where
  "cl_sendit = cl_put USP_end_block"

definition cl_recvreply :: "client \<Rightarrow> client option" where
  "cl_recvreply c =
     do { (r, bt, u) \<leftarrow> USP_rcv_blk (us c);
          let c = c\<lparr>us := u\<rparr>;
          Some (if r \<noteq> SUCCESS then c\<lparr>cl_err := errno_int (us_errno u)\<rparr>
                else if bt \<noteq> REPLY_TYPE then
                  c\<lparr>cl_err := (if bt = UNKNOWN_CALL then RPC_UNIMPL_CALL else RPC_PROTOCOL),
                    us := USP_flush_block u\<rparr>
                else c) }"

definition cl_recvint :: "client \<Rightarrow> int \<times> client" where
  "cl_recvint = cl_value USP_get_long_integer 0"

definition cl_recvstr :: "client \<Rightarrow> string \<times> client" where
  "cl_recvstr = cl_value USP_get_string []"

definition cl_recvbool :: "client \<Rightarrow> int \<times> client" where
  "cl_recvbool = cl_value USP_get_boolean 0"

subsection \<open>Files\<close>

text \<open>
  The loop of \<open>senddata\<close>: a read that is cut short leaves the old contents of the buffer behind
  its bytes, or nothing that was ever written (\<open>None\<close>).
\<close>

function send_loop :: "int \<Rightarrow> bytes \<Rightarrow> client \<Rightarrow> client option" where
  "send_loop tfs buffer c =
     (if tfs \<le> 0 then Some c
      else let tocopy = nat (min tfs 508) in
        do { (_, b, code, c) \<leftarrow> tread tocopy c;
             if code \<noteq> OK then Some c
             else let buffer = b @ drop (length b) buffer in
               if length buffer < tocopy then None
               else send_loop (tfs - int tocopy) buffer
                      (c\<lparr>us := snd (USP_put_byte_block (us c) (take tocopy buffer))\<rparr>) })"
  by auto
termination by (relation "measure (\<lambda>(tfs, _). nat tfs)") auto

declare send_loop.simps [simp del]

definition senddata :: "client \<Rightarrow> client option" where
  "senddata c =
     do { (_, _, c) \<leftarrow> topen CHR ''r'' c;
          let c = c\<lparr>us := snd (USP_begin_block (us c) TFILE_BLK)\<rparr>;
          t \<leftarrow> tf c;
          c \<leftarrow> send_loop (tfsize t) [] c;
          let (_, _, c) = tclose (c\<lparr>us := snd (USP_end_block (us c))\<rparr>);
          Some c }"

partial_function (option) recv_loop :: "client \<Rightarrow> client option" where
  "recv_loop c =
     (let (r, b, u) = USP_get_byte_block (us c) 508; c = c\<lparr>us := u\<rparr> in
      if r \<noteq> SUCCESS then Some (c\<lparr>cl_err := errno_int (us_errno u)\<rparr>)
      else if b = [] then Some c
      else do { (_, code, c) \<leftarrow> twrite b c;
                if code \<noteq> OK then Some c else recv_loop c })"

definition recvdata :: "client \<Rightarrow> client option" where
  "recvdata c =
     do { (r, bt, u) \<leftarrow> USP_rcv_blk (us c);
          let c = c\<lparr>us := u\<rparr>;
          if r \<noteq> SUCCESS then Some (c\<lparr>cl_err := errno_int (us_errno u)\<rparr>)
          else if bt \<noteq> TFILE_BLK then Some (c\<lparr>cl_err := RPC_PROTOCOL\<rparr>)
          else do { (_, code, c) \<leftarrow> topen CHR ''w'' c;
                    c \<leftarrow> (if code \<noteq> OK then Some c
                         else do { c \<leftarrow> recv_loop c; let (_, _, c) = tclose c; Some c });
                    Some (c\<lparr>us := USP_flush_block (us c)\<rparr>) } }"

subsection \<open>The ticket\<close>

text \<open>
  What \<open>open_rpc\<close> sends after the connection stands: the authenticator's bytes, which are signed
  characters, or an empty one when there is none.
\<close>

definition schar :: "char \<Rightarrow> int" where
  "schar c = (let n = int (of_char c) in if n < 128 then n else n - 256)"

definition send_ticket :: "bytes option \<Rightarrow> client \<Rightarrow> client" where
  "send_ticket authp c =
     (let c = c\<lparr>us := snd (USP_begin_block (us c) KRB_TICKET)\<rparr>;
          c = (case authp of None \<Rightarrow> cl_sendshort 0 c
               | Some b \<Rightarrow> fold (\<lambda>ch. cl_sendshort (schar ch)) b (cl_sendshort (int (length b)) c))
      in c\<lparr>us := snd (USP_end_block (us c))\<rparr>)"

definition close_rpc :: "status \<Rightarrow> client \<Rightarrow> client option" where
  "close_rpc shut c =
     map_option (\<lambda>(_, u). c\<lparr>us := u, connected := False\<rparr>) (USP_close_connection shut (us c))"

definition set_rpc :: "usp option \<Rightarrow> client \<Rightarrow> client" where
  "set_rpc rc c = (case rc of None \<Rightarrow> c\<lparr>connected := False\<rparr> | Some u \<Rightarrow> c\<lparr>us := u, connected := True\<rparr>)"

end
