(* ===== verification/Stubs.thy ===== *)
theory Stubs
  imports Rpcall
begin

text \<open>
  The client's stubs, \<^verbatim>\<open>athena/bin/discuss/libds/stubs.c\<close>: one routine per procedure, with the
  name and the arguments of the server's.  A stub gives its result, what it stores through its
  other pointers (\<open>None\<close> when it returns before it does), and the client's state.
\<close>

type_synonym 'a stub_result = "(int \<times> 'a option \<times> client) option"

text \<open>\<open>if (rpc_err) { *result = rpc_err; return; }\<close>, with nothing stored yet.\<close>

definition rpccheck :: "client \<Rightarrow> (client \<Rightarrow> 'a stub_result) \<Rightarrow> 'a stub_result" where
  "rpccheck c k = (if cl_err c \<noteq> 0 then Some (cl_err c, None, c) else k c)"

text \<open>The end of a stub: what has been received is stored, but \<open>rpc_err\<close> is the result if it is set.\<close>

definition stub_end :: "int \<Rightarrow> 'a \<Rightarrow> client \<Rightarrow> 'a stub_result" where
  "stub_end result out c = Some (if cl_err c \<noteq> 0 then cl_err c else result, Some out, c)"

subsection \<open>Receiving structures\<close>

definition recv_trn_info :: "client \<Rightarrow> trn_info \<times> client" where
  "recv_trn_info c =
     (let (version, c) = cl_recvint c; (current, c) = cl_recvint c; (prev, c) = cl_recvint c;
          (nxt, c) = cl_recvint c; (pref, c) = cl_recvint c; (nref, c) = cl_recvint c;
          (fref, c) = cl_recvint c; (lref, c) = cl_recvint c; (chain_index, c) = cl_recvint c;
          (date_entered, c) = cl_recvint c; (num_lines, c) = cl_recvint c; (num_chars, c) = cl_recvint c;
          (subject, c) = cl_recvstr c; (author, c) = cl_recvstr c
      in (\<lparr>ti_version = version, ti_current = current, ti_prev = prev, ti_next = nxt, ti_pref = pref,
           ti_nref = nref, ti_fref = fref, ti_lref = lref, ti_chain_index = chain_index,
           ti_date_entered = date_entered, ti_num_lines = num_lines, ti_num_chars = num_chars,
           ti_subject = subject @ [NUL], ti_author = author @ [NUL]\<rparr>, c))"

definition recv_trn_info2 :: "client \<Rightarrow> trn_info2 \<times> client" where
  "recv_trn_info2 c =
     (let (info, c) = recv_trn_info c; (flags, c) = cl_recvint c
      in (trn_info.extend info \<lparr>ti_flags = flags\<rparr>, c))"

definition recv_trn_info3 :: "client \<Rightarrow> trn_info3 \<times> client" where
  "recv_trn_info3 c =
     (let (info, c) = recv_trn_info c; (flags, c) = cl_recvint c; (signature, c) = cl_recvstr c
      in (trn_info.extend info \<lparr>ti_flags = flags, ti_signature = signature\<rparr>, c))"

text \<open>The old form has no access modes: the caller's structure keeps its own.\<close>

definition old_recv_mtg_info :: "string \<Rightarrow> client \<Rightarrow> mtg_info \<times> client" where
  "old_recv_mtg_info access_modes c =
     (let (version, c) = cl_recvint c; (location, c) = cl_recvstr c; (long_name, c) = cl_recvstr c;
          (chairman, c) = cl_recvstr c; (fst_trn, c) = cl_recvint c; (lst_trn, c) = cl_recvint c;
          (lowest, c) = cl_recvint c; (highest, c) = cl_recvint c; (date_created, c) = cl_recvint c;
          (date_modified, c) = cl_recvint c; (public_flag, c) = cl_recvbool c
      in (\<lparr>mi_version = version, mi_location = location, mi_long_name = long_name, mi_chairman = chairman,
           mi_first = fst_trn, mi_last = lst_trn, mi_lowest = lowest, mi_highest = highest,
           mi_date_created = date_created, mi_date_modified = date_modified,
           mi_public_flag = public_flag, mi_access_modes = access_modes\<rparr>, c))"

definition recv_mtg_info :: "client \<Rightarrow> mtg_info \<times> client" where
  "recv_mtg_info c =
     (let (info, c) = old_recv_mtg_info [] c; (modes, c) = cl_recvstr c
      in (info\<lparr>mi_access_modes := modes\<rparr>, c))"

fun recv_entries :: "nat \<Rightarrow> client \<Rightarrow> acl \<times> client" where
  "recv_entries 0 c = ([], c)"
| "recv_entries (Suc n) c =
     (let (ms, c) = cl_recvstr c; (p, c) = cl_recvstr c; (aes, c) = recv_entries n c
      in (\<lparr>principal = p, modes = ms\<rparr> # aes, c))"

text \<open>The length is unsigned; it is not checked.\<close>

definition recv_acl :: "client \<Rightarrow> acl \<times> client" where
  "recv_acl c = (let (len, c) = cl_recvint c in recv_entries (nat (len mod 2 ^ 32)) c)"

subsection \<open>The stubs\<close>

definition stub_add_trn :: "string \<Rightarrow> string \<Rightarrow> int \<Rightarrow> client \<Rightarrow> int stub_result" where
  "stub_add_trn mtg_name subject reply_trn c =
     rpccheck (cl_startsend ADD_TRN c) (\<lambda>c.
     do { c \<leftarrow> rpc_sendfile (cl_sendstr mtg_name c);
          c \<leftarrow> senddata (cl_sendit (cl_sendint reply_trn (cl_sendstr subject c)));
          rpccheck c (\<lambda>c.
     do { c \<leftarrow> cl_recvreply c;
          rpccheck c (\<lambda>c. let (result_trn, c) = cl_recvint c; (result, c) = cl_recvint c
                         in stub_end result result_trn c) }) })"

definition stub_add_trn2 :: "string \<Rightarrow> string \<Rightarrow> string \<Rightarrow> int \<Rightarrow> client \<Rightarrow> int stub_result" where
  "stub_add_trn2 mtg_name subject signature reply_trn c =
     rpccheck (cl_startsend ADD_TRN2 c) (\<lambda>c.
     do { c \<leftarrow> rpc_sendfile (cl_sendstr mtg_name c);
          c \<leftarrow> senddata (cl_sendit (cl_sendint reply_trn (cl_sendstr signature (cl_sendstr subject c))));
          rpccheck c (\<lambda>c.
     do { c \<leftarrow> cl_recvreply c;
          rpccheck c (\<lambda>c. let (result_trn, c) = cl_recvint c; (result, c) = cl_recvint c
                         in stub_end result result_trn c) }) })"

definition stub_get_trn_info :: "string \<Rightarrow> int \<Rightarrow> client \<Rightarrow> trn_info stub_result" where
  "stub_get_trn_info mtg_name trn c =
     rpccheck (cl_startsend GET_TRN_INFO c) (\<lambda>c.
     rpccheck (cl_sendit (cl_sendint trn (cl_sendstr mtg_name c))) (\<lambda>c.
     do { c \<leftarrow> cl_recvreply c;
          rpccheck c (\<lambda>c. let (info, c) = recv_trn_info c; (result, c) = cl_recvint c in stub_end result info c) }))"

definition stub_get_trn_info2 :: "string \<Rightarrow> int \<Rightarrow> client \<Rightarrow> trn_info2 stub_result" where
  "stub_get_trn_info2 mtg_name trn c =
     rpccheck (cl_startsend GET_TRN_INFO2 c) (\<lambda>c.
     rpccheck (cl_sendit (cl_sendint trn (cl_sendstr mtg_name c))) (\<lambda>c.
     do { c \<leftarrow> cl_recvreply c;
          rpccheck c (\<lambda>c. let (info, c) = recv_trn_info2 c; (result, c) = cl_recvint c in stub_end result info c) }))"

definition stub_get_trn_info3 :: "string \<Rightarrow> int \<Rightarrow> client \<Rightarrow> trn_info3 stub_result" where
  "stub_get_trn_info3 mtg_name trn c =
     rpccheck (cl_startsend GET_TRN_INFO3 c) (\<lambda>c.
     rpccheck (cl_sendit (cl_sendint trn (cl_sendstr mtg_name c))) (\<lambda>c.
     do { c \<leftarrow> cl_recvreply c;
          rpccheck c (\<lambda>c. let (info, c) = recv_trn_info3 c; (result, c) = cl_recvint c in stub_end result info c) }))"

definition stub_delete_trn :: "string \<Rightarrow> int \<Rightarrow> client \<Rightarrow> unit stub_result" where
  "stub_delete_trn mtg_name trn c =
     rpccheck (cl_startsend DELETE_TRN c) (\<lambda>c.
     rpccheck (cl_sendit (cl_sendint trn (cl_sendstr mtg_name c))) (\<lambda>c.
     do { c \<leftarrow> cl_recvreply c;
          rpccheck c (\<lambda>c. let (result, c) = cl_recvint c in stub_end result () c) }))"

definition stub_retrieve_trn :: "string \<Rightarrow> int \<Rightarrow> client \<Rightarrow> unit stub_result" where
  "stub_retrieve_trn mtg_name trn c =
     rpccheck (cl_startsend RETRIEVE_TRN c) (\<lambda>c.
     rpccheck (cl_sendit (cl_sendint trn (cl_sendstr mtg_name c))) (\<lambda>c.
     do { c \<leftarrow> cl_recvreply c;
          rpccheck c (\<lambda>c. let (result, c) = cl_recvint c in stub_end result () c) }))"

definition stub_create_mtg :: "string \<Rightarrow> string \<Rightarrow> int \<Rightarrow> client \<Rightarrow> unit stub_result" where
  "stub_create_mtg location long_mtg_name public c =
     rpccheck (cl_startsend CREATE_MTG c) (\<lambda>c.
     rpccheck (cl_sendit (cl_sendbool public (cl_sendstr long_mtg_name (cl_sendstr location c)))) (\<lambda>c.
     do { c \<leftarrow> cl_recvreply c;
          rpccheck c (\<lambda>c. let (result, c) = cl_recvint c in stub_end result () c) }))"

definition stub_old_get_mtg_info :: "string \<Rightarrow> string \<Rightarrow> client \<Rightarrow> mtg_info stub_result" where
  "stub_old_get_mtg_info access_modes mtg_name c =
     rpccheck (cl_startsend OLD_GET_MTG_INFO c) (\<lambda>c.
     rpccheck (cl_sendit (cl_sendstr mtg_name c)) (\<lambda>c.
     do { c \<leftarrow> cl_recvreply c;
          rpccheck c (\<lambda>c. let (info, c) = old_recv_mtg_info access_modes c; (result, c) = cl_recvint c in stub_end result info c) }))"

definition stub_get_mtg_info :: "string \<Rightarrow> client \<Rightarrow> mtg_info stub_result" where
  "stub_get_mtg_info mtg_name c =
     rpccheck (cl_startsend GET_MTG_INFO c) (\<lambda>c.
     rpccheck (cl_sendit (cl_sendstr mtg_name c)) (\<lambda>c.
     do { c \<leftarrow> cl_recvreply c;
          rpccheck c (\<lambda>c. let (info, c) = recv_mtg_info c; (result, c) = cl_recvint c in stub_end result info c) }))"

text \<open>The data comes before the reply, and \<open>rpc_err\<close> is not looked at in between.\<close>

definition stub_get_trn :: "string \<Rightarrow> int \<Rightarrow> client \<Rightarrow> unit stub_result" where
  "stub_get_trn mtg_name trn c =
     rpccheck (cl_startsend GET_TRN c) (\<lambda>c.
     do { c \<leftarrow> rpc_sendfile (cl_sendint trn (cl_sendstr mtg_name c));
          rpccheck (cl_sendit c) (\<lambda>c.
     do { c \<leftarrow> recvdata c;
          c \<leftarrow> cl_recvreply c;
          rpccheck c (\<lambda>c. let (result, c) = cl_recvint c in stub_end result () c) }) })"

definition stub_remove_mtg :: "string \<Rightarrow> client \<Rightarrow> unit stub_result" where
  "stub_remove_mtg mtg_name c =
     rpccheck (cl_startsend REMOVE_MTG c) (\<lambda>c.
     rpccheck (cl_sendit (cl_sendstr mtg_name c)) (\<lambda>c.
     do { c \<leftarrow> cl_recvreply c;
          rpccheck c (\<lambda>c. let (result, c) = cl_recvint c in stub_end result () c) }))"

definition stub_updated_mtg :: "string \<Rightarrow> int \<Rightarrow> int \<Rightarrow> client \<Rightarrow> int stub_result" where
  "stub_updated_mtg mtg_name date_attended lst c =
     rpccheck (cl_startsend UPDATED_MTG c) (\<lambda>c.
     rpccheck (cl_sendit (cl_sendint lst (cl_sendint date_attended (cl_sendstr mtg_name c)))) (\<lambda>c.
     do { c \<leftarrow> cl_recvreply c;
          rpccheck c (\<lambda>c. let (updated, c) = cl_recvbool c; (result, c) = cl_recvint c in stub_end result updated c) }))"

definition stub_get_acl :: "string \<Rightarrow> client \<Rightarrow> acl stub_result" where
  "stub_get_acl mtg_name c =
     rpccheck (cl_startsend GET_ACL c) (\<lambda>c.
     rpccheck (cl_sendit (cl_sendstr mtg_name c)) (\<lambda>c.
     do { c \<leftarrow> cl_recvreply c;
          rpccheck c (\<lambda>c. let (result, c) = cl_recvint c; (list, c) = recv_acl c in stub_end result list c) }))"

definition stub_get_access :: "string \<Rightarrow> string \<Rightarrow> client \<Rightarrow> string stub_result" where
  "stub_get_access mtg_name princ_name c =
     rpccheck (cl_startsend GET_ACCESS c) (\<lambda>c.
     rpccheck (cl_sendit (cl_sendstr princ_name (cl_sendstr mtg_name c))) (\<lambda>c.
     do { c \<leftarrow> cl_recvreply c;
          rpccheck c (\<lambda>c. let (ms, c) = cl_recvstr c; (result, c) = cl_recvint c in stub_end result ms c) }))"

definition stub_set_access :: "string \<Rightarrow> string \<Rightarrow> string \<Rightarrow> client \<Rightarrow> unit stub_result" where
  "stub_set_access mtg_name princ_name ms c =
     rpccheck (cl_startsend SET_ACCESS c) (\<lambda>c.
     rpccheck (cl_sendit (cl_sendstr ms (cl_sendstr princ_name (cl_sendstr mtg_name c)))) (\<lambda>c.
     do { c \<leftarrow> cl_recvreply c;
          rpccheck c (\<lambda>c. let (result, c) = cl_recvint c in stub_end result () c) }))"

definition stub_delete_access :: "string \<Rightarrow> string \<Rightarrow> client \<Rightarrow> unit stub_result" where
  "stub_delete_access mtg_name princ_name c =
     rpccheck (cl_startsend DELETE_ACCESS c) (\<lambda>c.
     rpccheck (cl_sendit (cl_sendstr princ_name (cl_sendstr mtg_name c))) (\<lambda>c.
     do { c \<leftarrow> cl_recvreply c;
          rpccheck c (\<lambda>c. let (result, c) = cl_recvint c in stub_end result () c) }))"

definition stub_set_trn_flags :: "string \<Rightarrow> int \<Rightarrow> int \<Rightarrow> client \<Rightarrow> unit stub_result" where
  "stub_set_trn_flags mtg_name trn flags c =
     rpccheck (cl_startsend SET_TRN_FLAGS c) (\<lambda>c.
     rpccheck (cl_sendit (cl_sendint flags (cl_sendint trn (cl_sendstr mtg_name c)))) (\<lambda>c.
     do { c \<leftarrow> cl_recvreply c;
          rpccheck c (\<lambda>c. let (result, c) = cl_recvint c in stub_end result () c) }))"

definition stub_dwhoami :: "client \<Rightarrow> string stub_result" where
  "stub_dwhoami c =
     rpccheck (cl_startsend WHO_AM_I c) (\<lambda>c.
     rpccheck (cl_sendit c) (\<lambda>c.
     do { c \<leftarrow> cl_recvreply c;
          rpccheck c (\<lambda>c. let (ident, c) = cl_recvstr c in stub_end 0 ident c) }))"

text \<open>Any error makes the server one of version 0.\<close>

definition stub_get_server_version :: "client \<Rightarrow> (int \<times> client) option" where
  "stub_get_server_version c =
     (let c = cl_startsend GET_SERVER_VERSION c in
      if cl_err c \<noteq> 0 then Some (SERVER_0, c) else
      let c = cl_sendit c in
      if cl_err c \<noteq> 0 then Some (SERVER_0, c) else
      do { c \<leftarrow> cl_recvreply c;
           if cl_err c \<noteq> 0 then Some (SERVER_0, c) else
           let (vers_num, c) = cl_recvint c in
           if cl_err c \<noteq> 0 then Some (SERVER_0, c) else
           let (result, c) = cl_recvint c in
           if cl_err c \<noteq> 0 then Some (SERVER_0, c) else Some (vers_num, c) })"

end
