(* ===== verification/Frame.thy ===== *)
theory Frame
  imports Core Acl_core
begin

text \<open>
  Most operations of the server take no file object.  They neither use nor change the stream to
  the client: run on a state with another stream they do the same and leave that stream.  The
  dispatcher's replies rest on this.

  \<open>us_free L f\<close> is the property of an operation whose results have the shape \<open>L\<close> (a state, a
  value with a state, or two values with a state); \<open>us_blind\<close> that of a function that only reads
  the state and \<open>us_comm\<close> that of one that only changes it.  The rules follow the constructs of
  the definitions, so that an operation is proved by taking its definition apart.
\<close>

type_synonym 'x shape = "('x \<Rightarrow> srv) \<times> ((srv \<Rightarrow> srv) \<Rightarrow> 'x \<Rightarrow> 'x)"

definition a_state :: "srv shape" where "a_state = (id, id)"
definition with_one :: "('a \<times> srv) shape" where "with_one = (snd, apsnd)"
definition with_two :: "('a \<times> 'b \<times> srv) shape" where "with_two = (\<lambda>x. snd (snd x), \<lambda>f. apsnd (apsnd f))"

lemmas shape_defs = a_state_def with_one_def with_two_def

definition us_free :: "'x shape \<Rightarrow> (srv \<Rightarrow> 'x option) \<Rightarrow> bool" where
  "us_free L f \<longleftrightarrow> (\<forall>s u. \<not> abort_file s \<longrightarrow>
     f (s\<lparr>us := u\<rparr>) = map_option (snd L (\<lambda>s. s\<lparr>us := u\<rparr>)) (f s) \<and>
     (\<forall>x. f s = Some x \<longrightarrow> \<not> abort_file (fst L x)))"

definition us_blind :: "(srv \<Rightarrow> 'r) \<Rightarrow> bool" where
  "us_blind f \<longleftrightarrow> (\<forall>s u. \<not> abort_file s \<longrightarrow> f (s\<lparr>us := u\<rparr>) = f s)"

definition us_comm :: "(srv \<Rightarrow> srv) \<Rightarrow> bool" where
  "us_comm h \<longleftrightarrow> (\<forall>s u. \<not> abort_file s \<longrightarrow> h (s\<lparr>us := u\<rparr>) = (h s)\<lparr>us := u\<rparr> \<and> \<not> abort_file (h s))"

lemma us_freeD:
  "us_free L f \<Longrightarrow> \<not> abort_file s \<Longrightarrow> f (s\<lparr>us := u\<rparr>) = map_option (snd L (\<lambda>s. s\<lparr>us := u\<rparr>)) (f s)"
  "us_free L f \<Longrightarrow> \<not> abort_file s \<Longrightarrow> f s = Some x \<Longrightarrow> \<not> abort_file (fst L x)"
  unfolding us_free_def by blast+

lemma us_blindD: "us_blind f \<Longrightarrow> \<not> abort_file s \<Longrightarrow> f (s\<lparr>us := u\<rparr>) = f s"
  by (simp add: us_blind_def)

lemma us_freeI:
  "(\<And>s u. \<not> abort_file s \<Longrightarrow> f (s\<lparr>us := u\<rparr>) = map_option (snd L (\<lambda>s. s\<lparr>us := u\<rparr>)) (f s)) \<Longrightarrow>
   (\<And>s x. \<not> abort_file s \<Longrightarrow> f s = Some x \<Longrightarrow> \<not> abort_file (fst L x)) \<Longrightarrow> us_free L f"
  unfolding us_free_def by blast

subsection \<open>Composition\<close>

lemma us_free_None: "us_free L (\<lambda>s. None)"
  by (simp add: us_free_def)

lemma us_free_leaf:
  "us_comm h \<Longrightarrow> us_free a_state (\<lambda>s. Some (h s))"
  "us_blind c \<Longrightarrow> us_comm h \<Longrightarrow> us_free with_one (\<lambda>s. Some (c s, h s))"
  "us_blind c \<Longrightarrow> us_blind d \<Longrightarrow> us_comm h \<Longrightarrow> us_free with_two (\<lambda>s. Some (c s, d s, h s))"
  by (simp_all add: us_free_def us_blind_def us_comm_def shape_defs)

lemma us_free_bind1:
  assumes "us_free with_one f" and "\<And>r. us_free L (g r)"
  shows "us_free L (\<lambda>s. Option.bind (f s) (\<lambda>(r, s). g r s))"
proof (rule us_freeI)
  fix s :: srv and u
  assume a: "\<not> abort_file s"
  show "Option.bind (f (s\<lparr>us := u\<rparr>)) (\<lambda>(r, s). g r s) =
      map_option (snd L (\<lambda>s. s\<lparr>us := u\<rparr>)) (Option.bind (f s) (\<lambda>(r, s). g r s))"
    using us_freeD(1) [OF assms(1) a] us_freeD(2) [OF assms(1) a] us_freeD(1) [OF assms(2)]
    by (cases "f s") (auto simp: shape_defs)
next
  fix s x
  assume a: "\<not> abort_file s" and x: "Option.bind (f s) (\<lambda>(r, s). g r s) = Some x"
  show "\<not> abort_file (fst L x)"
    using x us_freeD(2) [OF assms(1) a] us_freeD(2) [OF assms(2)] by (cases "f s") (auto simp: shape_defs)
qed

lemma us_free_bind2:
  assumes "us_free with_two f" and "\<And>r t. us_free L (g r t)"
  shows "us_free L (\<lambda>s. Option.bind (f s) (\<lambda>(r, t, s). g r t s))"
proof (rule us_freeI)
  fix s :: srv and u
  assume a: "\<not> abort_file s"
  show "Option.bind (f (s\<lparr>us := u\<rparr>)) (\<lambda>(r, t, s). g r t s) =
      map_option (snd L (\<lambda>s. s\<lparr>us := u\<rparr>)) (Option.bind (f s) (\<lambda>(r, t, s). g r t s))"
    using us_freeD(1) [OF assms(1) a] us_freeD(2) [OF assms(1) a] us_freeD(1) [OF assms(2)]
    by (cases "f s") (auto simp: shape_defs)
next
  fix s x
  assume a: "\<not> abort_file s" and x: "Option.bind (f s) (\<lambda>(r, t, s). g r t s) = Some x"
  show "\<not> abort_file (fst L x)"
    using x us_freeD(2) [OF assms(1) a] us_freeD(2) [OF assms(2)] by (cases "f s") (auto simp: shape_defs)
qed

lemma us_free_bind0:
  assumes "us_free a_state f" and "us_free L g"
  shows "us_free L (\<lambda>s. Option.bind (f s) g)"
proof (rule us_freeI)
  fix s :: srv and u
  assume a: "\<not> abort_file s"
  show "Option.bind (f (s\<lparr>us := u\<rparr>)) g = map_option (snd L (\<lambda>s. s\<lparr>us := u\<rparr>)) (Option.bind (f s) g)"
    using us_freeD(1) [OF assms(1) a] us_freeD(2) [OF assms(1) a] us_freeD(1) [OF assms(2)]
    by (cases "f s") (auto simp: shape_defs)
next
  fix s x
  assume a: "\<not> abort_file s" and x: "Option.bind (f s) g = Some x"
  show "\<not> abort_file (fst L x)"
    using x us_freeD(2) [OF assms(1) a] us_freeD(2) [OF assms(2)] by (cases "f s") (auto simp: shape_defs)
qed

lemma us_free_reader:
  assumes "us_blind f" and "\<And>r. us_free L (g r)"
  shows "us_free L (\<lambda>s. Option.bind (f s) (\<lambda>r. g r s))"
proof (rule us_freeI)
  fix s :: srv and u
  assume a: "\<not> abort_file s"
  show "Option.bind (f (s\<lparr>us := u\<rparr>)) (\<lambda>r. g r (s\<lparr>us := u\<rparr>)) =
      map_option (snd L (\<lambda>s. s\<lparr>us := u\<rparr>)) (Option.bind (f s) (\<lambda>r. g r s))"
    using us_blindD [OF assms(1) a] us_freeD(1) [OF assms(2) a] by (cases "f s") auto
next
  fix s x
  assume a: "\<not> abort_file s" and x: "Option.bind (f s) (\<lambda>r. g r s) = Some x"
  show "\<not> abort_file (fst L x)" using x us_freeD(2) [OF assms(2) a] by (cases "f s") auto
qed

lemma us_free_if:
  assumes "us_blind b" and "us_free L f" and "us_free L g"
  shows "us_free L (\<lambda>s. if b s then f s else g s)"
proof (rule us_freeI)
  fix s :: srv and u
  assume a: "\<not> abort_file s"
  show "(if b (s\<lparr>us := u\<rparr>) then f (s\<lparr>us := u\<rparr>) else g (s\<lparr>us := u\<rparr>)) =
      map_option (snd L (\<lambda>s. s\<lparr>us := u\<rparr>)) (if b s then f s else g s)"
    unfolding us_blindD [OF assms(1) a] us_freeD(1) [OF assms(2) a] us_freeD(1) [OF assms(3) a] by simp
next
  fix s x
  assume a: "\<not> abort_file s" and x: "(if b s then f s else g s) = Some x"
  show "\<not> abort_file (fst L x)"
    using x us_freeD(2) [OF assms(2) a] us_freeD(2) [OF assms(3) a] by (cases "b s") simp_all
qed

lemma us_free_update:
  assumes "us_free L f" and "us_comm h"
  shows "us_free L (\<lambda>s. f (h s))"
proof (rule us_freeI)
  fix s :: srv and u
  assume a: "\<not> abort_file s"
  then have h: "h (s\<lparr>us := u\<rparr>) = (h s)\<lparr>us := u\<rparr>" "\<not> abort_file (h s)"
    using assms(2) by (simp_all add: us_comm_def)
  show "f (h (s\<lparr>us := u\<rparr>)) = map_option (snd L (\<lambda>s. s\<lparr>us := u\<rparr>)) (f (h s))"
    unfolding h(1) by (rule us_freeD(1) [OF assms(1) h(2)])
next
  fix s x
  assume "\<not> abort_file s" and x: "f (h s) = Some x"
  then have "\<not> abort_file (h s)" using assms(2) by (simp add: us_comm_def)
  from us_freeD(2) [OF assms(1) this x] show "\<not> abort_file (fst L x)" .
qed

lemma us_free_let: "us_comm h \<Longrightarrow> us_free L f \<Longrightarrow> us_free L (\<lambda>s. let s' = h s in f s')"
  unfolding Let_def by (rule us_free_update)

lemma us_free_value:
  assumes "us_blind v" and "\<And>x. us_free L (f x)"
  shows "us_free L (\<lambda>s. let x = v s in f x s)"
proof (rule us_freeI)
  fix s :: srv and u
  assume a: "\<not> abort_file s"
  show "(let x = v (s\<lparr>us := u\<rparr>) in f x (s\<lparr>us := u\<rparr>)) =
      map_option (snd L (\<lambda>s. s\<lparr>us := u\<rparr>)) (let x = v s in f x s)"
    unfolding Let_def us_blindD [OF assms(1) a] by (rule us_freeD(1) [OF assms(2) a])
next
  fix s x
  assume a: "\<not> abort_file s" and "(let x = v s in f x s) = Some x"
  with us_freeD(2) [OF assms(2) a] show "\<not> abort_file (fst L x)" by (simp add: Let_def)
qed

lemma us_free_case_option:
  assumes "us_blind v" and "us_free L f" and "\<And>x. us_free L (g x)"
  shows "us_free L (\<lambda>s. case v s of None \<Rightarrow> f s | Some x \<Rightarrow> g x s)"
proof -
  have e: "(\<lambda>s. case v s of None \<Rightarrow> f s | Some x \<Rightarrow> g x s) =
      (\<lambda>s. if v s = None then f s else let x = the (v s) in g x s)"
    by (auto simp: fun_eq_iff split: option.split)
  show ?thesis unfolding e using assms
    by (intro us_free_if us_free_value assms) (simp_all add: us_blind_def)
qed

lemma us_free_case_sum:
  assumes "us_blind v" and "\<And>e. us_free L (f e)" and "\<And>x. us_free L (g x)"
  shows "us_free L (\<lambda>s. case v s of Inl e \<Rightarrow> f e s | Inr x \<Rightarrow> g x s)"
proof -
  have e: "(\<lambda>s. case v s of Inl e \<Rightarrow> f e s | Inr x \<Rightarrow> g x s) =
      (\<lambda>s. if isl (v s) then let e = projl (v s) in f e s else let x = projr (v s) in g x s)"
    by (auto simp: fun_eq_iff split: sum.split)
  show ?thesis unfolding e using assms
    by (intro us_free_if us_free_value assms) (simp_all add: us_blind_def)
qed

lemma us_comm_id: "us_comm (\<lambda>s. s)"
  by (simp add: us_comm_def)

lemma us_comm_comp: "us_comm g \<Longrightarrow> us_comm h \<Longrightarrow> us_comm (\<lambda>s. g (h s))"
  by (simp add: us_comm_def)

lemma us_free_case_prod:
  "(\<And>a b. us_free L (g a b)) \<Longrightarrow> us_free L (\<lambda>s. case p of (a, b) \<Rightarrow> g a b s)"
  by (cases p) simp

lemmas us_rules = us_free_None us_free_case_prod us_free_leaf us_free_bind2 us_free_bind1 us_free_bind0 us_free_if
  us_free_let us_free_value us_free_case_option us_free_case_sum us_free_reader us_comm_id

text \<open>The operations for which the property is known; their functions on the state, and readers.\<close>

named_theorems stream_free \<open>operations that neither use nor change the stream\<close>
named_theorems stream_blind \<open>functions that do not read the stream\<close>

subsection \<open>The control file and the transaction file\<close>

lemma ctl_read_us [stream_blind]: "ctl_read (s\<lparr>us := u\<rparr>) = ctl_read s"
  by (simp add: ctl_read_def fun_eq_iff)

lemma trn_read_us [stream_blind]: "trn_read (s\<lparr>us := u\<rparr>) = trn_read s"
  by (simp add: trn_read_def fun_eq_iff)

lemma read_chain_us [stream_blind]: "read_chain (s\<lparr>us := u\<rparr>) = read_chain s"
  by (simp add: read_chain_def fun_eq_iff stream_blind cong: if_cong)

lemma read_trn_us [stream_blind]: "read_trn (s\<lparr>us := u\<rparr>) = read_trn s"
  by (simp add: read_trn_def fun_eq_iff stream_blind cong: if_cong)

lemma check_acl_us [stream_blind]: "check_acl (s\<lparr>us := u\<rparr>) = check_acl s"
  by (simp add: check_acl_def fun_eq_iff split: acl_ptr.split)

lemma has_mtg_access_us [stream_blind]: "has_mtg_access (s\<lparr>us := u\<rparr>) = has_mtg_access s"
  by (simp add: has_mtg_access_def fun_eq_iff stream_blind cong: if_cong)

lemma has_trn_access_us [stream_blind]: "has_trn_access (s\<lparr>us := u\<rparr>) = has_trn_access s"
  by (simp add: has_trn_access_def fun_eq_iff stream_blind cong: if_cong)

lemma time_now_us [stream_blind]: "time_now (s\<lparr>us := u\<rparr>) = time_now s"
  by (simp add: time_now_def)

lemma core_abort_us [stream_blind]:
  "\<not> abort_file s \<Longrightarrow> core_abort (s\<lparr>us := u\<rparr>) = (core_abort s)\<lparr>us := u\<rparr>"
  "\<not> abort_file s \<Longrightarrow> \<not> abort_file (core_abort s)"
  by (simp_all add: core_abort_def forget_super_def finish_read_def Let_def)

lemma small_steps_us [stream_blind]:
  "begin_atomic (s\<lparr>us := u\<rparr>) = (begin_atomic s)\<lparr>us := u\<rparr>" "abort_file (begin_atomic s) = abort_file s"
  "end_atomic (s\<lparr>us := u\<rparr>) = (end_atomic s)\<lparr>us := u\<rparr>" "abort_file (end_atomic s) = abort_file s"
  "start_read (s\<lparr>us := u\<rparr>) = (start_read s)\<lparr>us := u\<rparr>" "abort_file (start_read s) = abort_file s"
  "finish_read (s\<lparr>us := u\<rparr>) = (finish_read s)\<lparr>us := u\<rparr>" "abort_file (finish_read s) = abort_file s"
  "forget_super (s\<lparr>us := u\<rparr>) = (forget_super s)\<lparr>us := u\<rparr>" "abort_file (forget_super s) = abort_file s"
  by (simp_all add: begin_atomic_def end_atomic_def start_read_def finish_read_def forget_super_def)

lemma read_super_free [stream_free]: "us_comm h \<Longrightarrow> us_free with_one (\<lambda>s. read_super (h s))"
  unfolding read_super_def
  by (rule us_free_update, intro us_rules) (simp_all add: us_blind_def us_comm_def stream_blind)

lemma ctl_write_free [stream_free]:
  assumes "us_comm h" and "us_blind p" and "us_blind n" and "us_blind b"
  shows "us_free with_one (\<lambda>s. ctl_write (h s) (p s) (n s) (b s))"
proof -
  have "ctl_write (s\<lparr>us := u\<rparr>) pos m buf = map_option (apsnd (\<lambda>s. s\<lparr>us := u\<rparr>)) (ctl_write s pos m buf)"
    for s :: srv and u pos m buf
    by (cases "awrite (a_control_f s) (fs s) (take (nat m) buf) (nat pos)")
      (auto simp: ctl_write_def split: prod.splits)
  moreover have "ctl_write s pos m buf = Some (r, s') \<Longrightarrow> abort_file s' = abort_file s" for s s' r pos m buf
    by (auto simp: ctl_write_def split: prod.splits if_splits)
  ultimately show ?thesis
    using assms unfolding us_free_def us_blind_def us_comm_def shape_defs by simp
qed

lemma write_super_free [stream_free]: "us_comm h \<Longrightarrow> us_free a_state (\<lambda>s. write_super (h s))"
  unfolding write_super_def
  by (rule us_free_update, intro us_rules stream_free) (simp_all add: us_blind_def us_comm_def stream_blind)

lemma write_chain_free [stream_free]:
  "us_comm h \<Longrightarrow> us_blind b \<Longrightarrow> us_free with_one (\<lambda>s. write_chain (h s) (b s))"
  unfolding write_chain_def
  by (intro us_rules stream_free) (simp_all add: us_blind_def us_comm_def stream_blind)

subsection \<open>Opening a meeting\<close>

lemma punt_mtg_free [stream_free]: "us_comm h \<Longrightarrow> us_free with_one (\<lambda>s. punt_mtg c (h s))"
  unfolding punt_mtg_def
  by (rule us_free_update, intro us_rules stream_free) (simp_all add: us_blind_def us_comm_def stream_blind)

lemma open_trn_file_free [stream_free]: "us_comm h \<Longrightarrow> us_free with_one (\<lambda>s. open_trn_file mtg (h s))"
  unfolding open_trn_file_def
  by (rule us_free_update, intro us_rules stream_free) (simp_all add: us_blind_def us_comm_def stream_blind)

lemma open_files_free [stream_free]: "us_comm h \<Longrightarrow> us_free with_one (\<lambda>s. open_files mtg (h s))"
  unfolding open_files_def
  by (rule us_free_update, intro us_rules stream_free) (simp_all add: us_blind_def us_comm_def stream_blind)

lemma close_previous_free [stream_free]: "us_comm h \<Longrightarrow> us_free a_state (\<lambda>s. close_previous (h s))"
  unfolding close_previous_def
  by (rule us_free_update, intro us_rules stream_free) (simp_all add: us_blind_def us_comm_def stream_blind)

lemma open_mtg_free [stream_free]: "us_comm h \<Longrightarrow> us_free with_one (\<lambda>s. open_mtg mtg (h s))"
  unfolding open_mtg_def
  by (rule us_free_update, intro us_rules stream_free)
    (simp_all add: us_blind_def us_comm_def stream_blind cong: option.case_cong)

subsection \<open>Deleting, retrieving, flags\<close>

lemma relink_free [stream_free]: "us_comm h \<Longrightarrow> us_free with_two (\<lambda>s. relink (h s) trn f spare)"
  unfolding relink_def
  by (rule us_free_update, intro us_rules stream_free) (simp_all add: us_blind_def us_comm_def stream_blind)

lemma delete_links_free [stream_free]: "us_comm h \<Longrightarrow> us_free with_one (\<lambda>s. delete_links cb (h s))"
  unfolding delete_links_def
  by (rule us_free_update, intro us_rules stream_free) (simp_all add: us_blind_def us_comm_def stream_blind)

lemma edit_start_free [stream_free]: "us_comm h \<Longrightarrow> us_free with_two (\<lambda>s. edit_start mtg trn check (h s))"
  unfolding edit_start_def
  by (rule us_free_update, intro us_rules stream_free) (simp_all add: us_blind_def us_comm_def stream_blind)

lemma delete_trn_free [stream_free]: "us_comm h \<Longrightarrow> us_free with_one (\<lambda>s. delete_trn mtg trn (h s))"
  unfolding delete_trn_def
  by (rule us_free_update, intro us_rules stream_free) (simp_all add: us_blind_def us_comm_def stream_blind)

lemma set_trn_flags_free [stream_free]: "us_comm h \<Longrightarrow> us_free with_one (\<lambda>s. set_trn_flags mtg trn flags (h s))"
  unfolding set_trn_flags_def
  by (rule us_free_update, intro us_rules stream_free) (simp_all add: us_blind_def us_comm_def stream_blind)

lemma find_pref_us1: "find_pref current pref spare s = Some y \<Longrightarrow> find_pref current pref spare (s\<lparr>us := u\<rparr>) = Some y"
proof (induction current pref spare s y rule: find_pref.raw_induct [rotated, consumes 1])
  case (1 f current pref spare s y)
  from 1(2) show ?case
    by (subst find_pref.simps) (auto simp: stream_blind intro: 1(1) split: if_splits Option.bind_splits)
qed

lemma find_pref_us [stream_blind]: "find_pref current pref spare (s\<lparr>us := u\<rparr>) = find_pref current pref spare s"
  using find_pref_us1 [of current pref spare s _ u] find_pref_us1 [of current pref spare "s\<lparr>us := u\<rparr>" _ "us s"]
  by (cases "find_pref current pref spare s"; cases "find_pref current pref spare (s\<lparr>us := u\<rparr>)") auto

lemma find_nref_us1: "find_nref current nref spare s = Some y \<Longrightarrow> find_nref current nref spare (s\<lparr>us := u\<rparr>) = Some y"
proof (induction current nref spare s y rule: find_nref.raw_induct [rotated, consumes 1])
  case (1 f current nref spare s y)
  from 1(2) show ?case
    by (subst find_nref.simps) (auto simp: stream_blind intro: 1(1) split: if_splits Option.bind_splits)
qed

lemma find_nref_us [stream_blind]: "find_nref current nref spare (s\<lparr>us := u\<rparr>) = find_nref current nref spare s"
  using find_nref_us1 [of current nref spare s _ u] find_nref_us1 [of current nref spare "s\<lparr>us := u\<rparr>" _ "us s"]
  by (cases "find_nref current nref spare s"; cases "find_nref current nref spare (s\<lparr>us := u\<rparr>)") auto

lemma find_prev_us1: "find_prev prev spare s = Some y \<Longrightarrow> find_prev prev spare (s\<lparr>us := u\<rparr>) = Some y"
proof (induction prev spare s y rule: find_prev.raw_induct [rotated, consumes 1])
  case (1 f prev spare s y)
  from 1(2) show ?case
    by (subst find_prev.simps) (auto simp: stream_blind intro: 1(1) split: if_splits Option.bind_splits)
qed

lemma find_prev_us [stream_blind]: "find_prev prev spare (s\<lparr>us := u\<rparr>) = find_prev prev spare s"
  using find_prev_us1 [of prev spare s _ u] find_prev_us1 [of prev spare "s\<lparr>us := u\<rparr>" _ "us s"]
  by (cases "find_prev prev spare s"; cases "find_prev prev spare (s\<lparr>us := u\<rparr>)") auto

lemma find_next_us1: "find_next nxt spare s = Some y \<Longrightarrow> find_next nxt spare (s\<lparr>us := u\<rparr>) = Some y"
proof (induction nxt spare s y rule: find_next.raw_induct [rotated, consumes 1])
  case (1 f nxt spare s y)
  from 1(2) show ?case
    by (subst find_next.simps) (auto simp: stream_blind intro: 1(1) split: if_splits Option.bind_splits)
qed

lemma find_next_us [stream_blind]: "find_next nxt spare (s\<lparr>us := u\<rparr>) = find_next nxt spare s"
  using find_next_us1 [of nxt spare s _ u] find_next_us1 [of nxt spare "s\<lparr>us := u\<rparr>" _ "us s"]
  by (cases "find_next nxt spare s"; cases "find_next nxt spare (s\<lparr>us := u\<rparr>)") auto

lemma retrieve_search_us [stream_blind]: "retrieve_search cb (s\<lparr>us := u\<rparr>) = retrieve_search cb s"
  by (simp add: retrieve_search_def stream_blind cong: if_cong)

lemma retrieve_links_free [stream_free]: "us_comm h \<Longrightarrow> us_free with_one (\<lambda>s. retrieve_links cb sp (h s))"
  unfolding retrieve_links_def
  by (rule us_free_update, intro us_rules stream_free) (simp_all add: us_blind_def us_comm_def stream_blind)

lemma retrieve_trn_free [stream_free]: "us_comm h \<Longrightarrow> us_free with_one (\<lambda>s. retrieve_trn mtg trn (h s))"
  unfolding retrieve_trn_def
  by (rule us_free_update, intro us_rules stream_free) (simp_all add: us_blind_def us_comm_def stream_blind)

subsection \<open>Information\<close>

lemma find_trn_free [stream_free]: "us_comm h \<Longrightarrow> us_free with_two (\<lambda>s. find_trn mtg trn sig (h s))"
  unfolding find_trn_def
  by (rule us_free_update, intro us_rules stream_free) (simp_all add: us_blind_def us_comm_def stream_blind)

lemma get_trn_info_free [stream_free]: "us_comm h \<Longrightarrow> us_free with_two (\<lambda>s. get_trn_info mtg trn (h s))"
  unfolding get_trn_info_def
  by (rule us_free_update, intro us_rules stream_free) (simp_all add: us_blind_def us_comm_def stream_blind)

lemma get_trn_info2_free [stream_free]: "us_comm h \<Longrightarrow> us_free with_two (\<lambda>s. get_trn_info2 mtg trn (h s))"
  unfolding get_trn_info2_def
  by (rule us_free_update, intro us_rules stream_free) (simp_all add: us_blind_def us_comm_def stream_blind)

lemma get_trn_info3_free [stream_free]: "us_comm h \<Longrightarrow> us_free with_two (\<lambda>s. get_trn_info3 mtg trn (h s))"
  unfolding get_trn_info3_def
  by (rule us_free_update, intro us_rules stream_free) (simp_all add: us_blind_def us_comm_def stream_blind)

lemma moved_info_free [stream_free]: "us_comm h \<Longrightarrow> us_free with_two (\<lambda>s. moved_info mtg info (h s))"
  unfolding moved_info_def
  by (rule us_free_update, intro us_rules stream_free) (simp_all add: us_blind_def us_comm_def stream_blind)

lemma get_mtg_info_free [stream_free]: "us_comm h \<Longrightarrow> us_free with_two (\<lambda>s. get_mtg_info mtg info (h s))"
  unfolding get_mtg_info_def
  by (rule us_free_update, intro us_rules stream_free) (simp_all add: us_blind_def us_comm_def stream_blind)

lemma updated_mtg_us [stream_blind]: "updated_mtg mtg lst (s\<lparr>us := u\<rparr>) = updated_mtg mtg lst s"
  by (simp add: updated_mtg_def cong: sum.case_cong)

lemma remove_mtg_free [stream_free]: "us_comm h \<Longrightarrow> us_free with_one (\<lambda>s. remove_mtg mtg (h s))"
  unfolding remove_mtg_def
  by (rule us_free_update, intro us_rules stream_free) (simp_all add: us_blind_def us_comm_def stream_blind)

subsection \<open>Access lists\<close>

lemma read_acl_us [stream_blind]: "read_acl mtg check (s\<lparr>us := u\<rparr>) = read_acl mtg check s"
  by (simp add: read_acl_def cong: if_cong option.case_cong sum.case_cong)

lemma get_acl_us [stream_blind]: "get_acl mtg (s\<lparr>us := u\<rparr>) = get_acl mtg s"
  by (simp add: get_acl_def stream_blind)

lemma get_access_us [stream_blind]: "get_access mtg p (s\<lparr>us := u\<rparr>) = get_access mtg p s"
  by (simp add: get_access_def stream_blind)

lemma locked_open_us [stream_blind]: "locked_open_mtg junk mtg (s\<lparr>us := u\<rparr>) = locked_open_mtg junk mtg s"
  by (simp add: locked_open_mtg_def cong: if_cong sum.case_cong)

lemma locked_acl_us [stream_blind]: "locked_acl p (s\<lparr>us := u\<rparr>) = locked_acl p s"
  by (simp add: locked_acl_def split: acl_ptr.split)

lemma locked_abort_free [stream_free]: "us_comm h \<Longrightarrow> us_free a_state (\<lambda>s. locked_abort p (h s))"
  unfolding locked_abort_def
  by (rule us_free_update, intro us_rules stream_free) (simp_all add: us_blind_def us_comm_def stream_blind)

lemma locked_close_mtg_free [stream_free]: "us_comm h \<Longrightarrow> us_free with_one (\<lambda>s. locked_close_mtg name l (h s))"
  unfolding locked_close_mtg_def
  by (rule us_free_update, intro us_rules stream_free) (simp_all add: us_blind_def us_comm_def stream_blind)

lemma set_access_free [stream_free]: "us_comm h \<Longrightarrow> us_free with_one (\<lambda>s. set_access buf junk mtg p ms (h s))"
  unfolding set_access_def
  by (rule us_free_update, intro us_rules stream_free) (simp_all add: us_blind_def us_comm_def stream_blind)

lemma delete_access_free [stream_free]: "us_comm h \<Longrightarrow> us_free with_one (\<lambda>s. delete_access junk mtg p (h s))"
  unfolding delete_access_def
  by (rule us_free_update, intro us_rules stream_free) (simp_all add: us_blind_def us_comm_def stream_blind)

subsection \<open>Creating a meeting\<close>

lemma trn_write_us [stream_blind]:
  "trn_write (s\<lparr>us := u\<rparr>) pos n buf = apsnd (\<lambda>s. s\<lparr>us := u\<rparr>) (trn_write s pos n buf)"
  "abort_file (snd (trn_write s pos n buf)) = abort_file s"
  by (simp_all add: trn_write_def split: prod.split)

lemma trn_append_us [stream_blind]:
  "trn_append (pos, s\<lparr>us := u\<rparr>) n buf = apsnd (\<lambda>s. s\<lparr>us := u\<rparr>) (trn_append (pos, s) n buf)"
  "trn_append (apsnd (\<lambda>s. s\<lparr>us := u\<rparr>) q) n buf = apsnd (\<lambda>s. s\<lparr>us := u\<rparr>) (trn_append q n buf)"
  "abort_file (snd (trn_append q n buf)) = abort_file (snd q)"
  by (simp_all add: trn_append_def stream_blind split: prod.split) (metis trn_write_us(2) snd_conv)

text \<open>The stream's update moved outwards.\<close>

lemma us_outwards:
  "s\<lparr>us := u, fs := x1\<rparr> = s\<lparr>fs := x1, us := u\<rparr>"
  "s\<lparr>us := u, u_control_f := x2\<rparr> = s\<lparr>u_control_f := x2, us := u\<rparr>"
  "s\<lparr>us := u, u_trn_f := x2\<rparr> = s\<lparr>u_trn_f := x2, us := u\<rparr>"
  "s\<lparr>us := u, mtg_swapped := x3\<rparr> = s\<lparr>mtg_swapped := x3, us := u\<rparr>"
  "s\<lparr>us := u, super := x4\<rparr> = s\<lparr>super := x4, us := u\<rparr>"
  "s\<lparr>us := u, super_long_name := x5\<rparr> = s\<lparr>super_long_name := x5, us := u\<rparr>"
  "s\<lparr>us := u, super_chairman := x5\<rparr> = s\<lparr>super_chairman := x5, us := u\<rparr>"
  by simp_all

lemma may_create_us [stream_blind]: "may_create location (s\<lparr>us := u\<rparr>) = may_create location s"
  by (simp add: may_create_def cong: if_cong sum.case_cong option.case_cong)

lemma create_files_free [stream_free]:
  "us_comm h \<Longrightarrow> us_free with_one (\<lambda>s. create_files location name public date chairman (h s))"
  unfolding create_files_def Let_def
  by (rule us_free_update, intro us_rules stream_free) (simp_all add: us_blind_def us_comm_def stream_blind us_outwards)

lemma create_mtg_priv_free [stream_free]:
  "us_comm h \<Longrightarrow> us_free with_one (\<lambda>s. create_mtg_priv junk location name public date chairman acl (h s))"
  unfolding create_mtg_priv_def
  by (rule us_free_update, intro us_rules stream_free) (simp_all add: us_blind_def us_comm_def stream_blind)

lemma create_mtg_free [stream_free]:
  assumes "us_comm h"
  shows "us_free with_one (\<lambda>s. create_mtg junk location name public (h s))"
proof (rule us_free_update [OF _ assms])
  have "us_free with_one (\<lambda>s. let d = time_now s in let c = rpc_caller s in
      create_mtg_priv junk location name public d c None s)"
    by (intro us_free_value stream_free us_comm_id) (simp_all add: us_blind_def stream_blind)
  then show "us_free with_one (create_mtg junk location name public)"
    by (simp add: create_mtg_def [abs_def] Let_def)
qed

end
