(* ===== verification/Lookup.thy ===== *)
theory Lookup
  imports Delete
begin

text \<open>
  Reading: what \<open>get_trn_info\<close> and its two successors say of a transaction.  The superblock is read
  under the lock, the two blocks and the record of the transaction follow, and the state is as
  before but for the superblock in memory.
\<close>

subsection \<open>Finding a transaction\<close>

definition reading :: "mtg_super \<Rightarrow> string \<Rightarrow> string \<Rightarrow> srv \<Rightarrow> srv" where
  "reading sb ln ch s = with_super sb ln ch (start_read s)"

lemma read_begin:
  assumes "at_rest s sb ln ch m"
  shows "read_super (start_read s) = Some (OK, reading sb ln ch s)" and "rep (reading sb ln ch s) m"
    and "super (reading sb ln ch s) = sb"
proof -
  from assms have r: "\<not> nuclear s" "faults (fs s) = []"
    and m: "mtg_in (fdata (fs s) (u_control_f s)) (mtg_swapped s) sb ln ch m" by (simp_all add: at_rest_def)
  have f: "nuclear (start_read s) = nuclear s" "fs (start_read s) = fs s" "u_control_f (start_read s) = u_control_f s"
    "mtg_swapped (start_read s) = mtg_swapped s" by (simp_all add: start_read_def)
  have i: "ctl_inv (start_read s)" "ctl_view (start_read s) = fdata (fs s) (u_control_f s)"
    using r by (simp_all add: ctl_inv_def ctl_view_def f)
  show "read_super (start_read s) = Some (OK, reading sb ln ch s)"
    unfolding reading_def by (rule read_super_in) (use i m in \<open>simp_all add: f\<close>)
  show "rep (reading sb ln ch s) m"
    using m i r by (simp add: reading_def rep_def mtg_in_def ctl_ok_def f)
  show "super (reading sb ln ch s) = sb" by (simp add: reading_def)
qed

lemma reading_cong:
  "read_trn (reading sb ln ch s) = read_trn s" "has_trn_access (finish_read (reading sb ln ch s)) = has_trn_access s"
  by (rule read_trn_cong; simp add: reading_def start_read_def with_super_def)
    (rule access_cong; simp add: reading_def start_read_def finish_read_def with_super_def)

text \<open>The state after a successful reading.\<close>

definition read_done :: "mtg_super \<Rightarrow> string \<Rightarrow> string \<Rightarrow> srv \<Rightarrow> srv" where
  "read_done sb ln ch s = forget_super (finish_read (reading sb ln ch s))"

lemma read_done_frame: "\<not> read_lock s \<Longrightarrow> op_frame s (read_done sb ln ch s)"
  by (simp add: read_done_def reading_def op_frame_def forget_super_def finish_read_def start_read_def
      with_super_def other_files_def)

lemma read_done_rest: "at_rest s sb ln ch m \<Longrightarrow> at_rest (read_done sb ln ch s) sb ln ch m"
  by (simp add: at_rest_def read_done_def reading_def forget_super_def finish_read_def start_read_def with_super_def)

lemma find_trn_found:
  assumes "open_mtg name s = Some (OK, s0)" and "at_rest s0 sb ln ch m" and "m t = Some c" and "m (cb_trn_chain c) = Some k"
    and "cb_trn_addr c \<noteq> 0" and "read_trn s0 (cb_trn_addr c) True True sig = Some (OK, th, subject, author, sg)"
    and "has_trn_access s0 author CHR ''r'' = Some True"
    and "deleted c \<Longrightarrow> has_trn_access s0 author CHR ''d'' = Some True"
  shows "find_trn name t sig s =
    Some (if deleted c then DELETED_TRN else OK, Some (c, k, th, subject, author, sg), read_done sb ln ch s0)"
proof -
  note b = read_begin [OF assms(2)]
  have r: "read_chain (reading sb ln ch s0) t None = Some (OK, Some c)"
    "read_chain (reading sb ln ch s0) (cb_trn_chain c) None = Some (OK, Some k)"
    by (rule read_chain_rep [OF b(2) assms(3)], rule read_chain_rep [OF b(2) assms(4)])
  show ?thesis
    using assms(5-) by (cases "deleted c") (simp_all add: find_trn_def assms(1) b(1) r reading_cong Let_def read_done_def)
qed

text \<open>A transaction that the caller may see, with its record.\<close>

definition shows_record :: "srv \<Rightarrow> chain_blk \<Rightarrow> trn_hdr \<Rightarrow> bytes \<Rightarrow> bytes \<Rightarrow> string \<Rightarrow> bool" where
  "shows_record s c th subject author sg \<longleftrightarrow>
     read_trn s (cb_trn_addr c) True True True = Some (OK, th, subject, author, sg) \<and>
     has_trn_access s author CHR ''r'' = Some True"

lemma get_trn_info3_found:
  assumes "open_mtg name s = Some (OK, s0)" and "at_rest s0 sb ln ch m" and "mtg_inv sb m"
    and "m t = Some c" and "\<not> deleted c" and "shows_record s0 c th subject author sg"
  obtains k where "m (cb_trn_chain c) = Some k"
    "get_trn_info3 name t s = Some (OK, trn_info.extend (info_of c k th subject author)
       \<lparr>ti_flags = cb_flags c, ti_signature = sg\<rparr>, read_done sb ln ch s0)"
proof -
  note live = mtg_inv_live [OF assms(3-5)]
  from chain_dom [OF assms(3,4) live(5)] obtain k where k: "m (cb_trn_chain c) = Some k" by auto
  have "find_trn name t True s = Some (OK, Some (c, k, th, subject, author, sg), read_done sb ln ch s0)"
    using find_trn_found [OF assms(1,2,4) k live(5)] assms(5,6) by (simp add: shows_record_def)
  with k that show ?thesis by (simp add: get_trn_info3_def)
qed

lemma blk_current: "at_rest s sb ln ch m \<Longrightarrow> m t = Some c \<Longrightarrow> cb_current c = t"
  by (auto simp: at_rest_def mtg_in_def blocks_in_def blk_ok_def)

text \<open>
  C26. The information of a live transaction: its neighbours are the next live transactions before
  and after it, the neighbours in its chain those of the same chain of replies, the ends of the
  chain the first and the last of that chain; subject, author and signature are those of its
  record.  Nothing changes on disk.
\<close>

theorem get_trn_info3_live:
  assumes "open_mtg name s = Some (OK, s0)" and "at_rest s0 sb ln ch m" and "mtg_inv sb m"
    and "m t = Some c" and "\<not> deleted c" and "shows_record s0 c th subject author sg"
  shows "\<exists>i s'. get_trn_info3 name t s = Some (OK, i, s') \<and> ti_current i = t \<and>
    before (live m) t (ti_prev i) \<and> after (live m) t (ti_next i) \<and>
    before (live_chain m (ti_chain_index i)) t (ti_pref i) \<and> after (live_chain m (ti_chain_index i)) t (ti_nref i) \<and>
    t \<in> live_chain m (ti_chain_index i) \<and>
    least (live_chain m (ti_chain_index i)) (ti_fref i) \<and> greatest (live_chain m (ti_chain_index i)) (ti_lref i) \<and>
    ti_subject i = subject \<and> ti_author i = author \<and> ti_signature i = sg \<and> fs s' = fs s0 \<and> at_rest s' sb ln ch m"
proof -
  obtain k where k: "m (cb_trn_chain c) = Some k"
    "get_trn_info3 name t s = Some (OK, trn_info.extend (info_of c k th subject author)
       \<lparr>ti_flags = cb_flags c, ti_signature = sg\<rparr>, read_done sb ln ch s0)"
    by (rule get_trn_info3_found [OF assms])
  have "chain_ends m (cb_trn_chain c) k" using assms(3) k(1) by (auto simp: mtg_inv_def)
  moreover have "linked m t c" "t \<in> live_chain m (cb_trn_chain c)" using mtg_inv_live [OF assms(3-5)] by simp_all
  moreover have "fs (read_done sb ln ch s0) = fs s0"
    by (simp add: read_done_def reading_def forget_super_def finish_read_def start_read_def with_super_def)
  ultimately show ?thesis
    using k(2) read_done_rest [OF assms(2)] blk_current [OF assms(2,4)]
    by (simp add: info_of_def trn_info.extend_def linked_def chain_ends_def)
qed

lemma demo_shows: "cb_trn_addr c = 28 \<Longrightarrow> shows_record demo_srv c demo_hdr (''Hi!'' @ [NUL]) (''srz'' @ [NUL]) ''srz''"
  by (simp add: shows_record_def demo_read_trn has_trn_access_def c_string_def cstr_def check_acl_def)
    (simp add: demo_srv_def demo_acl_def acl_is_subset_def)

theorem get_trn_info3_live_witness:
  "\<exists>i s'. get_trn_info3 ''/m'' 2 demo_srv = Some (OK, i, s') \<and> ti_prev i = 1 \<and> ti_next i = 3 \<and>
     ti_pref i = 1 \<and> ti_subject i = ''Hi!'' @ [NUL] \<and> ti_signature i = ''srz''"
proof -
  have b: "before {1, 2, 3} 2 p \<Longrightarrow> p = 1" "before {1, 2} 2 p \<Longrightarrow> p = 1" "after {1, 2, 3} 2 p \<Longrightarrow> p = 3" for p
    by (auto simp: before_def after_def)
  show ?thesis
    using get_trn_info3_live [OF open_on_again [OF demo_open] demo_at_rest demo_inv demo_2_facts(1,2) demo_shows [OF demo_2_facts(3)]]
    by (auto simp: demo_live dest: b split: if_splits)
qed

subsection \<open>Refusals\<close>

text \<open>What is sent when no transaction is shown.\<close>

abbreviation no_info :: trn_info3 where
  "no_info \<equiv> trn_info.extend null_info \<lparr>ti_flags = 0, ti_signature = []\<rparr>"

definition unreadable :: "srv \<Rightarrow> chain_blk \<Rightarrow> bool" where
  "unreadable s c \<longleftrightarrow> (\<exists>th subject author sg.
     read_trn s (cb_trn_addr c) True True True = Some (OK, th, subject, author, sg) \<and>
     has_trn_access s author CHR ''r'' = Some False)"

text \<open>
  C33. A caller who may not read a transaction learns nothing of it, not even its neighbours: the
  structure sent is empty, as it is for an expunged one and for a number that no transaction has.
\<close>

theorem get_trn_info3_refused:
  assumes "open_mtg name s = Some (OK, s0)" and "at_rest s0 sb ln ch m" and "mtg_inv sb m"
    and "\<forall>c. m t = Some c \<and> cb_trn_addr c \<noteq> 0 \<longrightarrow> unreadable s0 c"
  shows "\<exists>s'. get_trn_info3 name t s =
    Some (case m t of None \<Rightarrow> NO_SUCH_TRN | Some c \<Rightarrow> if cb_trn_addr c = 0 then DELETED_TRN else NO_ACCESS, no_info, s')"
proof -
  note b = read_begin [OF assms(2)]
  show ?thesis
  proof (cases "m t")
    case None
    with assms(3) have "t < 1 \<or> ms_highest sb < t" unfolding mtg_inv_def by (metis atLeastAtMost_iff domIff linorder_not_le)
    moreover have "ms_lowest sb = 1" using assms(2) by (simp add: at_rest_def mtg_in_def sb_ok_def)
    ultimately have "read_chain (reading sb ln ch s0) t None = Some (NO_SUCH_TRN, None)"
      by (intro read_chain_none) (simp_all add: b(3))
    with None show ?thesis by (simp add: get_trn_info3_def find_trn_def assms(1) b(1))
  next
    case (Some c)
    note c = read_chain_rep [OF b(2) Some, of None]
    show ?thesis
    proof (cases "cb_trn_addr c = 0")
      case True
      with c Some show ?thesis by (simp add: get_trn_info3_def find_trn_def assms(1) b(1))
    next
      case False
      with Some assms(4) obtain th subject author sg where r: "read_trn s0 (cb_trn_addr c) True True True = Some (OK, th, subject, author, sg)"
        "has_trn_access s0 author CHR ''r'' = Some False" by (auto simp: unreadable_def)
      from chain_dom [OF assms(3) Some False] obtain k where k: "m (cb_trn_chain c) = Some k" by auto
      from c Some False r read_chain_rep [OF b(2) k, of None] show ?thesis
        by (simp add: get_trn_info3_def find_trn_def assms(1) b(1) reading_cong Let_def)
    qed
  qed
qed

theorem get_trn_info3_refused_witness:
  "\<exists>s'. get_trn_info3 ''/m'' 2 (demo_srv\<lparr>mtg_acl := Acl []\<rparr>) = Some (NO_ACCESS, no_info, s')"
proof -
  define s where "s = demo_srv\<lparr>mtg_acl := Acl []\<rparr>"
  have o: "open_on s ''/m''" using demo_open by (simp add: open_on_def s_def split: option.splits)
  have a: "at_rest s demo_sb ''demo'' ''srz'' demo_chains" using demo_at_rest by (simp add: at_rest_def s_def)
  have "read_trn s = read_trn demo_srv" by (rule read_trn_cong) (simp_all add: s_def)
  moreover have "has_trn_access s (''srz'' @ [NUL]) CHR ''r'' = Some False"
    by (simp add: s_def has_trn_access_def check_acl_def demo_srv_def c_string_def cstr_def acl_is_subset_def)
  ultimately have "unreadable s demo_2"
    by (auto simp: unreadable_def demo_2_facts(3) demo_read_trn simp del: append_Cons)
  from get_trn_info3_refused [OF open_on_again [OF o] a demo_inv, of 2] this demo_2_facts(1,3) show ?thesis
    by (simp add: s_def)
qed

subsection \<open>Walking through a meeting\<close>

text \<open>The numbers that a client sees which goes from one transaction to the next.\<close>

fun walk :: "nat \<Rightarrow> string \<Rightarrow> int \<Rightarrow> srv \<Rightarrow> int list option" where
  "walk fuel name t s =
     (if t = 0 then Some []
      else case fuel of 0 \<Rightarrow> None
      | Suc n \<Rightarrow> do { (c, i, s) \<leftarrow> get_trn_info3 name t s;
                     if c \<noteq> OK then None else do { ts \<leftarrow> walk n name (ti_next i) s; Some (t # ts) } })"

declare walk.simps [simp del]

text \<open>A reader who may see every live transaction of the open meeting.\<close>

definition may_walk :: "srv \<Rightarrow> string \<Rightarrow> mtg_super \<Rightarrow> string \<Rightarrow> string \<Rightarrow> chains \<Rightarrow> bool" where
  "may_walk s name sb ln ch m \<longleftrightarrow> open_on s name \<and> at_rest s sb ln ch m \<and> \<not> read_lock s \<and>
     (\<forall>t c. m t = Some c \<and> \<not> deleted c \<longrightarrow> (\<exists>th subject author sg. shows_record s c th subject author sg))"

lemma may_walk_on:
  assumes "may_walk s name sb ln ch m"
  shows "may_walk (read_done sb ln ch s) name sb ln ch m"
proof -
  let ?s = "read_done sb ln ch s"
  have "read_trn ?s = read_trn s"
    by (rule read_trn_cong) (simp_all add: read_done_def reading_def forget_super_def finish_read_def start_read_def with_super_def)
  moreover have "has_trn_access ?s = has_trn_access s"
    by (rule access_cong) (simp_all add: read_done_def reading_def forget_super_def finish_read_def start_read_def with_super_def)
  ultimately have sh: "shows_record ?s c = shows_record s c" for c
    by (simp add: shows_record_def fun_eq_iff)
  moreover have "op_frame s ?s" using assms by (simp add: may_walk_def read_done_frame)
  ultimately show ?thesis
    using assms open_on_frame [of s name ?s] read_done_rest [of s sb ln ch m] op_frame_fields(7) [of s ?s]
    unfolding may_walk_def sh by blast
qed

lemma sorted_from:
  assumes "finite S" and "\<forall>x \<in> S. t < x"
  shows "sorted_list_of_set (insert t S) = t # sorted_list_of_set (S :: int set)"
proof -
  have "t \<notin> S" using assms(2) by auto
  then have "sorted_list_of_set (insert t S) = insort t (sorted_list_of_set S)"
    using assms(1) by simp
  then show ?thesis using assms by (subst (asm) insort_is_Cons) auto
qed

lemma finite_live: "mtg_inv sb m \<Longrightarrow> finite (live m)"
  by (rule finite_subset [of _ "dom m"]) (auto simp: mtg_inv_def live_def)

lemma walk_from:
  assumes inv: "mtg_inv sb m"
  shows "may_walk s name sb ln ch m \<Longrightarrow> t \<in> live m \<Longrightarrow>
    walk (card {x \<in> live m. t \<le> x}) name t s = Some (sorted_list_of_set {x \<in> live m. t \<le> x})"
proof (induction "card {x \<in> live m. t \<le> x}" arbitrary: s t rule: less_induct)
  case less
  from less.prems(2) obtain c where c: "m t = Some c" "\<not> deleted c" by (auto simp: live_def)
  from less.prems(1) c obtain th subject author sg where r: "shows_record s c th subject author sg"
    unfolding may_walk_def by blast
  have w: "open_mtg name s = Some (OK, s)" "at_rest s sb ln ch m"
    using less.prems(1) by (simp_all add: may_walk_def open_on_again)
  obtain k where g: "get_trn_info3 name t s = Some (OK, trn_info.extend (info_of c k th subject author)
       \<lparr>ti_flags = cb_flags c, ti_signature = sg\<rparr>, read_done sb ln ch s)"
    by (rule get_trn_info3_found [OF w inv c r]) blast
  define n where "n = cb_next c"
  have n: "after (live m) t n" using mtg_inv_live(1) [OF inv c] by (simp add: linked_def n_def)
  have t: "t \<noteq> 0" using mtg_inv_live(4) [OF inv c] by simp
  have fin: "finite {x \<in> live m. u \<le> x}" for u using finite_live [OF inv] by simp
  define U where "U = (if n = 0 then {} else {x \<in> live m. n \<le> x})"
  have U: "{x \<in> live m. t \<le> x} = insert t U" "\<forall>x \<in> U. t < x" "finite U"
    using n less.prems(2) fin by (auto simp: U_def after_def)
  then have "t \<notin> U" by auto
  with U(3) have cU: "card (insert t U) = Suc (card U)" by simp
  then have cd: "card {x \<in> live m. t \<le> x} = Suc (card U)" by (simp add: U(1))
  have "walk (card U) name n (read_done sb ln ch s) = Some (sorted_list_of_set U)"
  proof (cases "n = 0")
    case True
    then show ?thesis by (simp add: U_def walk.simps)
  next
    case False
    then have "n \<in> live m" using n by (simp add: after_def)
    with less.hyps [of n "read_done sb ln ch s"] may_walk_on [OF less.prems(1)] cd False show ?thesis
      by (simp add: U_def)
  qed
  then show ?case
    unfolding U(1) cU sorted_from [OF U(3,2)]
    by (subst walk.simps) (simp add: t g info_of_def trn_info.extend_def n_def)
qed

text \<open>
  C27. A client that starts at the meeting's first transaction and goes from each to its \<open>next\<close>
  comes to an end, and has then seen every live transaction once, in the order of their numbers.
\<close>

theorem walk_sees_all:
  assumes "may_walk s name sb ln ch m" and "mtg_inv sb m"
  shows "walk (card (live m)) name (ms_first sb) s = Some (sorted_list_of_set (live m))"
proof (cases "ms_first sb = 0")
  case True
  then have "live m = {}" using assms(2) by (auto simp: mtg_inv_def least_def)
  with True show ?thesis by (simp add: walk.simps)
next
  case False
  then have f: "ms_first sb \<in> live m" "{x \<in> live m. ms_first sb \<le> x} = live m"
    using assms(2) by (auto simp: mtg_inv_def least_def)
  from walk_from [OF assms(2,1) f(1)] show ?thesis by (simp add: f(2))
qed

lemma demo_unlocked: "\<not> read_lock demo_srv"
  by (simp add: demo_srv_def)

theorem walk_sees_all_witness:
  "walk 3 ''/m'' 1 demo_srv = Some [1, 2, 3]"
proof -
  have "cb_trn_addr c = 28" if "demo_chains t = Some c" for t c
    using that by (rule demo_chains_cases) (simp_all add: demo_blocks)
  then have "may_walk demo_srv ''/m'' demo_sb ''demo'' ''srz'' demo_chains"
    unfolding may_walk_def using demo_open demo_at_rest demo_shows demo_unlocked by blast
  from walk_sees_all [OF this demo_inv] show ?thesis
    by (simp add: demo_live numeral_3_eq_3) (simp add: demo_sb_def)
qed

end
