(* ===== verification/Remote.thy ===== *)
theory Remote
  imports Dispatch Stubs Frame
begin

text \<open>
  The remote procedure calls as a whole.  The locale \<open>endpoint\<close> is what both programs make of the
  stream protocol: they put and get items through their own stream and go on with the rest of
  their state.  It is interpreted by the server's \<open>sendint\<close>, \<open>recvstr\<close> and so on and by the
  client's.
\<close>

subsection \<open>Endpoints\<close>

locale endpoint =
  fixes strm :: "'s \<Rightarrow> usp"
    and upd :: "usp \<Rightarrow> 's \<Rightarrow> 's"
    and put :: "item \<Rightarrow> 's \<Rightarrow> 's"
    and get :: "item_type \<Rightarrow> 's \<Rightarrow> item \<times> 's"
    and fine :: "'s \<Rightarrow> bool"
  assumes strm_upd: "strm (upd u s) = u"
    and upd_upd: "upd u' (upd u s) = upd u' s"
    and upd_strm: "upd (strm s) s = s"
    and fine_upd: "fine (upd u s) = fine s"
    and put_upd: "fine s \<Longrightarrow> put_item (strm s) v = (SUCCESS, u) \<Longrightarrow> put v s = upd u s"
    and get_upd: "get_item (strm s) k = (SUCCESS, v, u) \<Longrightarrow> get k s = (v, upd u s)"
begin

lemma puts_sent:
  assumes "sent (strm s) w p" and "\<forall>v \<in> set vs. item_good v" and "fine s"
  shows "\<exists>u. fold put vs s = upd u s \<and> sent u w (p @ concat (map item_wire vs)) \<and> same_in (strm s) u"
  using assms
proof (induction vs arbitrary: s p)
  case Nil
  then show ?case by (intro exI [of _ "strm s"]) (simp add: upd_strm)
next
  case (Cons v vs)
  from item.put_wire [OF Cons.prems(1)] Cons.prems(2) obtain u where
    u: "put_item (strm s) v = (SUCCESS, u)" "sent u w (p @ item_wire v)" "same_in (strm s) u"
    by fastforce
  have "\<exists>u'. fold put vs (upd u s) = upd u' (upd u s) \<and>
      sent u' w ((p @ item_wire v) @ concat (map item_wire vs)) \<and> same_in (strm (upd u s)) u'"
    by (rule Cons.IH) (use u(2) Cons.prems(2,3) in \<open>simp_all add: strm_upd fine_upd\<close>)
  with put_upd [OF Cons.prems(3) u(1)] u(3) show ?case
    by (auto simp: upd_upd strm_upd intro: same_in_trans)
qed

lemma get_recving:
  assumes "recving (strm s) (item_wire v @ p) rest" and "item_good v"
  shows "\<exists>u. get (item_kind v) s = (v, upd u s) \<and> recving u p rest \<and> same_out (strm s) u"
  using item.get_wire [OF assms] get_upd by blast

end

text \<open>The items of the two sides.\<close>

primrec s_put :: "item \<Rightarrow> rsrv \<Rightarrow> rsrv" where
  "s_put (Boolean x) = sendbool x"
| "s_put (Integer x) = send_value (\<lambda>u. USP_put_integer u x)"
| "s_put (Cardinal x) = send_value (\<lambda>u. USP_put_cardinal u x)"
| "s_put (Long_integer x) = sendint x"
| "s_put (Long_cardinal x) = send_value (\<lambda>u. USP_put_long_cardinal u x)"
| "s_put (String t) = sendstr (Some t)"

definition as_item :: "('v \<Rightarrow> item) \<Rightarrow> 'v \<times> 's \<Rightarrow> item \<times> 's" where
  "as_item C p = (C (fst p), snd p)"

primrec s_get :: "item_type \<Rightarrow> rsrv \<Rightarrow> item \<times> rsrv" where
  "s_get BOOLEAN s = as_item Boolean (recvbool s)"
| "s_get INTEGER s = as_item Integer (recvshort s)"
| "s_get CARDINAL s = as_item Cardinal (recv_value USP_get_cardinal id 0 s)"
| "s_get LONG_INTEGER s = as_item Long_integer (recvint s)"
| "s_get LONG_CARDINAL s = as_item Long_cardinal (recv_value USP_get_long_cardinal id 0 s)"
| "s_get STRING s = as_item (\<lambda>r. String (str r)) (recvstr s)"

primrec c_put :: "item \<Rightarrow> client \<Rightarrow> client" where
  "c_put (Boolean x) = cl_sendbool x"
| "c_put (Integer x) = cl_sendshort x"
| "c_put (Cardinal x) = cl_put (\<lambda>u. USP_put_cardinal u x)"
| "c_put (Long_integer x) = cl_sendint x"
| "c_put (Long_cardinal x) = cl_put (\<lambda>u. USP_put_long_cardinal u x)"
| "c_put (String t) = cl_sendstr t"

primrec c_get :: "item_type \<Rightarrow> client \<Rightarrow> item \<times> client" where
  "c_get BOOLEAN c = as_item Boolean (cl_recvbool c)"
| "c_get INTEGER c = as_item Integer (cl_value USP_get_integer 0 c)"
| "c_get CARDINAL c = as_item Cardinal (cl_value USP_get_cardinal 0 c)"
| "c_get LONG_INTEGER c = as_item Long_integer (cl_recvint c)"
| "c_get LONG_CARDINAL c = as_item Long_cardinal (cl_value USP_get_long_cardinal 0 c)"
| "c_get STRING c = as_item String (cl_recvstr c)"

interpretation sv: endpoint "\<lambda>s. us (core s)" set_us s_put s_get "\<lambda>s. True"
proof
  fix s :: rsrv and v u
  assume "put_item (us (core s)) v = (SUCCESS, u)"
  then show "s_put v s = set_us u s"
    by (cases v) (simp_all add: send_value_def sendint_def sendstr_def sendbool_def)
next
  fix s :: rsrv and k v u
  assume "get_item (us (core s)) k = (SUCCESS, v, u)"
  then show "s_get k s = (v, set_us u s)"
    by (cases k)
      (auto simp: with_value_def as_item_def recv_value_def recvint_def recvshort_def recvstr_def recvbool_def
        str_def split: prod.splits)
qed (simp_all add: set_us_def)

interpretation cl: endpoint us "\<lambda>u c. c\<lparr>us := u\<rparr>" c_put c_get connected
proof
  fix c :: client and v u
  assume "connected c" and "put_item (us c) v = (SUCCESS, u)"
  then show "c_put v c = c\<lparr>us := u\<rparr>"
    by (cases v) (simp_all add: cl_put_def cl_sendint_def cl_sendshort_def cl_sendstr_def cl_sendbool_def)
next
  fix c :: client and k v u
  assume "get_item (us c) k = (SUCCESS, v, u)"
  then show "c_get k c = (v, c\<lparr>us := u\<rparr>)"
    by (cases k)
      (auto simp: with_value_def as_item_def cl_value_def cl_recvint_def cl_recvstr_def cl_recvbool_def
        split: prod.splits)
qed simp_all

subsection \<open>Requests and replies\<close>

definition idle :: "usp \<Rightarrow> bool" where
  "idle u \<longleftrightarrow> \<not> sending u \<and> \<not> us_wfail u"

text \<open>A block of items on the wire.\<close>

definition block_of :: "int \<Rightarrow> item list \<Rightarrow> bytes \<Rightarrow> bool" where
  "block_of bt vs b \<longleftrightarrow> (\<exists>f. b = be 2 bt @ f \<and> framed (concat (map item_wire vs)) f)"

lemma proc_ok: "0 < p \<Longrightarrow> p \<le> 22 \<Longrightarrow>
  fits_u 2 (PROC_BASE + p) \<and> PROC_BASE + p \<notin> {CONNECTION_OPEN, CONNECTION_ERROR, CONNECTION_END, KRB_TICKET, KRB_TICKET2}"
  by (simp add: fits_u_def block_types)

lemma client_block:
  assumes "connected c" and "idle (us c)" and "\<forall>v \<in> set vs. item_good v"
  shows "\<exists>u1 u b. fold c_put vs (cl_startsend p c) = c\<lparr>cl_err := 0, us := u1\<rparr> \<and> USP_end_block u1 = (SUCCESS, u) \<and>
    block_of (PROC_BASE + p) vs b \<and> us_out u = us_out (us c) @ b \<and> idle u \<and> same_in (us c) u"
proof -
  obtain u1 where 1: "USP_begin_block (us c) (PROC_BASE + p) = (SUCCESS, u1)"
    "sent u1 (us_out (us c) @ be 2 (PROC_BASE + p)) []" "same_in (us c) u1"
    using begin_sent assms(2) by (fastforce simp: idle_def)
  define c1 where "c1 = c\<lparr>cl_err := 0, us := u1\<rparr>"
  have c1: "cl_startsend p c = c1" using 1(1) assms(1) by (simp add: cl_startsend_def c1_def)
  from cl.puts_sent [of c1, OF _ assms(3)] 1(2) assms(1) obtain u2 where
    2: "fold c_put vs c1 = c1\<lparr>us := u2\<rparr>" "sent u2 (us_out (us c) @ be 2 (PROC_BASE + p)) (concat (map item_wire vs))"
    "same_in u1 u2" by (fastforce simp: c1_def)
  from end_sent [OF 2(2)] obtain u3 f where 3: "USP_end_block u2 = (SUCCESS, u3)"
    "framed (concat (map item_wire vs)) f" "us_out u3 = (us_out (us c) @ be 2 (PROC_BASE + p)) @ f"
    "\<not> sending u3" "\<not> us_wfail u3" "same_in u2 u3" by blast
  have "fold c_put vs (cl_startsend p c) = c\<lparr>cl_err := 0, us := u2\<rparr>"
    by (simp add: c1 2(1)) (simp add: c1_def)
  with 1(3) 2(3) 3 show ?thesis
    by (intro exI [of _ u2] exI [of _ u3] exI [of _ "be 2 (PROC_BASE + p) @ f"])
      (auto simp: block_of_def idle_def intro: same_in_trans)
qed

lemma client_request:
  assumes "connected c" and "idle (us c)" and "\<forall>v \<in> set vs. item_good v"
  shows "\<exists>u b. cl_sendit (fold c_put vs (cl_startsend p c)) = c\<lparr>cl_err := 0, us := u\<rparr> \<and>
    block_of (PROC_BASE + p) vs b \<and> us_out u = us_out (us c) @ b \<and> idle u \<and> same_in (us c) u"
  using client_block [OF assms, of p] by (auto simp: cl_sendit_def cl_put_def)

lemma client_reply:
  assumes "us_in (us c) = b @ rest" and "block_of REPLY_TYPE vs b"
  shows "\<exists>u. cl_recvreply c = Some (c\<lparr>us := u\<rparr>) \<and> recving u (concat (map item_wire vs)) rest \<and> same_out (us c) u"
proof -
  obtain f where f: "b = be 2 REPLY_TYPE @ f" "framed (concat (map item_wire vs)) f"
    using assms(2) by (auto simp: block_of_def)
  have "fits_u 2 REPLY_TYPE" "REPLY_TYPE \<notin> {CONNECTION_OPEN, CONNECTION_ERROR, CONNECTION_END}"
    by (simp_all add: fits_u_def block_types)
  from rcv_blk_payload [OF _ f(2) this, of "us c" rest] assms(1) f(1) obtain u where
    "USP_rcv_blk (us c) = Some (SUCCESS, REPLY_TYPE, u)" "recving u (concat (map item_wire vs)) rest" "same_out (us c) u"
    by auto
  then show ?thesis by (auto simp: cl_recvreply_def)
qed

lemma server_request:
  assumes "us_in (us (core s)) = b @ rest" and "block_of (PROC_BASE + p) vs b" and "0 < p" and "p \<le> 22"
  shows "\<exists>u. recvit k st svc s = map_option (\<lambda>s. (rpc_err s, s)) (dispatch st p ((set_us u s)\<lparr>rpc_err := 0\<rparr>)) \<and>
    recving u (concat (map item_wire vs)) rest \<and> same_out (us (core s)) u"
proof -
  obtain f where f: "b = be 2 (PROC_BASE + p) @ f" "framed (concat (map item_wire vs)) f"
    using assms(2) by (auto simp: block_of_def)
  note ok = proc_ok [OF assms(3,4)]
  then have "fits_u 2 (PROC_BASE + p)" "PROC_BASE + p \<notin> {CONNECTION_OPEN, CONNECTION_ERROR, CONNECTION_END}" by auto
  from rcv_blk_payload [OF _ f(2) this, of "us (core s)" rest] assms(1) f(1) obtain u where
    u: "USP_rcv_blk (us (core s)) = Some (SUCCESS, PROC_BASE + p, u)" "recving u (concat (map item_wire vs)) rest"
    "same_out (us (core s)) u" by auto
  have "recvit k st svc s = map_option (\<lambda>s. (rpc_err s, s)) (dispatch st p ((set_us u s)\<lparr>rpc_err := 0\<rparr>))"
    using u(1) ok assms(3,4)
    by (cases "dispatch st p ((set_us u s)\<lparr>rpc_err := 0\<rparr>)") (simp_all add: recvit_def numprocs_def)
  with u(2,3) show ?thesis by blast
qed

lemma server_reply:
  assumes "idle (us (core s))" and "\<forall>v \<in> set vs. item_good v"
  shows "\<exists>u b. sendreply (fold s_put vs (startreply s)) = set_us u s \<and>
    block_of REPLY_TYPE vs b \<and> us_out u = us_out (us (core s)) @ b \<and> idle u \<and> same_in (us (core s)) u"
proof -
  obtain u1 where 1: "USP_begin_block (us (core s)) REPLY_TYPE = (SUCCESS, u1)"
    "sent u1 (us_out (us (core s)) @ be 2 REPLY_TYPE) []" "same_in (us (core s)) u1"
    using begin_sent assms(1) by (fastforce simp: idle_def)
  have "sent (us (core (startreply s))) (us_out (us (core s)) @ be 2 REPLY_TYPE) []"
    using 1 by (simp add: startreply_def set_us_def)
  from sv.puts_sent [OF this assms(2)] obtain u2 where
    2: "fold s_put vs (startreply s) = set_us u2 (startreply s)"
    "sent u2 (us_out (us (core s)) @ be 2 REPLY_TYPE) (concat (map item_wire vs))"
    "same_in (us (core (startreply s))) u2" by auto
  from end_sent [OF 2(2)] obtain u3 f where 3: "USP_end_block u2 = (SUCCESS, u3)"
    "framed (concat (map item_wire vs)) f" "us_out u3 = (us_out (us (core s)) @ be 2 REPLY_TYPE) @ f"
    "\<not> sending u3" "\<not> us_wfail u3" "same_in u2 u3" by blast
  have "sendreply (fold s_put vs (startreply s)) = set_us u3 s"
    by (simp add: 2(1) sendreply_def send_value_def 3(1) set_us_def) (simp add: startreply_def set_us_def)
  moreover have "same_in (us (core s)) u3"
    using 1 2(3) 3(6) by (auto simp: startreply_def set_us_def intro: same_in_trans)
  ultimately show ?thesis using 3
    by (intro exI [of _ u3] exI [of _ "be 2 REPLY_TYPE @ f"]) (auto simp: block_of_def idle_def)
qed

subsection \<open>Sending does not look at the input\<close>

definition set_in :: "bytes \<Rightarrow> usp \<Rightarrow> usp" where
  "set_in x u = u\<lparr>us_in := x\<rparr>"

definition in_free :: "(usp \<Rightarrow> status \<times> usp) \<Rightarrow> bool" where
  "in_free f \<longleftrightarrow> (\<forall>u x. f (set_in x u) = apsnd (set_in x) (f u))"

lemma set_in_simps [simp]:
  "us_out (set_in x u) = us_out u" "us_wfail (set_in x u) = us_wfail u" "sending (set_in x u) = sending u"
  "outbuf (set_in x u) = outbuf u" "us_errno (set_in x u) = us_errno u" "us_in (set_in x u) = x"
  "(set_in x u)\<lparr>us_errno := e\<rparr> = set_in x (u\<lparr>us_errno := e\<rparr>)"
  "(set_in x u)\<lparr>outbuf := b\<rparr> = set_in x (u\<lparr>outbuf := b\<rparr>)"
  "(set_in x u)\<lparr>us_out := b\<rparr> = set_in x (u\<lparr>us_out := b\<rparr>)"
  "(set_in x u)\<lparr>sending := s\<rparr> = set_in x (u\<lparr>sending := s\<rparr>)"
  by (simp_all add: set_in_def)

lemma in_freeD: "in_free f \<Longrightarrow> f (set_in x u) = apsnd (set_in x) (f u)"
  by (simp add: in_free_def)

lemma put_onto_net_in: "put_onto_net (set_in x u) b = apsnd (set_in x) (put_onto_net u b)"
  by (simp add: put_onto_net_def Let_def)

lemma send_sub_block_in: "send_sub_block (set_in x u) lst = apsnd (set_in x) (send_sub_block u lst)"
  by (simp add: send_sub_block_def put_onto_net_in Let_def split: prod.split)

lemma put_into_in: "put_into_sub_block (set_in x u) b = apsnd (set_in x) (put_into_sub_block u b)"
proof (induction u b rule: put_into_sub_block.induct)
  case (1 u b)
  define avail where "avail = MAX_SUB_BLOCK_LENGTH - length (outbuf u)"
  obtain r u1 where s: "send_sub_block (u\<lparr>outbuf := outbuf u @ take avail b\<rparr>) False = (r, u1)" by fastforce
  show ?case
  proof (cases "avail < length b \<and> r \<noteq> ERROR")
    case True
    with "1.IH" [OF avail_def _ s [symmetric]] show ?thesis
      by (subst (1 2) put_into_sub_block.simps) (simp add: avail_def [symmetric] send_sub_block_in s Let_def)
  next
    case False
    then show ?thesis
      by (subst (1 2) put_into_sub_block.simps) (auto simp add: avail_def [symmetric] send_sub_block_in s Let_def)
  qed
qed

lemma us_then_in:
  "p' = apsnd (set_in x) p \<Longrightarrow> (\<And>u. f (set_in x u) = apsnd (set_in x) (g u)) \<Longrightarrow>
   us_then p' f = apsnd (set_in x) (us_then p g)"
  by (cases p) (simp add: us_then_def)

lemma put_string_loop_in: "put_string_loop (set_in x u) run t = apsnd (set_in x) (put_string_loop u run t)"
  by (induction u run t rule: put_string_loop.induct) (auto simp: put_into_in intro!: us_then_in)

lemma put_item_in: "put_item (set_in x u) v = apsnd (set_in x) (put_item u v)"
  by (cases v)
    (auto simp: USP_put_boolean_def USP_put_integer_def USP_put_cardinal_def USP_put_long_integer_def
      USP_put_long_cardinal_def USP_put_string_def Let_def put_into_in put_string_loop_in intro!: us_then_in)

lemma begin_end_in:
  "USP_begin_block (set_in x u) bt = apsnd (set_in x) (USP_begin_block u bt)"
  "USP_end_block (set_in x u) = apsnd (set_in x) (USP_end_block u)"
  "USP_put_byte_block (set_in x u) b = apsnd (set_in x) (USP_put_byte_block u b)"
  by (simp_all add: USP_begin_block_def USP_end_block_def USP_put_byte_block_def Let_def put_onto_net_in
      send_sub_block_in put_into_in split: prod.split)

definition cin :: "bytes \<Rightarrow> client \<Rightarrow> client" where
  "cin x c = c\<lparr>us := set_in x (us c)\<rparr>"

lemma cin_simps [simp]:
  "connected (cin x c) = connected c" "us (cin x c) = set_in x (us c)" "cl_err (cin x c) = cl_err c"
  "fs (cin x c) = fs c" "tf (cin x c) = tf c"
  by (simp_all add: cin_def)

lemma c_put_in: "c_put v (cin x c) = cin x (c_put v c)"
  using put_item_in [of x "us c" v]
  by (cases v) (auto simp: cl_put_def cl_sendint_def cl_sendshort_def cl_sendstr_def cl_sendbool_def cin_def
      Let_def split: prod.splits)

lemma c_puts_in: "fold c_put vs (cin x c) = cin x (fold c_put vs c)"
  by (induction vs arbitrary: c) (simp_all add: c_put_in)

lemma startsend_in: "cl_startsend p (cin x c) = cin x (cl_startsend p c)"
  by (simp add: cl_startsend_def begin_end_in cin_def)

lemma sendit_in: "cl_sendit (cin x c) = cin x (cl_sendit c)"
  by (simp add: cl_sendit_def cl_put_def begin_end_in cin_def Let_def split: prod.split)

subsection \<open>A call as a whole\<close>

text \<open>
  \<open>remote_call f c k st svc s r out k1\<close>: whatever comes behind the request in the server's stream, the
  server takes exactly the request that the stub \<open>f\<close> writes, goes to the state \<open>k1\<close> and writes a reply;
  and whatever comes behind the reply in the client's stream, \<open>f\<close> takes exactly the reply and returns
  the result \<open>r\<close> and the value \<open>out\<close>.  Both streams are then ready for the next call.
\<close>

definition server_answers ::
    "kerberos \<Rightarrow> stack \<Rightarrow> string \<Rightarrow> rsrv \<Rightarrow> bytes \<Rightarrow> bytes \<Rightarrow> bytes \<Rightarrow> srv \<Rightarrow> bool" where
  "server_answers k st svc s req rest rep k1 \<longleftrightarrow>
     (\<exists>u. recvit k st svc (set_us (set_in (req @ rest) (us (core s))) s) =
             Some (0, s\<lparr>rpc_err := 0, core := k1\<lparr>us := u\<rparr>\<rparr>) \<and>
          us_out u = us_out (us (core s)) @ rep \<and> us_in u = rest \<and> idle u)"

definition client_returns ::
    "(client \<Rightarrow> 'a stub_result) \<Rightarrow> client \<Rightarrow> bytes \<Rightarrow> bytes \<Rightarrow> int \<Rightarrow> 'a \<Rightarrow> bool" where
  "client_returns f c req rep r out \<longleftrightarrow>
     (\<forall>rest. \<exists>u. f (cin (rep @ rest) c) = Some (r, Some out, c\<lparr>cl_err := 0, us := u\<rparr>) \<and>
                us_out u = us_out (us c) @ req \<and> us_in u = rest \<and> idle u)"

definition remote_call ::
    "(client \<Rightarrow> 'a stub_result) \<Rightarrow> client \<Rightarrow> kerberos \<Rightarrow> stack \<Rightarrow> string \<Rightarrow> rsrv \<Rightarrow> int \<Rightarrow> 'a \<Rightarrow> srv \<Rightarrow> bool" where
  "remote_call f c k st svc s r out k1 \<longleftrightarrow>
     (\<exists>req. \<forall>rest. \<exists>rep. server_answers k st svc s req rest rep k1 \<and> client_returns f c req rep r out)"

text \<open>The server's half: it takes the arguments from the block, and sends the values of the reply.\<close>

definition takes :: "stack \<Rightarrow> int \<Rightarrow> rsrv \<Rightarrow> item list \<Rightarrow> item list \<Rightarrow> srv \<Rightarrow> bool" where
  "takes st p s vs rvs k1 \<longleftrightarrow>
     (\<forall>u rest. recving u (concat (map item_wire vs)) rest \<longrightarrow>
        (\<exists>u'. recving u' [] rest \<and> same_out u u' \<and>
           dispatch st p (set_us u s) =
             Some (sendreply (fold s_put rvs (startreply (s\<lparr>core := k1\<lparr>us := u'\<rparr>\<rparr>))))))"

lemma same_outD: "same_out u u' \<Longrightarrow> us_out u' = us_out u" "same_out u u' \<Longrightarrow> idle u' = idle u"
  by (simp_all add: same_out_def idle_def)

lemma same_inD: "same_in u u' \<Longrightarrow> us_in u' = us_in u"
  by (simp add: same_in_def)

lemma set_us_simps [simp]:
  "us (core (set_us u s)) = u" "set_us u (set_us u' s) = set_us u s" "rpc_err (set_us u s) = rpc_err s"
  "(set_us u s)\<lparr>rpc_err := e\<rparr> = set_us u (s\<lparr>rpc_err := e\<rparr>)"
  "set_us u (s\<lparr>core := k\<lparr>us := u'\<rparr>\<rparr>) = s\<lparr>core := k\<lparr>us := u\<rparr>\<rparr>"
  by (simp_all add: set_us_def)

lemma server_answers:
  assumes "takes st p (s\<lparr>rpc_err := 0\<rparr>) vs rvs k1" and "block_of (PROC_BASE + p) vs req" and "0 < p" "p \<le> 22"
    and "idle (us (core s))" and "\<forall>v \<in> set rvs. item_good v"
  shows "\<exists>rep. block_of REPLY_TYPE rvs rep \<and> server_answers k st svc s req rest rep k1"
proof -
  define s0 where "s0 = set_us (set_in (req @ rest) (us (core s))) s"
  from server_request [of s0, OF _ assms(2,3,4)] obtain u where
    u: "recvit k st svc s0 = map_option (\<lambda>s. (rpc_err s, s)) (dispatch st p (set_us u (s\<lparr>rpc_err := 0\<rparr>)))"
    "recving u (concat (map item_wire vs)) rest" "same_out (us (core s0)) u" by (fastforce simp: s0_def)
  from assms(1) u(2) obtain u1 where 1: "recving u1 [] rest" "same_out u u1"
    "dispatch st p (set_us u (s\<lparr>rpc_err := 0\<rparr>)) =
       Some (sendreply (fold s_put rvs (startreply (s\<lparr>rpc_err := 0, core := k1\<lparr>us := u1\<rparr>\<rparr>))))"
    unfolding takes_def by blast
  have o: "idle u1" "us_out u1 = us_out (us (core s))"
    using same_outD [OF 1(2)] same_outD [OF u(3)] assms(5) by (simp_all add: s0_def idle_def)
  from server_reply [of "s\<lparr>rpc_err := 0, core := k1\<lparr>us := u1\<rparr>\<rparr>", OF _ assms(6)] o obtain u2 rep where
    2: "sendreply (fold s_put rvs (startreply (s\<lparr>rpc_err := 0, core := k1\<lparr>us := u1\<rparr>\<rparr>))) =
        set_us u2 (s\<lparr>rpc_err := 0, core := k1\<lparr>us := u1\<rparr>\<rparr>)"
    "block_of REPLY_TYPE rvs rep" "us_out u2 = us_out (us (core s)) @ rep" "idle u2" "same_in u1 u2"
    by auto
  from recving_done [OF 1(1)] same_inD [OF 2(5)] have i: "us_in u2 = rest" by simp
  have "recvit k st svc s0 = Some (0, s\<lparr>rpc_err := 0, core := k1\<lparr>us := u2\<rparr>\<rparr>)"
    unfolding u(1) 1(3) 2(1) by simp
  with i 2 show ?thesis
    unfolding server_answers_def s0_def by blast
qed

text \<open>The client's half.\<close>

definition asks :: "(client \<Rightarrow> 'a stub_result) \<Rightarrow> int \<Rightarrow> item list \<Rightarrow> (client \<Rightarrow> 'a stub_result) \<Rightarrow> bool" where
  "asks f p vs g \<longleftrightarrow>
     (\<forall>c. f c = rpccheck (cl_startsend p c) (\<lambda>c. rpccheck (cl_sendit (fold c_put vs c)) (\<lambda>c.
              Option.bind (cl_recvreply c) (\<lambda>c. rpccheck c g))))"

definition yields :: "(client \<Rightarrow> 'a stub_result) \<Rightarrow> client \<Rightarrow> item list \<Rightarrow> int \<Rightarrow> 'a \<Rightarrow> bool" where
  "yields g c rvs r out \<longleftrightarrow>
     (\<forall>u rest. recving u (concat (map item_wire rvs)) rest \<longrightarrow>
        (\<exists>u'. g (c\<lparr>cl_err := 0, us := u\<rparr>) = Some (r, Some out, c\<lparr>cl_err := 0, us := u'\<rparr>) \<and>
           recving u' [] rest \<and> same_out u u'))"

lemma cin_upd: "cin x (c\<lparr>cl_err := e, us := u\<rparr>) = c\<lparr>cl_err := e, us := set_in x u\<rparr>"
  by (simp add: cin_def)

lemma client_returns:
  assumes "asks f p vs g" and "yields g c rvs r out"
    and "connected c" and "idle (us c)" and "\<forall>v \<in> set vs. item_good v"
  shows "\<exists>req. block_of (PROC_BASE + p) vs req \<and>
    (\<forall>rep. block_of REPLY_TYPE rvs rep \<longrightarrow> client_returns f c req rep r out)"
proof -
  from client_request [OF assms(3,4,5), of p] obtain u req where
    u: "cl_sendit (fold c_put vs (cl_startsend p c)) = c\<lparr>cl_err := 0, us := u\<rparr>"
    "block_of (PROC_BASE + p) vs req" "us_out u = us_out (us c) @ req" "idle u" by blast
  have "client_returns f c req rep r out" if rep: "block_of REPLY_TYPE rvs rep" for rep
    unfolding client_returns_def
  proof
    fix rest
    define c1 where "c1 = c\<lparr>cl_err := 0, us := set_in (rep @ rest) u\<rparr>"
    have "cl_sendit (fold c_put vs (cl_startsend p (cin (rep @ rest) c))) = c1"
      by (simp add: startsend_in c_puts_in sendit_in u(1) cin_upd c1_def)
    moreover have "cl_err (cl_startsend p (cin (rep @ rest) c)) = 0"
      using assms(3) by (simp add: cl_startsend_def)
    moreover from client_reply [of c1, OF _ rep] obtain u1 where
      1: "cl_recvreply c1 = Some (c1\<lparr>us := u1\<rparr>)" "recving u1 (concat (map item_wire rvs)) rest"
      "same_out (us c1) u1" by (auto simp: c1_def)
    moreover from assms(2) 1(2) obtain u2 where
      2: "g (c\<lparr>cl_err := 0, us := u1\<rparr>) = Some (r, Some out, c\<lparr>cl_err := 0, us := u2\<rparr>)" "recving u2 [] rest" "same_out u1 u2"
      unfolding yields_def by blast
    ultimately have "f (cin (rep @ rest) c) = Some (r, Some out, c\<lparr>cl_err := 0, us := u2\<rparr>)"
      using assms(1) by (simp add: asks_def rpccheck_def c1_def)
    moreover have "us_out u2 = us_out (us c) @ req" "idle u2"
      using same_outD [OF 2(3)] same_outD [OF 1(3)] u(3,4) by (simp_all add: c1_def idle_def)
    moreover from recving_done [OF 2(2)] have "us_in u2 = rest" by simp
    ultimately show "\<exists>u. f (cin (rep @ rest) c) = Some (r, Some out, c\<lparr>cl_err := 0, us := u\<rparr>) \<and>
        us_out u = us_out (us c) @ req \<and> us_in u = rest \<and> idle u" by blast
  qed
  with u(2) show ?thesis by blast
qed

text \<open>Both programs are ready for a call.\<close>

definition ready :: "client \<Rightarrow> rsrv \<Rightarrow> bool" where
  "ready c s \<longleftrightarrow> connected c \<and> idle (us c) \<and> idle (us (core s)) \<and> \<not> abort_file (core s)"

lemma remote_callI:
  assumes "asks f p vs g" and "takes st p (s\<lparr>rpc_err := 0\<rparr>) vs rvs k1" and "yields g c rvs r out"
    and "ready c s" and "\<forall>v \<in> set vs. item_good v" and "\<forall>v \<in> set rvs. item_good v" and "0 < p" and "p \<le> 22"
  shows "remote_call f c k st svc s r out k1"
  using client_returns [OF assms(1,3) _ _ assms(5)] server_answers [OF assms(2) _ assms(7,8) _ assms(6)] assms(4)
  unfolding ready_def remote_call_def by meson

text \<open>An operation that does not touch the stream, called by the dispatcher.\<close>

lemma on_core_free:
  "us_free with_one f \<Longrightarrow> \<not> abort_file (core s) \<Longrightarrow> f (core s) = Some (r, k1) \<Longrightarrow>
   on_core f (set_us u s) = Some (r, s\<lparr>core := k1\<lparr>us := u\<rparr>\<rparr>)"
  by (simp add: on_core_def set_us_def us_freeD(1) with_one_def)

lemma on_core_free2:
  "us_free with_two f \<Longrightarrow> \<not> abort_file (core s) \<Longrightarrow> f (core s) = Some (r, t, k1) \<Longrightarrow>
   on_core (\<lambda>k. map_option (\<lambda>(c, t, k). ((c, t), k)) (f k)) (set_us u s) = Some ((r, t), s\<lparr>core := k1\<lparr>us := u\<rparr>\<rparr>)"
  by (simp add: on_core_def set_us_def us_freeD(1) with_two_def)

subsection \<open>Taking arguments and results\<close>

text \<open>
  A routine that receives a value takes exactly the items of that value from the block.  Such
  routines compose, on both sides.
\<close>

definition items_wire :: "item list \<Rightarrow> bytes" where
  "items_wire vs = concat (map item_wire vs)"

lemma items_wire_simps [simp]:
  "items_wire [] = []" "items_wire (v # vs) = item_wire v @ items_wire vs"
  "items_wire (vs @ ws) = items_wire vs @ items_wire ws"
  by (simp_all add: items_wire_def)

definition receives :: "(usp \<Rightarrow> 's \<Rightarrow> 's) \<Rightarrow> ('s \<Rightarrow> 'v \<times> 's) \<Rightarrow> 'v \<Rightarrow> item list \<Rightarrow> bool" where
  "receives upd f x vs \<longleftrightarrow>
     (\<forall>s u p rest. recving u (items_wire vs @ p) rest \<longrightarrow>
        (\<exists>u'. f (upd u s) = (x, upd u' s) \<and> recving u' p rest \<and> same_out u u'))"

lemma receivesD:
  assumes "receives upd f x vs" and "recving u (items_wire vs @ p) rest"
  obtains u' where "f (upd u s) = (x, upd u' s)" "recving u' p rest" "same_out u u'"
  using assms unfolding receives_def by blast

lemma receives_return: "receives upd (\<lambda>s. (x, s)) x []"
  by (auto simp: receives_def intro: same_refl)

lemma receives_bind:
  assumes "receives upd f x vs" and "receives upd (g x) y ws"
  shows "receives upd (\<lambda>s. let (a, s) = f s in g a s) y (vs @ ws)"
  unfolding receives_def
proof (intro allI impI)
  fix s u p rest
  assume "recving u (items_wire (vs @ ws) @ p) rest"
  then have "recving u (items_wire vs @ items_wire ws @ p) rest" by simp
  from receivesD [OF assms(1) this] obtain u1 where
    1: "f (upd u s) = (x, upd u1 s)" "recving u1 (items_wire ws @ p) rest" "same_out u u1" .
  from receivesD [OF assms(2) 1(2)] obtain u2 where
    2: "g x (upd u1 s) = (y, upd u2 s)" "recving u2 p rest" "same_out u1 u2" .
  show "\<exists>u'. (let (a, s) = f (upd u s) in g a s) = (y, upd u' s) \<and> recving u' p rest \<and> same_out u u'"
    using 1 2 by (auto intro: same_out_trans)
qed

lemmas receives_step = receives_bind [where vs = "[v]" for v, unfolded append_Cons append_Nil]

lemma server_receives:
  "fits 4 x \<Longrightarrow> receives set_us recvint x [Long_integer x]"
  "string_good t \<Longrightarrow> receives set_us recvstr (Some t) [String t]"
  "b = 0 \<or> b = 1 \<Longrightarrow> receives set_us recvbool b [Boolean b]"
  by (auto simp: receives_def recvint_def recvstr_def recvbool_def recv_value_def
      dest!: long_integer.get_wire string.get_wire boolean.get_wire)

abbreviation upd_us :: "usp \<Rightarrow> client \<Rightarrow> client" where
  "upd_us u c \<equiv> c\<lparr>us := u\<rparr>"

lemma client_receives:
  "fits 4 x \<Longrightarrow> receives upd_us cl_recvint x [Long_integer x]"
  "string_good t \<Longrightarrow> receives upd_us cl_recvstr t [String t]"
  "b = 0 \<or> b = 1 \<Longrightarrow> receives upd_us cl_recvbool b [Boolean b]"
  by (auto simp: receives_def cl_recvint_def cl_recvstr_def cl_recvbool_def cl_value_def
      dest!: long_integer.get_wire string.get_wire boolean.get_wire)

text \<open>A whole request at the server, and a whole reply at the client.\<close>

lemma takes_iff:
  "takes st p s vs rvs k1 \<longleftrightarrow>
   (\<forall>u rest. recving u (items_wire vs) rest \<longrightarrow> (\<exists>u'. recving u' [] rest \<and> same_out u u' \<and>
      dispatch st p (set_us u s) =
        Some (sendreply (fold s_put rvs (startreply (s\<lparr>core := k1\<lparr>us := u'\<rparr>\<rparr>))))))"
  by (simp add: takes_def items_wire_def)

definition answers :: "(rsrv \<Rightarrow> rsrv option) \<Rightarrow> rsrv \<Rightarrow> item list \<Rightarrow> item list \<Rightarrow> srv \<Rightarrow> bool" where
  "answers D s vs rvs k1 \<longleftrightarrow>
     (\<forall>u rest. recving u (items_wire vs) rest \<longrightarrow> (\<exists>u'. recving u' [] rest \<and> same_out u u' \<and>
        D (set_us u s) = Some (sendreply (fold s_put rvs (startreply (s\<lparr>core := k1\<lparr>us := u'\<rparr>\<rparr>))))))"

lemma takesI: "dispatch st p = D \<Longrightarrow> answers D s vs rvs k1 \<Longrightarrow> takes st p s vs rvs k1"
  by (simp add: takes_iff answers_def)

lemma answers_recv:
  assumes "receives set_us f x vs" and "answers (D x) s ws rvs k1"
  shows "answers (\<lambda>s. let (a, s) = f s in D a s) s (vs @ ws) rvs k1"
  unfolding answers_def
proof (intro allI impI)
  fix u rest
  assume "recving u (items_wire (vs @ ws)) rest"
  then have "recving u (items_wire vs @ items_wire ws) rest" by simp
  from receivesD [OF assms(1) this] obtain u1 where
    1: "f (set_us u s) = (x, set_us u1 s)" "recving u1 (items_wire ws) rest" "same_out u u1" .
  from assms(2) 1(2) obtain u2 where 2: "recving u2 [] rest" "same_out u1 u2"
    "D x (set_us u1 s) = Some (sendreply (fold s_put rvs (startreply (s\<lparr>core := k1\<lparr>us := u2\<rparr>\<rparr>))))"
    unfolding answers_def by blast
  show "\<exists>u'. recving u' [] rest \<and> same_out u u' \<and> (let (a, s) = f (set_us u s) in D a s) =
      Some (sendreply (fold s_put rvs (startreply (s\<lparr>core := k1\<lparr>us := u'\<rparr>\<rparr>))))"
    using same_out_trans [OF 1(3) 2(2)] 2(1,3) by (auto simp: 1(1))
qed

lemmas answers_step = answers_recv [where vs = "[v]" for v, unfolded append_Cons append_Nil]

lemma answers_end:
  "(\<And>u. D (set_us u s) = Some (sendreply (fold s_put rvs (startreply (s\<lparr>core := k1\<lparr>us := u\<rparr>\<rparr>))))) \<Longrightarrow>
   answers D s [] rvs k1"
  by (auto simp: answers_def intro: same_refl)

lemma yields_recv:
  assumes "receives upd_us f x vs" and "yields (g x) c ws r out"
  shows "yields (\<lambda>c. let (a, c) = f c in g a c) c (vs @ ws) r out"
  unfolding yields_def
proof (intro allI impI)
  fix u rest
  assume "recving u (concat (map item_wire (vs @ ws))) rest"
  then have "recving u (items_wire vs @ items_wire ws) rest" by (simp add: items_wire_def)
  from receivesD [OF assms(1) this, of "c\<lparr>cl_err := 0\<rparr>"] obtain u1 where
    1: "f (c\<lparr>cl_err := 0, us := u\<rparr>) = (x, c\<lparr>cl_err := 0, us := u1\<rparr>)" "recving u1 (items_wire ws) rest" "same_out u u1" .
  from assms(2) 1(2) obtain u2 where 2: "recving u2 [] rest" "same_out u1 u2"
    "g x (c\<lparr>cl_err := 0, us := u1\<rparr>) = Some (r, Some out, c\<lparr>cl_err := 0, us := u2\<rparr>)"
    unfolding yields_def items_wire_def by blast
  show "\<exists>u'. (let (a, c) = f (c\<lparr>cl_err := 0, us := u\<rparr>) in g a c) = Some (r, Some out, c\<lparr>cl_err := 0, us := u'\<rparr>) \<and>
      recving u' [] rest \<and> same_out u u'"
    using same_out_trans [OF 1(3) 2(2)] 2(1,3) by (auto simp: 1(1))
qed

lemmas yields_step = yields_recv [where vs = "[v]" for v, unfolded append_Cons append_Nil]

lemma yields_end: "yields (stub_end r out) c [] r out"
  by (auto simp: yields_def stub_end_def intro: same_refl)

subsection \<open>The procedures whose reply is the result\<close>

abbreviation code_reply :: "client \<Rightarrow> unit stub_result" where
  "code_reply \<equiv> \<lambda>c. let (result, c) = cl_recvint c in stub_end result () c"

lemma yields_code: "fits 4 r \<Longrightarrow> yields code_reply c [Long_integer r] r ()"
  by (rule yields_step [OF client_receives(1) yields_end])

lemma remote_code:
  assumes "asks f p vs code_reply" and "answers (dispatch st p) (s\<lparr>rpc_err := 0\<rparr>) vs [Long_integer (code_int r)] k1"
    and "ready c s" and "\<forall>v \<in> set vs. item_good v" and "fits 4 (code_int r)" and "0 < p" and "p \<le> 22"
  shows "remote_call f c k st svc s (code_int r) () k1"
  by (rule remote_callI [OF assms(1) takesI [OF refl assms(2)] yields_code [OF assms(5)] assms(3,4) _ assms(6,7)])
    (simp add: assms(5))

lemma dispatch_simps:
  "dispatch st ADD_TRN = do_add_trn st" "dispatch st ADD_TRN2 = do_add_trn2 st"
  "dispatch st GET_TRN_INFO = do_get_trn_info" "dispatch st GET_TRN_INFO2 = do_get_trn_info2"
  "dispatch st GET_TRN_INFO3 = do_get_trn_info3" "dispatch st DELETE_TRN = do_delete_trn"
  "dispatch st RETRIEVE_TRN = do_retrieve_trn" "dispatch st SET_TRN_FLAGS = do_set_trn_flags"
  "dispatch st CREATE_MTG = do_create_mtg st" "dispatch st REMOVE_MTG = do_remove_mtg"
  "dispatch st GET_MTG_INFO = do_get_mtg_info send_mtg_info st"
  "dispatch st OLD_GET_MTG_INFO = do_get_mtg_info old_send_mtg_info st"
  "dispatch st UPDATED_MTG = do_updated_mtg" "dispatch st GET_ACL = do_get_acl"
  "dispatch st GET_ACCESS = do_get_access" "dispatch st SET_ACCESS = do_set_access st"
  "dispatch st DELETE_ACCESS = do_delete_access st" "dispatch st WHO_AM_I = do_whoami"
  "dispatch st GET_SERVER_VERSION = do_get_server_version" "dispatch st GET_TRN = do_get_trn"
  by (simp_all add: dispatch_def fun_eq_iff proc_numbers)

lemmas ends = str_def free_str_def reply_code_def

end
