(* ===== verification/Calls.thy ===== *)
theory Calls
  imports Remote
begin

text \<open>
  Each procedure, called through the network, does what the operation does on the server, and the
  client's stub returns what the operation returned.
\<close>

text \<open>The call of an operation that does not touch the stream.\<close>

lemma called:
  "ready c s \<Longrightarrow> us_free with_one f \<Longrightarrow> f (core s) = Some (r, k1) \<Longrightarrow>
   on_core f (set_us u (s\<lparr>rpc_err := 0\<rparr>)) = Some (r, s\<lparr>rpc_err := 0, core := k1\<lparr>us := u\<rparr>\<rparr>)"
  using on_core_free [of f "s\<lparr>rpc_err := 0\<rparr>"] by (simp add: ready_def)

lemma called2:
  "ready c s \<Longrightarrow> us_free with_two f \<Longrightarrow> f (core s) = Some (r, t, k1) \<Longrightarrow>
   on_core (\<lambda>k. map_option (\<lambda>(c, t, k). ((c, t), k)) (f k)) (set_us u (s\<lparr>rpc_err := 0\<rparr>)) =
     Some ((r, t), s\<lparr>rpc_err := 0, core := k1\<lparr>us := u\<rparr>\<rparr>)"
  using on_core_free2 [of f "s\<lparr>rpc_err := 0\<rparr>"] by (simp add: ready_def)

lemmas takes_str = answers_step [OF server_receives(2)]
lemmas takes_int = answers_step [OF server_receives(1)]
lemmas takes_bool = answers_step [OF server_receives(3)]

lemma remote_delete:
  assumes "ready c s" and "delete_trn mtg trn (core s) = Some (r, k1)"
    and "string_good mtg" and "fits 4 trn" and "fits 4 (code_int r)"
  shows "remote_call (stub_delete_trn mtg trn) c k st svc s (code_int r) () k1"
proof (rule remote_code [of _ DELETE_TRN "[String mtg, Long_integer trn]", OF _ _ assms(1)])
  note oc = called [OF assms(1) delete_trn_free [OF us_comm_id] assms(2)]
  show "answers (dispatch st DELETE_TRN) (s\<lparr>rpc_err := 0\<rparr>) [String mtg, Long_integer trn] [Long_integer (code_int r)] k1"
    unfolding dispatch_simps do_delete_trn_def by (intro takes_str takes_int answers_end assms) (simp add: ends oc)
qed (use assms in \<open>simp_all add: asks_def stub_delete_trn_def proc_numbers\<close>)

lemma remote_retrieve:
  assumes "ready c s" and "retrieve_trn mtg trn (core s) = Some (r, k1)"
    and "string_good mtg" and "fits 4 trn" and "fits 4 (code_int r)"
  shows "remote_call (stub_retrieve_trn mtg trn) c k st svc s (code_int r) () k1"
proof (rule remote_code [of _ RETRIEVE_TRN "[String mtg, Long_integer trn]", OF _ _ assms(1)])
  note oc = called [OF assms(1) retrieve_trn_free [OF us_comm_id] assms(2)]
  show "answers (dispatch st RETRIEVE_TRN) (s\<lparr>rpc_err := 0\<rparr>) [String mtg, Long_integer trn] [Long_integer (code_int r)] k1"
    unfolding dispatch_simps do_retrieve_trn_def by (intro takes_str takes_int answers_end assms) (simp add: ends oc)
qed (use assms in \<open>simp_all add: asks_def stub_retrieve_trn_def proc_numbers\<close>)

lemma remote_flags:
  assumes "ready c s" and "set_trn_flags mtg trn flags (core s) = Some (r, k1)"
    and "string_good mtg" and "fits 4 trn" and "fits 4 flags" and "fits 4 (code_int r)"
  shows "remote_call (stub_set_trn_flags mtg trn flags) c k st svc s (code_int r) () k1"
proof (rule remote_code [of _ SET_TRN_FLAGS "[String mtg, Long_integer trn, Long_integer flags]", OF _ _ assms(1)])
  note oc = called [OF assms(1) set_trn_flags_free [OF us_comm_id] assms(2)]
  show "answers (dispatch st SET_TRN_FLAGS) (s\<lparr>rpc_err := 0\<rparr>) [String mtg, Long_integer trn, Long_integer flags]
      [Long_integer (code_int r)] k1"
    unfolding dispatch_simps do_set_trn_flags_def by (intro takes_str takes_int answers_end assms) (simp add: ends oc)
qed (use assms in \<open>simp_all add: asks_def stub_set_trn_flags_def proc_numbers\<close>)

lemma remote_create:
  assumes "ready c s" and "create_mtg (st_buf st) loc name b (core s) = Some (r, k1)"
    and "string_good loc" and "string_good name" and "b = 0 \<or> b = 1" and "fits 4 (code_int r)"
  shows "remote_call (stub_create_mtg loc name b) c k st svc s (code_int r) () k1"
proof (rule remote_code [of _ CREATE_MTG "[String loc, String name, Boolean b]", OF _ _ assms(1)])
  note oc = called [OF assms(1) create_mtg_free [OF us_comm_id] assms(2)]
  show "answers (dispatch st CREATE_MTG) (s\<lparr>rpc_err := 0\<rparr>) [String loc, String name, Boolean b] [Long_integer (code_int r)] k1"
    unfolding dispatch_simps do_create_mtg_def
    by (intro takes_str takes_bool answers_end assms(3,4,5)) (simp add: ends oc)
qed (use assms in \<open>auto simp add: asks_def stub_create_mtg_def proc_numbers\<close>)

lemma remote_remove:
  assumes "ready c s" and "remove_mtg mtg (core s) = Some (r, k1)" and "string_good mtg" and "fits 4 (code_int r)"
  shows "remote_call (stub_remove_mtg mtg) c k st svc s (code_int r) () k1"
proof (rule remote_code [of _ REMOVE_MTG "[String mtg]", OF _ _ assms(1)])
  note oc = called [OF assms(1) remove_mtg_free [OF us_comm_id] assms(2)]
  show "answers (dispatch st REMOVE_MTG) (s\<lparr>rpc_err := 0\<rparr>) [String mtg] [Long_integer (code_int r)] k1"
    unfolding dispatch_simps do_remove_mtg_def by (intro takes_str answers_end assms) (simp add: ends oc)
qed (use assms in \<open>simp_all add: asks_def stub_remove_mtg_def proc_numbers\<close>)

lemma remote_set_access:
  assumes "ready c s" and "set_access (st_buf st) (st_acl st) mtg p ms (core s) = Some (r, k1)"
    and "string_good mtg" and "string_good p" and "string_good ms" and "fits 4 (code_int r)"
  shows "remote_call (stub_set_access mtg p ms) c k st svc s (code_int r) () k1"
proof (rule remote_code [of _ SET_ACCESS "[String mtg, String p, String ms]", OF _ _ assms(1)])
  note oc = called [OF assms(1) set_access_free [OF us_comm_id] assms(2)]
  show "answers (dispatch st SET_ACCESS) (s\<lparr>rpc_err := 0\<rparr>) [String mtg, String p, String ms] [Long_integer (code_int r)] k1"
    unfolding dispatch_simps do_set_access_def by (intro takes_str answers_end assms) (simp add: ends oc)
qed (use assms in \<open>simp_all add: asks_def stub_set_access_def proc_numbers\<close>)

lemma remote_delete_access:
  assumes "ready c s" and "delete_access (st_acl st) mtg p (core s) = Some (r, k1)"
    and "string_good mtg" and "string_good p" and "fits 4 (code_int r)"
  shows "remote_call (stub_delete_access mtg p) c k st svc s (code_int r) () k1"
proof (rule remote_code [of _ DELETE_ACCESS "[String mtg, String p]", OF _ _ assms(1)])
  note oc = called [OF assms(1) delete_access_free [OF us_comm_id] assms(2)]
  show "answers (dispatch st DELETE_ACCESS) (s\<lparr>rpc_err := 0\<rparr>) [String mtg, String p] [Long_integer (code_int r)] k1"
    unfolding dispatch_simps do_delete_access_def by (intro takes_str answers_end assms) (simp add: ends oc)
qed (use assms in \<open>simp_all add: asks_def stub_delete_access_def proc_numbers\<close>)

subsection \<open>The procedures that reply with a structure\<close>

text \<open>The items of a structure, in the order of the sending and the receiving routine.\<close>

definition trn_items :: "'a trn_info_scheme \<Rightarrow> item list" where
  "trn_items t =
     [Long_integer (ti_version t), Long_integer (ti_current t), Long_integer (ti_prev t), Long_integer (ti_next t),
      Long_integer (ti_pref t), Long_integer (ti_nref t), Long_integer (ti_fref t), Long_integer (ti_lref t),
      Long_integer (ti_chain_index t), Long_integer (ti_date_entered t), Long_integer (ti_num_lines t),
      Long_integer (ti_num_chars t), String (cstr (ti_subject t)), String (cstr (ti_author t))]"

text \<open>The values are in range, and the buffers of the two strings hold the end of a string.\<close>

definition info_good :: "'a trn_info_scheme \<Rightarrow> bool" where
  "info_good t \<longleftrightarrow> (\<forall>v \<in> set (trn_items t). item_good v) \<and> NUL \<in> set (ti_subject t) \<and> NUL \<in> set (ti_author t)"

text \<open>What the client sees of the buffers: the strings in them.\<close>

definition as_strings :: "'a trn_info_scheme \<Rightarrow> 'a trn_info_scheme" where
  "as_strings t = t\<lparr>ti_subject := cstr (ti_subject t) @ [NUL], ti_author := cstr (ti_author t) @ [NUL]\<rparr>"

lemma send_trn_info_items:
  "info_good t \<Longrightarrow> send_trn_info t s = Some (fold s_put (trn_items t) s)"
  by (simp add: send_trn_info_def info_good_def sendbuf_def c_string_def trn_items_def Let_def)

lemma recv_trn_info_items:
  assumes "info_good t"
  shows "receives upd_us recv_trn_info (trn_info.truncate (as_strings t)) (trn_items t)"
proof -
  have t: "trn_info.truncate (as_strings t) =
     \<lparr>ti_version = ti_version t, ti_current = ti_current t, ti_prev = ti_prev t, ti_next = ti_next t, ti_pref = ti_pref t,
      ti_nref = ti_nref t, ti_fref = ti_fref t, ti_lref = ti_lref t, ti_chain_index = ti_chain_index t,
      ti_date_entered = ti_date_entered t, ti_num_lines = ti_num_lines t, ti_num_chars = ti_num_chars t,
      ti_subject = cstr (ti_subject t) @ [NUL], ti_author = cstr (ti_author t) @ [NUL]\<rparr>"
    by (simp add: as_strings_def trn_info.truncate_def)
  have i: "fits 4 (ti_version t)" "fits 4 (ti_current t)" "fits 4 (ti_prev t)" "fits 4 (ti_next t)" "fits 4 (ti_pref t)"
    "fits 4 (ti_nref t)" "fits 4 (ti_fref t)" "fits 4 (ti_lref t)" "fits 4 (ti_chain_index t)"
    "fits 4 (ti_date_entered t)" "fits 4 (ti_num_lines t)" "fits 4 (ti_num_chars t)"
    "string_good (cstr (ti_subject t))" "string_good (cstr (ti_author t))"
    using assms by (simp_all add: info_good_def trn_items_def)
  show ?thesis
    unfolding recv_trn_info_def trn_items_def t
    by (intro receives_step [OF client_receives(1)] receives_step [OF client_receives(2)] receives_return i)
qed

lemma recv_trn_info2_items:
  fixes t :: trn_info2
  assumes "info_good t" and "fits 4 (ti_flags t)"
  shows "receives upd_us recv_trn_info2 (as_strings t) (trn_items t @ [Long_integer (ti_flags t)])"
proof -
  have t: "as_strings t = trn_info.extend (trn_info.truncate (as_strings t)) \<lparr>ti_flags = ti_flags t\<rparr>"
    by (simp add: as_strings_def trn_info.extend_def trn_info.truncate_def)
  show ?thesis
    unfolding recv_trn_info2_def
    by (subst t, rule receives_bind [OF recv_trn_info_items [OF assms(1)]])
      (intro receives_step [OF client_receives(1)] receives_return assms)
qed

lemma recv_trn_info3_items:
  fixes t :: trn_info3
  assumes "info_good t" and "fits 4 (ti_flags t)" and "string_good (ti_signature t)"
  shows "receives upd_us recv_trn_info3 (as_strings t)
    (trn_items t @ [Long_integer (ti_flags t), String (ti_signature t)])"
proof -
  have t: "as_strings t = trn_info.extend (trn_info.truncate (as_strings t))
      \<lparr>ti_flags = ti_flags t, ti_signature = ti_signature t\<rparr>"
    by (simp add: as_strings_def trn_info.extend_def trn_info.truncate_def)
  show ?thesis
    unfolding recv_trn_info3_def
    by (subst t, rule receives_bind [OF recv_trn_info_items [OF assms(1)]])
      (intro receives_step [OF client_receives(1)] receives_step [OF client_receives(2)] receives_return assms)
qed

text \<open>A structure followed by the result.\<close>

lemma yields_then_code:
  assumes "receives upd_us f x vs" and "fits 4 r"
  shows "yields (\<lambda>c. let (x, c) = f c; (result, c) = cl_recvint c in stub_end result x c) c (vs @ [Long_integer r]) r x"
  by (rule yields_recv [OF assms(1) yields_step [OF client_receives(1) [OF assms(2)] yields_end]])

lemma remote_get_info3:
  assumes "ready c s" and "get_trn_info3 mtg trn (core s) = Some (r, t, k1)"
    and "info_good t" and "fits 4 (ti_flags t)" and "string_good (ti_signature t)"
    and "string_good mtg" and "fits 4 trn" and "fits 4 (code_int r)"
  shows "remote_call (stub_get_trn_info3 mtg trn) c k st svc s (code_int r) (as_strings t) k1"
proof (rule remote_callI [OF _ takesI [OF refl] yields_then_code [OF recv_trn_info3_items [OF assms(3,4,5)] assms(8)] assms(1)])
  note oc = called2 [OF assms(1) get_trn_info3_free [OF us_comm_id] assms(2)]
  show "asks (stub_get_trn_info3 mtg trn) GET_TRN_INFO3 [String mtg, Long_integer trn]
      (\<lambda>c. let (info, c) = recv_trn_info3 c; (result, c) = cl_recvint c in stub_end result info c)"
    by (simp add: asks_def stub_get_trn_info3_def)
  show "answers (dispatch st GET_TRN_INFO3) (s\<lparr>rpc_err := 0\<rparr>) [String mtg, Long_integer trn]
      ((trn_items t @ [Long_integer (ti_flags t), String (ti_signature t)]) @ [Long_integer (code_int r)]) k1"
    unfolding dispatch_simps do_get_trn_info3_def
    by (intro takes_str takes_int answers_end assms)
      (simp add: ends oc send_trn_info3_def send_trn_info2_def send_trn_info_items [OF assms(3)])
qed (use assms in \<open>simp_all add: proc_numbers info_good_def\<close>)

lemma remote_get_info2:
  assumes "ready c s" and "get_trn_info2 mtg trn (core s) = Some (r, t, k1)"
    and "info_good t" and "fits 4 (ti_flags t)"
    and "string_good mtg" and "fits 4 trn" and "fits 4 (code_int r)"
  shows "remote_call (stub_get_trn_info2 mtg trn) c k st svc s (code_int r) (as_strings t) k1"
proof (rule remote_callI [OF _ takesI [OF refl] yields_then_code [OF recv_trn_info2_items [OF assms(3,4)] assms(7)] assms(1)])
  note oc = called2 [OF assms(1) get_trn_info2_free [OF us_comm_id] assms(2)]
  show "asks (stub_get_trn_info2 mtg trn) GET_TRN_INFO2 [String mtg, Long_integer trn]
      (\<lambda>c. let (info, c) = recv_trn_info2 c; (result, c) = cl_recvint c in stub_end result info c)"
    by (simp add: asks_def stub_get_trn_info2_def)
  show "answers (dispatch st GET_TRN_INFO2) (s\<lparr>rpc_err := 0\<rparr>) [String mtg, Long_integer trn]
      ((trn_items t @ [Long_integer (ti_flags t)]) @ [Long_integer (code_int r)]) k1"
    unfolding dispatch_simps do_get_trn_info2_def
    by (intro takes_str takes_int answers_end assms)
      (simp add: ends oc send_trn_info2_def send_trn_info_items [OF assms(3)])
qed (use assms in \<open>simp_all add: proc_numbers info_good_def\<close>)

lemma trn_info_truncate: "trn_info.truncate t = t" for t :: trn_info
  by (rule trn_info.equality) (simp_all add: trn_info.truncate_def)

lemma remote_get_info:
  fixes t :: trn_info
  assumes "ready c s" and "get_trn_info mtg trn (core s) = Some (r, t, k1)" and "info_good t"
    and "string_good mtg" and "fits 4 trn" and "fits 4 (code_int r)"
  shows "remote_call (stub_get_trn_info mtg trn) c k st svc s (code_int r) (as_strings t) k1"
proof (rule remote_callI [OF _ takesI [OF refl] yields_then_code [OF _ assms(6)] assms(1)])
  note oc = called2 [OF assms(1) get_trn_info_free [OF us_comm_id] assms(2)]
  show "asks (stub_get_trn_info mtg trn) GET_TRN_INFO [String mtg, Long_integer trn]
      (\<lambda>c. let (info, c) = recv_trn_info c; (result, c) = cl_recvint c in stub_end result info c)"
    by (simp add: asks_def stub_get_trn_info_def)
  show "receives upd_us recv_trn_info (as_strings t) (trn_items t)"
    using recv_trn_info_items [OF assms(3)] by (simp add: trn_info_truncate)
  show "answers (dispatch st GET_TRN_INFO) (s\<lparr>rpc_err := 0\<rparr>) [String mtg, Long_integer trn]
      (trn_items t @ [Long_integer (code_int r)]) k1"
    unfolding dispatch_simps do_get_trn_info_def
    by (intro takes_str takes_int answers_end assms) (simp add: ends oc send_trn_info_items [OF assms(3)])
qed (use assms in \<open>simp_all add: proc_numbers info_good_def\<close>)

text \<open>Meetings.\<close>

definition old_mtg_items :: "mtg_info \<Rightarrow> item list" where
  "old_mtg_items m =
     [Long_integer (mi_version m), String (mi_location m), String (mi_long_name m), String (mi_chairman m),
      Long_integer (mi_first m), Long_integer (mi_last m), Long_integer (mi_lowest m), Long_integer (mi_highest m),
      Long_integer (mi_date_created m), Long_integer (mi_date_modified m), Boolean (mi_public_flag m)]"

definition mtg_items :: "mtg_info \<Rightarrow> item list" where
  "mtg_items m = old_mtg_items m @ [String (mi_access_modes m)]"

definition mtg_info_good :: "mtg_info \<Rightarrow> bool" where
  "mtg_info_good m \<longleftrightarrow> (\<forall>v \<in> set (mtg_items m). item_good v)"

lemma send_mtg_items:
  "old_send_mtg_info m s = fold s_put (old_mtg_items m) s" "send_mtg_info m s = fold s_put (mtg_items m) s"
  by (simp_all add: old_send_mtg_info_def send_mtg_info_def old_mtg_items_def mtg_items_def Let_def)

lemma old_recv_mtg_items:
  assumes "mtg_info_good m"
  shows "receives upd_us (old_recv_mtg_info ms) (m\<lparr>mi_access_modes := ms\<rparr>) (old_mtg_items m)"
proof -
  have m: "m\<lparr>mi_access_modes := ms\<rparr> =
     \<lparr>mi_version = mi_version m, mi_location = mi_location m, mi_long_name = mi_long_name m, mi_chairman = mi_chairman m,
      mi_first = mi_first m, mi_last = mi_last m, mi_lowest = mi_lowest m, mi_highest = mi_highest m,
      mi_date_created = mi_date_created m, mi_date_modified = mi_date_modified m,
      mi_public_flag = mi_public_flag m, mi_access_modes = ms\<rparr>"
    by simp
  have i: "fits 4 (mi_version m)" "string_good (mi_location m)" "string_good (mi_long_name m)"
    "string_good (mi_chairman m)" "fits 4 (mi_first m)" "fits 4 (mi_last m)" "fits 4 (mi_lowest m)"
    "fits 4 (mi_highest m)" "fits 4 (mi_date_created m)" "fits 4 (mi_date_modified m)"
    "mi_public_flag m = 0 \<or> mi_public_flag m = 1"
    using assms by (simp_all add: mtg_info_good_def mtg_items_def old_mtg_items_def)
  show ?thesis
    unfolding old_recv_mtg_info_def old_mtg_items_def m
    by (intro receives_step [OF client_receives(1)] receives_step [OF client_receives(2)]
        receives_step [OF client_receives(3)] receives_return i)
qed

lemma recv_mtg_items:
  assumes "mtg_info_good m"
  shows "receives upd_us recv_mtg_info m (mtg_items m)"
proof -
  have m: "m = m\<lparr>mi_access_modes := [], mi_access_modes := mi_access_modes m\<rparr>" by simp
  have "string_good (mi_access_modes m)"
    using assms by (simp add: mtg_info_good_def mtg_items_def)
  then show ?thesis
    unfolding recv_mtg_info_def mtg_items_def
    by (subst m, intro receives_bind [OF old_recv_mtg_items [OF assms]] receives_step [OF client_receives(2)] receives_return)
qed

lemma remote_get_mtg:
  assumes "ready c s" and "get_mtg_info mtg (st_info st) (core s) = Some (r, m, k1)" and "mtg_info_good m"
    and "string_good mtg" and "fits 4 (code_int r)"
  shows "remote_call (stub_get_mtg_info mtg) c k st svc s (code_int r) m k1"
proof (rule remote_callI [OF _ takesI [OF refl] yields_then_code [OF recv_mtg_items [OF assms(3)] assms(5)] assms(1)])
  note oc = called2 [OF assms(1) get_mtg_info_free [OF us_comm_id] assms(2)]
  show "asks (stub_get_mtg_info mtg) GET_MTG_INFO [String mtg]
      (\<lambda>c. let (info, c) = recv_mtg_info c; (result, c) = cl_recvint c in stub_end result info c)"
    by (simp add: asks_def stub_get_mtg_info_def)
  show "answers (dispatch st GET_MTG_INFO) (s\<lparr>rpc_err := 0\<rparr>) [String mtg] (mtg_items m @ [Long_integer (code_int r)]) k1"
    unfolding dispatch_simps do_get_mtg_info_def
    by (intro takes_str takes_int answers_end assms) (simp add: ends oc send_mtg_items)
qed (use assms in \<open>simp_all add: proc_numbers mtg_info_good_def\<close>)

lemma remote_old_get_mtg:
  assumes "ready c s" and "get_mtg_info mtg (st_info st) (core s) = Some (r, m, k1)" and "mtg_info_good m"
    and "string_good mtg" and "fits 4 (code_int r)"
  shows "remote_call (stub_old_get_mtg_info ms mtg) c k st svc s (code_int r) (m\<lparr>mi_access_modes := ms\<rparr>) k1"
proof (rule remote_callI [OF _ takesI [OF refl] yields_then_code [OF old_recv_mtg_items [OF assms(3)] assms(5)] assms(1)])
  note oc = called2 [OF assms(1) get_mtg_info_free [OF us_comm_id] assms(2)]
  show "asks (stub_old_get_mtg_info ms mtg) OLD_GET_MTG_INFO [String mtg]
      (\<lambda>c. let (info, c) = old_recv_mtg_info ms c; (result, c) = cl_recvint c in stub_end result info c)"
    by (simp add: asks_def stub_old_get_mtg_info_def)
  show "answers (dispatch st OLD_GET_MTG_INFO) (s\<lparr>rpc_err := 0\<rparr>) [String mtg] (old_mtg_items m @ [Long_integer (code_int r)]) k1"
    unfolding dispatch_simps do_get_mtg_info_def
    by (intro takes_str takes_int answers_end assms) (simp add: ends oc send_mtg_items)
qed (use assms in \<open>simp_all add: proc_numbers mtg_info_good_def mtg_items_def\<close>)

text \<open>Access lists and access modes.\<close>

definition acl_items :: "acl \<Rightarrow> item list" where
  "acl_items l = Long_integer (int (length l)) # concat (map (\<lambda>e. [String (modes e), String (principal e)]) l)"

definition acl_good :: "acl \<Rightarrow> bool" where
  "acl_good l \<longleftrightarrow> length l < 2 ^ 31 \<and> (\<forall>e \<in> set l. string_good (modes e) \<and> string_good (principal e))"

lemma send_acl_items: "send_acl l s = fold s_put (acl_items (case l of None \<Rightarrow> [] | Some l \<Rightarrow> l)) s"
proof -
  have "send_entries l s = fold s_put (concat (map (\<lambda>e. [String (modes e), String (principal e)]) l)) s" for l s
    by (induction l s rule: send_entries.induct) simp_all
  then show ?thesis by (simp add: send_acl_def acl_items_def split: option.split)
qed

lemma recv_entries_items:
  "\<forall>e \<in> set l. string_good (modes e) \<and> string_good (principal e) \<Longrightarrow>
   receives upd_us (recv_entries (length l)) l (concat (map (\<lambda>e. [String (modes e), String (principal e)]) l))"
proof (induction l)
  case Nil
  then show ?case using receives_return [of upd_us "[] :: acl"] by (simp add: receives_def)
next
  case (Cons e l)
  have "receives upd_us (\<lambda>c. let (aes, c) = recv_entries (length l) c in (\<lparr>principal = principal e, modes = modes e\<rparr> # aes, c))
      (e # l) (concat (map (\<lambda>e. [String (modes e), String (principal e)]) l) @ [])"
    by (rule receives_bind [OF Cons.IH]) (use Cons.prems in \<open>auto simp: receives_def intro: same_refl\<close>)
  then have "receives upd_us (\<lambda>c. let (ms, c) = cl_recvstr c; (p, c) = cl_recvstr c; (aes, c) = recv_entries (length l) c
        in (\<lparr>principal = p, modes = ms\<rparr> # aes, c)) (e # l)
      (String (modes e) # String (principal e) # concat (map (\<lambda>e. [String (modes e), String (principal e)]) l))"
    using Cons.prems by (intro receives_step [OF client_receives(2)]) simp_all
  then show ?case by (simp add: receives_def)
qed

lemma recv_acl_items:
  assumes "acl_good l"
  shows "receives upd_us recv_acl l (acl_items l)"
proof -
  have "fits 4 (int (length l))" "nat (int (length l) mod 2 ^ 32) = length l"
    using assms by (simp_all add: acl_good_def fits_def)
  then show ?thesis
    unfolding recv_acl_def acl_items_def using recv_entries_items [of l] assms
    by (intro receives_step [OF client_receives(1)]) (simp_all add: acl_good_def)
qed

lemma remote_get_acl:
  assumes "ready c s" and "get_acl mtg (core s) = Some (r, list)" and "acl_good (case list of None \<Rightarrow> [] | Some l \<Rightarrow> l)"
    and "string_good mtg" and "fits 4 (code_int r)"
  shows "remote_call (stub_get_acl mtg) c k st svc s (code_int r) (case list of None \<Rightarrow> [] | Some l \<Rightarrow> l) (core s)"
proof (rule remote_callI [OF _ takesI [OF refl] _ assms(1)])
  show "asks (stub_get_acl mtg) GET_ACL [String mtg]
      (\<lambda>c. let (result, c) = cl_recvint c; (list, c) = recv_acl c in stub_end result list c)"
    by (simp add: asks_def stub_get_acl_def)
  show "answers (dispatch st GET_ACL) (s\<lparr>rpc_err := 0\<rparr>) [String mtg]
      (Long_integer (code_int r) # acl_items (case list of None \<Rightarrow> [] | Some l \<Rightarrow> l)) (core s)"
    unfolding dispatch_simps do_get_acl_def using assms(2)
    by (intro takes_str answers_end assms) (simp add: ends set_us_def get_acl_us send_acl_items)
  show "yields (\<lambda>c. let (result, c) = cl_recvint c; (list, c) = recv_acl c in stub_end result list c) c
      (Long_integer (code_int r) # acl_items (case list of None \<Rightarrow> [] | Some l \<Rightarrow> l)) (code_int r)
      (case list of None \<Rightarrow> [] | Some l \<Rightarrow> l)"
    using yields_recv [OF recv_acl_items [OF assms(3)] yields_end]
    by (intro yields_step [OF client_receives(1)] assms) simp
qed (use assms(3-) in \<open>auto simp add: proc_numbers acl_items_def acl_good_def fits_def split: option.splits\<close>)

lemma remote_get_access:
  assumes "ready c s" and "get_access mtg p (core s) = Some (r, ms)" and "string_good (case ms of None \<Rightarrow> [] | Some m \<Rightarrow> m)"
    and "string_good mtg" and "string_good p" and "fits 4 (code_int r)"
  shows "remote_call (stub_get_access mtg p) c k st svc s (code_int r) (case ms of None \<Rightarrow> [] | Some m \<Rightarrow> m) (core s)"
proof (rule remote_callI [OF _ takesI [OF refl] yields_then_code [OF client_receives(2) [OF assms(3)] assms(6)] assms(1)])
  show "asks (stub_get_access mtg p) GET_ACCESS [String mtg, String p]
      (\<lambda>c. let (ms, c) = cl_recvstr c; (result, c) = cl_recvint c in stub_end result ms c)"
    by (simp add: asks_def stub_get_access_def)
  show "answers (dispatch st GET_ACCESS) (s\<lparr>rpc_err := 0\<rparr>) [String mtg, String p]
      ([String (case ms of None \<Rightarrow> [] | Some m \<Rightarrow> m)] @ [Long_integer (code_int r)]) (core s)"
    unfolding dispatch_simps do_get_access_def using assms(2)
    by (intro takes_str answers_end assms) (simp add: ends set_us_def get_access_us sendstr_def split: option.split)
qed (use assms in \<open>simp_all add: proc_numbers\<close>)

lemma remote_updated:
  assumes "ready c s" and "updated_mtg mtg lst (core s) = Some (r, b)"
    and "string_good mtg" and "fits 4 date" and "fits 4 lst" and "fits 4 (code_int r)"
  shows "remote_call (stub_updated_mtg mtg date lst) c k st svc s (code_int r) (of_bool b) (core s)"
proof (rule remote_callI [OF _ takesI [OF refl] yields_then_code [OF client_receives(3) assms(6)] assms(1)])
  show "asks (stub_updated_mtg mtg date lst) UPDATED_MTG [String mtg, Long_integer date, Long_integer lst]
      (\<lambda>c. let (updated, c) = cl_recvbool c; (result, c) = cl_recvint c in stub_end result updated c)"
    by (simp add: asks_def stub_updated_mtg_def)
  show "answers (dispatch st UPDATED_MTG) (s\<lparr>rpc_err := 0\<rparr>) [String mtg, Long_integer date, Long_integer lst]
      ([Boolean (of_bool b)] @ [Long_integer (code_int r)]) (core s)"
    unfolding dispatch_simps do_updated_mtg_def using assms(2)
    by (intro takes_str takes_int answers_end assms) (simp add: ends set_us_def updated_mtg_us)
qed (use assms in \<open>simp_all add: proc_numbers\<close>)

lemma remote_whoami:
  assumes "ready c s" and "string_good (rpc_caller (core s))"
  shows "remote_call stub_dwhoami c k st svc s 0 (rpc_caller (core s)) (core s)"
proof (rule remote_callI [OF _ takesI [OF refl] yields_step [OF client_receives(2) [OF assms(2)] yields_end] assms(1)])
  show "asks stub_dwhoami WHO_AM_I [] (\<lambda>c. let (ident, c) = cl_recvstr c in stub_end 0 ident c)"
    by (simp add: asks_def stub_dwhoami_def)
  show "answers (dispatch st WHO_AM_I) (s\<lparr>rpc_err := 0\<rparr>) [] [String (rpc_caller (core s))] (core s)"
    unfolding dispatch_simps do_whoami_def by (intro answers_end) (simp add: set_us_def)
qed (use assms in \<open>simp_all add: proc_numbers\<close>)

subsection \<open>Unknown procedures\<close>

lemma receive_same_out:
  "get_from_net u n = (r, b, u') \<Longrightarrow> same_out u u'"
  "get_sub_block_header u = (r, u') \<Longrightarrow> same_out u u'"
  "skip_sub_block u = (r, u') \<Longrightarrow> same_out u u'"
proof -
  have net: "get_from_net u n = (r, b, u') \<Longrightarrow> same_out u u'" for u n r b u'
    by (cases "n \<le> length (us_in u)") (auto simp: get_from_net_ok get_from_net_eof same_out_def)
  then show "get_from_net u n = (r, b, u') \<Longrightarrow> same_out u u'" .
  show "get_sub_block_header u = (r, u') \<Longrightarrow> same_out u u'"
    using net by (auto simp: get_sub_block_header_def same_out_def Let_def split: prod.splits if_splits)
  show "skip_sub_block u = (r, u') \<Longrightarrow> same_out u u'"
  proof (induction u arbitrary: r u' rule: skip_sub_block.induct)
    case (1 u)
    obtain r1 b1 u1 where g: "get_from_net u 1024 = (r1, b1, u1)" by (metis prod_cases3)
    obtain r2 b2 u2 where h: "get_from_net u (unread u) = (r2, b2, u2)" by (metis prod_cases3)
    have more: "same_out u u'" if "1024 < unread u" "r1 \<noteq> ERROR" "skip_sub_block (u1\<lparr>unread := unread u - 1024\<rparr>) = (r, u')"
      using "1.IH" [OF _ that(1) refl g [symmetric] refl that(2,3)] that(1) net [OF g] by (simp add: same_out_def)
    show ?case
    proof (cases "1024 < unread u")
      case True
      with "1.prems" g more net [OF g] show ?thesis
        by (subst (asm) skip_sub_block.simps) (auto split: if_splits)
    next
      case False
      with "1.prems" h net [OF h] show ?thesis
        by (subst (asm) skip_sub_block.simps) (auto split: if_splits simp: same_out_def)
    qed
  qed
qed

lemma flush_same_out: "same_out u (USP_flush_block u)"
proof -
  have loop: "flush_loop u = (r, u') \<Longrightarrow> same_out u u'" for u u' r
  proof (induction u arbitrary: u' r rule: flush_loop.induct)
    case (1 u)
    obtain r1 u1 where s: "skip_sub_block u = (r1, u1)" by fastforce
    obtain r2 u2 where h: "get_sub_block_header u1 = (r2, u2)" by fastforce
    from 1(2) 1(1) [OF _ s [symmetric] refl _ h [symmetric]] receive_same_out(3) [OF s] receive_same_out(2) [OF h] s h
    show ?case by (subst (asm) flush_loop.simps) (auto split: if_splits intro: same_out_trans)
  qed
  define u0 where "u0 = u\<lparr>us_errno := NoErr\<rparr>"
  obtain r1 u1 where f: "flush_loop u0 = (r1, u1)" by fastforce
  obtain r2 u2 where s: "skip_sub_block u1 = (r2, u2)" by fastforce
  have "same_out u u0" by (simp add: u0_def same_out_def)
  with loop [OF f] receive_same_out(3) [OF s] f s show ?thesis
    by (simp add: USP_flush_block_def u0_def [symmetric] Let_def same_out_def)
qed

text \<open>An empty block.\<close>

lemma empty_block:
  assumes "idle u"
  shows "\<exists>u' b. USP_end_block (snd (USP_begin_block u bt)) = (SUCCESS, u') \<and> block_of bt [] b \<and>
    us_out u' = us_out u @ b \<and> idle u' \<and> same_in u u'"
proof -
  obtain u1 where 1: "USP_begin_block u bt = (SUCCESS, u1)" "sent u1 (us_out u @ be 2 bt) []" "same_in u u1"
    using begin_sent assms by (fastforce simp: idle_def)
  from end_sent [OF 1(2)] obtain u2 f where 2: "USP_end_block u1 = (SUCCESS, u2)"
    "framed [] f" "us_out u2 = (us_out u @ be 2 bt) @ f" "\<not> sending u2" "\<not> us_wfail u2" "same_in u1 u2" by blast
  then show ?thesis
    by (intro exI [of _ u2] exI [of _ "be 2 bt @ f"]) (auto simp: 1(1) block_of_def idle_def intro: same_in_trans [OF 1(3)])
qed

lemma server_unknown:
  assumes "us_in (us (core s)) = b @ rest" and "block_of (PROC_BASE + p) vs b" and "22 < p" and "fits_u 2 (PROC_BASE + p)"
    and "PROC_BASE + p \<notin> {CONNECTION_OPEN, CONNECTION_ERROR, CONNECTION_END, KRB_TICKET, KRB_TICKET2}"
    and "idle (us (core s))"
  shows "\<exists>u rep. recvit k st svc s = Some (0, set_us u s) \<and> block_of UNKNOWN_CALL [] rep \<and>
    us_out u = us_out (us (core s)) @ rep \<and> us_in u = rest \<and> idle u"
proof -
  obtain f where f: "b = be 2 (PROC_BASE + p) @ f" "framed (concat (map item_wire vs)) f"
    using assms(2) by (auto simp: block_of_def)
  have "PROC_BASE + p \<notin> {CONNECTION_OPEN, CONNECTION_ERROR, CONNECTION_END}" using assms(5) by auto
  from rcv_blk_payload [OF _ f(2) assms(4) this, of "us (core s)" rest] assms(1) f(1) obtain u where
    u: "USP_rcv_blk (us (core s)) = Some (SUCCESS, PROC_BASE + p, u)" "recving u (concat (map item_wire vs)) rest"
    "same_out (us (core s)) u" by auto
  define u1 where "u1 = USP_flush_block u"
  have 1: "us_in u1 = rest" "idle u1" "us_out u1 = us_out (us (core s))"
    using flush_payload [OF u(2)] same_outD [OF flush_same_out [of u]] same_outD [OF u(3)] assms(6) by (simp_all add: u1_def)
  from empty_block [OF 1(2), of UNKNOWN_CALL] obtain u2 rep where
    2: "USP_end_block (snd (USP_begin_block u1 UNKNOWN_CALL)) = (SUCCESS, u2)" "block_of UNKNOWN_CALL [] rep"
    "us_out u2 = us_out u1 @ rep" "idle u2" "same_in u1 u2" by blast
  have "recvit k st svc s = Some (0, set_us u2 s)"
    using u(1) assms(3,5) 2(1)
    by (simp add: recvit_def numprocs_def senddunno_def send_value_def u1_def [symmetric])
  with 1 2 show ?thesis by (auto simp: same_in_def)
qed

lemma client_unknown:
  assumes "asks f p vs g" and "connected c" and "idle (us c)" and "\<forall>v \<in> set vs. item_good v"
  shows "\<exists>req. block_of (PROC_BASE + p) vs req \<and>
    (\<forall>rep rest. block_of UNKNOWN_CALL [] rep \<longrightarrow>
       (\<exists>u. f (cin (rep @ rest) c) = Some (RPC_UNIMPL_CALL, None, c\<lparr>cl_err := RPC_UNIMPL_CALL, us := u\<rparr>) \<and>
            us_out u = us_out (us c) @ req \<and> us_in u = rest \<and> idle u))"
proof -
  from client_request [OF assms(2,3,4), of p] obtain u req where
    u: "cl_sendit (fold c_put vs (cl_startsend p c)) = c\<lparr>cl_err := 0, us := u\<rparr>"
    "block_of (PROC_BASE + p) vs req" "us_out u = us_out (us c) @ req" "idle u" by blast
  have "\<exists>u. f (cin (rep @ rest) c) = Some (RPC_UNIMPL_CALL, None, c\<lparr>cl_err := RPC_UNIMPL_CALL, us := u\<rparr>) \<and>
      us_out u = us_out (us c) @ req \<and> us_in u = rest \<and> idle u"
    if rep: "block_of UNKNOWN_CALL [] rep" for rep rest
  proof -
    define u0 where "u0 = set_in (rep @ rest) u"
    have s: "cl_sendit (fold c_put vs (cl_startsend p (cin (rep @ rest) c))) = c\<lparr>cl_err := 0, us := u0\<rparr>"
      by (simp add: startsend_in c_puts_in sendit_in u(1) cin_upd u0_def)
    have e: "cl_err (cl_startsend p (cin (rep @ rest) c)) = 0" using assms(2) by (simp add: cl_startsend_def)
    obtain fr where fr: "rep = be 2 UNKNOWN_CALL @ fr" "framed [] fr" using rep by (auto simp: block_of_def)
    have "fits_u 2 UNKNOWN_CALL" "UNKNOWN_CALL \<notin> {CONNECTION_OPEN, CONNECTION_ERROR, CONNECTION_END}"
      by (simp_all add: fits_u_def block_types)
    from rcv_blk_payload [OF _ fr(2) this, of u0 rest] fr(1) obtain u1 where
      1: "USP_rcv_blk u0 = Some (SUCCESS, UNKNOWN_CALL, u1)" "recving u1 [] rest" "same_out u0 u1" by (auto simp: u0_def)
    define u2 where "u2 = USP_flush_block u1"
    have "f (cin (rep @ rest) c) = Some (RPC_UNIMPL_CALL, None, c\<lparr>cl_err := RPC_UNIMPL_CALL, us := u2\<rparr>)"
      using assms(1) 1(1) s e
      by (simp add: asks_def rpccheck_def cl_recvreply_def u2_def) (simp add: block_types RPC_UNIMPL_CALL_def et_bases)
    moreover have "us_out u2 = us_out (us c) @ req" "idle u2" "us_in u2 = rest"
      using flush_payload [OF 1(2)] same_outD [OF flush_same_out [of u1]] same_outD [OF 1(3)] u(3,4)
      by (simp_all add: u2_def u0_def idle_def)
    ultimately show ?thesis by blast
  qed
  with u(2) show ?thesis by blast
qed

end
