(* ===== verification/Ticket.thy ===== *)
theory Ticket
  imports Calls
begin

text \<open>
  The Kerberos ticket that opens a session: the client's bytes arrive at the server's library, one
  to a short integer, and the session has the name that the library proves.
\<close>

subsection \<open>The bytes of the ticket\<close>

definition ticket_items :: "bytes \<Rightarrow> item list" where
  "ticket_items b = Integer (int (length b)) # map (\<lambda>ch. Integer (schar ch)) b"

lemma schar_fits: "fits 2 (schar ch)" "- 128 \<le> schar ch" "schar ch < 128"
proof -
  have "int (of_char ch) < 256" using nat_of_char_less_256 [of ch] by linarith
  then show "- 128 \<le> schar ch" "schar ch < 128"
    unfolding schar_def Let_def by (cases "int (of_char ch) < 128"; simp only: if_True if_False; linarith)+
  then show "fits 2 (schar ch)" by (simp add: fits_def)
qed

lemma schar_back: "char_of (nat (schar ch mod 256)) = ch"
proof -
  have "nat (schar ch mod 256) = of_char ch"
    using nat_of_char_less_256 [of ch] by (simp add: schar_def Let_def)
  then show ?thesis by simp
qed

lemma recvshort_receives: "fits 2 x \<Longrightarrow> receives set_us recvshort x [Integer x]"
  by (auto simp: receives_def recvshort_def recv_value_def dest!: integer.get_wire)

lemma recv_ticket_receives:
  "receives set_us (recv_ticket (length b)) b (map (\<lambda>ch. Integer (schar ch)) b)"
proof (induction b)
  case Nil
  show ?case by (auto simp: receives_def intro: same_refl)
next
  case (Cons ch b)
  have "receives set_us (\<lambda>s. let (x, s) = recvshort s; (d, s) = recv_ticket (length b) s
        in (char_of (nat (x mod 256)) # d, s)) (char_of (nat (schar ch mod 256)) # b)
      (Integer (schar ch) # (map (\<lambda>ch. Integer (schar ch)) b @ []))"
    by (intro receives_step [OF recvshort_receives [OF schar_fits(1)]] receives_bind [OF Cons.IH] receives_return)
  then show ?case by (simp add: receives_def schar_back)
qed

text \<open>The client's half: it is the request of a call whose number is that of the block.\<close>

lemma send_ticket_block:
  assumes "connected c" and "cl_err c = 0" and "idle (us c)" and "length b < 2 ^ 15"
  shows "\<exists>u req. send_ticket (Some b) c = c\<lparr>us := u\<rparr> \<and> block_of KRB_TICKET (ticket_items b) req \<and>
    us_out u = us_out (us c) @ req \<and> idle u"
proof -
  have good: "\<forall>v \<in> set (ticket_items b). item_good v"
    using assms(4) by (auto simp: ticket_items_def schar_fits(1)) (simp add: fits_def)
  have e: "c\<lparr>cl_err := 0, us := u\<rparr> = c\<lparr>us := u\<rparr>" "(c\<lparr>us := u\<rparr>)\<lparr>cl_err := 0\<rparr> = c\<lparr>us := u\<rparr>" for u
    by (simp_all add: assms(2))
  from client_block [OF assms(1,3) good, of "KRB_TICKET - PROC_BASE"] obtain u1 u req where
    u: "fold c_put (ticket_items b) (cl_startsend (KRB_TICKET - PROC_BASE) c) = c\<lparr>us := u1\<rparr>"
    "USP_end_block u1 = (SUCCESS, u)" "block_of KRB_TICKET (ticket_items b) req"
    "us_out u = us_out (us c) @ req" "idle u" by (auto simp: e)
  have "send_ticket (Some b) c = c\<lparr>us := u\<rparr>"
    using u(1,2) assms(1) by (simp add: send_ticket_def cl_startsend_def ticket_items_def fold_map comp_def Let_def e)
  with u show ?thesis by blast
qed

definition proven :: "kerberos \<Rightarrow> stack \<Rightarrow> string \<Rightarrow> bytes \<Rightarrow> string" where
  "proven k st svc b = (case ticket_name k (st_kdata st) svc b of None \<Rightarrow> ''???@ATHENA.MIT.EDU'' | Some n \<Rightarrow> principal_name n)"

lemma recvit_ticket:
  assumes "us_in (us (core s)) = req @ rest" and "block_of KRB_TICKET (ticket_items b) req" and "idle (us (core s))"
    and "b \<noteq> []" and "length b \<le> 1250"
  shows "\<exists>u. recvit k st svc s = Some (0, set_us u (set_caller (proven k st svc b) s)) \<and>
    us_in u = rest \<and> us_out u = us_out (us (core s)) \<and> idle u"
proof -
  obtain f where f: "req = be 2 KRB_TICKET @ f" "framed (items_wire (ticket_items b)) f"
    using assms(2) by (auto simp: block_of_def items_wire_def)
  have "fits_u 2 KRB_TICKET" "KRB_TICKET \<notin> {CONNECTION_OPEN, CONNECTION_ERROR, CONNECTION_END}"
    by (simp_all add: fits_u_def block_types)
  from rcv_blk_payload [OF _ f(2) this, of "us (core s)" rest] assms(1) f(1) obtain u1 where
    1: "USP_rcv_blk (us (core s)) = Some (SUCCESS, KRB_TICKET, u1)" "recving u1 (items_wire (ticket_items b)) rest"
    "same_out (us (core s)) u1" by auto
  define s1 where "s1 = set_caller ''???@ATHENA.MIT.EDU'' s"
  have "recving u1 (items_wire [Integer (int (length b))] @ items_wire (map (\<lambda>ch. Integer (schar ch)) b)) rest"
    using 1(2) by (simp add: ticket_items_def)
  from receivesD [OF recvshort_receives this, of s1] assms(5) obtain u2 where
    2: "recvshort (set_us u1 s1) = (int (length b), set_us u2 s1)"
    "recving u2 (items_wire (map (\<lambda>ch. Integer (schar ch)) b)) rest" "same_out u1 u2" by (auto simp: fits_def)
  from receivesD [OF recv_ticket_receives, of u2 b "[]" rest s1] 2(2) obtain u3 where
    3: "recv_ticket (length b) (set_us u2 s1) = (b, set_us u3 s1)" "recving u3 [] rest" "same_out u2 u3" by auto
  define u where "u = USP_flush_block u3"
  have s1: "set_caller ''???@ATHENA.MIT.EDU'' (set_us u1 s) = set_us u1 s1"
    by (simp add: s1_def set_caller_def set_us_def)
  have c2: "us (core (set_caller n (set_us u s1))) = u" "set_us u' (set_caller n (set_us u s1)) = set_us u' (set_caller n s)" for n u u'
    by (simp_all add: s1_def set_caller_def set_us_def)
  have nat: "nat (int (length b)) = length b" by simp
  have "handle_kerberos k st KRB_TICKET svc (set_us u1 s) = set_us u (set_caller (proven k st svc b) s)"
    using assms(4,5) 2(1) 3(1)
    by (cases "ticket_name k (st_kdata st) svc b")
      (simp_all add: handle_kerberos_def REALM_def s1 Let_def MAX_KTXT_LEN_def u_def proven_def block_types c2 nat,
        simp_all add: s1_def)
  then have "recvit k st svc s = Some (0, set_us u (set_caller (proven k st svc b) s))"
    using 1(1) by (simp add: recvit_def)
  moreover have "us_out u = us_out (us (core s))" "idle u"
    using same_outD [OF 1(3)] same_outD [OF 2(3)] same_outD [OF 3(3)] same_outD [OF flush_same_out [of u3]] assms(3)
    by (simp_all add: u_def)
  ultimately show ?thesis using flush_payload [OF 3(2)] by (auto simp: u_def)
qed

end
