(* ===== verification/Session.thy ===== *)
theory Session
  imports Ticket Lookup Delete
begin

text \<open>
  What a client sees of the server: the properties of calls through the network, and of the ticket
  that opens a session.
\<close>

subsection \<open>A client and a server\<close>

definition demo_session :: rsrv where
  "demo_session = \<lparr>core = demo_srv, rpc_err = 0\<rparr>"

definition demo_client :: client where
  "demo_client = \<lparr>fs = demo_mtg_fs, us = new_stream [], tf = None, connected = True, cl_err = 0\<rparr>"

lemma demo_ready: "ready demo_client demo_session"
  by (simp add: ready_def idle_def demo_client_def demo_session_def demo_srv_def new_stream_def)

lemma demo_string: "string_good ''/m''" "string_good ''Hi!''" "string_good ''srz''"
  by (simp_all add: string_good_def c_ok_def)

lemma fits_code_OK: "fits 4 (code_int OK)"
  by (simp add: fits_def)

subsection \<open>Calls\<close>

text \<open>
  C32. The operations whose only result is a code, called through the network: the server goes to
  the state to which the operation takes it, and the client's stub returns the operation's code.
\<close>

theorem remote_edits:
  assumes "ready c s" and "string_good mtg" and "fits 4 trn" and "fits 4 flags" and "fits 4 (code_int r)"
  shows "(delete_trn mtg trn (core s) = Some (r, k1) \<longrightarrow>
      remote_call (stub_delete_trn mtg trn) c k st svc s (code_int r) () k1) \<and>
    (retrieve_trn mtg trn (core s) = Some (r, k1) \<longrightarrow>
      remote_call (stub_retrieve_trn mtg trn) c k st svc s (code_int r) () k1) \<and>
    (set_trn_flags mtg trn flags (core s) = Some (r, k1) \<longrightarrow>
      remote_call (stub_set_trn_flags mtg trn flags) c k st svc s (code_int r) () k1) \<and>
    (remove_mtg mtg (core s) = Some (r, k1) \<longrightarrow>
      remote_call (stub_remove_mtg mtg) c k st svc s (code_int r) () k1)"
  using remote_delete [OF assms(1) _ assms(2,3,5)] remote_retrieve [OF assms(1) _ assms(2,3,5)]
    remote_flags [OF assms(1) _ assms(2,3,4,5)] remote_remove [OF assms(1) _ assms(2,5)] by simp

theorem remote_edits_witness:
  "\<exists>k1. delete_trn ''/m'' 2 demo_srv = Some (OK, k1) \<and>
     (\<forall>k st svc. remote_call (stub_delete_trn ''/m'' 2) demo_client k st svc demo_session 0 () k1)"
proof -
  obtain k1 where k1: "delete_trn ''/m'' 2 demo_srv = Some (OK, k1)"
    using delete_trn_blocks [OF open_on_again [OF demo_open] demo_at_rest demo_inv demo_2_facts(1,2,4)] by blast
  have "fits 4 2" by (simp add: fits_def)
  from remote_edits [OF demo_ready demo_string(1) this this fits_code_OK] k1 show ?thesis
    by (auto simp: demo_session_def)
qed

text \<open>
  C19. A transaction that a client deletes through the network: the client gets 0, and the server's
  control file holds a well-formed meeting in which the transaction is no longer live and all
  others are.
\<close>

theorem remote_delete_effect:
  assumes "ready c s" and "open_on (core s) mtg" and "at_rest (core s) sb ln ch m" and "mtg_inv sb m"
    and "m t = Some b" and "\<not> deleted b" and "may_edit (core s) b" and "string_good mtg" and "fits 4 t"
  shows "\<exists>k1 sb' m'. remote_call (stub_delete_trn mtg t) c k st svc s 0 () k1 \<and>
    at_rest k1 sb' ln ch m' \<and> mtg_inv sb' m' \<and> live m' = live m - {t} \<and> open_on k1 mtg"
proof -
  define d where "d = b\<lparr>cb_flags := i16 (cb_flags b OR CB_DELETED)\<rparr>"
  from delete_trn_blocks [OF open_on_again [OF assms(2)] assms(3-7)] obtain k1 where
    k1: "delete_trn mtg t (core s) = Some (OK, k1)" "op_frame (core s) k1"
    "at_rest k1 (super_without b sb) ln ch (unlinked b (m(t \<mapsto> d)))" unfolding d_def by blast
  have "deleted d" "d = b\<lparr>cb_flags := cb_flags d\<rparr>" by (simp_all add: d_def)
  from delete_inv [OF assms(4-6) this] k1(3) open_on_frame [OF assms(2) k1(2)]
    remote_delete [OF assms(1) k1(1) assms(8,9) fits_code_OK, of k st svc] show ?thesis by auto
qed

theorem remote_delete_effect_witness:
  "\<forall>k st svc. \<exists>k1 sb' m'. remote_call (stub_delete_trn ''/m'' 2) demo_client k st svc demo_session 0 () k1 \<and>
     at_rest k1 sb' ''demo'' ''srz'' m' \<and> live m' = {1, 3}"
proof (intro allI)
  fix k st svc
  have s: "core demo_session = demo_srv" by (simp add: demo_session_def)
  have "live demo_chains - {2} = {1, 3}" by (simp add: demo_live insert_Diff_if)
  moreover have "fits 4 2" by (simp add: fits_def)
  ultimately show "\<exists>k1 sb' m'. remote_call (stub_delete_trn ''/m'' 2) demo_client k st svc demo_session 0 () k1 \<and>
      at_rest k1 sb' ''demo'' ''srz'' m' \<and> live m' = {1, 3}"
    using remote_delete_effect [OF demo_ready, unfolded s, OF demo_open demo_at_rest demo_inv demo_2_facts(1,2,4) demo_string(1)]
    by metis
qed

text \<open>
  C28. The information of a transaction, called for through the network: the client's structure is
  the server's, field by field, with the strings that were in the two buffers.
\<close>

theorem remote_trn_info:
  assumes "ready c s" and "get_trn_info3 mtg trn (core s) = Some (r, t, k1)"
    and "info_good t" and "fits 4 (ti_flags t)" and "string_good (ti_signature t)"
    and "string_good mtg" and "fits 4 trn" and "fits 4 (code_int r)"
  shows "remote_call (stub_get_trn_info3 mtg trn) c k st svc s (code_int r) (as_strings t) k1"
  by (rule remote_get_info3 [OF assms])

lemma demo_info:
  "\<exists>k1. get_trn_info3 ''/m'' 2 demo_srv = Some (OK, trn_info.extend (info_of demo_2 demo_1 demo_hdr (''Hi!'' @ [NUL]) (''srz'' @ [NUL]))
     \<lparr>ti_flags = 0, ti_signature = ''srz''\<rparr>, k1)"
proof -
  obtain k where k: "demo_chains (cb_trn_chain demo_2) = Some k"
    "get_trn_info3 ''/m'' 2 demo_srv = Some (OK, trn_info.extend (info_of demo_2 k demo_hdr (''Hi!'' @ [NUL]) (''srz'' @ [NUL]))
     \<lparr>ti_flags = cb_flags demo_2, ti_signature = ''srz''\<rparr>, read_done demo_sb ''demo'' ''srz'' demo_srv)"
    by (rule get_trn_info3_found [OF open_on_again [OF demo_open] demo_at_rest demo_inv demo_2_facts(1,2) demo_shows [OF demo_2_facts(3)]])
  then have "k = demo_1" "cb_flags demo_2 = 0" by (simp_all add: demo_chains_def demo_blocks)
  with k(2) show ?thesis by auto
qed

theorem remote_trn_info_witness:
  "\<forall>k st svc. \<exists>i k1. remote_call (stub_get_trn_info3 ''/m'' 2) demo_client k st svc demo_session 0 i k1 \<and>
     ti_next i = 3 \<and> ti_subject i = ''Hi!'' @ [NUL]"
proof (intro allI)
  fix k st svc
  let ?i = "trn_info.extend (info_of demo_2 demo_1 demo_hdr (''Hi!'' @ [NUL]) (''srz'' @ [NUL])) \<lparr>ti_flags = 0, ti_signature = ''srz''\<rparr>"
  obtain k1 where k1: "get_trn_info3 ''/m'' 2 (core demo_session) = Some (OK, ?i, k1)"
    using demo_info by (auto simp: demo_session_def)
  have "cstr (''Hi!'' @ [NUL]) = ''Hi!''" "cstr (''srz'' @ [NUL]) = ''srz''" by (simp_all add: cstr_def)
  then have g: "info_good ?i" and a: "ti_next (as_strings ?i) = 3" "ti_subject (as_strings ?i) = ''Hi!'' @ [NUL]"
    by (simp_all add: info_good_def trn_items_def trn_info.extend_def info_of_def as_strings_def demo_string)
      (simp_all add: demo_blocks demo_hdr_def fits_def)
  have f: "fits 4 (ti_flags ?i)" "string_good (ti_signature ?i)" "fits 4 2"
    by (simp_all add: trn_info.extend_def fits_def demo_string)
  from remote_trn_info [OF demo_ready k1 g f(1,2) demo_string(1) f(3) fits_code_OK, of k st svc] a
  show "\<exists>i k1. remote_call (stub_get_trn_info3 ''/m'' 2) demo_client k st svc demo_session 0 i k1 \<and>
      ti_next i = 3 \<and> ti_subject i = ''Hi!'' @ [NUL]" by auto
qed

text \<open>
  C34. The access list through the network: a client receives the list and the modes of a principal
  as the server has them, entry by entry, and a change that it asks for is the server's change.
\<close>

theorem remote_access:
  assumes "ready c s" and "string_good mtg" and "string_good p" and "string_good ms" and "fits 4 (code_int r)"
  shows "(set_access (st_buf st) (st_acl st) mtg p ms (core s) = Some (r, k1) \<longrightarrow>
      remote_call (stub_set_access mtg p ms) c k st svc s (code_int r) () k1) \<and>
    (delete_access (st_acl st) mtg p (core s) = Some (r, k1) \<longrightarrow>
      remote_call (stub_delete_access mtg p) c k st svc s (code_int r) () k1) \<and>
    (get_access mtg p (core s) = Some (r, Some ms) \<longrightarrow>
      remote_call (stub_get_access mtg p) c k st svc s (code_int r) ms (core s)) \<and>
    (get_acl mtg (core s) = Some (r, Some l) \<and> acl_good l \<longrightarrow>
      remote_call (stub_get_acl mtg) c k st svc s (code_int r) l (core s))"
  using remote_set_access [OF assms(1) _ assms(2-5)] remote_delete_access [OF assms(1) _ assms(2,3,5)]
    remote_get_access [of c s mtg p r "Some ms"] remote_get_acl [of c s mtg r "Some l"] assms by simp

theorem remote_access_witness:
  "\<forall>k st svc. remote_call (stub_get_acl ''/m'') demo_client k st svc (demo_session\<lparr>core := acl_srv\<rparr>) 0 demo_acl acl_srv"
proof (intro allI)
  fix k st svc
  define s where "s = demo_session\<lparr>core := acl_srv\<rparr>"
  have "ready demo_client s"
    using demo_ready by (simp add: ready_def s_def acl_srv_def demo_session_def demo_srv_def)
  moreover have "get_acl ''/m'' (core s) = Some (OK, Some demo_acl)"
    using acl_srv_ready(1)
    by (auto simp: s_def get_acl_def edit_ready_def read_acl_def unusable_name_def MAXPATHLEN_def)
      (simp add: acl_srv_def demo_acl_def acl_is_subset_set)
  moreover have "acl_good demo_acl"
    by (simp add: acl_good_def demo_acl_def string_good_def c_ok_def)
  ultimately show "remote_call (stub_get_acl ''/m'') demo_client k st svc (demo_session\<lparr>core := acl_srv\<rparr>) 0 demo_acl acl_srv"
    using remote_access [OF _ demo_string(1,3,3) fits_code_OK, of demo_client s st _ k svc demo_acl] by (simp add: s_def)
qed

subsection \<open>A call that the server does not know\<close>

text \<open>
  C38. A server that is asked for a procedure with a number above its own passes over the arguments,
  whatever they are, and answers that it does not know the call: the client's stub returns
  \<open>RPC_UNIMPL_CALL\<close>, the server's state is as before, and both streams are ready for the next call.
\<close>

theorem unknown_call:
  assumes "ready c s" and "asks f p vs g" and "\<forall>v \<in> set vs. item_good v" and "22 < p" and "fits_u 2 (PROC_BASE + p)"
    and "PROC_BASE + p \<notin> {CONNECTION_OPEN, CONNECTION_ERROR, CONNECTION_END, KRB_TICKET, KRB_TICKET2}"
  shows "\<exists>req. \<forall>rest. \<exists>u rep. recvit k st svc (set_us (set_in (req @ rest) (us (core s))) s) = Some (0, set_us u s) \<and>
    us_in u = rest \<and> idle u \<and> us_out u = us_out (us (core s)) @ rep \<and>
    (\<forall>rest. \<exists>u'. f (cin (rep @ rest) c) = Some (RPC_UNIMPL_CALL, None, c\<lparr>cl_err := RPC_UNIMPL_CALL, us := u'\<rparr>) \<and>
       us_in u' = rest \<and> idle u' \<and> us_out u' = us_out (us c) @ req)"
proof -
  have r: "connected c" "idle (us c)" "idle (us (core s))" using assms(1) by (simp_all add: ready_def)
  from client_unknown [OF assms(2) r(1,2) assms(3)] obtain req where
    req: "block_of (PROC_BASE + p) vs req" "\<And>rep rest. block_of UNKNOWN_CALL [] rep \<Longrightarrow>
       \<exists>u. f (cin (rep @ rest) c) = Some (RPC_UNIMPL_CALL, None, c\<lparr>cl_err := RPC_UNIMPL_CALL, us := u\<rparr>) \<and>
            us_out u = us_out (us c) @ req \<and> us_in u = rest \<and> idle u" by blast
  have "\<exists>u rep. recvit k st svc (set_us (set_in (req @ rest) (us (core s))) s) = Some (0, set_us u s) \<and>
      block_of UNKNOWN_CALL [] rep \<and> us_out u = us_out (us (core s)) @ rep \<and> us_in u = rest \<and> idle u" for rest
    using server_unknown [OF _ req(1) assms(4,5,6), of "set_us (set_in (req @ rest) (us (core s))) s" rest k st svc] r(3)
    by (simp add: idle_def)
  with req(2) show ?thesis by (intro exI [of _ req]) metis
qed

text \<open>A later client's call, with a string for its argument.\<close>

definition later_call :: "string \<Rightarrow> client \<Rightarrow> unit stub_result" where
  "later_call t c = rpccheck (cl_startsend 23 c) (\<lambda>c. rpccheck (cl_sendit (cl_sendstr t c)) (\<lambda>c.
     Option.bind (cl_recvreply c) (\<lambda>c. rpccheck c code_reply)))"

theorem unknown_call_witness:
  "\<forall>k st svc. \<exists>req. \<forall>rest. \<exists>u. recvit k st svc (set_us (set_in (req @ rest) (us (core demo_session))) demo_session) =
       Some (0, set_us u demo_session) \<and> us_in u = rest"
proof (intro allI)
  fix k st svc
  have a: "asks (later_call ''Hi!'') 23 [String ''Hi!''] code_reply" by (simp add: asks_def later_call_def)
  have "fits_u 2 (PROC_BASE + 23)" "PROC_BASE + 23 \<notin> {CONNECTION_OPEN, CONNECTION_ERROR, CONNECTION_END, KRB_TICKET, KRB_TICKET2}"
    by (simp_all add: fits_u_def block_types)
  from unknown_call [OF demo_ready a _ _ this, of k st svc] demo_string(2)
  show "\<exists>req. \<forall>rest. \<exists>u. recvit k st svc (set_us (set_in (req @ rest) (us (core demo_session))) demo_session) =
       Some (0, set_us u demo_session) \<and> us_in u = rest" by simp meson
qed

subsection \<open>The ticket\<close>

text \<open>
  C29. The ticket that the client has arrives at the server's Kerberos library byte for byte, and the
  session then has the name which the library gives, or the name of nobody if it refuses; nothing
  else of the server's state changes.
\<close>

theorem ticket_names_caller:
  assumes "ready c s" and "cl_err c = 0" and "b \<noteq> []" and "length b \<le> 1250"
    and "krb4 k \<noteq> None \<or> krb5 k svc b \<noteq> None"
  shows "\<exists>u req. send_ticket (Some b) c = c\<lparr>us := u\<rparr> \<and> us_out u = us_out (us c) @ req \<and>
    (\<forall>rest. \<exists>v. us_in v = rest \<and> idle v \<and> us_out v = us_out (us (core s)) \<and>
       recvit k st svc (set_us (set_in (req @ rest) (us (core s))) s) = Some (0, set_us v (set_caller
         (case (case krb5 k svc b of Some r \<Rightarrow> r | None \<Rightarrow> the (krb4 k) svc b) of
            None \<Rightarrow> ''???@ATHENA.MIT.EDU'' | Some n \<Rightarrow> principal_name n) s)))"
proof -
  have r: "connected c" "idle (us c)" "idle (us (core s))" using assms(1) by (simp_all add: ready_def)
  from send_ticket_block [OF r(1) assms(2) r(2), of b] assms(4) obtain u req where
    u: "send_ticket (Some b) c = c\<lparr>us := u\<rparr>" "block_of KRB_TICKET (ticket_items b) req"
    "us_out u = us_out (us c) @ req" by auto
  have p: "proven k st svc b = (case (case krb5 k svc b of Some r \<Rightarrow> r | None \<Rightarrow> the (krb4 k) svc b) of
      None \<Rightarrow> ''???@ATHENA.MIT.EDU'' | Some n \<Rightarrow> principal_name n)"
    using assms(5) by (auto simp: proven_def ticket_name_def split: option.split)
  have "\<exists>v. us_in v = rest \<and> idle v \<and> us_out v = us_out (us (core s)) \<and>
      recvit k st svc (set_us (set_in (req @ rest) (us (core s))) s) = Some (0, set_us v (set_caller (proven k st svc b) s))" for rest
  proof -
    have "set_us v (set_caller n (set_us w s)) = set_us v (set_caller n s)" for v w n
      by (simp add: set_us_def set_caller_def)
    then show ?thesis
      using recvit_ticket [OF _ u(2) _ assms(3,4), of "set_us (set_in (req @ rest) (us (core s))) s" rest k st svc] r(3)
      by (auto simp: idle_def)
  qed
  with u(1,3) show ?thesis unfolding p by blast
qed

theorem ticket_names_caller_witness:
  "\<exists>k. \<forall>st svc. \<exists>u req. send_ticket (Some ''TGT'') demo_client = demo_client\<lparr>us := u\<rparr> \<and>
     (\<forall>rest. \<exists>v. recvit k st svc (set_us (set_in (req @ rest) (us (core demo_session))) demo_session) =
        Some (0, set_us v (set_caller ''wes@ATHENA.MIT.EDU'' demo_session)))"
proof -
  define k where "k = \<lparr>krb5 = (\<lambda>_ b. if b = ''TGT'' then Some (Some (''wes'', [], ''ATHENA.MIT.EDU'')) else None), krb4 = None\<rparr>"
  have e: "cl_err demo_client = 0" by (simp add: demo_client_def)
  have k: "krb5 k svc ''TGT'' = Some (Some (''wes'', [], ''ATHENA.MIT.EDU''))" for svc by (simp add: k_def)
  have "\<exists>u req. send_ticket (Some ''TGT'') demo_client = demo_client\<lparr>us := u\<rparr> \<and>
     (\<forall>rest. \<exists>v. recvit k st svc (set_us (set_in (req @ rest) (us (core demo_session))) demo_session) =
        Some (0, set_us v (set_caller ''wes@ATHENA.MIT.EDU'' demo_session)))" for st svc
    using ticket_names_caller [OF demo_ready e, of "''TGT''" k svc st] by (simp add: k principal_name_def) meson
  then show ?thesis by blast
qed

text \<open>
  A server without version 4 of the library does not refuse the ticket that version 5 refuses:
  the session has whatever name the memory held in which the name would have been put.
\<close>

theorem refused_ticket_named:
  assumes "us_in (us (core s)) = req @ rest" and "block_of KRB_TICKET (ticket_items b) req" and "idle (us (core s))"
    and "b \<noteq> []" and "length b \<le> 1250" and "krb5 k svc b = None" and "krb4 k = None"
  shows "\<exists>u. recvit k st svc s = Some (0, set_us u (set_caller (principal_name (st_kdata st)) s)) \<and> us_in u = rest"
proof -
  have "proven k st svc b = principal_name (st_kdata st)"
    using assms(6,7) by (simp add: proven_def ticket_name_def)
  with recvit_ticket [OF assms(1-5), of k st svc] show ?thesis by auto
qed

theorem refused_ticket_named_witness:
  "\<exists>k st s u. krb5 k ''discuss'' ''bad'' = None \<and>
     recvit k st ''discuss'' s = Some (0, set_us u (set_caller ''root@ATHENA.MIT.EDU'' s)) \<and> us_in u = []"
proof -
  define k where "k = \<lparr>krb5 = (\<lambda>_ _. None), krb4 = None\<rparr>"
  define st where "st = \<lparr>st_i = 0, st_kdata = (''root'', [], ''ATHENA.MIT.EDU''), st_trn = 0,
    st_info = \<lparr>mi_version = 0, mi_location = [], mi_long_name = [], mi_chairman = [], mi_first = 0, mi_last = 0,
      mi_lowest = 0, mi_highest = 0, mi_date_created = 0, mi_date_modified = 0, mi_public_flag = 0, mi_access_modes = []\<rparr>,
    st_acl = NoAcl, st_buf = []\<rparr>"
  have c: "connected demo_client" "cl_err demo_client = 0" "idle (us demo_client)"
    using demo_ready by (simp_all add: ready_def demo_client_def)
  from send_ticket_block [OF c, of "''bad''"] obtain req where req: "block_of KRB_TICKET (ticket_items ''bad'') req" by auto
  define s where "s = set_us (set_in req (us (core demo_session))) demo_session"
  have s: "us_in (us (core s)) = req @ []" "idle (us (core s))"
    using demo_ready by (simp_all add: s_def ready_def idle_def)
  have k: "krb5 k ''discuss'' ''bad'' = None" "krb4 k = None" by (simp_all add: k_def)
  from refused_ticket_named [OF s(1) req s(2) _ _ k, of st] have
    "\<exists>u. recvit k st ''discuss'' s = Some (0, set_us u (set_caller ''root@ATHENA.MIT.EDU'' s)) \<and> us_in u = []"
    by (simp add: st_def principal_name_def)
  with k(1) show ?thesis by blast
qed

end
