(* ===== verification/Add_parts.thy ===== *)
theory Add_parts
  imports Lookup
begin

text \<open>
  Adding a transaction: the block at the end of the control file with its links, and the record at
  the end of the transaction file.
\<close>

subsection \<open>The chain blocks\<close>

lemma editing_new_super:
  assumes "editing s ln ch m" and "sb_ok sb" and "names_ok sb ln ch"
    and "ms_chain_start sb = ms_chain_start (super s)" and "ms_highest (super s) \<le> ms_highest sb"
  shows "editing (s\<lparr>super := sb\<rparr>) ln ch m"
proof -
  have "ctl_view (s\<lparr>super := sb\<rparr>) = ctl_view s" "ctl_ok (s\<lparr>super := sb\<rparr>) = ctl_ok s"
    by (simp_all add: ctl_view_def ctl_ok_def ctl_inv_def)
  then show ?thesis
    using assms blocks_in_super [of "ctl_view s" "mtg_swapped s" "super s" m sb] by (simp add: editing_def rep_def)
qed

lemma add_link_ok:
  assumes "editing s ln ch m" and "m t = Some c" and "\<And>c. blk_ok (super s) t c \<Longrightarrow> blk_ok (super s) t (f c)"
  shows "\<exists>s'. add_link s t f sp = Some (Some (f c), s') \<and> goes_on s s' ln ch (upd t f m)"
proof -
  have "rep s m" using assms(1) by (simp add: editing_def)
  note r = read_chain_rep [OF this assms(2), of sp]
  from write_chain_editing [OF assms(1) assms(3) [OF editing_blk [OF assms(1,2)]]] obtain s' where
    "write_chain s (f c) = Some (OK, s')" "goes_on s s' ln ch (m(t \<mapsto> f c))" by blast
  moreover have "m(t \<mapsto> f c) = upd t f m" by (simp add: upd_def assms(2))
  ultimately show ?thesis using r by (simp add: add_link_def)
qed

text \<open>The three blocks that the new one changes, in the order of the code.\<close>

definition ends_at :: "chain_blk \<Rightarrow> chain_blk \<Rightarrow> chain_blk" where
  "ends_at cb b = (let b = b\<lparr>cb_chain_lref := cb_current cb\<rparr>
     in if cb_pref cb = 0 then b\<lparr>cb_chain_fref := cb_current cb\<rparr> else b)"

lemma linked_in_steps:
  assumes "m 0 = None" and "cb_next cb = 0" and "cb_nref cb = 0"
  shows "upd (cb_prev cb) (\<lambda>x. x\<lparr>cb_next := cb_current cb\<rparr>)
    (upd (cb_pref cb) (\<lambda>x. x\<lparr>cb_nref := cb_current cb\<rparr>) (upd (cb_trn_chain cb) (ends_at cb) m)) = linked_in cb m"
proof
  fix u
  show "upd (cb_prev cb) (\<lambda>x. x\<lparr>cb_next := cb_current cb\<rparr>)
    (upd (cb_pref cb) (\<lambda>x. x\<lparr>cb_nref := cb_current cb\<rparr>) (upd (cb_trn_chain cb) (ends_at cb) m)) u = linked_in cb m u"
  proof (cases "m u")
    case (Some c)
    with assms have "u \<noteq> 0" by auto
    with Some assms(2,3) show ?thesis
      by (auto simp: linked_in_def relinked_apply upd_apply repoint_def ends_at_def Let_def intro!: chain_blk.equality)
  qed (auto simp: linked_in_def relinked_apply upd_apply)
qed

text \<open>The transaction that is replied to is live, or there is none.\<close>

definition reply_ok :: "chains \<Rightarrow> int \<Rightarrow> cbuf \<Rightarrow> bool" where
  "reply_ok m reply cb \<longleftrightarrow> reply = 0 \<or> (\<exists>r. cb = Some r \<and> m reply = Some r \<and> \<not> deleted r)"

text \<open>The number and the chain of the new block.\<close>

definition super_next :: "mtg_super \<Rightarrow> int \<Rightarrow> mtg_super" where
  "super_next sb reply = sb\<lparr>ms_highest := ms_highest sb + 1,
     ms_highest_chain := (if reply = 0 then ms_highest_chain sb + 1 else ms_highest_chain sb)\<rparr>"

definition next_block :: "srv \<Rightarrow> chains \<Rightarrow> int \<Rightarrow> cbuf \<Rightarrow> chain_blk" where
  "next_block s m reply r =
     (new_block (s\<lparr>super := super_next (super s) reply\<rparr>) 0)\<lparr>
        cb_trn_chain := (if reply = 0 then ms_highest_chain (super s) + 1 else cb_trn_chain (the r)),
        cb_pref := (if reply = 0 then 0 else cb_chain_lref (the (m (cb_trn_chain (the r)))))\<rparr>"

text \<open>There is room for one more block, and the transaction file is not too long.\<close>

definition room_for :: "srv \<Rightarrow> bool" where
  "room_for s \<longleftrightarrow> ms_chain_start (super s) + (ms_highest (super s) + 1) * int CHAIN_SIZE \<le> int ALIMIT \<and>
     0 < length (fdata (fs s) (u_trn_f s)) \<and> length (fdata (fs s) (u_trn_f s)) < 2 ^ 31"

lemma room_fsize: "room_for s \<Longrightarrow> fsize (fs s) (u_trn_f s) = int (length (fdata (fs s) (u_trn_f s)))"
  by (simp add: room_for_def fsize_def signed_take_bit_int_eq_self_iff)

lemma fits_highest: "sb_ok sb \<Longrightarrow> ms_highest sb < 2 ^ 31 - 1"
  by (auto simp: sb_ok_def mtg_layout ALIMIT_def)

lemma super_next_ok:
  assumes "editing s ln ch m" and "mtg_inv (super s) m" and "room_for s"
  shows "sb_ok (super_next (super s) reply)" and "names_ok (super_next (super s) reply) ln ch"
proof -
  have sb: "sb_ok (super s)" "names_ok (super s) ln ch" using assms(1) by (simp_all add: editing_def rep_def)
  have "ms_highest_chain (super s) \<le> ms_highest (super s)" "0 \<le> ms_highest_chain (super s)"
    using assms(2) by (simp_all add: mtg_inv_def)
  with fits_highest [OF sb(1)] have "fits 4 (ms_highest (super s) + 1)" "fits 4 (ms_highest_chain (super s) + 1)"
    using sb(1) by (simp_all add: fits_def sb_ok_def)
  with sb(1) assms(3) show "sb_ok (super_next (super s) reply)"
    by (auto simp: sb_ok_def super_next_def super_ok_def super_fields_def super_widths_def room_for_def)
  show "names_ok (super_next (super s) reply) ln ch"
    using sb(2) by (auto simp: names_ok_def super_next_def string_area_def)
qed

lemma next_block_fresh:
  assumes "editing s ln ch m" and "mtg_inv (super s) m" and "room_for s" and "reply_ok m reply r"
  defines "cb \<equiv> next_block s m reply r"
  shows "fresh (super s) m cb" and "blk_ok (super_next (super s) reply) (ms_highest (super s) + 1) cb"
    and "reply \<noteq> 0 \<Longrightarrow> cb_pref cb \<noteq> 0"
proof -
  note sb = super_next_ok [OF assms(1-3), of reply]
  have k: "1 \<le> cb_trn_chain cb \<and> cb_trn_chain cb \<le> ms_highest_chain (super_next (super s) reply) \<and>
      greatest (live_chain m (cb_trn_chain cb)) (cb_pref cb) \<and> fits 4 (cb_pref cb) \<and> (reply \<noteq> 0 \<longrightarrow> cb_pref cb \<noteq> 0)"
  proof (cases "reply = 0")
    case True
    have "live_chain m (ms_highest_chain (super s) + 1) = {}"
      using mtg_inv_live(3) [OF assms(2)] by (fastforce simp: live_chain_def)
    moreover have "0 \<le> ms_highest_chain (super s)" using assms(2) by (simp add: mtg_inv_def)
    ultimately show ?thesis using True by (simp add: cb_def next_block_def super_next_def greatest_def fits_def)
  next
    case False
    with assms(4) obtain b where b: "r = Some b" "m reply = Some b" "\<not> deleted b" by (auto simp: reply_ok_def)
    note l = mtg_inv_live [OF assms(2) b(2,3)]
    from chain_dom [OF assms(2) b(2) l(5)] obtain c where c: "m (cb_trn_chain b) = Some c" by auto
    then have "chain_ends m (cb_trn_chain b) c" using assms(2) by (simp add: mtg_inv_def)
    moreover have "fits 4 (cb_chain_lref c)" using blk_ok_fits(8) [OF editing_blk [OF assms(1) c]] .
    ultimately show ?thesis using False l b(1) c
      by (auto simp: cb_def next_block_def super_next_def chain_ends_def greatest_def)
  qed
  have f: "cb_current cb = ms_highest (super s) + 1" "cb_prev cb = ms_last (super s)" "cb_next cb = 0" "cb_nref cb = 0"
    "cb_chain_fref cb = 0" "cb_chain_lref cb = 0" "cb_flags cb = 0" "cb_trn_addr cb = int (length (fdata (fs s) (u_trn_f s)))"
    "cb_version cb = CHAIN_BLK_1" "cb_unique cb = CHAIN_BLK_UNIQUE" "cb_filler cb = 0"
    using room_fsize [OF assms(3)] by (simp_all add: cb_def next_block_def new_block_def super_next_def)
  from k have h: "cb_trn_chain cb \<le> ms_highest_chain (super s) + 1" by (auto simp: super_next_def split: if_splits)
  then show "fresh (super s) m cb"
    using k f assms(3) by (simp add: fresh_def room_for_def)
  have "super_ok (super_next (super s) reply)" using sb(1) by (simp add: sb_ok_def)
  then have "fits 4 (ms_highest (super s) + 1)" "fits 4 (ms_highest_chain (super_next (super s) reply))" "fits 4 (ms_last (super s))"
    by (auto simp: super_ok_def super_fields_def super_widths_def super_next_def)
  moreover from this k have "fits 4 (cb_trn_chain cb)" by (auto simp: fits_def)
  moreover have "fits 4 (cb_trn_addr cb)" using assms(3) f(8) by (simp add: fits_def room_for_def)
  moreover have "0 \<le> ms_highest (super s)" using assms(1) by (simp add: editing_def rep_def sb_ok_def)
  ultimately show "blk_ok (super_next (super s) reply) (ms_highest (super s) + 1) cb"
    using k f by (simp add: blk_ok_def chain_ok_def chain_fields_def chain_widths_def mtg_consts)
      (simp add: fits_def super_next_def)
  show "reply \<noteq> 0 \<Longrightarrow> cb_pref cb \<noteq> 0" using k by simp
qed

text \<open>All the blocks of \<open>add_trn\<close>.\<close>

lemma add_chain_ok:
  assumes ed: "editing s ln ch m" and inv: "mtg_inv (super s) m" and room: "room_for s" and r: "reply_ok m reply rb"
    and want: "desired \<le> ms_highest (super s) + 1"
  defines "cb \<equiv> next_block s m reply rb"
  shows "\<exists>s'. add_chain reply desired 0 rb s = Some (OK, cb, s') \<and>
    editing s' ln ch (linked_in cb (m(ms_highest (super s) + 1 \<mapsto> cb))) \<and>
    op_frame s s' \<and> super s' = super_next (super s) reply"
proof -
  define t where "t = ms_highest (super s) + 1"
  define sb where "sb = super_next (super s) reply"
  note fresh = next_block_fresh [OF ed inv room r, folded cb_def]
  have cb: "cb_current cb = t" "cb_prev cb = ms_last (super s)" "cb_next cb = 0" "cb_nref cb = 0" "cb_trn_chain cb \<noteq> 0"
    using fresh(1) by (simp_all add: fresh_def t_def)
  have t0: "0 < t" using ed by (simp add: editing_def rep_def sb_ok_def t_def)
  define s0 where "s0 = s\<lparr>super := sb\<rparr>"
  have e0: "editing s0 ln ch m"
    unfolding s0_def by (rule editing_new_super [OF ed]) (use super_next_ok [OF ed inv room] in \<open>simp_all add: sb_def super_next_def\<close>)
  have f0: "super s0 = sb" "op_frame s s0" by (simp_all add: s0_def)
  from write_chain_editing [OF e0] fresh(2) obtain s1 where
    s1: "write_chain s0 cb = Some (OK, s1)" "goes_on s0 s1 ln ch (m(t \<mapsto> cb))" by (auto simp: f0 sb_def t_def)
  then have e1: "editing s1 ln ch (m(t \<mapsto> cb))" by (simp add: goes_on_def)
  have dom: "(m(t \<mapsto> cb)) u \<noteq> None" if "1 \<le> u" "u \<le> t" for u
  proof -
    have "u \<in> dom m \<or> u = t" using inv that by (auto simp: mtg_inv_def t_def)
    then show ?thesis by auto
  qed
  have k: "1 \<le> cb_trn_chain cb" "cb_trn_chain cb \<le> t"
    using fresh(1) inv by (auto simp: fresh_def mtg_inv_def t_def)
  from dom [OF k] obtain kb where kb: "(m(t \<mapsto> cb)) (cb_trn_chain cb) = Some kb" by auto
  have fits_t: "fits 4 t" using blk_ok_fits(5) [OF fresh(2)] by (simp add: cb(1))
  have ends: "blk_ok sb' u (ends_at cb b)" if "blk_ok sb' u b" for sb' u b
    using that fits_t by (simp add: ends_at_def Let_def blk_ok_update cb(1))
  have rd: "read_chain s1 (cb_trn_chain cb) sp = Some (OK, Some kb)" for sp
    by (rule read_chain_rep [where m = "m(t \<mapsto> cb)", OF _ kb]) (use e1 in \<open>simp add: editing_def\<close>)
  from write_chain_editing [OF e1 ends [OF editing_blk [OF e1 kb]]] obtain s2 where
    s2: "write_chain s1 (ends_at cb kb) = Some (OK, s2)" "goes_on s1 s2 ln ch ((m(t \<mapsto> cb))(cb_trn_chain cb \<mapsto> ends_at cb kb))" by blast
  define m2 where "m2 = upd (cb_trn_chain cb) (ends_at cb) (m(t \<mapsto> cb))"
  have e2: "editing s2 ln ch m2" using s2(2) kb by (simp add: goes_on_def m2_def upd_def)
  define m3 where "m3 = upd (cb_pref cb) (\<lambda>x. x\<lparr>cb_nref := t\<rparr>) m2"
  have "\<exists>sp s3. (if reply \<noteq> 0 then add_link s2 (cb_pref cb) (\<lambda>x. x\<lparr>cb_nref := t\<rparr>) (Some (ends_at cb kb))
      else Some (Some (ends_at cb kb), s2)) = Some (sp, s3) \<and> goes_on s2 s3 ln ch m3"
  proof (cases "reply = 0")
    case True
    then have "cb_pref cb = 0" by (simp add: cb_def next_block_def)
    then have "m3 = m2" using editing_0 [OF e2] by (simp add: m3_def upd_none)
    with True e2 show ?thesis by (simp add: goes_on_def)
  next
    case False
    have "cb_pref cb \<in> live_chain m (cb_trn_chain cb)" using fresh(1) fresh(3) [OF False] by (auto simp: fresh_def greatest_def)
    then obtain b where "m (cb_pref cb) = Some b" by (auto simp: live_chain_def)
    then have "m2 (cb_pref cb) \<noteq> None" by (auto simp: m2_def upd_apply)
    then obtain b2 where b2: "m2 (cb_pref cb) = Some b2" by auto
    from add_link_ok [OF e2 b2 blk_ok_update(3) [OF _ fits_t]] False show ?thesis unfolding m3_def by fastforce
  qed
  then obtain sp s3 where s3: "(if reply \<noteq> 0 then add_link s2 (cb_pref cb) (\<lambda>x. x\<lparr>cb_nref := t\<rparr>) (Some (ends_at cb kb))
      else Some (Some (ends_at cb kb), s2)) = Some (sp, s3)" "goes_on s2 s3 ln ch m3" by blast
  then have e3: "editing s3 ln ch m3" by (simp add: goes_on_def)
  define m4 where "m4 = upd (cb_prev cb) (\<lambda>x. x\<lparr>cb_next := t\<rparr>) m3"
  have "\<exists>sp s4. (if cb_prev cb \<noteq> 0 then add_link s3 (cb_prev cb) (\<lambda>x. x\<lparr>cb_next := t\<rparr>) sp' else Some (sp', s3)) = Some (sp, s4) \<and>
      goes_on s3 s4 ln ch m4" for sp'
  proof (cases "cb_prev cb = 0")
    case True
    then have "m4 = m3" using editing_0 [OF e3] by (simp add: m4_def upd_none)
    with True e3 show ?thesis by (simp add: goes_on_def)
  next
    case False
    have "cb_prev cb \<in> live m" using inv False by (auto simp: cb(2) mtg_inv_def greatest_def)
    then obtain b where "m (cb_prev cb) = Some b" by (auto simp: live_def)
    then have "m3 (cb_prev cb) \<noteq> None" by (auto simp: m3_def m2_def upd_apply)
    then obtain b3 where b3: "m3 (cb_prev cb) = Some b3" by auto
    from add_link_ok [OF e3 b3 blk_ok_update(1) [OF _ fits_t]] False show ?thesis unfolding m4_def by fastforce
  qed
  then obtain sp4 s4 where s4: "(if cb_prev cb \<noteq> 0 then add_link s3 (cb_prev cb) (\<lambda>x. x\<lparr>cb_next := t\<rparr>) sp else Some (sp, s3)) = Some (sp4, s4)"
    "goes_on s3 s4 ln ch m4" by blast
  have M: "m4 = linked_in cb (m(t \<mapsto> cb))"
    using linked_in_steps [OF _ cb(3,4), of "m(t \<mapsto> cb)"] editing_0 [OF e1] by (simp add: m4_def m3_def m2_def cb(1))
  have nxt: "next_trn (super s) desired = ms_highest (super s) + 1" using want by (simp add: next_trn_def)
  define sx where "sx = s\<lparr>super := (super s)\<lparr>ms_highest := next_trn (super s) desired\<rparr>\<rparr>"
  have "\<exists>sp0. (if reply \<noteq> 0 then
                do { r \<leftarrow> rb;
                     (_, spare) \<leftarrow> read_chain sx (cb_trn_chain r) None;
                     b \<leftarrow> spare;
                     Some ((new_block sx 0)\<lparr>cb_trn_chain := cb_trn_chain r, cb_pref := cb_chain_lref b\<rparr>, spare, sx) }
              else
                let s = sx\<lparr>super := (super sx)\<lparr>ms_highest_chain := ms_highest_chain (super sx) + 1\<rparr>\<rparr>
                in Some ((new_block sx 0)\<lparr>cb_trn_chain := ms_highest_chain (super s)\<rparr>, None, s)) = Some (cb, sp0, s0)"
  proof (cases "reply = 0")
    case True
    then show ?thesis
      by (simp add: Let_def sx_def s0_def sb_def super_next_def nxt cb_def next_block_def new_block_def)
  next
    case False
    with r obtain b where b: "rb = Some b" "m reply = Some b" "\<not> deleted b" by (auto simp: reply_ok_def)
    from chain_dom [OF inv b(2) mtg_inv_live(5) [OF inv b(2,3)]] obtain c where c: "m (cb_trn_chain b) = Some c" by auto
    have "sx = s0" using False by (simp add: sx_def s0_def sb_def super_next_def nxt)
    moreover have "read_chain s0 (cb_trn_chain b) None = Some (OK, Some c)"
      by (rule read_chain_rep [where m = m, OF _ c]) (use e0 in \<open>simp add: editing_def\<close>)
    ultimately show ?thesis using False b(1) c
      by (simp add: cb_def next_block_def new_block_def) (simp add: s0_def sb_def new_block_def)
  qed
  then obtain sp0 where first: "(if reply \<noteq> 0 then
                do { r \<leftarrow> rb;
                     (_, spare) \<leftarrow> read_chain sx (cb_trn_chain r) None;
                     b \<leftarrow> spare;
                     Some ((new_block sx 0)\<lparr>cb_trn_chain := cb_trn_chain r, cb_pref := cb_chain_lref b\<rparr>, spare, sx) }
              else
                let s = sx\<lparr>super := (super sx)\<lparr>ms_highest_chain := ms_highest_chain (super sx) + 1\<rparr>\<rparr>
                in Some ((new_block sx 0)\<lparr>cb_trn_chain := ms_highest_chain (super s)\<rparr>, None, s)) = Some (cb, sp0, s0)" by blast
  have "add_chain reply desired 0 rb s = Some (OK, cb, s4)"
    unfolding add_chain_def sx_def [symmetric]
    unfolding Let_def [of sx] unfolding Let_def [of "new_block sx 0"] unfolding first
    using s1(1) rd s2(1) s3(1) s4(1)
    by (cases "cb_pref cb = 0"; cases "cb_prev cb = 0"; cases "reply = 0") (simp_all add: cb(1) ends_at_def Let_def)
  moreover have "op_frame s s4" "super s4 = sb"
    using op_frame_trans [OF f0(2)] goes_on_trans [OF goes_on_trans [OF goes_on_trans [OF s1(2) s2(2)] s3(2)] s4(2)] f0(1)
    by (auto simp: goes_on_def)
  ultimately show ?thesis using s4(2) by (auto simp: goes_on_def M t_def sb_def)
qed

subsection \<open>The transaction file\<close>

text \<open>Only the transaction file, the stream and the file object have changed.\<close>

definition trn_only :: "srv \<Rightarrow> srv \<Rightarrow> bool" where
  "trn_only s s' \<longleftrightarrow> s' = s\<lparr>fs := fs s', us := us s', tf := tf s'\<rparr> \<and> other_files (fs s) (u_trn_f s) (fs s') \<and>
     faults (fs s) = [] \<and> faults (fs s') = []"

definition grown :: "srv \<Rightarrow> bytes \<Rightarrow> srv \<Rightarrow> bool" where
  "grown s bs s' \<longleftrightarrow> trn_only s s' \<and> fdata (fs s') (u_trn_f s) = fdata (fs s) (u_trn_f s) @ bs"

lemma trn_only_fields:
  assumes "trn_only s s'"
  shows "current_mtg s' = current_mtg s" "u_trn_f s' = u_trn_f s" "u_control_f s' = u_control_f s"
    "abort_file s' = abort_file s" "read_lock s' = read_lock s" "mtg_swapped s' = mtg_swapped s"
    "mtg_acl s' = mtg_acl s" "has_privs s' = has_privs s" "no_nuke s' = no_nuke s" "rpc_caller s' = rpc_caller s"
    "last_acl_mod s' = last_acl_mod s" "super s' = super s" "super_chairman s' = super_chairman s"
    "super_long_name s' = super_long_name s" "nuclear s' = nuclear s" "a_control_f s' = a_control_f s"
proof -
  from assms have e: "s' = s\<lparr>fs := fs s', us := us s', tf := tf s'\<rparr>" by (simp add: trn_only_def)
  show "current_mtg s' = current_mtg s" "u_trn_f s' = u_trn_f s" "u_control_f s' = u_control_f s"
    "abort_file s' = abort_file s" "read_lock s' = read_lock s" "mtg_swapped s' = mtg_swapped s"
    "mtg_acl s' = mtg_acl s" "has_privs s' = has_privs s" "no_nuke s' = no_nuke s" "rpc_caller s' = rpc_caller s"
    "last_acl_mod s' = last_acl_mod s" "super s' = super s" "super_chairman s' = super_chairman s"
    "super_long_name s' = super_long_name s" "nuclear s' = nuclear s" "a_control_f s' = a_control_f s"
    by (subst e, simp)+
qed

lemma trn_only_trans:
  assumes a: "trn_only s s'" and b: "trn_only s' s''"
  shows "trn_only s s''"
proof -
  have "s'' = s'\<lparr>fs := fs s'', us := us s'', tf := tf s''\<rparr>" using b by (simp add: trn_only_def)
  also have "\<dots> = (s\<lparr>fs := fs s', us := us s', tf := tf s'\<rparr>)\<lparr>fs := fs s'', us := us s'', tf := tf s''\<rparr>"
    using a unfolding trn_only_def by metis
  finally have e: "s'' = s\<lparr>fs := fs s'', us := us s'', tf := tf s''\<rparr>" by simp
  have "other_files (fs s) (u_trn_f s) (fs s'')" "faults (fs s) = []" "faults (fs s'') = []"
    using a b trn_only_fields(2) [OF a] by (auto simp: trn_only_def intro: other_files_trans)
  with e show ?thesis unfolding trn_only_def by blast
qed

lemma grown_trans: "grown s bs s' \<Longrightarrow> grown s' cs s'' \<Longrightarrow> grown s (bs @ cs) s''"
  using trn_only_fields(2) [of s s'] by (auto simp: grown_def intro: trn_only_trans)

lemma editing_trn_only:
  assumes "editing s ln ch m" and "u_control_f s \<noteq> u_trn_f s" and "trn_only s s'"
  shows "editing s' ln ch m"
proof -
  note f = trn_only_fields [OF assms(3)]
  have o: "other_files (fs s) (u_trn_f s) (fs s')" "faults (fs s') = []" using assms(3) by (simp_all add: trn_only_def)
  have d: "fdata (fs s') (u_control_f s) = fdata (fs s) (u_control_f s)"
    using o assms(2) unfolding other_files_def by metis
  have "ctl_ok s" using assms(1) by (simp add: editing_def rep_def)
  then have i: "nuclear s \<Longrightarrow> af_ok (a_control_f s) (fs s) \<and> a_desc (a_control_f s) = u_control_f s"
    by (simp add: ctl_ok_def ctl_inv_def)
  have v: "af_ok (a_control_f s) (fs s') \<and> aview (a_control_f s) (fs s') = aview (a_control_f s) (fs s)" if n: "nuclear s"
  proof -
    from i [OF n] have a: "a_desc (a_control_f s) = u_control_f s" by simp
    show ?thesis using i [OF n] unfolding af_ok_def aview_def a d by simp
  qed
  have "ctl_ok s'" "ctl_view s' = ctl_view s"
    using v i d o by (auto simp: ctl_ok_def ctl_inv_def ctl_view_def f)
  then show ?thesis using assms(1) by (simp add: editing_def rep_def f)
qed

lemma trn_write_only:
  assumes "trn_write s pos n b = (r, s')" and "faults (fs s) = []"
  shows "trn_only s s'" and "us s' = us s" and "tf s' = tf s"
proof -
  have "trn_only s s' \<and> us s' = us s \<and> tf s' = tf s"
  proof (cases "n < 0")
    case False
    obtain q f where w: "sys_write (fs s) (u_trn_f s) pos (take (nat n) b) = (q, f)" by fastforce
    with sys_write_other_files [OF w] assms False show ?thesis
      by (auto simp: trn_write_def trn_only_def other_files_def)
  qed (use assms in \<open>auto simp: trn_write_def trn_only_def\<close>)
  then show "trn_only s s'" "us s' = us s" "tf s' = tf s" by simp_all
qed

lemma trn_append:
  assumes "faults (fs s) = []" and "n = int (length b)"
  shows "\<exists>s'. trn_write s (length (fdata (fs s) (u_trn_f s))) n b = (n, s') \<and> grown s b s'"
proof -
  obtain r f where w: "sys_write (fs s) (u_trn_f s) (length (fdata (fs s) (u_trn_f s))) b = (r, f)" by fastforce
  then have f: "r = n" "fdata f (u_trn_f s) = fdata (fs s) (u_trn_f s) @ b"
    using assms by (auto simp: sys_write_ok overwrite_end)
  have "trn_write s (length (fdata (fs s) (u_trn_f s))) n b = (n, s\<lparr>fs := f\<rparr>)"
    using w f(1) assms(2) by (simp add: trn_write_def)
  with trn_write_only(1) [OF this assms(1)] f(2) show ?thesis by (simp add: grown_def)
qed

text \<open>The header and the strings.\<close>

definition hdr_lens :: "trn_hdr \<Rightarrow> string \<Rightarrow> string \<Rightarrow> string option \<Rightarrow> bool" where
  "hdr_lens th subject author sg \<longleftrightarrow> th_subject_len th = int (length subject) + 1 \<and>
     th_author_len th = int (length author) + 1 + (case sg of None \<Rightarrow> 0 | Some g \<Rightarrow> int (length g) + 1)"

definition author_text :: "string \<Rightarrow> string option \<Rightarrow> bytes" where
  "author_text author sg = author @ [NUL] @ (case sg of None \<Rightarrow> [] | Some g \<Rightarrow> g @ [NUL])"

lemma trn_append_step:
  assumes "grown s0 bs s" and "pos = length (fdata (fs s0) (u_trn_f s0)) + length bs" and "n = int (length b)"
  shows "\<exists>s'. trn_write s pos n b = (n, s') \<and> grown s0 (bs @ b) s'"
proof -
  have "fdata (fs s) (u_trn_f s) = fdata (fs s0) (u_trn_f s0) @ bs" "faults (fs s) = []"
    using assms(1) trn_only_fields(2) [of s0 s] by (simp_all add: grown_def trn_only_def)
  with trn_append [of s n b] assms show ?thesis by (auto intro: grown_trans)
qed

lemma grown_refl: "faults (fs s) = [] \<Longrightarrow> grown s [] s"
  by (simp add: grown_def trn_only_def)

lemma add_strings_ok:
  assumes "faults (fs s) = []" and "hdr_lens th subject author sg"
  shows "\<exists>s'. add_strings s th subject author sg =
      (Some (length (fdata (fs s) (u_trn_f s)) + HDR_SIZE + length subject + 1 + length (author_text author sg)), s') \<and>
    grown s (enc_hdr (disk_hdr s th) @ subject @ [NUL] @ author_text author sg) s'"
proof -
  define n0 where "n0 = length (fdata (fs s) (u_trn_f s))"
  define h where "h = enc_hdr (disk_hdr s th)"
  have lh: "length h = HDR_SIZE" by (simp add: h_def)
  have nl: "nat (int k + 1) = k + 1" for k by simp
  have l: "th_subject_len th = int (length subject) + 1" using assms(2) by (simp add: hdr_lens_def)
  from trn_append_step [OF grown_refl [OF assms(1)], of n0 "int HDR_SIZE" h] obtain s1 where
    1: "trn_write s n0 (int HDR_SIZE) h = (int HDR_SIZE, s1)" "grown s h s1" by (auto simp: n0_def lh)
  from trn_append_step [OF 1(2), of "n0 + HDR_SIZE" "th_subject_len th" "subject @ [NUL]"] obtain s2 where
    2: "trn_write s1 (n0 + HDR_SIZE) (th_subject_len th) (subject @ [NUL]) = (th_subject_len th, s2)"
    "grown s (h @ subject @ [NUL]) s2" by (auto simp: n0_def lh l)
  show ?thesis
  proof (cases sg)
    case None
    then have a: "th_author_len th = int (length author) + 1" using assms(2) by (simp add: hdr_lens_def)
    from trn_append_step [OF 2(2), of "n0 + HDR_SIZE + (length subject + 1)" "th_author_len th" "author @ [NUL]"] obtain s3 where
      "trn_write s2 (n0 + HDR_SIZE + (length subject + 1)) (th_author_len th) (author @ [NUL]) = (th_author_len th, s3)"
      "grown s ((h @ subject @ [NUL]) @ author @ [NUL]) s3" by (auto simp: n0_def lh l a)
    with 1(1) 2(1) None show ?thesis
      by (simp add: add_strings_def author_text_def Let_def a l nl flip: n0_def h_def)
  next
    case (Some g)
    then have a: "th_author_len th = int (length author) + 1 + (int (length g) + 1)" using assms(2) by (simp add: hdr_lens_def)
    from trn_append_step [OF 2(2), of "n0 + HDR_SIZE + (length subject + 1)" "int (length author) + 1" "author @ [NUL]"] obtain s3 where
      3: "trn_write s2 (n0 + HDR_SIZE + (length subject + 1)) (int (length author) + 1) (author @ [NUL]) = (int (length author) + 1, s3)"
      "grown s ((h @ subject @ [NUL]) @ author @ [NUL]) s3" by (auto simp: n0_def lh l)
    from trn_append_step [OF 3(2), of "n0 + HDR_SIZE + (length subject + 1) + (length author + 1)"
        "th_author_len th - (int (length author) + 1)" "g @ [NUL]"] obtain s4 where
      "trn_write s3 (n0 + HDR_SIZE + (length subject + 1) + (length author + 1))
         (th_author_len th - (int (length author) + 1)) (g @ [NUL]) = (th_author_len th - (int (length author) + 1), s4)"
      "grown s (((h @ subject @ [NUL]) @ author @ [NUL]) @ g @ [NUL]) s4" by (auto simp: n0_def lh l a)
    with 1(1) 2(1) 3(1) Some show ?thesis
      by (simp add: add_strings_def author_text_def Let_def a l nl flip: n0_def h_def)
  qed
qed

subsection \<open>The text\<close>

text \<open>
  A file object from which some bytes can still be read: the network, memory, or an open file that is none of the
  meeting's two.
\<close>

definition temp_src :: "srv \<Rightarrow> bytes \<Rightarrow> bool" where
  "temp_src s p \<longleftrightarrow> (\<exists>t d pos lc. tf s = Some t \<and> tf_kind t = Tunix d pos lc \<and> p = drop pos (fdata (fs s) d) \<and>
     d \<noteq> u_trn_f s \<and> d \<noteq> u_control_f s)"

interpretation temp: byte_source "\<lambda>s n. tread n s" temp_src
proof
  fix s p n
  assume "temp_src s p" and n: "n \<le> length p"
  then obtain t d pos lc where t: "tf s = Some t" "tf_kind t = Tunix d pos lc" "p = drop pos (fdata (fs s) d)"
    "d \<noteq> u_trn_f s" "d \<noteq> u_control_f s" by (auto simp: temp_src_def)
  with n show "\<exists>s'. tread n s = Some (int n, take n p, OK, s') \<and> temp_src s' (drop n p)"
    by (auto simp: tread_def tunix_read_def sys_read_def slice_def temp_src_def set_kind_def Let_def add.commute)
qed

definition stream_src :: "srv \<Rightarrow> bytes \<Rightarrow> bool" where
  "stream_src s p \<longleftrightarrow> net_src s p \<or> mem_src s p \<or> temp_src s p"

lemma stream_src_cong:
  assumes "us s' = us s" and "tf s' = tf s" and "u_trn_f s' = u_trn_f s" and "u_control_f s' = u_control_f s"
    and "\<And>d. d \<noteq> u_trn_f s \<Longrightarrow> d \<noteq> u_control_f s \<Longrightarrow> inodes (fs s') d = inodes (fs s) d"
  shows "stream_src s' p = stream_src s p"
  using assms(5) by (auto simp: stream_src_def net_src_def mem_src_def temp_src_def assms(1-4))

lemma stream_src_trn_only:
  assumes "trn_only s s'" and "us s' = us s" and "tf s' = tf s"
  shows "stream_src s' p = stream_src s p"
  by (rule stream_src_cong)
    (use assms trn_only_fields [OF assms(1)] in \<open>simp_all add: trn_only_def other_files_def\<close>)

lemma tread_stream:
  assumes "stream_src s p" and "n \<le> length p"
  shows "\<exists>s'. tread n s = Some (int n, take n p, OK, s') \<and> stream_src s' (drop n p) \<and>
    s' = s\<lparr>us := us s', tf := tf s'\<rparr>"
proof -
  from assms obtain s' where s': "tread n s = Some (int n, take n p, OK, s')" "stream_src s' (drop n p)"
    using net.rd_src [of s p n] mem.rd_src [of s p n] temp.rd_src [of s p n] by (auto simp: stream_src_def)
  obtain t where t: "tf s = Some t"
    using assms(1) by (auto simp: stream_src_def net_src_def mem_src_def temp_src_def)
  then have "s' = s\<lparr>us := us s', tf := tf s'\<rparr>"
    using s'(1) by (auto simp: tread_def set_kind_def Let_def split: prod.splits option.splits bind_splits tkind.splits)
  with s' show ?thesis by blast
qed

lemma grown_stream:
  assumes "s' = s\<lparr>us := us s', tf := tf s'\<rparr>" and "faults (fs s) = []"
  shows "grown s [] s'"
proof -
  have "fs s' = fs s" by (subst assms(1)) simp
  with assms show ?thesis unfolding grown_def trn_only_def by simp
qed

lemma copy_loop_ok:
  assumes "stream_src s p" and "grown s0 bs s" and "pos = length (fdata (fs s0) (u_trn_f s0)) + length bs"
  shows "\<exists>s'. copy_loop (int (length p)) pos nl s = Some (OK, nl + count_nl p, s') \<and>
    grown s0 (bs @ p) s' \<and> stream_src s' []"
  using assms
proof (induction "length p" arbitrary: s p pos nl bs rule: less_induct)
  case less
  show ?case
  proof (cases "p = []")
    case True
    with less.prems show ?thesis by (subst copy_loop.simps) (simp add: count_nl_def)
  next
    case False
    define n where "n = min 512 (length p)"
    have n: "0 < n" "n \<le> length p" "nat (min 512 (int (length p))) = n" using False by (auto simp: n_def)
    from tread_stream [OF less.prems(1) n(2)] obtain s1 where
      1: "tread n s = Some (int n, take n p, OK, s1)" "stream_src s1 (drop n p)" "s1 = s\<lparr>us := us s1, tf := tf s1\<rparr>" by blast
    have ft: "faults (fs s) = []" using less.prems(2) by (simp add: grown_def trn_only_def)
    from grown_trans [OF less.prems(2) grown_stream [OF 1(3) ft]] have g1: "grown s0 bs s1" by simp
    from trn_append_step [OF g1 less.prems(3), of "int n" "take n p"] n(2) obtain s2 where
      2: "trn_write s1 pos (int n) (take n p) = (int n, s2)" "grown s0 (bs @ take n p) s2" by auto
    have "faults (fs s1) = []" using g1 by (simp add: grown_def trn_only_def)
    with trn_write_only [OF 2(1)] 1(2) have src: "stream_src s2 (drop n p)" using stream_src_trn_only by blast
    have len: "length (drop n p) < length p" using n by simp
    from less.hyps [OF len src 2(2), of "pos + n" "nl + count_nl (take n p)"] less.prems(3) n(2) obtain s3 where
      3: "copy_loop (int (length (drop n p))) (pos + n) (nl + count_nl (take n p)) s2 =
        Some (OK, nl + count_nl (take n p) + count_nl (drop n p), s3)" "grown s0 (bs @ p) s3" "stream_src s3 []" by auto
    have c: "count_nl (take n p) + count_nl (drop n p) = count_nl p"
      by (simp add: count_nl_def flip: filter_append length_append of_nat_add)
    have d: "int (length (drop n p)) = int (length p) - int n" using n(2) by (simp only: length_drop of_nat_diff)
    note r = 3(1) [unfolded d add.assoc c]
    have "copy_loop (int (length p)) pos nl s = copy_loop (int (length p) - int n) (pos + n) (nl + count_nl (take n p)) s2"
      by (subst copy_loop.simps) (use False in \<open>simp add: n(3) 1(1) 2(1)\<close>)
    with r 3(2,3) show ?thesis by auto
  qed
qed

end
