(* ===== verification/Contents.thy ===== *)
theory Contents
  imports Lookup Retrieve
begin

text \<open>
  The abstract view of a meeting: for every live transaction what its readers get, and what deleting
  and retrieving do to it.
\<close>

subsection \<open>What a meeting holds\<close>


record entry =
  en_subject :: string
  en_author :: string
  en_signature :: string
  en_text :: bytes
  en_chain :: int

definition entry_of :: "srv \<Rightarrow> chain_blk \<Rightarrow> entry option" where
  "entry_of s c = do { (k, th, subject, author, sg) \<leftarrow> read_trn s (cb_trn_addr c) True True True;
     sj \<leftarrow> c_string (Some subject); au \<leftarrow> c_string (Some author);
     tx \<leftarrow> trn_read s (th_text_addr th) (th_num_chars th);
     if k = OK then Some \<lparr>en_subject = sj, en_author = au, en_signature = sg, en_text = tx, en_chain = cb_trn_chain c\<rparr> else None }"

definition contents :: "srv \<Rightarrow> chains \<Rightarrow> int \<rightharpoonup> entry" where
  "contents s m t = do { c \<leftarrow> m t; if deleted c then None else entry_of s c }"

text \<open>The whole record of a block is in the transaction file.\<close>

definition in_file :: "srv \<Rightarrow> chain_blk \<Rightarrow> bool" where
  "in_file s c \<longleftrightarrow> entry_of s c \<noteq> None \<and> (\<exists>th subject author sg tx.
     read_trn s (cb_trn_addr c) True True True = Some (OK, th, subject, author, sg) \<and>
     trn_read s (th_text_addr th) (th_num_chars th) = Some tx \<and> int (length subject) = th_subject_len th \<and>
     int (length author) = th_author_len th \<and> int (length tx) = th_num_chars th)"

definition whole :: "srv \<Rightarrow> chains \<Rightarrow> bool" where
  "whole s m \<longleftrightarrow> (\<forall>t. case m t of None \<Rightarrow> True | Some c \<Rightarrow> deleted c \<or> in_file s c)"

lemma trn_read_append:
  assumes "trn_read s a n = Some b" and "n \<le> int (length b)" and "u_trn_f s' = u_trn_f s"
    and "fdata (fs s') (u_trn_f s) = fdata (fs s) (u_trn_f s) @ x"
  shows "trn_read s' a n = Some b"
proof (cases "n = 0")
  case True
  with assms show ?thesis by (auto simp: trn_read_def sys_read_def split: if_splits)
next
  case False
  from assms(1) have b: "0 \<le> a" "0 \<le> n" "b = slice (nat a) (nat n) (fdata (fs s) (u_trn_f s))"
    by (auto simp: trn_read_def sys_read_def split: if_splits)
  with assms(2) False have "nat a + nat n \<le> length (fdata (fs s) (u_trn_f s))" by (auto simp: length_slice)
  with b assms(3,4) show ?thesis by (simp add: trn_read_def sys_read_def slice_append_left)
qed

lemma in_file_append:
  assumes "in_file s c" and "u_trn_f s' = u_trn_f s" and "mtg_swapped s' = mtg_swapped s"
    and "fdata (fs s') (u_trn_f s) = fdata (fs s) (u_trn_f s) @ x"
  shows "in_file s' c" and "entry_of s' c = entry_of s c"
proof -
  from assms(1) obtain th subject author sg tx where
    r: "read_trn s (cb_trn_addr c) True True True = Some (OK, th, subject, author, sg)"
    and t: "trn_read s (th_text_addr th) (th_num_chars th) = Some tx"
    and l: "int (length subject) = th_subject_len th" "int (length author) = th_author_len th" "int (length tx) = th_num_chars th"
    by (auto simp: in_file_def)
  have t': "trn_read s' (th_text_addr th) (th_num_chars th) = Some tx"
    by (rule trn_read_append [OF t _ assms(2,4)]) (simp add: l)
  from r obtain h where h: "trn_read s (cb_trn_addr c) (int HDR_SIZE) = Some h" "HDR_SIZE \<le> length h"
    and th: "th = (if mtg_swapped s then swap_trn (dec_hdr h) else dec_hdr h)"
      "trn_read s (th_subject_addr th) (th_subject_len th) = Some subject"
      "trn_read s (th_author_addr th) (th_author_len th) = Some author"
    by (auto simp: read_trn_def Let_def not_less split: if_splits bind_splits)
  have "trn_read s' (cb_trn_addr c) (int HDR_SIZE) = Some h"
    by (rule trn_read_append [OF h(1) _ assms(2,4)]) (use h in simp)
  moreover have "trn_read s' (th_subject_addr th) (th_subject_len th) = Some subject"
    "trn_read s' (th_author_addr th) (th_author_len th) = Some author"
    using trn_read_append [OF th(2) _ assms(2,4)] trn_read_append [OF th(3) _ assms(2,4)] l by simp_all
  ultimately have "read_trn s' (cb_trn_addr c) True True True = read_trn s (cb_trn_addr c) True True True"
    using h th by (simp add: read_trn_def Let_def assms(3))
  with r t t' have e: "entry_of s' c = entry_of s c" by (simp add: entry_of_def)
  then show "entry_of s' c = entry_of s c" .
  with assms(1) r t' l \<open>read_trn s' (cb_trn_addr c) True True True = read_trn s (cb_trn_addr c) True True True\<close>
  show "in_file s' c" by (auto simp: in_file_def)
qed

text \<open>Changes of links do not matter for the contents.\<close>

lemma entry_cong:
  assumes "cb_trn_addr c' = cb_trn_addr c" and "cb_trn_chain c' = cb_trn_chain c"
  shows "entry_of s c' = entry_of s c" and "in_file s c' = in_file s c"
proof -
  show e: "entry_of s c' = entry_of s c" by (simp only: entry_of_def assms)
  show "in_file s c' = in_file s c" by (simp only: in_file_def assms e)
qed

lemma contents_relinked: "contents s (relinked cb n p nr pr m) = contents s m"
  by (rule ext) (simp add: contents_def relinked_apply entry_cong(1) [of "repoint cb n p nr pr _ _"] split: option.split bind_split)

lemma whole_relinked: "whole s (relinked cb n p nr pr m) = whole s m"
proof -
  have "(case relinked cb n p nr pr m t of None \<Rightarrow> True | Some c \<Rightarrow> deleted c \<or> in_file s c) =
    (case m t of None \<Rightarrow> True | Some c \<Rightarrow> deleted c \<or> in_file s c)" for t
    by (simp add: relinked_apply entry_cong(2) [of "repoint cb n p nr pr _ _"] split: option.split)
  then show ?thesis by (simp only: whole_def)
qed

lemma in_file_same:
  assumes "fs s' = fs s \<or> fdata (fs s') (u_trn_f s) = fdata (fs s) (u_trn_f s)" and "u_trn_f s' = u_trn_f s" and "mtg_swapped s' = mtg_swapped s"
  shows "entry_of s' = entry_of s" and "in_file s' = in_file s"
proof -
  have g: "trn_read s' = trn_read s" using assms by (auto simp: trn_read_def sys_read_def fun_eq_iff)
  have r: "read_trn s' = read_trn s" by (simp only: read_trn_def [abs_def] g assms)
  show e: "entry_of s' = entry_of s" by (simp only: entry_of_def [abs_def] g r)
  show "in_file s' = in_file s" by (simp only: in_file_def [abs_def] g r e)
qed

lemma contents_frame:
  assumes "open_on s name" and "op_frame s s'"
  shows "entry_of s' = entry_of s" and "in_file s' = in_file s" and "contents s' = contents s" and "whole s' = whole s"
proof -
  note f = op_frame_fields [OF assms(2)]
  have "fdata (fs s') (u_trn_f s) = fdata (fs s) (u_trn_f s)"
    using assms(1) f(14) unfolding open_on_def other_files_def by metis
  then show e: "entry_of s' = entry_of s" "in_file s' = in_file s" using in_file_same f by blast+
  show "contents s' = contents s" "whole s' = whole s" by (simp_all only: contents_def [abs_def] whole_def [abs_def] e)
qed

text \<open>
  All entries, those of deleted transactions too, when every block has its record.
\<close>

definition posts :: "srv \<Rightarrow> chains \<Rightarrow> int \<rightharpoonup> entry" where
  "posts s m t = do { c \<leftarrow> m t; entry_of s c }"

definition filed :: "srv \<Rightarrow> chains \<Rightarrow> bool" where
  "filed s m \<longleftrightarrow> (\<forall>t. case m t of None \<Rightarrow> True | Some c \<Rightarrow> cb_trn_addr c \<noteq> 0 \<and> in_file s c)"

lemma filed_whole: "filed s m \<Longrightarrow> whole s m"
  by (auto simp: filed_def whole_def split: option.splits)

lemma contents_posts: "contents s m = posts s m |` live m"
  by (auto simp: contents_def posts_def live_def restrict_map_def fun_eq_iff split: bind_splits)

lemma posts_relinked: "posts s (relinked cb n p nr pr m) = posts s m"
proof
  fix t show "posts s (relinked cb n p nr pr m) t = posts s m t"
    by (cases "m t") (simp_all add: posts_def relinked_apply entry_cong(1) [of "repoint cb n p nr pr _ _"])
qed

lemma filed_relinked: "filed s (relinked cb n p nr pr m) = filed s m"
proof -
  have "(case relinked cb n p nr pr m t of None \<Rightarrow> True | Some c \<Rightarrow> cb_trn_addr c \<noteq> 0 \<and> in_file s c) =
    (case m t of None \<Rightarrow> True | Some c \<Rightarrow> cb_trn_addr c \<noteq> 0 \<and> in_file s c)" for t
    by (simp add: relinked_apply entry_cong(2) [of "repoint cb n p nr pr _ _"] split: option.split)
  then show ?thesis by (simp only: filed_def)
qed

lemma filed_same_record:
  assumes "m t = Some c" and "cb_trn_addr d = cb_trn_addr c" and "cb_trn_chain d = cb_trn_chain c"
  shows "posts s (m(t \<mapsto> d)) = posts s m" and "filed s (m(t \<mapsto> d)) = filed s m"
proof -
  note e = entry_cong [OF assms(2,3)]
  show "posts s (m(t \<mapsto> d)) = posts s m" using assms(1) by (auto simp: posts_def e fun_eq_iff)
  have "(case (m(t \<mapsto> d)) u of None \<Rightarrow> True | Some c \<Rightarrow> cb_trn_addr c \<noteq> 0 \<and> in_file s c) =
    (case m u of None \<Rightarrow> True | Some c \<Rightarrow> cb_trn_addr c \<noteq> 0 \<and> in_file s c)" for u
    using assms(1,2) by (simp add: e)
  then show "filed s (m(t \<mapsto> d)) = filed s m" by (simp only: filed_def)
qed

lemma posts_frame:
  assumes "entry_of s' = entry_of s" and "in_file s' = in_file s"
  shows "posts s' = posts s" and "filed s' = filed s"
  by (simp_all only: posts_def [abs_def] filed_def [abs_def] assms)

text \<open>The entries of the small meeting.\<close>

lemma demo_entry:
  assumes "cb_trn_addr c = 28" and "cb_trn_chain c = k"
  shows "entry_of demo_srv c = Some \<lparr>en_subject = ''Hi!'', en_author = ''srz'', en_signature = ''srz'',
      en_text = ''hello'' @ [NL], en_chain = k\<rparr>" and "in_file demo_srv c"
proof -
  have t: "trn_read demo_srv 84 6 = Some (''hello'' @ [NL])"
    by (simp add: trn_read_def sys_read_def slice_def demo_srv_def demo_mtg_fs_def demo_trns_def mtg_layout)
  have h: "th_text_addr demo_hdr = 84" "th_num_chars demo_hdr = 6" "th_subject_len demo_hdr = 4" "th_author_len demo_hdr = 4"
    by (simp_all add: demo_hdr_def)
  show "entry_of demo_srv c = Some \<lparr>en_subject = ''Hi!'', en_author = ''srz'', en_signature = ''srz'',
      en_text = ''hello'' @ [NL], en_chain = k\<rparr>"
    using assms t by (simp add: entry_of_def demo_read_trn h c_string_def cstr_def)
  then show "in_file demo_srv c"
    using assms t by (simp add: in_file_def demo_read_trn h)
qed

lemma demo_whole: "whole demo_srv demo_chains"
  by (auto simp: whole_def demo_blocks intro!: demo_entry(2) elim!: demo_chains_cases split: option.split)

lemma demo_contents: "contents demo_srv demo_chains 2 = Some \<lparr>en_subject = ''Hi!'', en_author = ''srz'', en_signature = ''srz'',
    en_text = ''hello'' @ [NL], en_chain = 1\<rparr>"
  using demo_2_facts(1,2) demo_entry(1) [OF demo_2_facts(3), of 1] by (simp add: contents_def demo_blocks)

subsection \<open>Deleting and retrieving\<close>

text \<open>
  Deleting takes one entry out of what the meeting holds and changes no other.
\<close>

theorem delete_trn_contents:
  assumes "open_on s name" and "at_rest s sb ln ch m" and "mtg_inv sb m" and "whole s m"
    and "m t = Some c" and "\<not> deleted c" and "may_edit s c"
  shows "\<exists>s' sb' m'. delete_trn name t s = Some (OK, s') \<and> at_rest s' sb' ln ch m' \<and> mtg_inv sb' m' \<and> whole s' m' \<and>
    contents s' m' = (contents s m)(t := None) \<and> open_on s' name"
proof -
  define d where "d = c\<lparr>cb_flags := i16 (cb_flags c OR CB_DELETED)\<rparr>"
  have d: "deleted d" by (simp add: d_def)
  obtain s' where s': "delete_trn name t s = Some (OK, s')" "op_frame s s'" "at_rest s' (super_without c sb) ln ch (unlinked c (m(t \<mapsto> d)))"
    using delete_trn_blocks [OF open_on_again [OF assms(1)] assms(2,3,5-7)] by (auto simp: d_def)
  note f = contents_frame [OF assms(1) s'(2)]
  have "contents s (m(t \<mapsto> d)) = (contents s m)(t := None)" using d by (auto simp: contents_def fun_eq_iff)
  moreover have "whole s (m(t \<mapsto> d))" using assms(4) d by (simp add: whole_def)
  ultimately have "contents s' (unlinked c (m(t \<mapsto> d))) = (contents s m)(t := None)" "whole s' (unlinked c (m(t \<mapsto> d)))"
    by (simp_all add: f unlinked_def contents_relinked whole_relinked)
  moreover have "mtg_inv (super_without c sb) (unlinked c (m(t \<mapsto> d)))"
    by (rule delete_inv(1) [OF assms(3,5,6) d]) (simp add: d_def)
  ultimately show ?thesis using s' open_on_frame [OF assms(1) s'(2)] by blast
qed

theorem delete_trn_contents_witness:
  "\<exists>s' sb' m'. delete_trn ''/m'' 2 demo_srv = Some (OK, s') \<and> at_rest s' sb' ''demo'' ''srz'' m' \<and>
     contents s' m' = (contents demo_srv demo_chains)(2 := None) \<and> contents demo_srv demo_chains 2 \<noteq> None"
  using delete_trn_contents [OF demo_open demo_at_rest demo_inv demo_whole demo_2_facts(1,2,4)] demo_contents by auto

text \<open>
  Retrieving brings the entry of a deleted transaction back, as its record has it, and changes no other.
\<close>

theorem retrieve_trn_contents:
  assumes "open_on s name" and "at_rest s sb ln ch m" and "mtg_inv sb m" and "whole s m"
    and "m t = Some c" and "deleted c" and "cb_trn_addr c \<noteq> 0" and "may_edit s c" and "in_file s c"
  shows "\<exists>s' sb' m'. retrieve_trn name t s = Some (OK, s') \<and> at_rest s' sb' ln ch m' \<and> mtg_inv sb' m' \<and> whole s' m' \<and>
    contents s' m' = (contents s m)(t := entry_of s c) \<and> open_on s' name"
proof -
  obtain s' d where s': "retrieve_trn name t s = Some (OK, s')" "op_frame s s'" "rejoins m t c d"
    "cb_flags d = i16 (cb_flags c AND NOT CB_DELETED)" "at_rest s' (super_with d sb) ln ch (linked_in d (m(t \<mapsto> d)))"
    using retrieve_trn_blocks [OF open_on_again [OF assms(1)] assms(2,3,5-8)] by blast
  note f = contents_frame [OF assms(1) s'(2)]
  have d: "cb_flags d AND CB_DELETED = 0" using s'(4) by simp
  from s'(3) have "d = c\<lparr>cb_flags := cb_flags d, cb_prev := cb_prev d, cb_next := cb_next d, cb_pref := cb_pref d, cb_nref := cb_nref d\<rparr>"
    by (simp add: rejoins_def)
  note e = entry_cong [OF arg_cong [OF this, of cb_trn_addr, simplified] arg_cong [OF this, of cb_trn_chain, simplified]]
  have "contents s (m(t \<mapsto> d)) = (contents s m)(t := entry_of s c)" using d by (auto simp: contents_def fun_eq_iff e)
  moreover have "whole s (m(t \<mapsto> d))" using assms(4,9) by (simp add: whole_def e)
  ultimately have "contents s' (linked_in d (m(t \<mapsto> d))) = (contents s m)(t := entry_of s c)" "whole s' (linked_in d (m(t \<mapsto> d)))"
    by (simp_all add: f linked_in_def contents_relinked whole_relinked)
  then show ?thesis using s' retrieve_inv(1) [OF assms(3,5-7) s'(3)] open_on_frame [OF assms(1) s'(2)] by blast
qed

theorem retrieve_trn_contents_witness:
  "\<exists>s1 m1 s' m'. contents s1 m1 2 = None \<and> retrieve_trn ''/m'' 2 s1 = Some (OK, s') \<and>
     contents s' m' 2 = Some \<lparr>en_subject = ''Hi!'', en_author = ''srz'', en_signature = ''srz'',
       en_text = ''hello'' @ [NL], en_chain = 1\<rparr>"
proof -
  define d where "d = demo_2\<lparr>cb_flags := i16 (cb_flags demo_2 OR CB_DELETED)\<rparr>"
  define m1 where "m1 = unlinked demo_2 (demo_chains(2 \<mapsto> d))"
  have d: "deleted d" "d = demo_2\<lparr>cb_flags := cb_flags d\<rparr>" by (simp_all add: d_def)
  obtain s1 where s1: "op_frame demo_srv s1" "at_rest s1 (super_without demo_2 demo_sb) ''demo'' ''srz'' m1"
    using delete_trn_blocks [OF open_on_again [OF demo_open] demo_at_rest demo_inv demo_2_facts(1,2,4)] by (auto simp: d_def m1_def)
  obtain d' where d': "m1 2 = Some d'" "deleted d'" "cb_trn_addr d' = 28" "cb_trn_chain d' = 1"
    by (simp add: m1_def unlinked_def relinked_apply d_def demo_2_facts) (simp add: demo_blocks)
  have e: "may_edit s1 d'"
    using demo_2_facts(4) may_edit_frame [OF demo_open s1(1), of demo_2] by (simp add: may_edit_def d'(3) demo_2_facts(3))
  note f = contents_frame [OF demo_open s1(1)]
  have w: "whole s1 m1" "in_file s1 d'"
    using demo_whole d(1) demo_entry(2) [OF d'(3)] by (simp_all add: f m1_def unlinked_def whole_relinked) (simp add: whole_def)
  have inv: "mtg_inv (super_without demo_2 demo_sb) m1"
    unfolding m1_def by (rule delete_inv(1) [OF demo_inv demo_2_facts(1,2) d])
  have "cb_trn_addr d' \<noteq> 0" "contents s1 m1 2 = None" using d' by (simp_all add: contents_def)
  with retrieve_trn_contents [OF open_on_frame [OF demo_open s1(1)] s1(2) inv w(1) d'(1,2) _ e w(2)] demo_entry(1) [OF d'(3,4)]
  show ?thesis by (metis f(1) fun_upd_same)
qed

end
