(* ===== verification/Add.thy ===== *)
theory Add
  imports Add_parts Contents
begin

text \<open>
  The whole of \<open>add_trn\<close>: the record, the superblock and the commit, and what is read back.
\<close>

subsection \<open>The record\<close>

text \<open>The signature as it is stored, and the subject.\<close>

definition kept_sig :: "string \<Rightarrow> string option \<Rightarrow> string option" where
  "kept_sig author sg = (case sg of None \<Rightarrow> None | Some g \<Rightarrow> if g = [] \<or> g = author then None else Some g)"

definition first_line :: "string \<Rightarrow> string" where
  "first_line subject = takeWhile (\<lambda>c. c \<noteq> NL) subject"

text \<open>A record that can be written at an offset: the lengths are short and the offsets ints.\<close>

definition record_fits :: "nat \<Rightarrow> string \<Rightarrow> string \<Rightarrow> string option \<Rightarrow> bytes \<Rightarrow> bool" where
  "record_fits at subject author sg p \<longleftrightarrow> length subject + 1 < 2 ^ 15 \<and> length (author_text author sg) < 2 ^ 15 \<and>
     at + HDR_SIZE + length subject + 1 + length (author_text author sg) + length p < 2 ^ 31"

text \<open>The header of the record.\<close>

definition record_hdr :: "srv \<Rightarrow> chain_blk \<Rightarrow> string \<Rightarrow> string \<Rightarrow> string option \<Rightarrow> bytes \<Rightarrow> int \<Rightarrow> trn_hdr" where
  "record_hdr s cb subject author sg p prev =
     (new_hdr s cb subject author sg (int (length p)) prev)\<lparr>th_num_lines := count_nl p\<rparr>"

definition record_text :: "srv \<Rightarrow> trn_hdr \<Rightarrow> string \<Rightarrow> string \<Rightarrow> string option \<Rightarrow> bytes \<Rightarrow> bytes" where
  "record_text s th subject author sg p = enc_hdr (disk_hdr s th) @ subject @ [NUL] @ author_text author sg @ p"

lemma length_author: "length (author_text author sg) = length author + 1 + (case sg of None \<Rightarrow> 0 | Some g \<Rightarrow> length g + 1)"
  by (simp add: author_text_def split: option.split)

lemma new_hdr_fields:
  fixes s :: srv and sz prev :: int
  assumes "record_fits at subject author sg p" and "cb_trn_addr cb = int at"
  defines "th \<equiv> new_hdr s cb subject author sg sz prev"
  shows "th_subject_len th = int (length subject) + 1" and "th_author_len th = int (length (author_text author sg))"
    and "th_subject_addr th = int (at + HDR_SIZE)" and "th_author_addr th = int (at + HDR_SIZE + length subject + 1)"
    and "th_text_addr th = int (at + HDR_SIZE + length subject + 1 + length (author_text author sg))"
    and "hdr_lens th subject author sg"
proof -
  have b: "int (length subject) + 1 < 32768" "int (length author) + 1 + (case sg of None \<Rightarrow> 0 | Some g \<Rightarrow> int (length g) + 1) < 32768"
    "int at + 48 + int (length subject) + 1 + int (length author) + 1 + (case sg of None \<Rightarrow> 0 | Some g \<Rightarrow> int (length g) + 1) < 2147483648"
    using assms(1) by (auto simp: record_fits_def length_author mtg_layout split: option.splits)
  show sl: "th_subject_len th = int (length subject) + 1"
    using b by (simp add: th_def new_hdr_def Let_def signed_take_bit_int_eq_self_iff)
  show al: "th_author_len th = int (length (author_text author sg))"
    using b by (cases sg) (simp_all add: th_def new_hdr_def Let_def length_author signed_take_bit_int_eq_self)
  have sa: "th_subject_addr th = i32 (cb_trn_addr cb + int HDR_SIZE)"
    "th_author_addr th = i32 (th_subject_addr th + th_subject_len th)" "th_text_addr th = i32 (th_author_addr th + th_author_len th)"
    by (simp_all add: th_def new_hdr_def Let_def split: option.split)
  have i: "i32 x = x" if "0 \<le> x" "x < 2147483648" for x using that by (simp add: signed_take_bit_int_eq_self)
  show 1: "th_subject_addr th = int (at + HDR_SIZE)"
    unfolding sa(1) assms(2) by (subst i) (use b in \<open>auto simp: mtg_layout split: option.splits\<close>)
  show 2: "th_author_addr th = int (at + HDR_SIZE + length subject + 1)"
    unfolding sa(2) 1 sl by (subst i) (use b in \<open>auto simp: mtg_layout split: option.splits\<close>)
  show "th_text_addr th = int (at + HDR_SIZE + length subject + 1 + length (author_text author sg))"
    unfolding sa(3) 2 al by (subst i) (use b in \<open>auto simp: mtg_layout length_author split: option.splits\<close>)
  show "hdr_lens th subject author sg"
    using sl al by (simp add: hdr_lens_def length_author split: option.split)
qed

subsection \<open>What the call leaves\<close>

definition add_frame :: "srv \<Rightarrow> srv \<Rightarrow> bool" where
  "add_frame s s' \<longleftrightarrow> current_mtg s' = current_mtg s \<and> u_trn_f s' = u_trn_f s \<and> u_control_f s' = u_control_f s \<and>
     mtg_swapped s' = mtg_swapped s \<and> mtg_acl s' = mtg_acl s \<and> has_privs s' = has_privs s \<and>
     read_lock s' = read_lock s \<and> no_nuke s' = no_nuke s \<and> rpc_caller s' = rpc_caller s \<and>
     last_acl_mod s' = last_acl_mod s \<and> links (fs s') = links (fs s) \<and> now (fs s') = now (fs s) \<and>
     (\<forall>d. d \<noteq> u_control_f s \<and> d \<noteq> u_trn_f s \<longrightarrow> inodes (fs s') d = inodes (fs s) d)"

lemma add_frame_trans: "add_frame s s' \<Longrightarrow> add_frame s' s'' \<Longrightarrow> add_frame s s''"
  by (simp add: add_frame_def)

lemma op_add_frame: "op_frame s s' \<Longrightarrow> add_frame s s'"
  using op_frame_fields [of s s'] by (simp add: add_frame_def other_files_def)

lemma trn_add_frame: "trn_only s s' \<Longrightarrow> add_frame s s'"
  using trn_only_fields [of s s'] by (simp add: add_frame_def other_files_def trn_only_def)

lemma add_frame_refl [simp]: "add_frame s (s\<lparr>abort_file := b\<rparr>)" "add_frame s (s\<lparr>us := u\<rparr>)" "add_frame s (s\<lparr>tf := t\<rparr>)"
  by (simp_all add: add_frame_def)

lemma open_on_added:
  assumes "open_on s name" and "add_frame s s'"
  shows "open_on s' name"
  using assms by (auto simp: open_on_def add_frame_def split: option.splits)

lemma editing_abort: "editing (s\<lparr>abort_file := b\<rparr>) ln ch m = editing s ln ch m"
  by (simp add: editing_def rep_def ctl_ok_def ctl_inv_def ctl_view_def)

lemma tclose_only: "\<exists>r c u. tclose s = (r, c, s\<lparr>us := u\<rparr>)"
proof -
  have "\<exists>u. s = s\<lparr>us := u\<rparr>" by (rule exI [of _ "us s"]) simp
  then show ?thesis unfolding tclose_def by (auto split: option.split tkind.split)
qed

subsection \<open>The record and the superblock\<close>

text \<open>The superblock that is written.\<close>

definition super_done :: "mtg_super \<Rightarrow> chain_blk \<Rightarrow> int \<Rightarrow> int \<Rightarrow> mtg_super" where
  "super_done sb cb date len = sb\<lparr>ms_last := cb_current cb,
     ms_first := (if ms_first sb = 0 then cb_current cb else ms_first sb), ms_date_modified := date,
     ms_high_water := i32 (ms_high_water sb + int CHAIN_SIZE), ms_highest_trn_addr := cb_trn_addr cb, ms_trn_fsize := i32 len\<rparr>"

lemma super_done_ok:
  assumes "sb_ok sb" and "names_ok sb ln ch" and "fits 4 (cb_current cb)" and "fits 4 (cb_trn_addr cb)" and "fits 4 date"
  shows "sb_ok (super_done sb cb date len)" and "names_ok (super_done sb cb date len) ln ch"
  using assms by (auto simp: sb_ok_def super_ok_def super_fields_def super_widths_def super_done_def names_ok_def string_area_def)

lemma overwrite_inside:
  assumes "length a = length b"
  shows "overwrite (length xs) b (xs @ a @ ys) = xs @ b @ ys"
  using assms by (cases b) (simp_all add: overwrite_def)

lemma add_strings_stream:
  assumes "add_strings s th subject author sg = (r, s')"
  shows "us s' = us s" and "tf s' = tf s"
proof -
  have w: "us s2 = us s1 \<and> tf s2 = tf s1" if "trn_write s1 pos n b = (q, s2)" for s1 pos n b q s2
    using that by (auto simp: trn_write_def split: if_splits prod.splits)
  have "us s' = us s \<and> tf s' = tf s"
    using assms by (auto simp: add_strings_def Let_def split: prod.splits if_splits option.splits dest!: w)
  then show "us s' = us s" and "tf s' = tf s" by simp_all
qed

lemma add_text_ok:
  assumes ed: "editing s ln ch m" and ne: "u_control_f s \<noteq> u_trn_f s"
    and src: "tf s = Some t" "tfsize t = int (length p)" "stream_src s p"
    and cb: "cb_trn_addr cb = int (length (fdata (fs s) (u_trn_f s)))" "fits 4 (cb_current cb)" and date: "fits 4 date"
    and fit: "record_fits (length (fdata (fs s) (u_trn_f s))) (first_line subject) author (kept_sig author sg) p"
  defines "sb \<equiv> super_done (super s) cb date (int (length (fdata (fs s) (u_trn_f s))) + int (HDR_SIZE + length (first_line subject) + 1 +
      length (author_text author (kept_sig author sg)) + length p))"
    and "th \<equiv> record_hdr (s\<lparr>super := super_done (super s) cb date 0\<rparr>) cb (first_line subject) author (kept_sig author sg) p
      (ms_highest_trn_addr (super s))"
  shows "\<exists>s'. add_text cb subject author sg date s = Some (OK, Some (cb_current cb), s') \<and> at_rest s' sb ln ch m \<and>
    fdata (fs s') (u_trn_f s) = fdata (fs s) (u_trn_f s) @ record_text s th (first_line subject) author (kept_sig author sg) p \<and>
    add_frame s s'"
proof -
  define D where "D = fdata (fs s) (u_trn_f s)"
  define sj where "sj = first_line subject"
  define kg where "kg = kept_sig author sg"
  have fadr: "fits 4 (cb_trn_addr cb)" using fit by (simp add: cb(1) record_fits_def fits_def)
  have ok: "sb_ok (super s)" "names_ok (super s) ln ch" and ft: "faults (fs s) = []"
    using ed by (simp_all add: editing_def rep_def ctl_ok_def)
  define L where "L = length D"
  define sb1 where "sb1 = (super_done (super s) cb date 0)\<lparr>ms_trn_fsize := ms_trn_fsize (super s)\<rparr>"
  define s1 where "s1 = s\<lparr>super := sb1\<rparr>"
  define th0 where "th0 = new_hdr s1 cb sj author kg (int (length p)) (ms_highest_trn_addr (super s))"
  have th: "th = th0\<lparr>th_num_lines := count_nl p\<rparr>" "th_num_chars th0 = int (length p)" "th_num_lines th0 = 0"
    by (simp_all add: th_def record_hdr_def th0_def new_hdr_def Let_def s1_def sb1_def super_done_def flip: sj_def kg_def)
  note hl = new_hdr_fields(6) [OF fit cb(1), of s1 "int (length p)" "ms_highest_trn_addr (super s)", folded sj_def kg_def, folded th0_def]
  have f1: "fs s1 = fs s" "u_trn_f s1 = u_trn_f s" "u_control_f s1 = u_control_f s" "mtg_swapped s1 = mtg_swapped s"
    "us s1 = us s" "tf s1 = tf s" "super s1 = sb1" by (simp_all add: s1_def)
  have e1: "editing s1 ln ch m"
    unfolding s1_def by (rule editing_new_super [OF ed])
      (use super_done_ok [OF ok cb(2) fadr date, of 0] ok in \<open>simp_all add: sb1_def, simp_all add: super_done_def sb_ok_def super_ok_def
        super_fields_def super_widths_def names_ok_def string_area_def\<close>)
  from add_strings_ok [OF _ hl, of s1] ft obtain s2 where
    s2: "add_strings s1 th0 sj author kg = (Some (L + HDR_SIZE + length sj + 1 + length (author_text author kg)), s2)"
      "grown s1 (enc_hdr (disk_hdr s th0) @ sj @ [NUL] @ author_text author kg) s2"
    by (auto simp: f1 disk_hdr_def D_def L_def)
  have "stream_src s2 p"
    using src(3) stream_src_trn_only [of s1 s2 p] stream_src_cong [of s1 s p] add_strings_stream [OF s2(1)] s2(2)
    by (simp add: f1 grown_def)
  from copy_loop_ok [OF this s2(2), of "L + HDR_SIZE + length sj + 1 + length (author_text author kg)" 0] obtain s3 where
    s3: "copy_loop (int (length p)) (L + HDR_SIZE + length sj + 1 + length (author_text author kg)) 0 s2 = Some (OK, count_nl p, s3)"
      "grown s1 ((enc_hdr (disk_hdr s th0) @ sj @ [NUL] @ author_text author kg) @ p) s3"
    by (auto simp: f1 D_def L_def add.assoc)
  obtain r c u where cl: "tclose s3 = (r, c, s3\<lparr>us := u\<rparr>)" using tclose_only by blast
  define s4 where "s4 = s3\<lparr>us := u, abort_file := False\<rparr>"
  have t3: "trn_only s1 s3" "fdata (fs s3) (u_trn_f s) = D @ enc_hdr (disk_hdr s th0) @ (sj @ [NUL] @ author_text author kg @ p)"
    using s3(2) by (simp_all add: grown_def f1 D_def)
  note f3 = trn_only_fields [OF t3(1)]
  have e3: "editing s3 ln ch m" by (rule editing_trn_only [OF e1 _ t3(1)]) (simp add: f1 ne)
  have ft3: "faults (fs s3) = []" using t3(1) by (simp add: trn_only_def)
  have t3u: "trn_only s3 (s3\<lparr>us := u\<rparr>)" using ft3 by (simp add: trn_only_def)
  have e4: "editing s4 ln ch m"
    using editing_trn_only [OF e3 _ t3u] ne by (simp add: s4_def editing_abort f3 f1)
  have ft4: "faults (fs s4) = []" using ft3 by (simp add: s4_def)
  obtain q s5 where s5: "trn_write s4 L (int HDR_SIZE) (enc_hdr (disk_hdr s th)) = (q, s5)" by fastforce
  have lh: "length (enc_hdr x) = HDR_SIZE" for x by simp
  have d5: "q = int HDR_SIZE" "fdata (fs s5) (u_trn_f s) = D @ record_text s th sj author kg p"
    using s5 ft4 t3(2) overwrite_inside [of "enc_hdr (disk_hdr s th0)" "enc_hdr (disk_hdr s th)" D "sj @ [NUL] @ author_text author kg @ p"]
    by (auto simp: trn_write_def sys_write_ok L_def record_text_def s4_def f3 f1)
  note t5 = trn_write_only [OF s5 ft4]
  note f5 = trn_only_fields [OF t5(1)]
  have f4: "u_trn_f s4 = u_trn_f s" "u_control_f s4 = u_control_f s" "super s4 = sb1" "mtg_swapped s4 = mtg_swapped s"
    by (simp_all add: s4_def f3 f1)
  have e5: "editing s5 ln ch m" by (rule editing_trn_only [OF e4 _ t5(1)]) (simp add: f4 ne)
  have sb: "sb1\<lparr>ms_trn_fsize := fsize (fs s5) (u_trn_f s)\<rparr> = sb"
    by (simp add: sb_def sb1_def super_done_def fsize_def d5 record_text_def D_def [symmetric] sj_def [symmetric] kg_def [symmetric] algebra_simps)
  have "editing (s5\<lparr>super := sb\<rparr>) ln ch m"
    by (rule editing_new_super [OF e5]) (use super_done_ok [OF ok cb(2) fadr date] in \<open>simp_all add: sb_def f5 f4, simp_all add: sb1_def super_done_def\<close>)
  from edit_end [OF this] obtain s6 where s6: "write_super (s5\<lparr>super := sb\<rparr>) = Some s6" "at_rest (end_atomic s6) sb ln ch m"
    "op_frame (s5\<lparr>super := sb\<rparr>) (end_atomic s6)" by auto
  have fr: "op_frame s5 (end_atomic s6)" using op_frame_trans [OF op_frame_steps(3) s6(3)] .
  define sb0 where "sb0 = (super s)\<lparr>ms_last := cb_current cb,
    ms_first := (if ms_first (super s) = 0 then cb_current cb else ms_first (super s)), ms_date_modified := date,
    ms_high_water := i32 (ms_high_water (super s) + int CHAIN_SIZE)\<rparr>"
  have A: "new_hdr (s\<lparr>super := sb0\<rparr>) cb sj author kg (int (length p)) (ms_highest_trn_addr sb0) = th0"
    by (simp add: th0_def new_hdr_def s1_def sb1_def sb0_def super_done_def)
  have B: "s\<lparr>super := sb0\<lparr>ms_highest_trn_addr := cb_trn_addr cb\<rparr>\<rparr> = s1"
    by (simp add: s1_def sb1_def sb0_def super_done_def)
  have C: "disk_hdr s4 (th0\<lparr>th_num_lines := count_nl p\<rparr>) = disk_hdr s th"
    by (simp add: disk_hdr_def f4 th)
  have "add_text cb subject author sg date s = Some (OK, Some (cb_current cb), end_atomic s6)"
    unfolding add_text_def Let_def [of "super s"] Let_def [of "s\<lparr>super := _\<rparr>"]
    unfolding sb0_def [symmetric] sj_def [unfolded first_line_def, symmetric] kg_def [unfolded kept_sig_def, symmetric]
    by (simp add: src(1,2) A B s2(1) s3(1) [simplified] th cl, simp add: cb(1) s5 d5(1) f5 f4 sb s6(1) C flip: D_def L_def s4_def)
  moreover have "fdata (fs (end_atomic s6)) (u_trn_f s) = D @ record_text s th sj author kg p"
    using d5(2) op_frame_fields(14) [OF fr] ne unfolding other_files_def f5 f4 by metis
  moreover have "add_frame s (end_atomic s6)"
    by (rule add_frame_trans [OF _ op_add_frame [OF fr]], rule add_frame_trans [OF _ trn_add_frame [OF t5(1)]])
      (use trn_add_frame [OF t3(1)] in \<open>simp add: add_frame_def s1_def s4_def\<close>)
  ultimately show ?thesis using s6(2) by (auto simp: D_def sj_def kg_def)
qed

subsection \<open>Reading it back\<close>

lemma count_nl_bounds: "0 \<le> count_nl p" "count_nl p \<le> int (length p)"
  by (simp_all add: count_nl_def)

lemma record_hdr_ok:
  assumes "record_fits at subject author sg p" and "cb_trn_addr cb = int at" and "fits 4 (cb_current cb)" and "fits 4 (cb_pref cb)"
    and "fits 4 (ms_date_modified (super s))" and "fits 4 prev"
  shows "hdr_ok (record_hdr s cb subject author sg p prev)"
proof -
  have b: "at + 48 + length subject + 1 + length (author_text author sg) + length p < 2147483648"
    "length subject + 1 < 32768" "length (author_text author sg) < 32768" using assms(1) by (simp_all add: record_fits_def mtg_layout)
  let ?th = "record_hdr s cb subject author sg p prev"
  have f: "th_version ?th = TRN_HDR_1" "th_unique ?th = TRN_HDR_UNIQUE" "th_current ?th = cb_current cb" "th_orig_pref ?th = cb_pref cb"
    "th_date_entered ?th = ms_date_modified (super s)" "th_num_lines ?th = count_nl p" "th_num_chars ?th = int (length p)"
    "th_prev_trn ?th = prev" by (simp_all add: record_hdr_def new_hdr_def Let_def)
  have g: "th_subject_len ?th = int (length subject) + 1" "th_author_len ?th = int (length (author_text author sg))"
    "th_subject_addr ?th = int (at + HDR_SIZE)" "th_author_addr ?th = int (at + HDR_SIZE + length subject + 1)"
    "th_text_addr ?th = int (at + HDR_SIZE + length subject + 1 + length (author_text author sg))"
    using new_hdr_fields [OF assms(1,2)] by (simp_all add: record_hdr_def)
  show ?thesis
    using assms(3-) b count_nl_bounds [of p] unfolding hdr_ok_def hdr_fields_def hdr_widths_def f g
    by (auto simp: fits_def mtg_consts mtg_layout)
qed

text \<open>Everything of the record that is in the file after \<open>D\<close>.\<close>

lemma record_slices:
  assumes "v = D @ h @ x @ y @ z" and "length h = HDR_SIZE"
  shows "slice (length D) HDR_SIZE v = h" and "slice (length D + HDR_SIZE) (length x) v = x"
    and "slice (length D + HDR_SIZE + length x) (length y) v = y"
    and "slice (length D + HDR_SIZE + length x + length y) (length z) v = z"
  using assms by (simp_all add: slice_def)

lemma signature_author:
  assumes "c_ok author" and "\<And>g. sg = Some g \<Longrightarrow> c_ok g" and "th_author_len th = int (length (author_text author sg))"
  shows "signature_of th (author_text author sg) = Some (case sg of None \<Rightarrow> author | Some g \<Rightarrow> g)"
  using assms by (cases sg) (simp_all add: signature_of_def author_text_def c_string_def cstr_append)

lemma read_record:
  assumes "record_fits (length D) subject author sg p" and "cb_trn_addr cb = int (length D)" 
    and th: "th = record_hdr s0 cb subject author sg p prev" and "hdr_ok th"
    and "c_ok author" and "\<And>g. sg = Some g \<Longrightarrow> c_ok g"
    and "fdata (fs s) (u_trn_f s) = D @ record_text s th subject author sg p"
  shows "read_trn s (int (length D)) True True True =
      Some (OK, th, subject @ [NUL], author_text author sg, case sg of None \<Rightarrow> author | Some g \<Rightarrow> g)"
    and "trn_read s (th_text_addr th) (th_num_chars th) = Some p"
proof -
  have f: "th_version th = TRN_HDR_1" "th_unique th = TRN_HDR_UNIQUE" "th_num_chars th = int (length p)"
    by (simp_all add: th record_hdr_def new_hdr_def Let_def)
  have g: "th_subject_len th = int (length (subject @ [NUL]))" "th_author_len th = int (length (author_text author sg))"
    "th_subject_addr th = int (length D + HDR_SIZE)" "th_author_addr th = int (length D + HDR_SIZE + length (subject @ [NUL]))"
    "th_text_addr th = int (length D + HDR_SIZE + length (subject @ [NUL]) + length (author_text author sg))"
    using new_hdr_fields [OF assms(1,2)] by (simp_all add: th record_hdr_def)
  have "fdata (fs s) (u_trn_f s) = D @ enc_hdr (disk_hdr s th) @ (subject @ [NUL]) @ author_text author sg @ p"
    using assms(7) by (simp add: record_text_def)
  note sl = record_slices [OF this length_enc_structs(4)]
  have tr: "trn_read s (int a) (int n) = Some (slice a n (fdata (fs s) (u_trn_f s)))" for a n
    by (simp add: trn_read_def sys_read_def)
  have d: "(if mtg_swapped s then swap_trn (dec_hdr (enc_hdr (disk_hdr s th))) else dec_hdr (enc_hdr (disk_hdr s th))) = th"
    using assms(4) by (simp add: disk_hdr_def dec_enc_hdr)
  show "read_trn s (int (length D)) True True True =
      Some (OK, th, subject @ [NUL], author_text author sg, case sg of None \<Rightarrow> author | Some g \<Rightarrow> g)"
    unfolding read_trn_def tr sl Let_def bind.bind_lunit length_enc_structs d f
    by (simp only: g tr sl) (simp add: signature_author [where sg = sg, OF assms(5,6) g(2)])
  show "trn_read s (th_text_addr th) (th_num_chars th) = Some p"
    unfolding f g tr sl ..
qed

text \<open>The header, field by field: of a record with a number, at a place of the file.\<close>

definition filed_hdr :: "int \<Rightarrow> int \<Rightarrow> int \<Rightarrow> int \<Rightarrow> nat \<Rightarrow> string \<Rightarrow> string \<Rightarrow> string option \<Rightarrow> bytes \<Rightarrow> trn_hdr" where
  "filed_hdr t pref date prev at subject author sg p =
     \<lparr>th_version = TRN_HDR_1, th_unique = TRN_HDR_UNIQUE, th_current = t, th_orig_pref = pref, th_date_entered = date,
      th_num_lines = count_nl p, th_num_chars = int (length p), th_prev_trn = prev, th_subject_addr = int (at + HDR_SIZE),
      th_author_addr = int (at + HDR_SIZE + length subject + 1),
      th_text_addr = int (at + HDR_SIZE + length subject + 1 + length (author_text author sg)),
      th_subject_len = int (length subject) + 1, th_author_len = int (length (author_text author sg))\<rparr>"

lemma record_hdr_filed:
  assumes "record_fits at subject author sg p" and "cb_trn_addr cb = int at"
  shows "record_hdr s cb subject author sg p prev =
    filed_hdr (cb_current cb) (cb_pref cb) (ms_date_modified (super s)) prev at subject author sg p"
  using new_hdr_fields(1-5) [OF assms, of s "int (length p)" prev]
  by (intro trn_hdr.equality) (simp_all add: record_hdr_def filed_hdr_def, simp_all add: new_hdr_def Let_def)

subsection \<open>The call\<close>

text \<open>The client sends the text \<open>p\<close>: opening the file object for reading gives \<open>s1\<close>, from which it can be read.\<close>

definition sends :: "srv \<Rightarrow> bytes \<Rightarrow> srv \<Rightarrow> bool" where
  "sends s p s1 \<longleftrightarrow> topen CHR ''r'' s = Some (0, OK, s1) \<and> (\<exists>t. tf s1 = Some t \<and> tfsize t = int (length p)) \<and> stream_src s1 p"

lemma topen_only:
  assumes "topen mode s = Some (r, c, s1)"
  shows "\<exists>u t. s1 = s\<lparr>us := u, tf := t\<rparr>"
proof -
  have "s1 = s \<or> s1 = s\<lparr>us := us s1, tf := tf s1\<rparr>"
    using assms by (auto simp: topen_def set_kind_def split: option.splits tkind.splits bind_splits)
  moreover have "s = s\<lparr>us := us s, tf := tf s\<rparr>" by simp
  ultimately show ?thesis by metis
qed

text \<open>A caller who may add to the open meeting: a reply to a live transaction, or a new chain.\<close>

definition may_add :: "srv \<Rightarrow> chains \<Rightarrow> int \<Rightarrow> bool" where
  "may_add s m reply \<longleftrightarrow> has_mtg_access s (if reply \<noteq> 0 then CHR ''a'' else CHR ''w'') = Some True \<and>
     (reply = 0 \<or> (\<exists>r. m reply = Some r \<and> \<not> deleted r))"

lemma add_start_ok:
  assumes "topen CHR ''r'' s = Some (0, OK, s1)" and "open_on s name" and "at_rest s sb ln ch m" and "may_add s m reply"
    and "ms_date_created sb \<noteq> 0"
  defines "s2 \<equiv> with_super sb ln ch (begin_atomic (s1\<lparr>abort_file := True\<rparr>))"
  shows "\<exists>rb. add_start name reply s = Some (OK, rb, s2) \<and> reply_ok m reply rb" and "editing s2 ln ch m" and "super s2 = sb"
    and "add_frame s s2" and "fs s2 = fs s" and "tf s2 = tf s1" and "us s2 = us s1"
proof -
  define s3 where "s3 = s1\<lparr>abort_file := True\<rparr>"
  obtain u t where s1: "s1 = s\<lparr>us := u, tf := t\<rparr>" using topen_only [OF assms(1)] by blast
  have f3: "add_frame s s3" "fs s3 = fs s" by (simp_all add: add_frame_def s3_def s1)
  have o: "open_mtg name s3 = Some (OK, s3)" using open_on_again [OF open_on_added [OF assms(2) f3(1)]] .
  have r: "at_rest s3 sb ln ch m" using assms(3) by (simp add: at_rest_def s3_def s1)
  note e = edit_begin [OF r]
  have s2: "s2 = with_super sb ln ch (begin_atomic s3)" by (simp add: s2_def s3_def)
  show ed: "editing s2 ln ch m" and sp: "super s2 = sb" using e(2,4) by (simp_all add: s2)
  show "add_frame s s2" using add_frame_trans [OF f3(1) op_add_frame [OF e(3)]] by (simp add: s2)
  show "fs s2 = fs s" "tf s2 = tf s1" "us s2 = us s1" by (simp_all add: s2 with_super_def begin_atomic_def f3(2)) (simp_all add: s3_def)
  have a: "has_mtg_access s3 = has_mtg_access s" by (rule access_cong) (simp_all add: s3_def s1)
  show "\<exists>rb. add_start name reply s = Some (OK, rb, s2) \<and> reply_ok m reply rb"
  proof (cases "reply = 0")
    case True
    then show ?thesis
      using assms(1,4,5) by (simp add: add_start_def o e(1) a may_add_def reply_ok_def sp flip: s3_def s2)
  next
    case False
    with assms(4) obtain b where b: "m reply = Some b" "\<not> deleted b" by (auto simp: may_add_def)
    have "read_chain s2 reply None = Some (OK, Some b)"
      by (rule read_chain_rep [where m = m, OF _ b(1)]) (use ed in \<open>simp add: editing_def\<close>)
    with False b assms(1,4,5) show ?thesis
      by (auto simp: add_start_def o e(1) a may_add_def reply_ok_def sp simp flip: s3_def s2)
  qed
qed

text \<open>The state in which a transaction can be added, with room for it in both files.\<close>

definition add_ready :: "srv \<Rightarrow> string \<Rightarrow> mtg_super \<Rightarrow> string \<Rightarrow> string \<Rightarrow> chains \<Rightarrow> int \<Rightarrow> bool" where
  "add_ready s name sb ln ch m reply \<longleftrightarrow> open_on s name \<and> at_rest s sb ln ch m \<and> mtg_inv sb m \<and> may_add s m reply \<and>
     ms_date_created sb \<noteq> 0 \<and> ms_chain_start sb + (ms_highest sb + 1) * int CHAIN_SIZE \<le> int ALIMIT \<and>
     fdata (fs s) (u_trn_f s) \<noteq> [] \<and> c_ok (rpc_caller s)"

lemma first_line_ok: "c_ok subject \<Longrightarrow> c_ok (first_line subject)"
  by (auto simp: c_ok_def first_line_def dest: set_takeWhileD)

lemma mtg_inv_cong:
  assumes "mtg_inv sb m" and "ms_highest sb' = ms_highest sb" and "ms_highest_chain sb' = ms_highest_chain sb"
    and "ms_first sb' = ms_first sb" and "ms_last sb' = ms_last sb"
  shows "mtg_inv sb' m"
  using assms by (simp add: mtg_inv_def)

lemma add_trn_priv_ok:
  assumes rd: "add_ready s name sb ln ch m reply" and src: "sends s p s1"
    and fit: "record_fits (length (fdata (fs s) (u_trn_f s))) (first_line subject) author (kept_sig author sg) p"
    and sg: "\<And>g. sg = Some g \<Longrightarrow> c_ok g" and sj: "c_ok subject" and wh: "whole s m"
    and au: "c_ok author" and date: "fits 4 date" and want: "desired \<le> ms_highest sb + 1"
  defines "t \<equiv> ms_highest sb + 1"
  shows "\<exists>s' sb' m'. add_trn_priv name subject sg reply desired author date 0 s = Some (OK, Some t, s') \<and>
    at_rest s' sb' ln ch m' \<and> mtg_inv sb' m' \<and> live m' = insert t (live m) \<and> whole s' m' \<and>
    contents s' m' = (contents s m)(t \<mapsto> \<lparr>en_subject = first_line subject, en_author = author,
      en_signature = (case kept_sig author sg of None \<Rightarrow> author | Some g \<Rightarrow> g), en_text = p,
      en_chain = (if reply = 0 then ms_highest_chain sb + 1 else cb_trn_chain (the (m reply)))\<rparr>) \<and> add_frame s s' \<and>
    ms_date_created sb' = ms_date_created sb \<and> fdata (fs s') (u_trn_f s) \<noteq> [] \<and>
    (filed s m \<longrightarrow> filed s' m' \<and> posts s' m' = (posts s m)(t := contents s' m' t)) \<and>
    (\<exists>pref. (if reply = 0 then pref = 0 else \<exists>c. m pref = Some c \<and> cb_trn_chain c = cb_trn_chain (the (m reply))) \<and>
       fdata (fs s') (u_trn_f s) = fdata (fs s) (u_trn_f s) @ record_text s
         (filed_hdr t pref date (ms_highest_trn_addr sb) (length (fdata (fs s) (u_trn_f s))) (first_line subject) author (kept_sig author sg) p)
         (first_line subject) author (kept_sig author sg) p) \<and>
    ms_highest sb' = t \<and> ms_highest_trn_addr sb' = int (length (fdata (fs s) (u_trn_f s))) \<and>
    ms_highest_chain sb' = (if reply = 0 then ms_highest_chain sb + 1 else ms_highest_chain sb) \<and> ms_chain_start sb' = ms_chain_start sb"
proof -
  from rd have r: "open_on s name" "at_rest s sb ln ch m" "mtg_inv sb m" "may_add s m reply" "ms_date_created sb \<noteq> 0"
    "ms_chain_start sb + (ms_highest sb + 1) * int CHAIN_SIZE \<le> int ALIMIT" "fdata (fs s) (u_trn_f s) \<noteq> []" "c_ok (rpc_caller s)"
    by (simp_all add: add_ready_def)
  from src obtain tf1 where to: "topen CHR ''r'' s = Some (0, OK, s1)" and t1: "tf s1 = Some tf1" "tfsize tf1 = int (length p)"
    and st: "stream_src s1 p" by (auto simp: sends_def)
  define s2 where "s2 = with_super sb ln ch (begin_atomic (s1\<lparr>abort_file := True\<rparr>))"
  note a = add_start_ok [OF to r(1,2,4,5), folded s2_def]
  obtain rb where rb: "add_start name reply s = Some (OK, rb, s2)" "reply_ok m reply rb" using a(1) by blast
  from a(4) have f2: "u_trn_f s2 = u_trn_f s" "u_control_f s2 = u_control_f s" by (simp_all add: add_frame_def)
  have room: "room_for s2" using r(6,7) fit by (auto simp: room_for_def a(3,5) f2 record_fits_def)
  define cb where "cb = next_block s2 m reply rb"
  have inv: "mtg_inv (super s2) m" using r(3) by (simp add: a(3))
  note nb = next_block_fresh [OF a(2) inv room rb(2), folded cb_def]
  have cur: "cb_current cb = t" using nb(1) by (simp add: fresh_def a(3) t_def)
  from add_chain_ok [OF a(2) inv room rb(2) want [folded a(3)], folded cb_def] obtain s3 where
    s3: "add_chain reply desired 0 rb s2 = Some (OK, cb, s3)" "editing s3 ln ch (linked_in cb (m(t \<mapsto> cb)))" "op_frame s2 s3"
      "super s3 = super_next sb reply" by (auto simp: a(3) t_def)
  define m' where "m' = linked_in cb (m(t \<mapsto> cb))"
  note f3 = op_frame_fields [OF s3(3)]
  have ne: "u_control_f s \<noteq> u_trn_f s" using r(1) by (simp add: open_on_def)
  have d3: "fdata (fs s3) (u_trn_f s3) = fdata (fs s) (u_trn_f s)"
    using f3(14) ne a(5) unfolding other_files_def f3 f2 by metis
  define L where "L = length (fdata (fs s) (u_trn_f s))"
  have adr: "cb_trn_addr cb = int L"
    using room_fsize [OF room] by (simp add: cb_def next_block_def new_block_def a(5) f2 L_def)
  have fcur: "fits 4 (cb_current cb)" "fits 4 (cb_pref cb)" using blk_ok_fits [OF nb(2)] by simp_all
  define kg where "kg = kept_sig author sg"
  define th where "th = record_hdr (s3\<lparr>super := super_done (super s3) cb date 0\<rparr>) cb (first_line subject) author kg p
    (ms_highest_trn_addr (super s3))"
  obtain u1 f1 where s1: "s1 = s\<lparr>us := u1, tf := f1\<rparr>" using topen_only [OF to] by blast
  have "stream_src s3 p = stream_src s1 p"
    by (rule stream_src_cong) (use f3(1,2,14) a(5-7) in \<open>simp_all add: f3 f2 other_files_def\<close>, simp_all add: s1)
  then have st3: "tf s3 = Some tf1" "stream_src s3 p" using t1 st f3(1,2) a(6) by simp_all
  have fit3: "record_fits L (first_line subject) author kg p" using fit by (simp add: L_def kg_def)
  from add_text_ok [OF s3(2) _ st3(1) t1(2) st3(2) _ fcur(1) date, of subject author sg] adr fit3 obtain s' sb' where
    s': "add_text cb subject author sg date s3 = Some (OK, Some t, s')" "at_rest s' sb' ln ch m'"
      "fdata (fs s') (u_trn_f s) = fdata (fs s) (u_trn_f s) @ record_text s3 th (first_line subject) author kg p" "add_frame s3 s'"
      and sb': "\<exists>len. sb' = super_done (super s3) cb date len"
    using ne d3 by (auto simp: f3 f2 L_def cur th_def kg_def m'_def)
  have call: "add_trn_priv name subject sg reply desired author date 0 s = Some (OK, Some t, s')"
    by (simp add: add_trn_priv_def rb(1) s3(1) s'(1))
  have chain: "reply = 0 \<Longrightarrow> cb_trn_chain cb = ms_highest_chain sb + 1"
    "reply \<noteq> 0 \<Longrightarrow> m reply = Some r \<Longrightarrow> cb_trn_chain cb = cb_trn_chain r"
    "reply \<noteq> 0 \<Longrightarrow> cb_trn_chain cb \<le> ms_highest_chain sb" for r
    using rb(2) mtg_inv_live(3) [OF r(3)] by (auto simp: cb_def next_block_def a(3) reply_ok_def)
  have sa: "ms_highest sb' = ms_highest (super_added cb sb)" "ms_highest_chain sb' = ms_highest_chain (super_added cb sb)"
    "ms_first sb' = ms_first (super_added cb sb)" "ms_last sb' = ms_last (super_added cb sb)"
    using sb' chain s3(4) cur by (auto simp: super_done_def super_added_def super_next_def t_def max_def)
  have t': "t = cb_current cb" by (simp add: cur)
  have fr: "fresh sb m cb" using nb(1) by (simp add: a(3))
  have inv': "mtg_inv sb' m'" "live m' = insert t (live m)"
    using mtg_inv_cong [OF add_inv(1) [OF r(3) fr t'] sa] add_inv(2) [OF r(3) fr t'] by (simp_all add: m'_def)
  have "hdr_ok th"
    unfolding th_def by (rule record_hdr_ok [OF fit3 adr fcur]) 
     (use s3(2) date in \<open>auto simp: super_done_def editing_def rep_def sb_ok_def super_ok_def super_fields_def super_widths_def\<close>)
  moreover have "c_ok g" if "kg = Some g" for g
    using that sg by (auto simp: kg_def kept_sig_def split: option.splits if_splits)
  moreover have "record_text s3 th (first_line subject) author kg p = record_text s' th (first_line subject) author kg p" "u_trn_f s' = u_trn_f s"
    using s'(4) by (simp_all add: add_frame_def record_text_def disk_hdr_def f3 f2)
  ultimately have rr: "read_trn s' (int L) True True True =
      Some (OK, th, first_line subject @ [NUL], author_text author kg, case kg of None \<Rightarrow> author | Some g \<Rightarrow> g)"
    "trn_read s' (th_text_addr th) (th_num_chars th) = Some p"
    using read_record [where D = "fdata (fs s) (u_trn_f s)" and s = s' and cb = cb and th = th and sg = kg and author = author
       and p = p and subject = "first_line subject", OF _ _ th_def _ au] fit3 adr s'(3)
    by (simp_all add: L_def)
  define en where "en = \<lparr>en_subject = first_line subject, en_author = author,
      en_signature = (case kg of None \<Rightarrow> author | Some g \<Rightarrow> g), en_text = p, en_chain = cb_trn_chain cb\<rparr>"
  have nf: "th_subject_len th = int (length (first_line subject @ [NUL]))" "th_author_len th = int (length (author_text author kg))"
    "th_num_chars th = int (length p)"
    using new_hdr_fields [OF fit3 adr] by (simp_all add: th_def record_hdr_def) (simp add: new_hdr_def Let_def)
  have ca: "c_string (Some (author_text author kg)) = Some author" "c_string (Some (first_line subject @ [NUL])) = Some (first_line subject)"
    using au sj first_line_ok by (simp_all add: c_string_def author_text_def cstr_append)
  have new: "entry_of s' cb = Some en"
    by (simp add: entry_of_def adr rr ca en_def)
  then have new2: "in_file s' cb"
    using nf rr(2) by (simp add: in_file_def adr rr(1))
  have old': "in_file s' c" "entry_of s' c = entry_of s c" if "in_file s c" for c
  proof -
    have "u_trn_f s' = u_trn_f s" "mtg_swapped s' = mtg_swapped s" using add_frame_trans [OF add_frame_trans [OF a(4) op_add_frame [OF s3(3)]] s'(4)]
      by (simp_all add: add_frame_def)
    with that show "in_file s' c" "entry_of s' c = entry_of s c" using in_file_append [OF _ _ _ s'(3)] by blast+
  qed
  have old: "in_file s' c" "entry_of s' c = entry_of s c" if "m u = Some c" "\<not> deleted c" for u c
    using old' wh that by (auto simp: whole_def split: option.splits)
  have "deleted cb = False" using fr by (simp add: fresh_def)
  moreover have "whole s' (m(t \<mapsto> cb))"
    using new2 old by (auto simp: whole_def split: option.split)
  then have "whole s' m'" by (simp add: m'_def linked_in_def whole_relinked)
  moreover have "contents s' (m(t \<mapsto> cb)) = (contents s m)(t \<mapsto> en)"
    using old new \<open>deleted cb = False\<close> by (auto simp: contents_def fun_eq_iff split: bind_splits)
  then have "contents s' m' = (contents s m)(t \<mapsto> en)" by (simp add: m'_def linked_in_def contents_relinked)
  moreover have "add_frame s s'" using add_frame_trans [OF add_frame_trans [OF a(4) op_add_frame [OF s3(3)]] s'(4)] .
  moreover have "cb_trn_chain cb = (if reply = 0 then ms_highest_chain sb + 1 else cb_trn_chain (the (m reply)))"
    using chain r(4) by (auto simp: may_add_def)
  moreover have "ms_date_created sb' = ms_date_created sb" using sb' s3(4) by (auto simp: super_done_def super_next_def)
  moreover have "fdata (fs s') (u_trn_f s) \<noteq> []" using s'(3) r(7) by simp
  moreover have "filed s' m' \<and> posts s' m' = (posts s m)(t \<mapsto> en)" if "filed s m"
  proof -
    have k: "in_file s c" "cb_trn_addr c \<noteq> 0" if "m u = Some c" for u c
      using \<open>filed s m\<close> that by (auto simp: filed_def split: option.splits)
    have "cb_trn_addr cb \<noteq> 0" using adr r(7) by (simp add: L_def)
    with new2 old' k have "filed s' (m(t \<mapsto> cb))" by (auto simp: filed_def split: option.split)
    moreover have "posts s' (m(t \<mapsto> cb)) = (posts s m)(t \<mapsto> en)"
      using old'(2) [OF k(1)] new by (auto simp: posts_def fun_eq_iff split: bind_splits)
    ultimately show ?thesis by (simp add: m'_def linked_in_def filed_relinked posts_relinked)
  qed
  moreover have rest: "(\<exists>pref. (if reply = 0 then pref = 0 else \<exists>c. m pref = Some c \<and> cb_trn_chain c = cb_trn_chain (the (m reply))) \<and>
       fdata (fs s') (u_trn_f s) = fdata (fs s) (u_trn_f s) @ record_text s
         (filed_hdr t pref date (ms_highest_trn_addr sb) L (first_line subject) author kg p) (first_line subject) author kg p)"
    "ms_highest sb' = t" "ms_highest_trn_addr sb' = int L"
    "ms_highest_chain sb' = (if reply = 0 then ms_highest_chain sb + 1 else ms_highest_chain sb)" "ms_chain_start sb' = ms_chain_start sb"
  proof -
    have "record_text s3 th (first_line subject) author kg p = record_text s th (first_line subject) author kg p"
      by (simp add: record_text_def disk_hdr_def f3) (use a(4) in \<open>simp add: add_frame_def\<close>)
    moreover have "th = filed_hdr t (cb_pref cb) date (ms_highest_trn_addr sb) L (first_line subject) author kg p"
      unfolding th_def record_hdr_filed [OF fit3 adr] using s3(4) by (simp add: cur super_done_def super_next_def)
    moreover have "if reply = 0 then cb_pref cb = 0 else \<exists>c. m (cb_pref cb) = Some c \<and> cb_trn_chain c = cb_trn_chain (the (m reply))"
    proof (cases "reply = 0")
      case False
      with nb(3) fr have "cb_pref cb \<in> live_chain m (cb_trn_chain cb)" by (auto simp: fresh_def greatest_def)
      with False chain r(4) show ?thesis by (auto simp: live_chain_def may_add_def)
    qed (simp add: cb_def next_block_def)
    ultimately show "\<exists>pref. (if reply = 0 then pref = 0 else \<exists>c. m pref = Some c \<and> cb_trn_chain c = cb_trn_chain (the (m reply))) \<and>
       fdata (fs s') (u_trn_f s) = fdata (fs s) (u_trn_f s) @ record_text s
         (filed_hdr t pref date (ms_highest_trn_addr sb) L (first_line subject) author kg p) (first_line subject) author kg p"
      using s'(3) by (intro exI [of _ "cb_pref cb"]) simp
    show "ms_highest sb' = t" "ms_highest_trn_addr sb' = int L"
      "ms_highest_chain sb' = (if reply = 0 then ms_highest_chain sb + 1 else ms_highest_chain sb)" "ms_chain_start sb' = ms_chain_start sb"
      using sb' s3(4) adr by (auto simp: super_done_def super_next_def t_def)
  qed
  ultimately show ?thesis
    using call s'(2) inv' rest unfolding en_def kg_def by (intro exI [of _ s'] exI [of _ sb'] exI [of _ m']) (simp add: L_def)
qed

text \<open>The caller's name, the time and the number 0 are always possible.\<close>

lemma added_now:
  shows "add_ready s name sb ln ch m reply \<Longrightarrow> c_ok (rpc_caller s)" and "fits 4 (time_now s)"
    and "add_ready s name sb ln ch m reply \<Longrightarrow> 0 \<le> ms_highest sb + 1"
  by (simp_all add: add_ready_def at_rest_def mtg_in_def sb_ok_def time_now_def)

text \<open>
  C3. Adding a transaction.  The new transaction has the number after the highest one.  Its entry
  has the subject up to a line end, the caller as author, the signature or, without one, the
  author, the text that was sent, and the chain of the transaction it replies to, or a new one.
  All the other entries are as before, and the control file holds a meeting again.
\<close>

theorem add_trn2_refines:
  assumes "add_ready s name sb ln ch m reply" and "whole s m" and "sends s txt s1" and "c_ok subject" and "c_ok sg"
    and "record_fits (length (fdata (fs s) (u_trn_f s))) (first_line subject) (rpc_caller s) (kept_sig (rpc_caller s) (Some sg)) txt"
  shows "\<exists>s' sb' m'. add_trn2 name subject sg reply s = Some (OK, Some (ms_highest sb + 1), s') \<and>
    at_rest s' sb' ln ch m' \<and> mtg_inv sb' m' \<and> live m' = insert (ms_highest sb + 1) (live m) \<and> whole s' m' \<and>
    contents s' m' = (contents s m)(ms_highest sb + 1 \<mapsto>
      \<lparr>en_subject = first_line subject, en_author = rpc_caller s, en_signature = (if sg = [] then rpc_caller s else sg),
       en_text = txt, en_chain = (if reply = 0 then ms_highest_chain sb + 1 else cb_trn_chain (the (m reply)))\<rparr>) \<and>
    add_frame s s'"
proof -
  have "(case kept_sig (rpc_caller s) (Some sg) of None \<Rightarrow> rpc_caller s | Some g \<Rightarrow> g) = (if sg = [] then rpc_caller s else sg)"
    by (simp add: kept_sig_def)
  moreover have "\<exists>s' sb' m'. add_trn2 name subject sg reply s = Some (OK, Some (ms_highest sb + 1), s') \<and>
    at_rest s' sb' ln ch m' \<and> mtg_inv sb' m' \<and> live m' = insert (ms_highest sb + 1) (live m) \<and> whole s' m' \<and>
    contents s' m' = (contents s m)(ms_highest sb + 1 \<mapsto> \<lparr>en_subject = first_line subject, en_author = rpc_caller s,
      en_signature = (case kept_sig (rpc_caller s) (Some sg) of None \<Rightarrow> rpc_caller s | Some g \<Rightarrow> g), en_text = txt,
      en_chain = (if reply = 0 then ms_highest_chain sb + 1 else cb_trn_chain (the (m reply)))\<rparr>) \<and> add_frame s s'"
    unfolding add_trn2_def
    using add_trn_priv_ok [OF assms(1,3,6) _ assms(4,2) added_now(1) [OF assms(1)] added_now(2) added_now(3) [OF assms(1)]] assms(5)
    by blast
  ultimately show ?thesis by simp
qed

definition posting :: "bytes \<Rightarrow> srv" where
  "posting txt = demo_srv\<lparr>tf := Some (mem_tfile txt)\<rparr>"

lemma posting_fields:
  "fs (posting txt) = fs demo_srv" "u_trn_f (posting txt) = u_trn_f demo_srv" "mtg_swapped (posting txt) = mtg_swapped demo_srv"
  "rpc_caller (posting txt) = ''srz''" "has_mtg_access (posting txt) = has_mtg_access demo_srv"
  by (simp_all add: posting_def access_cong(2) [of "demo_srv\<lparr>tf := t\<rparr>" demo_srv for t]) (simp add: demo_srv_def)

lemma posting_ready: "add_ready (posting txt) ''/m'' demo_sb ''demo'' ''srz'' demo_chains 2"
proof -
  have "open_on (posting txt) ''/m''" by (rule open_on_added [OF demo_open]) (simp add: posting_def)
  moreover have "at_rest (posting txt) demo_sb ''demo'' ''srz'' demo_chains"
    using demo_at_rest by (simp add: at_rest_def posting_def)
  moreover have "may_add (posting txt) demo_chains 2"
    using demo_2_facts(1,2) by (simp add: may_add_def posting_fields) (simp add: has_mtg_access_def check_acl_def demo_srv_def demo_acl_def acl_is_subset_def)
  ultimately show ?thesis
    using demo_inv by (simp add: add_ready_def posting_fields)
      (simp add: demo_sb_def demo_srv_def demo_mtg_fs_def demo_trns_def mtg_layout ALIMIT_def c_ok_def)
qed

lemma posting_contents: "contents (posting txt) = contents demo_srv" and posting_whole: "whole (posting txt) demo_chains"
proof -
  note e = in_file_same [of "posting txt" demo_srv, simplified posting_fields, simplified]
  show "contents (posting txt) = contents demo_srv" unfolding contents_def [abs_def] e ..
  show "whole (posting txt) demo_chains" using demo_whole unfolding whole_def e .
qed

lemma posting_sends: "sends (posting txt) txt (posting txt)"
  by (simp add: sends_def posting_def topen_def mem_tfile_def tfsize_def stream_src_def mem_src_def)

theorem add_trn2_refines_witness:
  "\<exists>s' sb' m'. add_trn2 ''/m'' (''Re'' @ [NL] @ ''x'') ''me'' 2 (posting ''yes'') = Some (OK, Some 4, s') \<and>
     mtg_inv sb' m' \<and> live m' = {1, 2, 3, 4} \<and>
     contents s' m' 4 = Some \<lparr>en_subject = ''Re'', en_author = ''srz'', en_signature = ''me'', en_text = ''yes'', en_chain = 1\<rparr>"
proof -
  have "record_fits (length (fdata (fs (posting ''yes'')) (u_trn_f (posting ''yes'')))) (first_line (''Re'' @ [NL] @ ''x''))
      (rpc_caller (posting ''yes'')) (kept_sig (rpc_caller (posting ''yes'')) (Some ''me'')) ''yes''"
    by (simp add: posting_fields record_fits_def first_line_def kept_sig_def author_text_def)
      (simp add: demo_srv_def demo_mtg_fs_def demo_trns_def mtg_layout)
  from add_trn2_refines [OF posting_ready posting_whole posting_sends _ _ this] obtain s' sb' m' where
    "add_trn2 ''/m'' (''Re'' @ [NL] @ ''x'') ''me'' 2 (posting ''yes'') = Some (OK, Some (ms_highest demo_sb + 1), s')"
    "mtg_inv sb' m'" "live m' = insert (ms_highest demo_sb + 1) (live demo_chains)"
    "contents s' m' (ms_highest demo_sb + 1) = Some \<lparr>en_subject = first_line (''Re'' @ [NL] @ ''x''), en_author = ''srz'',
       en_signature = ''me'', en_text = ''yes'', en_chain = cb_trn_chain demo_2\<rparr>"
    by (auto simp: c_ok_def posting_fields demo_2_facts)
  moreover have "ms_highest demo_sb = 3" "cb_trn_chain demo_2 = 1" by (simp_all add: demo_sb_def demo_2_def demo_blk_def)
  moreover have "insert 4 {1, 2, 3} = {1, 2, 3, 4 :: int}" by auto
  ultimately show ?thesis by (auto simp: demo_live first_line_def)
qed

end
