(* ===== verification/Feed.thy ===== *)
theory Feed
  imports Add
begin

text \<open>
  Getting a transaction: its text goes to the file object of the call.  \<open>byte_sink\<close> is the contract of
  something that is written to sequentially.
\<close>

subsection \<open>Sequential writing\<close>

text \<open>\<open>dst s p n\<close>: the bytes \<open>p\<close> have been written, and \<open>n\<close> more can be.\<close>

locale byte_sink =
  fixes wr :: "'s \<Rightarrow> bytes \<Rightarrow> (int \<times> code \<times> 's) option"
    and dst :: "'s \<Rightarrow> bytes \<Rightarrow> nat \<Rightarrow> bool"
  assumes wr_dst: "dst s p n \<Longrightarrow> length b \<le> n \<Longrightarrow>
      \<exists>s'. wr s b = Some (int (length b), OK, s') \<and> dst s' (p @ b) (n - length b)"
begin

text \<open>However a writer cuts its bytes, the sink has all of them in the end.\<close>

lemma writes_dst:
  "dst s p n \<Longrightarrow> length (concat bs) \<le> n \<Longrightarrow>
   \<exists>s'. foldr (\<lambda>b k s. do { (r, c, s) \<leftarrow> wr s b; if c \<noteq> OK then None else k s }) bs Some s = Some s' \<and>
     dst s' (p @ concat bs) (n - length (concat bs))"
proof (induction bs arbitrary: s p n)
  case (Cons b bs)
  have "length b \<le> n" using Cons.prems(2) by simp
  from wr_dst [OF Cons.prems(1) this] obtain s1 where
    1: "wr s b = Some (int (length b), OK, s1)" "dst s1 (p @ b) (n - length b)" by blast
  have "length (concat bs) \<le> n - length b" using Cons.prems(2) by simp
  from Cons.IH [OF 1(2) this] 1(1) show ?case by (auto simp: diff_diff_eq)
qed simp

end

definition net_dst :: "bytes \<Rightarrow> 'a world_scheme \<Rightarrow> bytes \<Rightarrow> nat \<Rightarrow> bool" where
  "net_dst w s p n \<longleftrightarrow> (\<exists>t i. tf s = Some t \<and> tf_kind t = Tnet i \<and> i \<le> 0 \<and> sent (us s) w p)"

definition mem_dst :: "bytes \<Rightarrow> 'a world_scheme \<Rightarrow> bytes \<Rightarrow> nat \<Rightarrow> bool" where
  "mem_dst w s p n \<longleftrightarrow> (\<exists>t iov. tf s = Some t \<and> tf_kind t = Tmem iov (w @ p) \<and> n \<le> length (concat iov))"

lemma iov_scatter_concat:
  "length b \<le> length (concat iov) \<Longrightarrow>
   \<exists>iov'. iov_scatter iov b = Some (b, iov') \<and> concat iov' = drop (length b) (concat iov)"
proof (induction iov b rule: iov_scatter.induct)
  case (3 x iov c buf)
  show ?case
  proof (cases "length (c # buf) < length x \<or> iov = []")
    case True
    with 3 show ?thesis by auto
  next
    case False
    then have "\<not> length (c # buf) < length x" "iov \<noteq> []" "length (drop (length x) (c # buf)) \<le> length (concat iov)"
      using 3(2) by auto
    from 3(1) [OF this] obtain iov' where "iov_scatter iov (drop (length x) (c # buf)) = Some (drop (length x) (c # buf), iov')"
      "concat iov' = drop (length (drop (length x) (c # buf))) (concat iov)" by blast
    with False show ?thesis by auto
  qed
qed auto

interpretation net_out: byte_sink "\<lambda>s b. twrite b s" "net_dst w"
proof
  fix s :: "'a world_scheme" and p n and b :: bytes
  assume "net_dst w s p n" "length b \<le> n"
  then obtain t i where t: "tf s = Some t" "tf_kind t = Tnet i" "i \<le> 0" "sent (us s) w p" by (auto simp: net_dst_def)
  from put_payload [OF t(4)] obtain u where "put_into_sub_block (us s) b = (SUCCESS, u)" "sent u w (p @ b)" by blast
  with t show "\<exists>s'. twrite b s = Some (int (length b), OK, s') \<and> net_dst w s' (p @ b) (n - length b)"
    by (auto simp: twrite_def tnet_write_def USP_put_byte_block_def net_dst_def)
qed

interpretation mem_out: byte_sink "\<lambda>s b. twrite b s" "mem_dst w"
proof
  fix s :: "'a world_scheme" and p n and b :: bytes
  assume "mem_dst w s p n" "length b \<le> n"
  then obtain t iov where t: "tf s = Some t" "tf_kind t = Tmem iov (w @ p)" "n \<le> length (concat iov)" "length b \<le> length (concat iov)"
    by (auto simp: mem_dst_def)
  from iov_scatter_concat [OF t(4)] obtain iov' where "iov_scatter iov b = Some (b, iov')" "concat iov' = drop (length b) (concat iov)" by blast
  with t show "\<exists>s'. twrite b s = Some (int (length b), OK, s') \<and> mem_dst w s' (p @ b) (n - length b)"
    by (auto simp: twrite_def mem_dst_def set_kind_def)
qed

subsection \<open>The loop\<close>

text \<open>A sink on the network, or one in memory.\<close>

definition stream_dst :: "bool \<Rightarrow> bytes \<Rightarrow> srv \<Rightarrow> bytes \<Rightarrow> nat \<Rightarrow> bool" where
  "stream_dst net w s p n \<longleftrightarrow> (if net then net_dst w s p n else mem_dst w s p n)"

lemma twrite_stream:
  assumes "stream_dst net w s p n" and "length b \<le> n"
  shows "\<exists>s'. twrite b s = Some (int (length b), OK, s') \<and> stream_dst net w s' (p @ b) (n - length b) \<and>
    s' = s\<lparr>us := us s', tf := tf s'\<rparr>"
proof -
  from assms obtain s' where s': "twrite b s = Some (int (length b), OK, s')" "stream_dst net w s' (p @ b) (n - length b)"
    using net_out.wr_dst [of w s p n b] mem_out.wr_dst [of w s p n b] by (auto simp: stream_dst_def split: if_splits)
  obtain t where "tf s = Some t" "(\<exists>i. tf_kind t = Tnet i) \<or> (\<exists>v b. tf_kind t = Tmem v b)"
    using assms(1) by (auto simp: stream_dst_def net_dst_def mem_dst_def split: if_splits)
  then have "s' = s\<lparr>us := us s', tf := tf s'\<rparr>"
    using s'(1) by (auto simp: twrite_def set_kind_def split: prod.splits option.splits bind_splits)
  with s' show ?thesis by blast
qed

lemma feed_loop_ok:
  assumes "stream_dst net w s q n" and "length p \<le> n" and "slice pos (length p) (fdata (fs s) (u_trn_f s)) = p"
  shows "\<exists>s'. feed_loop (int (length p)) pos buf s = Some s' \<and> stream_dst net w s' (q @ p) (n - length p) \<and>
    s' = s\<lparr>us := us s', tf := tf s'\<rparr>"
  using assms
proof (induction "length p" arbitrary: s p q n pos buf rule: less_induct)
  case less
  show ?case
  proof (cases "p = []")
    case True
    with less.prems(1) show ?thesis by (subst feed_loop.simps) simp
  next
    case False
    define k where "k = min 512 (length p)"
    have k: "0 < k" "k \<le> length p" "nat (min 512 (int (length p))) = k" using False by (auto simp: k_def)
    have b: "sys_read (fs s) (u_trn_f s) pos k = take k p"
    proof -
      have "take k p = take k (slice pos (length p) (fdata (fs s) (u_trn_f s)))" using less.prems(3) by simp
      also have "\<dots> = slice pos k (fdata (fs s) (u_trn_f s))" using k(2) by (simp add: slice_def min_absorb1)
      finally show ?thesis by (simp add: sys_read_def)
    qed
    have "length (take k p) \<le> n" using less.prems(2) by simp
    from twrite_stream [OF less.prems(1) this] k(2) obtain s1 where
      1: "twrite (take k p) s = Some (int k, OK, s1)" "stream_dst net w s1 (q @ take k p) (n - k)" "s1 = s\<lparr>us := us s1, tf := tf s1\<rparr>" by auto
    have f: "fs s1 = fs s" "u_trn_f s1 = u_trn_f s" by (subst 1(3), simp)+
    have "slice pos (k + length (drop k p)) (fdata (fs s) (u_trn_f s)) = take k p @ drop k p"
      using less.prems(3) k(2) by simp
    with b have sl: "slice (pos + k) (length (drop k p)) (fdata (fs s1) (u_trn_f s1)) = drop k p"
      by (simp only: slice_add f sys_read_def same_append_eq)
    have len: "length (drop k p) < length p" "length (drop k p) \<le> n - k" using k less.prems(2) by simp_all
    from less.hyps [OF len(1) 1(2) len(2) sl, of "take k p @ drop k buf"] obtain s2 where
      2: "feed_loop (int (length (drop k p))) (pos + k) (take k p @ drop k buf) s1 = Some s2"
        "stream_dst net w s2 ((q @ take k p) @ drop k p) (n - k - length (drop k p))" "s2 = s1\<lparr>us := us s2, tf := tf s2\<rparr>" by blast
    have d: "int (length (drop k p)) = int (length p) - int k" using k(2) by (simp only: length_drop of_nat_diff)
    have "feed_loop (int (length p)) pos buf s = feed_loop (int (length p) - int k) (pos + k) (take k p @ drop k buf) s1"
      by (subst feed_loop.simps) (use False k 1(1) in \<open>simp add: b Let_def min_absorb2\<close>)
    moreover have "s2 = s\<lparr>us := us s2, tf := tf s2\<rparr>"
    proof -
      have "s2 = (s\<lparr>us := us s1, tf := tf s1\<rparr>)\<lparr>us := us s2, tf := tf s2\<rparr>" using 1(3) 2(3) by metis
      then show ?thesis by simp
    qed
    ultimately show ?thesis using 2(1,2) k(2) unfolding d by auto
  qed
qed

subsection \<open>The call\<close>

lemma read_trn_less:
  assumes "read_trn s a True True True = Some (OK, th, subject, author, sg)"
  shows "read_trn s a False True False = Some (OK, th, [], author, [])"
  using assms by (auto simp: read_trn_def Let_def split: if_splits bind_splits)

lemma topen_net:
  assumes "tf s = Some tf0" and "tf_kind tf0 = Tnet i" and "\<not> sending (us s)" and "\<not> us_wfail (us s)"
  shows "\<exists>s1. topen CHR ''w'' s = Some (0, OK, s1) \<and> stream_dst True (us_out (us s) @ be 2 TFILE_BLK) s1 [] n \<and>
    (\<exists>j \<le> 0. \<exists>t1. tf s1 = Some t1 \<and> tf_kind t1 = Tnet j)"
  using begin_sent [OF assms(3,4), of TFILE_BLK] assms(1,2)
  by (auto simp: topen_def tnet_open_def stream_dst_def net_dst_def set_kind_def)

lemma get_trn_fed:
  assumes "topen CHR ''w'' s = Some (0, OK, s1)" and "stream_dst net w s1 [] n"
    and "open_on s name" and "at_rest s sb ln ch m" and "mtg_inv sb m"
    and "m t = Some c" and "\<not> deleted c" and "shows_record s c th subject author sg"
    and "trn_read s (th_text_addr th) (th_num_chars th) = Some p" and "int (length p) = th_num_chars th" and "length p \<le> n"
  shows "\<exists>s2 r k x. stream_dst net w s2 p (n - length p) \<and> tclose s2 = (r, k, s2\<lparr>us := x\<rparr>) \<and> tf s2 \<noteq> None \<and>
    get_trn name t s = Some (OK, s2\<lparr>us := x, abort_file := False\<rparr>) \<and> at_rest (s2\<lparr>us := x, abort_file := False\<rparr>) sb ln ch m"
proof -
  define s2 where "s2 = s1\<lparr>abort_file := True\<rparr>"
  obtain u v where s1: "s1 = s\<lparr>us := u, tf := v\<rparr>" using topen_only [OF assms(1)] by blast
  have o: "open_mtg name s2 = Some (OK, s2)"
    by (rule open_on_again, rule open_on_added [OF assms(3)]) (simp add: add_frame_def s2_def s1)
  have r: "at_rest s2 sb ln ch m" using assms(4) by (simp add: at_rest_def s2_def s1)
  note b = read_begin [OF r]
  have rc: "read_chain (reading sb ln ch s2) t None = Some (OK, Some c)" by (rule read_chain_rep [OF b(2) assms(6)])
  have rt: "read_trn s2 = read_trn s" by (rule read_trn_cong) (simp_all add: s2_def s1)
  have ac: "has_trn_access s2 = has_trn_access s" by (rule access_cong) (simp_all add: s2_def s1)
  have live: "cb_trn_addr c \<noteq> 0" using mtg_inv_live [OF assms(5-7)] by simp
  define s3 where "s3 = finish_read (reading sb ln ch s2)"
  have f3: "us s3 = us s1" "tf s3 = tf s1" "fs s3 = fs s" "u_trn_f s3 = u_trn_f s"
    by (simp_all add: s3_def reading_def with_super_def start_read_def finish_read_def s2_def) (simp_all add: s1)
  have d3: "stream_dst net w s3 [] n" using assms(2) by (simp add: stream_dst_def net_dst_def mem_dst_def f3 split: if_splits)
  have "nat (th_num_chars th) = length p" by (simp flip: assms(10))
  with assms(9) have sl: "0 \<le> th_text_addr th" "slice (nat (th_text_addr th)) (length p) (fdata (fs s3) (u_trn_f s3)) = p"
    by (auto simp: trn_read_def sys_read_def f3 split: if_splits)
  from feed_loop_ok [OF d3 assms(11) sl(2), of "[]"] obtain s4 where
    4: "feed_loop (th_num_chars th) (nat (th_text_addr th)) [] s3 = Some s4" "stream_dst net w s4 p (n - length p)"
      "s4 = s3\<lparr>us := us s4, tf := tf s4\<rparr>" unfolding assms(10) by auto
  have ac3: "has_trn_access s3 = has_trn_access s" unfolding s3_def reading_cong ac ..
  obtain rr k x where cl: "tclose s4 = (rr, k, s4\<lparr>us := x\<rparr>)" using tclose_only by blast
  have "get_trn name t s = Some (OK, s4\<lparr>us := x, abort_file := False\<rparr>)"
    using assms(1,7,8) read_trn_less [of s] sl(1) 4(1)
    by (simp add: get_trn_def o b(1) rc live rt ac ac3 cl reading_cong shows_record_def flip: s2_def s3_def)
  moreover have "at_rest (s4\<lparr>us := x, abort_file := False\<rparr>) sb ln ch m"
  proof -
    have "at_rest s3 sb ln ch m"
      using r by (simp add: at_rest_def s3_def reading_def with_super_def start_read_def finish_read_def)
    then show ?thesis by (subst 4(3)) (simp add: at_rest_def)
  qed
  moreover have "tf s4 \<noteq> None" using 4(2) by (auto simp: stream_dst_def net_dst_def mem_dst_def split: if_splits)
  ultimately show ?thesis using 4(2) cl by blast
qed

text \<open>
  Getting a live transaction over the network: the server sends one block with the text of its
  entry, all of it and nothing else, so that the reader can take it out of the block and finds
  what the server sends next right after it.
\<close>

theorem get_trn_sends:
  assumes "open_on s name" and "at_rest s sb ln ch m" and "mtg_inv sb m"
    and "m t = Some c" and "\<not> deleted c" and "in_file s c" and "shows_record s c th subject author sg"
    and "tf s = Some (net_tfile n)" and "\<not> sending (us s)" and "\<not> us_wfail (us s)"
  shows "\<exists>e s' blk. contents s m t = Some e \<and> get_trn name t s = Some (OK, s') \<and> at_rest s' sb ln ch m \<and>
    us_out (us s') = us_out (us s) @ blk \<and> \<not> sending (us s') \<and>
    (\<forall>peer rest. us_in peer = blk @ rest \<longrightarrow>
       (\<exists>p1 p2. USP_rcv_blk peer = Some (SUCCESS, TFILE_BLK, p1) \<and>
          USP_get_byte_block p1 (length (en_text e)) = (SUCCESS, en_text e, p2) \<and> us_in (USP_flush_block p2) = rest))"
proof -
  from assms(7) have rd: "read_trn s (cb_trn_addr c) True True True = Some (OK, th, subject, author, sg)" by (simp add: shows_record_def)
  with assms(6) obtain e p where e: "entry_of s c = Some e" and p: "trn_read s (th_text_addr th) (th_num_chars th) = Some p"
    "int (length p) = th_num_chars th" by (auto simp: in_file_def)
  have "en_text e = p" using e rd p(1) by (auto simp: entry_of_def split: bind_splits)
  let ?w = "us_out (us s) @ be 2 TFILE_BLK"
  obtain s1 where s1: "topen CHR ''w'' s = Some (0, OK, s1)" "stream_dst True ?w s1 [] (length p)"
    using topen_net [OF assms(8) _ assms(9,10)] by (auto simp: net_tfile_def)
  from get_trn_fed [OF s1 assms(1-5,7) p] obtain s2 r k x where
    g: "stream_dst True ?w s2 p 0" "tclose s2 = (r, k, s2\<lparr>us := x\<rparr>)" "get_trn name t s = Some (OK, s2\<lparr>us := x, abort_file := False\<rparr>)"
      "at_rest (s2\<lparr>us := x, abort_file := False\<rparr>) sb ln ch m" by auto
  from g(1) obtain t2 i where t2: "tf s2 = Some t2" "tf_kind t2 = Tnet i" "i \<le> 0" "sent (us s2) ?w p"
    by (auto simp: stream_dst_def net_dst_def)
  from end_sent [OF t2(4)] obtain u f where u: "USP_end_block (us s2) = (SUCCESS, u)" "framed p f" "us_out u = ?w @ f" "\<not> sending u"
    by blast
  with t2 g(2) have x: "s2\<lparr>us := x\<rparr> = s2\<lparr>us := u\<rparr>" by (simp add: tclose_def tnet_close_def)
  then have "x = u" by (metis world.select_convs(2) world.surjective world.update_convs(2))
  have "\<exists>p1 p2. USP_rcv_blk peer = Some (SUCCESS, TFILE_BLK, p1) \<and> USP_get_byte_block p1 (length p) = (SUCCESS, p, p2) \<and>
      us_in (USP_flush_block p2) = rest" if inp: "us_in peer = (be 2 TFILE_BLK @ f) @ rest" for peer rest
  proof -
    from rcv_blk_payload [of peer TFILE_BLK f rest p] inp u(2) obtain p1 where
      p1: "USP_rcv_blk peer = Some (SUCCESS, TFILE_BLK, p1)" "recving p1 p rest"
      by (auto simp: TFILE_BLK_def fits_u_def CONNECTION_OPEN_def CONNECTION_ERROR_def CONNECTION_END_def)
    from get_payload [OF p1(2), of "length p"] obtain p2 where "get_from_sub_block p1 (length p) = (SUCCESS, p, p2)" "recving p2 [] rest"
      by auto
    with p1(1) flush_payload show ?thesis by (auto simp: USP_get_byte_block_def)
  qed
  moreover have "contents s m t = Some e" using e assms(4,5) by (simp add: contents_def)
  ultimately show ?thesis
    using g(3,4) u(3,4) \<open>x = u\<close> \<open>en_text e = p\<close>
    by (intro exI [of _ e] exI [of _ "s2\<lparr>us := u, abort_file := False\<rparr>"] exI [of _ "be 2 TFILE_BLK @ f"]) simp
qed

text \<open>A call of another caller on the same meeting, over the network.\<close>

definition net_call :: "string \<Rightarrow> int \<Rightarrow> usp \<Rightarrow> srv \<Rightarrow> srv" where
  "net_call caller n u s = s\<lparr>rpc_caller := caller, tf := Some (net_tfile n), us := u\<rparr>"

lemma net_call_fields [simp]:
  "tf (net_call caller n u s) = Some (net_tfile n)" "us (net_call caller n u s) = u" "fs (net_call caller n u s) = fs s"
  "current_mtg (net_call caller n u s) = current_mtg s" "u_trn_f (net_call caller n u s) = u_trn_f s"
  "u_control_f (net_call caller n u s) = u_control_f s" "mtg_acl (net_call caller n u s) = mtg_acl s"
  "last_acl_mod (net_call caller n u s) = last_acl_mod s" "rpc_caller (net_call caller n u s) = caller"
  "nuclear (net_call caller n u s) = nuclear s" "mtg_swapped (net_call caller n u s) = mtg_swapped s"
  by (simp_all add: net_call_def)

lemma net_call_acl [simp]: "check_acl (net_call caller n u s) ms = check_acl (s\<lparr>rpc_caller := caller\<rparr>) ms"
proof -
  have "mtg_acl (s\<lparr>rpc_caller := caller\<rparr>) = mtg_acl s" "rpc_caller (s\<lparr>rpc_caller := caller\<rparr>) = caller" by simp_all
  then show ?thesis unfolding check_acl_def net_call_fields by (simp split: acl_ptr.split)
qed

lemma net_call_meeting [simp]:
  "open_on (net_call caller n u s) name = open_on s name" "at_rest (net_call caller n u s) = at_rest s"
  "entry_of (net_call caller n u s) = entry_of s" "in_file (net_call caller n u s) = in_file s"
  "contents (net_call caller n u s) = contents s" "read_trn (net_call caller n u s) = read_trn s"
proof -
  note e = in_file_same [of "net_call caller n u s" s]
  show "entry_of (net_call caller n u s) = entry_of s" "in_file (net_call caller n u s) = in_file s"
    using e by (simp_all add: net_call_def)
  then show "contents (net_call caller n u s) = contents s" by (simp only: contents_def [abs_def])
  show "read_trn (net_call caller n u s) = read_trn s" by (rule read_trn_cong) (simp_all add: net_call_def)
  show "open_on (net_call caller n u s) name = open_on s name" unfolding open_on_def net_call_fields ..
  show "at_rest (net_call caller n u s) = at_rest s" unfolding at_rest_def [abs_def] net_call_fields ..
qed

theorem get_trn_sends_witness:
  "\<exists>e s' blk. contents demo_srv demo_chains 2 = Some e \<and> en_text e = ''hello'' @ [NL] \<and>
    get_trn ''/m'' 2 (net_call ''srz'' 0 (new_stream []) demo_srv) = Some (OK, s') \<and> us_out (us s') = blk"
proof -
  have "net_call ''srz'' 0 u demo_srv = demo_srv\<lparr>tf := Some (net_tfile 0), us := u\<rparr>" for u by (simp add: net_call_def demo_srv_def)
  then have "has_trn_access (net_call ''srz'' 0 u demo_srv) = has_trn_access demo_srv" for u
    using access_cong(1) [of "demo_srv\<lparr>tf := Some (net_tfile 0), us := u\<rparr>" demo_srv] by simp
  then have sh: "shows_record (net_call ''srz'' 0 (new_stream []) demo_srv) demo_2 demo_hdr (''Hi!'' @ [NUL]) (''srz'' @ [NUL]) ''srz''"
    using demo_shows [OF demo_2_facts(3)] by (simp add: shows_record_def)
  show ?thesis
    using get_trn_sends [OF _ _ demo_inv demo_2_facts(1,2) _ sh, of "''/m''" "''demo''" "''srz''" 0] demo_open demo_at_rest demo_entry(2) [OF demo_2_facts(3)]
    by (auto simp: new_stream_def demo_contents)
qed

subsection \<open>Posted and read\<close>

lemma contentsD:
  assumes "contents s m t = Some e" and "whole s m"
  obtains c where "m t = Some c" "\<not> deleted c" "in_file s c" "entry_of s c = Some e"
  using assms by (auto simp: contents_def whole_def split: bind_splits if_splits option.splits)

lemma may_read_record:
  assumes "in_file s c" and "check_acl s ''r'' = Some True"
  obtains th subject author sg where "shows_record s c th subject author sg"
  using assms by (auto simp: in_file_def shows_record_def has_trn_access_def)

end
