(* ===== verification/Abort.thy ===== *)
theory Abort
  imports Add
begin

text \<open>
  All or nothing: whatever goes wrong in an operation that changes a meeting, a failing disk
  included, a call that returns an error leaves the control file as it was.
\<close>

subsection \<open>Inside an atomic session\<close>

text \<open>
  What an operation may do to the two files before it ends: the control file is at most padded, the
  transaction file at most longer, and only if the operation adds to it.
\<close>

definition longer :: "bool \<Rightarrow> bytes \<Rightarrow> bytes \<Rightarrow> bool" where
  "longer grow xs ys \<longleftrightarrow> (if grow then take (length xs) ys = xs else ys = xs)"

lemma longer_refl [simp]: "longer g xs xs"
  by (simp add: longer_def)

definition same_others :: "bool \<Rightarrow> srv \<Rightarrow> srv \<Rightarrow> bool" where
  "same_others grow s0 s \<longleftrightarrow> u_control_f s = u_control_f s0 \<and> u_trn_f s = u_trn_f s0 \<and>
     (\<forall>d. d \<noteq> u_control_f s0 \<and> d \<noteq> u_trn_f s0 \<longrightarrow> inodes (fs s) d = inodes (fs s0) d) \<and>
     longer grow (fdata (fs s0) (u_trn_f s0)) (fdata (fs s) (u_trn_f s0)) \<and>
     links (fs s) = links (fs s0) \<and> dirs (fs s) = dirs (fs s0)"

definition in_session :: "bool \<Rightarrow> srv \<Rightarrow> srv \<Rightarrow> bool" where
  "in_session grow s0 s \<longleftrightarrow> nuclear s \<and> ctl_inv s \<and> same_others grow s0 s \<and>
     file_size (a_control_f s) = length (fdata (fs s0) (u_control_f s0)) \<and>
     (\<exists>n. fdata (fs s) (u_control_f s0) = pad_to n (fdata (fs s0) (u_control_f s0)))"

definition restored :: "bool \<Rightarrow> srv \<Rightarrow> srv \<Rightarrow> bool" where
  "restored grow s0 s \<longleftrightarrow> \<not> nuclear s \<and> same_others grow s0 s \<and>
     fdata (fs s) (u_control_f s0) = fdata (fs s0) (u_control_f s0)"

text \<open>The result of a step: still in the session, or given up with everything as it was.\<close>

definition step_safe :: "bool \<Rightarrow> srv \<Rightarrow> code \<Rightarrow> srv \<Rightarrow> bool" where
  "step_safe grow s0 c s \<longleftrightarrow> (if c = OK then in_session grow s0 s else restored grow s0 s)"

lemma session_begin:
  assumes "\<not> no_nuke s"
  shows "in_session g s (begin_atomic s)"
proof -
  have "\<exists>n. fdata (fs s) (u_control_f s) = pad_to n (fdata (fs s) (u_control_f s))" by (metis pad_to_le order_refl)
  then show ?thesis
    using assms by (simp add: in_session_def begin_atomic_def ctl_inv_def af_ok_aopen same_others_def) (simp add: aopen_def)
qed

lemma core_abort_fields:
  "fs (core_abort s) = (if nuclear s then aabort (a_control_f s) (fs s) else fs s)" "\<not> nuclear (core_abort s)"
  "u_control_f (core_abort s) = u_control_f s" "u_trn_f (core_abort s) = u_trn_f s"
proof -
  have t: "fs (snd (snd (tclose w))) = fs w" "nuclear (snd (snd (tclose w))) = nuclear w"
    "u_control_f (snd (snd (tclose w))) = u_control_f w" "u_trn_f (snd (snd (tclose w))) = u_trn_f w" for w :: srv
    by (simp_all add: tclose_def split: option.split tkind.split)
  show "fs (core_abort s) = (if nuclear s then aabort (a_control_f s) (fs s) else fs s)" "\<not> nuclear (core_abort s)"
    "u_control_f (core_abort s) = u_control_f s" "u_trn_f (core_abort s) = u_trn_f s"
    by (simp_all add: core_abort_def Let_def forget_super_def finish_read_def t)
qed

lemma session_abort:
  assumes "in_session g s0 s" and "u_control_f s0 \<noteq> u_trn_f s0"
  shows "restored g s0 (core_abort s)"
proof -
  define f where "f = aabort (a_control_f s) (fs s)"
  have d: "a_desc (a_control_f s) = u_control_f s0" using assms(1) by (simp add: in_session_def ctl_inv_def same_others_def)
  have fr: "links f = links (fs s)" "dirs f = dirs (fs s)" "\<And>d. d \<noteq> u_control_f s0 \<Longrightarrow> inodes f d = inodes (fs s) d"
    by (simp_all add: f_def aabort_def sys_ftruncate_def d)
  have r: "fdata f (u_control_f s0) = fdata (fs s0) (u_control_f s0)"
    using assms(1) aabort_restores [of "fs s" "a_control_f s"] by (auto simp: f_def d in_session_def)
  then show ?thesis
    using assms fr by (auto simp: restored_def same_others_def in_session_def core_abort_fields simp flip: f_def)
qed

text \<open>Steps that write to neither file, and those that write to the control file.\<close>

lemma session_same:
  assumes "in_session g s0 s" and "fs s' = fs s" and "nuclear s' = nuclear s" and "a_control_f s' = a_control_f s"
    and "u_control_f s' = u_control_f s" and "u_trn_f s' = u_trn_f s"
  shows "in_session g s0 s'"
  using assms by (simp add: in_session_def same_others_def ctl_inv_def)

lemma session_ctl:
  assumes "in_session g s0 s" and "ctl_frame s s'" and "ctl_inv s'" and "u_control_f s0 \<noteq> u_trn_f s0"
  shows "in_session g s0 s'"
proof -
  note f = ctl_frame_fields [OF assms(2)]
  have u: "u_control_f s = u_control_f s0" "nuclear s" using assms(1) by (simp_all add: in_session_def same_others_def)
  then have p: "padded (fs s) (u_control_f s0) (fs s')" and z: "file_size (a_control_f s') = file_size (a_control_f s)"
    using assms(2) by (auto simp: ctl_frame_def)
  then have o: "\<And>d. d \<noteq> u_control_f s0 \<Longrightarrow> inodes (fs s') d = inodes (fs s) d" "links (fs s') = links (fs s)" "dirs (fs s') = dirs (fs s)"
    by (simp_all add: padded_def)
  from p assms(1) have "\<exists>n. fdata (fs s') (u_control_f s0) = pad_to n (fdata (fs s0) (u_control_f s0))"
    unfolding padded_def in_session_def by (metis pad_to_pad_to)
  then show ?thesis
    using assms(1,3,4) u(1) o z by (auto simp: in_session_def same_others_def f)
qed

lemma session_write_chain:
  assumes "in_session g s0 s" and "write_chain s cb = Some (c, s')" and "u_control_f s0 \<noteq> u_trn_f s0"
  shows "in_session g s0 s'"
proof -
  have "ctl_inv s" using assms(1) by (simp add: in_session_def)
  with assms show ?thesis
    by (auto simp: write_chain_def Let_def split: if_splits bind_splits intro!: session_ctl [OF assms(1)] dest: ctl_write_frame)
qed

lemma session_read_super:
  assumes "in_session g s0 s" and "read_super s = Some (c, s')"
  shows "in_session g s0 s'"
  using assms(2) by (auto simp: read_super_def Let_def split: if_splits bind_splits intro!: session_same [OF assms(1)])

lemma step_relink:
  assumes "in_session g s0 s" and "relink s t f sp = Some (c, sp', s')" and "u_control_f s0 \<noteq> u_trn_f s0"
  shows "step_safe g s0 c s'"
  using assms(2) session_abort [OF assms(1,3)] session_write_chain [OF assms(1) _ assms(3)]
  by (auto simp: relink_def step_safe_def split: if_splits bind_splits)

lemma step_relink_if:
  assumes "in_session g s0 s" and "(if b then relink s t f sp else Some (OK, sp, s)) = Some (c, sp', s')"
    and "u_control_f s0 \<noteq> u_trn_f s0"
  shows "step_safe g s0 c s'"
  using assms step_relink [OF assms(1) _ assms(3)] by (auto simp: step_safe_def split: if_splits)

lemma step_relink_then:
  assumes "do { (c, sp, s1) \<leftarrow> (if b then relink s t f sp0 else Some (OK, sp0, s)); if c \<noteq> OK then Some (c, s1) else k sp s1 } = Some (c', s')"
    and "in_session g s0 s" and "u_control_f s0 \<noteq> u_trn_f s0"
    and "\<And>sp1 s1. k sp1 s1 = Some (c', s') \<Longrightarrow> in_session g s0 s1 \<Longrightarrow> step_safe g s0 c' s'"
  shows "step_safe g s0 c' s'"
proof -
  from assms(1) obtain c sp s1 where 1: "(if b then relink s t f sp0 else Some (OK, sp0, s)) = Some (c, sp, s1)"
    and k: "(if c \<noteq> OK then Some (c, s1) else k sp s1) = Some (c', s')" by (auto split: bind_splits)
  from step_relink_if [OF assms(2) 1 assms(3)] k assms(4) show ?thesis by (auto simp: step_safe_def split: if_splits)
qed

lemma step_relink_last:
  assumes "do { (c, sp, s1) \<leftarrow> (if b then relink s t f sp0 else Some (OK, sp0, s)); Some (c, s1) } = Some (c', s')"
    and "in_session g s0 s" and "u_control_f s0 \<noteq> u_trn_f s0"
  shows "step_safe g s0 c' s'"
proof -
  from assms(1) obtain sp where "(if b then relink s t f sp0 else Some (OK, sp0, s)) = Some (c', sp, s')"
    by (auto split: bind_splits)
  from step_relink_if [OF assms(2) this assms(3)] show ?thesis .
qed

lemma step_delete_links:
  assumes "delete_links cb s = Some (c, s')" and "in_session g s0 s" and "u_control_f s0 \<noteq> u_trn_f s0"
  shows "step_safe g s0 c s'"
  using assms unfolding delete_links_def
  by (elim step_relink_then [OF _ _ assms(3)] step_relink_last [OF _ _ assms(3)])

lemma step_retrieve_links:
  assumes "retrieve_links cb sp s = Some (c, s')" and "in_session g s0 s" and "u_control_f s0 \<noteq> u_trn_f s0"
  shows "step_safe g s0 c s'"
  using assms unfolding retrieve_links_def
  by (elim step_relink_then [OF _ _ assms(3)] step_relink_last [OF _ _ assms(3)])

lemma step_edit_start:
  assumes "edit_start name t check s = Some (c, cb, s')" and "open_mtg name s = Some (OK, s0)" and "\<not> no_nuke s0"
    and "u_control_f s0 \<noteq> u_trn_f s0"
  shows "step_safe g s0 c s'"
proof -
  note b = session_begin [OF assms(3), of g]
  from assms(1,2) show ?thesis
    using session_read_super [OF b] session_abort [OF _ assms(4), of g]
    by (auto simp: edit_start_def step_safe_def split: if_splits bind_splits)
qed

subsection \<open>The operations\<close>

lemma delete_safe:
  assumes "delete_trn name t s = Some (c, s')" and "c \<noteq> OK" and "open_mtg name s = Some (OK, s0)" and "\<not> no_nuke s0"
    and "u_control_f s0 \<noteq> u_trn_f s0"
  shows "restored False s0 s'"
proof -
  from assms(1) obtain c1 cb s1 where 1: "edit_start name t not_deleted s = Some (c1, cb, s1)"
    and r1: "(if c1 \<noteq> OK then Some (c1, s1) else do { cb0 \<leftarrow> cb;
          let cb = cb0\<lparr>cb_flags := i16 (cb_flags cb0 OR CB_DELETED)\<rparr>;
          (_, s) \<leftarrow> write_chain s1 cb; (c, s) \<leftarrow> delete_links cb s;
          if c \<noteq> OK then Some (c, s) else
          let sb = super s; sb = (if cb_prev cb = 0 then sb\<lparr>ms_first := cb_next cb\<rparr> else sb);
              sb = (if cb_next cb = 0 then sb\<lparr>ms_last := cb_prev cb\<rparr> else sb) in
          do { s \<leftarrow> write_super (s\<lparr>super := sb\<rparr>); Some (OK, end_atomic s) } }) = Some (c, s')"
    unfolding delete_trn_def by (auto elim!: bind_eq_Some_conv [THEN iffD1, elim_format])
  note st = step_edit_start [OF 1 assms(3-5), of False]
  show ?thesis
  proof (cases "c1 = OK")
    case True
    with r1 obtain d x s2 c3 s3 where w: "write_chain s1 d = Some (x, s2)" "delete_links d s2 = Some (c3, s3)"
      and r: "(if c3 \<noteq> OK then Some (c3, s3) else
          let sb = super s3; sb = (if cb_prev d = 0 then sb\<lparr>ms_first := cb_next d\<rparr> else sb);
              sb = (if cb_next d = 0 then sb\<lparr>ms_last := cb_prev d\<rparr> else sb) in
          do { s \<leftarrow> write_super (s3\<lparr>super := sb\<rparr>); Some (OK, end_atomic s) }) = Some (c, s')"
      unfolding Let_def [of "_\<lparr>cb_flags := _\<rparr>"] by (clarsimp simp: bind_eq_Some_conv split del: if_split)
    have "c3 \<noteq> OK" using r assms(2) by (auto simp: Let_def split: bind_splits)
    moreover have "in_session False s0 s1" using st True by (simp add: step_safe_def)
    ultimately show ?thesis
      using step_delete_links [OF w(2) session_write_chain [OF _ w(1) assms(5)] assms(5)] r by (auto simp: step_safe_def)
  qed (use r1 st in \<open>auto simp: step_safe_def\<close>)
qed

lemma retrieve_safe:
  assumes "retrieve_trn name t s = Some (c, s')" and "c \<noteq> OK" and "open_mtg name s = Some (OK, s0)" and "\<not> no_nuke s0"
    and "u_control_f s0 \<noteq> u_trn_f s0"
  shows "restored False s0 s'"
proof -
  from assms(1) obtain c1 cb s1 where 1: "edit_start name t was_deleted s = Some (c1, cb, s1)"
    and r1: "(if c1 \<noteq> OK then Some (c1, s1) else do { cb \<leftarrow> cb;
          (c, cb, sp) \<leftarrow> retrieve_search cb s1;
          if c \<noteq> OK then Some (c, core_abort s1) else
          let cb = cb\<lparr>cb_flags := i16 (cb_flags cb AND NOT CB_DELETED)\<rparr> in
     do { (_, s) \<leftarrow> write_chain s1 cb;
          (c, s) \<leftarrow> retrieve_links cb sp s;
          if c \<noteq> OK then Some (c, s) else
          let sb = super s; sb = (if cb_prev cb = 0 then sb\<lparr>ms_first := cb_current cb\<rparr> else sb);
              sb = (if cb_next cb = 0 then sb\<lparr>ms_last := cb_current cb\<rparr> else sb) in
          do { s \<leftarrow> write_super (s\<lparr>super := sb\<rparr>); Some (OK, end_atomic s) } } }) = Some (c, s')"
    unfolding retrieve_trn_def by (auto elim!: bind_eq_Some_conv [THEN iffD1, elim_format])
  note st = step_edit_start [OF 1 assms(3-5), of False]
  show ?thesis
  proof (cases "c1 = OK")
    case True
    then have ins: "in_session False s0 s1" using st by (simp add: step_safe_def)
    from r1 True obtain c2 d sp where "(if c2 \<noteq> OK then Some (c2, core_abort s1) else do { (_, s) \<leftarrow> write_chain s1 d;
          (c, s) \<leftarrow> retrieve_links d sp s;
          if c \<noteq> OK then Some (c, s) else
          let sb = super s; sb = (if cb_prev d = 0 then sb\<lparr>ms_first := cb_current d\<rparr> else sb);
              sb = (if cb_next d = 0 then sb\<lparr>ms_last := cb_current d\<rparr> else sb) in
          do { s \<leftarrow> write_super (s\<lparr>super := sb\<rparr>); Some (OK, end_atomic s) } }) = Some (c, s')"
      unfolding Let_def [of "_\<lparr>cb_flags := _\<rparr>"] by (clarsimp simp: bind_eq_Some_conv split del: if_split)
    then consider "s' = core_abort s1" | x s2 c3 s3 where "write_chain s1 d = Some (x, s2)" "retrieve_links d sp s2 = Some (c3, s3)"
      "(if c3 \<noteq> OK then Some (c3, s3) else
          let sb = super s3; sb = (if cb_prev d = 0 then sb\<lparr>ms_first := cb_current d\<rparr> else sb);
              sb = (if cb_next d = 0 then sb\<lparr>ms_last := cb_current d\<rparr> else sb) in
          do { s \<leftarrow> write_super (s3\<lparr>super := sb\<rparr>); Some (OK, end_atomic s) }) = Some (c, s')"
      by (cases "c2 = OK") (clarsimp simp: bind_eq_Some_conv split del: if_split, auto)
    then show ?thesis
    proof cases
      case 1
      then show ?thesis using session_abort [OF ins assms(5)] by simp
    next
      case 2
      have "c3 \<noteq> OK" using 2(3) assms(2) by (auto simp: Let_def split: bind_splits)
      then show ?thesis
        using step_retrieve_links [OF 2(2) session_write_chain [OF ins 2(1) assms(5)] assms(5)] 2(3) by (auto simp: step_safe_def)
    qed
  qed (use r1 st in \<open>auto simp: step_safe_def\<close>)
qed

lemma flags_safe:
  assumes "set_trn_flags name t flags s = Some (c, s')" and "c \<noteq> OK" and "open_mtg name s = Some (OK, s0)" and "\<not> no_nuke s0"
    and "u_control_f s0 \<noteq> u_trn_f s0"
  shows "restored False s0 s'"
proof -
  from assms(1) obtain c1 cb s1 where 1: "edit_start name t not_deleted s = Some (c1, cb, s1)"
    and r: "c1 \<noteq> OK \<Longrightarrow> c = c1 \<and> s' = s1" and k: "c1 = OK \<Longrightarrow> c = OK"
    by (auto simp: set_trn_flags_def split: if_splits bind_splits)
  from step_edit_start [OF 1 assms(3-5), of False] r k assms(2) show ?thesis by (cases "c1 = OK") (auto simp: step_safe_def)
qed

text \<open>
  C11. Deleting, retrieving and setting flags are all or nothing: when one of them returns an error,
  every byte of the control file is as it was when the meeting had been opened, and so is every other file,
  whatever writes to disk have failed.
\<close>

theorem edit_all_or_nothing:
  assumes "delete_trn name t s = Some (c, s') \<or> retrieve_trn name t s = Some (c, s') \<or> set_trn_flags name t flags s = Some (c, s')"
    and "c \<noteq> OK" and "open_mtg name s = Some (OK, s0)" and "\<not> no_nuke s0" and "u_control_f s0 \<noteq> u_trn_f s0"
  shows "\<not> nuclear s' \<and> (\<forall>d. fdata (fs s') d = fdata (fs s0) d) \<and> links (fs s') = links (fs s0)"
proof -
  have "restored False s0 s'"
    using assms(1) delete_safe [OF _ assms(2-5)] retrieve_safe [OF _ assms(2-5)] flags_safe [OF _ assms(2-5)] by blast
  then have "fdata (fs s') d = fdata (fs s0) d" for d
    by (cases "d = u_control_f s0"; cases "d = u_trn_f s0") (auto simp: restored_def same_others_def longer_def)
  with \<open>restored False s0 s'\<close> show ?thesis by (simp add: restored_def same_others_def)
qed

theorem edit_all_or_nothing_witness:
  "\<exists>s'. delete_trn ''/m'' 9 demo_srv = Some (NO_SUCH_TRN, s') \<and> (\<forall>d. fdata (fs s') d = fdata (fs demo_srv) d)"
proof -
  note b = edit_begin [OF demo_at_rest]
  have "read_chain (with_super demo_sb ''demo'' ''srz'' (begin_atomic demo_srv)) 9 None = Some (NO_SUCH_TRN, None)"
    by (rule read_chain_none) (simp_all add: demo_sb_def)
  then obtain s' where s': "delete_trn ''/m'' 9 demo_srv = Some (NO_SUCH_TRN, s')"
    by (simp add: delete_trn_def edit_start_def open_on_again [OF demo_open] b(1))
  have "\<not> no_nuke demo_srv" "u_control_f demo_srv \<noteq> u_trn_f demo_srv" by (simp_all add: demo_srv_def)
  with edit_all_or_nothing [of "''/m''" 9 demo_srv NO_SUCH_TRN s' 0 demo_srv] s' show ?thesis
    by (simp add: open_on_again [OF demo_open])
qed

subsection \<open>Adding\<close>

text \<open>Writes behind the old end of the transaction file.\<close>

lemma session_trn_write:
  assumes "in_session True s0 s" and "trn_write s pos n b = (r, s')" and "u_control_f s0 \<noteq> u_trn_f s0"
    and "length (fdata (fs s0) (u_trn_f s0)) \<le> pos"
  shows "in_session True s0 s'"
proof (cases "n < 0")
  case True
  with assms show ?thesis by (simp add: trn_write_def)
next
  case False
  from assms(1) have u: "u_control_f s = u_control_f s0" "u_trn_f s = u_trn_f s0"
    and l: "take (length (fdata (fs s0) (u_trn_f s0))) (fdata (fs s) (u_trn_f s0)) = fdata (fs s0) (u_trn_f s0)"
    by (simp_all add: in_session_def same_others_def longer_def)
  from False assms(2) obtain f where w: "sys_write (fs s) (u_trn_f s0) pos (take (nat n) b) = (r, f)" and s': "s' = s\<lparr>fs := f\<rparr>"
    by (auto simp: trn_write_def u split: prod.splits)
  note o = sys_write_other_files [OF w]
  have c: "inodes f d = inodes (fs s) d" if "d \<noteq> u_trn_f s0" for d using o that by (simp add: other_files_def)
  have "length (fdata (fs s0) (u_trn_f s0)) \<le> length (fdata (fs s) (u_trn_f s0))" using l by (metis length_take min.cobounded1)
  then have "take (length (fdata (fs s0) (u_trn_f s0))) (fdata f (u_trn_f s0)) = fdata (fs s0) (u_trn_f s0)"
    using sys_write_data [OF w, of "u_trn_f s0"] l take_overwrite [OF assms(4), of "fdata (fs s) (u_trn_f s0)"]
      sys_write_result [OF w] w by (auto simp: sys_write_def split: list.splits bool.splits)
  moreover have "ctl_inv s'"
    using assms(1,3) c by (auto simp: in_session_def ctl_inv_def s' af_ok_def u)
  ultimately show ?thesis
    using assms(1,3) c o by (simp add: in_session_def same_others_def longer_def s' u other_files_def)
qed

text \<open>A write that fails changes nothing.\<close>

lemma session_trn_failed:
  assumes "in_session g s0 s" and "trn_write s pos n b = (r, s')" and "r \<noteq> n" and "n = int (length b)"
  shows "in_session g s0 s'"
proof -
  obtain fl where "s' = s \<or> s' = s\<lparr>fs := (fs s)\<lparr>faults := fl\<rparr>\<rparr>"
    using assms(2-4) by (auto simp: trn_write_def sys_write_def split: if_splits prod.splits list.splits bool.splits)
  with assms(1) show ?thesis by (auto simp: in_session_def same_others_def ctl_inv_def af_ok_def)
qed

lemma tread_fields:
  assumes "tread n s = Some (r, b, c, s')"
  shows "fs s' = fs s" "nuclear s' = nuclear s" "a_control_f s' = a_control_f s" "u_control_f s' = u_control_f s" "u_trn_f s' = u_trn_f s"
  using assms by (auto simp: tread_def set_kind_def Let_def split: option.splits tkind.splits prod.splits bind_splits)

lemma session_copy_loop:
  assumes "copy_loop tfs pos nl s = Some (c, k, s')" and "in_session True s0 s" and "u_control_f s0 \<noteq> u_trn_f s0"
    and "length (fdata (fs s0) (u_trn_f s0)) \<le> pos"
  shows "in_session True s0 s'"
proof -
  let ?P = "\<lambda>tfs pos nl s (y :: code \<times> int \<times> srv). in_session True s0 s \<longrightarrow> length (fdata (fs s0) (u_trn_f s0)) \<le> pos \<longrightarrow> in_session True s0 (snd (snd y))"
  have "?P tfs pos nl s (c, k, s')"
  proof (rule copy_loop.raw_induct [OF _ assms(1), where P = ?P], intro impI)
    fix cl tfs pos nl s and y :: "code \<times> int \<times> srv"
    assume IH: "\<And>tfs pos nl s y. cl tfs pos nl s = Some y \<Longrightarrow> ?P tfs pos nl s y"
      and body: "(if tfs \<le> 0 then Some (OK, nl, s) else do { (tocopy, b, c, s) \<leftarrow> tread (nat (min 512 tfs)) s;
                if c \<noteq> OK then Some (c, nl, s)
                else let (r, s) = trn_write s pos tocopy b in
                  if r \<noteq> tocopy then Some (NO_WRITE, nl, s)
                  else cl (tfs - tocopy) (pos + nat tocopy) (nl + count_nl b) s }) = Some y"
      and s: "in_session True s0 s" "length (fdata (fs s0) (u_trn_f s0)) \<le> pos"
    show "in_session True s0 (snd (snd y))"
    proof (cases "tfs \<le> 0")
      case True
      with body s show ?thesis by auto
    next
      case False
      with body obtain tocopy b c1 s1 where t: "tread (nat (min 512 tfs)) s = Some (tocopy, b, c1, s1)"
        and k: "(if c1 \<noteq> OK then Some (c1, nl, s1) else let (r, s) = trn_write s1 pos tocopy b in
                  if r \<noteq> tocopy then Some (NO_WRITE, nl, s) else cl (tfs - tocopy) (pos + nat tocopy) (nl + count_nl b) s) = Some y"
        by (auto split: bind_splits)
      have s1: "in_session True s0 s1" by (rule session_same [OF s(1)]) (use tread_fields [OF t] in simp_all)
      obtain r s2 where w: "trn_write s1 pos tocopy b = (r, s2)" by fastforce
      note s2 = session_trn_write [OF s1 w assms(3) s(2)]
      show ?thesis
        using k s1 s2 IH [of "tfs - tocopy" "pos + nat tocopy" "nl + count_nl b" s2 y] s(2) by (auto simp: w split: if_splits)
    qed
  qed
  with assms(2,4) show ?thesis by simp
qed

lemma session_length:
  assumes "in_session True s0 s"
  shows "length (fdata (fs s0) (u_trn_f s0)) \<le> length (fdata (fs s) (u_trn_f s))"
proof -
  have "take (length (fdata (fs s0) (u_trn_f s0))) (fdata (fs s) (u_trn_f s)) = fdata (fs s0) (u_trn_f s0)"
    using assms by (simp add: in_session_def same_others_def longer_def)
  then show ?thesis by (metis length_take min.cobounded1)
qed

lemma session_add_strings:
  assumes "add_strings s th subject author sg = (p, s')" and "in_session True s0 s" and "u_control_f s0 \<noteq> u_trn_f s0"
  shows "in_session True s0 s' \<and> (\<forall>q. p = Some q \<longrightarrow> length (fdata (fs s0) (u_trn_f s0)) \<le> q)"
proof -
  note w = session_trn_write [OF _ _ assms(3)]
  define n where "n = length (fdata (fs s) (u_trn_f s))"
  have l: "length (fdata (fs s0) (u_trn_f s0)) \<le> n" using session_length [OF assms(2)] by (simp add: n_def)
  obtain r1 s1 where 1: "trn_write s n (int HDR_SIZE) (enc_hdr (disk_hdr s th)) = (r1, s1)" by fastforce
  note i1 = w [OF assms(2) 1 l]
  obtain r2 s2 where 2: "trn_write s1 (n + HDR_SIZE) (th_subject_len th) (subject @ [NUL]) = (r2, s2)" by fastforce
  have i2: "in_session True s0 s2" using w [OF i1 2] l by simp
  define q where "q = n + HDR_SIZE + nat (th_subject_len th)"
  have lq: "length (fdata (fs s0) (u_trn_f s0)) \<le> q" using l by (simp add: q_def)
  show ?thesis
  proof (cases sg)
    case None
    obtain r3 s3 where 3: "trn_write s2 q (th_author_len th) (author @ [NUL]) = (r3, s3)" by fastforce
    from w [OF i2 3 lq] i1 i2 lq assms(1) None show ?thesis
      by (auto simp: add_strings_def Let_def 1 2 3 split: if_splits simp flip: n_def q_def)
  next
    case (Some g)
    define k where "k = int (length author) + 1"
    obtain r3 s3 where 3: "trn_write s2 q k (author @ [NUL]) = (r3, s3)" by fastforce
    note i3 = w [OF i2 3 lq]
    obtain r4 s4 where 4: "trn_write s3 (q + nat k) (th_author_len th - k) (g @ [NUL]) = (r4, s4)" by fastforce
    have "in_session True s0 s4" using w [OF i3 4] lq by simp
    with i1 i2 i3 lq assms(1) Some show ?thesis
      by (auto simp: add_strings_def Let_def 1 2 3 4 split: if_splits simp flip: n_def q_def k_def)
  qed
qed

lemma restored_same: "restored g s0 s \<Longrightarrow> fs s' = fs s \<Longrightarrow> nuclear s' = nuclear s \<Longrightarrow> u_control_f s' = u_control_f s \<Longrightarrow>
    u_trn_f s' = u_trn_f s \<Longrightarrow> restored g s0 s'"
  by (simp add: restored_def same_others_def)

lemma add_text_safe:
  assumes "add_text cb subject author sg date s = Some (c, n, s')" and "c \<noteq> OK" and "in_session True s0 s"
    and "u_control_f s0 \<noteq> u_trn_f s0"
  shows "restored True s0 s'"
proof -
  define sb where "sb = (super s)\<lparr>ms_last := cb_current cb,
     ms_first := (if ms_first (super s) = 0 then cb_current cb else ms_first (super s)), ms_date_modified := date,
     ms_high_water := i32 (ms_high_water (super s) + int CHAIN_SIZE)\<rparr>"
  define kg where "kg = (case sg of None \<Rightarrow> None | Some sg \<Rightarrow> if sg = [] \<or> sg = author then None else Some sg)"
  define s1 where "s1 = s\<lparr>super := sb\<lparr>ms_highest_trn_addr := cb_trn_addr cb\<rparr>\<rparr>"
  define sj where "sj = takeWhile (\<lambda>c. c \<noteq> NL) subject"
  have i1: "in_session True s0 s1" by (rule session_same [OF assms(3)]) (simp_all add: s1_def)
  from assms(1) obtain t where t: "tf s = Some t"
    unfolding add_text_def Let_def by (auto split: bind_splits)
  define th where "th = new_hdr (s\<lparr>super := sb\<rparr>) cb sj author kg (tfsize t) (ms_highest_trn_addr sb)"
  obtain p s2 where p: "add_strings s1 th sj author kg = (p, s2)" by fastforce
  note i2 = session_add_strings [OF p i1 assms(4)]
  from assms(1) have r: "(case p of None \<Rightarrow> Some (NO_WRITE, None, core_abort s2)
      | Some pos \<Rightarrow>
          do { (c, num_lines, s) \<leftarrow> copy_loop (th_num_chars th) pos (th_num_lines th) s2;
               if c \<noteq> OK then Some (c, None, core_abort s) else
               let (_, _, s) = tclose s; s = s\<lparr>abort_file := False\<rparr>;
                   (r, s) = trn_write s (nat (cb_trn_addr cb)) (int HDR_SIZE) (enc_hdr (disk_hdr s (th\<lparr>th_num_lines := num_lines\<rparr>))) in
               if cb_trn_addr cb < 0 then None
               else if r \<noteq> int HDR_SIZE then Some (NO_WRITE, None, core_abort s)
               else do { s \<leftarrow> write_super (s\<lparr>super := (super s)\<lparr>ms_trn_fsize := fsize (fs s) (u_trn_f s)\<rparr>\<rparr>);
                         Some (OK, Some (cb_current cb), end_atomic s) } }) = Some (c, n, s')"
    unfolding add_text_def Let_def [of "super s"] Let_def [of "s\<lparr>super := _\<rparr>"]
    unfolding sb_def [symmetric] sj_def [symmetric] kg_def [symmetric]
    by (simp add: t p flip: s1_def th_def)
  show ?thesis
  proof (cases p)
    case None
    with r session_abort [OF conjunct1 [OF i2] assms(4)] show ?thesis by auto
  next
    case (Some pos)
    with r obtain c3 nl s3 where cl: "copy_loop (th_num_chars th) pos (th_num_lines th) s2 = Some (c3, nl, s3)"
      and k: "(if c3 \<noteq> OK then Some (c3, None, core_abort s3) else
               let (_, _, s) = tclose s3; s = s\<lparr>abort_file := False\<rparr>;
                   (r, s) = trn_write s (nat (cb_trn_addr cb)) (int HDR_SIZE) (enc_hdr (disk_hdr s (th\<lparr>th_num_lines := nl\<rparr>))) in
               if cb_trn_addr cb < 0 then None
               else if r \<noteq> int HDR_SIZE then Some (NO_WRITE, None, core_abort s)
               else do { s \<leftarrow> write_super (s\<lparr>super := (super s)\<lparr>ms_trn_fsize := fsize (fs s) (u_trn_f s)\<rparr>\<rparr>);
                         Some (OK, Some (cb_current cb), end_atomic s) }) = Some (c, n, s')"
      by (auto split: bind_splits)
    have i3: "in_session True s0 s3" using session_copy_loop [OF cl _ assms(4)] i2 Some by simp
    show ?thesis
    proof (cases "c3 = OK")
      case False
      with k session_abort [OF i3 assms(4)] show ?thesis by auto
    next
      case True
      obtain rr cc u where tc: "tclose s3 = (rr, cc, s3\<lparr>us := u\<rparr>)" using tclose_only by blast
      define s4 where "s4 = s3\<lparr>us := u, abort_file := False\<rparr>"
      have i4: "in_session True s0 s4" by (rule session_same [OF i3]) (simp_all add: s4_def)
      obtain q s5 where w: "trn_write s4 (nat (cb_trn_addr cb)) (int HDR_SIZE) (enc_hdr (disk_hdr s4 (th\<lparr>th_num_lines := nl\<rparr>))) = (q, s5)"
        by fastforce
      have k5: "(if cb_trn_addr cb < 0 then None else if q \<noteq> int HDR_SIZE then Some (NO_WRITE, None, core_abort s5)
          else do { s \<leftarrow> write_super (s5\<lparr>super := (super s5)\<lparr>ms_trn_fsize := fsize (fs s5) (u_trn_f s5)\<rparr>\<rparr>);
                    Some (OK, Some (cb_current cb), end_atomic s) }) = Some (c, n, s')"
        using k unfolding True tc prod.case Let_def s4_def [symmetric] by (simp only: w prod.case simp_thms if_False)
      have "q \<noteq> int HDR_SIZE \<and> s' = core_abort s5"
      proof (cases "cb_trn_addr cb < 0 \<or> q = int HDR_SIZE")
        case True
        with k5 have "c = OK" by (cases "cb_trn_addr cb < 0") (simp_all only: if_True if_False simp_thms, auto simp: bind_eq_Some_conv)
        with assms(2) show ?thesis by simp
      next
        case False
        with k5 show ?thesis by (simp only: de_Morgan_disj if_False if_True simp_thms option.inject prod.inject)
      qed
      then have q: "q \<noteq> int HDR_SIZE" and s': "s' = core_abort s5" by simp_all
      have "in_session True s0 s5" by (rule session_trn_failed [OF i4 w q]) simp
      then show ?thesis unfolding s' by (rule session_abort [OF _ assms(4)])
    qed
  qed
qed

lemma step_add_link:
  assumes "add_link s t f sp = Some (sp', s')" and "in_session g s0 s" and "u_control_f s0 \<noteq> u_trn_f s0"
  shows "in_session g s0 s'"
  using assms by (auto simp: add_link_def split: bind_splits intro: session_write_chain)

lemma step_add_chain:
  assumes "add_chain reply desired flags rb s = Some (c, cb, s')" and "in_session g s0 s" and "u_control_f s0 \<noteq> u_trn_f s0"
  shows "step_safe g s0 c s'"
proof -
  define s1 where "s1 = s\<lparr>super := (super s)\<lparr>ms_highest := next_trn (super s) desired\<rparr>\<rparr>"
  note w = session_write_chain [OF _ _ assms(3)] and ab = session_abort [OF _ assms(3)]
  from assms(1) obtain b sp s2 where 2: "(if reply \<noteq> 0 then
                do { r \<leftarrow> rb; (_, spare) \<leftarrow> read_chain s1 (cb_trn_chain r) None; b \<leftarrow> spare;
                     Some ((new_block s1 flags)\<lparr>cb_trn_chain := cb_trn_chain r, cb_pref := cb_chain_lref b\<rparr>, spare, s1) }
              else
                let s = s1\<lparr>super := (super s1)\<lparr>ms_highest_chain := ms_highest_chain (super s1) + 1\<rparr>\<rparr>
                in Some ((new_block s1 flags)\<lparr>cb_trn_chain := ms_highest_chain (super s)\<rparr>, None, s)) = Some (b, sp, s2)"
    and k: "do { (c, s) \<leftarrow> write_chain s2 b;
           if c \<noteq> OK then Some (NO_WRITE, b, core_abort s) else
      do { (_, spare) \<leftarrow> read_chain s (cb_trn_chain b) sp;
           x \<leftarrow> spare;
           let x = x\<lparr>cb_chain_lref := cb_current b\<rparr>;
           let x = (if cb_pref b = 0 then x\<lparr>cb_chain_fref := cb_current b\<rparr> else x);
           (c, s) \<leftarrow> write_chain s x;
           if c \<noteq> OK then Some (NO_WRITE, b, core_abort s) else
      do { (spare, s) \<leftarrow> (if reply \<noteq> 0
              then add_link s (cb_pref b) (\<lambda>y. y\<lparr>cb_nref := cb_current b\<rparr>) (Some x) else Some (Some x, s));
           (spare, s) \<leftarrow> (if cb_prev b \<noteq> 0
              then add_link s (cb_prev b) (\<lambda>y. y\<lparr>cb_next := cb_current b\<rparr>) spare else Some (spare, s));
           Some (OK, b, s) } } } = Some (c, cb, s')"
    unfolding add_chain_def Let_def [of "s\<lparr>super := _\<rparr>"] Let_def [of "new_block _ _"] s1_def [symmetric]
    by (auto elim!: bind_eq_Some_conv [THEN iffD1, elim_format])
  have i2: "in_session g s0 s2"
    by (rule session_same [OF assms(2)]) (use 2 in \<open>auto simp: s1_def Let_def split: if_splits bind_splits\<close>)
  from k obtain c3 s3 where 3: "write_chain s2 b = Some (c3, s3)" by (auto split: bind_splits)
  note i3 = w [OF i2 3]
  show ?thesis
  proof (cases "c3 = OK")
    case False
    with k ab [OF i3] show ?thesis by (auto simp: 3 step_safe_def)
  next
    case True
    with k obtain x c4 s4 where 4: "write_chain s3 x = Some (c4, s4)"
      and k4: "(if c4 \<noteq> OK then Some (NO_WRITE, b, core_abort s4) else
      do { (spare, s) \<leftarrow> (if reply \<noteq> 0
              then add_link s4 (cb_pref b) (\<lambda>y. y\<lparr>cb_nref := cb_current b\<rparr>) (Some x) else Some (Some x, s4));
           (spare, s) \<leftarrow> (if cb_prev b \<noteq> 0
              then add_link s (cb_prev b) (\<lambda>y. y\<lparr>cb_next := cb_current b\<rparr>) spare else Some (spare, s));
           Some (OK, b, s) }) = Some (c, cb, s')"
      unfolding Let_def by (auto simp: 3 elim!: bind_eq_Some_conv [THEN iffD1, elim_format] simp del: if_split split del: if_split)
    note i4 = w [OF i3 4]
    show ?thesis
    proof (cases "c4 = OK")
      case False
      with k4 ab [OF i4] show ?thesis by (auto simp: step_safe_def)
    next
      case True
      with k4 obtain sp5 s5 sp6 where 5: "(if reply \<noteq> 0 then add_link s4 (cb_pref b) (\<lambda>y. y\<lparr>cb_nref := cb_current b\<rparr>) (Some x)
          else Some (Some x, s4)) = Some (sp5, s5)"
        and 6: "(if cb_prev b \<noteq> 0 then add_link s5 (cb_prev b) (\<lambda>y. y\<lparr>cb_next := cb_current b\<rparr>) sp5 else Some (sp5, s5)) = Some (sp6, s')"
        and c: "c = OK" by (auto elim!: bind_eq_Some_conv [THEN iffD1, elim_format] simp del: if_split split del: if_split)
      have "in_session g s0 s5" using 5 i4 step_add_link [OF _ i4 assms(3)] by (auto split: if_splits)
      then show ?thesis using 6 step_add_link [OF _ _ assms(3)] by (auto simp: c step_safe_def split: if_splits)
    qed
  qed
qed

text \<open>The meeting has not been expunged; else \<open>add_trn\<close> first closes it and opens it again.\<close>

definition created :: "srv \<Rightarrow> bool" where
  "created s \<longleftrightarrow> (case read_super (begin_atomic s) of Some (c, s1) \<Rightarrow> c = OK \<longrightarrow> ms_date_created (super s1) \<noteq> 0 | None \<Rightarrow> True)"

lemma step_add_start:
  assumes "add_start name reply s = Some (c, rb, s')" and "topen CHR ''r'' s = Some (0, OK, s1)"
    and "open_mtg name (s1\<lparr>abort_file := True\<rparr>) = Some (OK, s0)" and "created s0" and "\<not> no_nuke s0" and "\<not> nuclear s0"
    and "u_control_f s0 \<noteq> u_trn_f s0"
  shows "step_safe g s0 c s'"
proof -
  note b = session_begin [OF assms(5), of g]
  have ab: "restored g s0 (core_abort s0)"
    using assms(6) by (simp add: restored_def same_others_def core_abort_fields)
  note rs = session_read_super [OF b] and ab2 = session_abort [OF _ assms(7)]
  from assms(1-4) obtain ok where k: "(if \<not> ok then Some (NO_ACCESS, None, core_abort s0) else
     do { (c, s) \<leftarrow> read_super (begin_atomic s0);
          if c \<noteq> OK then Some (c, None, core_abort s) else
     do { (c, s) \<leftarrow> (if ms_date_created (super s) = 0 then reopen_expunged name s else Some (OK, s));
          if c \<noteq> OK then Some (c, None, s)
          else if reply = 0 then Some (OK, None, s)
          else do { (c, cb) \<leftarrow> read_chain s reply None;
                    if c \<noteq> OK then Some (c, None, core_abort s)
                    else do { b \<leftarrow> cb;
                              if deleted b then Some (DELETED_TRN, None, core_abort s)
                              else Some (OK, cb, s) } } } }) = Some (c, rb, s')"
    by (auto simp: add_start_def elim!: bind_eq_Some_conv [THEN iffD1, elim_format])
  show ?thesis
  proof (cases ok)
    case False
    with k ab show ?thesis by (auto simp: step_safe_def)
  next
    case True
    with k obtain c2 s2 where 2: "read_super (begin_atomic s0) = Some (c2, s2)" by (auto simp: bind_eq_Some_conv)
    note i2 = rs [OF 2]
    from k True assms(4) show ?thesis
      using i2 ab2 [OF i2] by (auto simp: 2 created_def step_safe_def split: if_splits bind_splits)
  qed
qed

lemma add_restored:
  assumes "add_trn2 name subject sg reply s = Some (c, n, s')" and "c \<noteq> OK" and "topen CHR ''r'' s = Some (0, OK, s1)"
    and "open_mtg name (s1\<lparr>abort_file := True\<rparr>) = Some (OK, s0)" and "created s0" and "\<not> no_nuke s0" and "\<not> nuclear s0"
    and "u_control_f s0 \<noteq> u_trn_f s0"
  shows "restored True s0 s'"
proof -
  from assms(1) obtain c2 rb s2 where 2: "add_start name reply s = Some (c2, rb, s2)"
    and k2: "(if c2 \<noteq> OK then Some (c2, None, s2) else
     do { (c, cb, s3) \<leftarrow> add_chain reply 0 0 rb s2;
          if c \<noteq> OK then Some (c, None, s3)
          else add_text cb subject (rpc_caller s) (Some sg) (time_now s) s3 }) = Some (c, n, s')"
    by (auto simp: add_trn2_def add_trn_priv_def elim!: bind_eq_Some_conv [THEN iffD1, elim_format])
  note st = step_add_start [OF 2 assms(3-8), of True]
  show ?thesis
  proof (cases "c2 = OK")
    case False
    with k2 st show ?thesis by (auto simp: step_safe_def)
  next
    case True
    with st have i2: "in_session True s0 s2" by (simp add: step_safe_def)
    from k2 True obtain c3 cb s3 where 3: "add_chain reply 0 0 rb s2 = Some (c3, cb, s3)"
      and k3: "(if c3 \<noteq> OK then Some (c3, None, s3)
          else add_text cb subject (rpc_caller s) (Some sg) (time_now s) s3) = Some (c, n, s')"
      by (auto simp: bind_eq_Some_conv)
    from step_add_chain [OF 3 i2 assms(8)] k3 add_text_safe [OF _ assms(2) _ assms(8)] show ?thesis
      by (cases "c3 = OK") (auto simp: step_safe_def)
  qed
qed

text \<open>
  C12. Adding is all or nothing for the meeting: when \<open>add_trn2\<close> returns an error, for instance because
  the disk is full, the control file is as it was when the meeting had been opened; what was
  in the transaction file is still there, with perhaps some bytes behind it, and no other file has changed.
\<close>

theorem add_all_or_nothing:
  assumes "add_trn2 name subject sg reply s = Some (c, n, s')" and "c \<noteq> OK" and "topen CHR ''r'' s = Some (0, OK, s1)"
    and "open_mtg name (s1\<lparr>abort_file := True\<rparr>) = Some (OK, s0)" and "created s0" and "\<not> no_nuke s0" and "\<not> nuclear s0"
    and "u_control_f s0 \<noteq> u_trn_f s0"
  shows "fdata (fs s') (u_control_f s0) = fdata (fs s0) (u_control_f s0) \<and>
    (\<exists>more. fdata (fs s') (u_trn_f s0) = fdata (fs s0) (u_trn_f s0) @ more) \<and>
    (\<forall>d. d \<noteq> u_control_f s0 \<and> d \<noteq> u_trn_f s0 \<longrightarrow> inodes (fs s') d = inodes (fs s0) d) \<and>
    links (fs s') = links (fs s0) \<and> \<not> nuclear s'"
proof -
  have r: "\<not> nuclear s'" "same_others True s0 s'" "fdata (fs s') (u_control_f s0) = fdata (fs s0) (u_control_f s0)"
    using add_restored [OF assms] by (simp_all add: restored_def)
  then have "fdata (fs s') (u_trn_f s0) = fdata (fs s0) (u_trn_f s0) @ drop (length (fdata (fs s0) (u_trn_f s0))) (fdata (fs s') (u_trn_f s0))"
    by (metis append_take_drop_id longer_def same_others_def)
  with r show ?thesis unfolding same_others_def by blast
qed

theorem add_all_or_nothing_witness:
  "\<exists>s'. add_trn2 ''/m'' ''Re'' [] 9 (posting ''yes'') = Some (NO_SUCH_TRN, None, s') \<and>
    fdata (fs s') 1 = fdata (fs demo_srv) 1 \<and> \<not> nuclear s'"
proof -
  define s0 where "s0 = (posting ''yes'')\<lparr>abort_file := True\<rparr>"
  have o: "open_mtg ''/m'' s0 = Some (OK, s0)"
    by (rule open_on_again, rule open_on_added [OF demo_open]) (simp add: s0_def add_frame_def posting_def)
  have r: "at_rest s0 demo_sb ''demo'' ''srz'' demo_chains"
    using demo_at_rest by (simp add: at_rest_def s0_def posting_def)
  note b = edit_begin [OF r]
  have t: "topen CHR ''r'' (posting ''yes'') = Some (0, OK, posting ''yes'')" using posting_sends [of "''yes''"] by (simp add: sends_def)
  have cr: "created s0" "ms_date_created demo_sb \<noteq> 0" by (simp_all add: created_def b(1,4)) (simp_all add: demo_sb_def)
  have a: "has_mtg_access s0 CHR ''a'' = Some True"
    by (simp add: s0_def posting_def has_mtg_access_def check_acl_def demo_srv_def demo_acl_def acl_is_subset_def)
  have "read_chain (with_super demo_sb ''demo'' ''srz'' (begin_atomic s0)) 9 None = Some (NO_SUCH_TRN, None)"
    by (rule read_chain_none) (simp_all add: demo_sb_def)
  then obtain s' where s': "add_trn2 ''/m'' ''Re'' [] 9 (posting ''yes'') = Some (NO_SUCH_TRN, None, s')"
    using cr(2) by (simp add: add_trn2_def add_trn_priv_def add_start_def t o b(1) a flip: s0_def)
  have f: "\<not> no_nuke s0" "\<not> nuclear s0" "u_control_f s0 = 1" "u_trn_f s0 = 2" "fs s0 = fs demo_srv"
    by (simp_all add: s0_def posting_def demo_srv_def)
  from add_all_or_nothing [OF s' _ t _ cr(1) f(1,2)] o f s' show ?thesis by (simp flip: s0_def)
qed

end
