(* ===== verification/Starve.thy ===== *)
theory Starve
  imports Add
begin

text \<open>
  A client that announces more bytes than it sends.  The block that carries the text ends, \<open>tread\<close> gives
  no bytes and no error, and the loop that copies the text goes round for ever.
\<close>

lemma tread_net:
  assumes "net_src s p"
  shows "\<exists>s'. tread n s = Some (int (length (take n p)), take n p, OK, s') \<and> net_src s' (drop n p) \<and> fs s' = fs s"
proof -
  from assms obtain t i rest where t: "tf s = Some t" "tf_kind t = Tnet i" "recving (us s) p rest" by (auto simp: net_src_def)
  from t(3) obtain u1 where "get_from_sub_block (us s) n = (SUCCESS, take n p, u1)" "recving u1 (drop n p) rest"
    by (rule get_payload [where n = n])
  with t show ?thesis by (auto simp: tread_def tnet_read_def USP_get_byte_block_def net_src_def)
qed

lemma net_src_fs: "net_src (s\<lparr>fs := f\<rparr>) p = net_src s p"
  by (simp add: net_src_def)

lemma copy_loop_starved:
  assumes "net_src s p" and "int (length p) < tfs" and "faults (fs s) = []"
  shows "copy_loop tfs pos nl s = None"
proof (rule ccontr)
  assume "copy_loop tfs pos nl s \<noteq> None"
  then obtain y where y: "copy_loop tfs pos nl s = Some y" by auto
  let ?P = "\<lambda>tfs pos nl (s :: srv) (y :: code \<times> int \<times> srv). \<not> (\<exists>p. net_src s p \<and> int (length p) < tfs \<and> faults (fs s) = [])"
  have "?P tfs pos nl s y"
  proof (rule copy_loop.raw_induct [OF _ y, where P = ?P], intro notI, elim exE conjE)
    fix cl tfs pos nl p and s :: srv and y :: "code \<times> int \<times> srv"
    assume IH: "\<And>tfs pos nl s y. cl tfs pos nl s = Some y \<Longrightarrow> ?P tfs pos nl s y"
      and body: "(if tfs \<le> 0 then Some (OK, nl, s) else do { (tocopy, b, c, s) \<leftarrow> tread (nat (min 512 tfs)) s;
                if c \<noteq> OK then Some (c, nl, s)
                else let (r, s) = trn_write s pos tocopy b in
                  if r \<noteq> tocopy then Some (NO_WRITE, nl, s)
                  else cl (tfs - tocopy) (pos + nat tocopy) (nl + count_nl b) s }) = Some y"
      and s: "net_src s p" "int (length p) < tfs" "faults (fs s) = []"
    define n where "n = nat (min 512 tfs)"
    from tread_net [OF s(1), of n] obtain s1 where
      1: "tread n s = Some (int (length (take n p)), take n p, OK, s1)" "net_src s1 (drop n p)" "fs s1 = fs s" by blast
    define k where "k = length (take n p)"
    obtain f where w: "sys_write (fs s1) (u_trn_f s1) pos (take n p) = (int k, f)" "faults f = []"
      using s(3) by (simp add: sys_write_ok 1(3) k_def)
    have kp: "take k (take n p) = take n p" by (simp add: k_def min_def)
    have "trn_write s1 pos (int k) (take n p) = (int k, s1\<lparr>fs := f\<rparr>)" unfolding trn_write_def using w(1) kp by simp
    with body 1(1) s(2) have "cl (tfs - int k) (pos + k) (nl + count_nl (take n p)) (s1\<lparr>fs := f\<rparr>) = Some y"
      by (simp add: n_def [symmetric] k_def [symmetric] del: length_take)
    from IH [OF this] have "\<not> (net_src (s1\<lparr>fs := f\<rparr>) (drop n p) \<and> int (length (drop n p)) < tfs - int k \<and> faults f = [])"
      using w(2) by (auto simp del: length_drop)
    moreover have "int (length (drop n p)) < tfs - int k" using s(2) by (simp add: k_def)
    ultimately show False using 1(2) w(2) by (simp add: net_src_fs)
  qed
  with assms show False by blast
qed

subsection \<open>The call\<close>

text \<open>The call up to the record: the blocks are linked, and the record is still to be written.\<close>

lemma add_before_text:
  assumes "topen CHR ''r'' s = Some (0, OK, s1)" and "add_ready s name sb ln ch m reply"
    and "record_fits (length (fdata (fs s) (u_trn_f s))) sj author kg q"
  shows "\<exists>cb s3. add_trn_priv name subject sg reply 0 author' date 0 s = add_text cb subject author' sg date s3 \<and>
    faults (fs s3) = [] \<and> us s3 = us s1 \<and> tf s3 = tf s1 \<and> u_trn_f s3 = u_trn_f s \<and>
    fdata (fs s3) (u_trn_f s) = fdata (fs s) (u_trn_f s) \<and> cb_trn_addr cb = int (length (fdata (fs s) (u_trn_f s)))"
proof -
  from assms(2) have r: "open_on s name" "at_rest s sb ln ch m" "mtg_inv sb m" "may_add s m reply" "ms_date_created sb \<noteq> 0"
    "ms_chain_start sb + (ms_highest sb + 1) * int CHAIN_SIZE \<le> int ALIMIT" "fdata (fs s) (u_trn_f s) \<noteq> []"
    by (simp_all add: add_ready_def)
  define s2 where "s2 = with_super sb ln ch (begin_atomic (s1\<lparr>abort_file := True\<rparr>))"
  note a = add_start_ok [OF assms(1) r(1,2,4,5), folded s2_def]
  obtain rb where rb: "add_start name reply s = Some (OK, rb, s2)" "reply_ok m reply rb" using a(1) by blast
  from a(4) have f2: "u_trn_f s2 = u_trn_f s" "u_control_f s2 = u_control_f s" by (simp_all add: add_frame_def)
  have room: "room_for s2" using r(6,7) assms(3) by (auto simp: room_for_def a(3,5) f2 record_fits_def)
  have inv: "mtg_inv (super s2) m" using r(3) by (simp add: a(3))
  define cb where "cb = next_block s2 m reply rb"
  have want: "0 \<le> ms_highest (super s2) + 1" using a(2) by (simp add: editing_def rep_def sb_ok_def)
  from add_chain_ok [OF a(2) inv room rb(2) want, folded cb_def] obtain s3 where
    s3: "add_chain reply 0 0 rb s2 = Some (OK, cb, s3)" "op_frame s2 s3" "editing s3 ln ch (linked_in cb (m(ms_highest sb + 1 \<mapsto> cb)))"
    by (auto simp: a(3))
  note f3 = op_frame_fields [OF s3(2)]
  have "u_control_f s \<noteq> u_trn_f s" using r(1) by (simp add: open_on_def)
  then have "fdata (fs s3) (u_trn_f s) = fdata (fs s) (u_trn_f s)"
    using f3(14) a(5) unfolding other_files_def f3 f2 by metis
  moreover have "cb_trn_addr cb = int (length (fdata (fs s) (u_trn_f s)))"
    using room_fsize [OF room] by (simp add: cb_def next_block_def new_block_def a(5) f2)
  moreover have "faults (fs s3) = []" using s3(3) by (simp add: editing_def rep_def ctl_ok_def)
  ultimately show ?thesis
    using f3(1,2) a(6,7) by (intro exI [of _ cb] exI [of _ s3]) (simp add: add_trn_priv_def rb(1) s3(1) f3 f2)
qed

text \<open>What the record is written with: the superblock of the new transaction, and the header.\<close>

definition super_new :: "srv \<Rightarrow> chain_blk \<Rightarrow> int \<Rightarrow> mtg_super" where
  "super_new s cb date = (super s)\<lparr>ms_last := cb_current cb,
     ms_first := (if ms_first (super s) = 0 then cb_current cb else ms_first (super s)), ms_date_modified := date,
     ms_high_water := i32 (ms_high_water (super s) + int CHAIN_SIZE)\<rparr>"

lemma add_text_strings:
  fixes cb :: chain_blk and date :: int and author :: string and subject :: string and sg :: "string option"
  assumes "tf s = Some t"
  defines "sb \<equiv> super_new s cb date"
  defines "th \<equiv> new_hdr (s\<lparr>super := sb\<rparr>) cb (first_line subject) author (kept_sig author sg) (tfsize t) (ms_highest_trn_addr sb)"
  assumes "add_strings (s\<lparr>super := sb\<lparr>ms_highest_trn_addr := cb_trn_addr cb\<rparr>\<rparr>) th (first_line subject) author (kept_sig author sg) = (p, s3)"
  shows "p = None \<Longrightarrow> add_text cb subject author sg date s = Some (NO_WRITE, None, core_abort s3)"
    and "p = Some k \<Longrightarrow> copy_loop (th_num_chars th) k (th_num_lines th) s3 = None \<Longrightarrow> add_text cb subject author sg date s = None"
  unfolding add_text_def Let_def [of "super s"] Let_def [of "s\<lparr>super := _\<rparr>"] unfolding super_new_def [symmetric] sb_def [symmetric]
  unfolding first_line_def [symmetric] kept_sig_def [symmetric]
  by (simp_all add: assms(1) th_def [symmetric] assms(4) Let_def [of "kept_sig _ _"] Let_def [of "first_line _"] Let_def [of th])

lemma add_text_starved:
  assumes "faults (fs s) = []" and "tf s = Some t" and "tfsize t = int (length q)"
    and "net_src s p" and "length p < length q" and "cb_trn_addr cb = int (length (fdata (fs s) (u_trn_f s)))"
    and "record_fits (length (fdata (fs s) (u_trn_f s))) (first_line subject) author (kept_sig author sg) q"
  shows "add_text cb subject author sg date s = None"
proof -
  define sb where "sb = super_new s cb date"
  define th where "th = new_hdr (s\<lparr>super := sb\<rparr>) cb (first_line subject) author (kept_sig author sg) (tfsize t) (ms_highest_trn_addr sb)"
  define s2 where "s2 = s\<lparr>super := sb\<lparr>ms_highest_trn_addr := cb_trn_addr cb\<rparr>\<rparr>"
  have l: "hdr_lens th (first_line subject) author (kept_sig author sg)"
    unfolding th_def assms(3) by (rule new_hdr_fields(6) [OF assms(7,6)])
  have f2: "faults (fs s2) = []" "us s2 = us s" "tf s2 = tf s" using assms(1) by (simp_all add: s2_def)
  from add_strings_ok [OF f2(1) l] obtain k s3 bs where
    3: "add_strings s2 th (first_line subject) author (kept_sig author sg) = (Some k, s3)" "grown s2 bs s3" by blast
  have f3: "us s3 = us s" "tf s3 = tf s" "faults (fs s3) = []"
    using add_strings_stream [OF 3(1)] f2 3(2) by (simp_all add: grown_def trn_only_def)
  have "net_src s3 p" using assms(4) by (simp add: net_src_def f3)
  from copy_loop_starved [OF this _ f3(3), of "int (length q)"] assms(5) have
    4: "copy_loop (int (length q)) k nl s3 = None" for nl by simp
  have "th_num_chars th = int (length q)" by (simp add: th_def new_hdr_def Let_def assms(3))
  with 4 show ?thesis
    using add_text_strings(2) [OF assms(2) 3(1) [unfolded s2_def th_def sb_def] refl] unfolding th_def sb_def by simp
qed

text \<open>
  C36. A call that never returns.  When the caller announces a text and sends a block that ends before it,
  the loop that copies the text reads no bytes, gets no error, and goes on: \<open>add_trn2\<close> does not
  return, and the server stays inside the call.
\<close>

theorem add_trn2_starved:
  assumes "add_ready s name sb ln ch m reply" and "tf s = Some (net_tfile (int (length txt)))"
    and "us_in (us s) = be 2 TFILE_BLK @ f @ rest" and "framed p f" and "length p < length txt"
    and "record_fits (length (fdata (fs s) (u_trn_f s))) (first_line subject) (rpc_caller s) (kept_sig (rpc_caller s) (Some sg)) txt"
  shows "add_trn2 name subject sg reply s = None"
proof -
  from rcv_blk_payload [OF assms(3,4)] obtain u where u: "USP_rcv_blk (us s) = Some (SUCCESS, TFILE_BLK, u)" "recving u p rest"
    by (auto simp: TFILE_BLK_def fits_u_def CONNECTION_OPEN_def CONNECTION_ERROR_def CONNECTION_END_def)
  define s1 where "s1 = set_kind (net_tfile (int (length txt))) (Tnet 1) (s\<lparr>us := u\<rparr>)"
  have opn: "topen CHR ''r'' s = Some (0, OK, s1)"
    using assms(2) u(1) by (simp add: topen_def net_tfile_def tnet_open_def s1_def)
  obtain t where t: "tf s1 = Some t" "tfsize t = int (length txt)" "net_src s1 p"
    using u(2) by (auto simp: s1_def set_kind_def net_tfile_def tfsize_def net_src_def)
  from add_before_text [OF opn assms(1,6)] obtain cb s3 where
    c: "add_trn_priv name subject (Some sg) reply 0 (rpc_caller s) (time_now s) 0 s =
      add_text cb subject (rpc_caller s) (Some sg) (time_now s) s3"
    and s3: "faults (fs s3) = []" "us s3 = us s1" "tf s3 = tf s1" "u_trn_f s3 = u_trn_f s"
      "fdata (fs s3) (u_trn_f s) = fdata (fs s) (u_trn_f s)" "cb_trn_addr cb = int (length (fdata (fs s) (u_trn_f s)))" by blast
  have "add_text cb subject (rpc_caller s) (Some sg) (time_now s) s3 = None"
    by (rule add_text_starved [OF s3(1) _ t(2) _ assms(5)]) (use s3 t assms(6) in \<open>simp_all add: net_src_def\<close>)
  with c show ?thesis by (simp add: add_trn2_def)
qed

theorem add_trn2_starved_witness:
  "add_trn2 ''/m'' ''Re'' ''me'' 2
     ((posting [])\<lparr>tf := Some (net_tfile 3), us := new_stream (be 2 TFILE_BLK @ sub_block True ''hi'')\<rparr>) = None"
proof -
  let ?s = "(posting [])\<lparr>tf := Some (net_tfile 3), us := new_stream (be 2 TFILE_BLK @ sub_block True ''hi'')\<rparr>"
  have e: "fs ?s = fs demo_srv" "u_trn_f ?s = u_trn_f demo_srv" "rpc_caller ?s = ''srz''" by (simp_all add: posting_fields)
  have a: "add_frame (posting []) ?s" by (simp add: add_frame_def)
  have x: "has_mtg_access ?s = has_mtg_access (posting [])" by (rule access_cong) simp_all
  have "add_ready ?s ''/m'' demo_sb ''demo'' ''srz'' demo_chains 2"
    using posting_ready [of "[]"] open_on_added [OF _ a] by (simp add: add_ready_def at_rest_def may_add_def x)
  moreover have "record_fits (length (fdata (fs ?s) (u_trn_f ?s))) (first_line ''Re'') (rpc_caller ?s)
      (kept_sig (rpc_caller ?s) (Some ''me'')) ''hi!''"
    by (simp add: e record_fits_def first_line_def kept_sig_def author_text_def)
      (simp add: demo_srv_def demo_mtg_fs_def demo_trns_def mtg_layout)
  ultimately show ?thesis
    using add_trn2_starved [of ?s "''/m''" demo_sb "''demo''" "''srz''" demo_chains 2 "''hi!''" "sub_block True ''hi''" "[]" "''hi''" "''Re''" "''me''"]
      framed_last [of "''hi''"] by (simp add: new_stream_def)
qed

end
