(* ===== verification/Flags.thy ===== *)
theory Flags
  imports Retrieve
begin

text \<open>
  Setting the flags of a transaction: the operation writes one block and leaves the superblock alone, so
  the head of the control file has to be seen to stay as it was.
\<close>

subsection \<open>The head of the file\<close>

lemma same_head_in:
  assumes "head_in (ctl_view s) sw sb ln ch" and "same_head s s'" and "sb_ok sb" and "names_ok sb ln ch" and "super s = sb"
  shows "head_in (ctl_view s') sw sb ln ch"
proof -
  from assms(2) have l: "length (ctl_view s) \<le> length (ctl_view s')"
    and sl: "\<And>q n. q + n \<le> nat (ms_chain_start sb) \<Longrightarrow> q + n \<le> length (ctl_view s) \<Longrightarrow> slice q n (ctl_view s') = slice q n (ctl_view s)"
    by (auto simp: same_head_def assms(5))
  have "string_in (ctl_view s') a str" if "string_in (ctl_view s) a str" "string_area sb a k str" for a k str
  proof -
    from that have "nat a + (length str + 1) \<le> nat (ms_chain_start sb)" "nat a + (length str + 1) \<le> length (ctl_view s)"
      by (auto simp: string_in_def string_area_def)
    from sl [OF this] that l show ?thesis by (simp add: string_in_def)
  qed
  moreover have "SUPER_SIZE \<le> nat (ms_chain_start sb)" using assms(3) by (simp add: sb_ok_def le_nat_iff)
  ultimately show ?thesis
    using assms(1,4) sl [of 0 SUPER_SIZE] l by (auto simp: head_in_def names_ok_def)
qed

subsection \<open>The flags\<close>

lemma flags_value: "i16 ((x AND CB_DELETED) OR (y AND NOT CB_DELETED)) AND CB_DELETED = x AND CB_DELETED"
  by (simp add: deleted_i16) (rule bit_eqI, auto simp: bit_simps)

text \<open>Ending an operation that did not touch the superblock.\<close>

lemma edit_quit:
  assumes "editing s ln ch m" and "head_in (ctl_view s) (mtg_swapped s) (super s) ln ch"
  shows "at_rest (end_atomic (forget_super s)) (super s) ln ch m" and "op_frame s (end_atomic (forget_super s))"
proof -
  let ?s2 = "forget_super s"
  from assms(1) have e: "ctl_ok s" "sb_ok (super s)" "names_ok (super s) ln ch" "blocks_in (ctl_view s) (mtg_swapped s) (super s) m"
    and n: "nuclear s \<longleftrightarrow> \<not> no_nuke s" by (auto simp: editing_def rep_def)
  have f: "fs ?s2 = fs s" "nuclear ?s2 = nuclear s" "no_nuke ?s2 = no_nuke s" "a_control_f ?s2 = a_control_f s" "u_control_f ?s2 = u_control_f s"
    by (simp_all add: forget_super_def)
  have "op_frame ?s2 (end_atomic ?s2)"
    by (rule end_atomic_frame) (use e(1) n in \<open>simp_all add: ctl_ok_def ctl_inv_def f\<close>)
  from op_frame_trans [OF op_frame_steps(5) this] show fr: "op_frame s (end_atomic ?s2)" .
  have "fdata (fs (end_atomic ?s2)) (u_control_f s) = ctl_view s \<and> \<not> nuclear (end_atomic ?s2)"
    using e(1) n aclose_view [of "a_control_f s" "fs s"]
    by (cases "no_nuke s") (auto simp: end_atomic_def ctl_view_def ctl_ok_def ctl_inv_def f)
  moreover have "faults (fs (end_atomic ?s2)) = []"
    using op_frame_fields(14) [OF fr] e(1) by (simp add: other_files_def ctl_ok_def)
  ultimately show "at_rest (end_atomic ?s2) (super s) ln ch m"
    using assms(2) e op_frame_fields [OF fr] by (simp add: at_rest_def mtg_in_def)
qed

text \<open>The invariant does not depend on the other flags.\<close>

lemma mtg_inv_flags:
  assumes "mtg_inv sb m" and "m t = Some c" and "deleted (c\<lparr>cb_flags := f\<rparr>) = deleted c"
  shows "mtg_inv sb (m(t \<mapsto> c\<lparr>cb_flags := f\<rparr>))" and "live (m(t \<mapsto> c\<lparr>cb_flags := f\<rparr>)) = live m"
proof -
  let ?m = "m(t \<mapsto> c\<lparr>cb_flags := f\<rparr>)"
  show l: "live ?m = live m" using assms(2,3) by (auto simp: live_def)
  have k: "live_chain ?m k = live_chain m k" for k using assms(2,3) by (auto simp: live_chain_def)
  have b: "\<exists>c0. m u = Some c0 \<and> cb_trn_addr d = cb_trn_addr c0 \<and> cb_trn_chain d = cb_trn_chain c0 \<and> deleted d = deleted c0 \<and>
      linked ?m u d = linked m u c0 \<and> chain_ends ?m u d = chain_ends m u c0" if "?m u = Some d" for u d
    using that assms(2,3) by (auto simp: linked_def chain_ends_def l k split: if_splits)
  have "dom ?m = dom m" using assms(2) by auto
  then show "mtg_inv sb ?m"
    using assms(1) b unfolding mtg_inv_def l by (smt (verit))
qed

definition flagged :: "int \<Rightarrow> chain_blk \<Rightarrow> chain_blk" where
  "flagged flags c = c\<lparr>cb_flags := i16 ((cb_flags c AND CB_DELETED) OR (flags AND NOT CB_DELETED))\<rparr>"

lemma set_flags_blocks:
  assumes "open_mtg name s = Some (OK, s0)" and "at_rest s0 sb ln ch m" and "mtg_inv sb m"
    and "m t = Some c" and "\<not> deleted c" and "may_edit s0 c"
  shows "\<exists>s'. set_trn_flags name t flags s = Some (OK, s') \<and> op_frame s0 s' \<and>
    at_rest s' sb ln ch (m(t \<mapsto> flagged flags c)) \<and> mtg_inv sb (m(t \<mapsto> flagged flags c)) \<and>
    live (m(t \<mapsto> flagged flags c)) = live m"
proof -
  define d where "d = flagged flags c"
  let ?s1 = "with_super sb ln ch (begin_atomic s0)"
  note live = mtg_inv_live [OF assms(3,4,5)]
  have chk: "not_deleted c = OK" using assms(5) live(5) by (simp add: not_deleted_def)
  note e = edit_start_ok [where check = not_deleted, OF assms(1,2,4) chk assms(6)]
  have "blk_ok (super ?s1) t c" by (rule editing_blk [OF e(2) assms(4)])
  then have d: "blk_ok (super ?s1) t d" unfolding d_def flagged_def by (rule blk_ok_update) (simp add: fits_i16)
  have "rep ?s1 m" using e(2) by (simp add: editing_def)
  from write_chain_rep [OF this d] obtain s2 where s2: "write_chain ?s1 d = Some (OK, s2)" "same_head ?s1 s2" by blast
  with write_chain_editing [OF e(2) d] have g: "goes_on ?s1 s2 ln ch (m(t \<mapsto> d))" by simp
  then have e2: "editing s2 ln ch (m(t \<mapsto> d))" "super s2 = sb" "op_frame ?s1 s2" by (simp_all add: goes_on_def)
  have "mtg_swapped s2 = mtg_swapped ?s1" using op_frame_fields [OF e2(3)] by simp
  moreover have "head_in (ctl_view ?s1) (mtg_swapped ?s1) sb ln ch" "sb_ok sb" "names_ok sb ln ch"
    using assms(2) begin_atomic_view(2) [of s0] by (simp_all add: at_rest_def mtg_in_def begin_atomic_def)
  ultimately have "head_in (ctl_view s2) (mtg_swapped s2) (super s2) ln ch"
    using same_head_in [OF _ s2(2)] e2(2) by simp
  note q = edit_quit [OF e2(1) this]
  have "set_trn_flags name t flags s = Some (OK, end_atomic (forget_super s2))"
    using s2(1) by (simp add: set_trn_flags_def e(1) d_def flagged_def)
  moreover have "op_frame s0 (end_atomic (forget_super s2))"
    using edit_begin(3) [OF assms(2)] e2(3) q(2) by (blast intro: op_frame_trans)
  moreover have "deleted d = deleted c" by (simp add: d_def flagged_def flags_value)
  then have "mtg_inv sb (m(t \<mapsto> d))" "live (m(t \<mapsto> d)) = live m"
    using mtg_inv_flags [OF assms(3,4)] by (simp_all add: d_def flagged_def)
  ultimately show ?thesis using q(1) e2(2) unfolding d_def by auto
qed

text \<open>
  Setting the flags of a live transaction changes the flags of its block and keeps the mark that says whether
  it is deleted, whatever the caller gave for that bit.
\<close>

theorem set_trn_flags_refines:
  assumes "open_mtg name s = Some (OK, s0)" and "at_rest s0 sb ln ch m" and "mtg_inv sb m"
    and "m t = Some c" and "\<not> deleted c" and "may_edit s0 c"
  shows "\<exists>s'. set_trn_flags name t flags s = Some (OK, s') \<and> op_frame s0 s' \<and>
    at_rest s' sb ln ch (m(t \<mapsto> flagged flags c)) \<and> mtg_inv sb (m(t \<mapsto> flagged flags c)) \<and>
    live (m(t \<mapsto> flagged flags c)) = live m"
  using assms by (rule set_flags_blocks)

theorem set_trn_flags_refines_witness:
  "\<exists>s'. set_trn_flags ''/m'' 2 3 demo_srv = Some (OK, s') \<and>
     at_rest s' demo_sb ''demo'' ''srz'' (demo_chains(2 \<mapsto> demo_2\<lparr>cb_flags := 2\<rparr>))"
proof -
  have "flagged 3 demo_2 = demo_2\<lparr>cb_flags := 2\<rparr>" by (simp add: flagged_def demo_2_def demo_blk_def CB_DELETED_def)
  with set_trn_flags_refines [OF open_on_again [OF demo_open] demo_at_rest demo_inv demo_2_facts(1,2,4), of 3] show ?thesis by auto
qed

end
