(* ===== verification/Quiet.thy ===== *)
theory Quiet
  imports Feed Lookup Flags
begin

text \<open>
  Calls that are refused and calls that only look: after either, the bytes of all files are as before, no
  atomic session is open and the lock is given back.
\<close>

subsection \<open>A call that is given up\<close>

text \<open>The state after a call that changed nothing: the bytes of all files are as before.\<close>

definition unharmed :: "srv \<Rightarrow> srv \<Rightarrow> bool" where
  "unharmed s s' \<longleftrightarrow> current_mtg s' = current_mtg s \<and> u_trn_f s' = u_trn_f s \<and> u_control_f s' = u_control_f s \<and>
     mtg_swapped s' = mtg_swapped s \<and> mtg_acl s' = mtg_acl s \<and> last_acl_mod s' = last_acl_mod s \<and> links (fs s') = links (fs s) \<and>
     (\<forall>d. d \<noteq> u_control_f s \<longrightarrow> inodes (fs s') d = inodes (fs s) d) \<and>
     fdata (fs s') (u_control_f s) = fdata (fs s) (u_control_f s) \<and> \<not> nuclear s' \<and> faults (fs s') = [] \<and> \<not> read_lock s'"

text \<open>The state inside a call that has read but not written.\<close>

definition looking :: "srv \<Rightarrow> srv \<Rightarrow> bool" where
  "looking s x \<longleftrightarrow> current_mtg x = current_mtg s \<and> u_trn_f x = u_trn_f s \<and> u_control_f x = u_control_f s \<and>
     mtg_swapped x = mtg_swapped s \<and> mtg_acl x = mtg_acl s \<and> last_acl_mod x = last_acl_mod s \<and> fs x = fs s \<and> no_nuke x = no_nuke s \<and>
     (nuclear x \<longrightarrow> a_control_f x = aopen (fs s) (u_control_f s)) \<and> (no_nuke s \<longrightarrow> \<not> read_lock x) \<and>
     \<not> nuclear s \<and> faults (fs s) = []"

lemma looking_start: "\<not> nuclear s \<Longrightarrow> faults (fs s) = [] \<Longrightarrow> \<not> read_lock s \<Longrightarrow> looking s s"
  by (simp add: looking_def)

lemma looking_begin:
  assumes "\<not> nuclear s" and "faults (fs s) = []" and "\<not> read_lock s"
  shows "looking s (with_super sb ln ch (begin_atomic s))" and "looking s (with_super sb ln ch (start_read s))"
  using assms by (auto simp: looking_def begin_atomic_def start_read_def with_super_def)

lemma tclose_fields: "\<exists>u. snd (snd (tclose s)) = s\<lparr>us := u\<rparr>"
  using tclose_only [of s] by auto

lemma unharmed_abort:
  assumes "looking s x"
  shows "unharmed s (core_abort x)"
proof -
  define s1 where "s1 = (if nuclear x then x\<lparr>fs := aabort (a_control_f x) (fs x), nuclear := False\<rparr> else x)"
  define s2 where "s2 = (if abort_file s1 then (snd (snd (tclose s1)))\<lparr>abort_file := False\<rparr> else s1)"
  have p: "fdata (aabort (aopen f d) f) d = fdata f d" for f d
    by (simp add: aabort_def aopen_def sys_ftruncate_def pad_to_def)
  have e: "fdata (fs s1) (u_control_f s) = fdata (fs s) (u_control_f s)" "links (fs s1) = links (fs s)" "faults (fs s1) = []"
    "d \<noteq> u_control_f s \<Longrightarrow> inodes (fs s1) d = inodes (fs s) d" for d
    using assms p [of "fs s" "u_control_f s"] by (auto simp: s1_def looking_def aopen_def aabort_def sys_ftruncate_def)
  obtain u where "snd (snd (tclose s1)) = s1\<lparr>us := u\<rparr>" using tclose_fields by blast
  then have "s2 = s1 \<or> s2 = s1\<lparr>us := u, abort_file := False\<rparr>" by (simp add: s2_def)
  then have "fs s2 = fs s1 \<and> nuclear s2 = nuclear s1 \<and> read_lock s2 = read_lock s1 \<and> no_nuke s2 = no_nuke s1 \<and>
      current_mtg s2 = current_mtg s1 \<and> u_trn_f s2 = u_trn_f s1 \<and> u_control_f s2 = u_control_f s1 \<and>
      mtg_swapped s2 = mtg_swapped s1 \<and> mtg_acl s2 = mtg_acl s1 \<and> last_acl_mod s2 = last_acl_mod s1" by (elim disjE) simp_all
  moreover have "\<not> nuclear s1 \<and> no_nuke s1 = no_nuke s \<and> current_mtg s1 = current_mtg s \<and> u_trn_f s1 = u_trn_f s \<and>
      u_control_f s1 = u_control_f s \<and> mtg_swapped s1 = mtg_swapped s \<and> mtg_acl s1 = mtg_acl s \<and> last_acl_mod s1 = last_acl_mod s \<and> (no_nuke s \<longrightarrow> \<not> read_lock s1)"
    using assms by (simp add: s1_def looking_def)
  moreover have "core_abort x = forget_super (if read_lock s2 then finish_read s2 else s2)"
    by (simp add: core_abort_def Let_def s1_def s2_def)
  ultimately show ?thesis using e by (auto simp: unharmed_def forget_super_def finish_read_def)
qed

lemma unharmed_open: "open_on s name \<Longrightarrow> unharmed s s' \<Longrightarrow> open_on s' name"
  by (auto simp: open_on_def unharmed_def split: option.splits)

lemma unharmed_rest: "at_rest s sb ln ch m \<Longrightarrow> unharmed s s' \<Longrightarrow> at_rest s' sb ln ch m"
  by (simp add: at_rest_def unharmed_def)

lemma unharmed_entries:
  assumes "open_on s name" and "unharmed s s'"
  shows "entry_of s' = entry_of s" and "in_file s' = in_file s"
  using assms by (intro in_file_same; auto simp: unharmed_def open_on_def)+

subsection \<open>Which transactions can be edited\<close>

lemma edit_start_cases:
  assumes "edit_start name t check s = Some (k, cb, s')" and "open_on s name" and "at_rest s sb ln ch m" and "\<not> read_lock s"
    and "dom m = {1 .. ms_highest sb}"
  shows "k = OK \<and> (\<exists>c. m t = Some c \<and> check c = OK \<and> may_edit s c) \<or> k \<noteq> OK \<and> unharmed s s'"
proof -
  define x where "x = with_super sb ln ch (begin_atomic s)"
  note b = edit_begin [OF assms(3), folded x_def]
  have r: "\<not> nuclear s" "faults (fs s) = []" using assms(3) by (simp_all add: at_rest_def)
  have ab: "unharmed s (core_abort x)" unfolding x_def by (rule unharmed_abort [OF looking_begin(1) [OF r assms(4)]])
  have f: "read_trn x = read_trn s" "has_trn_access x = has_trn_access s"
    unfolding x_def by (rule read_trn_cong access_cong; simp add: with_super_def begin_atomic_def)+
  have eq: "Some (k, cb, s') = do { (c, cb) \<leftarrow> read_chain x t None;
      if c \<noteq> OK then Some (c, None, core_abort x) else
     do { cb \<leftarrow> cb; if check cb \<noteq> OK then Some (check cb, None, core_abort x) else
     do { (c, th, _, author, _) \<leftarrow> read_trn x (cb_trn_addr cb) False True False;
          if c \<noteq> OK then Some (c, None, core_abort x) else
     do { ok \<leftarrow> has_trn_access x author CHR ''d'';
          if \<not> ok then Some (NO_ACCESS, None, core_abort x) else Some (OK, Some cb, x) } } } }"
    using assms(1) by (simp add: edit_start_def open_on_again [OF assms(2)] b(1) eq_commute [of "Some _"])
  show ?thesis
  proof (cases "m t")
    case None
    then have "t < 1 \<or> ms_highest sb < t" using assms(5) by (metis atLeastAtMost_iff domIff not_less)
    moreover have "ms_lowest sb = 1" using assms(3) by (simp add: at_rest_def mtg_in_def sb_ok_def)
    ultimately have "read_chain x t None = Some (NO_SUCH_TRN, None)" by (intro read_chain_none) (simp_all add: b(4))
    with eq ab show ?thesis by simp
  next
    case (Some c)
    have "read_chain x t None = Some (OK, Some c)"
      by (rule read_chain_rep [where m = m, OF _ Some]) (use b(2) in \<open>simp add: editing_def\<close>)
    with eq ab Some show ?thesis by (auto simp: may_edit_def f split: if_splits bind_splits)
  qed
qed

subsection \<open>Looking a transaction up\<close>

lemma find_trn_unharmed:
  assumes "find_trn name t sig s = Some (k, r, s')" and "open_on s name" and "at_rest s sb ln ch m" and "\<not> read_lock s"
  shows "unharmed s s'"
proof -
  define x where "x = reading sb ln ch s"
  note b = read_begin(1) [OF assms(3), folded x_def]
  have r: "\<not> nuclear s" "faults (fs s) = []" using assms(3) by (simp_all add: at_rest_def)
  have "looking s x" unfolding x_def reading_def by (rule looking_begin(2) [OF r assms(4)])
  note ab = unharmed_abort [OF this]
  have fin: "unharmed s (finish_read x)" "unharmed s (forget_super (finish_read x))"
    using r assms(4) by (simp_all add: x_def reading_def unharmed_def finish_read_def start_read_def with_super_def forget_super_def)
  show ?thesis
    using assms(1) ab fin by (auto simp: find_trn_def open_on_again [OF assms(2)] b Let_def split: if_splits bind_splits)
qed

end
