(* ===== verification/Journal.thy ===== *)
theory Journal
  imports Add
begin

text \<open>
  The transaction file as a journal.  Nothing in it is ever overwritten: each addition puts its record at the end, and the header
  of the record has its number, the place of the record before it, and the number it replies to.  So the records alone
  say what was ever put up, deleted or not: \<open>replay\<close> puts them up again.
\<close>

subsection \<open>Records\<close>

record logged =
  lg_addr :: nat
  lg_pref :: int
  lg_date :: int
  lg_subject :: string
  lg_author :: string
  lg_sig :: "string option"
  lg_text :: bytes

definition lg_hdr :: "int \<Rightarrow> int \<Rightarrow> logged \<Rightarrow> trn_hdr" where
  "lg_hdr t prev r = filed_hdr t (lg_pref r) (lg_date r) prev (lg_addr r) (lg_subject r) (lg_author r) (lg_sig r) (lg_text r)"

definition lg_bytes :: "bool \<Rightarrow> int \<Rightarrow> int \<Rightarrow> logged \<Rightarrow> bytes" where
  "lg_bytes sw t prev r = enc_hdr (if sw then swap_trn (lg_hdr t prev r) else lg_hdr t prev r) @
     lg_subject r @ [NUL] @ author_text (lg_author r) (lg_sig r) @ lg_text r"

definition lg_len :: "logged \<Rightarrow> nat" where
  "lg_len r = HDR_SIZE + length (lg_subject r) + 1 + length (author_text (lg_author r) (lg_sig r)) + length (lg_text r)"

lemma length_lg_bytes [simp]: "length (lg_bytes sw t prev r) = lg_len r"
  by (simp add: lg_bytes_def lg_len_def)

text \<open>What \<open>add_trn_priv\<close> can have written.\<close>

definition lg_ok :: "logged \<Rightarrow> bool" where
  "lg_ok r \<longleftrightarrow> record_fits (lg_addr r) (lg_subject r) (lg_author r) (lg_sig r) (lg_text r) \<and> c_ok (lg_subject r) \<and>
     NL \<notin> set (lg_subject r) \<and> c_ok (lg_author r) \<and> fits 4 (lg_date r) \<and>
     (case lg_sig r of None \<Rightarrow> True | Some g \<Rightarrow> c_ok g \<and> g \<noteq> [] \<and> g \<noteq> lg_author r)"

text \<open>The place of the last record, and where the records end that begin at a place.\<close>

definition last_addr :: "logged list \<Rightarrow> int" where
  "last_addr L = (if L = [] then 0 else int (lg_addr (last L)))"

definition log_end :: "nat \<Rightarrow> logged list \<Rightarrow> nat" where
  "log_end at L = (if L = [] then at else lg_addr (last L) + lg_len (last L))"

text \<open>The record with the index \<open>i\<close> is in the file, after the one before it.\<close>

definition rec_in :: "bytes \<Rightarrow> bool \<Rightarrow> nat \<Rightarrow> logged list \<Rightarrow> nat \<Rightarrow> bool" where
  "rec_in v sw at L i \<longleftrightarrow> (let r = L ! i; b = lg_bytes sw (int i + 1) (last_addr (take i L)) r in
     lg_ok r \<and> log_end at (take i L) \<le> lg_addr r \<and> slice (lg_addr r) (length b) v = b \<and>
     (lg_pref r = 0 \<or> 1 \<le> lg_pref r \<and> lg_pref r \<le> int i))"

definition log_in :: "bytes \<Rightarrow> bool \<Rightarrow> nat \<Rightarrow> logged list \<Rightarrow> bool" where
  "log_in v sw at L \<longleftrightarrow> (\<forall>i < length L. rec_in v sw at L i)"

lemma log_in_nil [simp]: "log_in v sw at []"
  by (simp add: log_in_def)

lemma rec_in_append: "i < length L \<Longrightarrow> rec_in v sw at (L @ M) i = rec_in v sw at L i"
  by (simp add: rec_in_def nth_append)

lemma log_in_snoc: "log_in v sw at (L @ [r]) \<longleftrightarrow> log_in v sw at L \<and> rec_in v sw at (L @ [r]) (length L)"
  using rec_in_append [of _ L v sw at "[r]"] by (auto simp: log_in_def less_Suc_eq)

lemma slice_prefix: "slice a n v = b \<Longrightarrow> length b = n \<Longrightarrow> n \<noteq> 0 \<Longrightarrow> slice a n (v @ x) = b"
  by (subst slice_append_left) (auto simp: slice_def)

lemma log_in_longer:
  assumes "log_in v sw at L"
  shows "log_in (v @ x) sw at L"
proof -
  have "lg_len r \<noteq> 0" for r by (simp add: lg_len_def)
  then show ?thesis using assms by (auto simp: log_in_def rec_in_def Let_def intro: slice_prefix)
qed

lemma log_in_end:
  assumes "log_in v sw at L" and "at \<le> length v"
  shows "log_end at L \<le> length v"
proof (cases L rule: rev_cases)
  case (snoc K r)
  then have "slice (lg_addr r) (lg_len r) v = lg_bytes sw (int (length K) + 1) (last_addr K) r"
    using assms(1) by (simp add: log_in_snoc rec_in_def Let_def)
  then have "length (slice (lg_addr r) (lg_len r) v) = lg_len r" by simp
  moreover have "lg_len r \<noteq> 0" by (simp add: lg_len_def)
  ultimately show ?thesis using snoc by (simp add: log_end_def length_slice)
qed (use assms(2) in \<open>simp add: log_end_def\<close>)

subsection \<open>Putting them up again\<close>

definition lg_entry :: "int \<Rightarrow> logged \<Rightarrow> entry" where
  "lg_entry k r = \<lparr>en_subject = lg_subject r, en_author = lg_author r,
     en_signature = (case lg_sig r of None \<Rightarrow> lg_author r | Some g \<Rightarrow> g), en_text = lg_text r, en_chain = k\<rparr>"

text \<open>The state is the number of records, that of the reply chains, and the entries.\<close>

fun put :: "logged \<Rightarrow> nat \<times> int \<times> (int \<rightharpoonup> entry) \<Rightarrow> nat \<times> int \<times> (int \<rightharpoonup> entry)" where
  "put r (n, k, P) =
     (if lg_pref r = 0 then (Suc n, k + 1, P(int n + 1 \<mapsto> lg_entry (k + 1) r))
      else (Suc n, k, P(int n + 1 \<mapsto> lg_entry (case P (lg_pref r) of None \<Rightarrow> 0 | Some e \<Rightarrow> en_chain e) r)))"

definition replay :: "logged list \<Rightarrow> nat \<times> int \<times> (int \<rightharpoonup> entry)" where
  "replay L = fold put L (0, 0, Map.empty)"

definition replayed :: "logged list \<Rightarrow> int \<rightharpoonup> entry" where
  "replayed L = snd (snd (replay L))"

lemma replay_nil [simp]: "replay [] = (0, 0, Map.empty)"
  by (simp add: replay_def)

lemma replay_snoc [simp]: "replay (L @ [r]) = put r (replay L)"
  by (simp add: replay_def)

subsection \<open>The journal of a meeting\<close>

text \<open>The file begins with the bytes \<open>B\<close>, the base and the names, and the records follow.  The base tells the byte order.\<close>

definition swapped_base :: "bytes \<Rightarrow> bool" where
  "swapped_base B \<longleftrightarrow> tb_unique (dec_base (take BASE_SIZE B)) \<noteq> TRN_BASE_UNIQUE"

definition journal :: "bytes \<Rightarrow> srv \<Rightarrow> mtg_super \<Rightarrow> chains \<Rightarrow> logged list \<Rightarrow> bool" where
  "journal B s sb m L \<longleftrightarrow> log_in (fdata (fs s) (u_trn_f s)) (mtg_swapped s) (length B) L \<and>
     take (length B) (fdata (fs s) (u_trn_f s)) = B \<and> swapped_base B = mtg_swapped s \<and>
     ms_highest sb = int (length L) \<and> ms_highest_trn_addr sb = last_addr L \<and> replay L = (length L, ms_highest_chain sb, posts s m)"

text \<open>What is not an addition leaves the journal as it is.\<close>

lemma journal_same:
  assumes "journal B s sb m L" and "fdata (fs s') (u_trn_f s) = fdata (fs s) (u_trn_f s)" and "u_trn_f s' = u_trn_f s"
    and "mtg_swapped s' = mtg_swapped s" and "posts s' m' = posts s m" and "ms_highest sb' = ms_highest sb"
    and "ms_highest_trn_addr sb' = ms_highest_trn_addr sb" and "ms_highest_chain sb' = ms_highest_chain sb"
  shows "journal B s' sb' m' L"
  using assms by (simp add: journal_def)

text \<open>An addition writes one record more.\<close>

lemma post_of:
  assumes "filed s m" and "m t = Some c"
  shows "\<exists>e. entry_of s c = Some e \<and> posts s m t = Some e \<and> en_chain e = cb_trn_chain c"
proof -
  have "entry_of s c \<noteq> None" using assms by (auto simp: filed_def in_file_def split: option.splits)
  then obtain e where e: "entry_of s c = Some e" by blast
  then have "en_chain e = cb_trn_chain c" by (auto simp: entry_of_def split: if_splits bind_splits)
  with e assms(2) show ?thesis by (simp add: posts_def)
qed

lemma journal_add:
  fixes s s' :: srv and subject author :: string and sg0 :: "string option" and p :: bytes
  defines "D \<equiv> fdata (fs s) (u_trn_f s)" and "sj \<equiv> first_line subject" and "sg \<equiv> kept_sig author sg0"
  assumes j: "journal B s sb m L" and d: "dom m = {1 .. ms_highest sb}" and f: "filed s m"
    and pref: "if reply = 0 then pref = 0 else \<exists>c. m pref = Some c \<and> cb_trn_chain c = cb_trn_chain (the (m reply))"
    and data: "fdata (fs s') (u_trn_f s) = D @ record_text s
      (filed_hdr (ms_highest sb + 1) pref date (ms_highest_trn_addr sb) (length D) sj author sg p) sj author sg p"
    and sb: "ms_highest sb' = ms_highest sb + 1" "ms_highest_trn_addr sb' = int (length D)"
      "ms_highest_chain sb' = (if reply = 0 then ms_highest_chain sb + 1 else ms_highest_chain sb)"
    and same: "u_trn_f s' = u_trn_f s" "mtg_swapped s' = mtg_swapped s"
    and posts: "posts s' m' = (posts s m)(ms_highest sb + 1 \<mapsto> \<lparr>en_subject = sj, en_author = author,
      en_signature = (case sg of None \<Rightarrow> author | Some g \<Rightarrow> g), en_text = p,
      en_chain = (if reply = 0 then ms_highest_chain sb + 1 else cb_trn_chain (the (m reply)))\<rparr>)"
    and fit: "record_fits (length D) sj author sg p" "c_ok subject" "c_ok author" "fits 4 date" "\<And>g. sg0 = Some g \<Longrightarrow> c_ok g"
  shows "\<exists>r. journal B s' sb' m' (L @ [r])"
proof -
  define r where "r = \<lparr>lg_addr = length D, lg_pref = pref, lg_date = date, lg_subject = sj, lg_author = author, lg_sig = sg, lg_text = p\<rparr>"
  from j have B: "take (length B) D = B" "swapped_base B = mtg_swapped s" by (simp_all add: journal_def D_def)
  from arg_cong [OF B(1), of length] have "length B \<le> length D" by simp
  with j have l: "log_in D (mtg_swapped s) (length B) L" "length B \<le> length D" "ms_highest sb = int (length L)" "ms_highest_trn_addr sb = last_addr L"
    "replay L = (length L, ms_highest_chain sb, posts s m)" by (simp_all add: journal_def D_def)
  have pr: "pref = 0 \<and> reply = 0 \<or> reply \<noteq> 0 \<and> 1 \<le> pref \<and> pref \<le> int (length L) \<and>
      (\<exists>e. posts s m pref = Some e \<and> en_chain e = cb_trn_chain (the (m reply)))"
  proof (cases "reply = 0")
    case False
    with pref obtain c where c: "m pref = Some c" "cb_trn_chain c = cb_trn_chain (the (m reply))" by auto
    then have "pref \<in> {1 .. ms_highest sb}" using d by blast
    with False post_of [OF f c(1)] c(2) l(3) show ?thesis by auto
  qed (use pref in simp)
  have ok: "lg_ok r"
    using fit first_line_ok [OF fit(2)]
    by (auto simp: lg_ok_def r_def sj_def sg_def first_line_def kept_sig_def dest: set_takeWhileD split: option.splits if_splits)
  have "log_end (length B) L \<le> length D" by (rule log_in_end [OF l(1,2)])
  moreover have "record_text s (filed_hdr (ms_highest sb + 1) pref date (ms_highest_trn_addr sb) (length D) sj author sg p) sj author sg p =
      lg_bytes (mtg_swapped s) (int (length L) + 1) (last_addr L) r"
    by (simp add: lg_bytes_def record_text_def disk_hdr_def lg_hdr_def r_def l(3,4))
  then have b: "fdata (fs s') (u_trn_f s) = D @ lg_bytes (mtg_swapped s) (int (length L) + 1) (last_addr L) r" using data by simp
  then have "slice (lg_addr r) (lg_len r) (fdata (fs s') (u_trn_f s)) = lg_bytes (mtg_swapped s) (int (length L) + 1) (last_addr L) r"
    by (simp add: slice_def r_def)
  ultimately have "rec_in (fdata (fs s') (u_trn_f s)) (mtg_swapped s) (length B) (L @ [r]) (length L)"
    using ok pr by (auto simp: rec_in_def Let_def r_def)
  moreover have "log_in (fdata (fs s') (u_trn_f s)) (mtg_swapped s) (length B) L" unfolding b by (rule log_in_longer [OF l(1)])
  ultimately have "log_in (fdata (fs s') (u_trn_f s')) (mtg_swapped s') (length B) (L @ [r])" by (simp add: log_in_snoc same(1)) (simp add: same(2))
  moreover have "replay (L @ [r]) = (length (L @ [r]), ms_highest_chain sb', posts s' m')"
    using pr by (auto simp: l(3,5) sb posts r_def lg_entry_def cong: option.case_cong)
  moreover have "take (length B) (fdata (fs s') (u_trn_f s')) = B" using b l(2) B(1) by (simp add: same)
  moreover have "swapped_base B = mtg_swapped s'" using B(2) same(2) by simp
  ultimately have "journal B s' sb' m' (L @ [r])" using l(3) by (simp add: journal_def sb last_addr_def r_def)
  then show ?thesis ..
qed

end
