(* ===== verification/Board.thy ===== *)
theory Board
  imports Quiet Journal
begin

text \<open>
  A meeting that serves one call after another.  \<open>kept\<close> is what holds between calls: the meeting is open,
  its control file holds a well-formed meeting, and every block has its record.  Whatever the calls are and
  whichever of them are refused, \<open>kept\<close> holds again after each of them, and the meeting goes through the states of a
  board, on which notes are put up, taken down and put back.
\<close>

subsection \<open>Between calls\<close>

text \<open>The access list of the open meeting is there.\<close>

definition listed :: "srv \<Rightarrow> bool" where
  "listed s \<longleftrightarrow> (\<exists>l. mtg_acl s = Acl l)"

definition kept :: "string \<Rightarrow> string \<Rightarrow> string \<Rightarrow> srv \<Rightarrow> mtg_super \<Rightarrow> chains \<Rightarrow> bool" where
  "kept name ln ch s sb m \<longleftrightarrow> open_on s name \<and> at_rest s sb ln ch m \<and> mtg_inv sb m \<and> filed s m \<and> \<not> read_lock s \<and>
     ms_date_created sb \<noteq> 0 \<and> fdata (fs s) (u_trn_f s) \<noteq> [] \<and> listed s"

lemma kept_unharmed:
  assumes "kept name ln ch s sb m" and "unharmed s s'"
  shows "kept name ln ch s' sb m" and "posts s' = posts s" and "journal B s sb m L \<Longrightarrow> journal B s' sb m L"
proof -
  from assms(1) have o: "open_on s name" by (simp add: kept_def)
  note e = posts_frame [OF unharmed_entries [OF o assms(2)]]
  show "posts s' = posts s" by (rule e)
  have d: "fdata (fs s') (u_trn_f s') = fdata (fs s) (u_trn_f s)" "u_trn_f s' = u_trn_f s" "mtg_swapped s' = mtg_swapped s"
    using o assms(2) by (auto simp: open_on_def unharmed_def)
  show "journal B s sb m L \<Longrightarrow> journal B s' sb m L"
    by (rule journal_same [where s = s and sb = sb and m = m]) (use d in \<open>simp_all add: e\<close>)
  from d assms unharmed_open [OF o assms(2)] unharmed_rest [OF _ assms(2)] show "kept name ln ch s' sb m"
    by (simp add: kept_def e) (simp add: unharmed_def listed_def)
qed

lemma kept_frame:
  assumes "kept name ln ch s sb m" and "op_frame s s'" and "at_rest s' sb' ln ch m'" and "mtg_inv sb' m'"
    and "filed s m'" and "ms_date_created sb' = ms_date_created sb"
  shows "kept name ln ch s' sb' m'" and "posts s' = posts s"
    and "journal B s sb m L \<Longrightarrow> posts s m' = posts s m \<Longrightarrow> ms_highest sb' = ms_highest sb \<Longrightarrow>
      ms_highest_trn_addr sb' = ms_highest_trn_addr sb \<Longrightarrow> ms_highest_chain sb' = ms_highest_chain sb \<Longrightarrow> journal B s' sb' m' L"
proof -
  from assms(1) have o: "open_on s name" by (simp add: kept_def)
  note c = contents_frame [OF o assms(2)]
  note e = posts_frame [OF c(1,2)] and f = op_frame_fields [OF assms(2)]
  show "posts s' = posts s" by (rule e)
  have d: "fdata (fs s') (u_trn_f s) = fdata (fs s) (u_trn_f s)"
    using o f(14) unfolding open_on_def other_files_def by metis
  show "journal B s' sb' m' L" if "journal B s sb m L" "posts s m' = posts s m" "ms_highest sb' = ms_highest sb"
    "ms_highest_trn_addr sb' = ms_highest_trn_addr sb" "ms_highest_chain sb' = ms_highest_chain sb"
    by (rule journal_same [OF that(1)]) (use d that in \<open>simp_all add: e f\<close>)
  from d assms open_on_frame [OF o assms(2)] show "kept name ln ch s' sb' m'" by (simp add: kept_def listed_def e f)
qed

subsection \<open>The board\<close>

text \<open>
  The abstract state: all entries ever put up, by number, and the numbers of those that are shown.
\<close>

record board =
  b_posts :: "int \<rightharpoonup> entry"
  b_shown :: "int set"

datatype request = Delete int | Retrieve int | Flags int int | Info int | Post string string int bytes

text \<open>
  What a request of a caller may do.  Whether a request is refused depends on the access list and is left open;
  one that is refused, and one that only looks, changes nothing.
\<close>

inductive board_step :: "string \<Rightarrow> request \<Rightarrow> code \<Rightarrow> board \<Rightarrow> board \<Rightarrow> bool" where
  refuse: "k \<noteq> OK \<Longrightarrow> board_step who rq k b b"
| look: "board_step who (Info t) k b b"
| mark: "t \<in> b_shown b \<Longrightarrow> board_step who (Flags t f) OK b b"
| take_down: "t \<in> b_shown b \<Longrightarrow> board_step who (Delete t) OK b (b\<lparr>b_shown := b_shown b - {t}\<rparr>)"
| put_back: "t \<in> dom (b_posts b) \<Longrightarrow> t \<notin> b_shown b \<Longrightarrow>
    board_step who (Retrieve t) OK b (b\<lparr>b_shown := insert t (b_shown b)\<rparr>)"
| put_up: "n = int (card (dom (b_posts b))) + 1 \<Longrightarrow>
    en_subject e = first_line subject \<Longrightarrow> en_author e = who \<Longrightarrow> en_signature e = (if sg = [] then who else sg) \<Longrightarrow> en_text e = p \<Longrightarrow>
    (if reply = 0 then \<forall>e0 \<in> ran (b_posts b). en_chain e0 \<noteq> en_chain e
     else reply \<in> b_shown b \<and> map_option en_chain (b_posts b reply) = Some (en_chain e)) \<Longrightarrow>
    board_step who (Post subject sg reply p) OK b \<lparr>b_posts = (b_posts b)(n \<mapsto> e), b_shown = insert n (b_shown b)\<rparr>"

inductive_cases post_stepE: "board_step who (Post subject sg reply p) k b b'"

inductive board_run :: "board \<Rightarrow> (string \<times> request \<times> code) list \<Rightarrow> board \<Rightarrow> bool" where
  run_none: "board_run b [] b"
| run_more: "board_run b tr b1 \<Longrightarrow> board_step who rq k b1 b2 \<Longrightarrow> board_run b (tr @ [(who, rq, k)]) b2"

text \<open>Nothing that was put up is lost or altered.\<close>

lemma board_step_keeps:
  assumes "board_step who rq k b b'" and "finite (dom (b_posts b))" and "dom (b_posts b) = {1 .. int (card (dom (b_posts b)))}"
  shows "b_posts b \<subseteq>\<^sub>m b_posts b'"
  using assms(1)
proof cases
  case (put_up n e subject sg p reply)
  have "n \<notin> dom (b_posts b)" by (subst assms(3)) (simp add: put_up)
  then show ?thesis by (auto simp: put_up map_le_def)
qed auto

subsection \<open>Calls\<close>

fun perform :: "string \<Rightarrow> request \<Rightarrow> srv \<Rightarrow> (code \<times> srv) option" where
  "perform name (Delete t) s = delete_trn name t s"
| "perform name (Retrieve t) s = retrieve_trn name t s"
| "perform name (Flags t f) s = set_trn_flags name t f s"
| "perform name (Info t) s = do { (k, _, s) \<leftarrow> get_trn_info3 name t s; Some (k, s) }"
| "perform name (Post subject sg reply p) s = do { (k, _, s) \<leftarrow> add_trn2 name subject sg reply s; Some (k, s) }"

text \<open>
  Requests that are looked at: a text that is sent whole and fits, with room for one more block.
\<close>

definition has_room :: "srv \<Rightarrow> bool" where
  "has_room s \<longleftrightarrow> (case read_super (start_read s) of None \<Rightarrow> False
     | Some (_, x) \<Rightarrow> ms_chain_start (super x) + (ms_highest (super x) + 1) * int CHAIN_SIZE \<le> int ALIMIT)"

fun proper :: "request \<Rightarrow> srv \<Rightarrow> bool" where
  "proper (Post subject sg reply p) s \<longleftrightarrow> c_ok subject \<and> c_ok sg \<and> c_ok (rpc_caller s) \<and> has_room s \<and> (\<exists>s1. sends s p s1) \<and>
     record_fits (length (fdata (fs s) (u_trn_f s))) (first_line subject) (rpc_caller s) (kept_sig (rpc_caller s) (Some sg)) p"
| "proper _ s \<longleftrightarrow> True"

inductive serves :: "string \<Rightarrow> srv \<Rightarrow> (string \<times> request \<times> code) list \<Rightarrow> srv \<Rightarrow> bool" for name s0 where
  serves_none: "serves name s0 [] s0"
| serves_more: "serves name s0 tr s \<Longrightarrow> proper rq (net_call who n u s) \<Longrightarrow> perform name rq (net_call who n u s) = Some (k, s') \<Longrightarrow>
    serves name s0 (tr @ [(who, rq, k)]) s'"

definition board_of :: "srv \<Rightarrow> chains \<Rightarrow> board" where
  "board_of s m = \<lparr>b_posts = posts s m, b_shown = live m\<rparr>"

text \<open>The number of entries is the highest number.\<close>

lemma kept_posts:
  assumes "kept name ln ch s sb m"
  shows "dom (posts s m) = {1 .. ms_highest sb}" and "int (card (dom (posts s m))) = ms_highest sb"
    and "finite (dom (posts s m))"
proof -
  from assms have "dom m = {1 .. ms_highest sb}" "0 \<le> ms_highest sb" by (simp_all add: kept_def mtg_inv_def)
  moreover have "dom (posts s m) = dom m"
    using assms by (auto simp: kept_def filed_def posts_def in_file_def split: option.splits bind_splits)
  ultimately show "dom (posts s m) = {1 .. ms_highest sb}" "int (card (dom (posts s m))) = ms_highest sb" "finite (dom (posts s m))"
    by simp_all
qed

lemma kept_call:
  assumes "kept name ln ch s sb m"
  shows "kept name ln ch (net_call who n u s) sb m" and "posts (net_call who n u s) = posts s"
    and "journal B s sb m L \<Longrightarrow> journal B (net_call who n u s) sb m L"
proof -
  have "unharmed s (net_call who n u s)"
    using assms by (simp add: unharmed_def kept_def at_rest_def) (simp add: net_call_def)
  from kept_unharmed [OF assms this] show "kept name ln ch (net_call who n u s) sb m" "posts (net_call who n u s) = posts s"
    "journal B s sb m L \<Longrightarrow> journal B (net_call who n u s) sb m L" .
qed

text \<open>
  What a call has done: the meeting is kept, the board has made the step, and the journal has at most become longer.
\<close>

definition stepped :: "string \<Rightarrow> string \<Rightarrow> string \<Rightarrow> string \<Rightarrow> request \<Rightarrow> code \<Rightarrow> srv \<Rightarrow> mtg_super \<Rightarrow> chains \<Rightarrow> srv \<Rightarrow> bool" where
  "stepped name ln ch who rq k s sb m s' \<longleftrightarrow> (\<exists>sb' m'. kept name ln ch s' sb' m' \<and> board_step who rq k (board_of s m) (board_of s' m') \<and>
     (\<forall>B L. journal B s sb m L \<longrightarrow> (\<exists>M. journal B s' sb' m' (L @ M))))"

lemma steppedI:
  assumes "kept name ln ch s' sb' m'" and "board_step who rq k (board_of s m) (board_of s' m')"
    and "\<And>B L. journal B s sb m L \<Longrightarrow> journal B s' sb' m' L"
  shows "stepped name ln ch who rq k s sb m s'"
proof -
  have "\<exists>M. journal B s' sb' m' (L @ M)" if "journal B s sb m L" for B L
    using assms(3) [OF that] by (intro exI [of _ "[]"]) simp
  with assms(1,2) show ?thesis by (auto simp: stepped_def)
qed

lemma stepped_refused:
  assumes "kept name ln ch s sb m" and "unharmed s s'" and "k \<noteq> OK"
  shows "stepped name ln ch who rq k s sb m s'"
  using steppedI [OF kept_unharmed(1) [OF assms(1,2)] _ kept_unharmed(3) [OF assms(1,2)], of who rq k] kept_unharmed(2) [OF assms(1,2)]
    refuse [OF assms(3), of who rq "board_of s m"]
  by (simp add: board_of_def)

lemma step_delete:
  assumes "kept name ln ch s sb m" and "delete_trn name t s = Some (k, s')"
  shows "stepped name ln ch who (Delete t) k s sb m s'"
proof -
  from assms(1) have r: "open_on s name" "at_rest s sb ln ch m" "mtg_inv sb m" "filed s m" "\<not> read_lock s" by (simp_all add: kept_def)
  have d: "dom m = {1 .. ms_highest sb}" using r(3) by (simp add: mtg_inv_def)
  from assms(2) obtain k0 cb s1 where e: "edit_start name t not_deleted s = Some (k0, cb, s1)" and k: "k0 \<noteq> OK \<Longrightarrow> k = k0 \<and> s' = s1"
    by (auto simp: delete_trn_def split: if_splits bind_splits)
  from edit_start_cases [OF e r(1,2,5) d] show ?thesis
  proof (elim disjE conjE exE)
    assume "k0 \<noteq> OK" "unharmed s s1"
    with k show ?thesis using stepped_refused [OF assms(1)] by simp
  next
    fix c assume c: "m t = Some c" "not_deleted c = OK" "may_edit s c"
    then have nd: "\<not> deleted c" by (auto simp: not_deleted_def split: if_splits)
    define x where "x = c\<lparr>cb_flags := i16 (cb_flags c OR CB_DELETED)\<rparr>"
    have x: "deleted x" "x = c\<lparr>cb_flags := cb_flags x\<rparr>" by (simp_all add: x_def)
    from delete_trn_blocks [OF open_on_again [OF r(1)] r(2,3) c(1) nd c(3), folded x_def] assms(2) have
      s': "k = OK" "op_frame s s'" "at_rest s' (super_without c sb) ln ch (unlinked c (m(t \<mapsto> x)))" by auto
    have f: "filed s (m(t \<mapsto> x)) = filed s m" "posts s (m(t \<mapsto> x)) = posts s m"
      by (rule filed_same_record [where m = m, OF c(1)]; simp add: x_def)+
    note i = delete_inv [OF r(3) c(1) nd x]
    from kept_frame [OF assms(1) s'(2,3) i(1)] have
      "kept name ln ch s' (super_without c sb) (unlinked c (m(t \<mapsto> x)))" "posts s' = posts s"
      "journal B s sb m L \<Longrightarrow> journal B s' (super_without c sb) (unlinked c (m(t \<mapsto> x))) L" for B L
      using r(4) f by (simp_all add: unlinked_def filed_relinked posts_relinked super_without_def)
    moreover have "t \<in> live m" using c(1) nd by (auto simp: live_def)
    ultimately show ?thesis
      using steppedI [of name ln ch s' "super_without c sb" "unlinked c (m(t \<mapsto> x))" who "Delete t" k s m sb] take_down [of t "board_of s m" who] i(2) f s'(1)
      by (simp add: board_of_def unlinked_def posts_relinked)
  qed
qed

lemma step_retrieve:
  assumes "kept name ln ch s sb m" and "retrieve_trn name t s = Some (k, s')"
  shows "stepped name ln ch who (Retrieve t) k s sb m s'"
proof -
  from assms(1) have r: "open_on s name" "at_rest s sb ln ch m" "mtg_inv sb m" "filed s m" "\<not> read_lock s" by (simp_all add: kept_def)
  have d: "dom m = {1 .. ms_highest sb}" using r(3) by (simp add: mtg_inv_def)
  from assms(2) obtain k0 cb s1 where e: "edit_start name t was_deleted s = Some (k0, cb, s1)" and k: "k0 \<noteq> OK \<Longrightarrow> k = k0 \<and> s' = s1"
    by (auto simp: retrieve_trn_def split: if_splits bind_splits)
  from edit_start_cases [OF e r(1,2,5) d] show ?thesis
  proof (elim disjE conjE exE)
    assume "k0 \<noteq> OK" "unharmed s s1"
    with k show ?thesis using stepped_refused [OF assms(1)] by simp
  next
    fix c assume c: "m t = Some c" "was_deleted c = OK" "may_edit s c"
    then have dl: "deleted c" "cb_trn_addr c \<noteq> 0" by (auto simp: was_deleted_def split: if_splits)
    from retrieve_trn_blocks [OF open_on_again [OF r(1)] r(2,3) c(1) dl c(3)] assms(2) obtain x where
      s': "k = OK" "op_frame s s'" "rejoins m t c x" "at_rest s' (super_with x sb) ln ch (linked_in x (m(t \<mapsto> x)))" by auto
    have x: "x = c\<lparr>cb_flags := cb_flags x, cb_prev := cb_prev x, cb_next := cb_next x, cb_pref := cb_pref x, cb_nref := cb_nref x\<rparr>"
      using s'(3) by (simp add: rejoins_def)
    note f = filed_same_record [where m = m, OF c(1) arg_cong [OF x, of cb_trn_addr, simplified] arg_cong [OF x, of cb_trn_chain, simplified]]
    note i = retrieve_inv [OF r(3) c(1) dl s'(3)]
    from kept_frame [OF assms(1) s'(2,4) i(1)] have
      "kept name ln ch s' (super_with x sb) (linked_in x (m(t \<mapsto> x)))" "posts s' = posts s"
      "journal B s sb m L \<Longrightarrow> journal B s' (super_with x sb) (linked_in x (m(t \<mapsto> x))) L" for B L
      using r(4) f by (simp_all add: linked_in_def filed_relinked posts_relinked super_with_def)
    moreover have "t \<in> dom (posts s m)" "t \<notin> live m"
      using kept_posts(1) [OF assms(1)] d c(1) dl(1) by (auto simp: live_def)
    ultimately show ?thesis
      using steppedI [of name ln ch s' "super_with x sb" "linked_in x (m(t \<mapsto> x))" who "Retrieve t" k s m sb] put_back [of t "board_of s m" who] i(2) f s'(1)
      by (simp add: board_of_def linked_in_def posts_relinked)
  qed
qed

lemma step_flags:
  assumes "kept name ln ch s sb m" and "set_trn_flags name t f s = Some (k, s')"
  shows "stepped name ln ch who (Flags t f) k s sb m s'"
proof -
  from assms(1) have r: "open_on s name" "at_rest s sb ln ch m" "mtg_inv sb m" "filed s m" "\<not> read_lock s" by (simp_all add: kept_def)
  have d: "dom m = {1 .. ms_highest sb}" using r(3) by (simp add: mtg_inv_def)
  from assms(2) obtain k0 cb s1 where e: "edit_start name t not_deleted s = Some (k0, cb, s1)" and k: "k0 \<noteq> OK \<Longrightarrow> k = k0 \<and> s' = s1"
    by (auto simp: set_trn_flags_def split: if_splits bind_splits)
  from edit_start_cases [OF e r(1,2,5) d] show ?thesis
  proof (elim disjE conjE exE)
    assume "k0 \<noteq> OK" "unharmed s s1"
    with k show ?thesis using stepped_refused [OF assms(1)] by simp
  next
    fix c assume c: "m t = Some c" "not_deleted c = OK" "may_edit s c"
    then have nd: "\<not> deleted c" by (auto simp: not_deleted_def split: if_splits)
    from set_flags_blocks [OF open_on_again [OF r(1)] r(2,3) c(1) nd c(3), of f] assms(2) have
      s': "k = OK" "op_frame s s'" "at_rest s' sb ln ch (m(t \<mapsto> flagged f c))" "mtg_inv sb (m(t \<mapsto> flagged f c))"
        "live (m(t \<mapsto> flagged f c)) = live m" by auto
    have g: "filed s (m(t \<mapsto> flagged f c)) = filed s m" "posts s (m(t \<mapsto> flagged f c)) = posts s m"
      by (rule filed_same_record [where m = m, OF c(1)]; simp add: flagged_def)+
    from kept_frame [OF assms(1) s'(2,3,4)] have "kept name ln ch s' sb (m(t \<mapsto> flagged f c))" "posts s' = posts s"
      "journal B s sb m L \<Longrightarrow> journal B s' sb (m(t \<mapsto> flagged f c)) L" for B L
      using r(4) g by simp_all
    moreover have "t \<in> live m" using c(1) nd by (auto simp: live_def)
    ultimately show ?thesis
      using steppedI [of name ln ch s' sb "m(t \<mapsto> flagged f c)" who "Flags t f" k s m sb] mark [of t "board_of s m" who] s'(1,5) g
      by (simp add: board_of_def)
  qed
qed

lemma add_start_cases:
  assumes "add_start name reply s = Some (k, cb, s')" and "topen CHR ''r'' s = Some (0, OK, s1)"
    and "open_on s name" and "at_rest s sb ln ch m" and "\<not> read_lock s" and "ms_date_created sb \<noteq> 0" and "dom m = {1 .. ms_highest sb}"
  shows "k = OK \<and> may_add s m reply \<or> k \<noteq> OK \<and> unharmed s s'"
proof -
  define x where "x = s1\<lparr>abort_file := True\<rparr>"
  obtain u f where s1: "s1 = s\<lparr>us := u, tf := f\<rparr>" using topen_only [OF assms(2)] by blast
  have o: "open_mtg name x = Some (OK, x)"
    by (rule open_on_again, rule open_on_added [OF assms(3)]) (simp add: add_frame_def x_def s1)
  have a: "has_mtg_access x = has_mtg_access s" by (rule access_cong) (simp_all add: x_def s1)
  have r: "at_rest x sb ln ch m" using assms(4) by (simp add: at_rest_def x_def s1)
  define y where "y = with_super sb ln ch (begin_atomic x)"
  note b = edit_begin [OF r, folded y_def]
  have n: "\<not> nuclear s" "faults (fs s) = []" using assms(4) by (simp_all add: at_rest_def)
  have "looking s x" "looking s y"
    using n assms(5) by (simp_all add: looking_def x_def y_def s1 with_super_def begin_atomic_def)
  note ab = this [THEN unharmed_abort]
  have eq: "do { ok \<leftarrow> has_mtg_access s (if reply \<noteq> 0 then CHR ''a'' else CHR ''w'');
          if \<not> ok then Some (NO_ACCESS, None, core_abort x)
          else if reply = 0 then Some (OK, None, y)
          else do { (c, cb) \<leftarrow> read_chain y reply None;
                    if c \<noteq> OK then Some (c, None, core_abort y)
                    else do { b \<leftarrow> cb;
                              if deleted b then Some (DELETED_TRN, None, core_abort y)
                              else Some (OK, cb, y) } } } = Some (k, cb, s')"
    using assms(1,2,6) by (simp add: add_start_def o a b(1,4) flip: x_def cong: if_cong)
  show ?thesis
  proof (cases "m reply")
    case None
    then have "reply < 1 \<or> ms_highest sb < reply" using assms(7) by (metis atLeastAtMost_iff domIff not_less)
    moreover have "ms_lowest sb = 1" using assms(4) by (simp add: at_rest_def mtg_in_def sb_ok_def)
    ultimately have "read_chain y reply None = Some (NO_SUCH_TRN, None)" by (intro read_chain_none) (simp_all add: b(4))
    with eq ab show ?thesis by (cases "reply = 0") (auto simp: may_add_def split: if_splits bind_splits)
  next
    case (Some c)
    have "read_chain y reply None = Some (OK, Some c)"
      by (rule read_chain_rep [where m = m, OF _ Some]) (use b(2) in \<open>simp add: editing_def\<close>)
    with eq ab Some show ?thesis by (cases "reply = 0") (auto simp: may_add_def split: if_splits bind_splits)
  qed
qed

lemma step_post:
  assumes "kept name ln ch s sb m" and "proper (Post subject sg reply p) s" and "add_trn2 name subject sg reply s = Some (k, n, s')"
  shows "stepped name ln ch (rpc_caller s) (Post subject sg reply p) k s sb m s' \<and> (k = OK \<longrightarrow> n = Some (ms_highest sb + 1))"
proof -
  from assms(1) have r: "open_on s name" "at_rest s sb ln ch m" "mtg_inv sb m" "filed s m" "\<not> read_lock s" "ms_date_created sb \<noteq> 0"
    "fdata (fs s) (u_trn_f s) \<noteq> []" by (simp_all add: kept_def)
  have d: "dom m = {1 .. ms_highest sb}" using r(3) by (simp add: mtg_inv_def)
  from assms(2) obtain s1 where p: "c_ok subject" "c_ok sg" "c_ok (rpc_caller s)" "sends s p s1"
    "record_fits (length (fdata (fs s) (u_trn_f s))) (first_line subject) (rpc_caller s) (kept_sig (rpc_caller s) (Some sg)) p"
    and room: "ms_chain_start sb + (ms_highest sb + 1) * int CHAIN_SIZE \<le> int ALIMIT"
    using read_begin [OF r(2)] by (auto simp: has_room_def)
  from p(4) have op1: "topen CHR ''r'' s = Some (0, OK, s1)" by (simp add: sends_def)
  from assms(3) obtain k0 cb s2 where e: "add_start name reply s = Some (k0, cb, s2)" and k: "k0 \<noteq> OK \<Longrightarrow> k = k0 \<and> s' = s2"
    by (auto simp: add_trn2_def add_trn_priv_def split: if_splits bind_splits)
  from add_start_cases [OF e op1 r(1,2,5,6) d] show ?thesis
  proof (elim disjE conjE)
    assume "k0 \<noteq> OK" "unharmed s s2"
    with k show ?thesis using stepped_refused [OF assms(1)] by auto
  next
    assume may: "may_add s m reply"
    have rd: "add_ready s name sb ln ch m reply" using r may room p(3) by (simp add: add_ready_def)
    define t where "t = ms_highest sb + 1"
    define en where "en = \<lparr>en_subject = first_line subject, en_author = rpc_caller s,
      en_signature = (case kept_sig (rpc_caller s) (Some sg) of None \<Rightarrow> rpc_caller s | Some g \<Rightarrow> g), en_text = p,
      en_chain = (if reply = 0 then ms_highest_chain sb + 1 else cb_trn_chain (the (m reply)))\<rparr>"
    have sgok: "\<And>g. Some sg = Some g \<Longrightarrow> c_ok g" using p(2) by simp
    note ok = add_trn_priv_ok [OF rd p(4,5) sgok p(1) filed_whole [OF r(4)] p(3) added_now(2) [of s] added_now(3) [OF rd], folded en_def t_def]
    from ok have n: "n = Some (ms_highest sb + 1)" using assms(3) by (auto simp: add_trn2_def t_def)
    from ok assms(3) obtain sb' m' pref where
      s': "k = OK" "at_rest s' sb' ln ch m'" "mtg_inv sb' m'" "live m' = insert t (live m)" "add_frame s s'"
        "contents s' m' = (contents s m)(t \<mapsto> en)"
        "ms_date_created sb' = ms_date_created sb" "filed s' m'"
        "posts s' m' = (posts s m)(t := contents s' m' t)"
      and pref: "if reply = 0 then pref = 0 else \<exists>c. m pref = Some c \<and> cb_trn_chain c = cb_trn_chain (the (m reply))"
      and rec: "fdata (fs s') (u_trn_f s) = fdata (fs s) (u_trn_f s) @ record_text s
         (filed_hdr t pref (time_now s) (ms_highest_trn_addr sb) (length (fdata (fs s) (u_trn_f s))) (first_line subject) (rpc_caller s)
           (kept_sig (rpc_caller s) (Some sg)) p) (first_line subject) (rpc_caller s) (kept_sig (rpc_caller s) (Some sg)) p"
      and sb': "ms_highest sb' = t" "ms_highest_trn_addr sb' = int (length (fdata (fs s) (u_trn_f s)))"
        "ms_highest_chain sb' = (if reply = 0 then ms_highest_chain sb + 1 else ms_highest_chain sb)"
      unfolding add_trn2_def using r(4) by clarsimp
    have "kept name ln ch s' sb' m'"
      using s' r(5-7) rec open_on_added [OF r(1) s'(5)] assms(1) by (simp add: kept_def) (simp add: add_frame_def listed_def)
    moreover have "board_step (rpc_caller s) (Post subject sg reply p) OK (board_of s m) (board_of s' m')"
    proof -
      have "t = int (card (dom (b_posts (board_of s m)))) + 1" using kept_posts(2) [OF assms(1)] by (simp add: board_of_def t_def)
      moreover have "if reply = 0 then \<forall>e0 \<in> ran (b_posts (board_of s m)). en_chain e0 \<noteq> en_chain en
          else reply \<in> b_shown (board_of s m) \<and> map_option en_chain (b_posts (board_of s m) reply) = Some (en_chain en)"
      proof (cases "reply = 0")
        case True
        have "en_chain e0 \<le> ms_highest_chain sb" if e0: "e0 \<in> ran (posts s m)" for e0
        proof -
          from e0 obtain u where u: "posts s m u = Some e0" by (auto simp: ran_def)
          then obtain c where c: "m u = Some c" by (auto simp: posts_def split: bind_splits)
          with r(4) have "cb_trn_addr c \<noteq> 0" by (auto simp: filed_def split: option.splits)
          with c r(3) have "cb_trn_chain c \<le> ms_highest_chain sb" unfolding mtg_inv_def by metis
          with post_of [OF r(4) c] u show ?thesis by simp
        qed
        then have "\<forall>e0 \<in> ran (posts s m). en_chain e0 \<noteq> ms_highest_chain sb + 1" by fastforce
        with True show ?thesis by (simp add: board_of_def en_def)
      next
        case False
        with may obtain c where c: "m reply = Some c" "\<not> deleted c" by (auto simp: may_add_def)
        then have "reply \<in> live m" by (auto simp: live_def)
        with post_of [OF r(4) c(1)] False c(1) show ?thesis by (auto simp: board_of_def en_def)
      qed
      ultimately have "board_step (rpc_caller s) (Post subject sg reply p) OK (board_of s m)
          \<lparr>b_posts = (b_posts (board_of s m))(t \<mapsto> en), b_shown = insert t (b_shown (board_of s m))\<rparr>"
        by (intro put_up) (simp_all add: en_def kept_sig_def)
      then show ?thesis using s'(4,6,9) by (simp add: board_of_def)
    qed
    moreover have "\<exists>M. journal B s' sb' m' (L @ M)" if "journal B s sb m L" for B L
      using journal_add [OF that d r(4) pref rec [unfolded t_def] sb' [unfolded t_def] _ _ _ p(5,1,3) added_now(2) sgok] s'(5,6,9)
      by (auto simp: en_def t_def add_frame_def)
    ultimately show ?thesis using s'(1) n by (auto simp: stepped_def)
  qed
qed

lemma perform_step:
  assumes "kept name ln ch s sb m" and "proper rq s" and "perform name rq s = Some (k, s')"
  shows "stepped name ln ch (rpc_caller s) rq k s sb m s'"
proof (cases rq)
  case (Info t)
  with assms(3) obtain sig r where "find_trn name t sig s = Some (k, r, s')"
    by (auto simp: get_trn_info3_def split: bind_splits)
  from find_trn_unharmed [OF this] assms(1) have u: "unharmed s s'" by (auto simp: kept_def)
  show ?thesis
    using steppedI [OF kept_unharmed(1) [OF assms(1) u] _ kept_unharmed(3) [OF assms(1) u]] kept_unharmed(2) [OF assms(1) u] look [of "rpc_caller s" t k "board_of s m"] Info
    by (simp add: board_of_def)
next
  case (Post subject sg reply p)
  with assms(3) obtain n where "add_trn2 name subject sg reply s = Some (k, n, s')" by (auto split: bind_splits)
  with step_post [OF assms(1) assms(2) [unfolded Post]] Post show ?thesis by blast
qed (use assms step_delete step_retrieve step_flags in auto)

subsection \<open>Any number of calls\<close>

text \<open>Every sequence of calls keeps the meeting, and is a run of the board.\<close>

lemma serves_run:
  assumes "serves name s0 tr s" and "kept name ln ch s0 sb m"
  shows "\<exists>sb' m'. kept name ln ch s sb' m' \<and> board_run (board_of s0 m) tr (board_of s m') \<and>
    (\<forall>B L. journal B s0 sb m L \<longrightarrow> (\<exists>M. journal B s sb' m' (L @ M)))"
  using assms
proof (induction rule: serves.induct)
  case serves_none
  then show ?case using run_none by (metis append_Nil2)
next
  case (serves_more tr s rq who n u k s')
  then obtain sb1 m1 where 1: "kept name ln ch s sb1 m1" "board_run (board_of s0 m) tr (board_of s m1)"
    "\<And>B L. journal B s0 sb m L \<Longrightarrow> \<exists>M. journal B s sb1 m1 (L @ M)" by blast
  note c = kept_call [OF 1(1), where who = who and n = n and u = u]
  from perform_step [OF c(1) serves_more(2,3)] obtain sb' m' where 2: "kept name ln ch s' sb' m'"
    "board_step who rq k (board_of s m1) (board_of s' m')"
    "\<And>B L. journal B (net_call who n u s) sb1 m1 L \<Longrightarrow> \<exists>M. journal B s' sb' m' (L @ M)"
    using c(2) by (auto simp: stepped_def board_of_def)
  have "\<exists>M. journal B s' sb' m' (L @ M)" if "journal B s0 sb m L" for B L
    using 1(3) [OF that] 2(3) c(3) by (metis append.assoc)
  with run_more [OF 1(2) 2(2)] 2(1) show ?case by blast
qed

lemma board_run_keeps:
  assumes "board_run b tr b'" and "\<exists>n. dom (b_posts b) = {1 .. int n}"
  shows "b_posts b \<subseteq>\<^sub>m b_posts b' \<and> (\<exists>n. dom (b_posts b') = {1 .. int n})"
  using assms
proof (induction rule: board_run.induct)
  case (run_more b tr b1 who rq k b2)
  then obtain n where n: "b_posts b \<subseteq>\<^sub>m b_posts b1" "dom (b_posts b1) = {1 .. int n}" by auto
  then have c: "int (card (dom (b_posts b1))) = int n" by simp
  have "\<exists>n'. dom (b_posts b2) = {1 .. int n'}"
    using run_more.hyps(2)
  proof cases
    case (put_up k e subject sg p reply)
    with n(2) c have "dom (b_posts b2) = {1 .. int (Suc n)}" by auto
    then show ?thesis by blast
  qed (use n(2) in auto)
  moreover have "b_posts b1 \<subseteq>\<^sub>m b_posts b2"
    using board_step_keeps [OF run_more.hyps(2)] n(2) c by simp
  ultimately show ?case using n(1) map_le_trans by blast
qed auto

text \<open>The small meeting, and a call of its owner.\<close>

lemma demo_kept: "kept ''/m'' ''demo'' ''srz'' demo_srv demo_sb demo_chains"
proof -
  have "filed demo_srv demo_chains"
    by (auto simp: filed_def demo_blocks intro!: demo_entry(2) elim!: demo_chains_cases split: option.split)
  moreover have "\<not> read_lock demo_srv" "ms_date_created demo_sb \<noteq> 0" "fdata (fs demo_srv) (u_trn_f demo_srv) \<noteq> []"
    by (simp_all add: demo_srv_def demo_sb_def demo_mtg_fs_def demo_trns_def mtg_layout)
  moreover have "listed demo_srv" by (simp add: listed_def demo_srv_def)
  ultimately show ?thesis using demo_open demo_at_rest demo_inv by (simp add: kept_def)
qed

lemma demo_served: "\<exists>s. serves ''/m'' demo_srv [(''srz'', Delete 2, OK)] s"
proof -
  let ?s = "net_call ''srz'' 0 (new_stream []) demo_srv"
  have n: "?s = demo_srv\<lparr>tf := Some (net_tfile 0), us := new_stream []\<rparr>" by (simp add: net_call_def demo_srv_def)
  have "may_edit ?s demo_2"
    using demo_2_facts(4) unfolding may_edit_def n
    by (subst read_trn_cong [of _ demo_srv], simp_all, subst access_cong(1) [of _ demo_srv], simp_all)
  moreover note k = kept_call(1) [OF demo_kept, of "''srz''" 0 "new_stream []"]
  then have "open_on ?s ''/m''" "at_rest ?s demo_sb ''demo'' ''srz'' demo_chains" by (simp_all add: kept_def)
  ultimately obtain s where "delete_trn ''/m'' 2 ?s = Some (OK, s)"
    using delete_trn_blocks [OF open_on_again _ demo_inv demo_2_facts(1,2)] by blast
  with serves_more [OF serves_none, of "Delete 2" "''srz''" 0 "new_stream []" demo_srv "''/m''" OK s] show ?thesis by auto
qed

text \<open>
  C1. The server implements a board.  The calls that a meeting has served are a run of the board: a deletion takes
  a note down that is shown, a retrieval puts one back, an addition puts a note with the caller's name up under
  the next number, a call that is refused or only asks changes nothing.
\<close>

theorem served_board:
  assumes "serves name s0 tr s" and "kept name ln ch s0 sb m"
  shows "\<exists>sb' m'. kept name ln ch s sb' m' \<and> board_run (board_of s0 m) tr (board_of s m')"
  using serves_run [OF assms] by blast

theorem served_board_witness:
  "\<exists>s m'. serves ''/m'' demo_srv [(''srz'', Delete 2, OK)] s \<and>
     board_run (board_of demo_srv demo_chains) [(''srz'', Delete 2, OK)] (board_of s m')"
  using demo_served served_board [OF _ demo_kept] by blast


text \<open>
  C2. Nothing is lost.  A transaction that was in the meeting has the same subject, author, signature, text and chain after
  any sequence of calls, shown or not.
\<close>

theorem served_keeps_posts:
  assumes "serves name s0 tr s" and "kept name ln ch s0 sb m" and "posts s0 m t = Some e"
  shows "\<exists>sb' m'. kept name ln ch s sb' m' \<and> posts s m' t = Some e"
proof -
  from serves_run [OF assms(1,2)] obtain sb' m' where
    1: "kept name ln ch s sb' m'" "board_run (board_of s0 m) tr (board_of s m')" by blast
  have "dom (b_posts (board_of s0 m)) = {1 .. int (nat (ms_highest sb))}"
    using kept_posts(1) [OF assms(2)] assms(2) by (simp add: board_of_def kept_def mtg_inv_def)
  then have "\<exists>n. dom (b_posts (board_of s0 m)) = {1 .. int n}" by blast
  from board_run_keeps [OF 1(2) this] have "posts s0 m \<subseteq>\<^sub>m posts s m'" by (auto simp: board_of_def)
  with assms(3) have "posts s m' t = Some e" by (metis domI map_le_def)
  with 1(1) show ?thesis by blast
qed

theorem served_keeps_posts_witness:
  "\<exists>s m'. serves ''/m'' demo_srv [(''srz'', Delete 2, OK)] s \<and>
     posts s m' 2 = Some \<lparr>en_subject = ''Hi!'', en_author = ''srz'', en_signature = ''srz'', en_text = ''hello'' @ [NL], en_chain = 1\<rparr>"
proof -
  have "posts demo_srv demo_chains 2 = Some \<lparr>en_subject = ''Hi!'', en_author = ''srz'', en_signature = ''srz'', en_text = ''hello'' @ [NL], en_chain = 1\<rparr>"
    using demo_contents demo_2_facts(1,2) by (simp add: contents_def posts_def)
  with demo_served served_keeps_posts [OF _ demo_kept] show ?thesis by blast
qed


subsection \<open>Every call returns\<close>

lemma listed_access:
  assumes "listed s"
  shows "c_string (Some author) \<noteq> None \<Longrightarrow> mode \<in> {CHR ''r'', CHR ''d''} \<Longrightarrow> has_trn_access s author mode \<noteq> None"
    and "mode \<in> {CHR ''a'', CHR ''w''} \<Longrightarrow> has_mtg_access s mode \<noteq> None"
  using assms by (auto simp: listed_def has_trn_access_def has_mtg_access_def check_acl_def acl_check_get_access acl_is_subset_set split: bind_splits)

lemma filed_record:
  assumes "filed s m" and "m t = Some c"
  obtains th subject author sg where "read_trn s (cb_trn_addr c) True True True = Some (OK, th, subject, author, sg)"
    "read_trn s (cb_trn_addr c) False True False = Some (OK, th, [], author, [])" "c_string (Some author) \<noteq> None"
proof -
  have "entry_of s c \<noteq> None" using assms by (auto simp: filed_def in_file_def split: option.splits)
  then obtain th subject author sg where
    r: "read_trn s (cb_trn_addr c) True True True = Some (OK, th, subject, author, sg)" "c_string (Some author) \<noteq> None"
    by (auto simp: entry_of_def split: if_splits bind_splits)
  then have "read_trn s (cb_trn_addr c) False True False = Some (OK, th, [], author, [])"
    by (auto simp: read_trn_def Let_def split: if_splits bind_splits)
  with r that show ?thesis by blast
qed

lemma edit_start_returns:
  assumes "kept name ln ch s sb m"
  shows "edit_start name t check s \<noteq> None"
proof -
  from assms(1) have r: "open_on s name" "at_rest s sb ln ch m" "mtg_inv sb m" "filed s m" "listed s" by (simp_all add: kept_def)
  define x where "x = with_super sb ln ch (begin_atomic s)"
  note b = edit_begin [OF r(2), folded x_def]
  have f: "read_trn x = read_trn s" "has_trn_access x = has_trn_access s"
    unfolding x_def by (rule read_trn_cong access_cong; simp add: with_super_def begin_atomic_def)+
  show ?thesis
  proof (cases "m t")
    case None
    then have "t < 1 \<or> ms_highest sb < t" using r(3) unfolding mtg_inv_def by (metis atLeastAtMost_iff domIff not_less)
    moreover have "ms_lowest sb = 1" using r(2) by (simp add: at_rest_def mtg_in_def sb_ok_def)
    ultimately have "read_chain x t None = Some (NO_SUCH_TRN, None)" by (intro read_chain_none) (simp_all add: b(4))
    then show ?thesis by (simp add: edit_start_def open_on_again [OF r(1)] b(1))
  next
    case (Some c)
    have c: "read_chain x t None = Some (OK, Some c)"
      by (rule read_chain_rep [where m = m, OF _ Some]) (use b(2) in \<open>simp add: editing_def\<close>)
    from filed_record [OF r(4) Some] obtain th author where
      t: "read_trn s (cb_trn_addr c) False True False = Some (OK, th, [], author, [])" "c_string (Some author) \<noteq> None" by metis
    with listed_access(1) [OF r(5) t(2), of "CHR ''d''"] obtain ok where "has_trn_access s author CHR ''d'' = Some ok" by auto
    with t(1) c show ?thesis by (simp add: edit_start_def open_on_again [OF r(1)] b(1) f)
  qed
qed

lemma edits_return:
  assumes "kept name ln ch s sb m"
  shows "delete_trn name t s \<noteq> None" and "retrieve_trn name t s \<noteq> None" and "set_trn_flags name t f s \<noteq> None"
proof -
  from assms(1) have r: "open_on s name" "at_rest s sb ln ch m" "mtg_inv sb m" "\<not> read_lock s" by (simp_all add: kept_def)
  have d: "dom m = {1 .. ms_highest sb}" using r(3) by (simp add: mtg_inv_def)
  have start: "k0 = OK \<Longrightarrow> \<exists>c. m t = Some c \<and> check c = OK \<and> may_edit s c" if "edit_start name t check s = Some (k0, cb, s1)" for check k0 cb s1
    using edit_start_cases [OF that r(1,2,4) d] that by auto
  show "delete_trn name t s \<noteq> None"
  proof -
    obtain k cb s1 where e: "edit_start name t not_deleted s = Some (k, cb, s1)" using edit_start_returns [OF assms, of t not_deleted] by auto
    show ?thesis
    proof (cases "k = OK")
      case True
      with start [OF e] obtain c where c: "m t = Some c" "not_deleted c = OK" "may_edit s c" by blast
      then have "\<not> deleted c" by (auto simp: not_deleted_def split: if_splits)
      with delete_trn_blocks [OF open_on_again [OF r(1)] r(2,3) c(1) _ c(3)] show ?thesis by auto
    qed (use e in \<open>simp add: delete_trn_def\<close>)
  qed
  show "retrieve_trn name t s \<noteq> None"
  proof -
    obtain k cb s1 where e: "edit_start name t was_deleted s = Some (k, cb, s1)" using edit_start_returns [OF assms, of t was_deleted] by auto
    show ?thesis
    proof (cases "k = OK")
      case True
      with start [OF e] obtain c where c: "m t = Some c" "was_deleted c = OK" "may_edit s c" by blast
      then have "deleted c" "cb_trn_addr c \<noteq> 0" by (auto simp: was_deleted_def split: if_splits)
      with retrieve_trn_blocks [OF open_on_again [OF r(1)] r(2,3) c(1) _ _ c(3)] show ?thesis by auto
    qed (use e in \<open>simp add: retrieve_trn_def\<close>)
  qed
  show "set_trn_flags name t f s \<noteq> None"
  proof -
    obtain k cb s1 where e: "edit_start name t not_deleted s = Some (k, cb, s1)" using edit_start_returns [OF assms, of t not_deleted] by auto
    show ?thesis
    proof (cases "k = OK")
      case True
      with start [OF e] obtain c where c: "m t = Some c" "not_deleted c = OK" "may_edit s c" by blast
      then have "\<not> deleted c" by (auto simp: not_deleted_def split: if_splits)
      with set_flags_blocks [OF open_on_again [OF r(1)] r(2,3) c(1) _ c(3)] show ?thesis by fastforce
    qed (use e in \<open>simp add: set_trn_flags_def\<close>)
  qed
qed

lemma find_trn_returns:
  assumes "kept name ln ch s sb m"
  shows "find_trn name t True s \<noteq> None"
proof -
  from assms(1) have r: "open_on s name" "at_rest s sb ln ch m" "mtg_inv sb m" "filed s m" "listed s" by (simp_all add: kept_def)
  define x where "x = reading sb ln ch s"
  note b = read_begin [OF r(2), folded x_def] and f = reading_cong [of sb ln ch s, folded x_def]
  show ?thesis
  proof (cases "m t")
    case None
    then have "t < 1 \<or> ms_highest sb < t" using r(3) unfolding mtg_inv_def by (metis atLeastAtMost_iff domIff not_less)
    moreover have "ms_lowest sb = 1" using r(2) by (simp add: at_rest_def mtg_in_def sb_ok_def)
    ultimately have "read_chain x t None = Some (NO_SUCH_TRN, None)" by (intro read_chain_none) (simp_all add: b(3))
    then show ?thesis by (simp add: find_trn_def open_on_again [OF r(1)] b(1))
  next
    case (Some c)
    with r(4) have a: "cb_trn_addr c \<noteq> 0" by (auto simp: filed_def split: option.splits)
    from chain_dom [OF r(3) Some a] obtain k where "m (cb_trn_chain c) = Some k" by auto
    then have c: "read_chain x t None = Some (OK, Some c)" "read_chain x (cb_trn_chain c) None = Some (OK, Some k)"
      using read_chain_rep [OF b(2)] Some by blast+
    from filed_record [OF r(4) Some] obtain th subject author sg where
      t: "read_trn s (cb_trn_addr c) True True True = Some (OK, th, subject, author, sg)" "c_string (Some author) \<noteq> None" by metis
    from listed_access(1) [OF r(5) t(2), of "CHR ''r''"] listed_access(1) [OF r(5) t(2), of "CHR ''d''"] obtain ok1 ok2 where
      "has_trn_access s author CHR ''r'' = Some ok1" "has_trn_access s author CHR ''d'' = Some ok2" by auto
    with t(1) c a show ?thesis by (simp add: find_trn_def open_on_again [OF r(1)] b(1) f Let_def)
  qed
qed

lemma add_start_returns:
  assumes "topen CHR ''r'' s = Some (0, OK, s1)"
    and "open_on s name" and "at_rest s sb ln ch m" and "ms_date_created sb \<noteq> 0" and "listed s" and "dom m = {1 .. ms_highest sb}"
  shows "add_start name reply s \<noteq> None"
proof -
  define x where "x = s1\<lparr>abort_file := True\<rparr>"
  obtain u f where s1: "s1 = s\<lparr>us := u, tf := f\<rparr>" using topen_only [OF assms(1)] by blast
  have o: "open_mtg name x = Some (OK, x)"
    by (rule open_on_again, rule open_on_added [OF assms(2)]) (simp add: add_frame_def x_def s1)
  have a: "has_mtg_access x = has_mtg_access s" by (rule access_cong) (simp_all add: x_def s1)
  have r: "at_rest x sb ln ch m" using assms(3) by (simp add: at_rest_def x_def s1)
  define y where "y = with_super sb ln ch (begin_atomic x)"
  note b = edit_begin [OF r, folded y_def]
  from listed_access(2) [OF assms(5)] obtain ok where ok: "has_mtg_access s (if reply \<noteq> 0 then CHR ''a'' else CHR ''w'') = Some ok"
    by fastforce
  obtain k cb where "read_chain y reply None = Some (k, cb)" "k = OK \<Longrightarrow> cb \<noteq> None"
  proof (cases "m reply")
    case None
    then have "reply < 1 \<or> ms_highest sb < reply" using assms(6) by (metis atLeastAtMost_iff domIff not_less)
    moreover have "ms_lowest sb = 1" using assms(3) by (simp add: at_rest_def mtg_in_def sb_ok_def)
    ultimately have "read_chain y reply None = Some (NO_SUCH_TRN, None)" by (intro read_chain_none) (simp_all add: b(4))
    with that show ?thesis by simp
  next
    case (Some c)
    have "read_chain y reply None = Some (OK, Some c)"
      by (rule read_chain_rep [where m = m, OF _ Some]) (use b(2) in \<open>simp add: editing_def\<close>)
    with that show ?thesis by simp
  qed
  then show ?thesis
    using ok by (auto simp: add_start_def assms(1,4) o a b(1,4) simp flip: x_def)
qed

lemma post_returns:
  assumes "kept name ln ch s sb m" and "proper (Post subject sg reply p) s"
  shows "add_trn2 name subject sg reply s \<noteq> None"
proof -
  from assms(1) have r: "open_on s name" "at_rest s sb ln ch m" "mtg_inv sb m" "filed s m" "\<not> read_lock s" "ms_date_created sb \<noteq> 0"
    "fdata (fs s) (u_trn_f s) \<noteq> []" "listed s" by (simp_all add: kept_def)
  have d: "dom m = {1 .. ms_highest sb}" using r(3) by (simp add: mtg_inv_def)
  from assms(2) obtain s1 where p: "c_ok subject" "c_ok sg" "c_ok (rpc_caller s)" "sends s p s1"
    "record_fits (length (fdata (fs s) (u_trn_f s))) (first_line subject) (rpc_caller s) (kept_sig (rpc_caller s) (Some sg)) p"
    and room: "ms_chain_start sb + (ms_highest sb + 1) * int CHAIN_SIZE \<le> int ALIMIT"
    using read_begin [OF r(2)] by (auto simp: has_room_def)
  from p(4) have op1: "topen CHR ''r'' s = Some (0, OK, s1)" by (simp add: sends_def)
  show ?thesis
  proof (cases "may_add s m reply")
    case True
    have rd: "add_ready s name sb ln ch m reply" using r True room p(3) by (simp add: add_ready_def)
    have sgok: "\<And>g. Some sg = Some g \<Longrightarrow> c_ok g" using p(2) by simp
    from add_trn_priv_ok [OF rd p(4,5) sgok p(1) filed_whole [OF r(4)] p(3) added_now(2) [of s] added_now(3) [OF rd]] show ?thesis
      by (auto simp: add_trn2_def)
  next
    case False
    obtain k cb s2 where e: "add_start name reply s = Some (k, cb, s2)"
      using add_start_returns [OF op1 r(1,2,6,8) d, of reply] by auto
    with add_start_cases [OF e op1 r(1,2,5,6) d] False have "k \<noteq> OK" by blast
    with e show ?thesis by (simp add: add_trn2_def add_trn_priv_def)
  qed
qed

lemma perform_returns:
  assumes "kept name ln ch s sb m" and "proper rq s"
  shows "perform name rq s \<noteq> None"
proof (cases rq)
  case (Info t)
  from find_trn_returns [OF assms(1), of t] obtain y where "find_trn name t True s = Some y" by auto
  with Info show ?thesis by (cases y) (simp add: get_trn_info3_def)
next
  case (Post subject sg reply p)
  from post_returns [OF assms(1) assms(2) [unfolded Post]] obtain y where "add_trn2 name subject sg reply s = Some y" by auto
  with Post show ?thesis by (cases y) simp
qed (use edits_return [OF assms(1)] in simp_all)

text \<open>
  C4. Every call returns.  On a meeting in order, after any number of calls, the next one comes to an end with a result: the
  searches of a retrieval and the walks along the lists end, and nothing is read that is not there.
\<close>

theorem served_returns:
  assumes "serves name s0 tr s" and "kept name ln ch s0 sb m" and "proper rq (net_call who n u s)"
  shows "\<exists>k s'. perform name rq (net_call who n u s) = Some (k, s') \<and> serves name s0 (tr @ [(who, rq, k)]) s'"
proof -
  from serves_run [OF assms(1,2)] obtain sb1 m1 where "kept name ln ch s sb1 m1" by blast
  from perform_returns [OF kept_call(1) [OF this] assms(3)] obtain k s' where
    "perform name rq (net_call who n u s) = Some (k, s')" by auto
  with serves_more [OF assms(1,3) this] show ?thesis by blast
qed

theorem served_returns_witness:
  "\<exists>k s'. perform ''/m'' (Retrieve 7) (net_call ''guest'' 0 (new_stream []) demo_srv) = Some (k, s')"
  using served_returns [OF serves_none demo_kept, of "Retrieve 7" "''guest''" 0 "new_stream []"] by auto

subsection \<open>Posted and read\<close>

text \<open>Whether a note that was up when the calls began is up after them: it is, unless the last of its deletions and retrievals is a deletion.\<close>

definition stands :: "int \<Rightarrow> (string \<times> request \<times> code) list \<Rightarrow> bool" where
  "stands t tr \<longleftrightarrow> fold (\<lambda>(who, rq, k) up. if k \<noteq> OK then up
     else case rq of Delete n \<Rightarrow> n \<noteq> t \<and> up | Retrieve n \<Rightarrow> n = t \<or> up | _ \<Rightarrow> up) tr True"

lemma stands_simps [simp]:
  "stands t []"
  "stands t (tr @ [(who, rq, k)]) \<longleftrightarrow> (if k \<noteq> OK then stands t tr
     else case rq of Delete n \<Rightarrow> n \<noteq> t \<and> stands t tr | Retrieve n \<Rightarrow> n = t \<or> stands t tr | _ \<Rightarrow> stands t tr)"
  by (auto simp: stands_def split: request.split)

lemma board_run_stands: "board_run b tr b' \<Longrightarrow> t \<in> b_shown b \<Longrightarrow> stands t tr \<Longrightarrow> t \<in> b_shown b'"
proof (induction rule: board_run.induct)
  case (run_more b tr b1 who rq k b2)
  from run_more.hyps(2) run_more.IH run_more.prems show ?case by cases (auto split: if_splits)
qed simp

lemma post_shown:
  assumes "kept name ln ch s sb m" and "proper (Post subject sg reply p) s" and "add_trn2 name subject sg reply s = Some (OK, Some t, s1)"
  obtains sb1 m1 e where "kept name ln ch s1 sb1 m1" "posts s1 m1 t = Some e" "en_text e = p" "t \<in> live m1"
proof -
  from step_post [OF assms] obtain sb1 m1 where k: "kept name ln ch s1 sb1 m1"
    and st: "board_step (rpc_caller s) (Post subject sg reply p) OK (board_of s m) (board_of s1 m1)" and t: "t = ms_highest sb + 1"
    by (auto simp: stepped_def)
  from st obtain e where "posts s1 m1 = (posts s m)(t \<mapsto> e)" "en_text e = p" "live m1 = insert t (live m)"
    by (rule post_stepE) (use kept_posts(2) [OF assms(1)] t in \<open>auto simp: board_of_def\<close>)
  with k that show thesis by auto
qed

text \<open>
  C8. A text that was posted is what a reader gets.  After an addition to a meeting in order, whose text was sent whole, and after any
  sequence of further calls of any callers, a \<open>get_trn\<close> of the new number by anyone who has the mode \<open>r\<close>, over a
  connection that can be written to, succeeds, unless the transaction has been deleted and not been retrieved, and the one block that
  the server sends holds exactly the text.
\<close>

theorem post_then_get:
  assumes "kept name ln ch s sb m" and "proper (Post subject sg reply txt) s" and "add_trn2 name subject sg reply s = Some (OK, Some t, s1)"
    and "serves name s1 tr s2" and "stands t tr"
    and "check_acl (s2\<lparr>rpc_caller := reader\<rparr>) ''r'' = Some True" and "\<not> sending u" and "\<not> us_wfail u"
  shows "\<exists>s3 blk. get_trn name t (net_call reader n u s2) = Some (OK, s3) \<and> us_out (us s3) = us_out u @ blk \<and>
    (\<forall>peer rest. us_in peer = blk @ rest \<longrightarrow>
       (\<exists>p1 p2. USP_rcv_blk peer = Some (SUCCESS, TFILE_BLK, p1) \<and>
          USP_get_byte_block p1 (length txt) = (SUCCESS, txt, p2) \<and> us_in (USP_flush_block p2) = rest))"
proof -
  from post_shown [OF assms(1-3)] obtain sb1 m1 e where
    1: "kept name ln ch s1 sb1 m1" "posts s1 m1 t = Some e" "en_text e = txt" "t \<in> live m1" .
  from serves_run [OF assms(4) 1(1)] obtain sb2 m2 where
    2: "kept name ln ch s2 sb2 m2" "board_run (board_of s1 m1) tr (board_of s2 m2)" by blast
  from kept_posts(1) [OF 1(1)] 1(1) have "dom (b_posts (board_of s1 m1)) = {1 .. int (nat (ms_highest sb1))}"
    by (simp add: board_of_def kept_def mtg_inv_def)
  then have "\<exists>n. dom (b_posts (board_of s1 m1)) = {1 .. int n}" by blast
  from board_run_keeps [OF 2(2) this] 1(2) have e: "posts s2 m2 t = Some e" by (auto simp: board_of_def map_le_def dom_def)
  from board_run_stands [OF 2(2), of t] 1(4) assms(5) obtain c where c: "m2 t = Some c" "\<not> deleted c"
    by (auto simp: board_of_def live_def)
  from 2(1) have k: "open_on s2 name" "at_rest s2 sb2 ln ch m2" "mtg_inv sb2 m2" "filed s2 m2" by (simp_all add: kept_def)
  from k(4) c(1) have f: "in_file s2 c" by (auto simp: filed_def split: option.splits)
  from post_of [OF k(4) c(1)] e c have ct: "contents s2 m2 t = Some e" by (auto simp: contents_def)
  have "in_file (net_call reader n u s2) c" "check_acl (net_call reader n u s2) ''r'' = Some True" using f assms(6) by simp_all
  from may_read_record [OF this] obtain th sj au g where "shows_record (net_call reader n u s2) c th sj au g" .
  from get_trn_sends [OF _ _ k(3) c _ this, of name ln ch n] k f assms(7,8) ct 1(3) show ?thesis by simp blast
qed

theorem post_then_get_witness:
  "\<exists>s1 s2 k s3 blk. add_trn2 ''/m'' ''Re'' [] 2 (posting ''yes'') = Some (OK, Some 4, s1) \<and>
    serves ''/m'' s1 [(''guest'', Info 4, k)] s2 \<and>
    get_trn ''/m'' 4 (net_call ''bob'' 0 (new_stream []) s2) = Some (OK, s3) \<and> us_out (us s3) = blk"
proof -
  have fit: "record_fits (length (fdata (fs (posting ''yes'')) (u_trn_f (posting ''yes'')))) (first_line ''Re'')
      (rpc_caller (posting ''yes'')) (kept_sig (rpc_caller (posting ''yes'')) (Some [])) ''yes''"
    by (simp add: posting_fields record_fits_def first_line_def kept_sig_def author_text_def)
      (simp add: demo_srv_def demo_mtg_fs_def demo_trns_def mtg_layout)
  have "unharmed demo_srv (posting ''yes'')"
    using demo_kept by (simp add: unharmed_def kept_def at_rest_def) (simp add: posting_def)
  from kept_unharmed(1) [OF demo_kept this] have k: "kept ''/m'' ''demo'' ''srz'' (posting ''yes'') demo_sb demo_chains" .
  then have "at_rest (posting ''yes'') demo_sb ''demo'' ''srz'' demo_chains" by (simp add: kept_def)
  from read_begin [OF this] have "has_room (posting ''yes'')"
    by (simp add: has_room_def) (simp add: demo_sb_def ALIMIT_def mtg_layout)
  with fit posting_sends have pr: "proper (Post ''Re'' [] 2 ''yes'') (posting ''yes'')"
    by (auto simp: c_ok_def posting_fields)
  from add_trn_priv_ok [OF posting_ready posting_sends fit _ _ posting_whole added_now(1) [OF posting_ready] added_now(2) [of "posting ''yes''"]
      added_now(3) [OF posting_ready]] obtain s1 where
    s1: "add_trn2 ''/m'' ''Re'' [] 2 (posting ''yes'') = Some (OK, Some (ms_highest demo_sb + 1), s1)" "add_frame (posting ''yes'') s1"
    by (auto simp: add_trn2_def c_ok_def posting_fields)
  have a: "add_trn2 ''/m'' ''Re'' [] 2 (posting ''yes'') = Some (OK, Some 4, s1)" using s1(1) by (simp add: demo_sb_def)
  from post_shown [OF k pr a] obtain sb1 m1 where k1: "kept ''/m'' ''demo'' ''srz'' s1 sb1 m1" by metis
  let ?s = "net_call ''guest'' 0 (new_stream []) s1"
  note kc = kept_call(1) [OF k1, of "''guest''" 0 "new_stream []"]
  obtain k r s2 where f: "find_trn ''/m'' 4 True ?s = Some (k, r, s2)" using find_trn_returns [OF kc, of 4] by (cases "find_trn ''/m'' 4 True ?s") auto
  then have sv: "serves ''/m'' s1 [(''guest'', Info 4, k)] s2"
    using serves_more [OF serves_none, of "Info 4" "''guest''" 0 "new_stream []" s1 "''/m''" k s2] by (simp add: get_trn_info3_def)
  have "unharmed ?s s2"
    by (rule find_trn_unharmed [where sb = sb1 and ln = "''demo''" and ch = "''srz''" and m = m1, OF f]) (use kc in \<open>simp_all add: kept_def\<close>)
  then have "mtg_acl s2 = mtg_acl demo_srv" using s1(2) by (simp add: unharmed_def add_frame_def posting_def)
  then have "check_acl (s2\<lparr>rpc_caller := ''bob''\<rparr>) ''r'' = Some True"
    by (simp add: check_acl_def demo_srv_def demo_acl_def acl_is_subset_def)
  moreover have "stands 4 [(''guest'', Info 4, k)]" by (simp add: stands_def)
  ultimately obtain s3 where "get_trn ''/m'' 4 (net_call ''bob'' 0 (new_stream []) s2) = Some (OK, s3)"
    using post_then_get [OF k pr a sv, of "''bob''" "new_stream []" 0] by (auto simp: new_stream_def)
  with a sv show ?thesis by blast
qed

end
