(* ===== verification/Limits.thy ===== *)
theory Limits
  imports Abort Starve Lookup
begin

text \<open>
  The widths of C.  The places that are computed from a superblock in order do not wrap around; most subjects whose length is no positive
  number in its field are refused.
\<close>

subsection \<open>Where the blocks are\<close>

text \<open>
  With a superblock in order, the place of a block is computed without wrap-around, it is behind the superblock, inside what an
  atomic file can number with 16 bits, and no two blocks share a byte.
\<close>

theorem block_places:
  assumes "sb_ok sb" and "1 \<le> t" and "t \<le> ms_highest sb"
  shows "chain_addr sb t = ms_chain_start sb + (t - 1) * int CHAIN_SIZE \<and> int SUPER_SIZE \<le> chain_addr sb t \<and>
    chain_addr sb t + int CHAIN_SIZE \<le> 512 * 65535 \<and>
    (\<forall>u. 1 \<le> u \<and> u \<le> ms_highest sb \<and> u \<noteq> t \<longrightarrow>
       chain_addr sb t + int CHAIN_SIZE \<le> chain_addr sb u \<or> chain_addr sb u + int CHAIN_SIZE \<le> chain_addr sb t)"
proof -
  note b = blk_range [OF assms]
  have "chain_addr sb t + int CHAIN_SIZE \<le> chain_addr sb u \<or> chain_addr sb u + int CHAIN_SIZE \<le> chain_addr sb t"
    if "1 \<le> u" "u \<le> ms_highest sb" "u \<noteq> t" for u
    using blk_disjoint [OF assms(1,2) that(1)] that(3) blk_range(1) [OF assms(1) that(1,2)] b(1) by linarith
  moreover have "chain_addr sb t = ms_chain_start sb + (t - 1) * int CHAIN_SIZE"
    using b(1,2) by (simp add: blk_pos_def mtg_layout)
  ultimately show ?thesis using b by (simp add: ALIMIT_def)
qed

theorem block_places_witness: "chain_addr demo_sb 3 = ms_chain_start demo_sb + 2 * int CHAIN_SIZE"
  using block_places [of demo_sb 3] demo_at_rest by (simp add: at_rest_def mtg_in_def) (simp add: demo_sb_def)

subsection \<open>Long subjects\<close>

lemma i16_past:
  assumes "2 ^ 15 \<le> x mod 2 ^ 16"
  shows "i16 x = x mod 2 ^ 16 - 2 ^ 16"
proof -
  have "(x + 2 ^ 15) mod 2 ^ 16 = (x mod 2 ^ 16 + 2 ^ 15) mod 2 ^ 16" by (rule mod_add_left_eq [symmetric])
  also have "\<dots> = ((x mod 2 ^ 16 - 2 ^ 15) + 2 ^ 16) mod 2 ^ 16" by (simp add: add.commute)
  also have "\<dots> = (x mod 2 ^ 16 - 2 ^ 15) mod 2 ^ 16" by (rule mod_add_self2)
  also have "\<dots> = x mod 2 ^ 16 - 2 ^ 15" using assms pos_mod_bound [of "2 ^ 16" x] by (intro mod_pos_pos_trivial) simp_all
  finally show ?thesis by (simp add: signed_take_bit_eq_take_bit_shift take_bit_eq_mod)
qed

lemma add_text_long_subject:
  assumes "faults (fs s) = []" and "tf s = Some t" and "2 ^ 15 \<le> (length (first_line subject) + 1) mod 2 ^ 16"
    and "(length (first_line subject) + 1) mod 2 ^ 16 < 2 ^ 16 - 1"
  shows "\<exists>s'. add_text cb subject author sg date s = Some (NO_WRITE, None, s')"
proof -
  define x where "x = int (length (first_line subject)) + 1"
  have "x mod 2 ^ 16 = int ((length (first_line subject) + 1) mod 2 ^ 16)" by (simp add: x_def zmod_int add.commute)
  then have x: "2 ^ 15 \<le> x mod 2 ^ 16" "x mod 2 ^ 16 < 2 ^ 16 - 1" using assms(3,4) by simp_all
  define sb where "sb = super_new s cb date"
  define th where "th = new_hdr (s\<lparr>super := sb\<rparr>) cb (first_line subject) author (kept_sig author sg) (tfsize t) (ms_highest_trn_addr sb)"
  define s2 where "s2 = s\<lparr>super := sb\<lparr>ms_highest_trn_addr := cb_trn_addr cb\<rparr>\<rparr>"
  have "th_subject_len th = i16 x" by (simp add: th_def new_hdr_def Let_def x_def)
  also have "\<dots> < -1" using i16_past [OF x(1)] x(2) by simp
  finally have neg: "th_subject_len th < -1" .
  have "faults (fs s2) = []" using assms(1) by (simp add: s2_def)
  then obtain s3 where "trn_write s2 (length (fdata (fs s2) (u_trn_f s2))) (int HDR_SIZE) (enc_hdr (disk_hdr s2 th)) = (int HDR_SIZE, s3)"
    by (simp add: trn_write_def sys_write_ok)
  then have "add_strings s2 th (first_line subject) author (kept_sig author sg) = (None, s3)"
    using neg by (simp add: add_strings_def Let_def trn_write_def [of s3])
  with add_text_strings(1) [OF assms(2) _ refl] show ?thesis unfolding s2_def th_def sb_def by blast
qed

text \<open>
  C37. A subject whose length, with its zero, is less than -1 as a 16 bit number is not stored: the call reports that it could
  not write, and the control file is as before.  These are the subjects of 32767 to 65533 characters, and so on by 65536.  The next two
  lengths are not refused: with -1 the call does not notice (\<open>subject_unnoticed\<close>), with 0 it leaves the subject out.
\<close>

theorem add_long_subject:
  assumes "add_ready s name sb ln ch m reply" and "topen CHR ''r'' s = Some (0, OK, s1)" and "tf s1 = Some t"
    and "record_fits (length (fdata (fs s) (u_trn_f s))) [] [] None []" and "\<not> no_nuke s"
    and "2 ^ 15 \<le> (length (first_line subject) + 1) mod 2 ^ 16" and "(length (first_line subject) + 1) mod 2 ^ 16 < 2 ^ 16 - 1"
  shows "\<exists>s'. add_trn2 name subject sg reply s = Some (NO_WRITE, None, s') \<and> \<not> nuclear s' \<and>
    fdata (fs s') (u_control_f s) = fdata (fs s) (u_control_f s)"
proof -
  from add_before_text [OF assms(2,1,4), of subject "Some sg" "rpc_caller s" "time_now s"] obtain cb s3 where
    c: "add_trn_priv name subject (Some sg) reply 0 (rpc_caller s) (time_now s) 0 s =
      add_text cb subject (rpc_caller s) (Some sg) (time_now s) s3" and s3: "faults (fs s3) = []" "tf s3 = tf s1" by blast
  from add_text_long_subject [OF s3(1) _ assms(6,7)] s3(2) assms(3) c obtain s' where
    s': "add_trn2 name subject sg reply s = Some (NO_WRITE, None, s')" unfolding add_trn2_def by metis
  define s0 where "s0 = s1\<lparr>abort_file := True\<rparr>"
  obtain u f where s1: "s1 = s\<lparr>us := u, tf := f\<rparr>" using topen_only [OF assms(2)] by blast
  from assms(1) have r: "open_on s name" "at_rest s sb ln ch m" "ms_date_created sb \<noteq> 0" by (simp_all add: add_ready_def)
  have o: "open_mtg name s0 = Some (OK, s0)"
    by (rule open_on_again, rule open_on_added [OF r(1)]) (simp add: add_frame_def s0_def s1)
  have a: "at_rest s0 sb ln ch m" using r(2) by (simp add: at_rest_def s0_def s1)
  have "created s0" using edit_begin(1,4) [OF a] r(3) by (simp add: created_def)
  moreover have "\<not> no_nuke s0" "\<not> nuclear s0" "u_control_f s0 \<noteq> u_trn_f s0" "fs s0 = fs s" "u_control_f s0 = u_control_f s"
    using assms(5) r(1,2) by (simp_all add: s0_def s1 at_rest_def open_on_def)
  ultimately have "restored True s0 s'" using add_restored [OF s' _ assms(2) o [unfolded s0_def]] by (simp flip: s0_def)
  with s' \<open>fs s0 = fs s\<close> \<open>u_control_f s0 = u_control_f s\<close> show ?thesis by (simp add: restored_def)
qed

theorem add_long_subject_witness:
  "\<exists>s'. add_trn2 ''/m'' (replicate 40000 CHR ''x'') ''me'' 2 (posting ''yes'') = Some (NO_WRITE, None, s') \<and> \<not> nuclear s'"
proof -
  have f: "first_line (replicate 40000 CHR ''x'') = replicate 40000 CHR ''x''" by (simp add: first_line_def)
  have "record_fits (length (fdata (fs (posting ''yes'')) (u_trn_f (posting ''yes'')))) [] [] None []"
    by (simp add: posting_fields record_fits_def author_text_def) (simp add: demo_srv_def demo_mtg_fs_def demo_trns_def mtg_layout)
  moreover have "topen CHR ''r'' (posting ''yes'') = Some (0, OK, posting ''yes'')" "tf (posting ''yes'') = Some (mem_tfile ''yes'')"
    using posting_sends [of "''yes''"] by (simp_all add: sends_def posting_def)
  moreover have "\<not> no_nuke (posting ''yes'')" by (simp add: posting_def demo_srv_def)
  ultimately show ?thesis
    using add_long_subject [OF posting_ready, of "''yes''" "posting ''yes''" "mem_tfile ''yes''" "replicate 40000 CHR ''x''" "''me''"]
    by (auto simp: f)
qed

text \<open>
  A subject of 65534 characters has the length -1, which is also what a failing write returns: the strings are taken
  for written, and the author stands where the subject should.
\<close>

lemma subject_unnoticed:
  assumes "th_subject_len th = -1" and "faults (fs s) = []" and "th_author_len th = int (length author) + 1"
  shows "\<exists>s'. add_strings s th subject author None = (Some (length (fdata (fs s) (u_trn_f s)) + HDR_SIZE + length author + 1), s') \<and>
    grown s (enc_hdr (disk_hdr s th) @ author @ [NUL]) s'"
proof -
  define n0 where "n0 = length (fdata (fs s) (u_trn_f s))"
  define h where "h = enc_hdr (disk_hdr s th)"
  have lh: "length h = HDR_SIZE" by (simp add: h_def)
  from trn_append_step [OF grown_refl [OF assms(2)], of n0 "int HDR_SIZE" h] obtain s1 where
    1: "trn_write s n0 (int HDR_SIZE) h = (int HDR_SIZE, s1)" "grown s h s1" by (auto simp: n0_def lh)
  have 2: "trn_write s1 (n0 + HDR_SIZE) (-1) b = (-1, s1)" for b by (simp add: trn_write_def)
  from trn_append_step [OF 1(2), of "n0 + HDR_SIZE" "th_author_len th" "author @ [NUL]"] obtain s3 where
    3: "trn_write s1 (n0 + HDR_SIZE) (th_author_len th) (author @ [NUL]) = (th_author_len th, s3)"
    "grown s (h @ author @ [NUL]) s3" by (auto simp: n0_def lh assms(3))
  have "nat (int k + 1) = k + 1" for k by simp
  with 1(1) 2 3 show ?thesis by (simp add: add_strings_def Let_def assms(1,3) flip: n0_def h_def)
qed

end
