(* ===== verification/Create.thy ===== *)
theory Create
  imports Board
begin

text \<open>
  Creating a meeting: the three files of a new meeting hold an empty meeting in order, in which calls can be served.
\<close>

subsection \<open>The superblock with its strings\<close>

text \<open>
  \<open>write_super\<close> lays the strings out when their lengths have changed, here from zero.
\<close>

definition laid_out :: "mtg_super \<Rightarrow> string \<Rightarrow> string \<Rightarrow> mtg_super" where
  "laid_out sb ln ch = sb\<lparr>ms_long_name_addr := int SUPER_SIZE, ms_long_name_len := int (length ln) + 1,
     ms_chairman_addr := int SUPER_SIZE + (int (length ln) + 1), ms_chairman_len := int (length ch) + 1\<rparr>"

lemma write_super_laid_out:
  assumes "super_long_name s = Some (ln @ [NUL])" and "super_chairman s = Some (ch @ [NUL])" and "c_ok ln" and "c_ok ch"
    and "length ln + 1 < 2 ^ 15" and "length ch + 1 < 2 ^ 15" and "ms_chairman_len (super s) = 0"
  shows "write_super s = write_super (s\<lparr>super := laid_out (super s) ln ch\<rparr>)"
proof -
  have i: "i16 (int (length ln) + 1) = int (length ln) + 1" "i16 (int (length ch) + 1) = int (length ch) + 1"
    using assms(5,6) by (simp_all add: signed_take_bit_int_eq_self)
  have c: "c_string (Some (ch @ [NUL])) = Some ch" "c_string (Some (ln @ [NUL])) = Some ln"
    using assms(3,4) by (simp_all add: c_string_def)
  have w: "ctl_write (x\<lparr>super := sb\<rparr>) a n b = map_option (map_prod id (\<lambda>y. y\<lparr>super := sb\<rparr>)) (ctl_write x a n b)" for x sb a n b
    by (cases "awrite (a_control_f x) (fs x) (take (nat n) b) (nat a)") (auto simp: ctl_write_def split: prod.split)
  show ?thesis
    unfolding write_super_def
    by (simp add: assms(1,2,7) c i laid_out_def Let_def w bind_map_option comp_def split_def)
qed

lemma new_super_ok:
  fixes public date sz :: int
  assumes "fits 4 date" and "c_ok ln" and "c_ok ch" and "length ln + length ch \<le> 954"
  defines "sb \<equiv> laid_out (new_super public date sz) ln ch"
  shows "fits 4 sz \<Longrightarrow> sb_ok sb" and "names_ok sb ln ch" and "mtg_inv sb Map.empty"
proof -
  have f: "fits 4 x" if "0 \<le> x" "x < 2 ^ 31" for x using that by (simp add: fits_def)
  have f2: "fits 2 x" if "0 \<le> x" "x < 2 ^ 15" for x using that by (simp add: fits_def)
  show "sb_ok sb" if "fits 4 sz"
    using assms(1,4) that by (simp add: sb_def laid_out_def new_super_def sb_ok_def super_ok_def super_fields_def mtg_layout ALIMIT_def
        mtg_consts f f2 MTG_PUBLIC_def)
  show "names_ok sb ln ch"
    using assms(2-4) by (simp add: sb_def laid_out_def new_super_def names_ok_def string_area_def SUPER_SIZE_def)
  show "mtg_inv sb Map.empty"
    by (simp add: sb_def laid_out_def new_super_def mtg_inv_def least_def greatest_def live_def)
qed

text \<open>Writing the superblock of a control file that is still empty.\<close>

lemma write_new_super:
  assumes "\<not> nuclear s" and "faults (fs s) = []" and "fdata (fs s) (u_control_f s) = []" and "\<not> mtg_swapped s"
    and "super s = new_super public date sz" and "super_long_name s = Some (ln @ [NUL])" and "super_chairman s = Some (ch @ [NUL])"
    and "fits 4 date" and "fits 4 sz" and "c_ok ln" and "c_ok ch" and "length ln + length ch \<le> 954"
  shows "\<exists>s'. write_super s = Some s' \<and> at_rest s' (laid_out (new_super public date sz) ln ch) ln ch Map.empty \<and> op_frame s s'"
proof -
  define sb where "sb = laid_out (new_super public date sz) ln ch"
  have ok: "sb_ok sb" "names_ok sb ln ch"
    unfolding sb_def using new_super_ok [OF assms(8,10-12)] assms(9) by blast+
  define s1 where "s1 = s\<lparr>super := sb\<rparr>"
  have "write_super s = write_super s1"
    using write_super_laid_out [OF assms(6,7,10,11)] assms(5,12) by (simp add: s1_def sb_def new_super_def)
  moreover have c: "ctl_ok s1" "ctl_view s1 = []" "\<not> nuclear s1"
    using assms(1-3) by (simp_all add: s1_def ctl_ok_def ctl_inv_def ctl_view_def)
  moreover have "blocks_in (ctl_view s1) (mtg_swapped s1) (super s1) Map.empty" by (simp add: blocks_in_def)
  ultimately obtain s2 where w: "write_super s = Some (s2\<lparr>super_chairman := None, super_long_name := None,
      super := (disk_super (mtg_swapped s1) (super s1))\<lparr>ms_unique := 0\<rparr>\<rparr>)" (is "_ = Some ?s3")
    and s2: "ctl_ok s2" "ctl_frame s1 s2" "mtg_in (ctl_view s2) (mtg_swapped s1) (super s1) ln ch Map.empty"
    using write_super_in [of s1 ln ch Map.empty] ok assms(6,7,9) by (auto simp: s1_def)
  note f = ctl_frame_fields [OF s2(2)]
  have o: "op_frame s ?s3"
    by (rule op_frame_trans [OF op_frame_steps(3) [of s sb, folded s1_def]], rule op_frame_trans [OF ctl_frame_op [OF s2(2)] op_frame_steps(4)])
  have "mtg_in (fdata (fs s2) (u_control_f s2)) (mtg_swapped s2) sb ln ch Map.empty"
    using s2(3) c(3) by (simp add: f ctl_view_def) (simp add: s1_def)
  then have "at_rest ?s3 sb ln ch Map.empty"
    using s2(1) c(3) by (simp add: at_rest_def ctl_ok_def f)
  with w o show ?thesis by (auto simp: sb_def)
qed

subsection \<open>The files\<close>

text \<open>A place where a meeting can be created: its directory does not exist, and nothing is below it.\<close>

definition vacant :: "string \<Rightarrow> srv \<Rightarrow> bool" where
  "vacant location s \<longleftrightarrow> good_path location 168 \<and> location \<notin> set (dirs (fs s)) \<and> map_of (links (fs s)) location = None \<and>
     dir_exists (fs s) (dir_of location) \<and> (\<forall>x. map_of (links (fs s)) (location @ CHR ''/'' # x) = None)"

lemma dir_of_file: "CHR ''/'' \<notin> set x \<Longrightarrow> dir_of (location @ CHR ''/'' # x) = location"
proof -
  assume x: "CHR ''/'' \<notin> set x"
  then have "dropWhile (\<lambda>c. c \<noteq> CHR ''/'') (rev x @ CHR ''/'' # rev location) = CHR ''/'' # rev location"
    by (subst dropWhile_append2) auto
  then show ?thesis by (simp add: dir_of_def)
qed

text \<open>The transaction file of a new meeting.\<close>

definition new_trns :: "string \<Rightarrow> string \<Rightarrow> int \<Rightarrow> int \<Rightarrow> bytes" where
  "new_trns ln ch public date = enc_base (new_base ln ch public date) @ ln @ [NUL] @ ch @ [NUL]"

lemma trn_append_ok:
  assumes "grown s0 bs s" and "pos = length (fdata (fs s0) (u_trn_f s0)) + length bs" and "n = int (length b)"
  shows "\<exists>s'. trn_append (pos, s) n b = (pos + length b, s') \<and> grown s0 (bs @ b) s'"
  using trn_append_step [OF assms] assms(3) by (auto simp: trn_append_def)

lemma base_fits:
  assumes "fits 4 date" and "fits 2 public" and "length ln + length ch \<le> 954"
  shows "base_ok (new_base ln ch public date)" and "tb_long_name_len (new_base ln ch public date) = int (length ln) + 1"
    and "tb_chairman_len (new_base ln ch public date) = int (length ch) + 1"
proof -
  have f: "fits 4 x" "fits 2 x" if "0 \<le> x" "x < 2 ^ 15" for x using that by (simp_all add: fits_def)
  have i: "i16 (int (length ln) + 1) = int (length ln) + 1" "i16 (int (length ch) + 1) = int (length ch) + 1"
    using assms(3) by (simp_all add: signed_take_bit_int_eq_self)
  show "base_ok (new_base ln ch public date)"
    using assms by (simp add: base_ok_def base_fields_def new_base_def i mtg_layout f TRN_BASE_1_def TRN_BASE_UNIQUE_def)
  show "tb_long_name_len (new_base ln ch public date) = int (length ln) + 1"
    "tb_chairman_len (new_base ln ch public date) = int (length ch) + 1" by (simp_all add: new_base_def i)
qed

text \<open>The state after the two data files have been made.\<close>

definition made :: "string \<Rightarrow> srv \<Rightarrow> srv \<Rightarrow> nat \<Rightarrow> nat \<Rightarrow> bool" where
  "made location s s' dc dt \<longleftrightarrow> u_control_f s' = dc \<and> u_trn_f s' = dt \<and> dc \<noteq> dt \<and> \<not> mtg_swapped s' \<and> \<not> nuclear s' \<and>
     read_lock s' = read_lock s \<and> mtg_acl s' = mtg_acl s \<and> has_privs s' = has_privs s \<and> no_nuke s' = no_nuke s \<and>
     rpc_caller s' = rpc_caller s \<and> last_acl_mod s' = last_acl_mod s \<and> abort_file s' = abort_file s \<and>
     links (fs s') = (location @ ''/transactions'', dt) # (location @ ''/control'', dc) # links (fs s) \<and> dirs (fs s') = dirs (fs s) \<and>
     now (fs s') = now (fs s) \<and> euid (fs s') = euid (fs s) \<and> faults (fs s') = [] \<and> dc = next_ino (fs s) \<and> dt = Suc dc \<and>
     next_ino (fs s') = Suc dt \<and>
     i_uid (inodes (fs s') dc) = euid (fs s) \<and> i_errno (inodes (fs s') dc) = 0 \<and>
     i_uid (inodes (fs s') dt) = euid (fs s) \<and> i_errno (inodes (fs s') dt) = 0 \<and>
     (\<forall>d. d \<noteq> dc \<and> d \<noteq> dt \<longrightarrow> inodes (fs s') d = inodes (fs s) d)"

lemma create_files_ok:
  assumes "\<not> nuclear s" and "faults (fs s) = []" and "location \<in> set (dirs (fs s))"
    and "\<And>x. map_of (links (fs s)) (location @ CHR ''/'' # x) = None"
    and "fits 4 date" and "fits 2 public" and "c_ok ln" and "c_ok ch" and "length ln + length ch \<le> 954"
  shows "\<exists>s' dc dt sz. create_files location ln public date ch s = Some (OK, s') \<and> made location s s' dc dt \<and>
    at_rest s' (laid_out (new_super public date sz) ln ch) ln ch Map.empty \<and> fdata (fs s') dt = new_trns ln ch public date"
proof -
  define dc where "dc = next_ino (fs s)"
  define f1 where "f1 = (fs s)\<lparr>links := (location @ ''/control'', dc) # links (fs s),
    inodes := (inodes (fs s))(dc := \<lparr>i_data = [], i_uid = euid (fs s), i_mtime = now (fs s), i_errno = 0\<rparr>), next_ino := Suc dc\<rparr>"
  have d: "dir_of (location @ ''/control'') = location" "dir_of (location @ ''/transactions'') = location"
    using dir_of_file [of "''control''" location] dir_of_file [of "''transactions''" location] by simp_all
  have c1: "sys_create (fs s) (location @ ''/control'') = Inr (dc, f1)"
    using assms(3) assms(4) [of "''control''"] by (simp add: sys_create_def dir_exists_def d dc_def f1_def)
  define dt where "dt = Suc dc"
  define f2 where "f2 = f1\<lparr>links := (location @ ''/transactions'', dt) # links f1,
    inodes := (inodes f1)(dt := \<lparr>i_data = [], i_uid = euid (fs s), i_mtime = now (fs s), i_errno = 0\<rparr>), next_ino := Suc dt\<rparr>"
  have c2: "sys_create f1 (location @ ''/transactions'') = Inr (dt, f2)"
    using assms(3) assms(4) [of "''transactions''"] by (simp add: sys_create_def dir_exists_def d f1_def f2_def dt_def)
  define tb where "tb = new_base ln ch public date"
  note b = base_fits [OF assms(5,6,9), folded tb_def]
  define sz where "sz = i32 (int BASE_SIZE + tb_long_name_len tb + tb_chairman_len tb)"
  define s2 where "s2 = s\<lparr>u_control_f := dc, fs := f2, u_trn_f := dt, mtg_swapped := False, super := new_super public date sz,
    super_long_name := Some (ln @ [NUL]), super_chairman := Some (ch @ [NUL])\<rparr>"
  have ft2: "faults (fs s2) = []" "fdata (fs s2) (u_trn_f s2) = []" using assms(2) by (simp_all add: s2_def f2_def f1_def)
  obtain s3 where 3: "trn_append (0, s2) (int BASE_SIZE) (enc_base tb) = (BASE_SIZE, s3)" "grown s2 (enc_base tb) s3"
    using trn_append_ok [OF grown_refl [OF ft2(1)], of 0 "int BASE_SIZE" "enc_base tb"] ft2(2) by auto
  obtain s4 where 4: "trn_append (BASE_SIZE, s3) (tb_long_name_len tb) (ln @ [NUL]) = (BASE_SIZE + length (ln @ [NUL]), s4)"
    "grown s2 (enc_base tb @ ln @ [NUL]) s4"
    using trn_append_ok [OF 3(2), of BASE_SIZE "tb_long_name_len tb" "ln @ [NUL]"] ft2(2) b(2) by auto
  have n: "tb_chairman_len tb = int (length (ch @ [NUL]))" using b(3) by simp
  obtain p5 s5 where 5: "trn_append (BASE_SIZE + length (ln @ [NUL]), s4) (tb_chairman_len tb) (ch @ [NUL]) = (p5, s5)"
    "grown s2 (new_trns ln ch public date) s5"
    using trn_append_ok [OF 4(2) _ n, of "BASE_SIZE + length (ln @ [NUL])"] ft2(2) by (auto simp: new_trns_def simp flip: tb_def)
  have t5: "trn_only s2 s5" "fdata (fs s5) dt = new_trns ln ch public date"
    using 5(2) ft2(2) by (simp_all add: grown_def s2_def)
  note f5 = trn_only_fields [OF t5(1)]
  have o5: "other_files f2 dt (fs s5)" "faults (fs s5) = []" using t5(1) by (simp_all add: trn_only_def s2_def)
  have dd: "dc \<noteq> dt" by (simp add: dt_def)
  have "inodes (fs s5) dc = inodes f2 dc" using o5(1) dd by (simp add: other_files_def)
  then have e5: "fdata (fs s5) dc = []" "i_uid (inodes (fs s5) dc) = euid (fs s)" "i_errno (inodes (fs s5) dc) = 0"
    using dd by (simp_all add: f2_def f1_def)
  have u5: "i_uid (inodes (fs s5) dt) = euid (fs s)" "i_errno (inodes (fs s5) dt) = 0"
    using o5(1) by (simp_all add: other_files_def f2_def)
  have szf: "fits 4 sz" by (simp add: sz_def fits_i32)
  have "\<exists>s6. write_super s5 = Some s6 \<and> at_rest s6 (laid_out (new_super public date sz) ln ch) ln ch Map.empty \<and> op_frame s5 s6"
    by (rule write_new_super) (use e5 o5 assms szf f5 in \<open>simp_all add: s2_def\<close>)
  then obtain s6 where 6: "write_super s5 = Some s6" "at_rest s6 (laid_out (new_super public date sz) ln ch) ln ch Map.empty" "op_frame s5 s6"
    by blast
  note f6 = op_frame_fields [OF 6(3)]
  have "create_files location ln public date ch s = Some (OK, s6)"
    using 3(1) 4(1) 5(1) 6(1)
    by (simp add: create_files_def c1 c2 Let_def flip: tb_def) (simp add: s2_def flip: sz_def)
  moreover have "made location s s6 dc dt"
  proof -
    have o6: "other_files (fs s5) dc (fs s6)" using f6(14) by (simp add: f5 s2_def)
    have "inodes (fs s6) d = inodes (fs s) d" if "d \<noteq> dc" "d \<noteq> dt" for d
      using o6 o5(1) that by (simp add: other_files_def f2_def f1_def)
    moreover have "i_uid (inodes (fs s6) d) = i_uid (inodes (fs s5) d)" "i_errno (inodes (fs s6) d) = i_errno (inodes (fs s5) d)" for d
      using o6 by (simp_all add: other_files_def)
    moreover have "links (fs s6) = links f2" "dirs (fs s6) = dirs f2" "now (fs s6) = now f2" "euid (fs s6) = euid f2"
      "next_ino (fs s6) = next_ino f2"
      using o6 o5(1) by (simp_all add: other_files_def)
    ultimately show ?thesis
      using e5 u5 dd 6(2) by (simp add: made_def at_rest_def f6 f5) (simp add: s2_def f2_def f1_def dc_def dt_def)
  qed
  moreover have "fdata (fs s6) dt = new_trns ln ch public date"
    using f6(14) t5(2) dd f5 by (simp add: other_files_def s2_def)
  ultimately show ?thesis using 6(2) by blast
qed

subsection \<open>The meeting\<close>

text \<open>Names that fit between the superblock and the first block, and dates and flags that fit their fields.\<close>

definition founding :: "string \<Rightarrow> string \<Rightarrow> int \<Rightarrow> int \<Rightarrow> bool" where
  "founding ln ch public date \<longleftrightarrow> fits 4 date \<and> date \<noteq> 0 \<and> fits 2 public \<and> c_ok ln \<and> ln \<noteq> [] \<and> c_ok ch \<and> length ln + length ch \<le> 954"

text \<open>A caller who may create a meeting there, with names and an access list that can be stored.\<close>

definition may_found :: "string \<Rightarrow> string \<Rightarrow> string \<Rightarrow> int \<Rightarrow> int \<Rightarrow> string \<Rightarrow> acl option \<Rightarrow> srv \<Rightarrow> bool" where
  "may_found junk location ln public date ch new_acl s \<longleftrightarrow> vacant location s \<and> \<not> nuclear s \<and> faults (fs s) = [] \<and> \<not> read_lock s \<and>
     mtg_acl s \<noteq> Freed \<and> may_create location (s\<lparr>fs := (fs s)\<lparr>dirs := location # dirs (fs s)\<rparr>\<rparr>) = Some True \<and>
     founding ln ch public date \<and>
     (\<forall>ae \<in> set (create_acl junk public ch new_acl). entry_ok ae) \<and> length (create_acl junk public ch new_acl) < 10 ^ 100"

text \<open>A file of the meeting that its owner can open.\<close>

definition file_at :: "string \<Rightarrow> srv \<Rightarrow> string \<Rightarrow> nat \<Rightarrow> bool" where
  "file_at location s x d \<longleftrightarrow> map_of (links (fs s)) (location @ CHR ''/'' # x) = Some d \<and> fis_owner (fs s) d (euid (fs s)) \<and>
     i_errno (inodes (fs s) d) = 0"

text \<open>
  A meeting that has been created and not been opened since.
\<close>

definition new_mtg :: "string \<Rightarrow> string \<Rightarrow> string \<Rightarrow> int \<Rightarrow> int \<Rightarrow> mtg_super \<Rightarrow> srv \<Rightarrow> bool" where
  "new_mtg location ln ch public date sb s \<longleftrightarrow> good_path location 168 \<and> founding ln ch public date \<and>
     (\<exists>sz. sb = laid_out (new_super public date sz) ln ch) \<and> current_mtg s = location \<and> \<not> read_lock s \<and> \<not> mtg_swapped s \<and>
     u_control_f s \<noteq> u_trn_f s \<and> at_rest s sb ln ch Map.empty \<and> fdata (fs s) (u_trn_f s) = new_trns ln ch public date \<and>
     file_at location s ''control'' (u_control_f s) \<and> file_at location s ''transactions'' (u_trn_f s) \<and>
     map_of (links (fs s)) (location @ ''/forward'') = None \<and>
     (\<exists>da l. mtg_acl s = Acl l \<and> (\<forall>ae \<in> set l. entry_ok ae) \<and> length l < 10 ^ 100 \<and> da \<noteq> u_control_f s \<and> da \<noteq> u_trn_f s \<and>
        file_at location s ''acl'' da \<and> fdata (fs s) da = acl_text l)"

text \<open>The server opens it by reading its three files, or has them open already.\<close>

lemma open_new_files:
  fixes s :: srv
  defines "s1 \<equiv> s\<lparr>current_mtg := [], mtg_acl := Freed, u_trn_f := 0, u_control_f := 0, u_acl_f := 0\<rparr>"
  assumes n: "new_mtg location ln ch public date sb s" and a: "map_of (links (fs s)) (location @ ''/acl'') = Some da"
    and r: "acl_read (fdata (fs s) da) = Some l'" and f: "file_at location s ''acl'' da"
  shows "open_files location s1 = Some (OK, s\<lparr>u_acl_f := 0, mtg_acl := Acl l', last_acl_mod := i_mtime (inodes (fs s) da), mtg_swapped := False\<rparr>)"
proof -
  define s2 where "s2 = s1\<lparr>mtg_acl := Acl l', last_acl_mod := i_mtime (inodes (fs s) da), u_acl_f := 0, u_control_f := u_control_f s\<rparr>"
  have b: "base_ok (new_base ln ch public date)" and c: "current_mtg s = location" and sw: "\<not> mtg_swapped s"
    and t: "fdata (fs s) (u_trn_f s) = new_trns ln ch public date"
    and fc: "file_at location s ''control'' (u_control_f s)" "file_at location s ''transactions'' (u_trn_f s)"
    using n base_fits(1) [of date public ln ch] by (auto simp: new_mtg_def founding_def)
  have "dec_base (sys_read (fs s) (u_trn_f s) 0 BASE_SIZE) = new_base ln ch public date" "length (sys_read (fs s) (u_trn_f s) 0 BASE_SIZE) = BASE_SIZE"
    using dec_enc_base [OF b] by (simp_all add: sys_read_def t new_trns_def slice_def)
  then have "open_trn_file location s2 = Some (OK, s2\<lparr>u_trn_f := u_trn_f s, mtg_swapped := False, current_mtg := location\<rparr>)"
    using fc(2) by (simp add: open_trn_file_def sys_open_def s2_def s1_def file_at_def new_base_def mtg_consts BASE_SIZE_def Let_def)
  moreover have "s2\<lparr>u_trn_f := u_trn_f s, mtg_swapped := False, current_mtg := location\<rparr> =
      s\<lparr>u_acl_f := 0, mtg_acl := Acl l', last_acl_mod := i_mtime (inodes (fs s) da), mtg_swapped := False\<rparr>"
    using c sw by (simp add: s2_def s1_def)
  ultimately show ?thesis
    using fc(1) f r by (simp add: open_files_def sys_open_def s1_def file_at_def) (simp add: s2_def s1_def)
qed

lemma open_new:
  assumes "new_mtg location ln ch public date sb s"
  shows "\<exists>l m f. open_mtg location s = Some (OK, s\<lparr>u_acl_f := f, mtg_acl := l, last_acl_mod := m\<rparr>) \<and>
    kept location ln ch (s\<lparr>u_acl_f := f, mtg_acl := l, last_acl_mod := m\<rparr>) sb Map.empty"
proof -
  from assms obtain da l where a: "mtg_acl s = Acl l" "\<forall>ae \<in> set l. entry_ok ae" "length l < 10 ^ 100" "da \<noteq> u_control_f s" "da \<noteq> u_trn_f s"
    "file_at location s ''acl'' da" "fdata (fs s) da = acl_text l" by (auto simp: new_mtg_def)
  from assms have n: "good_path location 168" "founding ln ch public date" "current_mtg s = location" "\<not> read_lock s" "\<not> mtg_swapped s"
    "u_control_f s \<noteq> u_trn_f s" "at_rest s sb ln ch Map.empty" "fdata (fs s) (u_trn_f s) = new_trns ln ch public date"
    "map_of (links (fs s)) (location @ ''/forward'') = None" by (simp_all add: new_mtg_def)
  have inv: "mtg_inv sb Map.empty" "ms_date_created sb \<noteq> 0"
    using assms new_super_ok(3) [of date ln ch public] by (auto simp: new_mtg_def founding_def laid_out_def new_super_def)
  have good: "kept location ln ch (s\<lparr>u_acl_f := f, mtg_acl := Acl x, last_acl_mod := m\<rparr>) sb Map.empty"
    if "i_mtime (inodes (fs s) da) \<le> m" for f x m
    using that n inv a(4-6) by (simp add: kept_def open_on_def file_at_def at_rest_def filed_def listed_def new_trns_def)
  have op: "map_of (links (fs s)) (location @ ''/acl'') = Some da" using a(6) by (simp add: file_at_def)
  show ?thesis
  proof (cases "i_mtime (inodes (fs s) da) \<le> last_acl_mod s")
    case True
    then have "open_mtg location s = Some (OK, s)" using n op by (simp add: open_mtg_def sys_stat_def)
    moreover have "s = s\<lparr>u_acl_f := u_acl_f s, mtg_acl := Acl l, last_acl_mod := last_acl_mod s\<rparr>" using a(1) by simp
    ultimately have "open_mtg location s = Some (OK, s\<lparr>u_acl_f := u_acl_f s, mtg_acl := Acl l, last_acl_mod := last_acl_mod s\<rparr>)" by simp
    with good [OF True] show ?thesis by blast
  next
    case False
    have "location \<noteq> []" "\<not> nuclear s" using n(1,7) by (simp_all add: good_path_def at_rest_def)
    then have "open_mtg location s = Some (OK, s\<lparr>u_acl_f := 0, mtg_acl := Acl (map (\<lambda>ae. ae\<lparr>principal := take 100 (principal ae)\<rparr>) l),
        last_acl_mod := i_mtime (inodes (fs s) da), mtg_swapped := False\<rparr>)"
      using False n op a(1) open_new_files [OF assms op _ a(6)] acl_read_text [OF a(2,3)] a(7)
      by (simp add: open_mtg_def sys_stat_def close_previous_def acl_destroy_def)
    moreover have "s\<lparr>u_acl_f := 0, mtg_acl := x, last_acl_mod := m, mtg_swapped := False\<rparr> = s\<lparr>u_acl_f := 0, mtg_acl := x, last_acl_mod := m\<rparr>" for x m
      using n(5) by simp
    ultimately have "open_mtg location s = Some (OK, s\<lparr>u_acl_f := 0, mtg_acl := Acl (map (\<lambda>ae. ae\<lparr>principal := take 100 (principal ae)\<rparr>) l),
        last_acl_mod := i_mtime (inodes (fs s) da)\<rparr>)" by simp
    with good [OF order_refl, where f = 0] show ?thesis by blast
  qed
qed

text \<open>What is left of the rest: other files, and who calls.\<close>

definition founded :: "string \<Rightarrow> srv \<Rightarrow> srv \<Rightarrow> bool" where
  "founded location s s' \<longleftrightarrow> has_privs s' = has_privs s \<and> no_nuke s' = no_nuke s \<and> rpc_caller s' = rpc_caller s \<and> euid (fs s') = euid (fs s) \<and>
     u_control_f s' = next_ino (fs s) \<and> u_trn_f s' = Suc (next_ino (fs s)) \<and> next_ino (fs s') = next_ino (fs s) + 3 \<and>
     dirs (fs s') = location # dirs (fs s) \<and>
     (\<forall>x d. map_of (links (fs s')) (location @ CHR ''/'' # x) = Some d \<longrightarrow> d < next_ino (fs s')) \<and>
     (\<forall>d. d \<notin> {next_ino (fs s), Suc (next_ino (fs s)), Suc (Suc (next_ino (fs s)))} \<longrightarrow> inodes (fs s') d = inodes (fs s) d) \<and>
     (\<forall>path. (\<forall>x. path \<noteq> location @ CHR ''/'' # x) \<longrightarrow> map_of (links (fs s')) path = map_of (links (fs s)) path)"

lemma create_mtg_ok:
  assumes "may_found junk location ln public date ch new_acl s"
  shows "\<exists>s' sb. create_mtg_priv junk location ln public date ch new_acl s = Some (OK, s') \<and>
    new_mtg location ln ch public date sb s' \<and> founded location s s'"
proof -
  define l where "l = create_acl junk public ch new_acl"
  from assms have v: "vacant location s" and a: "\<not> nuclear s" "faults (fs s) = []" "\<not> read_lock s" "mtg_acl s \<noteq> Freed"
    and fo: "founding ln ch public date" and c: "\<forall>ae \<in> set l. entry_ok ae" "length l < 10 ^ 100"
    by (simp_all add: may_found_def l_def)
  have b: "fits 4 date" "fits 2 public" "c_ok ln" "c_ok ch" "length ln + length ch \<le> 954" "ln \<noteq> []" using fo by (simp_all add: founding_def)
  define s1 where "s1 = s\<lparr>fs := (fs s)\<lparr>dirs := location # dirs (fs s)\<rparr>\<rparr>"
  have mc: "may_create location s1 = Some True" using assms by (simp add: may_found_def s1_def)
  have gp: "good_path location 168" "good_path location 241" using v by (auto simp: vacant_def good_path_def)
  have mk: "sys_mkdir (fs s) location = (0, (fs s)\<lparr>dirs := location # dirs (fs s)\<rparr>)"
    using v by (simp add: vacant_def sys_mkdir_def)
  have free: "\<And>x. map_of (links (fs s1)) (location @ CHR ''/'' # x) = None" using v by (simp add: vacant_def s1_def)
  from create_files_ok [of s1 location, OF _ _ _ free b(1-5)] a obtain s2 dc dt sz where
    2: "create_files location ln public date ch s1 = Some (OK, s2)" "made location s1 s2 dc dt"
      "at_rest s2 (laid_out (new_super public date sz) ln ch) ln ch Map.empty" "fdata (fs s2) dt = new_trns ln ch public date"
    by (auto simp: s1_def)
  obtain p where p: "acl_destroy (mtg_acl s2) = Some p"
    using a(4) 2(2) by (cases "mtg_acl s2") (auto simp: made_def s1_def acl_destroy_def)
  define da where "da = Suc dt"
  define f3 where "f3 = (fs s2)\<lparr>links := (location @ ''/acl'', da) # links (fs s2),
    inodes := (inodes (fs s2))(da := \<lparr>i_data = [], i_uid = euid (fs s), i_mtime = now (fs s), i_errno = 0\<rparr>), next_ino := Suc da\<rparr>"
  have d: "dir_of (location @ ''/acl'') = location" using dir_of_file [of "''acl''" location] by simp
  have c3: "sys_create (fs s2) (location @ ''/acl'') = Inr (da, f3)"
    using 2(2) free [of "''acl''"] by (simp add: sys_create_def dir_exists_def d made_def f3_def da_def s1_def)
  have ft: "faults f3 = []" "fdata f3 da = []" using 2(2) by (simp_all add: made_def f3_def)
  define f4 where "f4 = set_data f3 da (acl_text l)"
  have aw: "snd (acl_write f3 da l) = f4"
    using ft overwrite_end [of "[]" "acl_text l"] by (simp add: acl_write_def sys_write_ok f4_def)
  define s4 where "s4 = s2\<lparr>current_mtg := location, mtg_acl := Acl l, u_acl_f := da, fs := f4\<rparr>"
  have "create_mtg_priv junk location ln public date ch new_acl s = Some (OK, s4)"
    using b mk mc 2(1) p c3 aw
    by (simp add: create_mtg_priv_def gp(2) flip: s1_def) (simp add: s4_def flip: l_def)
  moreover have nos: "dc = next_ino (fs s)" "dt = Suc (next_ino (fs s))" "da = Suc (Suc (next_ino (fs s)))"
    using 2(2) by (simp_all add: made_def s1_def da_def)
  have ln4: "links f4 = (location @ ''/acl'', da) # (location @ ''/transactions'', dt) # (location @ ''/control'', dc) # links (fs s)"
    using 2(2) by (simp add: f4_def f3_def made_def s1_def)
  have "new_mtg location ln ch public date (laid_out (new_super public date sz) ln ch) s4"
  proof -
    have "at_rest s4 (laid_out (new_super public date sz) ln ch) ln ch Map.empty" "fdata f4 dt = new_trns ln ch public date"
      using 2(2-4) nos by (simp_all add: at_rest_def s4_def f4_def f3_def made_def)
    moreover have "fis_owner f4 x (euid f4) \<and> i_errno (inodes f4 x) = 0" if "x = dc \<or> x = dt \<or> x = da" for x
      using that 2(2) nos by (auto simp: fis_owner_def f4_def f3_def made_def s1_def)
    moreover have "map_of (links f4) (location @ ''/forward'') = None" "fdata f4 da = acl_text l"
      using free [of "''forward''"] by (simp_all add: ln4 s1_def) (simp add: f4_def)
    ultimately show ?thesis
      using gp(1) fo c 2(2) a(3) nos by (auto simp: new_mtg_def file_at_def s4_def made_def s1_def ln4)
  qed
  moreover have "founded location s s4"
  proof -
    have "x < next_ino f4" if "map_of (links f4) (location @ CHR ''/'' # y) = Some x" for x y
      using that free [of y] nos unfolding ln4 by (auto simp: s1_def f4_def f3_def split: if_splits)
    moreover have "map_of (links f4) path = map_of (links (fs s)) path" if "\<forall>x. path \<noteq> location @ CHR ''/'' # x" for path
      using that by (auto simp: ln4)
    moreover have "inodes f4 x = inodes (fs s) x" if "x \<noteq> dc" "x \<noteq> dt" "x \<noteq> da" for x
      using 2(2) that by (simp add: f4_def f3_def made_def s1_def)
    moreover have "next_ino f4 = next_ino (fs s) + 3" "dirs f4 = location # dirs (fs s)" "euid f4 = euid (fs s)"
      using 2(2) nos by (simp_all add: f4_def f3_def made_def s1_def)
    ultimately show ?thesis using 2(2) by (simp add: founded_def s4_def made_def s1_def nos)
  qed
  ultimately show ?thesis by blast
qed

lemma may_found_demo: "may_found [] ''/n'' ''new'' 1 7 ''srz'' None (demo_srv\<lparr>has_privs := True\<rparr>)"
  by (simp add: may_found_def founding_def vacant_def good_path_def may_create_def dir_exists_def dir_of_def fits_def c_ok_def
      demo_srv_def demo_mtg_fs_def create_acl_def acl_add_access_def acl_create_def acl_insert_def entry_ok_def
      chairman_modes_def public_modes_def)

text \<open>
  C5. A new meeting.  \<open>may_found\<close> asks for a place where nothing is (an absolute path of at most 168 characters, in a directory that
  exists), a name that is not empty and has together with the chairman at most 954 characters, a caller who may create a meeting there, an
  access list that can be stored, and no disk faults.  Then the creation succeeds, the meeting can be opened, it is empty and in order, and
  from then on any sequence of calls is a run of the board from the empty board.  (A longer path or longer names are not refused: the first makes a
  meeting that cannot be opened, the second one whose strings the blocks are written over.)
\<close>

theorem create_mtg_board:
  assumes "may_found junk location ln public date ch new_acl s"
  shows "\<exists>s' s0 sb. create_mtg_priv junk location ln public date ch new_acl s = Some (OK, s') \<and> open_mtg location s' = Some (OK, s0) \<and>
    kept location ln ch s0 sb Map.empty \<and>
    (\<forall>tr s1. serves location s0 tr s1 \<longrightarrow>
       (\<exists>sb' m'. kept location ln ch s1 sb' m' \<and> board_run \<lparr>b_posts = Map.empty, b_shown = {}\<rparr> tr (board_of s1 m')))"
proof -
  from create_mtg_ok [OF assms] open_new obtain s' s0 sb where
    c: "create_mtg_priv junk location ln public date ch new_acl s = Some (OK, s')" "open_mtg location s' = Some (OK, s0)"
      "kept location ln ch s0 sb Map.empty" by blast
  have "board_of s0 Map.empty = \<lparr>b_posts = Map.empty, b_shown = {}\<rparr>"
    by (simp add: board_of_def posts_def live_def fun_eq_iff)
  with serves_run [OF _ c(3)] c show ?thesis by metis
qed

theorem create_mtg_board_witness:
  "\<exists>s' s0 sb. create_mtg_priv [] ''/n'' ''new'' 1 7 ''srz'' None (demo_srv\<lparr>has_privs := True\<rparr>) = Some (OK, s') \<and>
     open_mtg ''/n'' s' = Some (OK, s0) \<and> kept ''/n'' ''new'' ''srz'' s0 sb Map.empty"
proof -
  from create_mtg_board [OF may_found_demo] show ?thesis by blast
qed

end
