(* ===== verification/Recover.thy ===== *)
theory Recover
  imports Core
begin

text \<open>
  The repair tool \<^verbatim>\<open>athena/bin/discuss/server/recover.c\<close>: it makes a meeting anew from a transaction file alone.  The program is
  linked with the server's modules and with \<^verbatim>\<open>server/glue.c\<close>, whose \<open>rpc_caller\<close> has 100 characters.

  A function returns \<open>Some (x, r)\<close>, where \<open>x\<close> is \<open>Some n\<close> when the program has ended with \<open>exit (n)\<close> and \<open>None\<close> when the
  function has returned; the messages to the terminal are left out.  Two functions of the C library are
  arguments: \<open>mktemp\<close>, which makes a name of a file, and \<open>cells\<close>, how many integers fit in the block that \<open>malloc\<close> returns
  when room for \<open>n\<close> of them is asked for (\<open>None\<close> for a null pointer).
\<close>

record rcv =
  rv_srv :: srv \<comment> \<open>the variables of the server's modules\<close>
  rv_tb :: trn_base
  rv_th :: trn_hdr
  rv_tempf :: nat
  rv_trnf :: nat
  rv_off :: nat \<comment> \<open>the offset of \<open>trnf\<close>\<close>
  rv_trnfsize :: int
  rv_num_trns :: int
  rv_current_pos :: int
  rv_mtg_name :: "bytes option"
  rv_location :: "string option"
  rv_chairman :: "bytes option"
  rv_trn_file :: "string option"
  rv_trn_pos :: "int list"
  rv_do_byteswap :: bool
  rv_temp_dir :: string

text \<open>The variables are static, so they start as zeros.\<close>

definition rcv_start :: "srv \<Rightarrow> rcv" where
  "rcv_start s = \<lparr>rv_srv = s, rv_tb = base_of (replicate 9 0), rv_th = hdr_of (replicate 13 0), rv_tempf = 0, rv_trnf = 0, rv_off = 0,
     rv_trnfsize = 0, rv_num_trns = 0, rv_current_pos = 0, rv_mtg_name = None, rv_location = None, rv_chairman = None,
     rv_trn_file = None, rv_trn_pos = [], rv_do_byteswap = False, rv_temp_dir = ''/tmp''\<rparr>"

type_synonym rv_result = "(int option \<times> rcv) option"

definition and_then :: "rv_result \<Rightarrow> (rcv \<Rightarrow> rv_result) \<Rightarrow> rv_result" where
  "and_then m g = do { (x, r) \<leftarrow> m; (case x of Some n \<Rightarrow> Some (Some n, r) | None \<Rightarrow> g r) }"

subsection \<open>Byte order\<close>

text \<open>
  The bytes of the argument in the opposite order.  The union of \<open>Slong\<close> holds a \<open>long\<close>, of which only the four bytes are set and
  used that the assignment to an \<open>int\<close> keeps.
\<close>

definition Sshort :: "int \<Rightarrow> int" where "Sshort x = getn (rev (putn 2 x))"
definition Slong :: "int \<Rightarrow> int" where "Slong x = getn (rev (putn 4 x))"

text \<open>The fields of the base but \<open>unique\<close>, and those of the header.\<close>

definition S_base :: "trn_base \<Rightarrow> trn_base" where
  "S_base t = t\<lparr>tb_version := Slong (tb_version t), tb_date_created := Slong (tb_date_created t),
     tb_long_name_addr := Slong (tb_long_name_addr t), tb_chairman_addr := Slong (tb_chairman_addr t),
     tb_long_name_len := Sshort (tb_long_name_len t), tb_chairman_len := Sshort (tb_chairman_len t),
     tb_public_flag := Sshort (tb_public_flag t)\<rparr>"

definition S_hdr :: "trn_hdr \<Rightarrow> trn_hdr" where
  "S_hdr t = t\<lparr>th_version := Slong (th_version t), th_unique := Slong (th_unique t), th_current := Slong (th_current t),
     th_orig_pref := Slong (th_orig_pref t), th_date_entered := Slong (th_date_entered t), th_num_lines := Slong (th_num_lines t),
     th_num_chars := Slong (th_num_chars t), th_prev_trn := Slong (th_prev_trn t), th_subject_addr := Slong (th_subject_addr t),
     th_author_addr := Slong (th_author_addr t), th_text_addr := Slong (th_text_addr t),
     th_subject_len := Sshort (th_subject_len t), th_author_len := Sshort (th_author_len t)\<rparr>"

subsection \<open>The arguments\<close>

text \<open>\<open>None\<close> is \<open>goto lusage\<close>.\<close>

fun rv_args :: "string list \<Rightarrow> rcv \<Rightarrow> rcv option" where
  "rv_args [] r = Some r"
| "rv_args (a # as) r =
     (if take 1 a = ''-'' then
        (let set = (if drop 1 a \<noteq> [] \<and> a ! 1 = CHR ''c'' then Some (\<lambda>x. r\<lparr>rv_chairman := Some (x @ [NUL])\<rparr>)
                    else if drop 1 a \<noteq> [] \<and> a ! 1 = CHR ''n'' then Some (\<lambda>x. r\<lparr>rv_mtg_name := Some (x @ [NUL])\<rparr>)
                    else if drop 1 a \<noteq> [] \<and> a ! 1 = CHR ''t'' then Some (\<lambda>x. r\<lparr>rv_temp_dir := x\<rparr>)
                    else None)
         in (case set of
               None \<Rightarrow> None
             | Some set_to \<Rightarrow> (case as of [] \<Rightarrow> Some r | x # as' \<Rightarrow> rv_args as' (set_to x))))
      else if rv_trn_file r = None then rv_args as (r\<lparr>rv_trn_file := Some a\<rparr>)
      else if rv_location r = None then rv_args as (r\<lparr>rv_location := Some a\<rparr>)
      else None)"

subsection \<open>The base of the transaction file\<close>

text \<open>
  A name that was not given as an argument.  For a negative length the block is a null pointer, \<open>read\<close> returns -1, which is not less than the
  length, and the null pointer is used.
\<close>

definition read_name :: "bytes option \<Rightarrow> int \<Rightarrow> int \<Rightarrow> rcv \<Rightarrow> (int option \<times> bytes option) option" where
  "read_name given len addr r =
     (case given of
        Some b \<Rightarrow> Some (None, Some b)
      | None \<Rightarrow>
          if len > 255 then Some (Some 1, None)
          else if addr < 0 then Some (Some 1, None)
          else if len < 0 then None
          else let b = sys_read (fs (rv_srv r)) (rv_trnf r) (nat addr) (nat len) in
            if int (length b) < len then Some (Some 1, None) else Some (None, Some b))"

definition read_base :: "rcv \<Rightarrow> int option \<times> rcv" where
  "read_base r =
     (let b = sys_read (fs (rv_srv r)) (rv_trnf r) 0 BASE_SIZE; tb = dec_base b in
      if length b < BASE_SIZE then (Some 1, r) else
      let swap = tb_unique tb \<noteq> TRN_BASE_UNIQUE; tb = (if swap then tb\<lparr>tb_unique := Slong (tb_unique tb)\<rparr> else tb) in
      if tb_unique tb \<noteq> TRN_BASE_UNIQUE then (Some 1, r\<lparr>rv_tb := tb\<rparr>) else
      let tb = (if swap then S_base tb else tb); r = r\<lparr>rv_tb := tb, rv_do_byteswap := swap\<rparr> in
      if tb_version tb \<noteq> TRN_BASE_1 then (Some 1, r) else (None, r))"

text \<open>The last part: the meeting is created, and for an empty one nothing is left to do.\<close>

definition make_mtg :: "string \<Rightarrow> rcv \<Rightarrow> rv_result" where
  "make_mtg junk r =
     do { chairman \<leftarrow> c_string (rv_chairman r);
          if length chairman + 1 > 100 then None else
     do { mtg_name \<leftarrow> c_string (rv_mtg_name r);
          location \<leftarrow> rv_location r;
          let tb = rv_tb r;
          (c, s) \<leftarrow> create_mtg_priv junk location mtg_name (tb_public_flag tb) (tb_date_created tb) chairman None
                     ((rv_srv r)\<lparr>rpc_caller := chairman\<rparr>);
          let r = r\<lparr>rv_srv := s\<rparr>;
          if c \<noteq> OK then Some (Some 1, r)
          else if i32 (int BASE_SIZE + tb_long_name_len tb + tb_chairman_len tb) = rv_trnfsize r then Some (Some 0, r)
          else Some (None, r) } }"

definition read_header :: "string \<Rightarrow> rcv \<Rightarrow> rv_result" where
  "read_header junk r =
     and_then (Some (read_base r)) (\<lambda>r.
     do { (x, ch) \<leftarrow> read_name (rv_chairman r) (tb_chairman_len (rv_tb r)) (tb_chairman_addr (rv_tb r)) r;
          if x \<noteq> None then Some (x, r) else
     do { (x, ln) \<leftarrow> read_name (rv_mtg_name r) (tb_long_name_len (rv_tb r)) (tb_long_name_addr (rv_tb r)) r;
          if x \<noteq> None then Some (x, r) else make_mtg junk (r\<lparr>rv_chairman := ch, rv_mtg_name := ln\<rparr>) } })"

subsection \<open>Transaction headers\<close>

text \<open>The safety checks.\<close>

definition safe_hdr :: "trn_hdr \<Rightarrow> int \<Rightarrow> bool" where
  "safe_hdr th sz \<longleftrightarrow> th_version th = TRN_HDR_1 \<and> th_unique th = TRN_HDR_UNIQUE \<and>
     \<not> (th_current th \<le> 0 \<or> th_author_len th < 0 \<or> th_subject_len th < 0 \<or> th_num_chars th < 0 \<or> th_num_lines th < 0) \<and>
     \<not> (i32 (th_author_addr th + th_author_len th) > sz \<or> i32 (th_subject_addr th + th_subject_len th) > sz \<or>
        i32 (th_text_addr th + th_num_chars th) > sz)"

text \<open>\<open>lseek\<close>, which leaves the offset when it fails, and \<open>read\<close> at the offset.\<close>

definition rv_seek :: "int \<Rightarrow> rcv \<Rightarrow> rcv" where
  "rv_seek pos r = (if pos < 0 then r else r\<lparr>rv_off := nat pos\<rparr>)"

definition rv_read :: "nat \<Rightarrow> rcv \<Rightarrow> bytes \<times> rcv" where
  "rv_read n r = (let b = sys_read (fs (rv_srv r)) (rv_trnf r) (rv_off r) n in (b, r\<lparr>rv_off := rv_off r + length b\<rparr>))"

definition maybe_read_trn_hdr :: "int \<Rightarrow> rcv \<Rightarrow> bool \<times> rcv" where
  "maybe_read_trn_hdr position r =
     (if position < 0 then (False, r) else
      let (b, r) = rv_read HDR_SIZE (rv_seek position r);
          r = r\<lparr>rv_th := dec_hdr (b @ drop (length b) (enc_hdr (rv_th r)))\<rparr> in
      if length b \<noteq> HDR_SIZE then (False, r) else
      let r = (if rv_do_byteswap r then r\<lparr>rv_th := S_hdr (rv_th r)\<rparr> else r)
      in (safe_hdr (rv_th r) (rv_trnfsize r), r))"

text \<open>The same reads and checks, with \<open>exit (1)\<close> where the other function returns \<open>FALSE\<close>.\<close>

definition read_trn_hdr :: "int \<Rightarrow> rcv \<Rightarrow> int option \<times> rcv" where
  "read_trn_hdr position r = (let (ok, r) = maybe_read_trn_hdr position r in (if ok then None else Some 1, r))"

lemma maybe_read_keeps [simp]: "rv_current_pos (snd (maybe_read_trn_hdr p r)) = rv_current_pos r"
  by (simp add: maybe_read_trn_hdr_def rv_read_def rv_seek_def Let_def)

text \<open>
  The search.  \<open>current_pos\<close> is compared with an unsigned number, so the loop goes on with a negative one, until it is decremented below the
  smallest \<open>int\<close>.
\<close>

function last_trn_loop :: "rcv \<Rightarrow> rcv option" where
  "last_trn_loop r =
     (if 0 \<le> rv_current_pos r \<and> rv_current_pos r \<le> int BASE_SIZE then Some r else
      let (found, r) = maybe_read_trn_hdr (rv_current_pos r) r in
      if found then Some r
      else if rv_current_pos r \<le> - (2 ^ 31) then None
      else last_trn_loop (r\<lparr>rv_current_pos := rv_current_pos r - 1\<rparr>))"
  by auto
termination
  by (relation "measure (\<lambda>r. nat (rv_current_pos r + 2 ^ 31))") (auto dest: arg_cong [of _ _ "rv_current_pos \<circ> snd"])

declare last_trn_loop.simps [simp del]

definition read_last_trn :: "rcv \<Rightarrow> rcv option" where
  "read_last_trn r = last_trn_loop (r\<lparr>rv_current_pos := i32 (rv_trnfsize r - int HDR_SIZE - 2)\<rparr>)"

subsection \<open>The positions\<close>

text \<open>The loop follows \<open>prev_trn\<close> until it is zero, however long that takes.\<close>

partial_function (option) fill_trn_pos :: "nat \<Rightarrow> rcv \<Rightarrow> rv_result" where
  "fill_trn_pos room r =
     (if rv_current_pos r = 0 then Some (None, r)
      else let (x, r) = read_trn_hdr (rv_current_pos r) r in
        if x \<noteq> None then Some (x, r)
        else if th_current (rv_th r) \<ge> int room then None
        else fill_trn_pos room (r\<lparr>rv_trn_pos := (rv_trn_pos r)[nat (th_current (rv_th r)) := rv_current_pos r],
                                rv_current_pos := th_prev_trn (rv_th r)\<rparr>))"

text \<open>
  The array has room for \<open>room\<close> integers.  The loop that sets it to zero writes \<open>num_trns + 1\<close> of them, from the first on; it is collapsed into
  the array of zeros, or \<open>None\<close> when its last step is behind the block.
\<close>

definition find_positions :: "(int \<Rightarrow> nat option) \<Rightarrow> rcv \<Rightarrow> rv_result" where
  "find_positions cells r =
     (case cells (th_current (rv_th r)) of
        None \<Rightarrow> Some (Some 1, r)
      | Some room \<Rightarrow>
          let n = th_current (rv_th r) in
          if n \<ge> int room then None
          else fill_trn_pos room (r\<lparr>rv_num_trns := n, rv_trn_pos := replicate (nat (n + 1)) 0\<rparr>))"

subsection \<open>Saving a transaction\<close>

definition create_temp :: "(fsys \<Rightarrow> string \<Rightarrow> string) \<Rightarrow> rcv \<Rightarrow> int option \<times> rcv" where
  "create_temp mktemp r =
     (let s = rv_srv r; filename = mktemp (fs s) (rv_temp_dir r @ ''/rcXXXXXX'') in
      case (if map_of (links (fs s)) filename = None then sys_create (fs s) filename
            else map_sum id (\<lambda>d. (d, fs s)) (sys_open (fs s) filename)) of
        Inl e \<Rightarrow> (Some 1, r)
      | Inr (d, f) \<Rightarrow> (None, r\<lparr>rv_tempf := d, rv_srv := s\<lparr>fs := f\<rparr>\<rparr>))"

text \<open>The text, through a buffer whose contents stay when a \<open>read\<close> is cut short.\<close>

function copy_text :: "int \<Rightarrow> nat \<Rightarrow> bytes \<Rightarrow> rcv \<Rightarrow> rcv option" where
  "copy_text tfs pos buffer r =
     (if tfs \<le> 0 then Some r
      else let tocopy = nat (min 512 tfs); (b, r) = rv_read tocopy r; buffer = b @ drop (length b) buffer in
        if length buffer < tocopy then None
        else let s = rv_srv r; (w, f) = sys_write (fs s) (rv_tempf r) pos (take tocopy buffer)
          in copy_text (tfs - int tocopy) (if w < 0 then pos else pos + nat w) buffer (r\<lparr>rv_srv := s\<lparr>fs := f\<rparr>\<rparr>))"
  by auto
termination by (relation "measure (\<lambda>(tfs, _). nat tfs)") auto

declare copy_text.simps [simp del]

text \<open>The strings of a record: the subject, the author, and the signature behind it.\<close>

definition read_strings :: "rcv \<Rightarrow> ((string \<times> string \<times> string option) \<times> rcv) option" where
  "read_strings r =
     (let th = rv_th r;
          (sj, r) = rv_read (nat (th_subject_len th)) (rv_seek (th_subject_addr th) r);
          (au, r) = rv_read (nat (th_author_len th)) (rv_seek (th_author_addr th) r) in
      do { author \<leftarrow> c_string (Some au);
           signature \<leftarrow> (if int (length author) + 1 \<noteq> th_author_len th
                        then map_option Some (c_string (Some (drop (length author + 1) au))) else Some None);
           subject \<leftarrow> c_string (Some sj);
           Some ((subject, author, signature), r) })"

definition save_trn :: "int \<Rightarrow> rcv \<Rightarrow> rv_result" where
  "save_trn position r =
     and_then (Some (read_trn_hdr position r)) (\<lambda>r.
     do { ((subject, author, signature), r) \<leftarrow> read_strings r;
          let th = rv_th r;
          let s = rv_srv r;
          r \<leftarrow> copy_text (th_num_chars th) 0 [] (rv_seek (th_text_addr th) (r\<lparr>rv_srv := s\<lparr>fs := sys_ftruncate (fs s) (rv_tempf r) 0\<rparr>\<rparr>));
          let s = rv_srv r;
          location \<leftarrow> rv_location r;
          (c, _, s) \<leftarrow> add_trn_priv location subject signature (th_orig_pref th) (th_current th) author (th_date_entered th) 0
                        (s\<lparr>tf := Some (unix_tfile (rv_tempf r) (fs s))\<rparr>);
          if c \<noteq> OK then Some (Some 1, r\<lparr>rv_srv := s\<rparr>)
          else Some (None, r\<lparr>rv_srv := snd (tdestroy s)\<rparr>) })"

text \<open>The loop over the numbers; \<open>junk\<close> is what the stack holds when a block is expunged, see \<open>Core\<close>.\<close>

fun save_all :: "chain_blk \<Rightarrow> nat list \<Rightarrow> rcv \<Rightarrow> rv_result" where
  "save_all junk [] r = Some (Some 0, r)"
| "save_all junk (i # is) r =
     and_then (if rv_trn_pos r ! i \<noteq> 0 then save_trn (rv_trn_pos r ! i) r
               else do { location \<leftarrow> rv_location r;
                         (c, s) \<leftarrow> expunge_trn junk location (int i) (rv_srv r);
                         Some (if c \<noteq> OK then Some 1 else None, r\<lparr>rv_srv := s\<rparr>) })
       (save_all junk is)"

subsection \<open>The program\<close>

text \<open>The exit status and the state, for the arguments and the variables as they are at the start.\<close>

definition recover :: "(int \<Rightarrow> nat option) \<Rightarrow> (fsys \<Rightarrow> string \<Rightarrow> string) \<Rightarrow> string \<Rightarrow> chain_blk \<Rightarrow> string list \<Rightarrow> srv \<Rightarrow>
    rv_result" where
  "recover cells mktemp junk junk_cb argv s =
     (let r0 = rcv_start (s\<lparr>has_privs := True\<rparr>) in
      case rv_args argv r0 of
        None \<Rightarrow> Some (Some 1, r0)
      | Some r \<Rightarrow>
          (case rv_trn_file r of
             None \<Rightarrow> Some (Some 1, r)
           | Some trn_file \<Rightarrow>
               if rv_location r = None then Some (Some 1, r)
               else (case sys_open (fs (rv_srv r)) trn_file of
                       Inl e \<Rightarrow> Some (Some 1, r)
                     | Inr d \<Rightarrow>
                         and_then (read_header junk (r\<lparr>rv_trnf := d, rv_trnfsize := fsize (fs (rv_srv r)) d\<rparr>)) (\<lambda>r.
                         do { r \<leftarrow> read_last_trn r;
                              and_then (find_positions cells r) (\<lambda>r.
                              and_then (Some (create_temp mktemp r)) (\<lambda>r.
                              save_all junk_cb [1 ..< nat (rv_num_trns r) + 1] r)) }))))"

end
