(* ===== verification/Scan.thy ===== *)
theory Scan
  imports Recover Journal
begin

text \<open>
  What \<^verbatim>\<open>recover.c\<close> finds in a transaction file: from the last header, which it searches for from the end of the file, it follows the
  places of the records back to the first.
\<close>

subsection \<open>Byte order\<close>

lemma S_swap: "Slong x = i32 (swap_32 x)" "Sshort x = i16 (swap_16 x)"
  by (simp_all add: Slong_def Sshort_def getn_rev_putn_4 getn_rev_putn_2)

lemma S_hdr_swap: "S_hdr t = swap_trn t"
  by (intro trn_hdr.equality) (simp_all add: S_hdr_def swap_trn_def S_swap)

lemma S_base_swap: "S_base (t\<lparr>tb_unique := Slong (tb_unique t)\<rparr>) = swap_trn_base t"
  by (intro trn_base.equality) (simp_all add: S_base_def swap_trn_base_def S_swap)

subsection \<open>Headers\<close>

text \<open>The tool reads a file with the contents \<open>v\<close>, of the other byte order or not.\<close>

definition scans :: "rcv \<Rightarrow> bytes \<Rightarrow> bool \<Rightarrow> bool" where
  "scans r v sw \<longleftrightarrow> fdata (fs (rv_srv r)) (rv_trnf r) = v \<and> rv_trnfsize r = int (length v) \<and> rv_do_byteswap r = sw"

definition hdr_at :: "bytes \<Rightarrow> bool \<Rightarrow> nat \<Rightarrow> trn_hdr" where
  "hdr_at v sw q = (if sw then swap_trn (dec_hdr (slice q HDR_SIZE v)) else dec_hdr (slice q HDR_SIZE v))"

lemma maybe_read_at:
  assumes "scans r v sw" and "q + HDR_SIZE \<le> length v"
  shows "maybe_read_trn_hdr (int q) r =
    (safe_hdr (hdr_at v sw q) (int (length v)), r\<lparr>rv_off := q + HDR_SIZE, rv_th := hdr_at v sw q\<rparr>)"
  using assms by (auto simp: maybe_read_trn_hdr_def rv_read_def rv_seek_def sys_read_def scans_def hdr_at_def Let_def S_hdr_swap)

lemma scans_off [simp]: "scans (r\<lparr>rv_off := x\<rparr>) v sw = scans r v sw" "scans (r\<lparr>rv_th := th\<rparr>) v sw = scans r v sw"
  "scans (r\<lparr>rv_current_pos := p\<rparr>) v sw = scans r v sw" "scans (r\<lparr>rv_trn_pos := ps\<rparr>) v sw = scans r v sw"
  "scans (r\<lparr>rv_num_trns := n\<rparr>) v sw = scans r v sw"
  by (simp_all add: scans_def)

text \<open>The records of a journal have headers that pass.\<close>

lemma lg_len_ge: "50 \<le> lg_len r"
  by (simp add: lg_len_def length_author HDR_SIZE_def)

lemma log_size: "log_in v sw at L \<Longrightarrow> at + 50 * length L \<le> log_end at L"
proof (induction L rule: rev_induct)
  case (snoc r L)
  then have "at + 50 * length L \<le> log_end at L" by (simp add: log_in_snoc)
  also have "\<dots> \<le> lg_addr r" using snoc.prems by (simp add: log_in_snoc rec_in_def Let_def)
  finally show ?case using lg_len_ge [of r] by (simp add: log_end_def)
qed (simp add: log_end_def)

lemma log_in_take:
  assumes "log_in v sw at L"
  shows "log_in v sw at (take k L)"
proof -
  have "rec_in v sw at (take k L) i" if "i < length (take k L)" for i
    using rec_in_append [OF that, of v sw at "drop k L"] assms that by (simp add: log_in_def)
  then show ?thesis by (simp add: log_in_def)
qed

text \<open>Everything about the record with a given index.\<close>

lemma log_rec:
  assumes "log_in v sw at L" and "i < length L"
  defines "r \<equiv> L ! i"
  shows "lg_ok r" and "lg_addr r + lg_len r < 2 ^ 31" and "lg_addr r + lg_len r \<le> length v" and "at + 50 * i \<le> lg_addr r"
    and "slice (lg_addr r) (lg_len r) v = lg_bytes sw (int i + 1) (last_addr (take i L)) r"
    and "log_end at (take i L) \<le> lg_addr r" and "lg_pref r = 0 \<or> 1 \<le> lg_pref r \<and> lg_pref r \<le> int i"
    and "log_end at (take (Suc i) L) = lg_addr r + lg_len r" and "last_addr (take (Suc i) L) = int (lg_addr r)"
proof -
  from assms(1,2) have ri: "rec_in v sw at L i" by (simp add: log_in_def)
  then show 1: "lg_ok r" "log_end at (take i L) \<le> lg_addr r" "lg_pref r = 0 \<or> 1 \<le> lg_pref r \<and> lg_pref r \<le> int i"
    and sl: "slice (lg_addr r) (lg_len r) v = lg_bytes sw (int i + 1) (last_addr (take i L)) r"
    by (simp_all add: rec_in_def Let_def r_def)
  show "lg_addr r + lg_len r < 2 ^ 31" using 1(1) by (simp add: lg_ok_def record_fits_def lg_len_def)
  have "length (slice (lg_addr r) (lg_len r) v) = lg_len r" unfolding sl by simp
  with lg_len_ge [of r] show "lg_addr r + lg_len r \<le> length v" by (simp add: length_slice)
  show "at + 50 * i \<le> lg_addr r" using log_size [OF log_in_take [OF assms(1)], of i] assms(2) 1(2) by simp
  show "log_end at (take (Suc i) L) = lg_addr r + lg_len r" "last_addr (take (Suc i) L) = int (lg_addr r)"
    using assms(2) by (simp_all add: log_end_def last_addr_def take_Suc_conv_app_nth r_def)
qed

lemma last_addr_fits:
  assumes "log_in v sw at L"
  shows "fits 4 (last_addr (take i L))"
proof (cases "take i L" rule: rev_cases)
  case (snoc K r)
  then have "log_in v sw at (K @ [r])" using log_in_take [OF assms, of i] by simp
  from log_rec(2) [OF this, of "length K"] show ?thesis by (simp add: snoc last_addr_def fits_def)
qed (simp add: last_addr_def fits_def)

text \<open>The parts of a record.\<close>

lemma lg_slices:
  assumes "slice (lg_addr r) (lg_len r) v = lg_bytes sw t prev r"
  defines "a \<equiv> lg_addr r + HDR_SIZE" and "x \<equiv> lg_subject r @ [NUL]" and "y \<equiv> author_text (lg_author r) (lg_sig r)"
  shows "slice (lg_addr r) HDR_SIZE v = enc_hdr (if sw then swap_trn (lg_hdr t prev r) else lg_hdr t prev r)"
    and "slice a (length x) v = x" and "slice (a + length x) (length y) v = y"
    and "slice (a + length x + length y) (length (lg_text r)) v = lg_text r"
proof -
  have s: "slice (lg_addr r + k) m v = slice k m (lg_bytes sw t prev r)" if "k + m \<le> lg_len r" for k m
    using slice_slice [OF that, of "lg_addr r" v] by (simp add: assms(1))
  have l: "lg_len r = HDR_SIZE + length x + length y + length (lg_text r)" by (simp add: lg_len_def x_def y_def)
  have b: "lg_bytes sw t prev r = enc_hdr (if sw then swap_trn (lg_hdr t prev r) else lg_hdr t prev r) @ x @ y @ lg_text r"
    by (simp add: lg_bytes_def x_def y_def)
  show "slice (lg_addr r) HDR_SIZE v = enc_hdr (if sw then swap_trn (lg_hdr t prev r) else lg_hdr t prev r)"
    using s [of 0 HDR_SIZE] by (simp add: l b slice_def)
  show "slice a (length x) v = x" using s [of HDR_SIZE "length x"] by (simp add: l b slice_def a_def)
  show "slice (a + length x) (length y) v = y"
    using s [of "HDR_SIZE + length x" "length y"] by (simp add: l b slice_def a_def add.assoc)
  show "slice (a + length x + length y) (length (lg_text r)) v = lg_text r"
    using s [of "HDR_SIZE + length x + length y" "length (lg_text r)"] by (simp add: l b slice_def a_def add.assoc)
qed

lemma hdr_at_log:
  assumes "log_in v sw at L" and "i < length L"
  shows "hdr_at v sw (lg_addr (L ! i)) = lg_hdr (int i + 1) (last_addr (take i L)) (L ! i)"
    and "safe_hdr (lg_hdr (int i + 1) (last_addr (take i L)) (L ! i)) (int (length v))"
proof -
  define r where "r = L ! i"
  note g = log_rec [OF assms, folded r_def]
  have fit: "record_fits (lg_addr r) (lg_subject r) (lg_author r) (lg_sig r) (lg_text r)" "fits 4 (lg_date r)"
    using g(1) by (simp_all add: lg_ok_def)
  have "Suc i < 2147483648" using g(2,4) lg_len_ge [of r] by simp
  then have i: "int i + 1 < 2 ^ 31" by simp
  have f: "fits 4 (int i + 1)" "fits 4 (lg_pref r)" using i g(7) by (auto simp: fits_def)
  have ok: "hdr_ok (lg_hdr (int i + 1) (last_addr (take i L)) r)"
    using fit f last_addr_fits [OF assms(1), of i] count_nl_bounds [of "lg_text r"]
    by (auto simp: hdr_ok_def hdr_fields_def lg_hdr_def filed_hdr_def hdr_widths_def fits_def mtg_consts record_fits_def HDR_SIZE_def)
  show "hdr_at v sw (lg_addr (L ! i)) = lg_hdr (int i + 1) (last_addr (take i L)) (L ! i)"
    using ok lg_slices(1) [OF g(5)] by (simp add: hdr_at_def dec_enc_hdr flip: r_def)
  have j: "i32 x = x" if "0 \<le> x" "x < 2 ^ 31" for x using that by (simp add: signed_take_bit_int_eq_self)
  show "safe_hdr (lg_hdr (int i + 1) (last_addr (take i L)) (L ! i)) (int (length v))"
    using g(2,3) count_nl_bounds [of "lg_text r"]
    by (simp add: safe_hdr_def lg_hdr_def filed_hdr_def lg_len_def j flip: r_def)
qed

lemma read_at_log:
  assumes "scans r v sw" and "log_in v sw at L" and "i < length L"
  shows "read_trn_hdr (int (lg_addr (L ! i))) r =
    (None, r\<lparr>rv_off := lg_addr (L ! i) + HDR_SIZE, rv_th := lg_hdr (int i + 1) (last_addr (take i L)) (L ! i)\<rparr>)"
    and "maybe_read_trn_hdr (int (lg_addr (L ! i))) r =
    (True, r\<lparr>rv_off := lg_addr (L ! i) + HDR_SIZE, rv_th := lg_hdr (int i + 1) (last_addr (take i L)) (L ! i)\<rparr>)"
proof -
  have "lg_addr (L ! i) + HDR_SIZE \<le> length v"
    using log_rec(3) [OF assms(2,3)] lg_len_ge [of "L ! i"] by (simp add: HDR_SIZE_def)
  from maybe_read_at [OF assms(1) this] show "maybe_read_trn_hdr (int (lg_addr (L ! i))) r =
    (True, r\<lparr>rv_off := lg_addr (L ! i) + HDR_SIZE, rv_th := lg_hdr (int i + 1) (last_addr (take i L)) (L ! i)\<rparr>)"
    using hdr_at_log [OF assms(2,3)] by simp
  then show "read_trn_hdr (int (lg_addr (L ! i))) r =
    (None, r\<lparr>rv_off := lg_addr (L ! i) + HDR_SIZE, rv_th := lg_hdr (int i + 1) (last_addr (take i L)) (L ! i)\<rparr>)"
    by (simp add: read_trn_hdr_def)
qed

subsection \<open>The last header\<close>

text \<open>Nothing behind the last record looks like a header; for a journal without records, nothing is behind the base.\<close>

definition genuine :: "bytes \<Rightarrow> bool \<Rightarrow> nat \<Rightarrow> logged list \<Rightarrow> bool" where
  "genuine v sw at L \<longleftrightarrow> (if L = [] then length v = at
     else \<forall>q \<in> {lg_addr (last L) + 1 ..< length v - 49}. \<not> safe_hdr (hdr_at v sw q) (int (length v)))"

lemma last_trn_found:
  assumes "scans r v sw" and "log_in v sw at L" and "genuine v sw at L" and "L \<noteq> []" and "BASE_SIZE < at"
    and "rv_current_pos r = int p" and "lg_addr (last L) \<le> p" and "p + 50 \<le> length v"
  shows "last_trn_loop r = Some (r\<lparr>rv_current_pos := int (lg_addr (last L)), rv_off := lg_addr (last L) + HDR_SIZE,
    rv_th := lg_hdr (int (length L)) (last_addr (butlast L)) (last L)\<rparr>)"
  using assms(1,6-8)
proof (induction "p - lg_addr (last L)" arbitrary: p r)
  case (0 p r)
  have i: "length L - 1 < length L" "L ! (length L - 1) = last L" "take (length L - 1) L = butlast L" "int (length L - 1) + 1 = int (length L)"
    using assms(4) by (simp_all add: last_conv_nth butlast_conv_take) (cases L; simp)
  have p: "p = lg_addr (last L)" using 0(1,4) by simp
  have "at \<le> lg_addr (last L)" using log_rec(4) [OF assms(2) i(1)] i(2) by (metis add_leD1)
  then have "BASE_SIZE < p" using assms(5) by (simp add: p)
  moreover note read_at_log(2) [OF 0(2) assms(2) i(1), unfolded i(2-4)]
  ultimately show ?case using 0(3) p by (subst last_trn_loop.simps) simp
next
  case (Suc d p r)
  have lp: "lg_addr (last L) < p" using Suc.hyps(2) by simp
  have "at \<le> lg_addr (last L)" using log_rec(4) [OF assms(2), of "length L - 1"] assms(4) by (simp add: last_conv_nth)
  with lp assms(5) have b: "BASE_SIZE < p" by simp
  have "\<not> safe_hdr (hdr_at v sw p) (int (length v))"
    using assms(3,4) lp Suc.prems(4) by (simp add: genuine_def)
  then have "maybe_read_trn_hdr (int p) r = (False, r\<lparr>rv_off := p + HDR_SIZE, rv_th := hdr_at v sw p\<rparr>)"
    using maybe_read_at [OF Suc.prems(1), of p] Suc.prems(4) by (simp add: HDR_SIZE_def)
  then have "last_trn_loop r = last_trn_loop (r\<lparr>rv_off := p + HDR_SIZE, rv_th := hdr_at v sw p, rv_current_pos := int p - 1\<rparr>)"
    using b by (subst last_trn_loop.simps) (simp add: Suc.prems(2))
  also have "\<dots> = Some ((r\<lparr>rv_off := p + HDR_SIZE, rv_th := hdr_at v sw p, rv_current_pos := int p - 1\<rparr>)
      \<lparr>rv_current_pos := int (lg_addr (last L)), rv_off := lg_addr (last L) + HDR_SIZE,
       rv_th := lg_hdr (int (length L)) (last_addr (butlast L)) (last L)\<rparr>)"
    using Suc.hyps(2) lp Suc.prems by (intro Suc.hyps(1) [of "p - 1"]) (simp_all add: of_nat_diff)
  finally show ?case by simp
qed

subsection \<open>The positions\<close>

lemma fill_log:
  assumes "log_in v sw at L" and "length L < room" and "0 < at"
    and "scans r v sw" and "k \<le> length L" and "rv_current_pos r = last_addr (take k L)"
    and "rv_trn_pos r = replicate (Suc k) 0 @ map (\<lambda>x. int (lg_addr x)) (drop k L)"
  shows "\<exists>off th. fill_trn_pos room r = Some (None, r\<lparr>rv_off := off, rv_th := th, rv_current_pos := 0,
    rv_trn_pos := 0 # map (\<lambda>x. int (lg_addr x)) L\<rparr>)"
  using assms(4-7)
proof (induction k arbitrary: r)
  case 0
  then show ?case
    by (subst fill_trn_pos.simps) (auto simp: last_addr_def intro!: exI [of _ "rv_off r"] exI [of _ "rv_th r"])
next
  case (Suc k r)
  then have k: "k < length L" by simp
  note g = log_rec [OF assms(1) k]
  define a where "a = int (lg_addr (L ! k))"
  define th where "th = lg_hdr (int k + 1) (last_addr (take k L)) (L ! k)"
  define r1 where "r1 = r\<lparr>rv_off := lg_addr (L ! k) + HDR_SIZE, rv_th := th, rv_trn_pos := replicate (Suc k) 0 @ map (\<lambda>x. int (lg_addr x)) (drop k L),
    rv_current_pos := last_addr (take k L)\<rparr>"
  have cp: "rv_current_pos r = a" "a \<noteq> 0" using Suc.prems(3) g(4,9) assms(3) by (simp_all add: a_def)
  have th: "th_current th = int k + 1" "th_prev_trn th = last_addr (take k L)" by (simp_all add: th_def lg_hdr_def filed_hdr_def)
  have "(replicate (Suc (Suc k)) 0)[Suc k := a] = replicate (Suc k) 0 @ [a]" by (simp add: list_update_append flip: replicate_append_same)
  then have up: "(replicate (Suc (Suc k)) 0 @ map (\<lambda>x. int (lg_addr x)) (drop (Suc k) L))[Suc k := a] = replicate (Suc k) 0 @ map (\<lambda>x. int (lg_addr x)) (drop k L)"
    using k by (simp add: list_update_append a_def flip: Cons_nth_drop_Suc del: replicate_Suc)
  have "fill_trn_pos room r = fill_trn_pos room r1"
    using cp k assms(2) read_at_log(1) [OF Suc.prems(1) assms(1) k] Suc.prems(4) up
    by (subst fill_trn_pos.simps) (simp add: th a_def r1_def flip: th_def del: replicate_Suc, simp add: nat_add_distrib del: replicate_Suc)
  moreover have "scans r1 v sw" using Suc.prems(1) by (simp add: r1_def)
  then have "\<exists>off th. fill_trn_pos room r1 = Some (None, r1\<lparr>rv_off := off, rv_th := th, rv_current_pos := 0, rv_trn_pos := 0 # map (\<lambda>x. int (lg_addr x)) L\<rparr>)"
    using k by (intro Suc.IH) (simp_all add: r1_def)
  ultimately show ?case by (auto simp: r1_def)
qed

end
