(* ===== verification/Recovery.thy ===== *)
theory Recovery
  imports Create Scan
begin

text \<open>
  The meeting that \<^verbatim>\<open>recover.c\<close> makes from the transaction file of another: it holds everything that was ever put up there, under the
  same numbers.
\<close>

subsection \<open>Changes outside of the meeting\<close>

text \<open>Between two states only files have changed that are not the meeting's, and the stream.\<close>

definition elsewhere :: "string \<Rightarrow> srv \<Rightarrow> srv \<Rightarrow> bool" where
  "elsewhere location s s' \<longleftrightarrow> s' = s\<lparr>fs := fs s', us := us s', tf := tf s', abort_file := abort_file s'\<rparr> \<and>
     faults (fs s') = [] \<and> euid (fs s') = euid (fs s) \<and>
     (\<forall>x. CHR ''/'' \<notin> set x \<longrightarrow>
        map_of (links (fs s')) (location @ CHR ''/'' # x) = map_of (links (fs s)) (location @ CHR ''/'' # x)) \<and>
     inodes (fs s') (u_control_f s) = inodes (fs s) (u_control_f s) \<and> inodes (fs s') (u_trn_f s) = inodes (fs s) (u_trn_f s) \<and>
     (\<forall>x d. CHR ''/'' \<notin> set x \<and> map_of (links (fs s)) (location @ CHR ''/'' # x) = Some d \<longrightarrow> inodes (fs s') d = inodes (fs s) d)"

lemma elsewhere_fields:
  assumes "elsewhere location s s'"
  shows "current_mtg s' = current_mtg s" "u_trn_f s' = u_trn_f s" "u_control_f s' = u_control_f s" "read_lock s' = read_lock s"
    "mtg_swapped s' = mtg_swapped s" "mtg_acl s' = mtg_acl s" "has_privs s' = has_privs s" "no_nuke s' = no_nuke s"
    "rpc_caller s' = rpc_caller s" "last_acl_mod s' = last_acl_mod s" "nuclear s' = nuclear s"
proof -
  from assms have e: "s' = s\<lparr>fs := fs s', us := us s', tf := tf s', abort_file := abort_file s'\<rparr>" by (simp add: elsewhere_def)
  show "current_mtg s' = current_mtg s" "u_trn_f s' = u_trn_f s" "u_control_f s' = u_control_f s" "read_lock s' = read_lock s"
    "mtg_swapped s' = mtg_swapped s" "mtg_acl s' = mtg_acl s" "has_privs s' = has_privs s" "no_nuke s' = no_nuke s"
    "rpc_caller s' = rpc_caller s" "last_acl_mod s' = last_acl_mod s" "nuclear s' = nuclear s"
    by (subst e, simp)+
qed

lemma elsewhere_entries:
  assumes "elsewhere location s s'"
  shows "posts s' = posts s" and "filed s' = filed s"
proof -
  have "fdata (fs s') (u_trn_f s) = fdata (fs s) (u_trn_f s)" using assms by (simp add: elsewhere_def)
  from posts_frame [OF in_file_same [OF disjI2 [OF this]]] elsewhere_fields [OF assms]
  show "posts s' = posts s" and "filed s' = filed s" by simp_all
qed

lemma rest_elsewhere:
  assumes "at_rest s sb ln ch m" and "elsewhere location s s'"
  shows "at_rest s' sb ln ch m"
  using assms elsewhere_fields [OF assms(2)] by (simp add: at_rest_def elsewhere_def)

lemma kept_elsewhere:
  assumes "kept location ln ch s sb m" and "elsewhere location s s'"
  shows "kept location ln ch s' sb m"
proof -
  note f = elsewhere_fields [OF assms(2)]
  have l: "map_of (links (fs s')) (location @ CHR ''/'' # x) = map_of (links (fs s)) (location @ CHR ''/'' # x)"
    if "CHR ''/'' \<notin> set x" for x
    using assms(2) that by (simp add: elsewhere_def)
  have "open_on s location" using assms(1) by (simp add: kept_def)
  then have "open_on s' location"
    using l [of "''forward''"] l [of "''acl''"] assms(2) unfolding elsewhere_def open_on_def f
    by (auto split: option.splits dest: spec [of _ "''acl''"])
  moreover have "inodes (fs s') (u_trn_f s) = inodes (fs s) (u_trn_f s)" using assms(2) by (simp add: elsewhere_def)
  ultimately show ?thesis
    using assms(1) rest_elsewhere [OF _ assms(2)] elsewhere_entries [OF assms(2)] by (simp add: kept_def f) (simp add: listed_def f)
qed

lemma file_at_elsewhere:
  assumes "CHR ''/'' \<notin> set x" and "file_at location s x d" and "elsewhere location s s'"
  shows "file_at location s' x d" and "inodes (fs s') d = inodes (fs s) d"
proof -
  from assms show i: "inodes (fs s') d = inodes (fs s) d" by (auto simp: file_at_def elsewhere_def)
  with assms show "file_at location s' x d" by (simp add: file_at_def elsewhere_def fis_owner_def)
qed

lemma new_mtg_elsewhere:
  assumes "new_mtg location ln ch public date sb s" and "elsewhere location s s'"
  shows "new_mtg location ln ch public date sb s'"
proof -
  note f = elsewhere_fields [OF assms(2)] and g = file_at_elsewhere [OF _ _ assms(2)]
  from assms(1) obtain da l where a: "mtg_acl s = Acl l" "\<forall>ae \<in> set l. entry_ok ae" "length l < 10 ^ 100" "da \<noteq> u_control_f s" "da \<noteq> u_trn_f s"
    "file_at location s ''acl'' da" "fdata (fs s) da = acl_text l" by (auto simp: new_mtg_def)
  have "map_of (links (fs s')) (location @ ''/forward'') = None"
    using assms by (auto simp: new_mtg_def elsewhere_def dest: spec [of _ "''forward''"])
  moreover have "inodes (fs s') (u_trn_f s) = inodes (fs s) (u_trn_f s)" using assms(2) by (simp add: elsewhere_def)
  moreover have "\<exists>da l. mtg_acl s' = Acl l \<and> (\<forall>ae \<in> set l. entry_ok ae) \<and> length l < 10 ^ 100 \<and> da \<noteq> u_control_f s' \<and> da \<noteq> u_trn_f s' \<and>
        file_at location s' ''acl'' da \<and> fdata (fs s') da = acl_text l"
    using a g [OF _ a(6)] by (auto simp: f)
  ultimately show ?thesis
    using assms(1) rest_elsewhere [OF _ assms(2)] g by (simp add: new_mtg_def f)
qed

subsection \<open>A meeting that can be opened\<close>

text \<open>One that is open already, or has just been created.\<close>

definition reopens :: "string \<Rightarrow> string \<Rightarrow> string \<Rightarrow> srv \<Rightarrow> mtg_super \<Rightarrow> chains \<Rightarrow> bool" where
  "reopens location ln ch s sb m \<longleftrightarrow> kept location ln ch s sb m \<or> m = Map.empty \<and> (\<exists>public date. new_mtg location ln ch public date sb s)"

lemma reopens_elsewhere:
  assumes "reopens location ln ch s sb m" and "elsewhere location s s'"
  shows "reopens location ln ch s' sb m"
  using assms kept_elsewhere [OF _ assms(2)] new_mtg_elsewhere [OF _ assms(2)] unfolding reopens_def by blast

lemma reopens_open:
  assumes "reopens location ln ch s sb m"
  shows "\<exists>l mt f. open_mtg location s = Some (OK, s\<lparr>u_acl_f := f, mtg_acl := l, last_acl_mod := mt\<rparr>) \<and>
    kept location ln ch (s\<lparr>u_acl_f := f, mtg_acl := l, last_acl_mod := mt\<rparr>) sb m"
  using assms unfolding reopens_def
proof (elim disjE)
  assume k: "kept location ln ch s sb m"
  moreover have "s = s\<lparr>u_acl_f := u_acl_f s, mtg_acl := mtg_acl s, last_acl_mod := last_acl_mod s\<rparr>" by simp
  moreover have "open_mtg location s = Some (OK, s)" using k by (intro open_on_again) (simp add: kept_def)
  ultimately show ?thesis by metis
qed (use open_new in blast)

lemma journal_elsewhere:
  assumes "journal B s sb m M" and "elsewhere location s s'"
  shows "journal B s' sb m M"
  using assms elsewhere_fields [OF assms(2)] elsewhere_entries [OF assms(2)] by (simp add: journal_def elsewhere_def)

text \<open>Opening the meeting first, or opening it in the call, makes no difference for an addition.\<close>

lemma add_reopen:
  assumes "tf s = Some (unix_tfile d f)" and "open_mtg name (s\<lparr>abort_file := True\<rparr>) = Some (OK, s0)" and "tf s0 = tf s" and "abort_file s0"
    and "open_mtg name s0 = Some (OK, s0)"
  shows "add_trn_priv name subject sg reply desired author date flags s = add_trn_priv name subject sg reply desired author date flags s0"
proof -
  have "topen CHR ''r'' x = Some (0, OK, x)" if "tf x = Some (unix_tfile d f)" for x :: srv
    using that by (simp add: topen_def unix_tfile_def)
  moreover have "s0\<lparr>abort_file := True\<rparr> = s0" using assms(4) by simp
  then have "open_mtg name (s0\<lparr>abort_file := True\<rparr>) = Some (OK, s0)" by (simp only: assms(5))
  ultimately show ?thesis using assms(1-3) by (simp add: add_trn_priv_def add_start_def)
qed

subsection \<open>Reading a record\<close>

lemma rv_read_at:
  assumes "scans r v sw" and "slice q (length b) v = b"
  shows "rv_read (length b) (rv_seek (int q) r) = (b, r\<lparr>rv_off := q + length b\<rparr>)"
  using assms by (simp add: rv_read_def rv_seek_def sys_read_def scans_def)

lemma read_strings_log:
  assumes "scans r v sw" and "log_in v sw at L" and "i < length L" and "rv_th r = lg_hdr (int i + 1) prev (L ! i)"
  shows "\<exists>off. read_strings r = Some ((lg_subject (L ! i), lg_author (L ! i), lg_sig (L ! i)), r\<lparr>rv_off := off\<rparr>)"
proof -
  define x where "x = L ! i"
  note g = log_rec [OF assms(2,3), folded x_def]
  define a where "a = lg_addr x + HDR_SIZE"
  define sj where "sj = lg_subject x @ [NUL]"
  define au where "au = author_text (lg_author x) (lg_sig x)"
  have sl: "slice a (length sj) v = sj" "slice (a + length sj) (length au) v = au"
    using lg_slices(2,3) [OF g(5)] by (simp_all add: a_def sj_def au_def)
  have ok: "c_ok (lg_subject x)" "c_ok (lg_author x)" "\<And>g. lg_sig x = Some g \<Longrightarrow> c_ok g" using g(1) by (auto simp: lg_ok_def)
  have th: "th_subject_addr (rv_th r) = int a" "th_subject_len (rv_th r) = int (length sj)"
    "th_author_addr (rv_th r) = int (a + length sj)" "th_author_len (rv_th r) = int (length au)"
    by (simp_all add: assms(4) lg_hdr_def filed_hdr_def x_def a_def sj_def au_def)
  have c: "c_string (Some sj) = Some (lg_subject x)" "c_string (Some au) = Some (lg_author x)"
    using ok by (simp_all add: c_string_def author_text_def cstr_append sj_def au_def)
  have sg: "(if int (length (lg_author x)) + 1 \<noteq> int (length au)
      then map_option Some (c_string (Some (drop (length (lg_author x) + 1) au))) else Some None) = Some (lg_sig x)"
    using ok(3) by (cases "lg_sig x") (simp_all add: author_text_def c_string_def cstr_append au_def)
  define r1 where "r1 = r\<lparr>rv_off := a + length sj\<rparr>"
  have 1: "rv_read (length sj) (rv_seek (int a) r) = (sj, r1)" using rv_read_at [OF assms(1) sl(1)] by (simp add: r1_def)
  have 2: "rv_read (length au) (rv_seek (int (a + length sj)) r1) = (au, r\<lparr>rv_off := a + length sj + length au\<rparr>)"
    using rv_read_at [OF _ sl(2), of r1 sw] assms(1) by (simp add: r1_def)
  have "read_strings r = Some ((lg_subject x, lg_author x, lg_sig x), r\<lparr>rv_off := a + length sj + length au\<rparr>)"
    unfolding read_strings_def Let_def th nat_int 1 prod.case 2 c bind.bind_lunit sg ..
  then show ?thesis by (auto simp: x_def)
qed

text \<open>The text is copied to the end of the temporary file.\<close>

lemma copy_text_ok:
  assumes "slice (rv_off r) (length p) (fdata (fs (rv_srv r)) (rv_trnf r)) = p" and "rv_tempf r \<noteq> rv_trnf r" and "faults (fs (rv_srv r)) = []"
    and "pos = length (fdata (fs (rv_srv r)) (rv_tempf r))"
  shows "\<exists>off f. copy_text (int (length p)) pos buf r = Some (r\<lparr>rv_off := off, rv_srv := (rv_srv r)\<lparr>fs := f\<rparr>\<rparr>) \<and>
    fdata f (rv_tempf r) = fdata (fs (rv_srv r)) (rv_tempf r) @ p \<and> other_files (fs (rv_srv r)) (rv_tempf r) f"
  using assms
proof (induction "length p" arbitrary: p r pos buf rule: less_induct)
  case less
  show ?case
  proof (cases "p = []")
    case True
    then show ?thesis
      by (subst copy_text.simps) (auto intro!: exI [of _ "rv_off r"] exI [of _ "fs (rv_srv r)"])
  next
    case False
    define n where "n = min 512 (length p)"
    have n: "0 < n" "n \<le> length p" "nat (min 512 (int (length p))) = n" using False by (auto simp: n_def)
    define s where "s = rv_srv r"
    have b: "slice (rv_off r) n (fdata (fs s) (rv_trnf r)) = take n p" "slice (rv_off r + n) (length p - n) (fdata (fs s) (rv_trnf r)) = drop n p"
      using n(2) arg_cong [OF less.prems(1), of "take n"] arg_cong [OF less.prems(1), of "drop n"]
      by (simp_all add: s_def slice_def drop_take add.commute min_absorb1)
    define f where "f = set_data (fs s) (rv_tempf r) (overwrite pos (take n p) (fdata (fs s) (rv_tempf r)))"
    have w: "sys_write (fs s) (rv_tempf r) pos (take n p) = (int n, f)"
      using less.prems(3) n(2) by (simp add: sys_write_ok s_def f_def)
    define r1 where "r1 = r\<lparr>rv_off := rv_off r + n, rv_srv := s\<lparr>fs := f\<rparr>\<rparr>"
    have f1: "fdata f (rv_tempf r) = fdata (fs s) (rv_tempf r) @ take n p" "fdata f (rv_trnf r) = fdata (fs s) (rv_trnf r)" "faults f = []"
      "other_files (fs s) (rv_tempf r) f"
      using less.prems(2-4) sys_write_other_files [OF w] by (simp_all add: f_def s_def overwrite_end)
    have d: "int (length p) - int n = int (length (drop n p))" using n(2) by (simp add: of_nat_diff)
    have "rv_read n r = (take n p, r\<lparr>rv_off := rv_off r + n\<rparr>)" using b(1) n(2) by (simp add: rv_read_def sys_read_def s_def)
    then have "copy_text (int (length p)) pos buf r = copy_text (int (length p) - int n) (pos + n) (take n p @ drop n buf) r1"
      using w n(1,2) False by (subst copy_text.simps) (simp add: n(3) r1_def flip: s_def)
    note step = this [unfolded d]
    have "\<exists>off g. copy_text (int (length (drop n p))) (pos + n) (take n p @ drop n buf) r1 =
          Some (r1\<lparr>rv_off := off, rv_srv := (rv_srv r1)\<lparr>fs := g\<rparr>\<rparr>) \<and>
        fdata g (rv_tempf r1) = fdata (fs (rv_srv r1)) (rv_tempf r1) @ drop n p \<and> other_files (fs (rv_srv r1)) (rv_tempf r1) g"
      by (rule less.hyps) (use n b(2) f1 less.prems(2,4) in \<open>simp_all add: r1_def s_def\<close>)
    then obtain off g where g: "copy_text (int (length (drop n p))) (pos + n) (take n p @ drop n buf) r1 =
          Some (r1\<lparr>rv_off := off, rv_srv := (rv_srv r1)\<lparr>fs := g\<rparr>\<rparr>)"
        "fdata g (rv_tempf r) = fdata f (rv_tempf r) @ drop n p" "other_files f (rv_tempf r) g" by (auto simp: r1_def)
    have "fdata g (rv_tempf r) = fdata (fs s) (rv_tempf r) @ p" using g(2) f1(1) by simp
    moreover have "other_files (fs s) (rv_tempf r) g" by (rule other_files_trans [OF f1(4) g(3)])
    ultimately show ?thesis unfolding step g(1) by (intro exI [of _ off] exI [of _ g]) (simp add: r1_def s_def)
  qed
qed

subsection \<open>Saving a transaction\<close>

lemma fst_replay: "fst (replay L) = length L"
proof (induction L rule: rev_induct)
  case (snoc r L)
  then show ?case by (cases "replay L") simp
qed simp

text \<open>What the new meeting has after the first \<open>i\<close> records have been added; \<open>M\<close> is its own journal.\<close>

definition caught_up :: "string \<Rightarrow> string \<Rightarrow> string \<Rightarrow> nat \<Rightarrow> logged list \<Rightarrow> nat \<Rightarrow> srv \<Rightarrow> bool" where
  "caught_up location ln ch at L i s \<longleftrightarrow> has_privs s \<and> c_ok (rpc_caller s) \<and>
     length (fdata (fs s) (u_trn_f s)) \<le> log_end at (take i L) \<and>
     (\<exists>B sb m M. reopens location ln ch s sb m \<and> journal B s sb m M \<and> replay M = replay (take i L) \<and> live m = {1 .. int i} \<and>
        ms_chain_start sb = 1024)"

lemma reopens_rest: "reopens location ln ch s sb m \<Longrightarrow> at_rest s sb ln ch m"
  by (auto simp: reopens_def kept_def new_mtg_def)

lemma caught_up_elsewhere:
  assumes "caught_up location ln ch at L i s" and "elsewhere location s s'"
  shows "caught_up location ln ch at L i s'"
proof -
  have "inodes (fs s') (u_trn_f s) = inodes (fs s) (u_trn_f s)" using assms(2) by (simp add: elsewhere_def)
  with assms show ?thesis
    using reopens_elsewhere [OF _ assms(2)] journal_elsewhere [OF _ assms(2)] elsewhere_fields [OF assms(2)]
    unfolding caught_up_def by fastforce
qed

text \<open>The addition of the next one.\<close>

lemma add_logged:
  assumes up: "caught_up location ln ch at L i s" and log: "log_in v sw at L" "i < length L"
    and room: "1024 + (int i + 1) * int CHAIN_SIZE \<le> int ALIMIT"
    and src: "tf s = Some (unix_tfile d (fs s))" "d \<noteq> u_trn_f s" "d \<noteq> u_control_f s" "fdata (fs s) d = lg_text (L ! i)"
  defines "x \<equiv> L ! i"
  shows "\<exists>n s'. add_trn_priv location (lg_subject x) (lg_sig x) (lg_pref x) (int i + 1) (lg_author x) (lg_date x) 0 s = Some (OK, n, s') \<and>
    caught_up location ln ch at L (Suc i) s' \<and> add_frame s (s'\<lparr>mtg_acl := mtg_acl s, last_acl_mod := last_acl_mod s\<rparr>)"
proof -
  note g = log_rec [OF log, folded x_def]
  have ok: "c_ok (lg_subject x)" "NL \<notin> set (lg_subject x)" "c_ok (lg_author x)" "fits 4 (lg_date x)" "\<And>g. lg_sig x = Some g \<Longrightarrow> c_ok g"
    "record_fits (lg_addr x) (lg_subject x) (lg_author x) (lg_sig x) (lg_text x)" using g(1) by (auto simp: lg_ok_def)
  have same: "first_line (lg_subject x) = lg_subject x" "kept_sig (lg_author x) (lg_sig x) = lg_sig x"
    using g(1) by (auto simp: lg_ok_def first_line_def kept_sig_def takeWhile_eq_all_conv split: option.split)
  from up obtain B sb m M where u: "reopens location ln ch s sb m" "journal B s sb m M" "replay M = replay (take i L)" "live m = {1 .. int i}"
    "ms_chain_start sb = 1024" "has_privs s" "c_ok (rpc_caller s)" "length (fdata (fs s) (u_trn_f s)) \<le> log_end at (take i L)"
    by (auto simp: caught_up_def)
  have "elsewhere location s (s\<lparr>abort_file := True\<rparr>)"
    using reopens_rest [OF u(1)] by (simp add: elsewhere_def at_rest_def)
  from reopens_open [OF reopens_elsewhere [OF u(1) this]] obtain l mt f where
    s0: "open_mtg location (s\<lparr>abort_file := True\<rparr>) = Some (OK, (s\<lparr>abort_file := True\<rparr>)\<lparr>u_acl_f := f, mtg_acl := l, last_acl_mod := mt\<rparr>)"
      "kept location ln ch ((s\<lparr>abort_file := True\<rparr>)\<lparr>u_acl_f := f, mtg_acl := l, last_acl_mod := mt\<rparr>) sb m" by blast
  define s0 where "s0 = (s\<lparr>abort_file := True\<rparr>)\<lparr>u_acl_f := f, mtg_acl := l, last_acl_mod := mt\<rparr>"
  note s0 = s0 [folded s0_def]
  have f0: "fs s0 = fs s" "us s0 = us s" "tf s0 = tf s" "u_trn_f s0 = u_trn_f s" "u_control_f s0 = u_control_f s" "has_privs s0"
    "rpc_caller s0 = rpc_caller s" "mtg_swapped s0 = mtg_swapped s" using u(6) by (simp_all add: s0_def)
  have k: "open_on s0 location" "at_rest s0 sb ln ch m" "mtg_inv sb m" "filed s0 m" "\<not> read_lock s0" "ms_date_created sb \<noteq> 0"
    "fdata (fs s0) (u_trn_f s0) \<noteq> []" "listed s0" using s0(2) by (simp_all add: kept_def)
  have j: "journal B s0 sb m M"
    by (rule journal_same [OF u(2)]) (use in_file_same(1) [of s0 s] in \<open>simp_all add: f0 posts_def [abs_def]\<close>)
  have n: "ms_highest sb = int i" "replay (take i L) = (i, ms_highest_chain sb, posts s0 m)"
    using j u(3) fst_replay [of "take i L"] fst_replay [of M] log(2) by (simp_all add: journal_def)
  define at1 where "at1 = length (fdata (fs s) (u_trn_f s))"
  have at1: "at1 \<le> lg_addr x" using u(8) g(6) by (simp add: at1_def)
  have fit: "record_fits at1 (first_line (lg_subject x)) (lg_author x) (kept_sig (lg_author x) (lg_sig x)) (lg_text x)"
    using ok(6) at1 unfolding same by (simp add: record_fits_def)
  have may: "may_add s0 m (lg_pref x)"
  proof (cases "lg_pref x = 0")
    case False
    then have "lg_pref x \<in> live m" using g(7) u(4) by auto
    then show ?thesis by (auto simp: may_add_def has_mtg_access_def f0 live_def)
  qed (simp add: may_add_def has_mtg_access_def f0)
  have rd: "add_ready s0 location sb ln ch m (lg_pref x)"
    using k may room u(5,7) n(1) by (simp add: add_ready_def f0)
  have sz: "i32 (int (length (lg_text x))) = int (length (lg_text x))"
    using ok(6) by (simp add: record_fits_def signed_take_bit_int_eq_self)
  have sd: "sends s0 (lg_text x) s0"
    using src by (simp add: sends_def topen_def unix_tfile_def tfsize_def f0 stream_src_def temp_src_def sz flip: x_def)
  from add_trn_priv_ok [where sg = "lg_sig x" and desired = "int i + 1", OF rd sd _ ok(5) ok(1) filed_whole [OF k(4)] ok(3,4)] fit k(4) obtain s' sb' m' pref where
    s': "add_trn_priv location (lg_subject x) (lg_sig x) (lg_pref x) (int i + 1) (lg_author x) (lg_date x) 0 s0 = Some (OK, Some (int i + 1), s')"
      "at_rest s' sb' ln ch m'" "mtg_inv sb' m'" "live m' = insert (int i + 1) (live m)" "add_frame s0 s'"
      "contents s' m' = (contents s0 m)(int i + 1 \<mapsto> \<lparr>en_subject = lg_subject x, en_author = lg_author x,
        en_signature = (case lg_sig x of None \<Rightarrow> lg_author x | Some g \<Rightarrow> g), en_text = lg_text x,
        en_chain = (if lg_pref x = 0 then ms_highest_chain sb + 1 else cb_trn_chain (the (m (lg_pref x))))\<rparr>)"
      "ms_date_created sb' = ms_date_created sb" "filed s' m'" "posts s' m' = (posts s0 m)(int i + 1 := contents s' m' (int i + 1))"
      "ms_chain_start sb' = ms_chain_start sb"
    and pref: "if lg_pref x = 0 then pref = 0 else \<exists>c. m pref = Some c \<and> cb_trn_chain c = cb_trn_chain (the (m (lg_pref x)))"
    and rec: "fdata (fs s') (u_trn_f s0) = fdata (fs s0) (u_trn_f s0) @ record_text s0
         (filed_hdr (int i + 1) pref (lg_date x) (ms_highest_trn_addr sb) at1 (lg_subject x) (lg_author x) (lg_sig x) (lg_text x))
           (lg_subject x) (lg_author x) (lg_sig x) (lg_text x)"
    and sb': "ms_highest sb' = int i + 1" "ms_highest_trn_addr sb' = int at1"
        "ms_highest_chain sb' = (if lg_pref x = 0 then ms_highest_chain sb + 1 else ms_highest_chain sb)"
    unfolding same n(1) f0 at1_def by clarsimp
  have call: "add_trn_priv location (lg_subject x) (lg_sig x) (lg_pref x) (int i + 1) (lg_author x) (lg_date x) 0 s = Some (OK, Some (int i + 1), s')"
    using add_reopen [OF src(1) s0(1) _ _ open_on_again [OF k(1)]] s'(1) by (simp add: f0) (simp add: s0_def)
  have kp: "kept location ln ch s' sb' m'"
    using s' k(5,6,7,8) open_on_added [OF k(1) s'(5)] rec by (simp add: kept_def) (simp add: add_frame_def listed_def)
  have d: "dom m = {1 .. ms_highest sb}" using k(3) by (simp add: mtg_inv_def)
  have chain: "(if lg_pref x = 0 then ms_highest_chain sb + 1 else cb_trn_chain (the (m (lg_pref x)))) =
      (if lg_pref x = 0 then ms_highest_chain sb + 1 else case posts s0 m (lg_pref x) of None \<Rightarrow> 0 | Some e \<Rightarrow> en_chain e)"
  proof (cases "lg_pref x = 0")
    case False
    then have "lg_pref x \<in> dom m" using g(7) d n(1) by simp
    then obtain c where "m (lg_pref x) = Some c" by auto
    with post_of [OF k(4) this] False show ?thesis by auto
  qed simp
  have rp: "replay (take (Suc i) L) = (Suc i, ms_highest_chain sb', posts s' m')"
    using n(2) log(2) s'(6,9) sb'(3) chain by (auto simp: take_Suc_conv_app_nth lg_entry_def simp flip: x_def)
  have "\<exists>r. journal B s' sb' m' (M @ [r])"
    by (rule journal_add [OF j d k(4) pref, where author = "lg_author x" and p = "lg_text x" and date = "lg_date x" and subject = "lg_subject x"
      and ?sg0.0 = "lg_sig x"]) (use s'(5,6,9) sb' rec fit ok in \<open>simp_all add: same n(1) f0 at1_def add_frame_def\<close>)
  then obtain M' where M': "journal B s' sb' m' M'" by blast
  then have "replay M' = replay (take (Suc i) L)"
    using rp sb'(1) by (simp add: journal_def)
  moreover have "live m' = {1 .. int (Suc i)}" using s'(4) u(4) by auto
  moreover have "length (fdata (fs s') (u_trn_f s')) \<le> log_end at (take (Suc i) L)"
    using rec at1 s'(5) by (simp add: g(8) add_frame_def f0 at1_def record_text_def lg_len_def)
  moreover have "reopens location ln ch s' sb' m'" using kp by (simp add: reopens_def)
  ultimately have "caught_up location ln ch at L (Suc i) s'"
    using M' u(5-7) s'(5,10) by (auto simp: caught_up_def add_frame_def f0)
  moreover have "add_frame s (s'\<lparr>mtg_acl := mtg_acl s, last_acl_mod := last_acl_mod s\<rparr>)"
    using s'(5) by (simp add: add_frame_def s0_def)
  ultimately show ?thesis using call by blast
qed

text \<open>The state of the tool when \<open>i\<close> records have been saved.\<close>

definition saving :: "string \<Rightarrow> string \<Rightarrow> string \<Rightarrow> bytes \<Rightarrow> bool \<Rightarrow> nat \<Rightarrow> logged list \<Rightarrow> nat \<Rightarrow> rcv \<Rightarrow> bool" where
  "saving location ln ch v sw at L i r \<longleftrightarrow> scans r v sw \<and> rv_location r = Some location \<and> caught_up location ln ch at L i (rv_srv r) \<and>
     rv_tempf r \<noteq> rv_trnf r \<and> rv_tempf r \<notin> {u_control_f (rv_srv r), u_trn_f (rv_srv r)} \<and>
     rv_trnf r \<notin> {u_control_f (rv_srv r), u_trn_f (rv_srv r)} \<and>
     (\<forall>x. CHR ''/'' \<notin> set x \<longrightarrow> map_of (links (fs (rv_srv r))) (location @ CHR ''/'' # x) \<noteq> Some (rv_tempf r))"

lemma caught_up_faults: "caught_up location ln ch at L i s \<Longrightarrow> faults (fs s) = []"
  by (auto simp: caught_up_def at_rest_def dest: reopens_rest)

text \<open>The temporary file holds the text, and nothing else has changed.\<close>

lemma temp_text:
  assumes "saving location ln ch v sw at L i r" and "log_in v sw at L" and "i < length L"
    and "r2 = r\<lparr>rv_off := off, rv_th := th\<rparr>" and "th_text_addr th = th_text_addr (lg_hdr (int i + 1) prev (L ! i))"
  defines "s \<equiv> rv_srv r"
  shows "\<exists>f off. copy_text (int (length (lg_text (L ! i)))) 0 []
      (rv_seek (th_text_addr th) (r2\<lparr>rv_srv := s\<lparr>fs := sys_ftruncate (fs s) (rv_tempf r2) 0\<rparr>\<rparr>)) =
      Some (r2\<lparr>rv_off := off, rv_srv := s\<lparr>fs := f\<rparr>\<rparr>) \<and> other_files (fs s) (rv_tempf r) f \<and> fdata f (rv_tempf r) = lg_text (L ! i)"
proof -
  define x where "x = L ! i"
  define q where "q = lg_addr x + HDR_SIZE + length (lg_subject x @ [NUL]) + length (author_text (lg_author x) (lg_sig x))"
  have ta: "th_text_addr th = int q" by (simp add: assms(5) lg_hdr_def filed_hdr_def q_def flip: x_def)
  have sl: "slice q (length (lg_text x)) v = lg_text x"
    using lg_slices(4) [OF log_rec(5) [OF assms(2,3)]] by (simp add: q_def x_def)
  define f1 where "f1 = set_data (fs s) (rv_tempf r) []"
  have f1: "sys_ftruncate (fs s) (rv_tempf r2) 0 = f1" "fdata f1 (rv_tempf r) = []" "faults f1 = []" "fdata f1 (rv_trnf r) = v"
    "other_files (fs s) (rv_tempf r) f1"
    using assms(1,4) caught_up_faults [of location ln ch at L i s]
    by (simp_all add: sys_ftruncate_def f1_def saving_def scans_def other_files_def flip: s_def)
  define r3 where "r3 = r2\<lparr>rv_srv := s\<lparr>fs := f1\<rparr>, rv_off := q\<rparr>"
  have "rv_seek (th_text_addr th) (r2\<lparr>rv_srv := s\<lparr>fs := sys_ftruncate (fs s) (rv_tempf r2) 0\<rparr>\<rparr>) = r3"
    by (simp add: ta rv_seek_def r3_def f1(1))
  moreover have "\<exists>off f. copy_text (int (length (lg_text x))) 0 [] r3 = Some (r3\<lparr>rv_off := off, rv_srv := (rv_srv r3)\<lparr>fs := f\<rparr>\<rparr>) \<and>
    fdata f (rv_tempf r3) = fdata (fs (rv_srv r3)) (rv_tempf r3) @ lg_text x \<and> other_files (fs (rv_srv r3)) (rv_tempf r3) f"
    by (rule copy_text_ok) (use assms(1,4) f1 sl in \<open>simp_all add: r3_def saving_def\<close>)
  then obtain off f where "copy_text (int (length (lg_text x))) 0 [] r3 = Some (r2\<lparr>rv_off := off, rv_srv := s\<lparr>fs := f\<rparr>\<rparr>)"
    "fdata f (rv_tempf r) = lg_text x" "other_files f1 (rv_tempf r) f" using f1(2) assms(4) by (auto simp: r3_def)
  ultimately show ?thesis using other_files_trans [OF f1(5)] by (auto simp: x_def)
qed

lemma save_trn_ok:
  assumes sv: "saving location ln ch v sw at L i r" and log: "log_in v sw at L" "i < length L"
    and room: "1024 + (int i + 1) * int CHAIN_SIZE \<le> int ALIMIT"
  shows "\<exists>r'. save_trn (int (lg_addr (L ! i))) r = Some (None, r') \<and> saving location ln ch v sw at L (Suc i) r' \<and> rv_trn_pos r' = rv_trn_pos r"
proof -
  define x where "x = L ! i"
  define s where "s = rv_srv r"
  define th where "th = lg_hdr (int i + 1) (last_addr (take i L)) x"
  define r1 where "r1 = r\<lparr>rv_off := lg_addr x + HDR_SIZE, rv_th := th\<rparr>"
  have sc: "scans r v sw" "scans r1 v sw" "rv_th r1 = lg_hdr (int i + 1) (last_addr (take i L)) (L ! i)"
    using sv by (simp_all add: saving_def r1_def th_def x_def)
  have h: "read_trn_hdr (int (lg_addr x)) r = (None, r1)" using read_at_log(1) [OF sc(1) log] by (simp add: r1_def th_def x_def)
  obtain off where st: "read_strings r1 = Some ((lg_subject x, lg_author x, lg_sig x), r1\<lparr>rv_off := off\<rparr>)"
    using read_strings_log [OF sc(2) log sc(3)] by (auto simp: x_def)
  define r2 where "r2 = r1\<lparr>rv_off := off\<rparr>"
  have fields: "th_num_chars th = int (length (lg_text x))" "th_orig_pref th = lg_pref x" "th_current th = int i + 1"
    "th_date_entered th = lg_date x" by (simp_all add: th_def lg_hdr_def filed_hdr_def)
  have f2: "rv_th r2 = th" "rv_srv r2 = s" "rv_tempf r2 = rv_tempf r" "rv_location r2 = Some location" "rv_trnf r2 = rv_trnf r"
    using sv by (simp_all add: r2_def r1_def s_def saving_def)
  have "r2 = r\<lparr>rv_off := off, rv_th := th\<rparr>" by (simp add: r2_def r1_def)
  from temp_text [OF sv log this, of "last_addr (take i L)"] obtain f off2 where
    cp: "copy_text (int (length (lg_text x))) 0 [] (rv_seek (th_text_addr th) (r2\<lparr>rv_srv := s\<lparr>fs := sys_ftruncate (fs s) (rv_tempf r2) 0\<rparr>\<rparr>)) =
      Some (r2\<lparr>rv_off := off2, rv_srv := s\<lparr>fs := f\<rparr>\<rparr>)"
    and f: "other_files (fs s) (rv_tempf r) f" "fdata f (rv_tempf r) = lg_text x" by (auto simp: s_def x_def th_def)
  define s3 where "s3 = s\<lparr>fs := f, tf := Some (unix_tfile (rv_tempf r) f)\<rparr>"
  have up: "caught_up location ln ch at L i s" using sv by (simp add: saving_def s_def)
  have t: "rv_tempf r \<noteq> u_control_f s" "rv_tempf r \<noteq> u_trn_f s" "\<And>y. CHR ''/'' \<notin> set y \<Longrightarrow> map_of (links (fs s)) (location @ CHR ''/'' # y) \<noteq> Some (rv_tempf r)"
    "rv_trnf r \<noteq> u_control_f s" "rv_trnf r \<noteq> u_trn_f s" "rv_tempf r \<noteq> rv_trnf r" "fdata (fs s) (rv_trnf r) = v"
    using sv by (simp_all add: saving_def s_def scans_def)
  have "elsewhere location s s3"
    using f(1) caught_up_faults [OF up] t(1-3) by (simp add: elsewhere_def s3_def other_files_def) metis
  note up3 = caught_up_elsewhere [OF up this]
  have "tf s3 = Some (unix_tfile (rv_tempf r) (fs s3))" "rv_tempf r \<noteq> u_trn_f s3" "rv_tempf r \<noteq> u_control_f s3"
    "fdata (fs s3) (rv_tempf r) = lg_text (L ! i)" using t(1,2) f(2) by (simp_all add: s3_def x_def)
  from add_logged [OF up3 log room this, folded x_def] obtain n s' where
    ad: "add_trn_priv location (lg_subject x) (lg_sig x) (lg_pref x) (int i + 1) (lg_author x) (lg_date x) 0 s3 = Some (OK, n, s')"
      "caught_up location ln ch at L (Suc i) s'" "add_frame s3 (s'\<lparr>mtg_acl := mtg_acl s3, last_acl_mod := last_acl_mod s3\<rparr>)" by blast
  define s4 where "s4 = snd (tdestroy s')"
  have d: "fs s4 = fs s'" "u_control_f s4 = u_control_f s'" "u_trn_f s4 = u_trn_f s'" "elsewhere location s' s4"
    using caught_up_faults [OF ad(2)] by (simp_all add: s4_def tdestroy_def elsewhere_def split: option.split)
  define r' where "r' = r2\<lparr>rv_off := off2, rv_srv := s4\<rparr>"
  have "save_trn (int (lg_addr x)) r = Some (None, r')"
    using ad(1) cp by (simp add: save_trn_def and_then_def h st fields flip: r2_def, simp add: f2 fields s3_def r'_def s4_def)
  moreover have "saving location ln ch v sw at L (Suc i) r'"
  proof -
    have fr: "u_control_f s' = u_control_f s" "u_trn_f s' = u_trn_f s" "links (fs s') = links (fs s)"
      "\<And>d. d \<noteq> u_control_f s \<Longrightarrow> d \<noteq> u_trn_f s \<Longrightarrow> inodes (fs s') d = inodes f d"
      using ad(3) f(1) by (simp_all add: add_frame_def s3_def other_files_def)
    have "fdata (fs s') (rv_trnf r) = v" using fr(4) [OF t(4,5)] f(1) t(6,7) by (simp add: other_files_def)
    moreover have "rv_trnfsize r = int (length v)" "rv_do_byteswap r = sw" using sc(1) by (simp_all add: scans_def)
    ultimately show ?thesis
      using caught_up_elsewhere [OF ad(2) d(4)] t f2(4) fr by (simp add: saving_def scans_def r'_def d) (simp add: r2_def r1_def)
  qed
  ultimately show ?thesis by (auto simp: x_def r'_def r2_def r1_def)
qed

lemma save_all_ok:
  assumes "saving location ln ch v sw at L i r" and log: "log_in v sw at L" "0 < at" and "i \<le> length L"
    and room: "1024 + int (length L) * int CHAIN_SIZE \<le> int ALIMIT" and "rv_trn_pos r = 0 # map (\<lambda>x. int (lg_addr x)) L"
  shows "\<exists>r'. save_all junk [Suc i ..< Suc (length L)] r = Some (Some 0, r') \<and> saving location ln ch v sw at L (length L) r'"
  using assms(1,4,6)
proof (induction "length L - i" arbitrary: i r)
  case (Suc d)
  then have i: "i < length L" by simp
  have "0 < lg_addr (L ! i)" using log_rec(4) [OF log(1) i] log(2) by simp
  then have p: "rv_trn_pos r ! Suc i = int (lg_addr (L ! i))" "rv_trn_pos r ! Suc i \<noteq> 0" using Suc.prems(3) i by simp_all
  have "1024 + (int i + 1) * int CHAIN_SIZE \<le> int ALIMIT" using room i by (simp add: CHAIN_SIZE_def)
  from save_trn_ok [OF Suc.prems(1) log(1) i this] obtain r1 where
    r1: "save_trn (int (lg_addr (L ! i))) r = Some (None, r1)" "saving location ln ch v sw at L (Suc i) r1" "rv_trn_pos r1 = rv_trn_pos r" by blast
  have "d = length L - Suc i" using Suc.hyps(2) by simp
  from Suc.hyps(1) [OF this r1(2)] Suc.prems(3) i r1(3) obtain r' where rest:
    "save_all junk [Suc (Suc i) ..< Suc (length L)] r1 = Some (Some 0, r')" "saving location ln ch v sw at L (length L) r'"
    by (auto simp del: upt_Suc)
  have "[Suc i ..< Suc (length L)] = Suc i # [Suc (Suc i) ..< Suc (length L)]" using i by (simp add: upt_conv_Cons)
  with rest r1(1) p show ?case by (auto simp: and_then_def simp del: upt_Suc)
qed simp

subsection \<open>The start\<close>

text \<open>The beginning of a transaction file, as a machine of either byte order wrote it.\<close>

definition base_text :: "bool \<Rightarrow> string \<Rightarrow> string \<Rightarrow> int \<Rightarrow> int \<Rightarrow> bytes" where
  "base_text sw ln ch public date = enc_base (if sw then swap_trn_base (new_base ln ch public date) else new_base ln ch public date) @
     ln @ [NUL] @ ch @ [NUL]"

definition base_end :: "string \<Rightarrow> string \<Rightarrow> nat" where
  "base_end ln ch = BASE_SIZE + (length ln + 1) + (length ch + 1)"

text \<open>A transaction file from which the meeting can be made anew, with the records \<open>L\<close>.\<close>

definition backup :: "bytes \<Rightarrow> bool \<Rightarrow> string \<Rightarrow> string \<Rightarrow> int \<Rightarrow> int \<Rightarrow> logged list \<Rightarrow> bool" where
  "backup v sw ln ch public date L \<longleftrightarrow> take (base_end ln ch) v = base_text sw ln ch public date \<and> log_in v sw (base_end ln ch) L \<and>
     genuine v sw (base_end ln ch) L \<and> length v < 2 ^ 31 \<and> length ln \<le> 254 \<and> length ch \<le> 99 \<and>
     1024 + int (length L) * int CHAIN_SIZE \<le> int ALIMIT"

lemma length_base_text [simp]: "length (base_text sw ln ch public date) = base_end ln ch"
  by (simp add: base_text_def base_end_def)

lemma read_base_ok:
  assumes "backup v sw ln ch public date L" and "founding ln ch public date" and "fdata (fs (rv_srv r)) (rv_trnf r) = v"
  shows "read_base r = (None, r\<lparr>rv_tb := new_base ln ch public date, rv_do_byteswap := sw\<rparr>)"
proof -
  define tb where "tb = new_base ln ch public date"
  have b: "base_ok tb" using assms(2) base_fits(1) by (simp add: founding_def tb_def)
  have "take BASE_SIZE v = take BASE_SIZE (take (base_end ln ch) v)" by (simp add: base_end_def min_absorb1)
  also have "\<dots> = enc_base (if sw then swap_trn_base tb else tb)" using assms(1) by (simp add: backup_def base_text_def tb_def)
  finally have s: "sys_read (fs (rv_srv r)) (rv_trnf r) 0 BASE_SIZE = enc_base (if sw then swap_trn_base tb else tb)"
    using assms(3) by (simp add: sys_read_def slice_def)
  have d: "dec_base (enc_base (if sw then swap_trn_base tb else tb)) = (if sw then swap_trn_base tb else tb)" using b by (simp add: dec_enc_base)
  have u: "tb_unique tb = TRN_BASE_UNIQUE" "tb_version tb = TRN_BASE_1" by (simp_all add: tb_def new_base_def)
  show ?thesis
  proof (cases sw)
    case False
    with s d u show ?thesis by (simp add: read_base_def Let_def flip: tb_def)
  next
    case True
    have w: "tb_unique (swap_trn_base tb) \<noteq> TRN_BASE_UNIQUE" using u(1) by (simp add: swap_trn_base_def mtg_consts swap_32_def Let_def)
    have z: "S_base ((swap_trn_base tb)\<lparr>tb_unique := Slong (tb_unique (swap_trn_base tb))\<rparr>) = tb" using b by (simp add: S_base_swap)
    from arg_cong [OF z, of tb_unique] have "Slong (tb_unique (swap_trn_base tb)) = TRN_BASE_UNIQUE" using u(1) by (simp add: S_base_def)
    with s d u w z True show ?thesis by (simp add: read_base_def Let_def flip: tb_def)
  qed
qed

text \<open>The names are read, the meeting is created, and an empty one is all there is to do.\<close>

lemma read_header_ok:
  assumes bk: "backup v sw ln ch public date L" and dt: "fdata (fs (rv_srv r)) (rv_trnf r) = v" and sz: "rv_trnfsize r = int (length v)"
    and r: "rv_chairman r = None" "rv_mtg_name r = None" "rv_location r = Some location"
    and fd: "may_found junk location ln public date ch None ((rv_srv r)\<lparr>rpc_caller := ch\<rparr>)"
  shows "\<exists>s' sb c n. read_header junk r = Some (if L = [] then Some 0 else None,
      r\<lparr>rv_tb := new_base ln ch public date, rv_do_byteswap := sw, rv_chairman := c, rv_mtg_name := n, rv_srv := s'\<rparr>) \<and>
    new_mtg location ln ch public date sb s' \<and> founded location ((rv_srv r)\<lparr>rpc_caller := ch\<rparr>) s'"
proof -
  define tb where "tb = new_base ln ch public date"
  have fo: "founding ln ch public date" using fd by (simp add: may_found_def)
  then have f: "fits 4 date" "fits 2 public" "length ln + length ch \<le> 954" "c_ok ln" "c_ok ch" by (simp_all add: founding_def)
  note l = base_fits(2,3) [OF f(1-3), folded tb_def]
  have a: "tb_long_name_addr tb = int BASE_SIZE" "tb_chairman_addr tb = int (BASE_SIZE + (length ln + 1))"
    using l by (simp_all add: tb_def new_base_def)
  have v1: "take (base_end ln ch) v = base_text sw ln ch public date" using bk by (simp add: backup_def)
  from arg_cong [OF this, of length] have "base_end ln ch \<le> length v" by simp
  then have v: "take (base_end ln ch) v = base_text sw ln ch public date" "base_end ln ch \<le> length v" "length ln \<le> 254" "length ch \<le> 99"
    "length v < 2 ^ 31" using bk by (simp_all add: backup_def)
  have sl: "slice q n v = slice q n (base_text sw ln ch public date)" if "q + n \<le> base_end ln ch" for q n
    using that by (simp add: slice_def drop_take min_absorb1 flip: v(1))
  have nm: "slice BASE_SIZE (length ln + 1) v = ln @ [NUL]" "slice (BASE_SIZE + (length ln + 1)) (length ch + 1) v = ch @ [NUL]"
    by (subst sl, simp add: base_end_def, simp add: base_text_def slice_def)+
  define r1 where "r1 = r\<lparr>rv_tb := tb, rv_do_byteswap := sw\<rparr>"
  have rn: "read_name None (tb_long_name_len tb) (tb_long_name_addr tb) r1 = Some (None, Some (ln @ [NUL]))"
    "read_name None (tb_chairman_len tb) (tb_chairman_addr tb) r1 = Some (None, Some (ch @ [NUL]))"
    using v(3,4) nm dt by (simp_all add: read_name_def l a sys_read_def r1_def nat_add_distrib)
  from create_mtg_ok [OF fd] obtain s' sb where
    s': "create_mtg_priv junk location ln public date ch None ((rv_srv r)\<lparr>rpc_caller := ch\<rparr>) = Some (OK, s')"
      "new_mtg location ln ch public date sb s'" "founded location ((rv_srv r)\<lparr>rpc_caller := ch\<rparr>) s'" by blast
  have pos: "i32 (int BASE_SIZE + tb_long_name_len tb + tb_chairman_len tb) = int (base_end ln ch)"
    using v(2,5) by (simp add: l base_end_def signed_take_bit_int_eq_self)
  have empty: "base_end ln ch = length v \<longleftrightarrow> L = []"
  proof (cases "L = []")
    case False
    then have "0 < length L" by simp
    moreover have "log_in v sw (base_end ln ch) L" using bk by (simp add: backup_def)
    ultimately show ?thesis using log_rec(3,4) [of v sw "base_end ln ch" L 0] lg_len_ge [of "L ! 0"] by auto
  qed (use bk in \<open>simp add: backup_def genuine_def\<close>)
  have c: "c_string (Some (ch @ [NUL])) = Some ch" "c_string (Some (ln @ [NUL])) = Some ln" using f(4,5) by (simp_all add: c_string_def)
  have "make_mtg junk (r1\<lparr>rv_chairman := Some (ch @ [NUL]), rv_mtg_name := Some (ln @ [NUL])\<rparr>) = Some (if L = [] then Some 0 else None,
      r1\<lparr>rv_chairman := Some (ch @ [NUL]), rv_mtg_name := Some (ln @ [NUL]), rv_srv := s'\<rparr>)"
    using v(4) r(3) s'(1) pos empty sz by (simp add: make_mtg_def c r1_def) (simp add: tb_def new_base_def)
  then have "read_header junk r = Some (if L = [] then Some 0 else None,
      r1\<lparr>rv_chairman := Some (ch @ [NUL]), rv_mtg_name := Some (ln @ [NUL]), rv_srv := s'\<rparr>)"
    using rn r(1,2) read_base_ok [OF bk fo dt] by (simp add: read_header_def and_then_def r1_def flip: tb_def)
  with s'(2,3) show ?thesis unfolding r1_def tb_def by blast
qed

lemma new_journal:
  assumes "new_mtg location ln ch public date sb s"
  shows "journal (new_trns ln ch public date) s sb Map.empty []"
proof -
  from assms obtain sz where sb: "sb = laid_out (new_super public date sz) ln ch" by (auto simp: new_mtg_def)
  have "posts s Map.empty = Map.empty" by (simp add: posts_def fun_eq_iff)
  moreover have "fdata (fs s) (u_trn_f s) = new_trns ln ch public date" using assms by (simp add: new_mtg_def)
  moreover have "base_ok (new_base ln ch public date)" using assms base_fits(1) [of date public ln ch] by (simp add: new_mtg_def founding_def)
  from dec_enc_base [OF this] have "\<not> swapped_base (new_trns ln ch public date)"
    by (simp add: swapped_base_def new_trns_def new_base_def)
  ultimately show ?thesis using assms by (simp add: journal_def sb laid_out_def new_super_def last_addr_def new_mtg_def)
qed

lemma new_caught_up:
  assumes "new_mtg location ln ch public date sb s" and "has_privs s" and "rpc_caller s = ch"
  shows "caught_up location ln ch (base_end ln ch) L 0 s"
proof -
  have t: "length (fdata (fs s) (u_trn_f s)) = base_end ln ch" "c_ok ch"
    using assms(1) by (simp_all add: new_mtg_def new_trns_def base_end_def founding_def)
  from assms(1) obtain sz where sb: "sb = laid_out (new_super public date sz) ln ch" by (auto simp: new_mtg_def)
  have "journal (new_trns ln ch public date) s sb Map.empty []"
    by (rule new_journal [OF assms(1)])
  moreover have "live Map.empty = {}" by (simp add: live_def)
  moreover have "reopens location ln ch s sb Map.empty" using assms(1) by (auto simp: reopens_def)
  moreover have "ms_chain_start sb = 1024" by (simp add: sb laid_out_def new_super_def)
  ultimately have "\<exists>B sb m M. reopens location ln ch s sb m \<and> journal B s sb m M \<and> replay M = replay (take 0 L) \<and> live m = {1 .. int 0} \<and>
      ms_chain_start sb = 1024"
    by (intro exI [of _ "new_trns ln ch public date"] exI [of _ sb] exI [of _ "Map.empty"] exI [of _ "[]"]) simp
  then show ?thesis using assms(2,3) t unfolding caught_up_def by (simp add: log_end_def)
qed

text \<open>\<open>mktemp\<close> gives a name in the same directory that no file has.\<close>

definition mktemp_ok :: "(fsys \<Rightarrow> string \<Rightarrow> string) \<Rightarrow> bool" where
  "mktemp_ok mktemp \<longleftrightarrow> (\<forall>f x. map_of (links f) (mktemp f x) = None \<and> dir_of (mktemp f x) = dir_of x)"

lemma create_temp_ok:
  assumes "mktemp_ok mktemp" and "rv_temp_dir r = ''/tmp''" and "''/tmp'' \<in> set (dirs (fs (rv_srv r)))" and "location \<noteq> ''/tmp''"
    and "faults (fs (rv_srv r)) = []" and "u_control_f (rv_srv r) < next_ino (fs (rv_srv r))" and "u_trn_f (rv_srv r) < next_ino (fs (rv_srv r))"
    and "\<And>x d. map_of (links (fs (rv_srv r))) (location @ CHR ''/'' # x) = Some d \<Longrightarrow> d < next_ino (fs (rv_srv r))"
  defines "s \<equiv> rv_srv r"
  shows "\<exists>f. create_temp mktemp r = (None, r\<lparr>rv_tempf := next_ino (fs s), rv_srv := s\<lparr>fs := f\<rparr>\<rparr>) \<and> elsewhere location s (s\<lparr>fs := f\<rparr>) \<and>
    (\<forall>d < next_ino (fs s). inodes f d = inodes (fs s) d) \<and>
    (\<forall>x. CHR ''/'' \<notin> set x \<longrightarrow> map_of (links f) (location @ CHR ''/'' # x) \<noteq> Some (next_ino (fs s)))"
proof -
  define p where "p = mktemp (fs s) ''/tmp/rcXXXXXX''"
  have p: "map_of (links (fs s)) p = None" "dir_of p = ''/tmp''"
    using assms(1) by (simp_all add: mktemp_ok_def p_def) (simp add: dir_of_def)
  define f where "f = (fs s)\<lparr>links := (p, next_ino (fs s)) # links (fs s),
    inodes := (inodes (fs s))(next_ino (fs s) := \<lparr>i_data = [], i_uid = euid (fs s), i_mtime = now (fs s), i_errno = 0\<rparr>),
    next_ino := Suc (next_ino (fs s))\<rparr>"
  have "sys_create (fs s) p = Inr (next_ino (fs s), f)"
    using p assms(3) by (simp add: sys_create_def dir_exists_def f_def s_def)
  then have "create_temp mktemp r = (None, r\<lparr>rv_tempf := next_ino (fs s), rv_srv := s\<lparr>fs := f\<rparr>\<rparr>)"
    using p(1) assms(2) by (simp add: create_temp_def p_def s_def Let_def)
  moreover have ne: "p \<noteq> location @ CHR ''/'' # x" if "CHR ''/'' \<notin> set x" for x
    using dir_of_file [OF that] p(2) assms(4) by metis
  then have "elsewhere location s (s\<lparr>fs := f\<rparr>)"
    using assms(5-8) by (auto simp: elsewhere_def f_def s_def)
  moreover have "map_of (links f) (location @ CHR ''/'' # x) \<noteq> Some (next_ino (fs s))" if "CHR ''/'' \<notin> set x" for x
    using ne [OF that] assms(8) [of x] by (auto simp: f_def s_def)
  ultimately show ?thesis by (auto simp: f_def)
qed

subsection \<open>The whole\<close>

text \<open>The last record is found from the end of the file.\<close>

lemma last_ok:
  assumes bk: "backup v sw ln ch public date L" and ne: "L \<noteq> []" and sc: "scans r v sw"
  shows "read_last_trn r = Some (r\<lparr>rv_current_pos := last_addr L, rv_off := lg_addr (last L) + HDR_SIZE,
      rv_th := lg_hdr (int (length L)) (last_addr (butlast L)) (last L)\<rparr>)"
proof -
  define at where "at = base_end ln ch"
  have b: "log_in v sw at L" "genuine v sw at L" "length v < 2 ^ 31" "BASE_SIZE < at" using bk by (simp_all add: backup_def at_def base_end_def)
  have k: "length L - 1 < length L" "L ! (length L - 1) = last L" using ne by (simp_all add: last_conv_nth)
  have e: "lg_addr (last L) + 50 \<le> length v" using log_rec(3) [OF b(1) k(1)] lg_len_ge [of "last L"] k(2) by simp
  have cp: "i32 (rv_trnfsize r - int HDR_SIZE - 2) = int (length v - 50)"
    using sc e b(3) by (simp add: scans_def HDR_SIZE_def of_nat_diff signed_take_bit_int_eq_self)
  have "last_trn_loop (r\<lparr>rv_current_pos := int (length v - 50)\<rparr>) = Some ((r\<lparr>rv_current_pos := int (length v - 50)\<rparr>)
    \<lparr>rv_current_pos := int (lg_addr (last L)), rv_off := lg_addr (last L) + HDR_SIZE,
     rv_th := lg_hdr (int (length L)) (last_addr (butlast L)) (last L)\<rparr>)"
    by (rule last_trn_found [where p = "length v - 50", OF _ b(1,2) ne b(4)]) (use sc e in simp_all)
  then show ?thesis using ne by (simp add: read_last_trn_def cp last_addr_def)
qed

lemma lg_hdr_number: "th_current (lg_hdr n p x) = n" by (simp add: lg_hdr_def filed_hdr_def)

text \<open>The positions of all the records.\<close>

lemma positions_ok:
  assumes bk: "backup v sw ln ch public date L" and "L \<noteq> []" and "scans r v sw" and "th_current (rv_th r) = int (length L)"
    and "rv_current_pos r = last_addr L" and "cells (int (length L)) = Some room" and "length L < room"
  shows "\<exists>off th. find_positions cells r = Some (None, r\<lparr>rv_num_trns := int (length L), rv_off := off, rv_th := th, rv_current_pos := 0,
    rv_trn_pos := 0 # map (\<lambda>x. int (lg_addr x)) L\<rparr>)"
proof -
  have b: "log_in v sw (base_end ln ch) L" "0 < base_end ln ch" using bk by (simp_all add: backup_def base_end_def)
  define r2 where "r2 = r\<lparr>rv_num_trns := int (length L), rv_trn_pos := replicate (Suc (length L)) 0\<rparr>"
  have "\<exists>off th. fill_trn_pos room r2 = Some (None, r2\<lparr>rv_off := off, rv_th := th, rv_current_pos := 0, rv_trn_pos := 0 # map (\<lambda>x. int (lg_addr x)) L\<rparr>)"
    by (rule fill_log [where k = "length L", OF b(1) assms(7) b(2)]) (use assms in \<open>simp_all add: r2_def\<close>)
  moreover have "nat (int (length L) + 1) = Suc (length L)" by simp
  ultimately show ?thesis using assms(4,6,7) by (simp add: find_positions_def Let_def r2_def del: replicate_Suc)
qed

text \<open>From there on: the temporary file, and all the records.\<close>

lemma restore_ok:
  assumes bk: "backup v sw ln ch public date L" and "L \<noteq> []" and sc: "scans r v sw" and lo: "rv_location r = Some location"
    and nm: "new_mtg location ln ch public date sb (rv_srv r)" and fd: "founded location s (rv_srv r)" and s: "has_privs s" "rpc_caller s = ch"
    and d: "rv_trnf r < next_ino (fs s)" and tmp: "rv_temp_dir r = ''/tmp''" "''/tmp'' \<in> set (dirs (fs s))" "location \<noteq> ''/tmp''" "mktemp_ok mktemp"
    and pos: "rv_num_trns r = int (length L)" "rv_trn_pos r = 0 # map (\<lambda>x. int (lg_addr x)) L"
  shows "\<exists>r'. and_then (Some (create_temp mktemp r)) (\<lambda>r. save_all junk [1 ..< nat (rv_num_trns r) + 1] r) = Some (Some 0, r') \<and>
    saving location ln ch v sw (base_end ln ch) L (length L) r'"
proof -
  define at where "at = base_end ln ch"
  have b: "log_in v sw at L" "0 < at" "1024 + int (length L) * int CHAIN_SIZE \<le> int ALIMIT" using bk by (simp_all add: backup_def at_def base_end_def)
  have up: "caught_up location ln ch at L 0 (rv_srv r)"
    unfolding at_def by (rule new_caught_up [OF nm]) (use fd s in \<open>simp_all add: founded_def\<close>)
  have no: "u_control_f (rv_srv r) = next_ino (fs s)" "u_trn_f (rv_srv r) = Suc (next_ino (fs s))" "next_ino (fs (rv_srv r)) = next_ino (fs s) + 3"
    "dirs (fs (rv_srv r)) = location # dirs (fs s)" "\<And>x d. map_of (links (fs (rv_srv r))) (location @ CHR ''/'' # x) = Some d \<Longrightarrow> d < next_ino (fs (rv_srv r))"
    using fd by (auto simp: founded_def)
  have "\<exists>f. create_temp mktemp r = (None, r\<lparr>rv_tempf := next_ino (fs (rv_srv r)), rv_srv := (rv_srv r)\<lparr>fs := f\<rparr>\<rparr>) \<and>
    elsewhere location (rv_srv r) ((rv_srv r)\<lparr>fs := f\<rparr>) \<and> (\<forall>d < next_ino (fs (rv_srv r)). inodes f d = inodes (fs (rv_srv r)) d) \<and>
    (\<forall>x. CHR ''/'' \<notin> set x \<longrightarrow> map_of (links f) (location @ CHR ''/'' # x) \<noteq> Some (next_ino (fs (rv_srv r))))"
    by (rule create_temp_ok) (use tmp no caught_up_faults [OF up] in simp_all)
  then obtain f4 where t: "create_temp mktemp r = (None, r\<lparr>rv_tempf := next_ino (fs (rv_srv r)), rv_srv := (rv_srv r)\<lparr>fs := f4\<rparr>\<rparr>)"
    "elsewhere location (rv_srv r) ((rv_srv r)\<lparr>fs := f4\<rparr>)" "\<And>d. d < next_ino (fs (rv_srv r)) \<Longrightarrow> inodes f4 d = inodes (fs (rv_srv r)) d"
    "\<And>x. CHR ''/'' \<notin> set x \<Longrightarrow> map_of (links f4) (location @ CHR ''/'' # x) \<noteq> Some (next_ino (fs (rv_srv r)))" by auto
  define r4 where "r4 = r\<lparr>rv_tempf := next_ino (fs (rv_srv r)), rv_srv := (rv_srv r)\<lparr>fs := f4\<rparr>\<rparr>"
  have f4: "rv_trn_pos r4 = 0 # map (\<lambda>x. int (lg_addr x)) L" "rv_num_trns r4 = int (length L)" using pos by (simp_all add: r4_def)
  have sc4: "scans r4 v sw" using sc t(3) [of "rv_trnf r"] d no(3) by (simp add: scans_def r4_def)
  have "saving location ln ch v sw at L 0 r4"
    using sc4 lo t(4) caught_up_elsewhere [OF up t(2)] d no(1-3) by (simp add: saving_def) (simp add: r4_def)
  then obtain r' where "save_all junk [Suc 0 ..< Suc (length L)] r4 = Some (Some 0, r')" "saving location ln ch v sw at L (length L) r'"
    using save_all_ok [OF _ b(1,2) _ b(3), of location ln ch 0 r4 junk] f4(1) by auto
  with t(1) f4(2) show ?thesis by (auto simp: and_then_def at_def simp del: upt_Suc simp flip: r4_def)
qed

text \<open>
  A state in which the tool can work: the transaction file can be read, the new meeting can be created, and there is a place for a temporary file.
\<close>

definition can_recover :: "(fsys \<Rightarrow> string \<Rightarrow> string) \<Rightarrow> string \<Rightarrow> bytes \<Rightarrow> string \<Rightarrow> string \<Rightarrow> int \<Rightarrow> int \<Rightarrow> string \<Rightarrow> string \<Rightarrow> srv \<Rightarrow> bool" where
  "can_recover mktemp junk v ln ch public date trn_file location s \<longleftrightarrow>
     (\<exists>d. sys_open (fs s) trn_file = Inr d \<and> fdata (fs s) d = v \<and> d < next_ino (fs s)) \<and> take 1 trn_file \<noteq> ''-'' \<and>
     may_found junk location ln public date ch None (s\<lparr>has_privs := True, rpc_caller := ch\<rparr>) \<and>
     ''/tmp'' \<in> set (dirs (fs s)) \<and> mktemp_ok mktemp"

text \<open>What the program does up to the header of the last transaction.\<close>

lemma recover_begin:
  assumes bk: "backup v sw ln ch public date L" and cr: "can_recover mktemp junk v ln ch public date trn_file location s"
  shows "\<exists>r sb. recover cells mktemp junk junk_cb [trn_file, location] s =
      and_then (Some (if L = [] then Some 0 else None, r)) (\<lambda>r. do { r \<leftarrow> read_last_trn r;
          and_then (find_positions cells r) (\<lambda>r. and_then (Some (create_temp mktemp r)) (\<lambda>r.
          save_all junk_cb [1 ..< nat (rv_num_trns r) + 1] r)) }) \<and>
    scans r v sw \<and> rv_location r = Some location \<and> rv_temp_dir r = ''/tmp'' \<and> rv_trnf r < next_ino (fs s) \<and> location \<noteq> ''/tmp'' \<and>
    new_mtg location ln ch public date sb (rv_srv r) \<and> founded location (s\<lparr>has_privs := True, rpc_caller := ch\<rparr>) (rv_srv r)"
proof -
  from cr obtain d where d: "sys_open (fs s) trn_file = Inr d" "fdata (fs s) d = v" "d < next_ino (fs s)"
    and c: "take 1 trn_file \<noteq> ''-''" "may_found junk location ln public date ch None (s\<lparr>has_privs := True, rpc_caller := ch\<rparr>)"
      "''/tmp'' \<in> set (dirs (fs s))" by (auto simp: can_recover_def)
  define s1 where "s1 = s\<lparr>has_privs := True\<rparr>"
  have lc: "take 1 location \<noteq> ''-''" "location \<noteq> ''/tmp''"
    using c(2,3) by (auto simp: may_found_def vacant_def good_path_def) (cases location; simp)
  define r0 where "r0 = (rcv_start s1)\<lparr>rv_trn_file := Some trn_file, rv_location := Some location\<rparr>"
  have ar: "rv_args [trn_file, location] (rcv_start s1) = Some r0" using c(1) lc(1) by (simp add: r0_def rcv_start_def)
  have "length v < 2 ^ 31" using bk by (simp add: backup_def)
  then have sz: "fsize (fs s) d = int (length v)" using d(2) by (simp add: fsize_def signed_take_bit_int_eq_self)
  define r1 where "r1 = r0\<lparr>rv_trnf := d, rv_trnfsize := int (length v)\<rparr>"
  have f1: "rv_srv r1 = s1" "rv_trnf r1 = d" "fs s1 = fs s" "rv_location r1 = Some location" "rv_trnfsize r1 = int (length v)"
    "rv_temp_dir r1 = ''/tmp''" by (simp_all add: r1_def r0_def rcv_start_def s1_def)
  from read_header_ok [OF bk, of r1 location junk] d(2) c(2) obtain s' sb x n where
    h: "read_header junk r1 = Some (if L = [] then Some 0 else None,
      r1\<lparr>rv_tb := new_base ln ch public date, rv_do_byteswap := sw, rv_chairman := x, rv_mtg_name := n, rv_srv := s'\<rparr>)"
      "new_mtg location ln ch public date sb s'" "founded location (s1\<lparr>rpc_caller := ch\<rparr>) s'"
    by (auto simp: f1) (auto simp: r1_def r0_def rcv_start_def s1_def)
  define r2 where "r2 = r1\<lparr>rv_tb := new_base ln ch public date, rv_do_byteswap := sw, rv_chairman := x, rv_mtg_name := n, rv_srv := s'\<rparr>"
  have "recover cells mktemp junk junk_cb [trn_file, location] s = and_then (read_header junk r1) (\<lambda>r. do { r \<leftarrow> read_last_trn r;
          and_then (find_positions cells r) (\<lambda>r. and_then (Some (create_temp mktemp r)) (\<lambda>r.
          save_all junk_cb [1 ..< nat (rv_num_trns r) + 1] r)) })"
    unfolding recover_def Let_def s1_def [symmetric] ar using d(1) sz by (simp add: r0_def rcv_start_def s1_def r1_def)
  moreover have "inodes (fs s') d = inodes (fs s) d" using h(3) d(3) by (simp add: founded_def f1)
  then have "scans r2 v sw" using d(2) by (simp add: scans_def r2_def f1)
  ultimately show ?thesis
    using h d(3) lc(2) by (intro exI [of _ r2] exI [of _ sb]) (simp add: f1 r2_def s1_def)
qed

end
