(* ===== verification/Rescue.thy ===== *)
theory Rescue
  imports Recovery
begin

text \<open>
  What \<^verbatim>\<open>recover.c\<close> is worth: the meeting that it makes from a transaction file, and where it goes wrong.
\<close>

subsection \<open>The meeting made anew\<close>

lemma restored:
  assumes "backup v sw ln ch public date L" and "can_recover mktemp junk v ln ch public date trn_file location s"
    and "L \<noteq> [] \<Longrightarrow> cells (int (length L)) = Some room \<and> length L < room"
  shows "\<exists>r s0 sb m. recover cells mktemp junk junk_cb [trn_file, location] s = Some (Some 0, r) \<and>
    open_mtg location (rv_srv r) = Some (OK, s0) \<and> kept location ln ch s0 sb m \<and> posts s0 m = replayed L \<and> live m = {1 .. int (length L)}"
proof -
  from recover_begin [OF assms(1,2), of cells junk_cb] obtain r sb where rc: "recover cells mktemp junk junk_cb [trn_file, location] s =
      and_then (Some (if L = [] then Some 0 else None, r)) (\<lambda>r. do { r \<leftarrow> read_last_trn r;
          and_then (find_positions cells r) (\<lambda>r. and_then (Some (create_temp mktemp r)) (\<lambda>r.
          save_all junk_cb [1 ..< nat (rv_num_trns r) + 1] r)) })"
    and r: "scans r v sw" "rv_location r = Some location" "rv_temp_dir r = ''/tmp''" "rv_trnf r < next_ino (fs s)" "location \<noteq> ''/tmp''"
      "new_mtg location ln ch public date sb (rv_srv r)" "founded location (s\<lparr>has_privs := True, rpc_caller := ch\<rparr>) (rv_srv r)" by blast
  have "\<exists>r'. recover cells mktemp junk junk_cb [trn_file, location] s = Some (Some 0, r') \<and>
    caught_up location ln ch (base_end ln ch) L (length L) (rv_srv r')"
  proof (cases "L = []")
    case True
    have "caught_up location ln ch (base_end ln ch) L 0 (rv_srv r)"
      using r(7) by (intro new_caught_up [OF r(6)]) (simp_all add: founded_def)
    with True show ?thesis by (simp add: rc and_then_def)
  next
    case False
    note l = last_ok [OF assms(1) False r(1)]
    define r1 where "r1 = r\<lparr>rv_current_pos := last_addr L, rv_off := lg_addr (last L) + HDR_SIZE,
      rv_th := lg_hdr (int (length L)) (last_addr (butlast L)) (last L)\<rparr>"
    have "\<exists>off th. find_positions cells r1 = Some (None, r1\<lparr>rv_num_trns := int (length L), rv_off := off, rv_th := th, rv_current_pos := 0,
        rv_trn_pos := 0 # map (\<lambda>x. int (lg_addr x)) L\<rparr>)"
      by (rule positions_ok [where cells = cells and room = room and L = L, OF assms(1) False _ _ _ conjunct1 [OF assms(3) [OF False]] conjunct2 [OF assms(3) [OF False]]]) (use r(1) in \<open>simp_all add: r1_def lg_hdr_number\<close>)
    then obtain off th where p: "find_positions cells r1 = Some (None, r1\<lparr>rv_num_trns := int (length L), rv_off := off, rv_th := th,
      rv_current_pos := 0, rv_trn_pos := 0 # map (\<lambda>x. int (lg_addr x)) L\<rparr>)" by blast
    define r2 where "r2 = r1\<lparr>rv_num_trns := int (length L), rv_off := off, rv_th := th, rv_current_pos := 0,
      rv_trn_pos := 0 # map (\<lambda>x. int (lg_addr x)) L\<rparr>"
    have "\<exists>r'. and_then (Some (create_temp mktemp r2)) (\<lambda>r. save_all junk_cb [1 ..< nat (rv_num_trns r) + 1] r) = Some (Some 0, r') \<and>
        saving location ln ch v sw (base_end ln ch) L (length L) r'"
      by (rule restore_ok [OF assms(1) False, where s = "s\<lparr>has_privs := True, rpc_caller := ch\<rparr>" and sb = sb])
        (use r assms(2) in \<open>simp_all add: r2_def r1_def can_recover_def\<close>)
    with False l p show ?thesis by (auto simp: rc and_then_def saving_def simp flip: r1_def r2_def)
  qed
  then obtain r' where r': "recover cells mktemp junk junk_cb [trn_file, location] s = Some (Some 0, r')"
    "caught_up location ln ch (base_end ln ch) L (length L) (rv_srv r')" by blast
  then obtain B sb' m M where m: "reopens location ln ch (rv_srv r') sb' m" "journal B (rv_srv r') sb' m M" "replay M = replay L"
    "live m = {1 .. int (length L)}" by (auto simp: caught_up_def)
  from reopens_open [OF m(1)] obtain l mt f where
    o: "open_mtg location (rv_srv r') = Some (OK, (rv_srv r')\<lparr>u_acl_f := f, mtg_acl := l, last_acl_mod := mt\<rparr>)"
      "kept location ln ch ((rv_srv r')\<lparr>u_acl_f := f, mtg_acl := l, last_acl_mod := mt\<rparr>) sb' m" by blast
  have "posts ((rv_srv r')\<lparr>u_acl_f := f, mtg_acl := l, last_acl_mod := mt\<rparr>) m = posts (rv_srv r') m"
    using in_file_same(1) [of "(rv_srv r')\<lparr>u_acl_f := f, mtg_acl := l, last_acl_mod := mt\<rparr>" "rv_srv r'"] by (simp add: posts_def fun_eq_iff)
  moreover have "posts (rv_srv r') m = replayed L" using m(2,3) by (simp add: journal_def replayed_def)
  ultimately show ?thesis using r'(1) o m(4) by (metis (no_types, lifting))
qed

text \<open>With no element more than was asked for, the last position is written behind the block.\<close>

lemma overrun:
  assumes "backup v sw ln ch public date L" and "can_recover mktemp junk v ln ch public date trn_file location s"
    and "L \<noteq> []" and "cells (int (length L)) = Some (length L)"
  shows "recover cells mktemp junk junk_cb [trn_file, location] s = None"
proof -
  from recover_begin [OF assms(1,2), of cells junk_cb] obtain r where rc: "recover cells mktemp junk junk_cb [trn_file, location] s =
      and_then (Some (None, r)) (\<lambda>r. do { r \<leftarrow> read_last_trn r;
          and_then (find_positions cells r) (\<lambda>r. and_then (Some (create_temp mktemp r)) (\<lambda>r.
          save_all junk_cb [1 ..< nat (rv_num_trns r) + 1] r)) })" and sc: "scans r v sw"
    using assms(3) by auto
  from last_ok [OF assms(1,3) sc] assms(4) show ?thesis
    by (simp add: rc and_then_def find_positions_def lg_hdr_number Let_def)
qed

text \<open>A file with one record, in a directory with a place for temporary files.\<close>

definition saved_rec :: logged where
  "saved_rec = \<lparr>lg_addr = base_end ''new'' ''srz'', lg_pref = 0, lg_date = 9, lg_subject = ''Hi'', lg_author = ''srz'', lg_sig = None,
     lg_text = ''x''\<rparr>"

definition saved_trns :: bytes where
  "saved_trns = base_text False ''new'' ''srz'' 1 7 @ lg_bytes False 1 0 saved_rec"

definition saved_on :: "bytes \<Rightarrow> srv" where
  "saved_on v = demo_srv\<lparr>fs := demo_mtg_fs\<lparr>dirs := [''/m'', ''/tmp''], links := (''/trns'', 4) # links demo_mtg_fs,
     inodes := (inodes demo_mtg_fs)(4 := \<lparr>i_data = v, i_uid = 7, i_mtime = 1, i_errno = 0\<rparr>), next_ino := 5\<rparr>\<rparr>"

definition longest_name :: "fsys \<Rightarrow> string \<Rightarrow> string" where
  "longest_name f x = dir_of x @ ''/'' @ replicate (Suc (sum_list (map (\<lambda>l. length (fst l)) (links f)))) CHR ''a''"

lemma longest_name_ok: "mktemp_ok longest_name"
proof -
  have "map_of (links f) (longest_name f x) = None" for f x
  proof (rule ccontr)
    assume "map_of (links f) (longest_name f x) \<noteq> None"
    then obtain d where "(longest_name f x, d) \<in> set (links f)" by (auto dest: map_of_SomeD)
    then have "length (longest_name f x) \<in> set (map (\<lambda>l. length (fst l)) (links f))" by force
    from member_le_sum_list [OF this] show False by (simp add: longest_name_def)
  qed
  moreover have "dir_of (longest_name f x) = dir_of x" for f x
    using dir_of_file [of "replicate (Suc (sum_list (map (\<lambda>l. length (fst l)) (links f)))) CHR ''a''" "dir_of x"]
    by (simp add: longest_name_def)
  ultimately show ?thesis by (simp add: mktemp_ok_def)
qed

lemma saved_can_recover: "can_recover longest_name [] v ''new'' ''srz'' 1 7 ''/trns'' ''/n'' (saved_on v)"
proof -
  have "may_found [] ''/n'' ''new'' 1 7 ''srz'' None ((saved_on v)\<lparr>has_privs := True, rpc_caller := ''srz''\<rparr>)"
    by (simp add: may_found_def founding_def vacant_def good_path_def may_create_def dir_exists_def dir_of_def fits_def c_ok_def
        saved_on_def demo_srv_def demo_mtg_fs_def create_acl_def acl_add_access_def acl_create_def acl_insert_def entry_ok_def
        chairman_modes_def public_modes_def)
  then show ?thesis using longest_name_ok by (simp add: can_recover_def) (simp add: saved_on_def demo_srv_def demo_mtg_fs_def sys_open_def)
qed

lemma saved_lengths: "length saved_trns = 92" "base_end ''new'' ''srz'' = 36" "lg_addr saved_rec = base_end ''new'' ''srz''"
  by (simp_all add: saved_trns_def) (simp_all add: saved_rec_def lg_len_def author_text_def base_end_def mtg_layout)

lemma saved_unsafe:
  "\<forall>k \<in> set [1 ..< 7]. \<not> safe_hdr (dec_hdr (slice k HDR_SIZE (lg_bytes False 1 0 saved_rec))) 92"
  by code_simp

lemma saved_genuine: "genuine saved_trns False (base_end ''new'' ''srz'') [saved_rec]"
proof -
  have "\<not> safe_hdr (hdr_at saved_trns False q) (int (length saved_trns))"
    if q: "base_end ''new'' ''srz'' + 1 \<le> q" "q < base_end ''new'' ''srz'' + 7" for q
  proof -
    define k where "k = q - base_end ''new'' ''srz''"
    from q have k: "q = base_end ''new'' ''srz'' + k" "k \<in> set [1 ..< 7]" by (auto simp: k_def)
    have "slice q HDR_SIZE saved_trns = slice k HDR_SIZE (lg_bytes False 1 0 saved_rec)"
      by (simp add: saved_trns_def slice_def k(1))
    with bspec [OF saved_unsafe k(2)] show ?thesis by (simp add: hdr_at_def saved_lengths)
  qed
  then show ?thesis by (simp add: genuine_def saved_lengths)
qed

lemma saved_backup: "backup saved_trns False ''new'' ''srz'' 1 7 [saved_rec]"
proof -
  have e: "base_end ''new'' ''srz'' = length (base_text False ''new'' ''srz'' 1 7)" by simp
  have "take (base_end ''new'' ''srz'') saved_trns = base_text False ''new'' ''srz'' 1 7" by (simp add: saved_trns_def)
  moreover have "rec_in saved_trns False (base_end ''new'' ''srz'') [saved_rec] 0"
    by (simp add: rec_in_def Let_def log_end_def last_addr_def saved_trns_def slice_def lg_ok_def record_fits_def c_ok_def fits_def)
      (simp add: saved_rec_def author_text_def base_end_def mtg_layout)
  then have "log_in saved_trns False (base_end ''new'' ''srz'') [saved_rec]" by (simp add: log_in_def)
  ultimately show ?thesis
    using saved_genuine by (simp add: backup_def) (simp add: saved_trns_def lg_len_def saved_rec_def author_text_def base_end_def mtg_layout ALIMIT_def)
qed

text \<open>
  C7. A meeting is made anew from its transaction file, or the program runs over its array.  \<open>backup\<close> is a file with the records of a
  journal, all of its fields fitting their widths, with nothing in the last record behind its start that looks like a header;
  \<open>can_recover\<close> is an ordinary place for the new meeting.  \<open>malloc\<close> gives a block for at least as many positions as
  were asked for.  When there is a transaction and the block is no longer than that, the program writes behind it.  Otherwise it ends
  with status 0; the new meeting can be opened, is in order, and its entries are those of the records, all of them shown.
\<close>

theorem recover_rebuilds:
  assumes "backup v sw ln ch public date L" and "can_recover mktemp junk v ln ch public date trn_file location s"
    and "cells (int (length L)) = Some room" and "length L \<le> room"
  shows "if L \<noteq> [] \<and> room = length L then recover cells mktemp junk junk_cb [trn_file, location] s = None
    else \<exists>r s0 sb m. recover cells mktemp junk junk_cb [trn_file, location] s = Some (Some 0, r) \<and>
      open_mtg location (rv_srv r) = Some (OK, s0) \<and> kept location ln ch s0 sb m \<and> posts s0 m = replayed L \<and> live m = {1 .. int (length L)}"
proof (cases "L \<noteq> [] \<and> room = length L")
  case True
  with overrun [OF assms(1,2)] assms(3) show ?thesis by simp
next
  case False
  have "\<exists>r s0 sb m. recover cells mktemp junk junk_cb [trn_file, location] s = Some (Some 0, r) \<and>
      open_mtg location (rv_srv r) = Some (OK, s0) \<and> kept location ln ch s0 sb m \<and> posts s0 m = replayed L \<and> live m = {1 .. int (length L)}"
    by (rule restored [where cells = cells and room = room, OF assms(1,2)]) (use False assms(3,4) in auto)
  then show ?thesis unfolding if_not_P [OF False] .
qed

theorem recover_rebuilds_witness:
  "(\<exists>r s0 sb m. recover (\<lambda>n. Some (nat n + 2)) longest_name [] demo_1 [''/trns'', ''/n''] (saved_on saved_trns) = Some (Some 0, r) \<and>
     open_mtg ''/n'' (rv_srv r) = Some (OK, s0) \<and> kept ''/n'' ''new'' ''srz'' s0 sb m \<and> posts s0 m = [1 \<mapsto> \<lparr>en_subject = ''Hi'', en_author = ''srz'',
       en_signature = ''srz'', en_text = ''x'', en_chain = 1\<rparr>] \<and> live m = {1}) \<and>
   recover (\<lambda>n. Some (nat n)) longest_name [] demo_1 [''/trns'', ''/n''] (saved_on saved_trns) = None"
proof -
  have "replayed [saved_rec] = [1 \<mapsto> \<lparr>en_subject = ''Hi'', en_author = ''srz'', en_signature = ''srz'', en_text = ''x'', en_chain = 1\<rparr>]"
    by (simp add: replayed_def replay_def saved_rec_def lg_entry_def)
  moreover have "{1 .. int (length [saved_rec])} = {1}" by simp
  ultimately show ?thesis
    using recover_rebuilds [OF saved_backup saved_can_recover, of "\<lambda>n. Some (nat n + 2)" 3 demo_1]
      recover_rebuilds [OF saved_backup saved_can_recover, of "\<lambda>n. Some (nat n)" 1 demo_1] by simp
qed

subsection \<open>A word too few\<close>



subsection \<open>From the service to the new meeting\<close>

text \<open>The transaction file of a meeting holds the journal of what it has served.\<close>

lemma service_journal:
  assumes "may_found junk location ln public date ch acl s" and "create_mtg_priv junk location ln public date ch acl s = Some (OK, s1)"
    and "open_mtg location s1 = Some (OK, s2)" and "serves location s2 tr s3"
  shows "\<exists>sb m L. kept location ln ch s3 sb m \<and> posts s3 m = replayed L \<and>
    take (base_end ln ch) (fdata (fs s3) (u_trn_f s3)) = base_text False ln ch public date \<and>
    log_in (fdata (fs s3) (u_trn_f s3)) False (base_end ln ch) L"
proof -
  from create_mtg_ok [OF assms(1)] assms(2) obtain sb where n: "new_mtg location ln ch public date sb s1" by auto
  from open_new [OF n] assms(3) obtain l mt f where
    s2: "s2 = s1\<lparr>u_acl_f := f, mtg_acl := l, last_acl_mod := mt\<rparr>" and k: "kept location ln ch s2 sb Map.empty" by auto
  define B where "B = new_trns ln ch public date"
  have b: "length B = base_end ln ch" "B = base_text False ln ch public date"
    by (simp_all add: B_def new_trns_def base_text_def base_end_def)
  have "posts s2 Map.empty = posts s1 Map.empty" by (simp add: posts_def fun_eq_iff)
  then have j: "journal B s2 sb Map.empty []"
    using new_journal [OF n] journal_same [of B s1 sb Map.empty "[]" s2 Map.empty sb] by (simp add: B_def s2)
  from serves_run [OF assms(4) k] j obtain sb' m' M where
    m: "kept location ln ch s3 sb' m'" "journal B s3 sb' m' M" by (metis append_Nil)
  from j m(2) n have "\<not> mtg_swapped s3" by (simp add: journal_def new_mtg_def s2)
  moreover from m(2) have "log_in (fdata (fs s3) (u_trn_f s3)) (mtg_swapped s3) (length B) M" "posts s3 m' = replayed M"
      "take (length B) (fdata (fs s3) (u_trn_f s3)) = B" by (simp_all add: journal_def replayed_def)
  ultimately show ?thesis
    using m(1) unfolding b(1) b(2) by (intro exI [of _ sb'] exI [of _ m'] exI [of _ M]) simp
qed

text \<open>
  C6. What a meeting has served can be recovered, if the program's array is not overrun.  After any sequence of calls on a meeting that the
  server created, with a name and a chairman of at most 254 and 99 characters, its transaction file holds one record per entry.  Take such a
  file, of fewer than 2 GB and for fewer blocks than 16 bit numbers can address, with nothing in its last record behind its start that looks
  like a header (\<open>genuine\<close>), and an ordinary place for the new meeting.  \<open>malloc\<close> gives at least the positions that were asked
  for.  When it gives no more than that and there is an entry, the program writes behind the block; otherwise it makes a meeting with the
  same entries.
\<close>

theorem service_recovered:
  assumes "may_found junk location ln public date ch acl s" and "create_mtg_priv junk location ln public date ch acl s = Some (OK, s1)"
    and "open_mtg location s1 = Some (OK, s2)" and "serves location s2 tr s3" and "length ln \<le> 254" and "length ch \<le> 99"
    and "fdata (fs s3) (u_trn_f s3) = v" and "length v < 2 ^ 31"
  shows "\<exists>sb m L. kept location ln ch s3 sb m \<and> posts s3 m = replayed L \<and> log_in v False (base_end ln ch) L \<and>
    (\<forall>cells room mktemp mem junk_cb trn_file place z. genuine v False (base_end ln ch) L \<and>
       1024 + int (length L) * int CHAIN_SIZE \<le> int ALIMIT \<and> can_recover mktemp mem v ln ch public date trn_file place z \<and>
       cells (int (length L)) = Some room \<and> length L \<le> room \<longrightarrow>
       (if L \<noteq> [] \<and> room = length L then recover cells mktemp mem junk_cb [trn_file, place] z = None
        else \<exists>r s4 sb' m'. recover cells mktemp mem junk_cb [trn_file, place] z = Some (Some 0, r) \<and>
          open_mtg place (rv_srv r) = Some (OK, s4) \<and> kept place ln ch s4 sb' m' \<and> posts s4 m' = posts s3 m))"
proof -
  from service_journal [OF assms(1-4)] obtain sb m L where
    m: "kept location ln ch s3 sb m" "posts s3 m = replayed L" "take (base_end ln ch) v = base_text False ln ch public date"
      "log_in v False (base_end ln ch) L" unfolding assms(7) by blast
  have b: "backup v False ln ch public date L"
    if "genuine v False (base_end ln ch) L" "1024 + int (length L) * int CHAIN_SIZE \<le> int ALIMIT"
    using m(3,4) that assms(5,6,8) by (simp add: backup_def)
  have "if L \<noteq> [] \<and> room = length L then recover cells mktemp mem junk_cb [trn_file, place] z = None
      else \<exists>r s4 sb' m'. recover cells mktemp mem junk_cb [trn_file, place] z = Some (Some 0, r) \<and>
        open_mtg place (rv_srv r) = Some (OK, s4) \<and> kept place ln ch s4 sb' m' \<and> posts s4 m' = posts s3 m"
    if g: "genuine v False (base_end ln ch) L" "1024 + int (length L) * int CHAIN_SIZE \<le> int ALIMIT"
      "can_recover mktemp mem v ln ch public date trn_file place z" "cells (int (length L)) = Some room" "length L \<le> room"
    for cells room mktemp mem junk_cb trn_file place z
  proof (cases "L \<noteq> [] \<and> room = length L")
    case True
    with overrun [OF b [OF g(1,2)] g(3)] g(4) show ?thesis by simp
  next
    case False
    have "\<exists>r s0 sb m. recover cells mktemp mem junk_cb [trn_file, place] z = Some (Some 0, r) \<and>
        open_mtg place (rv_srv r) = Some (OK, s0) \<and> kept place ln ch s0 sb m \<and> posts s0 m = replayed L \<and> live m = {1 .. int (length L)}"
      by (rule restored [where cells = cells and room = room, OF b [OF g(1,2)] g(3)]) (use False g(4,5) in auto)
    then show ?thesis unfolding if_not_P [OF False] m(2) by blast
  qed
  then show ?thesis using m(1,2,4) by blast
qed

theorem service_recovered_witness:
  "\<exists>s1 s2 r s4 sb m. create_mtg_priv [] ''/n'' ''new'' 1 7 ''srz'' None (demo_srv\<lparr>has_privs := True\<rparr>) = Some (OK, s1) \<and>
     open_mtg ''/n'' s1 = Some (OK, s2) \<and>
     recover (\<lambda>n. Some (nat n + 1)) longest_name [] demo_1 [''/trns'', ''/n''] (saved_on (fdata (fs s2) (u_trn_f s2))) = Some (Some 0, r) \<and>
     open_mtg ''/n'' (rv_srv r) = Some (OK, s4) \<and> kept ''/n'' ''new'' ''srz'' s4 sb m \<and> posts s4 m = Map.empty"
proof -
  from create_mtg_ok [OF may_found_demo] obtain s1 sb where
    s1: "create_mtg_priv [] ''/n'' ''new'' 1 7 ''srz'' None (demo_srv\<lparr>has_privs := True\<rparr>) = Some (OK, s1)"
      "new_mtg ''/n'' ''new'' ''srz'' 1 7 sb s1" by blast
  from open_new [OF s1(2)] obtain l mt f where
    s2: "open_mtg ''/n'' s1 = Some (OK, s1\<lparr>u_acl_f := f, mtg_acl := l, last_acl_mod := mt\<rparr>)" by blast
  define s2' where "s2' = s1\<lparr>u_acl_f := f, mtg_acl := l, last_acl_mod := mt\<rparr>"
  have v: "length (fdata (fs s2') (u_trn_f s2')) = base_end ''new'' ''srz''" "base_end ''new'' ''srz'' = 36"
    using s1(2) by (simp_all add: new_mtg_def s2'_def new_trns_def base_end_def BASE_SIZE_def)
  have "length (fdata (fs s2') (u_trn_f s2')) < 2 ^ 31" "length ''new'' \<le> 254" "length ''srz'' \<le> 99" using v by simp_all
  from service_recovered [OF may_found_demo s1(1) s2 [folded s2'_def] serves_none this(2,3) refl this(1)] obtain m L where
    m: "posts s2' m = replayed L" "log_in (fdata (fs s2') (u_trn_f s2')) False (base_end ''new'' ''srz'') L" and
    rc: "\<And>cells room mktemp mem junk_cb trn_file place z. genuine (fdata (fs s2') (u_trn_f s2')) False (base_end ''new'' ''srz'') L \<Longrightarrow>
       1024 + int (length L) * int CHAIN_SIZE \<le> int ALIMIT \<Longrightarrow>
       can_recover mktemp mem (fdata (fs s2') (u_trn_f s2')) ''new'' ''srz'' 1 7 trn_file place z \<Longrightarrow>
       cells (int (length L)) = Some room \<Longrightarrow> length L \<le> room \<Longrightarrow>
       if L \<noteq> [] \<and> room = length L then recover cells mktemp mem junk_cb [trn_file, place] z = None
       else \<exists>r s4 sb' m'. recover cells mktemp mem junk_cb [trn_file, place] z = Some (Some 0, r) \<and>
          open_mtg place (rv_srv r) = Some (OK, s4) \<and> kept place ''new'' ''srz'' s4 sb' m' \<and> posts s4 m' = posts s2' m" by blast
  have L: "L = []"
    using log_size [OF m(2)] log_in_end [OF m(2)] v by (cases L) simp_all
  have "genuine (fdata (fs s2') (u_trn_f s2')) False (base_end ''new'' ''srz'') L" using v L by (simp add: genuine_def)
  from rc [OF this _ saved_can_recover, of "\<lambda>n. Some (nat n + 1)" 1 demo_1] L m(1) s1(1) s2 show ?thesis
    by (auto simp: ALIMIT_def replayed_def s2'_def)
qed

end
