(* ===== verification/Dsname.thy ===== *)
theory Dsname
  imports Acl Tfile
begin

unbundle bit_operations_syntax

text \<open>
  The user's list of meetings, \<^verbatim>\<open>athena/bin/discuss/libds/dsname.c\<close>: a file with a line for each meeting that the user attends,
  with the last transaction that he has seen there.  The clients look meetings up by name and write back what has changed.

  The record \<open>dsdb\<close> has a field for each static variable.  What the program finds around it is the record \<open>env\<close>: the password entry and
  the two environment variables, and what the C library does with its output: \<open>e_spill n\<close> says whether the \<open>n\<close>-th call of \<open>fprintf\<close>
  makes it write its buffer, \<open>e_fsync\<close> and \<open>e_fclose\<close> whether these calls succeed.  A name block that a caller passes
  has no null pointers in it.
\<close>

subsection \<open>Data\<close>

text \<open>A pointer to memory from \<open>malloc\<close>.\<close>

datatype cptr = Null | Str string | Dangling

record server_name_blk =
  sb_hostname :: cptr
  sb_pathname :: cptr
  sb_alias_list :: cptr
  sb_spare :: cptr
  sb_user_id :: "string option"
  sb_status :: int
  sb_date_attended :: int
  sb_last :: int

record name_blk =
  nb_hostname :: string
  nb_pathname :: string
  nb_user_id :: string
  nb_aliases :: "string list"
  nb_spare :: string
  nb_status :: int
  nb_date_attended :: int
  nb_last :: int

record dsdb =
  ds_fs :: fsys
  ds_errno :: code
  db :: "bytes option" \<comment> \<open>what is still to be read\<close>
  db_file :: "string option"
  db_user_id :: "string option"
  current :: server_name_blk
  disrcfile :: "string option"

record env =
  e_pw_dir :: "string option" \<comment> \<open>\<open>None\<close> when \<open>getpwuid\<close> finds no entry\<close>
  e_meetings :: "string option"
  e_home :: "string option"
  e_spill :: "nat \<Rightarrow> bool"
  e_fsync :: bool
  e_fclose :: bool

definition DSC_ST_DELETED :: int where "DSC_ST_DELETED = 2"

definition mtgs :: string where "mtgs = ''/.meetings''"

text \<open>\<open>if (p) free (p)\<close>\<close>

definition cfree :: "cptr \<Rightarrow> cptr option" where
  "cfree p = (case p of Null \<Rightarrow> Some Null | Str _ \<Rightarrow> Some Dangling | Dangling \<Rightarrow> None)"

text \<open>Reading through a pointer.\<close>

definition deref :: "cptr \<Rightarrow> string option" where
  "deref p = (case p of Str s \<Rightarrow> Some s | _ \<Rightarrow> None)"

text \<open>\<open>atoi\<close> and \<open>printf ("%d")\<close>.  The result of \<open>atoi\<close> is undefined for a number that is no \<open>int\<close>.\<close>

definition is_space :: "char \<Rightarrow> bool" where
  "is_space c \<longleftrightarrow> c \<in> {CHR '' '', CHR 0x09, CHR 0x0A, CHR 0x0B, CHR 0x0C, CHR 0x0D}"

definition atoi_int :: "string \<Rightarrow> int option" where
  "atoi_int s =
     (let t = dropWhile is_space s;
          n = (if take 1 t = ''-'' then - int (atoi (drop 1 t)) else if take 1 t = ''+'' then int (atoi (drop 1 t)) else int (atoi t))
      in if - (2 ^ 31) \<le> n \<and> n < 2 ^ 31 then Some n else None)"

definition int_text :: "int \<Rightarrow> string" where
  "int_text i = (if i < 0 then ''-'' @ decimal (nat (- i)) else decimal (nat i))"

subsection \<open>The file\<close>

text \<open>\<open>access\<close> for reading and writing is modelled as an \<open>open\<close> that succeeds.\<close>

definition find_rc_filename :: "env \<Rightarrow> dsdb \<Rightarrow> (code \<times> dsdb) option" where
  "find_rc_filename e d =
     (if disrcfile d \<noteq> None then Some (OK, d)
      else case e_pw_dir e of
        None \<Rightarrow> Some (NO_SUCH_USER, d)
      | Some dir \<Rightarrow>
          let name = (case e_meetings e of Some cp \<Rightarrow> cp
                      | None \<Rightarrow> (case e_home e of Some cp \<Rightarrow> cp @ mtgs | None \<Rightarrow> dir @ mtgs))
          in if length name \<ge> MAXPATHLEN then None
             else (case sys_open (ds_fs d) name of
                     Inl x \<Rightarrow> Some (ERRNO x, d)
                   | Inr _ \<Rightarrow> Some (OK, d\<lparr>disrcfile := Some name\<rparr>)))"

definition clear_current :: "dsdb \<Rightarrow> dsdb option" where
  "clear_current d =
     (let c = current d in
      if Dangling \<in> {sb_hostname c, sb_pathname c, sb_alias_list c, sb_spare c} then None
      else Some (d\<lparr>current := c\<lparr>sb_hostname := Null, sb_pathname := Null, sb_alias_list := Null, sb_spare := Null\<rparr>\<rparr>))"

definition enddbent :: "dsdb \<Rightarrow> dsdb option" where
  "enddbent d = clear_current (if db d \<noteq> None then d\<lparr>db := None, db_file := None, db_user_id := None\<rparr> else d)"

definition setdbent :: "env \<Rightarrow> string option \<Rightarrow> dsdb \<Rightarrow> (code \<times> dsdb) option" where
  "setdbent e user_id d =
     do { d \<leftarrow> enddbent d;
          (c, d) \<leftarrow> (if disrcfile d = None then find_rc_filename e d else Some (OK, d));
          if c \<noteq> OK then Some (c, d) else
          let file_name = the (disrcfile d); d = d\<lparr>db_file := Some file_name\<rparr>; user = (case user_id of None \<Rightarrow> [] | Some u \<Rightarrow> u) in
          (case sys_open (ds_fs d) file_name of
             Inl x \<Rightarrow> Some (ERRNO x, d)
           | Inr i \<Rightarrow> Some (OK, d\<lparr>db := Some (fdata (ds_fs d) i), db_user_id := Some user,
                                 current := (current d)\<lparr>sb_user_id := Some user\<rparr>\<rparr>)) }"

subsection \<open>Reading a line\<close>

text \<open>The text behind the next colon.\<close>

definition after_colon :: "string \<Rightarrow> string option" where
  "after_colon s = (case dropWhile (\<lambda>c. c \<noteq> CHR '':'') s of [] \<Rightarrow> None | _ # r \<Rightarrow> Some r)"

text \<open>
  A field with a string: the old string is freed first, and without a colon the pointer stays as it is.  The results: the pointer, and the text
  behind the field, or \<open>None\<close> for \<open>goto bad_fmt\<close>.
\<close>

definition string_field :: "cptr \<Rightarrow> string \<Rightarrow> (cptr \<times> string option) option" where
  "string_field p s =
     do { p \<leftarrow> cfree p;
          Some (case after_colon s of None \<Rightarrow> (p, None) | Some r \<Rightarrow> (Str (takeWhile (\<lambda>c. c \<noteq> CHR '':'') s), Some r)) }"

definition int_field :: "string \<Rightarrow> (int \<times> string option) option" where
  "int_field s = map_option (\<lambda>n. (n, after_colon s)) (atoi_int s)"

definition bad_fmt :: "server_name_blk \<Rightarrow> dsdb \<Rightarrow> (int \<times> dsdb) option" where
  "bad_fmt c d = Some (-1, d\<lparr>current := c, ds_errno := BAD_MTGS_FILE\<rparr>)"

definition getdbent :: "dsdb \<Rightarrow> (int \<times> dsdb) option" where
  "getdbent d =
     (case db d of
        None \<Rightarrow> Some (0, d\<lparr>ds_errno := NO_MTGS_FILE\<rparr>)
      | Some bs \<Rightarrow>
          (case fgets BUFSIZ bs of
             None \<Rightarrow> Some (0, d)
           | Some (buffer, rest) \<Rightarrow>
               let d = d\<lparr>db := Some rest\<rparr>; c = current d; bufp = takeWhile (\<lambda>c. c \<noteq> NL) buffer in
               do { (n, b) \<leftarrow> int_field bufp; let c = c\<lparr>sb_status := n\<rparr>;
                    case b of None \<Rightarrow> bad_fmt c d | Some bufp \<Rightarrow>
               do { (n, b) \<leftarrow> int_field bufp; let c = c\<lparr>sb_date_attended := n\<rparr>;
                    case b of None \<Rightarrow> bad_fmt c d | Some bufp \<Rightarrow>
               do { (n, b) \<leftarrow> int_field bufp; let c = c\<lparr>sb_last := n\<rparr>;
                    case b of None \<Rightarrow> bad_fmt c d | Some bufp \<Rightarrow>
               do { (p, b) \<leftarrow> string_field (sb_hostname c) bufp; let c = c\<lparr>sb_hostname := p\<rparr>;
                    case b of None \<Rightarrow> bad_fmt c d | Some bufp \<Rightarrow>
               do { (p, b) \<leftarrow> string_field (sb_pathname c) bufp; let c = c\<lparr>sb_pathname := p\<rparr>;
                    case b of None \<Rightarrow> bad_fmt c d | Some bufp \<Rightarrow>
               do { (p, b) \<leftarrow> string_field (sb_alias_list c) bufp; let c = c\<lparr>sb_alias_list := p\<rparr>;
                    case b of None \<Rightarrow> bad_fmt c d | Some bufp \<Rightarrow>
               do { _ \<leftarrow> cfree (sb_spare c); Some (1, d\<lparr>current := c\<lparr>sb_spare := Str bufp\<rparr>\<rparr>) } } } } } } }))"

subsection \<open>Lists of names\<close>

text \<open>The loop of \<open>is_a_name\<close>; \<open>strchr (ns + 1, ',')\<close> of an empty string looks behind its end.\<close>

function name_among :: "string \<Rightarrow> string \<Rightarrow> bool option" where
  "name_among name ns =
     (let len = length name in
      if take len ns = name \<and> (drop len ns = [] \<or> hd (drop len ns) = CHR '','') then Some True
      else if ns = [] then None
      else let r = dropWhile (\<lambda>c. c \<noteq> CHR '','') (tl ns) in
        if r = [] \<or> tl r = [] then Some False else name_among name (tl r))"
  by auto
termination
proof (relation "measure (\<lambda>(_, ns). length ns)", simp, goal_cases)
  case (1 name ns x y)
  then have "length y \<le> length (tl ns)" by (metis length_dropWhile_le)
  with 1 show ?case by (cases ns; cases y) auto
qed

declare name_among.simps [simp del]

definition is_a_name :: "string \<Rightarrow> dsdb \<Rightarrow> bool option" where
  "is_a_name name d =
     (if take 1 name = ''*'' then Some True else do { ns \<leftarrow> deref (sb_alias_list (current d)); name_among name ns })"

text \<open>The array is long enough: it has two places more than there are commas and one name.\<close>

function expand :: "string \<Rightarrow> string list" where
  "expand l =
     (if l = [] then []
      else let l1 = dropWhile (\<lambda>c. c = CHR '','') l; item = takeWhile (\<lambda>c. c \<noteq> CHR '','') l1
        in item # (case dropWhile (\<lambda>c. c \<noteq> CHR '','') l1 of [] \<Rightarrow> [] | _ # r \<Rightarrow> expand r))"
  by auto
termination
proof (relation "measure length", simp, goal_cases)
  case (1 l x y c r)
  have "Suc (length r) \<le> length (dropWhile (\<lambda>c. c = CHR '','') l)"
    using 1 length_dropWhile_le [of "\<lambda>c. c \<noteq> CHR '',''" "dropWhile (\<lambda>c. c = CHR '','') l"] by simp
  also have "\<dots> \<le> length l" by (rule length_dropWhile_le)
  finally show ?case by simp
qed

declare expand.simps [simp del]

definition compress :: "string list \<Rightarrow> string option" where
  "compress list = (case list of [] \<Rightarrow> None | x # xs \<Rightarrow> Some (x @ concat (map (\<lambda>y. CHR '','' # y) xs)))"


subsection \<open>Looking meetings up\<close>

definition name_block :: "string \<Rightarrow> dsdb \<Rightarrow> name_blk option" where
  "name_block user d =
     (let c = current d in
      do { host \<leftarrow> deref (sb_hostname c); path \<leftarrow> deref (sb_pathname c); al \<leftarrow> deref (sb_alias_list c); sp \<leftarrow> deref (sb_spare c);
           Some \<lparr>nb_hostname = host, nb_pathname = path, nb_user_id = user, nb_aliases = expand al, nb_spare = sp,
                 nb_status = sb_status c, nb_date_attended = sb_date_attended c, nb_last = sb_last c\<rparr> })"

text \<open>The pass over the file that counts, and the one that fills the array, which has room for as many blocks as were counted.\<close>

partial_function (option) count_names :: "string \<Rightarrow> nat \<Rightarrow> dsdb \<Rightarrow> (int \<times> nat \<times> dsdb) option" where
  "count_names name n d =
     do { (r, d) \<leftarrow> getdbent d;
          if r \<le> 0 then Some (r, n, d)
          else do { m \<leftarrow> is_a_name name d; count_names name (if m then Suc n else n) d } }"

partial_function (option) collect_names :: "nat \<Rightarrow> string \<Rightarrow> string \<Rightarrow> name_blk list \<Rightarrow> dsdb \<Rightarrow> (int \<times> name_blk list \<times> dsdb) option" where
  "collect_names count user name nbs d =
     do { (r, d) \<leftarrow> getdbent d;
          if r \<le> 0 then Some (r, nbs, d)
          else do { m \<leftarrow> is_a_name name d;
                    if \<not> m then collect_names count user name nbs d
                    else if length nbs = count then None
                    else do { nb \<leftarrow> name_block user d; collect_names count user name (nbs @ [nb]) d } } }"

text \<open>The results: the blocks, the code, the state.\<close>

definition dsc_expand_mtg_set :: "env \<Rightarrow> string option \<Rightarrow> string option \<Rightarrow> dsdb \<Rightarrow> (name_blk list \<times> code \<times> dsdb) option" where
  "dsc_expand_mtg_set e user_id name d =
     (let user = (case user_id of None \<Rightarrow> [] | Some u \<Rightarrow> u) in
      case name of
        None \<Rightarrow> Some ([], ERRNO EINVAL, d)
      | Some name \<Rightarrow>
          do { (c, d) \<leftarrow> setdbent e (Some user) d;
               if c \<noteq> OK then Some ([], c, d) else
          do { (r, count, d) \<leftarrow> count_names name 0 d;
               if r \<noteq> 0 then Some ([], ds_errno d, d) else
          do { (c, d) \<leftarrow> setdbent e (Some user) d;
               if c \<noteq> OK then Some ([], c, d) else
          do { (r, nbs, d) \<leftarrow> collect_names count user name [] d;
               Some (nbs, if r \<noteq> 0 then ERRNO r else OK, d) } } } })"

text \<open>\<open>None\<close> for the block when none is stored.\<close>

definition dsc_get_mtg :: "env \<Rightarrow> string option \<Rightarrow> string option \<Rightarrow> dsdb \<Rightarrow> (name_blk option \<times> code \<times> dsdb) option" where
  "dsc_get_mtg e user_id name d =
     do { (set, c, d) \<leftarrow> dsc_expand_mtg_set e user_id name d;
          Some (case set of [] \<Rightarrow> (None, if c = OK then NO_SUCH_MTG else c, d) | nb # _ \<Rightarrow> (Some nb, c, d)) }"

subsection \<open>Writing meetings back\<close>

text \<open>
  The new file: its descriptor, how much of it has been written out, what the library still has in its buffer, how often \<open>fprintf\<close> has been called,
  and \<open>ferror\<close>.
\<close>

record out =
  o_fd :: nat
  o_pos :: nat
  o_buf :: bytes
  o_calls :: nat
  o_error :: bool

definition out_flush :: "out \<Rightarrow> dsdb \<Rightarrow> bool \<times> out \<times> dsdb" where
  "out_flush f d =
     (if o_buf f = [] then (True, f, d)
      else let (w, g) = sys_write (ds_fs d) (o_fd f) (o_pos f) (o_buf f); d = d\<lparr>ds_fs := g\<rparr> in
        if w < 0 then (False, f\<lparr>o_error := True\<rparr>, d)
        else (True, f\<lparr>o_pos := o_pos f + length (o_buf f), o_buf := []\<rparr>, d))"

text \<open>
  An \<open>fprintf\<close>.  One with which the library writes out its buffer writes all of it, the new line included; a library may keep a rest.
\<close>

definition out_text :: "env \<Rightarrow> bytes \<Rightarrow> out \<Rightarrow> dsdb \<Rightarrow> bool \<times> out \<times> dsdb" where
  "out_text e bs f d =
     (let n = o_calls f; f = f\<lparr>o_buf := o_buf f @ bs, o_calls := Suc n\<rparr> in if e_spill e n then out_flush f d else (True, f, d))"

definition line_text :: "int \<Rightarrow> int \<Rightarrow> int \<Rightarrow> string \<Rightarrow> string \<Rightarrow> string \<Rightarrow> string \<Rightarrow> bytes" where
  "line_text status date lst host path aliases spare =
     int_text status @ '':'' @ int_text date @ '':'' @ int_text lst @ '':'' @ host @ '':'' @ path @ '':'' @ aliases @ '':'' @ spare @ [NL]"

text \<open>The walk through the blocks of the caller for one line of the file, and what is written for it.\<close>

fun match_blocks :: "name_blk list \<Rightarrow> bool list \<Rightarrow> server_name_blk \<Rightarrow> (bool list \<times> server_name_blk) option" where
  "match_blocks (nb # nbs) (t # ts) c =
     do { host \<leftarrow> deref (sb_hostname c); path \<leftarrow> deref (sb_pathname c);
          (t, c) \<leftarrow> (if host = nb_hostname nb \<and> path = nb_pathname nb then
                       do { _ \<leftarrow> cfree (sb_alias_list c); al \<leftarrow> compress (nb_aliases nb); _ \<leftarrow> cfree (sb_spare c);
                            Some (True, c\<lparr>sb_last := nb_last nb, sb_date_attended := nb_date_attended nb, sb_status := nb_status nb,
                                          sb_alias_list := Str al, sb_spare := Str (nb_spare nb)\<rparr>) }
                     else Some (t, c));
          (ts, c) \<leftarrow> match_blocks nbs ts c;
          Some (t # ts, c) }"
| "match_blocks _ ts c = Some (ts, c)"

definition current_line :: "server_name_blk \<Rightarrow> bytes option" where
  "current_line c =
     do { host \<leftarrow> deref (sb_hostname c); path \<leftarrow> deref (sb_pathname c); al \<leftarrow> deref (sb_alias_list c); sp \<leftarrow> deref (sb_spare c);
          Some (line_text (sb_status c) (sb_date_attended c) (sb_last c) host path al sp) }"

text \<open>The first result is \<open>Some code\<close> for \<open>goto punt\<close> with that value of \<open>*result\<close>.\<close>

partial_function (option) copy_lines :: "env \<Rightarrow> name_blk list \<Rightarrow> bool list \<Rightarrow> out \<Rightarrow> dsdb \<Rightarrow> (code option \<times> bool list \<times> out \<times> dsdb) option" where
  "copy_lines e nbs touched f d =
     do { (r, d) \<leftarrow> getdbent d;
          if r = 0 then Some (None, touched, f, d)
          else if r = -1 then Some (Some BAD_MTGS_FILE, touched, f, d)
          else do { (touched, c) \<leftarrow> match_blocks nbs touched (current d);
                    let d = d\<lparr>current := c\<rparr>;
                    if sb_status c AND DSC_ST_DELETED \<noteq> 0 then copy_lines e nbs touched f d
                    else do { l \<leftarrow> current_line c;
                              let (ok, f, d) = out_text e l f d;
                              if \<not> ok then Some (Some OK, touched, f, d) else copy_lines e nbs touched f d } } }"

text \<open>The meetings that the file did not have.\<close>

fun write_untouched :: "env \<Rightarrow> (name_blk \<times> bool) list \<Rightarrow> out \<Rightarrow> dsdb \<Rightarrow> (bool \<times> out \<times> dsdb) option" where
  "write_untouched e [] f d = Some (True, f, d)"
| "write_untouched e ((nb, t) # nbs) f d =
     (if t then write_untouched e nbs f d
      else do { temp \<leftarrow> compress (nb_aliases nb);
                let (ok, f, d) = out_text e (line_text (nb_status nb) (nb_date_attended nb) (nb_last nb) (nb_hostname nb) (nb_pathname nb)
                                               temp (nb_spare nb)) f d;
                if \<not> ok then Some (False, f, d) else write_untouched e nbs f d })"

text \<open>At \<open>punt\<close> the file is closed, which writes what is in the buffer, and removed.\<close>

definition punt :: "string \<Rightarrow> code \<Rightarrow> out \<Rightarrow> dsdb \<Rightarrow> (code \<times> dsdb) option" where
  "punt new_name result f d =
     do { d \<leftarrow> enddbent (snd (snd (out_flush f d)));
          Some (result, d\<lparr>ds_fs := snd (sys_unlink (ds_fs d) new_name)\<rparr>) }"

definition finish_file :: "env \<Rightarrow> string \<Rightarrow> string \<Rightarrow> out \<Rightarrow> dsdb \<Rightarrow> (code \<times> dsdb) option" where
  "finish_file e new_name old_name f d =
     do { d \<leftarrow> enddbent d;
          let (_, f, d) = out_flush f d;
          if \<not> e_fsync e then punt new_name OK f d
          else if o_error f then punt new_name CANT_WRITE_TEMP f d
          else if \<not> e_fclose e then None
          else let (r, g) = sys_rename (ds_fs d) new_name old_name in
            Some (if r \<noteq> 0 then ERRNO r else OK, d\<lparr>ds_fs := if r \<noteq> 0 then snd (sys_unlink g new_name) else g\<rparr>) }"

definition dsc_update_mtg_set :: "env \<Rightarrow> string option \<Rightarrow> name_blk list option \<Rightarrow> dsdb \<Rightarrow> (code \<times> dsdb) option" where
  "dsc_update_mtg_set e user_id nbs d =
     (case nbs of
        None \<Rightarrow> Some (ERRNO EINVAL, d)
      | Some nbs \<Rightarrow>
          if nbs = [] then Some (OK, d) else
          do { (c, d) \<leftarrow> setdbent e user_id d;
               if c \<noteq> OK \<and> c \<noteq> NO_MTGS_FILE \<and> c \<noteq> ERRNO ENOENT then Some (c, d) else
          do { old_name \<leftarrow> db_file d;
               let new_name = old_name @ ''~'';
               (case sys_open_trunc (ds_fs d) new_name of
                  Inl x \<Rightarrow> Some (ERRNO x, d)
                | Inr (fd, g) \<Rightarrow>
                    do { (x, touched, f, d) \<leftarrow> copy_lines e nbs (replicate (length nbs) False)
                                     \<lparr>o_fd = fd, o_pos = 0, o_buf = [], o_calls = 0, o_error = False\<rparr> (d\<lparr>ds_fs := g\<rparr>);
                         case x of
                           Some c \<Rightarrow> punt new_name c f d
                         | None \<Rightarrow>
                             do { d \<leftarrow> clear_current d;
                                  (ok, f, d) \<leftarrow> write_untouched e (zip nbs touched) f d;
                                  if \<not> ok then punt new_name OK f d else finish_file e new_name old_name f d } }) } })"

end
