(* ===== verification/Database.thy ===== *)
theory Database
  imports Dsname Acl_core
begin

text \<open>
  What the list of meetings is good for: a file in order is a list of blocks, lookups find the first of them with the name, and an update
  changes the blocks that it is given and no others.
\<close>

subsection \<open>A line of the file\<close>

text \<open>A string up to a character that is not in it.\<close>

lemma until: "c \<notin> set s \<Longrightarrow> takeWhile (\<lambda>x. x \<noteq> c) (s @ c # r) = s" "c \<notin> set s \<Longrightarrow> dropWhile (\<lambda>x. x \<noteq> c) (s @ c # r) = c # r"
  "c \<notin> set s \<Longrightarrow> takeWhile (\<lambda>x. x \<noteq> c) s = s" "c \<notin> set s \<Longrightarrow> dropWhile (\<lambda>x. x \<noteq> c) s = []"
  by (induction s) auto

definition join :: "string list \<Rightarrow> string" where
  "join as = (case compress as of None \<Rightarrow> [] | Some s \<Rightarrow> s)"

definition line_of :: "name_blk \<Rightarrow> bytes" where
  "line_of nb = line_text (nb_status nb) (nb_date_attended nb) (nb_last nb) (nb_hostname nb) (nb_pathname nb) (join (nb_aliases nb)) (nb_spare nb)"

definition db_text :: "name_blk list \<Rightarrow> bytes" where
  "db_text nbs = concat (map line_of nbs)"

lemma db_text_simps [simp]: "db_text [] = []" "db_text (nb # nbs) = line_of nb @ db_text nbs" "db_text (xs @ ys) = db_text xs @ db_text ys"
  by (simp_all add: db_text_def)

text \<open>A block that has a line: no field holds a character that ends it, the aliases are names, and the line fits in the buffer.\<close>

definition word_ok :: "string \<Rightarrow> bool" where
  "word_ok s \<longleftrightarrow> c_ok s \<and> NL \<notin> set s \<and> CHR '':'' \<notin> set s"

definition alias_ok :: "string \<Rightarrow> bool" where
  "alias_ok a \<longleftrightarrow> word_ok a \<and> CHR '','' \<notin> set a \<and> a \<noteq> []"

definition blk_fine :: "name_blk \<Rightarrow> bool" where
  "blk_fine nb \<longleftrightarrow> fits 4 (nb_status nb) \<and> fits 4 (nb_date_attended nb) \<and> fits 4 (nb_last nb) \<and> word_ok (nb_hostname nb) \<and> word_ok (nb_pathname nb) \<and>
     nb_aliases nb \<noteq> [] \<and> (\<forall>a \<in> set (nb_aliases nb). alias_ok a) \<and> c_ok (nb_spare nb) \<and> NL \<notin> set (nb_spare nb) \<and>
     length (line_of nb) < BUFSIZ"

lemma decimal_nonempty: "decimal n \<noteq> []"
  using decimal_Cons [of n] by auto

lemma digit_not: "is_digit c \<Longrightarrow> c \<noteq> NL \<and> c \<noteq> NUL \<and> c \<noteq> CHR '':'' \<and> c \<noteq> CHR ''-'' \<and> c \<noteq> CHR ''+'' \<and> \<not> is_space c"
  by (auto simp: is_digit_def is_space_def)

lemma int_text_chars: "c \<in> set (int_text i) \<Longrightarrow> c = CHR ''-'' \<or> is_digit c"
  using digits_decimal by (auto simp: int_text_def split: if_splits)

lemma word_int_text: "word_ok (int_text i)"
  using int_text_chars [of _ i] digit_not by (auto simp: word_ok_def c_ok_def)

lemma atoi_int_text:
  assumes "fits 4 i"
  shows "atoi_int (int_text i @ CHR '':'' # r) = Some i"
proof -
  have a: "atoi (decimal n @ CHR '':'' # r) = n" for n by (rule atoi_decimal) (simp add: is_digit_def)
  obtain c cs where d: "decimal (nat i) = c # cs" "is_digit c" using decimal_Cons by blast
  then have "dropWhile is_space (decimal (nat i) @ CHR '':'' # r) = decimal (nat i) @ CHR '':'' # r" using digit_not [of c] by simp
  moreover have "take 1 (decimal (nat i) @ CHR '':'' # r) \<noteq> ''-''" "take 1 (decimal (nat i) @ CHR '':'' # r) \<noteq> ''+''"
    using d digit_not [of c] by simp_all
  ultimately show ?thesis
    using assms a by (cases "i < 0") (simp_all add: atoi_int_def int_text_def Let_def fits_def is_space_def nat_le_iff)
qed

lemma after_colon_word: "CHR '':'' \<notin> set s \<Longrightarrow> after_colon (s @ CHR '':'' # r) = Some r"
  by (simp add: after_colon_def until(2))

lemma int_field_text: "fits 4 i \<Longrightarrow> int_field (int_text i @ CHR '':'' # r) = Some (i, Some r)"
  using word_int_text [of i] by (simp add: int_field_def atoi_int_text after_colon_word word_ok_def)

lemma string_field_text:
  assumes "CHR '':'' \<notin> set s" and "p \<noteq> Dangling"
  shows "string_field p (s @ CHR '':'' # r) = Some (Str s, Some r)"
proof -
  show ?thesis using assms by (simp add: until(1) string_field_def after_colon_word cfree_def split: cptr.split)
qed

subsection \<open>Lists of names\<close>

lemma compress_join: "as \<noteq> [] \<Longrightarrow> compress as = Some (join as)"
  by (cases as) (simp_all add: join_def compress_def)

lemma join_simps [simp]: "join [a] = a" "join (a # b # as) = a @ CHR '','' # join (b # as)"
  by (simp_all add: join_def compress_def)

lemma word_join:
  assumes "\<forall>a \<in> set as. alias_ok a"
  shows "word_ok (join as)"
proof -
  have s: "set (join as) \<subseteq> (\<Union>a \<in> set as. set a) \<union> {CHR '',''}"
    by (cases as) (auto simp: join_def compress_def)
  have "c \<notin> set (join as)" if "c \<noteq> CHR '',''" "\<And>a. a \<in> set as \<Longrightarrow> c \<notin> set a" for c
    using s that by blast
  with assms show ?thesis by (simp add: word_ok_def c_ok_def alias_ok_def)
qed

lemma expand_join: "\<forall>a \<in> set as. alias_ok a \<Longrightarrow> as \<noteq> [] \<Longrightarrow> expand (join as) = as"
proof (induction as rule: induct_list012)
  case (2 a)
  then have a: "CHR '','' \<notin> set a" "a \<noteq> []" by (simp_all add: alias_ok_def)
  then have "dropWhile (\<lambda>c. c = CHR '','') a = a" by (cases a) auto
  with a(2) show ?case by (subst expand.simps) (simp add: until(3,4) [OF a(1)])
next
  case (3 a b as)
  define r where "r = join (b # as)"
  have a: "CHR '','' \<notin> set a" "a \<noteq> []" using 3 by (simp_all add: alias_ok_def)
  then have d: "dropWhile (\<lambda>c. c = CHR '','') (a @ CHR '','' # r) = a @ CHR '','' # r" by (cases a) auto
  have "expand (a @ CHR '','' # r) = a # expand r"
    using a(2) by (subst expand.simps) (simp add: d until [OF a(1)])
  with 3 show ?case by (simp add: r_def)
qed simp

lemma name_among_join:
  assumes "CHR '','' \<notin> set name" and "\<forall>a \<in> set as. alias_ok a" and "as \<noteq> []"
  shows "name_among name (join as) = Some (name \<in> set as)"
  using assms(2,3)
proof (induction as rule: induct_list012)
  case (2 a)
  have "a \<noteq> []" "CHR '','' \<notin> set a" using 2 by (simp_all add: alias_ok_def)
  moreover from this have "dropWhile (\<lambda>c. c \<noteq> CHR '','') (tl a) = []" by (cases a) (simp_all add: until(4))
  moreover have "take (length name) a = name \<and> (drop (length name) a = [] \<or> hd (drop (length name) a) = CHR '','') \<longleftrightarrow> name = a"
  proof
    assume l: "take (length name) a = name \<and> (drop (length name) a = [] \<or> hd (drop (length name) a) = CHR '','')"
    have "drop (length name) a = []"
      using l in_set_dropD [of "hd (drop (length name) a)" "length name" a] \<open>CHR '','' \<notin> set a\<close> hd_in_set by metis
    with l show "name = a" by simp
  qed simp
  ultimately show ?case by (subst name_among.simps) (auto simp: Let_def)
next
  case (3 a b as)
  define r where "r = join (b # as)"
  have a: "CHR '','' \<notin> set a" "a \<noteq> []" using 3 by (simp_all add: alias_ok_def)
  have rn: "r \<noteq> []" using 3 by (cases as) (simp_all add: r_def alias_ok_def)
  have "dropWhile (\<lambda>c. c \<noteq> CHR '','') (tl (a @ CHR '','' # r)) = CHR '','' # r" using a by (cases a) (simp_all add: until(2))
  moreover have "take (length name) (a @ CHR '','' # r) = name \<and>
      (drop (length name) (a @ CHR '','' # r) = [] \<or> hd (drop (length name) (a @ CHR '','' # r)) = CHR '','') \<longleftrightarrow> name = a"
  proof
    assume l: "take (length name) (a @ CHR '','' # r) = name \<and>
      (drop (length name) (a @ CHR '','' # r) = [] \<or> hd (drop (length name) (a @ CHR '','' # r)) = CHR '','')"
    have "length name \<le> length a"
    proof (rule ccontr)
      assume "\<not> length name \<le> length a"
      then have "(take (length name) (a @ CHR '','' # r)) ! length a = CHR '',''" by (simp add: nth_append)
      moreover have "name ! length a \<in> set name" using \<open>\<not> length name \<le> length a\<close> by simp
      ultimately show False using l assms(1) by metis
    qed
    then have n: "take (length name) a = name" "drop (length name) (a @ CHR '','' # r) = drop (length name) a @ CHR '','' # r" using l by simp_all
    have "drop (length name) a = []"
    proof (rule ccontr)
      assume "drop (length name) a \<noteq> []"
      then have "hd (drop (length name) a) \<in> set a" "hd (drop (length name) a @ CHR '','' # r) = hd (drop (length name) a)"
        using hd_in_set in_set_dropD by (metis, simp)
      with l n(2) a(1) show False by auto
    qed
    with n show "name = a" by simp
  qed simp
  ultimately have "name_among name (a @ CHR '','' # r) = (if name = a then Some True else name_among name r)"
    using a(2) rn by (subst name_among.simps) (auto simp: Let_def)
  with 3 show ?case by (auto simp: r_def)
qed simp

subsection \<open>Reading a file in order\<close>

lemma fgets_text:
  assumes "NL \<notin> set l" and "c_ok l" and "length l < n - 1"
  shows "fgets n (l @ NL # r) = Some (l @ [NL], r)"
  using assms fgets_loop_line [OF assms(1,3)] by (simp add: fgets_def cstr_id c_ok_def)

text \<open>The entry in memory has nothing that was freed; it is that of a block.\<close>

definition settled :: "dsdb \<Rightarrow> bool" where
  "settled d \<longleftrightarrow> Dangling \<notin> {sb_hostname (current d), sb_pathname (current d), sb_alias_list (current d), sb_spare (current d)}"

definition entry_of_blk :: "name_blk \<Rightarrow> server_name_blk \<Rightarrow> server_name_blk" where
  "entry_of_blk nb c = c\<lparr>sb_hostname := Str (nb_hostname nb), sb_pathname := Str (nb_pathname nb), sb_alias_list := Str (join (nb_aliases nb)),
     sb_spare := Str (nb_spare nb), sb_status := nb_status nb, sb_date_attended := nb_date_attended nb, sb_last := nb_last nb\<rparr>"

definition at_blk :: "name_blk \<Rightarrow> bytes \<Rightarrow> dsdb \<Rightarrow> dsdb" where
  "at_blk nb r d = d\<lparr>db := Some r, current := entry_of_blk nb (current d)\<rparr>"

lemma at_blk_fields [simp]: "settled (at_blk nb r d)" "db (at_blk nb r d) = Some r" "ds_fs (at_blk nb r d) = ds_fs d"
  "disrcfile (at_blk nb r d) = disrcfile d" "current (at_blk nb r d) = entry_of_blk nb (current d)" "db_file (at_blk nb r d) = db_file d"
  by (simp_all add: settled_def at_blk_def entry_of_blk_def)

lemma getdbent_line:
  assumes "blk_fine nb" and "db d = Some (line_of nb @ r)" and "settled d"
  shows "getdbent d = Some (1, at_blk nb r d)"
proof -
  define al where "al = join (nb_aliases nb)"
  have w: "word_ok (nb_hostname nb)" "word_ok (nb_pathname nb)" "word_ok al" "c_ok (nb_spare nb)" "NL \<notin> set (nb_spare nb)"
    using assms(1) word_join [of "nb_aliases nb"] by (simp_all add: blk_fine_def al_def)
  define t4 where "t4 = nb_hostname nb @ CHR '':'' # nb_pathname nb @ CHR '':'' # al @ CHR '':'' # nb_spare nb"
  define t3 where "t3 = int_text (nb_last nb) @ CHR '':'' # t4"
  define t2 where "t2 = int_text (nb_date_attended nb) @ CHR '':'' # t3"
  define l where "l = int_text (nb_status nb) @ CHR '':'' # t2"
  have line: "line_of nb = l @ [NL]" by (simp add: line_of_def line_text_def l_def t2_def t3_def t4_def al_def)
  have "word_ok (int_text (nb_status nb))" "word_ok (int_text (nb_date_attended nb))" "word_ok (int_text (nb_last nb))" by (rule word_int_text)+
  with w have l: "NL \<notin> set l" "c_ok l" by (auto simp: l_def t2_def t3_def t4_def word_ok_def c_ok_def)
  have "length l + 1 < BUFSIZ" using assms(1) by (simp add: blk_fine_def line)
  then have "length l < BUFSIZ - 1" by linarith
  from fgets_text [OF l this] have fg: "fgets BUFSIZ (line_of nb @ r) = Some (l @ [NL], r)" by (simp add: line)
  have tw: "takeWhile (\<lambda>c. c \<noteq> NL) (l @ [NL]) = l" by (rule until(1) [OF l(1)])
  have i: "int_field l = Some (nb_status nb, Some t2)" "int_field t2 = Some (nb_date_attended nb, Some t3)" "int_field t3 = Some (nb_last nb, Some t4)"
    using assms(1) by (simp_all add: blk_fine_def l_def t2_def t3_def int_field_text)
  have p: "sb_hostname (current d) \<noteq> Dangling" "sb_pathname (current d) \<noteq> Dangling" "sb_alias_list (current d) \<noteq> Dangling" "sb_spare (current d) \<noteq> Dangling"
    using assms(3) by (auto simp: settled_def)
  have f: "string_field (sb_hostname (current d)) t4 = Some (Str (nb_hostname nb), Some (nb_pathname nb @ CHR '':'' # al @ CHR '':'' # nb_spare nb))"
    "string_field (sb_pathname (current d)) (nb_pathname nb @ CHR '':'' # al @ CHR '':'' # nb_spare nb) = Some (Str (nb_pathname nb), Some (al @ CHR '':'' # nb_spare nb))"
    "string_field (sb_alias_list (current d)) (al @ CHR '':'' # nb_spare nb) = Some (Str al, Some (nb_spare nb))"
    using w p by (simp_all add: t4_def string_field_text word_ok_def)
  have "\<exists>x. cfree (sb_spare (current d)) = Some x" using p(4) by (cases "sb_spare (current d)") (simp_all add: cfree_def)
  then show ?thesis
    using f by (auto simp: getdbent_def assms(2) fg tw i Let_def at_blk_def entry_of_blk_def al_def)
qed

lemma getdbent_end: "db d = Some [] \<Longrightarrow> getdbent d = Some (0, d)"
  by (simp add: getdbent_def fgets_def)

text \<open>What a name finds.\<close>

definition sees :: "string \<Rightarrow> name_blk \<Rightarrow> bool" where
  "sees name nb \<longleftrightarrow> take 1 name = ''*'' \<or> name \<in> set (nb_aliases nb)"

lemma is_a_name_at:
  assumes "blk_fine nb" and "CHR '','' \<notin> set name"
  shows "is_a_name name (at_blk nb r d) = Some (sees name nb)"
  using assms name_among_join [of name "nb_aliases nb"]
  by (simp add: is_a_name_def sees_def entry_of_blk_def deref_def blk_fine_def)

lemma name_block_at:
  assumes "blk_fine nb"
  shows "name_block user (at_blk nb r d) = Some (nb\<lparr>nb_user_id := user\<rparr>)"
  using assms expand_join [of "nb_aliases nb"]
  by (simp add: name_block_def entry_of_blk_def deref_def blk_fine_def)

text \<open>A pass over the file leaves the end of the file and an entry in memory, nothing else.\<close>

definition passed :: "dsdb \<Rightarrow> dsdb \<Rightarrow> bool" where
  "passed d d' \<longleftrightarrow> settled d' \<and> (\<exists>c. d' = d\<lparr>db := Some [], current := c\<rparr>)"

lemma passed_trans: "passed (at_blk nb r d) d' \<Longrightarrow> passed d d'"
  by (auto simp: passed_def at_blk_def)

lemma count_names_text:
  assumes "\<forall>nb \<in> set nbs. blk_fine nb" and "CHR '','' \<notin> set name" and "db d = Some (db_text nbs)" and "settled d"
  shows "\<exists>d'. count_names name n d = Some (0, n + length (filter (sees name) nbs), d') \<and> passed d d'"
  using assms
proof (induction nbs arbitrary: n d)
  case Nil
  have "passed d d" using Nil by (auto simp: passed_def intro!: exI [of _ "current d"])
  with Nil show ?case by (subst count_names.simps) (simp add: getdbent_end)
next
  case (Cons nb nbs)
  have g: "getdbent d = Some (1, at_blk nb (db_text nbs) d)" by (rule getdbent_line) (use Cons.prems in simp_all)
  note m = is_a_name_at [OF _ Cons.prems(2)]
  from Cons.IH [where d = "at_blk nb (db_text nbs) d" and n = "if sees name nb then Suc n else n"] Cons.prems obtain d' where
    "count_names name (if sees name nb then Suc n else n) (at_blk nb (db_text nbs) d) =
      Some (0, n + length (filter (sees name) (nb # nbs)), d')" "passed (at_blk nb (db_text nbs) d) d'" by auto
  with g m [of nb] Cons.prems(1) show ?case by (subst count_names.simps) (auto dest: passed_trans)
qed

lemma collect_names_text:
  assumes "\<forall>nb \<in> set nbs. blk_fine nb" and "CHR '','' \<notin> set name" and "db d = Some (db_text nbs)" and "settled d"
    and "length found + length (filter (sees name) nbs) \<le> count"
  shows "\<exists>d'. collect_names count user name found d =
    Some (0, found @ map (\<lambda>nb. nb\<lparr>nb_user_id := user\<rparr>) (filter (sees name) nbs), d') \<and> passed d d'"
  using assms
proof (induction nbs arbitrary: found d)
  case Nil
  have "passed d d" using Nil by (auto simp: passed_def intro!: exI [of _ "current d"])
  with Nil show ?case by (subst collect_names.simps) (simp add: getdbent_end)
next
  case (Cons nb nbs)
  define d1 where "d1 = at_blk nb (db_text nbs) d"
  have g: "getdbent d = Some (1, d1)" unfolding d1_def by (rule getdbent_line) (use Cons.prems in simp_all)
  have m: "is_a_name name d1 = Some (sees name nb)" "name_block user d1 = Some (nb\<lparr>nb_user_id := user\<rparr>)"
    using Cons.prems(1,2) by (simp_all add: d1_def is_a_name_at name_block_at)
  define found' where "found' = (if sees name nb then found @ [nb\<lparr>nb_user_id := user\<rparr>] else found)"
  have "length found' + length (filter (sees name) nbs) \<le> count" using Cons.prems(5) by (simp add: found'_def split: if_splits)
  from Cons.IH [where d = d1 and found = found', OF _ Cons.prems(2) _ _ this] Cons.prems(1) obtain d' where
    "collect_names count user name found' d1 = Some (0, found' @ map (\<lambda>nb. nb\<lparr>nb_user_id := user\<rparr>) (filter (sees name) nbs), d')"
    "passed d1 d'" by (auto simp: d1_def)
  with g m Cons.prems(5) show ?case
    by (subst collect_names.simps) (auto simp: found'_def d1_def dest: passed_trans)
qed

subsection \<open>Lookups\<close>

text \<open>The name of the file, as it is found for the first time.\<close>

definition rc_name :: "env \<Rightarrow> string option" where
  "rc_name e = (case e_pw_dir e of None \<Rightarrow> None
     | Some dir \<Rightarrow> let n = (case e_meetings e of Some cp \<Rightarrow> cp | None \<Rightarrow> (case e_home e of Some cp \<Rightarrow> cp @ mtgs | None \<Rightarrow> dir @ mtgs))
         in if length n < MAXPATHLEN then Some n else None)"

text \<open>The user's file is \<open>path\<close> and holds these blocks.\<close>

definition holds :: "env \<Rightarrow> string \<Rightarrow> name_blk list \<Rightarrow> dsdb \<Rightarrow> bool" where
  "holds e path nbs d \<longleftrightarrow> settled d \<and> (disrcfile d = Some path \<or> disrcfile d = None \<and> rc_name e = Some path) \<and>
     (\<exists>i. sys_open (ds_fs d) path = Inr i \<and> fdata (ds_fs d) i = db_text nbs) \<and> (\<forall>nb \<in> set nbs. blk_fine nb)"

text \<open>Nothing is kept between two calls but the name of the file.\<close>

definition rewound :: "string \<Rightarrow> bytes \<Rightarrow> dsdb \<Rightarrow> dsdb \<Rightarrow> bool" where
  "rewound path bs d d' \<longleftrightarrow> settled d' \<and> disrcfile d' = Some path \<and> ds_fs d' = ds_fs d \<and> db d' = Some bs \<and> db_file d' = Some path"

lemma enddbent_settled:
  assumes "settled d"
  shows "\<exists>d'. enddbent d = Some d' \<and> settled d' \<and> disrcfile d' = disrcfile d \<and> ds_fs d' = ds_fs d"
  using assms by (auto simp: enddbent_def clear_current_def settled_def Let_def)

lemma setdbent_ok:
  assumes "holds e path nbs d"
  shows "\<exists>d'. setdbent e u d = Some (OK, d') \<and> rewound path (db_text nbs) d d'"
proof -
  from assms obtain i where h: "settled d" "disrcfile d = Some path \<or> disrcfile d = None \<and> rc_name e = Some path"
    "sys_open (ds_fs d) path = Inr i" "fdata (ds_fs d) i = db_text nbs" by (auto simp: holds_def)
  from enddbent_settled [OF h(1)] obtain d1 where d1: "enddbent d = Some d1" "settled d1" "disrcfile d1 = disrcfile d" "ds_fs d1 = ds_fs d" by blast
  have "(if disrcfile d1 = None then find_rc_filename e d1 else Some (OK, d1)) = Some (OK, d1\<lparr>disrcfile := Some path\<rparr>)"
    using h(2,3) d1(3,4)
    by (auto simp: find_rc_filename_def rc_name_def Let_def not_le [symmetric] split: option.splits if_splits)
  then show ?thesis
    using d1 h(3,4) by (auto simp: setdbent_def rewound_def settled_def Let_def)
qed

lemma rewound_holds: "holds e path nbs d \<Longrightarrow> rewound path bs d d1 \<Longrightarrow> passed d1 d2 \<Longrightarrow> holds e path nbs d2 \<and> ds_fs d2 = ds_fs d"
  by (auto simp: holds_def rewound_def passed_def)

lemma dsc_get_mtg_ok:
  assumes "holds e path nbs d" and "CHR '','' \<notin> set name"
  shows "\<exists>d'. dsc_get_mtg e (Some user) (Some name) d = Some (case filter (sees name) nbs of
      [] \<Rightarrow> (None, NO_SUCH_MTG, d') | nb # _ \<Rightarrow> (Some (nb\<lparr>nb_user_id := user\<rparr>), OK, d')) \<and>
    holds e path nbs d' \<and> ds_fs d' = ds_fs d"
proof -
  have f: "\<forall>nb \<in> set nbs. blk_fine nb" using assms(1) by (simp add: holds_def)
  from setdbent_ok [OF assms(1)] obtain d1 where d1: "setdbent e (Some user) d = Some (OK, d1)" "rewound path (db_text nbs) d d1" by blast
  then obtain d2 where d2: "count_names name 0 d1 = Some (0, length (filter (sees name) nbs), d2)" "passed d1 d2"
    using count_names_text [OF f assms(2), of d1 0] by (auto simp: rewound_def)
  from rewound_holds [OF assms(1) d1(2) d2(2)] have h2: "holds e path nbs d2" "ds_fs d2 = ds_fs d" by simp_all
  from setdbent_ok [OF h2(1)] obtain d3 where d3: "setdbent e (Some user) d2 = Some (OK, d3)" "rewound path (db_text nbs) d2 d3" by blast
  then obtain d4 where d4: "collect_names (length (filter (sees name) nbs)) user name [] d3 =
      Some (0, map (\<lambda>nb. nb\<lparr>nb_user_id := user\<rparr>) (filter (sees name) nbs), d4)" "passed d3 d4"
    using collect_names_text [OF f assms(2), of d3 "[]"] by (auto simp: rewound_def)
  from rewound_holds [OF h2(1) d3(2) d4(2)] h2(2) have "holds e path nbs d4" "ds_fs d4 = ds_fs d" by simp_all
  moreover have "dsc_get_mtg e (Some user) (Some name) d = Some (case filter (sees name) nbs of
      [] \<Rightarrow> (None, NO_SUCH_MTG, d4) | nb # _ \<Rightarrow> (Some (nb\<lparr>nb_user_id := user\<rparr>), OK, d4))"
    using d1(1) d2(1) d3(1) d4(1) by (simp add: dsc_get_mtg_def dsc_expand_mtg_set_def split: list.split)
  ultimately show ?thesis by blast
qed

subsection \<open>Changing blocks\<close>

definition same_mtg :: "name_blk \<Rightarrow> name_blk \<Rightarrow> bool" where
  "same_mtg u nb \<longleftrightarrow> nb_hostname u = nb_hostname nb \<and> nb_pathname u = nb_pathname nb"

definition change :: "name_blk \<Rightarrow> name_blk \<Rightarrow> name_blk" where
  "change u nb = (if same_mtg u nb then u\<lparr>nb_user_id := nb_user_id nb\<rparr> else nb)"

definition changed :: "name_blk list \<Rightarrow> name_blk \<Rightarrow> name_blk" where
  "changed ups nb = fold change ups nb"

definition shown :: "name_blk \<Rightarrow> bool" where
  "shown nb \<longleftrightarrow> nb_status nb AND DSC_ST_DELETED = 0"

definition updated :: "name_blk list \<Rightarrow> name_blk list \<Rightarrow> name_blk list" where
  "updated ups nbs = filter shown (map (changed ups) nbs) @ filter (\<lambda>u. \<not> (\<exists>nb \<in> set nbs. same_mtg u nb)) ups"

lemma same_change [simp]: "same_mtg x (change u nb) = same_mtg x nb"
  by (auto simp: change_def same_mtg_def)

lemma changed_simps [simp]: "changed [] nb = nb" "changed (u # ups) nb = changed ups (change u nb)"
  by (simp_all add: changed_def)

lemma line_user [simp]: "line_of (nb\<lparr>nb_user_id := x\<rparr>) = line_of nb" "blk_fine (nb\<lparr>nb_user_id := x\<rparr>) = blk_fine nb"
  by (simp_all add: line_of_def blk_fine_def)

lemma changed_fine: "\<forall>u \<in> set ups. blk_fine u \<Longrightarrow> blk_fine nb \<Longrightarrow> blk_fine (changed ups nb)"
  by (induction ups arbitrary: nb) (simp_all add: change_def)

lemma match_blocks_at:
  assumes "\<forall>u \<in> set ups. nb_aliases u \<noteq> []" and "length ts = length ups"
  shows "match_blocks ups ts (entry_of_blk nb c) = Some (map2 (\<lambda>u t. t \<or> same_mtg u nb) ups ts, entry_of_blk (changed ups nb) c)"
  using assms
proof (induction ups arbitrary: ts nb)
  case (Cons u ups)
  then obtain t ts' where ts: "ts = t # ts'" by (cases ts) auto
  define c1 where "c1 = (if same_mtg u nb then (entry_of_blk nb c)\<lparr>sb_last := nb_last u, sb_date_attended := nb_date_attended u,
    sb_status := nb_status u, sb_alias_list := Str (join (nb_aliases u)), sb_spare := Str (nb_spare u)\<rparr> else entry_of_blk nb c)"
  have c1: "c1 = entry_of_blk (change u nb) c"
    by (cases c) (simp add: c1_def entry_of_blk_def change_def same_mtg_def)
  have "compress (nb_aliases u) = Some (join (nb_aliases u))" using Cons.prems(1) by (simp add: compress_join)
  then have "match_blocks (u # ups) ts (entry_of_blk nb c) =
      do { (ts', c) \<leftarrow> match_blocks ups ts' c1; Some ((t \<or> same_mtg u nb) # ts', c) }"
    by (simp add: ts c1_def) (auto simp: entry_of_blk_def deref_def cfree_def same_mtg_def)
  also have "\<dots> = Some ((t \<or> same_mtg u nb) # map2 (\<lambda>u t. t \<or> same_mtg u nb) ups ts', entry_of_blk (changed ups (change u nb)) c)"
    using Cons.IH [of ts' "change u nb"] Cons.prems ts by (simp add: c1)
  finally show ?case by (simp add: ts)
qed simp

lemma current_line_at: "current_line (entry_of_blk nb c) = Some (line_of nb)"
  by (simp add: current_line_def entry_of_blk_def deref_def line_of_def)

subsection \<open>Writing the new file\<close>

text \<open>Only the file with the descriptor \<open>i\<close> has changed.\<close>

definition only_file :: "nat \<Rightarrow> fsys \<Rightarrow> fsys \<Rightarrow> bool" where
  "only_file i f g \<longleftrightarrow> links g = links f \<and> dirs g = dirs f \<and> next_ino g = next_ino f \<and> (\<forall>x. x \<noteq> i \<longrightarrow> inodes g x = inodes f x) \<and>
     i_errno (inodes g i) = i_errno (inodes f i)"

lemma only_file_trans: "only_file i f g \<Longrightarrow> only_file i g h \<Longrightarrow> only_file i f h"
  by (simp add: only_file_def)

lemma only_file_refl [simp]: "only_file i f f"
  by (simp add: only_file_def)

text \<open>What has been printed is in the file or in the buffer.\<close>

definition printed :: "out \<Rightarrow> dsdb \<Rightarrow> bytes" where
  "printed f d = fdata (ds_fs d) (o_fd f) @ o_buf f"

definition wrote :: "env \<Rightarrow> bytes \<Rightarrow> out \<Rightarrow> dsdb \<Rightarrow> bool \<Rightarrow> out \<Rightarrow> dsdb \<Rightarrow> bool" where
  "wrote e bs f d ok f' d' \<longleftrightarrow> only_file (o_fd f) (ds_fs d) (ds_fs d') \<and> o_fd f' = o_fd f \<and>
     (ok \<longrightarrow> length (fdata (ds_fs d') (o_fd f)) = o_pos f' \<and> printed f' d' = printed f d @ bs \<and> o_error f' = o_error f) \<and>
     (\<not> ok \<longrightarrow> o_error f') \<and> (faults (ds_fs d) = [] \<longrightarrow> ok \<and> faults (ds_fs d') = [])"

lemma wrote_trans:
  assumes "wrote e bs f d True f1 d1" and "wrote e cs f1 d1 ok f' d'"
  shows "wrote e (bs @ cs) f d ok f' d'"
proof -
  have "only_file (o_fd f) (ds_fs d) (ds_fs d')"
    using assms by (auto simp: wrote_def intro: only_file_trans)
  moreover have "ok \<longrightarrow> length (fdata (ds_fs d') (o_fd f)) = o_pos f' \<and> printed f' d' = printed f d @ bs @ cs \<and> o_error f' = o_error f"
    "\<not> ok \<longrightarrow> o_error f'" "faults (ds_fs d) = [] \<longrightarrow> ok \<and> faults (ds_fs d') = []" "o_fd f' = o_fd f"
    using assms by (simp_all add: wrote_def)
  ultimately show ?thesis by (simp add: wrote_def)
qed

lemma wrote_ok:
  assumes "wrote e bs f d True f' d'"
  shows "length (fdata (ds_fs d') (o_fd f)) = o_pos f'" and "printed f' d' = printed f d @ bs" and "o_error f' = o_error f"
    and "faults (ds_fs d) = [] \<Longrightarrow> faults (ds_fs d') = []"
  using assms by (simp_all add: wrote_def)

lemma wrote_cong: "ds_fs d = ds_fs d1 \<Longrightarrow> ds_fs d' = ds_fs d1' \<Longrightarrow> wrote e bs f d ok f' d' = wrote e bs f d1 ok f' d1'"
  by (simp add: wrote_def printed_def)

lemma out_flush_wrote:
  assumes "length (fdata (ds_fs d) (o_fd f)) = o_pos f"
  shows "\<exists>ok f' g. out_flush f d = (ok, f', d\<lparr>ds_fs := g\<rparr>) \<and> wrote e [] f d ok f' (d\<lparr>ds_fs := g\<rparr>) \<and> (ok \<longrightarrow> o_buf f' = [])"
proof (cases "o_buf f = []")
  case True
  with assms show ?thesis by (intro exI [of _ True] exI [of _ f] exI [of _ "ds_fs d"]) (simp add: out_flush_def wrote_def)
next
  case False
  obtain w g where w: "sys_write (ds_fs d) (o_fd f) (o_pos f) (o_buf f) = (w, g)" by fastforce
  note fr = sys_write_frame [OF w]
  have o: "only_file (o_fd f) (ds_fs d) g" using fr by (simp add: only_file_def)
  show ?thesis
  proof (cases "w < 0")
    case True
    then have "faults (ds_fs d) \<noteq> []" using w by (auto simp: sys_write_def)
    with True w False o show ?thesis
      by (intro exI [of _ False] exI [of _ "f\<lparr>o_error := True\<rparr>"] exI [of _ g]) (simp add: out_flush_def wrote_def Let_def)
  next
    case f: False
    then have "fdata g (o_fd f) = fdata (ds_fs d) (o_fd f) @ o_buf f"
      using sys_write_data [OF w, of "o_fd f"] overwrite_end [of "fdata (ds_fs d) (o_fd f)" "o_buf f"] assms by simp
    with f w False o fr(9) assms show ?thesis
      by (intro exI [of _ True] exI [of _ "f\<lparr>o_pos := o_pos f + length (o_buf f), o_buf := []\<rparr>"] exI [of _ g])
        (simp add: out_flush_def wrote_def printed_def Let_def)
  qed
qed

text \<open>
  Whether one of \<open>n\<close> lines that are printed from the call \<open>k\<close> on is lost: one with which the library writes out its buffer, and
  cannot.
\<close>

fun spill_fails :: "(nat \<Rightarrow> bool) \<Rightarrow> nat \<Rightarrow> nat \<Rightarrow> bool list \<Rightarrow> bool" where
  "spill_fails sp k 0 fl \<longleftrightarrow> False"
| "spill_fails sp k (Suc n) fl \<longleftrightarrow>
     (if sp k then (case fl of True # r \<Rightarrow> True | False # r \<Rightarrow> spill_fails sp (Suc k) n r | [] \<Rightarrow> False)
      else spill_fails sp (Suc k) n fl)"

lemma spill_fails_none [simp]: "spill_fails sp k n [] \<longleftrightarrow> False"
  by (induction n arbitrary: k) simp_all

text \<open>How \<open>m\<close> lines that have been printed are counted among those to be printed.\<close>

definition counted :: "env \<Rightarrow> nat \<Rightarrow> out \<Rightarrow> dsdb \<Rightarrow> bool \<Rightarrow> out \<Rightarrow> dsdb \<Rightarrow> bool" where
  "counted e m f d ok f' d' \<longleftrightarrow> (\<forall>n. spill_fails (e_spill e) (o_calls f) (m + n) (faults (ds_fs d)) \<longleftrightarrow>
     (ok \<longrightarrow> spill_fails (e_spill e) (o_calls f') n (faults (ds_fs d'))))"

lemma counted_trans: "counted e m f d True f1 d1 \<Longrightarrow> counted e n f1 d1 ok f' d' \<Longrightarrow> counted e (m + n) f d ok f' d'"
  by (simp add: counted_def add.assoc)

lemma counted_none [simp]: "counted e 0 f d True f d"
  by (simp add: counted_def)

lemma counted_cong: "ds_fs d = ds_fs d1 \<Longrightarrow> ds_fs d' = ds_fs d1' \<Longrightarrow> counted e m f d ok f' d' = counted e m f d1 ok f' d1'"
  by (simp add: counted_def)

lemma out_text_wrote:
  assumes "length (fdata (ds_fs d) (o_fd f)) = o_pos f" and "bs \<noteq> []"
  shows "\<exists>ok f' g. out_text e bs f d = (ok, f', d\<lparr>ds_fs := g\<rparr>) \<and> wrote e bs f d ok f' (d\<lparr>ds_fs := g\<rparr>) \<and>
    counted e 1 f d ok f' (d\<lparr>ds_fs := g\<rparr>)"
proof -
  define f1 where "f1 = f\<lparr>o_buf := o_buf f @ bs, o_calls := Suc (o_calls f)\<rparr>"
  have t: "out_text e bs f d = (if e_spill e (o_calls f) then out_flush f1 d else (True, f1, d))"
    by (simp add: out_text_def Let_def f1_def)
  have w: "wrote e bs f d True f1 d" using assms(1) by (simp add: wrote_def f1_def printed_def)
  have "length (fdata (ds_fs d) (o_fd f1)) = o_pos f1" using assms(1) by (simp add: f1_def)
  from out_flush_wrote [OF this, of e] obtain ok f' g where
    f: "out_flush f1 d = (ok, f', d\<lparr>ds_fs := g\<rparr>)" "wrote e [] f1 d ok f' (d\<lparr>ds_fs := g\<rparr>)" by blast
  show ?thesis
  proof (cases "e_spill e (o_calls f)")
    case False
    moreover have "d\<lparr>ds_fs := ds_fs d\<rparr> = d" by simp
    ultimately show ?thesis using w unfolding t
      by (intro exI [of _ True] exI [of _ f1] exI [of _ "ds_fs d"]) (simp add: counted_def f1_def)
  next
    case True
    have "wrote e bs f d ok f' (d\<lparr>ds_fs := g\<rparr>)" using wrote_trans [OF w f(2)] by simp
    moreover have o: "ok = fst (out_flush f1 d)" "f' = fst (snd (out_flush f1 d))" "g = ds_fs (snd (snd (out_flush f1 d)))"
      using f(1) by simp_all
    have "counted e 1 f d ok f' (d\<lparr>ds_fs := g\<rparr>)" unfolding counted_def o
      using True assms(2) by (simp add: out_flush_def sys_write_def Let_def f1_def split: list.split bool.split)
    ultimately show ?thesis unfolding t using f(1) True by auto
  qed
qed

lemma line_nonempty [simp]: "line_of nb \<noteq> []" "db_text nbs = [] \<longleftrightarrow> nbs = []"
  by (simp_all add: line_of_def line_text_def) (cases nbs; simp add: line_of_def line_text_def)

text \<open>The lines of the old file.\<close>

definition kept_lines :: "name_blk list \<Rightarrow> name_blk list \<Rightarrow> name_blk list" where
  "kept_lines ups nbs = filter shown (map (changed ups) nbs)"

text \<open>What two states of a pass have in common.\<close>

definition goes_on :: "dsdb \<Rightarrow> dsdb \<Rightarrow> bool" where
  "goes_on d d' \<longleftrightarrow> settled d' \<and> disrcfile d' = disrcfile d"

lemma copy_lines_text:
  assumes "\<forall>nb \<in> set nbs. blk_fine nb" and "\<forall>u \<in> set ups. nb_aliases u \<noteq> []" and "db d = Some (db_text nbs)" and "settled d"
    and "length (fdata (ds_fs d) (o_fd f)) = o_pos f" and "length ts = length ups"
  shows "\<exists>ok ts' f' d'. copy_lines e ups ts f d = Some (if ok then None else Some OK, ts', f', d') \<and>
    wrote e (db_text (kept_lines ups nbs)) f d ok f' d' \<and> counted e (length (kept_lines ups nbs)) f d ok f' d' \<and> goes_on d d' \<and>
    (ok \<longrightarrow> ts' = map2 (\<lambda>u t. t \<or> (\<exists>nb \<in> set nbs. same_mtg u nb)) ups ts)"
  using assms
proof (induction nbs arbitrary: d f ts)
  case Nil
  have "map2 (\<lambda>u t. t) ups ts = ts" using Nil.prems(6) by (intro nth_equalityI) simp_all
  moreover have "copy_lines e ups ts f d = Some (None, ts, f, d)" by (subst copy_lines.simps) (use Nil.prems in \<open>simp add: getdbent_end\<close>)
  ultimately show ?case using Nil.prems by (intro exI [of _ True]) (auto simp: wrote_def kept_lines_def goes_on_def)
next
  case (Cons nb nbs)
  define d1 where "d1 = (at_blk nb (db_text nbs) d)\<lparr>current := entry_of_blk (changed ups nb) (current d)\<rparr>"
  define ts1 where "ts1 = map2 (\<lambda>u t. t \<or> same_mtg u nb) ups ts"
  have g: "getdbent d = Some (1, at_blk nb (db_text nbs) d)" by (rule getdbent_line) (use Cons.prems in simp_all)
  have m: "match_blocks ups ts (entry_of_blk nb (current d)) = Some (ts1, entry_of_blk (changed ups nb) (current d))"
    using match_blocks_at [OF Cons.prems(2,6)] by (simp add: ts1_def)
  have d1: "db d1 = Some (db_text nbs)" "settled d1" "disrcfile d1 = disrcfile d" "ds_fs d1 = ds_fs d" "length ts1 = length ups"
    "current d1 = entry_of_blk (changed ups nb) (current d)"
    using Cons.prems(6) by (simp_all add: d1_def ts1_def settled_def entry_of_blk_def)
  have t: "map2 (\<lambda>u t. t \<or> (\<exists>x \<in> set nbs. same_mtg u x)) ups ts1 = map2 (\<lambda>u t. t \<or> (\<exists>x \<in> set (nb # nbs). same_mtg u x)) ups ts"
    using Cons.prems(6) by (intro nth_equalityI) (auto simp: ts1_def)
  have st: "sb_status (entry_of_blk (changed ups nb) c) = nb_status (changed ups nb)" for c by (simp add: entry_of_blk_def)
  have fine: "\<forall>nb \<in> set nbs. blk_fine nb" using Cons.prems(1) by simp
  show ?case
  proof (cases "shown (changed ups nb)")
    case False
    have "copy_lines e ups ts f d = copy_lines e ups ts1 f d1"
      using False by (subst copy_lines.simps) (simp add: g m shown_def st d1_def)
    moreover from Cons.IH [OF fine Cons.prems(2) d1(1,2) _ d1(5), of f] Cons.prems(5) obtain ok ts' f' d' where
      "copy_lines e ups ts1 f d1 = Some (if ok then None else Some OK, ts', f', d')" "wrote e (db_text (kept_lines ups nbs)) f d1 ok f' d'"
      "counted e (length (kept_lines ups nbs)) f d1 ok f' d'" "goes_on d1 d'" "ok \<longrightarrow> ts' = map2 (\<lambda>u t. t \<or> (\<exists>nb \<in> set nbs. same_mtg u nb)) ups ts1" by (auto simp: d1(4))
    moreover have "wrote e bs f d1 ok f' d' = wrote e bs f d ok f' d'" "counted e n f d1 ok f' d' = counted e n f d ok f' d'" for bs n f ok f' d'
      by (rule wrote_cong; simp add: d1(4)) (rule counted_cong; simp add: d1(4))
    ultimately show ?thesis using False d1(3) t by (intro exI [of _ ok] exI [of _ ts'] exI [of _ f'] exI [of _ d'])
        (simp add: kept_lines_def goes_on_def)
  next
    case True
    from out_text_wrote [of d1 f "line_of (changed ups nb)" e] Cons.prems(5) obtain ok1 f1 g1 where
      o: "out_text e (line_of (changed ups nb)) f d1 = (ok1, f1, d1\<lparr>ds_fs := g1\<rparr>)" "wrote e (line_of (changed ups nb)) f d1 ok1 f1 (d1\<lparr>ds_fs := g1\<rparr>)"
      "counted e 1 f d1 ok1 f1 (d1\<lparr>ds_fs := g1\<rparr>)" by (auto simp: d1(4))
    define d2 where "d2 = d1\<lparr>ds_fs := g1\<rparr>"
    have d2: "db d2 = Some (db_text nbs)" "settled d2" "disrcfile d2 = disrcfile d" using d1 by (simp_all add: d2_def settled_def)
    have w: "wrote e bs f d1 ok f' d' = wrote e bs f d ok f' d'" "counted e n f d1 ok f' d' = counted e n f d ok f' d'" for bs n f ok f' d'
      by (rule wrote_cong; simp add: d1(4)) (rule counted_cong; simp add: d1(4))
    have c: "copy_lines e ups ts f d = (if \<not> ok1 then Some (Some OK, ts1, f1, d2) else copy_lines e ups ts1 f1 d2)"
      using True o(1) [folded d2_def, unfolded d1_def] by (subst copy_lines.simps) (simp add: g m shown_def st current_line_at)
    show ?thesis
    proof (cases ok1)
      case False
      with o(2,3) [unfolded w] c d2 True show ?thesis
        by (intro exI [of _ False] exI [of _ ts1] exI [of _ f1] exI [of _ d2])
          (simp add: wrote_def counted_def goes_on_def kept_lines_def flip: d2_def)
    next
      case ok: True
      have "length (fdata (ds_fs d2) (o_fd f1)) = o_pos f1" using o(2) ok by (simp add: wrote_def d2_def)
      from Cons.IH [OF fine Cons.prems(2) d2(1,2) this d1(5)] obtain ok ts' f' d' where
        r: "copy_lines e ups ts1 f1 d2 = Some (if ok then None else Some OK, ts', f', d')" "wrote e (db_text (kept_lines ups nbs)) f1 d2 ok f' d'"
        "counted e (length (kept_lines ups nbs)) f1 d2 ok f' d'" "goes_on d2 d'" "ok \<longrightarrow> ts' = map2 (\<lambda>u t. t \<or> (\<exists>nb \<in> set nbs. same_mtg u nb)) ups ts1" by auto
      have "wrote e (db_text (kept_lines ups (nb # nbs))) f d ok f' d'"
        using wrote_trans [OF _ r(2)] o(2) True \<open>ok1\<close> by (simp add: w d2_def kept_lines_def)
      moreover have "counted e (length (kept_lines ups (nb # nbs))) f d ok f' d'"
        using counted_trans [OF _ r(3), of 1 f d] o(3) True \<open>ok1\<close> by (simp add: w d2_def kept_lines_def)
      ultimately show ?thesis using r c \<open>ok1\<close> d2(3) t by (intro exI [of _ ok] exI [of _ ts'] exI [of _ f'] exI [of _ d']) (simp add: goes_on_def)
    qed
  qed
qed

lemma write_untouched_text:
  assumes "\<forall>(u, t) \<in> set ps. nb_aliases u \<noteq> []" and "length (fdata (ds_fs d) (o_fd f)) = o_pos f"
  shows "\<exists>ok f' g. write_untouched e ps f d = Some (ok, f', d\<lparr>ds_fs := g\<rparr>) \<and>
    wrote e (db_text (map fst (filter (\<lambda>p. \<not> snd p) ps))) f d ok f' (d\<lparr>ds_fs := g\<rparr>) \<and>
    counted e (length (filter (\<lambda>p. \<not> snd p) ps)) f d ok f' (d\<lparr>ds_fs := g\<rparr>)"
  using assms
proof (induction ps arbitrary: d f)
  case Nil
  then show ?case by (intro exI [of _ True] exI [of _ f] exI [of _ "ds_fs d"]) (simp add: wrote_def)
next
  case (Cons p ps)
  obtain u t where p: "p = (u, t)" by fastforce
  show ?case
  proof (cases t)
    case True
    with Cons p show ?thesis by simp
  next
    case False
    have l: "compress (nb_aliases u) = Some (join (nb_aliases u))" using Cons.prems(1) p by (simp add: compress_join)
    from out_text_wrote [OF Cons.prems(2), of "line_of u" e] obtain ok1 f1 g1 where
      o: "out_text e (line_of u) f d = (ok1, f1, d\<lparr>ds_fs := g1\<rparr>)" "wrote e (line_of u) f d ok1 f1 (d\<lparr>ds_fs := g1\<rparr>)"
      "counted e 1 f d ok1 f1 (d\<lparr>ds_fs := g1\<rparr>)" by auto
    show ?thesis
    proof (cases ok1)
      case False
      with o l \<open>\<not> t\<close> show ?thesis by (intro exI [of _ False] exI [of _ f1] exI [of _ g1]) (simp add: p wrote_def counted_def flip: line_of_def)
    next
      case True
      have "length (fdata (ds_fs (d\<lparr>ds_fs := g1\<rparr>)) (o_fd f1)) = o_pos f1" using o(2) True by (simp add: wrote_def)
      from Cons.IH [OF _ this] Cons.prems(1) obtain ok f' g where
        r: "write_untouched e ps f1 (d\<lparr>ds_fs := g1\<rparr>) = Some (ok, f', d\<lparr>ds_fs := g\<rparr>)"
        "wrote e (db_text (map fst (filter (\<lambda>p. \<not> snd p) ps))) f1 (d\<lparr>ds_fs := g1\<rparr>) ok f' (d\<lparr>ds_fs := g\<rparr>)"
        "counted e (length (filter (\<lambda>p. \<not> snd p) ps)) f1 (d\<lparr>ds_fs := g1\<rparr>) ok f' (d\<lparr>ds_fs := g\<rparr>)" by auto
      from o l \<open>\<not> t\<close> True have "write_untouched e (p # ps) f d = write_untouched e ps f1 (d\<lparr>ds_fs := g1\<rparr>)" by (simp add: p line_of_def)
      moreover have "wrote e (line_of u @ db_text (map fst (filter (\<lambda>p. \<not> snd p) ps))) f d ok f' (d\<lparr>ds_fs := g\<rparr>)"
        "counted e (1 + length (filter (\<lambda>p. \<not> snd p) ps)) f d ok f' (d\<lparr>ds_fs := g\<rparr>)"
        using wrote_trans [OF _ r(2), of "line_of u" f d] counted_trans [OF _ r(3), of 1 f d] o(2,3) True by simp_all
      ultimately show ?thesis using r(1) \<open>\<not> t\<close>
        by (intro exI [of _ ok] exI [of _ f'] exI [of _ g]) (simp add: p)
    qed
  qed
qed

subsection \<open>An update\<close>

text \<open>The names of the two files.\<close>

definition updates :: "env \<Rightarrow> string \<Rightarrow> name_blk list \<Rightarrow> name_blk list \<Rightarrow> dsdb \<Rightarrow> bool" where
  "updates e path nbs ups d \<longleftrightarrow> holds e path nbs d \<and> (\<forall>u \<in> set ups. blk_fine u) \<and> ups \<noteq> [] \<and> e_fclose e \<and>
     sole_link (ds_fs d) (path @ ''~'') \<and> (\<exists>r. sys_open_trunc (ds_fs d) (path @ ''~'') = Inr r)"

definition untouched :: "name_blk list \<Rightarrow> name_blk list \<Rightarrow> name_blk list" where
  "untouched nbs ups = filter (\<lambda>u. \<not> (\<exists>nb \<in> set nbs. same_mtg u nb)) ups"

lemma updated_parts: "updated ups nbs = kept_lines ups nbs @ untouched nbs ups"
  by (simp add: updated_def kept_lines_def untouched_def)

lemma updated_fine: "\<forall>u \<in> set ups. blk_fine u \<Longrightarrow> \<forall>nb \<in> set nbs. blk_fine nb \<Longrightarrow> \<forall>nb \<in> set (updated ups nbs). blk_fine nb"
  by (auto simp: updated_def changed_fine)

lemma untouched_zip:
  "map fst (filter (\<lambda>p. \<not> snd p) (zip ups (map2 (\<lambda>u t. t \<or> (\<exists>nb \<in> set nbs. same_mtg u nb)) ups (replicate (length ups) False)))) = untouched nbs ups"
  by (induction ups) (auto simp: untouched_def)

lemma untouched_zip_length:
  "length (filter (\<lambda>p. \<not> snd p) (zip ups (map2 (\<lambda>u t. t \<or> (\<exists>nb \<in> set nbs. same_mtg u nb)) ups (replicate (length ups) False)))) =
   length (untouched nbs ups)"
  using arg_cong [OF untouched_zip, of length] by simp

text \<open>
  The end of an update: the old file is as it was, or the new one is in its place; the other one may be gone.
\<close>

definition replaced :: "string \<Rightarrow> bytes \<Rightarrow> fsys \<Rightarrow> code \<Rightarrow> fsys \<Rightarrow> bool" where
  "replaced path bs f c g \<longleftrightarrow> (contents g path = contents f path \<or> c = OK \<and> contents g path = Some bs) \<and>
     (\<forall>q. q \<noteq> path \<and> q \<noteq> path @ ''~'' \<longrightarrow> contents g q = contents f q)"

lemma out_flush_only:
  "\<exists>g. snd (snd (out_flush f d)) = d\<lparr>ds_fs := g\<rparr> \<and> only_file (o_fd f) (ds_fs d) g"
proof -
  obtain w g where w: "sys_write (ds_fs d) (o_fd f) (o_pos f) (o_buf f) = (w, g)" by fastforce
  have o: "only_file (o_fd f) (ds_fs d) g" using sys_write_frame [OF w] by (simp add: only_file_def)
  show ?thesis
  proof (cases "o_buf f = []")
    case True
    then show ?thesis by (intro exI [of _ "ds_fs d"]) (simp add: out_flush_def)
  next
    case False
    with w o show ?thesis by (intro exI [of _ g]) (simp add: out_flush_def Let_def)
  qed
qed

lemma punt_ok:
  assumes "settled d"
  shows "\<exists>d' g. punt name c f d = Some (c, d') \<and> goes_on d d' \<and> only_file (o_fd f) (ds_fs d) g \<and> ds_fs d' = snd (sys_unlink g name)"
proof -
  from out_flush_only [of f d] obtain g where g: "snd (snd (out_flush f d)) = d\<lparr>ds_fs := g\<rparr>" "only_file (o_fd f) (ds_fs d) g" by blast
  have "settled (d\<lparr>ds_fs := g\<rparr>)" using assms by (simp add: settled_def)
  from enddbent_settled [OF this] obtain d2 where "enddbent (d\<lparr>ds_fs := g\<rparr>) = Some d2" "settled d2" "disrcfile d2 = disrcfile d" "ds_fs d2 = g" by auto
  with g show ?thesis
    by (intro exI [of _ "d2\<lparr>ds_fs := snd (sys_unlink g name)\<rparr>"] exI [of _ g]) (simp add: punt_def goes_on_def settled_def)
qed

text \<open>Seen from outside, the new file has no name but its own.\<close>

lemma only_file_contents:
  assumes "sys_open_trunc f tmp = Inr (i, f1)" and "sole_link f tmp" and "only_file i f1 g" and "q \<noteq> tmp"
  shows "contents g q = contents f q"
proof -
  note t = open_trunc_contents [OF assms(1,2)]
  have "fdata g d = fdata f d" if "map_of (links f) q = Some d" for d
    using t(3) [OF assms(4)] t(4) [of d] that assms(3) by (auto simp: only_file_def)
  then show ?thesis using t(3) [OF assms(4)] assms(3) by (cases "map_of (links f) q") (simp_all add: contents_def only_file_def)
qed

lemma unlink_contents: "q \<noteq> tmp \<Longrightarrow> contents (snd (sys_unlink g tmp)) q = contents g q"
  using map_of_filter_key [of "\<lambda>k. k \<noteq> tmp" "links g" q] by (simp add: sys_unlink_def contents_def)

text \<open>The end: the buffer is written out and the file renamed.\<close>

lemma finish_file_ok:
  assumes "sys_open_trunc f0 tmp = Inr (i, f1)" and "sole_link f0 tmp" and "only_file i f1 (ds_fs d)" and "o_fd f = i" and "settled d"
    and "length (fdata (ds_fs d) i) = o_pos f" and "\<not> o_error f" and "e_fclose e" and "path \<noteq> tmp"
  shows "\<exists>c d'. finish_file e tmp path f d = Some (c, d') \<and> goes_on d d' \<and>
    (contents (ds_fs d') path = contents f0 path \<or> c = OK \<and> contents (ds_fs d') path = Some (printed f d)) \<and>
    (\<forall>q. q \<noteq> path \<and> q \<noteq> tmp \<longrightarrow> contents (ds_fs d') q = contents f0 q) \<and>
    (faults (ds_fs d) = [] \<and> e_fsync e \<longrightarrow> c = OK \<and> sys_open (ds_fs d') path = Inr i \<and> fdata (ds_fs d') i = printed f d \<and> faults (ds_fs d') = []) \<and>
    (if e_fsync e then contents (ds_fs d') path = (if c = OK then Some (printed f d) else contents f0 path)
     else c = OK \<and> contents (ds_fs d') path = contents f0 path)"
proof -
  from enddbent_settled [OF assms(5)] obtain d1 where d1: "enddbent d = Some d1" "settled d1" "disrcfile d1 = disrcfile d" "ds_fs d1 = ds_fs d" by blast
  have "length (fdata (ds_fs d1) (o_fd f)) = o_pos f" using assms(4,6) by (simp add: d1(4))
  from out_flush_wrote [OF this, of e] obtain ok f' g where
    fl: "out_flush f d1 = (ok, f', d1\<lparr>ds_fs := g\<rparr>)" "wrote e [] f d1 ok f' (d1\<lparr>ds_fs := g\<rparr>)" "ok \<longrightarrow> o_buf f' = []" by blast
  define d2 where "d2 = d1\<lparr>ds_fs := g\<rparr>"
  have d2: "settled d2" "disrcfile d2 = disrcfile d" "ds_fs d2 = g" using d1 by (simp_all add: d2_def settled_def)
  have o2: "only_file i f1 g" "o_fd f' = i"
    using only_file_trans [OF assms(3)] fl(2) assms(4) d1(4) by (simp_all add: wrote_def)
  note old = only_file_contents [OF assms(1,2)]
  show ?thesis
  proof (cases "e_fsync e \<and> ok")
    case False
    have "o_error f' \<longleftrightarrow> \<not> ok" using fl(2) assms(7) by (auto simp: wrote_def)
    with False have "finish_file e tmp path f d = punt tmp (if e_fsync e then CANT_WRITE_TEMP else OK) f' d2"
      by (auto simp: finish_file_def d1(1) fl(1) d2_def)
    moreover from punt_ok [OF d2(1)] obtain d' g' where
      p: "punt tmp (if e_fsync e then CANT_WRITE_TEMP else OK) f' d2 = Some (if e_fsync e then CANT_WRITE_TEMP else OK, d')"
        "goes_on d2 d'" "only_file (o_fd f') (ds_fs d2) g'" "ds_fs d' = snd (sys_unlink g' tmp)" by blast
    moreover have "contents (ds_fs d') q = contents f0 q" if "q \<noteq> tmp" for q
      using old [OF _ that, of g'] only_file_trans [OF o2(1)] p(3) that by (simp add: o2(2) d2(3) p(4) unlink_contents)
    moreover have "faults (ds_fs d) = [] \<longrightarrow> ok" using fl(2) d1(4) by (simp add: wrote_def)
    ultimately show ?thesis using False assms(9) d2(2) by (auto simp: goes_on_def)
  next
    case True
    note t = open_trunc_contents(1) [OF assms(1,2)]
    have l: "map_of (links g) tmp = Some i" using t o2(1) by (simp add: only_file_def)
    have pr: "fdata g i = printed f d" "faults (ds_fs d) = [] \<Longrightarrow> faults g = []"
      using fl(2,3) True assms(4) d1(4) o2(2) by (simp_all add: wrote_def printed_def)
    define h where "h = snd (sys_rename g tmp path)"
    have r: "sys_rename g tmp path = (0, h)" using l by (simp add: h_def sys_rename_def)
    then have "finish_file e tmp path f d = Some (OK, d2\<lparr>ds_fs := h\<rparr>)"
      using True fl(2) assms(7,8) by (simp add: finish_file_def d1(1) fl(1) d2_def wrote_def)
    moreover have "contents h path = Some (printed f d)"
      using rename_contents(1) [OF r] assms(9) l pr(1) by (simp add: contents_def)
    moreover have "contents h q = contents f0 q" if "q \<noteq> path" "q \<noteq> tmp" for q
      using rename_contents(2) [OF r _ that] assms(9) old [OF o2(1) that(2)] by simp
    moreover have "i_errno (inodes f1 i) = 0"
      using assms(1) by (auto simp: sys_open_trunc_def sys_create_def sys_open_def split: if_splits option.splits)
    then have "sys_open h path = Inr i" "fdata h i = printed f d" "faults h = faults g"
      using l pr(1) o2(1) by (simp_all add: h_def sys_rename_def sys_open_def only_file_def)
    ultimately show ?thesis using pr(2) d2 True by (intro exI [of _ OK] exI [of _ "d2\<lparr>ds_fs := h\<rparr>"]) (simp add: goes_on_def settled_def)
  qed
qed

lemma update_ok:
  assumes "updates e path nbs ups d"
  shows "\<exists>c d'. dsc_update_mtg_set e user (Some ups) d = Some (c, d') \<and> settled d' \<and> disrcfile d' = Some path \<and>
    replaced path (db_text (updated ups nbs)) (ds_fs d) c (ds_fs d') \<and>
    (faults (ds_fs d) = [] \<and> e_fsync e \<longrightarrow> c = OK \<and> holds e path (updated ups nbs) d' \<and> faults (ds_fs d') = []) \<and>
    (if spill_fails (e_spill e) 0 (length (updated ups nbs)) (faults (ds_fs d)) \<or> \<not> e_fsync e
     then c = OK \<and> contents (ds_fs d') path = contents (ds_fs d) path
     else contents (ds_fs d') path = (if c = OK then Some (db_text (updated ups nbs)) else contents (ds_fs d) path))"
proof -
  define tmp where "tmp = path @ ''~''"
  have ne: "path \<noteq> tmp" by (simp add: tmp_def)
  from assms obtain i f1 where u: "holds e path nbs d" "\<forall>u \<in> set ups. blk_fine u" "ups \<noteq> []" "e_fclose e" "sole_link (ds_fs d) tmp"
    "sys_open_trunc (ds_fs d) tmp = Inr (i, f1)" by (fastforce simp: updates_def tmp_def)
  have al: "\<forall>u \<in> set ups. nb_aliases u \<noteq> []" "\<forall>nb \<in> set nbs. blk_fine nb" using u(1,2) by (simp_all add: blk_fine_def holds_def)
  from setdbent_ok [OF u(1)] obtain d1 where d1: "setdbent e user d = Some (OK, d1)" "rewound path (db_text nbs) d d1" by blast
  define f0 where "f0 = \<lparr>o_fd = i, o_pos = 0, o_buf = [], o_calls = 0, o_error = False\<rparr>"
  define d2 where "d2 = d1\<lparr>ds_fs := f1\<rparr>"
  note ot = open_trunc_contents [OF u(6,5)]
  have d2: "db d2 = Some (db_text nbs)" "settled d2" "length (fdata (ds_fs d2) (o_fd f0)) = o_pos f0" "disrcfile d2 = Some path" "ds_fs d2 = f1"
    using d1(2) ot(2) by (simp_all add: d2_def f0_def rewound_def settled_def)
  have fa: "faults f1 = faults (ds_fs d)"
    using u(6) by (auto simp: sys_open_trunc_def sys_create_def sys_open_def split: if_splits option.splits)
  from copy_lines_text [OF al(2,1) d2(1-3), of "replicate (length ups) False" e] obtain ok ts f2 d3 where
    c: "copy_lines e ups (replicate (length ups) False) f0 d2 = Some (if ok then None else Some OK, ts, f2, d3)"
      "wrote e (db_text (kept_lines ups nbs)) f0 d2 ok f2 d3" "goes_on d2 d3"
      "ok \<longrightarrow> ts = map2 (\<lambda>u t. t \<or> (\<exists>nb \<in> set nbs. same_mtg u nb)) ups (replicate (length ups) False)"
      "counted e (length (kept_lines ups nbs)) f0 d2 ok f2 d3" by auto
  have call: "dsc_update_mtg_set e user (Some ups) d = (if \<not> ok then punt tmp OK f2 d3
      else do { d \<leftarrow> clear_current d3;
                (ok, f, d) \<leftarrow> write_untouched e (zip ups ts) f2 d;
                if \<not> ok then punt tmp OK f d else finish_file e tmp path f d })"
    using u(3,6) d1 c(1) by (simp add: dsc_update_mtg_set_def rewound_def tmp_def [symmetric] f0_def [symmetric] d2_def [symmetric])
  have fd: "o_fd f0 = i" by (simp add: f0_def)
  have len: "length (updated ups nbs) = length (kept_lines ups nbs) + length (untouched nbs ups)" by (simp add: updated_parts)
  note old = only_file_contents [OF u(6,5)]
  have give_up: "\<exists>d'. punt tmp OK f d4 = Some (OK, d') \<and> settled d' \<and> disrcfile d' = Some path \<and>
      replaced path (db_text (updated ups nbs)) (ds_fs d) OK (ds_fs d') \<and> contents (ds_fs d') path = contents (ds_fs d) path"
    if "goes_on d2 d4" "only_file i f1 (ds_fs d4)" "o_fd f = i" for f d4
  proof -
    have "settled d4" using that(1) by (simp add: goes_on_def)
    from punt_ok [OF this] obtain d' g where
      p: "punt tmp OK f d4 = Some (OK, d')" "goes_on d4 d'" "only_file (o_fd f) (ds_fs d4) g" "ds_fs d' = snd (sys_unlink g tmp)" by blast
    have "contents (ds_fs d') q = contents (ds_fs d) q" if "q \<noteq> tmp" for q
      using old [OF _ that, of g] only_file_trans [OF \<open>only_file i f1 (ds_fs d4)\<close>] p(3,4) \<open>o_fd f = i\<close> that by (simp add: unlink_contents)
    with p that d2(4) ne show ?thesis by (auto simp: replaced_def goes_on_def simp flip: tmp_def)
  qed
  show ?thesis
  proof (cases ok)
    case False
    then have o: "faults (ds_fs d) \<noteq> []" "only_file i f1 (ds_fs d3)" "o_fd f2 = i" using c(2) fa fd by (auto simp: wrote_def d2(5))
    have "spill_fails (e_spill e) 0 (length (updated ups nbs)) (faults (ds_fs d))"
      using False c(5) fa by (simp add: counted_def len d2(5)) (simp add: f0_def)
    with o False give_up [OF c(3) o(2,3)] call show ?thesis by auto
  next
    case True
    have "settled d3" using c(3) by (simp add: goes_on_def)
    define d4 where "d4 = d3\<lparr>current := (current d3)\<lparr>sb_hostname := Null, sb_pathname := Null, sb_alias_list := Null, sb_spare := Null\<rparr>\<rparr>"
    have cl: "clear_current d3 = Some d4" using \<open>settled d3\<close> by (simp add: clear_current_def settled_def d4_def Let_def)
    have d4: "goes_on d2 d4" "ds_fs d4 = ds_fs d3" using c(3) by (simp_all add: d4_def goes_on_def settled_def)
    have o3: "o_fd f2 = i" "only_file i f1 (ds_fs d4)" "length (fdata (ds_fs d4) (o_fd f2)) = o_pos f2"
      using c(2) True fd by (simp_all add: wrote_def d2(5) d4(2))
    have "\<forall>(u, t) \<in> set (zip ups ts). nb_aliases u \<noteq> []" using al(1) by (auto dest: set_zip_leftD)
    from write_untouched_text [OF this o3(3), of e] True c(4) obtain ok2 f3 g where
      w: "write_untouched e (zip ups ts) f2 d4 = Some (ok2, f3, d4\<lparr>ds_fs := g\<rparr>)"
        "wrote e (db_text (untouched nbs ups)) f2 d4 ok2 f3 (d4\<lparr>ds_fs := g\<rparr>)"
        "counted e (length (untouched nbs ups)) f2 d4 ok2 f3 (d4\<lparr>ds_fs := g\<rparr>)" by (auto simp: untouched_zip untouched_zip_length)
    define d5 where "d5 = d4\<lparr>ds_fs := g\<rparr>"
    have d5: "goes_on d2 d5" "only_file i f1 (ds_fs d5)" "o_fd f3 = i"
      using d4(1) w(2) only_file_trans [OF o3(2)] by (simp_all add: d5_def goes_on_def settled_def wrote_def o3(1))
    have "wrote e (db_text (kept_lines ups nbs)) f0 d2 True f2 d4"
      using c(2) True wrote_cong [of d2 d2 d4 d3 e "db_text (kept_lines ups nbs)" f0 True f2] d4(2) by simp
    from wrote_trans [OF this w(2)] have all: "wrote e (db_text (updated ups nbs)) f0 d2 ok2 f3 d5" by (simp add: updated_parts d5_def)
    have "counted e (length (kept_lines ups nbs)) f0 d2 True f2 d4"
      using c(5) True counted_cong [of d2 d2 d4 d3 e "length (kept_lines ups nbs)" f0 True f2] d4(2) by simp
    from counted_trans [OF this w(3)] have "counted e (length (updated ups nbs)) f0 d2 ok2 f3 d5" by (simp add: len d5_def)
    from this [unfolded counted_def, rule_format, of 0] have ct: "spill_fails (e_spill e) 0 (length (updated ups nbs)) (faults (ds_fs d)) \<longleftrightarrow> \<not> ok2"
      by (simp add: d2(5) fa) (simp add: f0_def)
    have call2: "dsc_update_mtg_set e user (Some ups) d = (if \<not> ok2 then punt tmp OK f3 d5 else finish_file e tmp path f3 d5)"
      using True w(1) by (simp add: call cl d5_def)
    show ?thesis
    proof (cases ok2)
      case False
      then have "faults (ds_fs d) \<noteq> []" using all fa by (auto simp: wrote_def d2(5))
      with False give_up [OF d5] call2 ct show ?thesis by auto
    next
      case True
      have pr: "printed f3 d5 = db_text (updated ups nbs)" "\<not> o_error f3" "length (fdata (ds_fs d5) i) = o_pos f3"
        "faults (ds_fs d) = [] \<longrightarrow> faults (ds_fs d5) = []"
        using wrote_ok [OF all [unfolded eqTrueI [OF True]]] ot(2) fa fd by (simp_all add: d2(5)) (simp_all add: f0_def printed_def d2(5))
      have "settled d5" using d5(1) by (simp add: goes_on_def)
      from finish_file_ok [OF u(6,5) d5(2,3) this pr(3,2) u(4) ne] obtain r d' where
        f: "finish_file e tmp path f3 d5 = Some (r, d')" "goes_on d5 d'"
          "contents (ds_fs d') path = contents (ds_fs d) path \<or> r = OK \<and> contents (ds_fs d') path = Some (db_text (updated ups nbs))"
          "\<forall>q. q \<noteq> path \<and> q \<noteq> tmp \<longrightarrow> contents (ds_fs d') q = contents (ds_fs d) q"
          "faults (ds_fs d5) = [] \<and> e_fsync e \<longrightarrow> r = OK \<and> sys_open (ds_fs d') path = Inr i \<and> fdata (ds_fs d') i = db_text (updated ups nbs) \<and>
             faults (ds_fs d') = []"
          "if e_fsync e then contents (ds_fs d') path = (if r = OK then Some (db_text (updated ups nbs)) else contents (ds_fs d) path)
           else r = OK \<and> contents (ds_fs d') path = contents (ds_fs d) path"
        unfolding pr(1) by blast
      have "settled d'" "disrcfile d' = Some path" using f(2) d5(1) d2(4) by (simp_all add: goes_on_def)
      moreover from this have "holds e path (updated ups nbs) d'" if "sys_open (ds_fs d') path = Inr i" "fdata (ds_fs d') i = db_text (updated ups nbs)"
        using that updated_fine [OF u(2) al(2)] by (simp add: holds_def)
      ultimately show ?thesis
        using f call2 True pr(4) ct by (intro exI [of _ r] exI [of _ d']) (auto simp: replaced_def simp flip: tmp_def)
    qed
  qed
qed

subsection \<open>The properties\<close>

text \<open>
  C25. A lookup finds the first meeting with the name.  For a file in order and a name without commas, \<open>dsc_get_mtg\<close> ends, gives the first
  block with that alias, or \<open>NO_SUCH_MTG\<close> when no block has it, and leaves the files as they are.
\<close>

theorem dsc_get_mtg_finds:
  assumes "holds e path nbs d" and "CHR '','' \<notin> set name"
  shows "\<exists>r c d'. dsc_get_mtg e (Some user) (Some name) d = Some (r, c, d') \<and> holds e path nbs d' \<and> ds_fs d' = ds_fs d \<and>
    (if \<exists>nb \<in> set nbs. sees name nb then \<exists>xs nb ys. nbs = xs @ nb # ys \<and> (\<forall>x \<in> set xs. \<not> sees name x) \<and> sees name nb \<and>
        c = OK \<and> r = Some (nb\<lparr>nb_user_id := user\<rparr>)
     else c = NO_SUCH_MTG \<and> r = None)"
proof -
  from dsc_get_mtg_ok [OF assms, of user] obtain d' where
    g: "dsc_get_mtg e (Some user) (Some name) d = Some (case filter (sees name) nbs of
      [] \<Rightarrow> (None, NO_SUCH_MTG, d') | nb # _ \<Rightarrow> (Some (nb\<lparr>nb_user_id := user\<rparr>), OK, d'))" "holds e path nbs d'" "ds_fs d' = ds_fs d" by blast
  show ?thesis
  proof (cases "filter (sees name) nbs")
    case Nil
    then have "\<not> (\<exists>nb \<in> set nbs. sees name nb)" by (simp add: filter_empty_conv)
    with g Nil show ?thesis by simp
  next
    case (Cons nb l)
    then obtain xs ys where "nbs = xs @ nb # ys" "\<forall>x \<in> set xs. \<not> sees name x" "sees name nb" by (auto simp: filter_eq_Cons_iff)
    with g Cons show ?thesis by auto
  qed
qed

text \<open>
  C14. An update changes the blocks that it is given and no others.  When nothing goes wrong, \<open>dsc_update_mtg_set\<close> returns 0, and the file holds the old blocks in
  their order, each one that has been given with its new contents, without those that are marked as deleted, and then the
  blocks of meetings that it did not have.
\<close>

theorem dsc_update_refines:
  assumes "updates e path nbs ups d" and "faults (ds_fs d) = []" and "e_fsync e"
  shows "\<exists>d'. dsc_update_mtg_set e user (Some ups) d = Some (OK, d') \<and>
    holds e path (filter shown (map (changed ups) nbs) @ filter (\<lambda>u. \<not> (\<exists>nb \<in> set nbs. same_mtg u nb)) ups) d'"
  using update_ok [OF assms(1), of user] assms(2,3) by (auto simp: updated_def)

text \<open>
  C24. The file is replaced as a whole or not at all.  Whichever writes fail and whenever the library writes out its buffer, the update ends, and
  the user's file has its old contents or the new ones, the old ones if an error is returned; no other file but the one with the tilde has changed.
\<close>

theorem dsc_update_atomic:
  assumes "updates e path nbs ups d"
  shows "\<exists>c d'. dsc_update_mtg_set e user (Some ups) d = Some (c, d') \<and>
    (contents (ds_fs d') path = contents (ds_fs d) path \<or> c = OK \<and> contents (ds_fs d') path = Some (db_text (updated ups nbs))) \<and>
    (\<forall>q. q \<noteq> path \<and> q \<noteq> path @ ''~'' \<longrightarrow> contents (ds_fs d') q = contents (ds_fs d) q)"
  using update_ok [OF assms, of user] by (auto simp: replaced_def)

text \<open>
  C40. Which updates are lost without an error.  When one of the lines is printed while the library writes out its buffer, and that write
  fails, or when \<open>fsync\<close> fails, the update returns 0 and the user's file is as it was.  In all other cases the code tells whether it has
  been changed.
\<close>

theorem dsc_update_lost:
  assumes "updates e path nbs ups d"
  shows "\<exists>c d'. dsc_update_mtg_set e user (Some ups) d = Some (c, d') \<and>
    (if spill_fails (e_spill e) 0 (length (updated ups nbs)) (faults (ds_fs d)) \<or> \<not> e_fsync e
     then c = OK \<and> contents (ds_fs d') path = contents (ds_fs d) path
     else contents (ds_fs d') path = (if c = OK then Some (db_text (updated ups nbs)) else contents (ds_fs d) path))"
  using update_ok [OF assms, of user] by blast

text \<open>What becomes of a block.\<close>

lemma changed_cases:
  "changed ups nb = nb \<and> (\<forall>v \<in> set ups. \<not> same_mtg v nb) \<or>
   (\<exists>v \<in> set ups. same_mtg v nb \<and> changed ups nb = v\<lparr>nb_user_id := nb_user_id nb\<rparr>)"
proof (induction ups arbitrary: nb)
  case (Cons u ups)
  have "changed (u # ups) nb = changed ups (change u nb)" "\<And>v. same_mtg v (change u nb) = same_mtg v nb"
    "nb_user_id (change u nb) = nb_user_id nb"
    by (simp, rule same_change, simp add: change_def)
  with Cons.IH [of "change u nb"] show ?case by (auto simp: change_def)
qed simp

lemma updated_name:
  assumes "u \<in> set ups" and "shown u" and "\<forall>v \<in> set ups. same_mtg v u \<longrightarrow> v = u" and "name \<in> set (nb_aliases u)"
    and only: "\<forall>x \<in> set nbs \<union> set ups. name \<in> set (nb_aliases x) \<longrightarrow> same_mtg u x"
  shows "\<exists>x \<in> set (updated ups nbs). name \<in> set (nb_aliases x)"
    and "x \<in> set (updated ups nbs) \<Longrightarrow> name \<in> set (nb_aliases x) \<Longrightarrow> \<exists>w. x = u\<lparr>nb_user_id := w\<rparr>"
proof -
  have sym: "same_mtg a b \<Longrightarrow> same_mtg b a" "same_mtg a b \<Longrightarrow> same_mtg a c \<Longrightarrow> same_mtg b c" for a b c by (simp_all add: same_mtg_def)
  have ch: "changed ups nb = u\<lparr>nb_user_id := nb_user_id nb\<rparr>" if "same_mtg u nb" for nb
    using changed_cases [of ups nb] assms(1,3) that sym by metis
  show "\<exists>x \<in> set (updated ups nbs). name \<in> set (nb_aliases x)"
  proof (cases "\<exists>nb \<in> set nbs. same_mtg u nb")
    case True
    then obtain nb where nb: "nb \<in> set nbs" "same_mtg u nb" by blast
    have "shown (changed ups nb)" using assms(2) by (simp add: ch [OF nb(2)] shown_def)
    moreover have "name \<in> set (nb_aliases (changed ups nb))" using assms(4) by (simp add: ch [OF nb(2)])
    ultimately show ?thesis using nb(1) by (auto simp: updated_def)
  next
    case False
    with assms(1,4) show ?thesis by (auto simp: updated_def)
  qed
  assume x: "x \<in> set (updated ups nbs)" "name \<in> set (nb_aliases x)"
  then consider nb where "nb \<in> set nbs" "x = changed ups nb" | "x \<in> set ups" by (auto simp: updated_def)
  then show "\<exists>w. x = u\<lparr>nb_user_id := w\<rparr>"
  proof cases
    case 1
    have "same_mtg u nb"
      using changed_cases [of ups nb]
    proof (elim disjE bexE conjE)
      assume "changed ups nb = nb"
      with 1 x(2) only show ?thesis by simp
    next
      fix v assume v: "v \<in> set ups" "same_mtg v nb" "changed ups nb = v\<lparr>nb_user_id := nb_user_id nb\<rparr>"
      then have "same_mtg u v" using 1(2) x(2) only by simp
      with v(2) show ?thesis by (simp add: same_mtg_def)
    qed
    from ch [OF this] 1(2) show ?thesis by auto
  next
    case 2
    with only x(2) assms(3) sym have "x = u" by blast
    then show ?thesis by (intro exI [of _ "nb_user_id u"]) simp
  qed
qed

text \<open>
  C15. What has been updated is found.  Let no write and no \<open>fsync\<close> fail in an update with a block that is not marked as deleted and is the only
  one in it for its meeting.  Then a lookup with one of its names that no other meeting in the file or in the update has gives that block.  (A name
  that several meetings have finds the first of them.)
\<close>

theorem dsc_update_found:
  assumes "updates e path nbs ups d" and "faults (ds_fs d) = []" and "e_fsync e" and "u \<in> set ups" and "shown u"
    and "\<forall>v \<in> set ups. same_mtg v u \<longrightarrow> v = u" and "name \<in> set (nb_aliases u)" and "take 1 name \<noteq> ''*''"
    and "\<forall>x \<in> set nbs \<union> set ups. name \<in> set (nb_aliases x) \<longrightarrow> same_mtg u x"
  shows "\<exists>d1 d2. dsc_update_mtg_set e user (Some ups) d = Some (OK, d1) \<and>
    dsc_get_mtg e (Some who) (Some name) d1 = Some (Some (u\<lparr>nb_user_id := who\<rparr>), OK, d2)"
proof -
  from update_ok [OF assms(1), of user] assms(2,3) obtain d1 where
    d1: "dsc_update_mtg_set e user (Some ups) d = Some (OK, d1)" "holds e path (updated ups nbs) d1" by auto
  have "blk_fine u" using assms(1,4) by (simp add: updates_def)
  then have "CHR '','' \<notin> set name" using assms(7) by (auto simp: blk_fine_def alias_ok_def)
  from dsc_get_mtg_ok [OF d1(2) this, of who] obtain d2 where
    g: "dsc_get_mtg e (Some who) (Some name) d1 = Some (case filter (sees name) (updated ups nbs) of
      [] \<Rightarrow> (None, NO_SUCH_MTG, d2) | nb # _ \<Rightarrow> (Some (nb\<lparr>nb_user_id := who\<rparr>), OK, d2))" by blast
  have s: "sees name x \<longleftrightarrow> name \<in> set (nb_aliases x)" for x using assms(8) by (simp add: sees_def)
  note n = updated_name [OF assms(4-7,9)]
  from n(1) obtain x xs where x: "filter (sees name) (updated ups nbs) = x # xs" by (cases "filter (sees name) (updated ups nbs)") (auto simp: s filter_empty_conv)
  then have "x \<in> set (updated ups nbs)" "name \<in> set (nb_aliases x)" using s by (auto simp: filter_eq_Cons_iff)
  from n(2) [OF this] obtain w where "x = u\<lparr>nb_user_id := w\<rparr>" by blast
  with g x d1(1) show ?thesis by simp
qed

text \<open>
  A user without a file: the first update goes on after the error with a name that has not been set.
\<close>

lemma update_without_file:
  assumes "settled d" and "db_file d = None" and "disrcfile d = None" and "e_pw_dir e = Some dir" and "rc_name e = Some path"
    and "sys_open (ds_fs d) path = Inl ENOENT" and "ups \<noteq> []"
  shows "dsc_update_mtg_set e user (Some ups) d = None"
proof -
  have l: "enddbent d = Some d1 \<Longrightarrow> db_file d1 = None \<and> disrcfile d1 = None \<and> ds_fs d1 = ds_fs d" for d1
    using assms(2,3) by (auto simp: enddbent_def clear_current_def Let_def split: if_splits)
  from enddbent_settled [OF assms(1)] obtain d1 where d1: "enddbent d = Some d1" by blast
  have "find_rc_filename e d1 = Some (ERRNO ENOENT, d1)"
    using assms(4-6) l [OF d1] by (auto simp: find_rc_filename_def rc_name_def Let_def split: if_splits)
  then show ?thesis using d1 l [OF d1] assms(7) by (simp add: dsc_update_mtg_set_def setdbent_def)
qed

subsection \<open>An example\<close>

definition demo_nb :: "string \<Rightarrow> string \<Rightarrow> int \<Rightarrow> name_blk" where
  "demo_nb path name seen = \<lparr>nb_hostname = ''charon'', nb_pathname = path, nb_user_id = [], nb_aliases = [name, ''x''], nb_spare = [],
     nb_status = 0, nb_date_attended = 9, nb_last = seen\<rparr>"

definition demo_nbs :: "name_blk list" where
  "demo_nbs = [demo_nb ''/a'' ''one'' 4, demo_nb ''/b'' ''two'' 5]"

definition demo_db :: "bool list \<Rightarrow> dsdb" where
  "demo_db full = \<lparr>ds_fs = \<lparr>dirs = [''/u''], links = [(''/u/.meetings'', 1)],
       inodes = (\<lambda>_. \<lparr>i_data = db_text demo_nbs, i_uid = 0, i_mtime = 0, i_errno = 0\<rparr>), next_ino = 2, faults = full, now = 0, euid = 0\<rparr>,
     ds_errno = OK, db = None, db_file = None, db_user_id = None,
     current = \<lparr>sb_hostname = Null, sb_pathname = Null, sb_alias_list = Null, sb_spare = Null, sb_user_id = None, sb_status = 0,
       sb_date_attended = 0, sb_last = 0\<rparr>, disrcfile = None\<rparr>"

definition demo_env :: env where
  "demo_env = \<lparr>e_pw_dir = Some ''/v'', e_meetings = None, e_home = Some ''/u'', e_spill = (\<lambda>_. True), e_fsync = True, e_fclose = True\<rparr>"

lemma demo_fine: "length path < 9 \<Longrightarrow> word_ok path \<Longrightarrow> length name < 9 \<Longrightarrow> alias_ok name \<Longrightarrow> 0 \<le> seen \<Longrightarrow> seen < 10 \<Longrightarrow> blk_fine (demo_nb path name seen)"
  by (simp add: blk_fine_def demo_nb_def fits_def word_ok_def alias_ok_def c_ok_def line_of_def line_text_def int_text_def BUFSIZ_def decimal.simps)

lemma demo_holds: "holds demo_env ''/u/.meetings'' demo_nbs (demo_db full)"
  using demo_fine by (simp add: holds_def demo_db_def settled_def rc_name_def demo_env_def mtgs_def MAXPATHLEN_def sys_open_def demo_nbs_def
      word_ok_def alias_ok_def c_ok_def)

lemma demo_updates: "updates demo_env ''/u/.meetings'' demo_nbs [demo_nb ''/b'' ''two'' 7, demo_nb ''/c'' ''three'' 1] (demo_db full)"
proof -
  have "dir_of ''/u/.meetings~'' = ''/u''" by (simp add: dir_of_def)
  then show ?thesis
    using demo_holds demo_fine by (simp add: updates_def demo_env_def word_ok_def alias_ok_def c_ok_def)
      (simp add: demo_db_def sole_link_def sys_open_trunc_def sys_create_def dir_exists_def)
qed

theorem dsc_get_mtg_finds_witness:
  "\<exists>d'. dsc_get_mtg demo_env (Some ''srz'') (Some ''x'') (demo_db []) = Some (Some ((demo_nb ''/a'' ''one'' 4)\<lparr>nb_user_id := ''srz''\<rparr>), OK, d')"
proof -
  obtain r c d' where r: "dsc_get_mtg demo_env (Some ''srz'') (Some ''x'') (demo_db []) = Some (r, c, d')"
    "if \<exists>nb \<in> set demo_nbs. sees ''x'' nb then \<exists>xs nb ys. demo_nbs = xs @ nb # ys \<and> (\<forall>x \<in> set xs. \<not> sees ''x'' x) \<and> sees ''x'' nb \<and>
        c = OK \<and> r = Some (nb\<lparr>nb_user_id := ''srz''\<rparr>) else c = NO_SUCH_MTG \<and> r = None"
    using dsc_get_mtg_finds [OF demo_holds, of "''x''" "''srz''" "[]"] by auto
  have s: "sees ''x'' (demo_nb p n k)" for p n k by (simp add: sees_def demo_nb_def)
  then have "\<exists>nb \<in> set demo_nbs. sees ''x'' nb" by (simp add: demo_nbs_def)
  with r(2) obtain xs nb ys where x: "demo_nbs = xs @ nb # ys" "\<forall>x \<in> set xs. \<not> sees ''x'' x" "c = OK" "r = Some (nb\<lparr>nb_user_id := ''srz''\<rparr>)" by auto
  have "xs = []" using x(1,2) s by (cases xs) (auto simp: demo_nbs_def)
  with x r(1) show ?thesis by (simp add: demo_nbs_def)
qed

lemma demo_updated: "updated [demo_nb ''/b'' ''two'' 7, demo_nb ''/c'' ''three'' 1] demo_nbs =
  [demo_nb ''/a'' ''one'' 4, demo_nb ''/b'' ''two'' 7, demo_nb ''/c'' ''three'' 1]"
  by (simp add: updated_def demo_nbs_def demo_nb_def change_def same_mtg_def shown_def)

theorem dsc_update_refines_witness:
  "\<exists>d'. dsc_update_mtg_set demo_env None (Some [demo_nb ''/b'' ''two'' 7, demo_nb ''/c'' ''three'' 1]) (demo_db []) = Some (OK, d') \<and>
     holds demo_env ''/u/.meetings'' [demo_nb ''/a'' ''one'' 4, demo_nb ''/b'' ''two'' 7, demo_nb ''/c'' ''three'' 1] d'"
  using dsc_update_refines [OF demo_updates [of "[]"], of None] demo_updated by (simp add: updated_def demo_db_def demo_env_def)

theorem dsc_update_atomic_witness:
  "\<exists>c d'. dsc_update_mtg_set demo_env None (Some [demo_nb ''/b'' ''two'' 7, demo_nb ''/c'' ''three'' 1]) (demo_db [False, True]) = Some (c, d') \<and>
     (contents (ds_fs d') ''/u/.meetings'' = Some (db_text demo_nbs) \<or>
      c = OK \<and> contents (ds_fs d') ''/u/.meetings'' = Some (db_text [demo_nb ''/a'' ''one'' 4, demo_nb ''/b'' ''two'' 7, demo_nb ''/c'' ''three'' 1]))"
proof -
  have "contents (ds_fs (demo_db [False, True])) ''/u/.meetings'' = Some (db_text demo_nbs)" by (simp add: contents_def demo_db_def)
  with dsc_update_atomic [OF demo_updates [of "[False, True]"], of None] show ?thesis unfolding demo_updated by auto
qed

theorem dsc_update_lost_witness:
  "\<exists>d'. dsc_update_mtg_set demo_env None (Some [demo_nb ''/b'' ''two'' 7, demo_nb ''/c'' ''three'' 1]) (demo_db [False, True]) = Some (OK, d') \<and>
     contents (ds_fs d') ''/u/.meetings'' = contents (ds_fs (demo_db [False, True])) ''/u/.meetings''"
proof -
  have sp: "spill_fails (e_spill demo_env) 0 3 (faults (ds_fs (demo_db [False, True])))"
    by (simp add: demo_env_def demo_db_def eval_nat_numeral)
  have l: "length (updated [demo_nb ''/b'' ''two'' 7, demo_nb ''/c'' ''three'' 1] demo_nbs) = 3" by (simp add: demo_updated)
  note r = dsc_update_lost [OF demo_updates [of "[False, True]"], of None, unfolded l]
  then show ?thesis by (simp only: sp simp_thms if_True) blast
qed

theorem dsc_update_found_witness:
  "\<exists>d1 d2. dsc_update_mtg_set demo_env None (Some [demo_nb ''/b'' ''two'' 7, demo_nb ''/c'' ''three'' 1]) (demo_db []) = Some (OK, d1) \<and>
     dsc_get_mtg demo_env (Some ''srz'') (Some ''two'') d1 = Some (Some ((demo_nb ''/b'' ''two'' 7)\<lparr>nb_user_id := ''srz''\<rparr>), OK, d2)"
  by (rule dsc_update_found [OF demo_updates]) (simp_all add: demo_nbs_def demo_nb_def same_mtg_def shown_def demo_db_def demo_env_def)

end
