(* ===== verification/Conv.thy ===== *)
theory Conv
  imports Stubs
begin

text \<open>
  The client's connections: \<^verbatim>\<open>athena/bin/discuss/libds/conv_mgr.c\<close> keeps a table of them by the name of the module that is called,
  \<^verbatim>\<open>libds/res_module.c\<close> makes a host, a port and a service of such a name, \<^verbatim>\<open>libds/host.c\<close> compares host names, and
  \<open>open_rpc\<close> of \<^verbatim>\<open>libds/rpcall.c\<close> connects.  The build is that of \<^verbatim>\<open>debian/rules\<close>, with Kerberos 5 and without 4.

  A connection (\<open>rpc_conversation\<close>, a pointer) is its place in the list of all that were ever opened.  The stream of the
  one that the variable \<open>us\<close> of \<^verbatim>\<open>rpcall.c\<close> points to is in the state of the stubs, the others wait in the list; the
  variables \<open>errno\<close> and \<open>usp_internal_string\<close> stay what they are when the stream changes.
\<close>

record connection =
  cn_peer :: "string \<times> int \<times> string" \<comment> \<open>the host, port and service that it was opened to\<close>
  cn_stream :: usp
  cn_open :: bool

record conv =
  cv_module :: string
  cv_port :: int
  cv_hostname :: string
  cv_service_id :: string
  cv_rc :: "nat option"
  cv_server_version :: int
  cv_result :: int

record mgr =
  cl :: client
  cur_us :: "nat option"
  conns :: "connection list"
  tick :: nat \<comment> \<open>counts the calls to the outside, whose answers may change\<close>
  myhostname :: string
  service_port :: int
  conv_base :: "conv list option" \<comment> \<open>its first \<open>num_convs\<close> elements\<close>
  max_convs :: int
  cur_conv :: int

text \<open>
  The libraries and the system.  \<open>connect\<close> stands for all from the socket to \<open>USP_associate\<close>: it fails, or there is no room for the
  stream, or there is one.  The pair of sockets and the process of a local server are taken to be there; the program ends otherwise.
\<close>

datatype dialled = Refused int | No_stream int | Stream usp

record libs =
  lb_gethostname :: string
  lb_gethostbyname :: "nat \<Rightarrow> string \<Rightarrow> int + string" \<comment> \<open>\<open>h_errno\<close> or \<open>h_name\<close>\<close>
  lb_getservbyname :: "int option"
  lb_fallback_port :: int
  lb_path :: "string option"
  lb_program :: "string \<Rightarrow> bool" \<comment> \<open>a regular file that may be executed\<close>
  lb_host_realm :: "string \<Rightarrow> string option"
  lb_default_realm :: string
  lb_krb5_mk_req :: "nat \<Rightarrow> string \<Rightarrow> string \<Rightarrow> int + bytes"
  lb_connect :: "nat \<Rightarrow> string \<Rightarrow> int \<Rightarrow> dialled"
  lb_spawn :: "nat \<Rightarrow> string \<Rightarrow> usp option" \<comment> \<open>the sub-process and, folded into it, \<open>USP_associate\<close>: \<open>None\<close> when there is no memory\<close>
  lb_server :: string \<comment> \<open>\<open>SERVER\<close> of \<^verbatim>\<open>config.h\<close>\<close>
  lb_shutdown :: status

definition SERVER_LOCAL :: string where "SERVER_LOCAL = ''disserve-fs''"
definition SERVER_1 :: int where "SERVER_1 = 1"
definition SERVER_2 :: int where "SERVER_2 = 2"
definition RPC_HOST_UNKNOWN :: int where "RPC_HOST_UNKNOWN = ERROR_TABLE_BASE_rpc + 4"
definition RPC_MOD_UNKNOWN :: int where "RPC_MOD_UNKNOWN = ERROR_TABLE_BASE_rpc + 5"
definition RPC_NS_TIMEOUT :: int where "RPC_NS_TIMEOUT = ERROR_TABLE_BASE_rpc + 8"
definition RPC_NS_ERROR :: int where "RPC_NS_ERROR = ERROR_TABLE_BASE_rpc + 9"
definition RPC_NO_ADDR :: int where "RPC_NO_ADDR = ERROR_TABLE_BASE_rpc + 10"
definition EINTR :: int where "EINTR = 4"

subsection \<open>Host names\<close>

definition gethostbyname :: "libs \<Rightarrow> string \<Rightarrow> mgr \<Rightarrow> (int + string) \<times> mgr" where
  "gethostbyname lb h m = (lb_gethostbyname lb (tick m) h, m\<lparr>tick := Suc (tick m)\<rparr>)"

definition host_error :: "int \<Rightarrow> int" where
  "host_error h = (if h = 1 then RPC_HOST_UNKNOWN else if h = 2 then RPC_NS_TIMEOUT else if h = 3 then RPC_NS_ERROR
     else if h = 4 then RPC_NO_ADDR else RPC_NS_ERROR)"

text \<open>The name is kept in a buffer of 100 bytes.\<close>

definition local_host_name :: "libs \<Rightarrow> mgr \<Rightarrow> (string \<times> mgr) option" where
  "local_host_name lb m =
     (if myhostname m \<noteq> [] then Some (myhostname m, m) else
      let m = m\<lparr>myhostname := lb_gethostname lb\<rparr>; (hp, m) = gethostbyname lb (myhostname m) m in
      (case hp of
         Inl _ \<Rightarrow> Some (myhostname m, m)
       | Inr h \<Rightarrow> if 100 \<le> length h then None else Some (h, m\<lparr>myhostname := h\<rparr>)))"

text \<open>The character tests of the C library in the locale \<open>C\<close>.\<close>

definition LOWER :: string where "LOWER = ''abcdefghijklmnopqrstuvwxyz''"
definition UPPER :: string where "UPPER = ''ABCDEFGHIJKLMNOPQRSTUVWXYZ''"

definition islower :: "char \<Rightarrow> bool" where "islower c \<longleftrightarrow> c \<in> set LOWER"
definition isupper :: "char \<Rightarrow> bool" where "isupper c \<longleftrightarrow> c \<in> set UPPER"
definition toupper :: "char \<Rightarrow> char" where "toupper c = (case map_of (zip LOWER UPPER) c of Some u \<Rightarrow> u | None \<Rightarrow> c)"
definition tolower :: "char \<Rightarrow> char" where "tolower c = (case map_of (zip UPPER LOWER) c of Some u \<Rightarrow> u | None \<Rightarrow> c)"

fun namcmp :: "string \<Rightarrow> string \<Rightarrow> bool" where
  \<comment> \<open>true when the names differ\<close>
  "namcmp (a # str1) (b # str2) =
     (if a = b then namcmp str1 str2
      else if islower a \<or> isupper a then (if toupper a = toupper b then namcmp str1 str2 else True)
      else True)"
| "namcmp str1 str2 = (str1 \<noteq> [] \<or> str2 \<noteq> [])"

subsection \<open>\<open>res_module.c\<close>\<close>

text \<open>The inner option is what is returned; the outer one is \<open>None\<close> when a name does not fit into the buffer.\<close>

function path_search :: "(string \<Rightarrow> bool) \<Rightarrow> string \<Rightarrow> string \<Rightarrow> string option option" where
  "path_search program base path =
     (if path = [] then Some None
      else let val = takeWhile (\<lambda>c. c \<noteq> CHR '':'') path @ CHR ''/'' # base in
        if MAXPATHLEN \<le> length val then None
        else if program val then Some (Some val)
        else path_search program base (drop 1 (dropWhile (\<lambda>c. c \<noteq> CHR '':'') path)))"
  by auto
termination
proof (relation "measure (\<lambda>(_, _, path). length path)")
  fix path :: string
  show "path \<noteq> [] \<Longrightarrow> ((program, base, drop 1 (dropWhile (\<lambda>c. c \<noteq> CHR '':'') path)), (program, base, path))
    \<in> measure (\<lambda>(_, _, path). length path)" for program :: "string \<Rightarrow> bool" and base :: string
    using length_dropWhile_le [of "\<lambda>c. c \<noteq> CHR '':''" path] by (cases path) (auto simp: less_Suc_eq_le)
qed simp

declare path_search.simps [simp del]

text \<open>The host's name in small letters and its realm, or \<open>None\<close> when the realm does not fit into 30 bytes.\<close>

definition ExpandHost :: "libs \<Rightarrow> string \<Rightarrow> (string \<times> string) option" where
  "ExpandHost lb primary_name =
     (let krb_realm = (case lb_host_realm lb primary_name of
                         Some r \<Rightarrow> if r \<noteq> [] then r else lb_default_realm lb
                       | None \<Rightarrow> lb_default_realm lb)
      in if 30 \<le> length krb_realm then None else Some (map tolower primary_name, krb_realm))"

text \<open>The name of the host in the name of the module, made primary.\<close>

definition module_host :: "libs \<Rightarrow> string \<Rightarrow> mgr \<Rightarrow> ((int + string) \<times> mgr) option" where
  "module_host lb modname m =
     (if take 7 modname \<noteq> ''discuss'' then Some (Inl RPC_MOD_UNKNOWN, m)
      else case drop 7 modname of
        [] \<Rightarrow> do { (h, m) \<leftarrow> local_host_name lb m; Some (Inr h, m) }
      | c # h \<Rightarrow>
          if c \<noteq> CHR ''@'' then Some (Inl RPC_MOD_UNKNOWN, m)
          else if h = [] then Some (Inr [], m)
          else let (hp, m) = gethostbyname lb h m in
            (case hp of
               Inl e \<Rightarrow> Some (Inl (host_error e), m)
             | Inr h_name \<Rightarrow> if BUFSIZ \<le> length h_name then None else Some (Inr h_name, m)))"

text \<open>The port, and the name of the service in a buffer of 60 bytes.\<close>

definition remote_service :: "libs \<Rightarrow> string \<Rightarrow> mgr \<Rightarrow> ((int \<times> string) \<times> mgr) option" where
  "remote_service lb myhname m =
     (let m = (if service_port m = 0
               then m\<lparr>service_port := (case lb_getservbyname lb of Some p \<Rightarrow> p | None \<Rightarrow> lb_fallback_port lb)\<rparr> else m)
      in do { (krb_host, realm) \<leftarrow> ExpandHost lb myhname;
              let service_id = ''discuss/'' @ krb_host @ ''@'' @ realm;
              if 60 \<le> length service_id then None else Some ((service_port m, service_id), m) })"

text \<open>The result, the port, the host and the service.\<close>

definition resolve_module :: "libs \<Rightarrow> string \<Rightarrow> mgr \<Rightarrow> ((int \<times> int \<times> string \<times> string) \<times> mgr) option" where
  "resolve_module lb modname m =
     do { (h, m) \<leftarrow> module_host lb modname m;
          (case h of
             Inl e \<Rightarrow> Some ((e, 0, [], []), m)
           | Inr myhname \<Rightarrow>
               if myhname = [] then
                 if take 1 SERVER_LOCAL \<noteq> ''/'' then
                   do { pathval \<leftarrow> (case lb_path lb of None \<Rightarrow> Some None
                                     | Some p \<Rightarrow> path_search (lb_program lb) SERVER_LOCAL p);
                        (case pathval of
                           None \<Rightarrow> Some ((RPC_MOD_UNKNOWN, 0, [], SERVER_LOCAL), m)
                         | Some val \<Rightarrow> Some ((0, 0, myhname, val), m)) }
                 else Some ((0, 0, myhname, SERVER_LOCAL), m)
               else do { (lhn, m) \<leftarrow> local_host_name lb m;
                         if \<not> namcmp myhname lhn then Some ((0, 0, myhname, lb_server lb), m)
                         else do { ((port, service_id), m) \<leftarrow> remote_service lb myhname m;
                                   Some ((0, port, myhname, service_id), m) } }) }"

subsection \<open>\<open>rpcall.c\<close>\<close>

definition put_back :: "mgr \<Rightarrow> mgr" where
  "put_back m =
     (case cur_us m of
        None \<Rightarrow> m
      | Some r \<Rightarrow> m\<lparr>conns := (conns m)[r := (conns m ! r)\<lparr>cn_stream := us (cl m)\<rparr>]\<rparr>)"

text \<open>\<open>set_rpc\<close>, on the table of all connections.\<close>

definition choose_rpc :: "nat option \<Rightarrow> mgr \<Rightarrow> mgr" where
  "choose_rpc rc m =
     (let m = put_back m in
      (case rc of
         None \<Rightarrow> m\<lparr>cl := set_rpc None (cl m), cur_us := None\<rparr>
       | Some r \<Rightarrow>
           m\<lparr>cl := set_rpc (Some ((cn_stream (conns m ! r))\<lparr>us_errno := us_errno (us (cl m)),
                                   internal_string := internal_string (us (cl m))\<rparr>)) (cl m),
             cur_us := Some r\<rparr>))"

text \<open>A call of a stub; with a stream that has been freed it is undefined.\<close>

definition dangling :: "mgr \<Rightarrow> bool" where
  "dangling m = (case cur_us m of None \<Rightarrow> False | Some r \<Rightarrow> \<not> cn_open (conns m ! r))"

definition call :: "(client \<Rightarrow> 'a stub_result) \<Rightarrow> mgr \<Rightarrow> (int \<times> 'a option \<times> mgr) option" where
  "call f m = (if dangling m then None else do { (r, x, c) \<leftarrow> f (cl m); Some (r, x, m\<lparr>cl := c\<rparr>) })"

definition get_server_version :: "mgr \<Rightarrow> (int \<times> mgr) option" where
  "get_server_version m =
     (if dangling m then None else do { (v, c) \<leftarrow> stub_get_server_version (cl m); Some (v, m\<lparr>cl := c\<rparr>) })"

text \<open>
  \<^verbatim>\<open>auth_krb.c\<close>: the service and the instance in a service's name; a name that does not fit into 80 bytes is left without
  its end.
\<close>

definition krb5_service :: "string \<Rightarrow> (string \<times> string) option" where
  "krb5_service service_id =
     (let serv = takeWhile (\<lambda>c. c \<noteq> CHR ''@'') service_id in
      if 80 \<le> length serv then None
      else Some (takeWhile (\<lambda>c. c \<noteq> CHR ''/'') serv, drop 1 (dropWhile (\<lambda>c. c \<noteq> CHR ''/'') serv)))"

definition get_authenticator :: "libs \<Rightarrow> string \<Rightarrow> mgr \<Rightarrow> ((int + bytes) \<times> mgr) option" where
  "get_authenticator lb service_id m =
     do { (serv, instance') \<leftarrow> krb5_service service_id;
          Some (lb_krb5_mk_req lb (tick m) serv instance', m\<lparr>tick := Suc (tick m)\<rparr>) }"

definition new_connection :: "string \<times> int \<times> string \<Rightarrow> usp \<Rightarrow> mgr \<Rightarrow> mgr" where
  "new_connection peer u m =
     choose_rpc (Some (length (conns m)))
       (m\<lparr>conns := conns m @ [\<lparr>cn_peer = peer, cn_stream = u, cn_open = True\<rparr>]\<rparr>)"

text \<open>The ticket, or an empty one; an old server is only warned about on the terminal.\<close>

definition introduce :: "libs \<Rightarrow> string \<Rightarrow> mgr \<Rightarrow> (int \<times> mgr) option" where
  "introduce lb service_id m =
     do { (a, m) \<leftarrow> get_authenticator lb service_id m;
          (case a of
             Inr authp \<Rightarrow> do { (_, m) \<leftarrow> get_server_version (m\<lparr>cl := send_ticket (Some authp) (cl m)\<rparr>); Some (0, m) }
           | Inl e \<Rightarrow> Some (e, m\<lparr>cl := send_ticket None (cl m)\<rparr>)) }"

definition open_rpc :: "libs \<Rightarrow> string \<Rightarrow> int \<Rightarrow> string \<Rightarrow> mgr \<Rightarrow> ((nat option \<times> int) \<times> mgr) option" where
  "open_rpc lb host port_num service_id m =
     (let peer = (host, port_num, service_id); rc = length (conns m) in
      if take 1 service_id = ''/'' then
        let t = tick m; m = m\<lparr>tick := Suc t\<rparr> in
        (case lb_spawn lb t service_id of
           None \<Rightarrow> Some ((None, 0), choose_rpc None m)
         | Some u \<Rightarrow> Some ((Some rc, 0), new_connection peer u m))
      else
        let (hp, m) = gethostbyname lb host m in
        (case hp of
           Inl e \<Rightarrow> Some ((None, host_error e), m)
         | Inr _ \<Rightarrow>
             let t = tick m; m = m\<lparr>tick := Suc t\<rparr> in
             (case lb_connect lb t host port_num of
                Refused e \<Rightarrow> Some ((None, e), m)
              | No_stream e \<Rightarrow> Some ((None, e), choose_rpc None m)
              | Stream u \<Rightarrow> do { (code, m) \<leftarrow> introduce lb service_id (new_connection peer u m);
                                Some ((Some rc, code), m) })))"

text \<open>\<open>close_rpc\<close>; a stream is freed once.\<close>

definition close_connection :: "libs \<Rightarrow> nat \<Rightarrow> mgr \<Rightarrow> mgr option" where
  "close_connection lb r m =
     (if \<not> cn_open (conns m ! r) then None
      else let m = choose_rpc (Some r) m in
        do { c \<leftarrow> close_rpc (lb_shutdown lb) (cl m);
             Some (m\<lparr>cl := c, cur_us := None, conns := (conns m)[r := (conns m ! r)\<lparr>cn_stream := us c, cn_open := False\<rparr>]\<rparr>) })"

subsection \<open>\<open>conv_mgr.c\<close>\<close>

definition convs :: "mgr \<Rightarrow> conv list" where
  "convs m = (case conv_base m of None \<Rightarrow> [] | Some cs \<Rightarrow> cs)"

definition get_module :: "mgr \<Rightarrow> string option" where
  "get_module m = (if conv_base m = None \<or> cur_conv m = -1 then None else Some (cv_module (convs m ! nat (cur_conv m))))"

text \<open>The end of \<open>set_module\<close> from the label \<open>create_entry\<close>.\<close>

definition create_entry :: "string \<Rightarrow> int \<Rightarrow> string \<Rightarrow> string \<Rightarrow> nat option \<Rightarrow> int \<Rightarrow> mgr \<Rightarrow> mgr option" where
  "create_entry module port hostname service_id rc result m =
     (let n = length (convs m);
          m = (if int n = max_convs m then m\<lparr>max_convs := max_convs m + 2\<rparr> else m);
          m = m\<lparr>cur_conv := (if rc = None then -1 else int n)\<rparr>
      in do { (v, m) \<leftarrow> get_server_version m;
              Some (m\<lparr>conv_base := Some (convs m @ [\<lparr>cv_module = module, cv_port = port, cv_hostname = hostname,
                cv_service_id = service_id, cv_rc = rc, cv_server_version = v,
                cv_result = (if rc = None then result else 0)\<rparr>])\<rparr>) })"

definition same_server :: "int \<Rightarrow> string \<Rightarrow> string \<Rightarrow> conv \<Rightarrow> bool" where
  "same_server port hostname service_id c \<longleftrightarrow>
     cv_port c = port \<and> \<not> namcmp hostname (cv_hostname c) \<and> service_id = cv_service_id c"

text \<open>The part for a module that is not in the table.  The pair is \<open>*fatal_error\<close> and \<open>*result\<close>.\<close>

definition new_module :: "libs \<Rightarrow> string \<Rightarrow> mgr \<Rightarrow> ((int \<times> int) \<times> mgr) option" where
  "new_module lb module m =
     do { ((result, port, hostname, service_id), m) \<leftarrow> resolve_module lb module m;
          if result \<noteq> 0 then Some ((1, result), m)
          else (case find (same_server port hostname service_id) (convs m) of
            Some c \<Rightarrow>
              if cv_result c \<noteq> 0 then Some ((1, cv_result c), m)
              else do { m \<leftarrow> create_entry module port hostname service_id (cv_rc c) 0 (choose_rpc (cv_rc c) m);
                        Some ((0, 0), m) }
          | None \<Rightarrow>
              do { ((rc, result), m) \<leftarrow> open_rpc lb hostname port service_id m;
                   if rc = None \<and> result = EINTR then Some ((1, result), m)
                   else do { m \<leftarrow> create_entry module port hostname service_id rc result m;
                             Some ((if rc = None then 1 else 0, result), m) } }) }"

definition set_module :: "libs \<Rightarrow> string option \<Rightarrow> mgr \<Rightarrow> ((int \<times> int) \<times> mgr) option" where
  "set_module lb module m =
     (let m = (if conv_base m = None then m\<lparr>conv_base := Some [], max_convs := 5\<rparr> else m) in
      case module of
        None \<Rightarrow> Some ((0, 0), m\<lparr>cur_conv := -1\<rparr>)
      | Some module \<Rightarrow>
          if cur_conv m \<noteq> -1 \<and> module = cv_module (convs m ! nat (cur_conv m))
          then Some ((0, 0), choose_rpc (cv_rc (convs m ! nat (cur_conv m))) m)
          else (case find (\<lambda>i. module = cv_module (convs m ! i)) [0 ..< length (convs m)] of
            Some i \<Rightarrow>
              if cv_result (convs m ! i) \<noteq> 0 then Some ((1, cv_result (convs m ! i)), m)
              else Some ((0, 0), (choose_rpc (cv_rc (convs m ! i)) m)\<lparr>cur_conv := int i\<rparr>)
          | None \<Rightarrow> new_module lb module m))"

text \<open>A connection that has been closed is taken out of the entries that follow.\<close>

function flush_entries :: "libs \<Rightarrow> conv list \<Rightarrow> mgr \<Rightarrow> mgr option" where
  "flush_entries lb [] m = Some m"
| "flush_entries lb (c # cs) m =
     do { m \<leftarrow> (case cv_rc c of None \<Rightarrow> Some m | Some r \<Rightarrow> close_connection lb r m);
          flush_entries lb (map (\<lambda>d. if cv_rc d = cv_rc c then d\<lparr>cv_rc := None\<rparr> else d) cs) m }"
  by pat_completeness auto
termination by (relation "measure (\<lambda>(_, cs, _). length cs)") auto

definition flush_convs :: "libs \<Rightarrow> mgr \<Rightarrow> mgr option" where
  "flush_convs lb m =
     (case conv_base m of
        None \<Rightarrow> Some m
      | Some cs \<Rightarrow> do { m \<leftarrow> flush_entries lb cs m;
                        Some (m\<lparr>conv_base := None, max_convs := 0, cur_conv := -1\<rparr>) })"

definition get_conv_server_version :: "mgr \<Rightarrow> int" where
  "get_conv_server_version m = (if cur_conv m = -1 then SERVER_0 else cv_server_version (convs m ! nat (cur_conv m)))"

end
