(* ===== verification/Interface.thy ===== *)
theory Interface
  imports Conv Dsname
begin

text \<open>
  The calls of the client library, \<^verbatim>\<open>athena/bin/discuss/libds/interface.c\<close>: each selects the meeting that it is about, which
  sets the connection to the meeting's host, and calls the stub for the version of the server there.  Memory is taken to be
  there, and the list of meetings, which is never freed, is a list.
\<close>

record meeting =
  mt_host :: string
  mt_path :: string
  mt_module :: string

record iface =
  if_mgr :: mgr
  meeting_list :: "meeting list"
  cmtg :: "meeting option"
  warnings :: "(int \<times> string) list" \<comment> \<open>what \<open>log_warning\<close> was given, the last first\<close>

definition same_mtg_in :: "name_blk \<Rightarrow> meeting \<Rightarrow> bool" where
  "same_mtg_in nbp mtg \<longleftrightarrow> nb_hostname nbp = mt_host mtg \<and> nb_pathname nbp = mt_path mtg"

definition create_mblock :: "string \<Rightarrow> string \<Rightarrow> iface \<Rightarrow> meeting \<times> iface" where
  "create_mblock host path d =
     (let mp = \<lparr>mt_host = host, mt_path = path, mt_module = ''discuss@'' @ host\<rparr>
      in (mp, d\<lparr>meeting_list := mp # meeting_list d\<rparr>))"

definition log_warning :: "int \<Rightarrow> string \<Rightarrow> iface \<Rightarrow> iface" where
  "log_warning code buf d = d\<lparr>warnings := (code, buf) # warnings d\<rparr>"

text \<open>The text of the warning has room for 100 bytes.\<close>

definition select_meeting :: "libs \<Rightarrow> name_blk \<Rightarrow> iface \<Rightarrow> (int \<times> iface) option" where
  "select_meeting lb nbp d =
     (let (mp, d) = (case find (same_mtg_in nbp) (meeting_list d) of
                       Some mp \<Rightarrow> (mp, d)
                     | None \<Rightarrow> create_mblock (nb_hostname nbp) (nb_pathname nbp) d)
      in do { ((fatal, code), m) \<leftarrow> set_module lb (Some (mt_module mp)) (if_mgr d);
              let d = d\<lparr>if_mgr := m\<rparr>;
              if code \<noteq> 0 \<and> fatal = 0 then
                let buf = ''while connecting to '' @ mt_module mp in
                if 100 \<le> length buf then None else Some (0, (log_warning code buf d)\<lparr>cmtg := Some mp\<rparr>)
              else Some (code, d\<lparr>cmtg := Some mp\<rparr>) })"

subsection \<open>The calls\<close>

text \<open>
  All but one are the selection, a return if it fails, and a call with the meeting's path.  The result is the code, what has been stored, and the state.
\<close>

type_synonym 'a dsc_result = "(int \<times> 'a option \<times> iface) option"

definition on_meeting :: "libs \<Rightarrow> name_blk \<Rightarrow> (string \<Rightarrow> mgr \<Rightarrow> (int \<times> 'a option \<times> mgr) option) \<Rightarrow> iface \<Rightarrow> 'a dsc_result" where
  "on_meeting lb nbp f d =
     do { (code, d) \<leftarrow> select_meeting lb nbp d;
          if code \<noteq> 0 then Some (code, None, d)
          else do { mp \<leftarrow> cmtg d;
                    (r, x, m) \<leftarrow> f (mt_path mp) (if_mgr d);
                    Some (r, x, d\<lparr>if_mgr := m\<rparr>) } }"

definition dsc_add_trn :: "libs \<Rightarrow> name_blk \<Rightarrow> string \<Rightarrow> int \<Rightarrow> iface \<Rightarrow> int dsc_result" where
  "dsc_add_trn lb nbp subject reply_trn = on_meeting lb nbp (\<lambda>mtg. call (stub_add_trn mtg subject reply_trn))"

definition dsc_add_trn2 :: "libs \<Rightarrow> name_blk \<Rightarrow> string \<Rightarrow> string \<Rightarrow> int \<Rightarrow> iface \<Rightarrow> int dsc_result" where
  "dsc_add_trn2 lb nbp subject signature reply_trn =
     on_meeting lb nbp (\<lambda>mtg m.
       if get_conv_server_version m \<ge> SERVER_2 then call (stub_add_trn2 mtg subject signature reply_trn) m
       else call (stub_add_trn mtg subject reply_trn) m)"

definition dsc_get_trn_info :: "libs \<Rightarrow> name_blk \<Rightarrow> int \<Rightarrow> iface \<Rightarrow> trn_info dsc_result" where
  "dsc_get_trn_info lb nbp trn = on_meeting lb nbp (\<lambda>mtg. call (stub_get_trn_info mtg trn))"

text \<open>
  A structure of the caller's, \<open>info\<close>, is passed to a call that fills its first fields; the fields that the server does not
  send are cleared even if the call has stored nothing.  A null pointer for the signature is the empty string.
\<close>

definition fill :: "trn_info3 \<Rightarrow> trn_info option \<Rightarrow> trn_info3" where
  "fill info x =
     (case x of None \<Rightarrow> info
      | Some y \<Rightarrow> trn_info.extend y \<lparr>ti_flags = ti_flags info, ti_signature = ti_signature info\<rparr>)"

definition fill2 :: "trn_info3 \<Rightarrow> trn_info2 option \<Rightarrow> trn_info3" where
  "fill2 info x = (case x of None \<Rightarrow> info | Some y \<Rightarrow> trn_info2.extend y \<lparr>ti_signature = ti_signature info\<rparr>)"

definition dsc_get_trn_info2 :: "libs \<Rightarrow> name_blk \<Rightarrow> int \<Rightarrow> trn_info2 \<Rightarrow> iface \<Rightarrow> trn_info2 dsc_result" where
  "dsc_get_trn_info2 lb nbp trn info =
     on_meeting lb nbp (\<lambda>mtg m.
       if get_conv_server_version m \<ge> SERVER_1 then call (stub_get_trn_info2 mtg trn) m
       else do { (r, x, m) \<leftarrow> call (stub_get_trn_info mtg trn) m;
                 Some (r, Some (case x of None \<Rightarrow> info\<lparr>ti_flags := 0\<rparr> | Some y \<Rightarrow> trn_info.extend y \<lparr>ti_flags = 0\<rparr>), m) })"

definition dsc_get_trn_info3 :: "libs \<Rightarrow> name_blk \<Rightarrow> int \<Rightarrow> trn_info3 \<Rightarrow> iface \<Rightarrow> trn_info3 dsc_result" where
  "dsc_get_trn_info3 lb nbp trn info =
     on_meeting lb nbp (\<lambda>mtg m.
       if get_conv_server_version m \<ge> SERVER_2 then call (stub_get_trn_info3 mtg trn) m
       else if get_conv_server_version m \<ge> SERVER_1 then
         do { (r, x, m) \<leftarrow> call (stub_get_trn_info2 mtg trn) m;
              Some (r, Some ((fill2 info x)\<lparr>ti_signature := []\<rparr>), m) }
       else
         do { (r, x, m) \<leftarrow> call (stub_get_trn_info mtg trn) m;
              Some (r, Some ((fill info x)\<lparr>ti_signature := [], ti_flags := 0\<rparr>), m) })"

definition dsc_set_trn_flags :: "libs \<Rightarrow> name_blk \<Rightarrow> int \<Rightarrow> int \<Rightarrow> iface \<Rightarrow> unit dsc_result" where
  "dsc_set_trn_flags lb nbp trn flags =
     on_meeting lb nbp (\<lambda>mtg m.
       if get_conv_server_version m \<ge> SERVER_1 then call (stub_set_trn_flags mtg trn flags) m
       else Some (code_int NO_SUPPORT, None, m))"

definition dsc_delete_trn :: "libs \<Rightarrow> name_blk \<Rightarrow> int \<Rightarrow> iface \<Rightarrow> unit dsc_result" where
  "dsc_delete_trn lb nbp trn = on_meeting lb nbp (\<lambda>mtg. call (stub_delete_trn mtg trn))"

definition dsc_retrieve_trn :: "libs \<Rightarrow> name_blk \<Rightarrow> int \<Rightarrow> iface \<Rightarrow> unit dsc_result" where
  "dsc_retrieve_trn lb nbp trn = on_meeting lb nbp (\<lambda>mtg. call (stub_retrieve_trn mtg trn))"

text \<open>
  Here the meeting is put on the list each time, and a warning is an error.  The argument \<open>hidden\<close> is not used.
\<close>

definition dsc_create_mtg :: "libs \<Rightarrow> string \<Rightarrow> string \<Rightarrow> string \<Rightarrow> int \<Rightarrow> int \<Rightarrow> iface \<Rightarrow> unit dsc_result" where
  "dsc_create_mtg lb host location name public hidden d =
     (let (mp, d) = create_mblock host location d
      in do { ((_, code), m) \<leftarrow> set_module lb (Some (mt_module mp)) (if_mgr d);
              let d = d\<lparr>if_mgr := m\<rparr>;
              if code \<noteq> 0 then Some (code, None, d)
              else do { (r, x, m) \<leftarrow> call (stub_create_mtg location name public) (if_mgr d);
                        Some (r, x, d\<lparr>if_mgr := m\<rparr>) } })"

definition dsc_get_mtg_info :: "libs \<Rightarrow> name_blk \<Rightarrow> iface \<Rightarrow> mtg_info dsc_result" where
  "dsc_get_mtg_info lb nbp = on_meeting lb nbp (\<lambda>mtg. call (stub_get_mtg_info mtg))"

definition dsc_get_trn :: "libs \<Rightarrow> name_blk \<Rightarrow> int \<Rightarrow> iface \<Rightarrow> unit dsc_result" where
  "dsc_get_trn lb nbp trn = on_meeting lb nbp (\<lambda>mtg. call (stub_get_trn mtg trn))"

definition dsc_remove_mtg :: "libs \<Rightarrow> name_blk \<Rightarrow> iface \<Rightarrow> unit dsc_result" where
  "dsc_remove_mtg lb nbp = on_meeting lb nbp (\<lambda>mtg. call (stub_remove_mtg mtg))"

definition dsc_updated_mtg :: "libs \<Rightarrow> name_blk \<Rightarrow> iface \<Rightarrow> int dsc_result" where
  "dsc_updated_mtg lb nbp = on_meeting lb nbp (\<lambda>mtg. call (stub_updated_mtg mtg (nb_date_attended nbp) (nb_last nbp)))"

definition dsc_get_acl :: "libs \<Rightarrow> name_blk \<Rightarrow> iface \<Rightarrow> acl dsc_result" where
  "dsc_get_acl lb nbp = on_meeting lb nbp (\<lambda>mtg. call (stub_get_acl mtg))"

definition dsc_get_access :: "libs \<Rightarrow> name_blk \<Rightarrow> string \<Rightarrow> iface \<Rightarrow> string dsc_result" where
  "dsc_get_access lb nbp princ = on_meeting lb nbp (\<lambda>mtg. call (stub_get_access mtg princ))"

definition dsc_set_access :: "libs \<Rightarrow> name_blk \<Rightarrow> string \<Rightarrow> string \<Rightarrow> iface \<Rightarrow> unit dsc_result" where
  "dsc_set_access lb nbp princ ms = on_meeting lb nbp (\<lambda>mtg. call (stub_set_access mtg princ ms))"

definition dsc_delete_access :: "libs \<Rightarrow> name_blk \<Rightarrow> string \<Rightarrow> iface \<Rightarrow> unit dsc_result" where
  "dsc_delete_access lb nbp princ = on_meeting lb nbp (\<lambda>mtg. call (stub_delete_access mtg princ))"

definition dsc_whoami :: "libs \<Rightarrow> name_blk \<Rightarrow> iface \<Rightarrow> string dsc_result" where
  "dsc_whoami lb nbp = on_meeting lb nbp (\<lambda>_. call (stub_dwhoami))"

end
