(* ===== verification/Talk.thy ===== *)
theory Talk
  imports Interface
begin

text \<open>
  Every stub talks on the connection that is there and leaves it there: the law that the table of connections asks of a
  call, with an interpretation for each stub.
\<close>

lemma connected_put [simp]: "connected (cl_put f c) = connected c"
  by (auto simp: cl_put_def Let_def split: prod.splits)

lemma connected_value [simp]: "connected (snd (cl_value g d c)) = connected c"
  by (auto simp: cl_value_def Let_def split: prod.splits)

lemma connected_send [simp]:
  "connected (cl_startsend p c) = connected c" "connected (cl_sendint i c) = connected c"
  "connected (cl_sendshort i c) = connected c" "connected (cl_sendstr s c) = connected c"
  "connected (cl_sendbool i c) = connected c" "connected (cl_sendit c) = connected c"
  by (simp_all add: cl_startsend_def cl_sendint_def cl_sendshort_def cl_sendstr_def cl_sendbool_def cl_sendit_def)

lemma connected_recv [simp]:
  "connected (snd (cl_recvint c)) = connected c" "connected (snd (cl_recvstr c)) = connected c"
  "connected (snd (cl_recvbool c)) = connected c"
  by (simp_all add: cl_recvint_def cl_recvstr_def cl_recvbool_def)

lemma connected_recv_pair [dest!]:
  "cl_recvint c = (x, c') \<Longrightarrow> connected c' = connected c"
  "cl_recvstr c = (y, c') \<Longrightarrow> connected c' = connected c"
  "cl_recvbool c = (x, c') \<Longrightarrow> connected c' = connected c"
  by (metis connected_recv snd_conv)+

lemma connected_recvreply [dest!]: "cl_recvreply c = Some c' \<Longrightarrow> connected c' = connected c"
  by (auto simp: cl_recvreply_def Let_def split: bind_split_asm if_splits)

lemma connected_sendfile [dest!]: "rpc_sendfile c = Some c' \<Longrightarrow> connected c' = connected c"
  by (auto simp: rpc_sendfile_def split: bind_split_asm)

lemma connected_files:
  "topen mode c = Some (r, e, c') \<Longrightarrow> connected c' = connected c"
  "tread n c = Some (r, b, e, c') \<Longrightarrow> connected c' = connected c"
  "twrite b c = Some (r, e, c') \<Longrightarrow> connected c' = connected c"
  "tclose c = (r, e, c') \<Longrightarrow> connected c' = connected c"
  by (auto simp: topen_def tread_def twrite_def tclose_def set_kind_def Let_def
      split: option.splits tkind.splits bind_split_asm prod.splits if_splits)

lemma connected_send_loop: "send_loop n b c = Some c' \<Longrightarrow> connected c' = connected c"
proof (induction n b c arbitrary: c' rule: send_loop.induct)
  case (1 n b c)
  show ?case
  proof (cases "n \<le> 0")
    case True
    with "1.prems" show ?thesis by (simp add: send_loop.simps)
  next
    case False
    define w where "w = nat (min n 508)"
    from "1.prems" False obtain r d e c1 where r: "tread w c = Some (r, d, e, c1)"
      by (subst (asm) send_loop.simps) (auto simp: Let_def w_def split: bind_split_asm)
    show ?thesis
    proof (cases "e \<noteq> OK")
      case True
      with "1.prems" False r connected_files(2) [OF r] show ?thesis
        by (subst (asm) send_loop.simps) (auto simp: Let_def w_def)
    next
      case ok: False
      from "1.prems" False r ok have "\<not> length (d @ drop (length d) b) < w"
        "send_loop (n - int w) (d @ drop (length d) b)
          (c1\<lparr>us := snd (USP_put_byte_block (us c1) (take w (d @ drop (length d) b)))\<rparr>) = Some c'"
        by (subst (asm) send_loop.simps, simp add: Let_def w_def split: if_splits)+
      from "1.IH" [OF False w_def r refl refl refl _ refl] this ok connected_files(2) [OF r]
      show ?thesis by simp
    qed
  qed
qed

lemma connected_senddata [dest!]: "senddata c = Some c' \<Longrightarrow> connected c' = connected c"
  by (auto simp: senddata_def Let_def split: bind_split_asm prod.splits
      dest!: connected_files connected_send_loop)

lemma connected_recv_loop: "recv_loop c = Some c' \<Longrightarrow> connected c' = connected c"
proof (rule recv_loop.raw_induct [of "\<lambda>c c'. connected c' = connected c"])
  fix f c c'
  assume IH: "\<And>c c'. f c = Some c' \<Longrightarrow> connected c' = connected c"
    and step: "(let (r, b, u) = USP_get_byte_block (us c) 508; c = c\<lparr>us := u\<rparr> in
      if r \<noteq> SUCCESS then Some (c\<lparr>cl_err := errno_int (us_errno u)\<rparr>)
      else if b = [] then Some c
      else do { (_, code, c) \<leftarrow> twrite b c; if code \<noteq> OK then Some c else f c }) = Some c'"
  obtain r b u where g: "USP_get_byte_block (us c) 508 = (r, b, u)" by (cases "USP_get_byte_block (us c) 508")
  from step consider "connected c' = connected c"
    | x c1 where "twrite b (c\<lparr>us := u\<rparr>) = Some (x, OK, c1)" "f c1 = Some c'"
    | x e where "twrite b (c\<lparr>us := u\<rparr>) = Some (x, e, c')"
    by (auto simp: g Let_def split: bind_split_asm if_splits)
  then show "connected c' = connected c"
  proof cases
    case 2
    with IH [OF 2(2)] connected_files(3) [OF 2(1)] show ?thesis by simp
  next
    case 3
    with connected_files(3) [OF 3] show ?thesis by simp
  qed simp
qed

lemma connected_recvdata [dest!]: "recvdata c = Some c' \<Longrightarrow> connected c' = connected c"
  by (auto simp: recvdata_def Let_def split: bind_split_asm prod.splits if_splits
      dest!: connected_files connected_recv_loop)

lemma connected_infos [simp]:
  "connected (snd (recv_trn_info c)) = connected c" "connected (snd (recv_trn_info2 c)) = connected c"
  "connected (snd (recv_trn_info3 c)) = connected c" "connected (snd (old_recv_mtg_info am c)) = connected c"
  "connected (snd (recv_mtg_info c)) = connected c"
proof -
  show 1: "connected (snd (recv_trn_info c)) = connected c" for c
    by (auto simp: recv_trn_info_def Let_def split: prod.splits)
  show 2: "connected (snd (old_recv_mtg_info am c)) = connected c" for am c
    by (auto simp: old_recv_mtg_info_def Let_def split: prod.splits)
  show "connected (snd (recv_trn_info2 c)) = connected c" "connected (snd (recv_trn_info3 c)) = connected c"
    using 1 [of c] by (auto simp: recv_trn_info2_def recv_trn_info3_def Let_def split: prod.splits)
  show "connected (snd (recv_mtg_info c)) = connected c"
    using 2 [of "[]" c] by (auto simp: recv_mtg_info_def Let_def split: prod.splits)
qed

lemma connected_entries [simp]: "connected (snd (recv_entries n c)) = connected c"
proof (induction n arbitrary: c)
  case (Suc n)
  obtain ms c1 where 1: "cl_recvstr c = (ms, c1)" by fastforce
  obtain p c2 where 2: "cl_recvstr c1 = (p, c2)" by fastforce
  obtain es c3 where 3: "recv_entries n c2 = (es, c3)" by fastforce
  from Suc [of c2] 1 2 3 show ?case by (auto simp: Let_def)
qed simp

lemma connected_acl [simp]: "connected (snd (recv_acl c)) = connected c"
  by (auto simp: recv_acl_def Let_def split: prod.splits)

lemma connected_structs [dest!]:
  "recv_trn_info c = (i1, c') \<Longrightarrow> connected c' = connected c"
  "recv_trn_info2 c = (i2, c') \<Longrightarrow> connected c' = connected c"
  "recv_trn_info3 c = (i3, c') \<Longrightarrow> connected c' = connected c"
  "recv_mtg_info c = (i4, c') \<Longrightarrow> connected c' = connected c"
  "recv_acl c = (a, c') \<Longrightarrow> connected c' = connected c"
  by (metis connected_infos connected_acl snd_conv)+

text \<open>What the table of connections relies on, for any stub.\<close>

locale stub_call =
  fixes f :: "client \<Rightarrow> 'a stub_result"
  assumes keeps: "f c = Some (r, x, c') \<Longrightarrow> connected c' = connected c"
begin

lemma call_only_stream:
  assumes "call f m = Some (r, x, m')"
  shows "m' = m\<lparr>cl := cl m'\<rparr>" and "connected (cl m') = connected (cl m)" and "\<not> dangling m"
  using assms keeps by (auto simp: call_def split: if_splits bind_split_asm)

end

lemmas stub_defs = stub_add_trn_def stub_add_trn2_def stub_get_trn_info_def stub_get_trn_info2_def
  stub_get_trn_info3_def stub_delete_trn_def stub_retrieve_trn_def stub_create_mtg_def stub_get_mtg_info_def
  stub_get_trn_def stub_remove_mtg_def stub_updated_mtg_def stub_get_acl_def stub_get_access_def stub_set_access_def
  stub_delete_access_def stub_set_trn_flags_def stub_dwhoami_def stub_end_def

lemma stubs_keep:
  "stub_add_trn mtg subject reply_trn c = Some (r0, x0, c') \<Longrightarrow> connected c' = connected c"
  "stub_add_trn2 mtg subject signature reply_trn c = Some (r1, x1, c') \<Longrightarrow> connected c' = connected c"
  "stub_get_trn_info mtg trn c = Some (r2, x2, c') \<Longrightarrow> connected c' = connected c"
  "stub_get_trn_info2 mtg trn c = Some (r3, x3, c') \<Longrightarrow> connected c' = connected c"
  "stub_get_trn_info3 mtg trn c = Some (r4, x4, c') \<Longrightarrow> connected c' = connected c"
  "stub_delete_trn mtg trn c = Some (r5, x5, c') \<Longrightarrow> connected c' = connected c"
  "stub_retrieve_trn mtg trn c = Some (r6, x6, c') \<Longrightarrow> connected c' = connected c"
  "stub_create_mtg mtg title public c = Some (r7, x7, c') \<Longrightarrow> connected c' = connected c"
  "stub_get_mtg_info mtg c = Some (r8, x8, c') \<Longrightarrow> connected c' = connected c"
  "stub_get_trn mtg trn c = Some (r9, x9, c') \<Longrightarrow> connected c' = connected c"
  "stub_remove_mtg mtg c = Some (r10, x10, c') \<Longrightarrow> connected c' = connected c"
  "stub_updated_mtg mtg date seen c = Some (r11, x11, c') \<Longrightarrow> connected c' = connected c"
  "stub_get_acl mtg c = Some (r12, x12, c') \<Longrightarrow> connected c' = connected c"
  "stub_get_access mtg princ c = Some (r13, x13, c') \<Longrightarrow> connected c' = connected c"
  "stub_set_access mtg princ ms c = Some (r14, x14, c') \<Longrightarrow> connected c' = connected c"
  "stub_delete_access mtg princ c = Some (r15, x15, c') \<Longrightarrow> connected c' = connected c"
  "stub_set_trn_flags mtg trn flags c = Some (r16, x16, c') \<Longrightarrow> connected c' = connected c"
  "stub_dwhoami c = Some (r17, x17, c') \<Longrightarrow> connected c' = connected c"
  by (auto simp: stub_defs rpccheck_def Let_def split: bind_split_asm if_splits prod.splits)

lemma version_keeps: "stub_get_server_version c = Some (v, c') \<Longrightarrow> connected c' = connected c"
  by (auto simp: stub_get_server_version_def Let_def split: bind_split_asm if_splits prod.splits)

interpretation add_stub: stub_call "stub_add_trn mtg subject reply_trn"
  by unfold_locales (rule stubs_keep)

interpretation add2_stub: stub_call "stub_add_trn2 mtg subject signature reply_trn"
  by unfold_locales (rule stubs_keep)

interpretation info_stub: stub_call "stub_get_trn_info mtg trn"
  by unfold_locales (rule stubs_keep)

interpretation info2_stub: stub_call "stub_get_trn_info2 mtg trn"
  by unfold_locales (rule stubs_keep)

interpretation info3_stub: stub_call "stub_get_trn_info3 mtg trn"
  by unfold_locales (rule stubs_keep)

interpretation delete_stub: stub_call "stub_delete_trn mtg trn"
  by unfold_locales (rule stubs_keep)

interpretation retrieve_stub: stub_call "stub_retrieve_trn mtg trn"
  by unfold_locales (rule stubs_keep)

interpretation create_stub: stub_call "stub_create_mtg mtg title public"
  by unfold_locales (rule stubs_keep)

interpretation mtg_info_stub: stub_call "stub_get_mtg_info mtg"
  by unfold_locales (rule stubs_keep)

interpretation get_stub: stub_call "stub_get_trn mtg trn"
  by unfold_locales (rule stubs_keep)

interpretation remove_stub: stub_call "stub_remove_mtg mtg"
  by unfold_locales (rule stubs_keep)

interpretation updated_stub: stub_call "stub_updated_mtg mtg date seen"
  by unfold_locales (rule stubs_keep)

interpretation get_acl_stub: stub_call "stub_get_acl mtg"
  by unfold_locales (rule stubs_keep)

interpretation get_access_stub: stub_call "stub_get_access mtg princ"
  by unfold_locales (rule stubs_keep)

interpretation set_access_stub: stub_call "stub_set_access mtg princ ms"
  by unfold_locales (rule stubs_keep)

interpretation delete_access_stub: stub_call "stub_delete_access mtg princ"
  by unfold_locales (rule stubs_keep)

interpretation flags_stub: stub_call "stub_set_trn_flags mtg trn flags"
  by unfold_locales (rule stubs_keep)

interpretation whoami_stub: stub_call "stub_dwhoami"
  by unfold_locales (rule stubs_keep)

end
