(* ===== verification/Connections.thy ===== *)
theory Connections
  imports Talk
begin

text \<open>
  The table of connections: each open connection is in it, no two of them go to the same server, and a module that has been set
  has the connection to the host that it names.
\<close>

subsection \<open>Servers\<close>

text \<open>
  The library's promises: a call that fails says why, and there is memory for the stream of a sub-process.  (Without it \<open>open_rpc\<close> returns no
  conversation and no error, and a meeting is taken for selected that has no connection.)
\<close>

definition libs_ok :: "libs \<Rightarrow> bool" where
  "libs_ok lb \<longleftrightarrow> (\<forall>t s. lb_spawn lb t s \<noteq> None) \<and>
     (\<forall>t h p e. lb_connect lb t h p = Refused e \<or> lb_connect lb t h p = No_stream e \<longrightarrow> e \<noteq> 0)"

text \<open>Servers are told apart by their host, in any letters, their port and the name of the service.\<close>

definition server :: "string \<times> int \<times> string \<Rightarrow> string \<times> int \<times> string" where
  "server p = (map toupper (fst p), snd p)"

text \<open>What a host name may lead to.\<close>

definition goes_to :: "libs \<Rightarrow> string \<Rightarrow> string \<times> int \<times> string \<Rightarrow> bool" where
  "goes_to lb h p \<longleftrightarrow>
     (if h = [] then fst p = [] else \<exists>t. lb_gethostbyname lb t h = Inr (fst p)) \<and>
     (fst p \<noteq> [] \<longrightarrow> snd p = (0, lb_server lb) \<or>
        (\<exists>k realm. ExpandHost lb (fst p) = Some (k, realm) \<and> snd (snd p) = ''discuss/'' @ k @ ''@'' @ realm))"

lemma upper_upper:
  assumes "islower c"
  shows "isupper (toupper c)"
proof -
  have "length LOWER = length UPPER" by (simp add: LOWER_def UPPER_def)
  with assms obtain u where "map_of (zip LOWER UPPER) c = Some u" "u \<in> set UPPER"
    by (metis islower_def map_of_SomeD map_of_zip_is_None not_Some_eq set_zip_rightD)
  then show ?thesis by (simp add: toupper_def isupper_def)
qed

lemma lower_or_same: "islower c \<or> toupper c = c"
proof -
  have "length LOWER = length UPPER" by (simp add: LOWER_def UPPER_def)
  then have "map_of (zip LOWER UPPER) c = None" if "\<not> islower c" using that by (simp add: islower_def)
  then show ?thesis by (cases "islower c") (auto simp: toupper_def)
qed

lemma namcmp_iff: "namcmp a b \<longleftrightarrow> map toupper a \<noteq> map toupper b"
proof (induction a b rule: namcmp.induct)
  case (1 a as b bs)
  have "islower a \<or> isupper a" if "a \<noteq> b" "toupper a = toupper b"
    using that upper_upper [of b] lower_or_same [of a] lower_or_same [of b] by metis
  with 1 show ?case by auto
qed auto

abbreviation conv_peer :: "conv \<Rightarrow> string \<times> int \<times> string" where
  "conv_peer c \<equiv> (cv_hostname c, cv_port c, cv_service_id c)"

lemma same_server_iff: "same_server port host service c \<longleftrightarrow> server (conv_peer c) = server (host, port, service)"
  by (auto simp: same_server_def server_def namcmp_iff)

subsection \<open>The state of the connections\<close>

abbreviation peers :: "mgr \<Rightarrow> (string \<times> int \<times> string) list" where "peers m \<equiv> map cn_peer (conns m)"
abbreviation opens :: "mgr \<Rightarrow> bool list" where "opens m \<equiv> map cn_open (conns m)"

definition stream_of :: "mgr \<Rightarrow> nat \<Rightarrow> usp" where
  "stream_of m r = (if cur_us m = Some r then us (cl m) else cn_stream (conns m ! r))"

text \<open>What the choice of a stream and the calls leave alone.\<close>

definition table :: "mgr \<Rightarrow> conv list option \<times> int \<times> int" where
  "table m = (conv_base m, max_convs m, cur_conv m)"

lemma convs_simps [simp]:
  "convs (m\<lparr>max_convs := i\<rparr>) = convs m" "convs (m\<lparr>cur_conv := i\<rparr>) = convs m" "convs (m\<lparr>cl := c\<rparr>) = convs m"
  "convs (m\<lparr>conns := cs\<rparr>) = convs m" "convs (m\<lparr>cur_us := r\<rparr>) = convs m" "convs (m\<lparr>conv_base := Some es\<rparr>) = es"
  "convs (m\<lparr>conv_base := None\<rparr>) = []"
  by (simp_all add: convs_def)

lemma put_back_simps [simp]:
  "peers (put_back m) = peers m" "opens (put_back m) = opens m" "length (conns (put_back m)) = length (conns m)"
  "cl (put_back m) = cl m" "cur_us (put_back m) = cur_us m" "table (put_back m) = table m"
  "conv_base (put_back m) = conv_base m" "convs (put_back m) = convs m" "cur_conv (put_back m) = cur_conv m" "max_convs (put_back m) = max_convs m"
  by (auto simp: put_back_def table_def convs_def map_update list_update_same_conv split: option.split)
    (metis list_update_beyond list_update_id length_map not_le_imp_less nth_map)+

lemma put_back_stream: "r < length (conns m) \<Longrightarrow> cn_stream (conns (put_back m) ! r) = stream_of m r"
  by (auto simp: put_back_def stream_of_def nth_list_update split: option.split)

lemma choose_rpc_simps [simp]:
  "peers (choose_rpc rc m) = peers m" "opens (choose_rpc rc m) = opens m"
  "length (conns (choose_rpc rc m)) = length (conns m)" "cur_us (choose_rpc rc m) = rc"
  "connected (cl (choose_rpc rc m)) = (rc \<noteq> None)" "table (choose_rpc rc m) = table m"
  "conv_base (choose_rpc rc m) = conv_base m" "convs (choose_rpc rc m) = convs m" "cur_conv (choose_rpc rc m) = cur_conv m"
  "max_convs (choose_rpc rc m) = max_convs m"
  using put_back_simps [of m]
  by (auto simp: choose_rpc_def set_rpc_def table_def convs_def Let_def simp del: put_back_simps split: option.split)

lemma choose_rpc_stream:
  "r < length (conns m) \<Longrightarrow> rc \<noteq> Some r \<Longrightarrow> stream_of (choose_rpc rc m) r = stream_of m r"
  using put_back_stream [of r m]
  by (cases rc) (auto simp: choose_rpc_def Let_def stream_of_def [where m = "mgr.cl_update _ _"] stream_of_def [where m = "mgr.cur_us_update _ _"])

subsection \<open>Resolving a name\<close>

text \<open>A lookup of names leaves the connections alone.\<close>

definition lines :: "mgr \<Rightarrow> client \<times> nat option \<times> connection list \<times> conv list option \<times> int \<times> int" where
  "lines m = (cl m, cur_us m, conns m, table m)"

lemma linesD:
  assumes "lines m' = lines m"
  shows "cl m' = cl m" "cur_us m' = cur_us m" "conns m' = conns m" "table m' = table m"
    "convs m' = convs m" "conv_base m' = conv_base m" "max_convs m' = max_convs m" "cur_conv m' = cur_conv m"
    "stream_of m' r = stream_of m r"
  using assms by (auto simp: lines_def table_def stream_of_def convs_def)

lemma lines_simps [simp]:
  "lines (m\<lparr>tick := n\<rparr>) = lines m" "lines (m\<lparr>myhostname := s\<rparr>) = lines m" "lines (m\<lparr>service_port := i\<rparr>) = lines m"
  "gethostbyname lb h m = (x, m') \<Longrightarrow> lines m' = lines m"
  by (auto simp: lines_def table_def gethostbyname_def)

lemma local_lines: "local_host_name lb m = Some (h, m') \<Longrightarrow> lines m' = lines m"
  by (auto simp: local_host_name_def gethostbyname_def Let_def split: if_splits sum.splits)

lemma module_host_lines: "module_host lb modname m = Some (h, m') \<Longrightarrow> lines m' = lines m"
  by (auto simp: module_host_def gethostbyname_def Let_def dest: local_lines
      split: if_splits sum.splits list.splits bind_split_asm)

lemma remote_lines: "remote_service lb h m = Some (x, m') \<Longrightarrow> lines m' = lines m"
  by (auto simp: remote_service_def Let_def split: if_splits bind_split_asm)

lemma resolve_lines: "resolve_module lb modname m = Some (x, m') \<Longrightarrow> lines m' = lines m"
  by (auto simp: resolve_module_def Let_def dest!: module_host_lines local_lines remote_lines
      split: if_splits sum.splits option.splits bind_split_asm prod.splits)

lemma module_host_named:
  "module_host lb (''discuss@'' @ h) m = Some (Inr host, m') \<Longrightarrow>
   if h = [] then host = [] else \<exists>t. lb_gethostbyname lb t h = Inr host"
  by (auto simp: module_host_def gethostbyname_def Let_def split: if_splits sum.splits)

lemma rpc_codes: "host_error e \<noteq> 0" "RPC_MOD_UNKNOWN \<noteq> 0"
  by (simp_all add: host_error_def RPC_HOST_UNKNOWN_def RPC_NS_TIMEOUT_def RPC_NS_ERROR_def RPC_NO_ADDR_def RPC_MOD_UNKNOWN_def et_bases)

lemma resolve_goes_to:
  assumes "resolve_module lb (''discuss@'' @ h) m = Some ((0, port, host, service), m')"
  shows "goes_to lb h (host, port, service)"
proof -
  from assms obtain m1 where 1: "module_host lb (''discuss@'' @ h) m = Some (Inr host, m1)"
    by (auto simp: resolve_module_def module_host_def gethostbyname_def rpc_codes Let_def
        split: if_splits sum.splits option.splits bind_split_asm prod.splits)
  have 2: "host \<noteq> [] \<Longrightarrow> (port, service) = (0, lb_server lb) \<or>
      (\<exists>k realm. ExpandHost lb host = Some (k, realm) \<and> service = ''discuss/'' @ k @ ''@'' @ realm)"
    using assms 1 by (auto simp: resolve_module_def remote_service_def Let_def split: if_splits bind_split_asm prod.splits)
  show ?thesis using module_host_named [OF 1] 2 by (auto simp: goes_to_def)
qed

subsection \<open>Opening\<close>

text \<open>What changes only the stream that is in use.\<close>

definition talked :: "mgr \<Rightarrow> mgr \<Rightarrow> bool" where
  "talked m m' \<longleftrightarrow> conns m' = conns m \<and> cur_us m' = cur_us m \<and> table m' = table m \<and> connected (cl m') = connected (cl m)"

lemma talked_trans: "talked m m1 \<Longrightarrow> talked m1 m2 \<Longrightarrow> talked m m2"
  by (auto simp: talked_def)

lemma talked_lines: "lines m' = lines m \<Longrightarrow> talked m m'"
  by (auto simp: talked_def lines_def)

lemma talked_cl: "connected c = connected (cl m) \<Longrightarrow> talked m (m\<lparr>cl := c\<rparr>)"
  by (simp add: talked_def table_def)

lemma talked_stream: "talked m m' \<Longrightarrow> cur_us m \<noteq> Some r \<Longrightarrow> stream_of m' r = stream_of m r"
  by (auto simp: talked_def stream_of_def)

lemma talked_table: "talked m m' \<Longrightarrow> convs m' = convs m \<and> max_convs m' = max_convs m \<and> cur_conv m' = cur_conv m"
  by (auto simp: talked_def table_def convs_def)

lemma version_talked: "get_server_version m = Some (v, m') \<Longrightarrow> talked m m'"
  by (auto simp: get_server_version_def dest!: version_keeps intro!: talked_cl split: if_splits bind_split_asm)

lemma ticket_connected [simp]: "connected (send_ticket a c) = connected c"
proof -
  have "connected (fold (\<lambda>ch. cl_sendshort (schar ch)) b c) = connected c" for b c
    by (induction b arbitrary: c) auto
  then show ?thesis by (auto simp: send_ticket_def Let_def split: option.split)
qed

lemma authenticator_lines: "get_authenticator lb s m = Some (a, m') \<Longrightarrow> lines m' = lines m"
  by (auto simp: get_authenticator_def split: bind_split_asm)

lemma introduce_talked:
  assumes "introduce lb s m = Some (code, m')"
  shows "talked m m'"
proof -
  from assms obtain a m1 where a: "get_authenticator lb s m = Some (a, m1)"
    by (auto simp: introduce_def split: bind_split_asm)
  from authenticator_lines [OF a] have 1: "talked m m1" by (rule talked_lines)
  have 2: "talked m1 (m1\<lparr>cl := send_ticket x (cl m1)\<rparr>)" for x by (rule talked_cl) simp
  show ?thesis
  proof (cases a)
    case (Inl e)
    with assms a have "m' = m1\<lparr>cl := send_ticket None (cl m1)\<rparr>" by (simp add: introduce_def)
    with talked_trans [OF 1 2] show ?thesis by simp
  next
    case (Inr b)
    with assms a obtain v where "get_server_version (m1\<lparr>cl := send_ticket (Some b) (cl m1)\<rparr>) = Some (v, m')"
      by (auto simp: introduce_def split: bind_split_asm)
    with talked_trans [OF talked_trans [OF 1 2] version_talked] show ?thesis by blast
  qed
qed

text \<open>A new connection becomes the one in use; without one the old stream may stay in use.\<close>

definition opened :: "string \<times> int \<times> string \<Rightarrow> mgr \<Rightarrow> mgr \<Rightarrow> bool" where
  "opened peer m m' \<longleftrightarrow> peers m' = peers m @ [peer] \<and> opens m' = opens m @ [True] \<and> table m' = table m \<and>
     cur_us m' = Some (length (conns m)) \<and> connected (cl m') \<and>
     (\<forall>r < length (conns m). stream_of m' r = stream_of m r)"

definition not_opened :: "mgr \<Rightarrow> mgr \<Rightarrow> bool" where
  "not_opened m m' \<longleftrightarrow> peers m' = peers m \<and> opens m' = opens m \<and> table m' = table m \<and>
     (cur_us m' = cur_us m \<and> connected (cl m') = connected (cl m) \<or> cur_us m' = None \<and> \<not> connected (cl m')) \<and>
     (\<forall>r < length (conns m). stream_of m' r = stream_of m r)"

lemma new_connection_opened: "opened peer m (new_connection peer u m)"
proof -
  define m1 where "m1 = m\<lparr>conns := conns m @ [\<lparr>cn_peer = peer, cn_stream = u, cn_open = True\<rparr>]\<rparr>"
  have "stream_of m1 r = stream_of m r" if "r < length (conns m)" for r
    using that by (simp add: m1_def stream_of_def nth_append)
  moreover have "table m1 = table m" "length (conns m1) = Suc (length (conns m))" by (simp_all add: m1_def table_def)
  ultimately show ?thesis
    using choose_rpc_stream [of _ m1 "Some (length (conns m))"]
    by (simp add: opened_def new_connection_def m1_def [symmetric]) (simp add: m1_def)
qed

lemma opened_talked:
  assumes "opened peer m m1" and "talked m1 m2"
  shows "opened peer m m2"
  using assms talked_stream [OF assms(2)] by (auto simp: opened_def talked_def)

lemma open_rpc_cases:
  assumes "open_rpc lb host port service m = Some ((rc, result), m')" and "libs_ok lb"
  shows "(rc = None \<and> result \<noteq> 0 \<and> not_opened m m') \<or> (rc = Some (length (conns m)) \<and> opened (host, port, service) m m')"
proof -
  have n: "not_opened m m1" if "lines m1 = lines m" for m1
    using linesD [OF that] by (simp add: not_opened_def)
  have c: "not_opened m (choose_rpc None m1)" if "lines m1 = lines m" for m1
    using linesD [OF that] choose_rpc_stream [of _ m1 None] by (simp add: not_opened_def)
  have o: "opened p m (new_connection p u m1)" if "lines m1 = lines m" for m1 p u
    using linesD [OF that] new_connection_opened [of p m1 u] by (simp add: opened_def)
  show ?thesis
  proof (cases "take 1 service = ''/''")
    case True
    from assms(2) obtain u where "lb_spawn lb (tick m) service = Some u" by (metis libs_ok_def not_Some_eq)
    with assms True o show ?thesis by (auto simp: open_rpc_def Let_def)
  next
    case False
    obtain hp m1 where h: "gethostbyname lb host m = (hp, m1)" by fastforce
    show ?thesis
    proof (cases hp)
      case (Inl e)
      with assms False h n rpc_codes show ?thesis by (auto simp: open_rpc_def Let_def)
    next
      case (Inr x)
      show ?thesis
      proof (cases "lb_connect lb (tick m1) host port")
        case (Stream u)
        with assms False h Inr obtain code where i: "introduce lb service (new_connection (host, port, service) u (m1\<lparr>tick := Suc (tick m1)\<rparr>)) = Some (code, m')"
          and rc: "rc = Some (length (conns m))"
          by (auto simp: open_rpc_def Let_def split: bind_split_asm)
        from opened_talked [OF o introduce_talked [OF i]] h rc show ?thesis by simp
      next
        case (Refused e)
        with assms False h Inr n [of "m1\<lparr>tick := Suc (tick m1)\<rparr>"] show ?thesis by (auto simp: open_rpc_def Let_def libs_ok_def)
      next
        case (No_stream e)
        with assms False h Inr c [of "m1\<lparr>tick := Suc (tick m1)\<rparr>"] show ?thesis by (auto simp: open_rpc_def Let_def libs_ok_def)
      qed
    qed
  qed
qed

subsection \<open>The invariant\<close>

text \<open>
  The table, with the list of the connections' other ends and whether they are open.  An entry without a connection has the
  error of its opening.
\<close>

definition conv_ok :: "libs \<Rightarrow> (string \<times> int \<times> string) list \<Rightarrow> bool list \<Rightarrow> conv \<Rightarrow> bool" where
  "conv_ok lb ps os c \<longleftrightarrow>
     (case cv_rc c of
        None \<Rightarrow> cv_result c \<noteq> 0
      | Some r \<Rightarrow> cv_result c = 0 \<and> r < length os \<and> os ! r \<and> server (ps ! r) = server (conv_peer c)) \<and>
     (\<forall>h. cv_module c = ''discuss@'' @ h \<longrightarrow> goes_to lb h (conv_peer c))"

definition table_ok :: "libs \<Rightarrow> conv list \<Rightarrow> (string \<times> int \<times> string) list \<Rightarrow> bool list \<Rightarrow> bool" where
  "table_ok lb cs ps os \<longleftrightarrow>
     length ps = length os \<and> (\<forall>c \<in> set cs. conv_ok lb ps os c) \<and> distinct (map cv_module cs) \<and>
     (\<forall>r < length os. os ! r \<longrightarrow> (\<exists>c \<in> set cs. cv_rc c = Some r)) \<and>
     (\<forall>r < length os. \<forall>s < length os. os ! r \<and> os ! s \<and> server (ps ! r) = server (ps ! s) \<longrightarrow> r = s)"

text \<open>The current entry has a connection, and the stream in use is open.\<close>

definition conv_inv :: "libs \<Rightarrow> mgr \<Rightarrow> bool" where
  "conv_inv lb m \<longleftrightarrow>
     table_ok lb (convs m) (peers m) (opens m) \<and> int (length (convs m)) \<le> max_convs m \<and>
     (cur_conv m = -1 \<or>
        0 \<le> cur_conv m \<and> cur_conv m < int (length (convs m)) \<and> cv_rc (convs m ! nat (cur_conv m)) \<noteq> None) \<and>
     (case cur_us m of None \<Rightarrow> \<not> connected (cl m) | Some r \<Rightarrow> r < length (conns m) \<and> opens m ! r \<and> connected (cl m))"

lemma conv_inv_talked:
  assumes "conv_inv lb m" and "talked m m'"
  shows "conv_inv lb m'"
  using assms talked_table [OF assms(2)] by (cases "cur_us m") (simp_all add: conv_inv_def talked_def)

lemma conv_inv_lines: "conv_inv lb m \<Longrightarrow> lines m' = lines m \<Longrightarrow> conv_inv lb m'"
  using conv_inv_talked talked_lines by blast

lemma conv_inv_not_opened:
  assumes "conv_inv lb m" and "not_opened m m'"
  shows "conv_inv lb m'"
proof -
  from assms(2) have t: "convs m' = convs m" "max_convs m' = max_convs m" "cur_conv m' = cur_conv m"
    and p: "peers m' = peers m" "opens m' = opens m" by (auto simp: not_opened_def table_def convs_def)
  from p(1) have l: "length (conns m') = length (conns m)" by (metis length_map)
  from assms(2) have "cur_us m' = cur_us m \<and> connected (cl m') = connected (cl m) \<or> cur_us m' = None \<and> \<not> connected (cl m')"
    by (simp add: not_opened_def)
  with assms(1) t p l show ?thesis by (cases "cur_us m") (auto simp: conv_inv_def)
qed

text \<open>The connection of an entry is chosen.\<close>

lemma conv_inv_choose:
  assumes "conv_inv lb m" and "c \<in> set (convs m)" and "cv_result c = 0"
  obtains r where "cv_rc c = Some r" "r < length (conns m)" "cn_open (conns m ! r)"
    "server (cn_peer (conns m ! r)) = server (conv_peer c)" "conv_inv lb (choose_rpc (Some r) m)"
proof -
  from assms(1,2) have "conv_ok lb (peers m) (opens m) c" by (simp add: conv_inv_def table_ok_def)
  with assms(3) obtain r where r: "cv_rc c = Some r" "r < length (conns m)" "opens m ! r"
      "server (peers m ! r) = server (conv_peer c)"
    by (auto simp: conv_ok_def split: option.splits)
  from assms(1) r have "conv_inv lb (choose_rpc (Some r) m)" by (simp add: conv_inv_def)
  with that r show ?thesis by simp
qed

text \<open>The entries that are made: for an open connection, for a failure, and for the connection that has just been opened.\<close>

lemma create_entry_step:
  assumes "create_entry module port host service rc result m = Some m'"
  shows "\<exists>v m1. talked m m1 \<and> convs m' = convs m @ [\<lparr>cv_module = module, cv_port = port, cv_hostname = host,
      cv_service_id = service, cv_rc = rc, cv_server_version = v, cv_result = (if rc = None then result else 0)\<rparr>] \<and>
    cur_conv m' = (if rc = None then -1 else int (length (convs m))) \<and>
    max_convs m' = (if int (length (convs m)) = max_convs m then max_convs m + 2 else max_convs m) \<and>
    conns m' = conns m1 \<and> cur_us m' = cur_us m1 \<and> cl m' = cl m1"
proof -
  define m0 where "m0 = (let m = (if int (length (convs m)) = max_convs m then m\<lparr>max_convs := max_convs m + 2\<rparr> else m)
    in m\<lparr>cur_conv := (if rc = None then -1 else int (length (convs m)))\<rparr>)"
  from assms obtain v m2 where v: "get_server_version m0 = Some (v, m2)"
    and m': "m' = m2\<lparr>conv_base := Some (convs m2 @ [\<lparr>cv_module = module, cv_port = port, cv_hostname = host,
      cv_service_id = service, cv_rc = rc, cv_server_version = v, cv_result = (if rc = None then result else 0)\<rparr>])\<rparr>"
    by (auto simp: create_entry_def m0_def Let_def split: bind_split_asm if_splits)
  have 0: "convs m0 = convs m" "conns m0 = conns m" "cur_us m0 = cur_us m" "cl m0 = cl m" "table m0 =
      (conv_base m, if int (length (convs m)) = max_convs m then max_convs m + 2 else max_convs m,
       if rc = None then -1 else int (length (convs m)))"
    by (simp_all add: m0_def table_def Let_def convs_def)
  from version_talked [OF v] have t: "talked m0 m2" .
  define m1 where "m1 = m\<lparr>cl := cl m2\<rparr>"
  from t 0 have "talked m m1" by (auto simp: m1_def talked_def table_def)
  then show ?thesis
    by (intro exI [of _ v] exI [of _ m1]) (use t 0 m' in \<open>auto simp: talked_def table_def m1_def convs_def\<close>)
qed

lemma conv_ok_old: "conv_ok lb ps os c \<Longrightarrow> length ps = length os \<Longrightarrow> conv_ok lb (ps @ [p]) (os @ [b]) c"
  by (auto simp: conv_ok_def nth_append split: option.splits)

lemma table_ok_add:
  assumes "table_ok lb cs ps os" and "conv_ok lb ps os c" and "cv_module c \<notin> cv_module ` set cs"
  shows "table_ok lb (cs @ [c]) ps os"
  using assms by (auto simp: table_ok_def)

lemma table_ok_open:
  assumes t: "table_ok lb cs ps os" and c: "cv_rc c = Some (length os)" "cv_result c = 0" "cv_module c \<notin> cv_module ` set cs"
    and g: "\<And>h. cv_module c = ''discuss@'' @ h \<Longrightarrow> goes_to lb h (conv_peer c)"
    and n: "\<And>d. d \<in> set cs \<Longrightarrow> server (conv_peer d) \<noteq> server (conv_peer c)"
  shows "table_ok lb (cs @ [c]) (ps @ [conv_peer c]) (os @ [True])"
proof -
  have l: "length ps = length os" using t by (simp add: table_ok_def)
  have fresh: "server (ps ! r) \<noteq> server (conv_peer c)" if "r < length os" "os ! r" for r
  proof -
    from t that obtain d where "d \<in> set cs" "cv_rc d = Some r" "conv_ok lb ps os d" by (auto simp: table_ok_def)
    with n show ?thesis by (auto simp: conv_ok_def)
  qed
  have 1: "\<forall>r < Suc (length os). (os @ [True]) ! r \<longrightarrow> (\<exists>d \<in> set (cs @ [c]). cv_rc d = Some r)"
    using t c by (auto simp: table_ok_def nth_append less_Suc_eq)
  have 2: "\<forall>r < Suc (length os). \<forall>s < Suc (length os). (os @ [True]) ! r \<and> (os @ [True]) ! s \<and>
      server ((ps @ [conv_peer c]) ! r) = server ((ps @ [conv_peer c]) ! s) \<longrightarrow> r = s"
    using t fresh fresh [THEN not_sym] l unfolding table_ok_def nth_append less_Suc_eq by auto
  have 3: "conv_ok lb (ps @ [conv_peer c]) (os @ [True]) c" using c g l by (simp add: conv_ok_def nth_append)
  show ?thesis using t c(3) l 1 2 3 conv_ok_old by (auto simp: table_ok_def)
qed

subsection \<open>Setting a module\<close>

text \<open>What the success of \<open>set_module\<close> means.\<close>

definition reached :: "libs \<Rightarrow> string \<Rightarrow> mgr \<Rightarrow> mgr \<Rightarrow> bool" where
  "reached lb module m m' \<longleftrightarrow>
     (\<exists>r c. cur_us m' = Some r \<and> r < length (conns m') \<and> cn_open (conns m' ! r) \<and> c \<in> set (convs m') \<and> cv_rc c = Some r \<and>
        cur_conv m' \<noteq> -1 \<and> c = convs m' ! nat (cur_conv m') \<and> cv_module c = module \<and>
        server (cn_peer (conns m' ! r)) = server (conv_peer c) \<and>
        (\<forall>s < length (conns m). s \<noteq> r \<longrightarrow> stream_of m' s = stream_of m s))"

lemma reached_goes_to:
  assumes "reached lb (''discuss@'' @ h) m m'" and "conv_inv lb m'"
  obtains r p where "cur_us m' = Some r" "r < length (conns m')" "cn_open (conns m' ! r)" "goes_to lb h p"
    "server (cn_peer (conns m' ! r)) = server p" "\<forall>s < length (conns m). s \<noteq> r \<longrightarrow> stream_of m' s = stream_of m s"
proof -
  from assms(1) obtain r c where r: "cur_us m' = Some r" "r < length (conns m')" "cn_open (conns m' ! r)" "c \<in> set (convs m')"
      "cv_module c = ''discuss@'' @ h" "server (cn_peer (conns m' ! r)) = server (conv_peer c)"
      "\<forall>s < length (conns m). s \<noteq> r \<longrightarrow> stream_of m' s = stream_of m s"
    unfolding reached_def by blast
  from assms(2) r(4) have "conv_ok lb (peers m') (opens m') c" by (simp add: conv_inv_def table_ok_def)
  with r(5) have "goes_to lb h (conv_peer c)" by (simp add: conv_ok_def)
  with that r show ?thesis by blast
qed

text \<open>An entry for a connection that is chosen already.\<close>

lemma alias_entry:
  assumes inv: "conv_inv lb m" and rc: "cur_us m = Some r" "r < length (conns m)"
    and c: "create_entry module port host service (Some r) 0 m = Some m'"
    and new: "module \<notin> cv_module ` set (convs m)" and srv: "server (cn_peer (conns m ! r)) = server (host, port, service)"
    and g: "\<And>h. module = ''discuss@'' @ h \<Longrightarrow> goes_to lb h (host, port, service)"
  shows "conv_inv lb m'" and "reached lb module m m'"
proof -
  from create_entry_step [OF c] obtain v m1 where m1: "talked m m1"
    and m': "convs m' = convs m @ [\<lparr>cv_module = module, cv_port = port, cv_hostname = host,
      cv_service_id = service, cv_rc = Some r, cv_server_version = v, cv_result = 0\<rparr>]" (is "_ = _ @ [?c]")
      "cur_conv m' = int (length (convs m))"
      "max_convs m' = (if int (length (convs m)) = max_convs m then max_convs m + 2 else max_convs m)"
      "conns m' = conns m1" "cur_us m' = cur_us m1" "cl m' = cl m1"
    by auto
  from inv rc have o: "opens m ! r" "connected (cl m)" by (auto simp: conv_inv_def)
  have c: "conv_ok lb (peers m) (opens m) ?c" using o rc srv g by (simp add: conv_ok_def)
  from m1 have s: "conns m1 = conns m" "cur_us m1 = Some r" "connected (cl m1)" using rc o by (simp_all add: talked_def)
  from inv new c have t: "table_ok lb (convs m @ [?c]) (peers m) (opens m)"
    by (intro table_ok_add) (simp_all add: conv_inv_def)
  show "conv_inv lb m'" using inv t s m' rc o by (auto simp: conv_inv_def nth_append)
  have "stream_of m' s = stream_of m s" if "s \<noteq> r" for s
    using that s rc m' by (simp add: stream_of_def)
  with s m' rc o srv show "reached lb module m m'" by (auto simp: reached_def nth_append)
qed

lemma not_alias:
  assumes "find (\<lambda>i. module = cv_module (convs m ! i)) [0 ..< length (convs m)] = None"
  shows "module \<notin> cv_module ` set (convs m)"
  using assms by (auto simp: find_None_iff in_set_conv_nth)

lemma reached_from:
  assumes "reached lb module m1 m'" and "length (conns m1) = length (conns m)"
    and "\<And>s. s < length (conns m) \<Longrightarrow> cur_us m' \<noteq> Some s \<Longrightarrow> stream_of m1 s = stream_of m s"
  shows "reached lb module m m'"
  using assms unfolding reached_def by (metis option.inject)

text \<open>A server that cannot be reached is kept with its error.\<close>

lemma failed_entry:
  assumes inv: "conv_inv lb m" and c: "create_entry module port host service None result m = Some m'" and "result \<noteq> 0"
    and new: "module \<notin> cv_module ` set (convs m)" and g: "\<And>h. module = ''discuss@'' @ h \<Longrightarrow> goes_to lb h (host, port, service)"
  shows "conv_inv lb m'"
proof -
  from create_entry_step [OF c] obtain v m1 where m1: "talked m m1"
    and m': "convs m' = convs m @ [\<lparr>cv_module = module, cv_port = port, cv_hostname = host,
      cv_service_id = service, cv_rc = None, cv_server_version = v, cv_result = result\<rparr>]" (is "_ = _ @ [?c]")
      "cur_conv m' = -1" "max_convs m' = (if int (length (convs m)) = max_convs m then max_convs m + 2 else max_convs m)"
      "conns m' = conns m1" "cur_us m' = cur_us m1" "cl m' = cl m1"
    by auto
  have "conv_ok lb (peers m) (opens m) ?c" using assms(3) g by (simp add: conv_ok_def)
  with inv new have "table_ok lb (convs m @ [?c]) (peers m) (opens m)"
    by (intro table_ok_add) (simp_all add: conv_inv_def)
  with inv m1 m' show ?thesis by (cases "cur_us m") (auto simp: conv_inv_def talked_def)
qed

lemma opened_entry:
  assumes inv: "conv_inv lb m" and o: "opened (host, port, service) m m1"
    and c: "create_entry module port host service (Some (length (conns m))) result m1 = Some m'"
    and new: "module \<notin> cv_module ` set (convs m)" and srv: "\<And>d. d \<in> set (convs m) \<Longrightarrow> server (conv_peer d) \<noteq> server (host, port, service)"
    and g: "\<And>h. module = ''discuss@'' @ h \<Longrightarrow> goes_to lb h (host, port, service)"
  shows "conv_inv lb m'" and "reached lb module m m'"
proof -
  from o have o: "peers m1 = peers m @ [(host, port, service)]" "opens m1 = opens m @ [True]" "convs m1 = convs m"
      "max_convs m1 = max_convs m" "cur_us m1 = Some (length (conns m))" "connected (cl m1)"
      "\<forall>r < length (conns m). stream_of m1 r = stream_of m r" by (auto simp: opened_def table_def convs_def)
  from o(1) have l: "length (conns m1) = Suc (length (conns m))" by (metis length_append_singleton length_map)
  from create_entry_step [OF c] obtain v m2 where m2: "talked m1 m2"
    and m': "convs m' = convs m @ [\<lparr>cv_module = module, cv_port = port, cv_hostname = host,
      cv_service_id = service, cv_rc = Some (length (conns m)), cv_server_version = v, cv_result = 0\<rparr>]" (is "_ = _ @ [?c]")
      "cur_conv m' = int (length (convs m))"
      "max_convs m' = (if int (length (convs m)) = max_convs m then max_convs m + 2 else max_convs m)"
      "conns m' = conns m2" "cur_us m' = cur_us m2" "cl m' = cl m2"
    using o by auto
  from inv have "table_ok lb (convs m) (peers m) (opens m)" by (simp add: conv_inv_def)
  from table_ok_open [OF this, of ?c] new srv g
  have t: "table_ok lb (convs m @ [?c]) (peers m1) (opens m1)" using o by simp
  from m2 have s: "conns m2 = conns m1" "cur_us m2 = Some (length (conns m))" "connected (cl m2)" using o by (simp_all add: talked_def)
  show "conv_inv lb m'" using inv t s m' o l by (auto simp: conv_inv_def nth_append)
  have "cn_open (conns m1 ! length (conns m))" "cn_peer (conns m1 ! length (conns m)) = (host, port, service)"
    using o(1,2) l by (metis lessI nth_append_length nth_map length_map)+
  moreover have "stream_of m' s = stream_of m s" if "s < length (conns m)" for s
  proof -
    from talked_stream [OF m2, of s] o that have "stream_of m2 s = stream_of m s" by simp
    with that s m' show ?thesis by (simp add: stream_of_def)
  qed
  ultimately show "reached lb module m m'" using s m' l by (auto simp: reached_def nth_append)
qed

definition set_ok :: "libs \<Rightarrow> string \<Rightarrow> mgr \<Rightarrow> int \<Rightarrow> int \<Rightarrow> mgr \<Rightarrow> bool" where
  "set_ok lb module m fatal result m' \<longleftrightarrow>
     conv_inv lb m' \<and> (fatal = 0 \<longrightarrow> reached lb module m m') \<and> (fatal \<noteq> 0 \<longrightarrow> result \<noteq> 0)"

lemma choose_entry:
  assumes "conv_inv lb m" and "i < length (convs m)" and "cv_rc (convs m ! i) \<noteq> None"
  shows "set_ok lb (cv_module (convs m ! i)) m 0 0 ((choose_rpc (cv_rc (convs m ! i)) m)\<lparr>cur_conv := int i\<rparr>)"
proof -
  let ?c = "convs m ! i"
  from assms have c: "?c \<in> set (convs m)" "cv_result ?c = 0"
    by (auto simp: conv_inv_def table_ok_def conv_ok_def dest!: nth_mem split: option.splits)
  from conv_inv_choose [OF assms(1) this] obtain r where r: "cv_rc ?c = Some r" "r < length (conns m)" "cn_open (conns m ! r)"
      "server (cn_peer (conns m ! r)) = server (conv_peer ?c)" "conv_inv lb (choose_rpc (Some r) m)"
    by blast
  define m1 where "m1 = choose_rpc (Some r) m"
  have p: "peers m1 = peers m" "opens m1 = opens m" "convs m1 = convs m" "cur_us m1 = Some r" "length (conns m1) = length (conns m)"
    by (simp_all add: m1_def)
  from p r have o: "cn_open (conns m1 ! r)" "server (cn_peer (conns m1 ! r)) = server (conv_peer ?c)" by (metis nth_map)+
  have "stream_of (m1\<lparr>cur_conv := int i\<rparr>) s = stream_of m s" if "s < length (conns m)" "s \<noteq> r" for s
    using choose_rpc_stream [of s m "Some r"] that by (simp add: m1_def stream_of_def [of "cur_conv_update _ _"] stream_of_def [of "choose_rpc _ _"])
  with p o r c(1) have "reached lb (cv_module ?c) m (m1\<lparr>cur_conv := int i\<rparr>)" by (auto simp: reached_def)
  moreover have "conv_inv lb (m1\<lparr>cur_conv := int i\<rparr>)" using r p assms by (auto simp: conv_inv_def m1_def)
  ultimately show ?thesis using r by (simp add: set_ok_def m1_def)
qed

text \<open>A name that leads to a server of the table.\<close>

lemma known_server:
  assumes inv: "conv_inv lb m" and new: "module \<notin> cv_module ` set (convs m)"
    and c: "c \<in> set (convs m)" "cv_result c = 0" "same_server port host service c"
    and g: "\<And>h. module = ''discuss@'' @ h \<Longrightarrow> goes_to lb h (host, port, service)"
    and e: "create_entry module port host service (cv_rc c) 0 (choose_rpc (cv_rc c) m) = Some m'"
  shows "conv_inv lb m'" and "reached lb module m m'"
proof -
  from conv_inv_choose [OF inv c(1,2)] obtain k where k: "cv_rc c = Some k" "k < length (conns m)"
    "server (cn_peer (conns m ! k)) = server (conv_peer c)" "conv_inv lb (choose_rpc (Some k) m)" by blast
  have p: "server (cn_peer (conns (choose_rpc (Some k) m) ! k)) = server (host, port, service)"
    using k(2,3) c(3) choose_rpc_simps(1,3) [of "Some k" m] by (metis nth_map same_server_iff)
  from e k(1) have e: "create_entry module port host service (Some k) 0 (choose_rpc (Some k) m) = Some m'" by simp
  from alias_entry [OF k(4) _ _ e _ p g] k new
  have a: "conv_inv lb m'" "reached lb module (choose_rpc (Some k) m) m'" by simp_all
  show "conv_inv lb m'" by fact
  show "reached lb module m m'"
  proof (rule reached_from [OF a(2)])
    fix s assume s: "s < length (conns m)" "cur_us m' \<noteq> Some s"
    from create_entry_step [OF e] have "cur_us m' = Some k" by (auto simp: talked_def)
    with choose_rpc_stream [of s m "Some k"] s show "stream_of (choose_rpc (Some k) m) s = stream_of m s" by simp
  qed simp
qed

text \<open>A name that leads to a server of which there is nothing in the table.\<close>

lemma new_server:
  assumes inv: "conv_inv lb m" and lb: "libs_ok lb" and new: "module \<notin> cv_module ` set (convs m)"
    and none: "find (same_server port host service) (convs m) = None"
    and g: "\<And>h. module = ''discuss@'' @ h \<Longrightarrow> goes_to lb h (host, port, service)"
    and o: "open_rpc lb host port service m = Some ((rc, result), m1)"
  shows "rc = None \<Longrightarrow> result \<noteq> 0 \<and> conv_inv lb m1"
    and "create_entry module port host service rc result m1 = Some m' \<Longrightarrow>
      set_ok lb module m (if rc = None then 1 else 0) result m'"
proof -
  from none have srv: "server (conv_peer d) \<noteq> server (host, port, service)" if "d \<in> set (convs m)" for d
    using that by (auto simp: find_None_iff same_server_iff)
  note cases = open_rpc_cases [OF o lb]
  show 1: "rc = None \<Longrightarrow> result \<noteq> 0 \<and> conv_inv lb m1"
    using cases conv_inv_not_opened [OF inv] by auto
  assume e: "create_entry module port host service rc result m1 = Some m'"
  show "set_ok lb module m (if rc = None then 1 else 0) result m'"
  proof (cases rc)
    case None
    with cases have "convs m1 = convs m" by (auto simp: not_opened_def table_def convs_def)
    with failed_entry [of lb m1, OF _ _ _ _ g] 1 e None new show ?thesis by (simp add: set_ok_def)
  next
    case (Some r)
    with cases have r: "rc = Some (length (conns m))" "opened (host, port, service) m m1" by auto
    with opened_entry [OF inv r(2) _ new srv g] e show ?thesis by (simp add: set_ok_def)
  qed
qed

lemma new_module_ok:
  assumes inv: "conv_inv lb m" and lb: "libs_ok lb" and new: "module \<notin> cv_module ` set (convs m)"
    and n: "new_module lb module m = Some ((fatal, result), m')"
  shows "set_ok lb module m fatal result m'"
proof -
  from n obtain res port host service m1 where r: "resolve_module lb module m = Some ((res, port, host, service), m1)"
    by (auto simp: new_module_def split: bind_split_asm)
  note l = resolve_lines [OF r]
  from conv_inv_lines [OF inv l] linesD [OF l] new
  have 1: "conv_inv lb m1" "conns m1 = conns m" "\<And>s. stream_of m1 s = stream_of m s" "module \<notin> cv_module ` set (convs m1)" by auto
  have g: "goes_to lb h (host, port, service)" if "res = 0" "module = ''discuss@'' @ h" for h
    using resolve_goes_to r that by blast
  have "set_ok lb module m1 fatal result m'"
  proof (cases "res = 0")
    case False
    with n r 1 show ?thesis by (auto simp: new_module_def set_ok_def)
  next
    case res: True
    show ?thesis
    proof (cases "find (same_server port host service) (convs m1)")
      case (Some c)
      then have "c \<in> set (convs m1)" "same_server port host service c" by (auto simp: find_Some_iff)
      with known_server [OF 1(1,4) _ _ _ g [OF res]] n r res Some 1(1) show ?thesis
        by (auto simp: new_module_def set_ok_def split: bind_split_asm if_splits)
    next
      case None
      with n r res obtain rc res2 m2 where o: "open_rpc lb host port service m1 = Some ((rc, res2), m2)"
        by (auto simp: new_module_def split: bind_split_asm)
      from new_server [OF 1(1) lb 1(4) None g [OF res] o] n r res None o show ?thesis
        by (auto simp: new_module_def set_ok_def split: bind_split_asm if_splits)
    qed
  qed
  with reached_from [of lb module m1 m' m] 1 show ?thesis by (auto simp: set_ok_def)
qed

lemma set_module_ok:
  assumes inv: "conv_inv lb m" and lb: "libs_ok lb" and s: "set_module lb (Some module) m = Some ((fatal, result), m')"
  shows "set_ok lb module m fatal result m'"
proof -
  define m0 where "m0 = (if conv_base m = None then m\<lparr>conv_base := Some [], max_convs := 5\<rparr> else m)"
  have 0: "convs m0 = convs m" "conns m0 = conns m" "cur_us m0 = cur_us m" "cl m0 = cl m" "cur_conv m0 = cur_conv m"
    by (simp_all add: m0_def convs_def)
  then have st: "stream_of m0 r = stream_of m r" for r by (simp add: stream_of_def)
  from inv 0 have inv0: "conv_inv lb m0" by (cases "cur_us m") (auto simp: conv_inv_def m0_def convs_def)
  have "set_ok lb module m0 fatal result m'"
  proof (cases "cur_conv m0 \<noteq> -1 \<and> module = cv_module (convs m0 ! nat (cur_conv m0))")
    case True
    then have i: "nat (cur_conv m0) < length (convs m0)" "cv_rc (convs m0 ! nat (cur_conv m0)) \<noteq> None" "int (nat (cur_conv m0)) = cur_conv m0"
      using inv0 by (auto simp: conv_inv_def)
    have "(choose_rpc rc m0)\<lparr>cur_conv := cur_conv m0\<rparr> = choose_rpc rc m0" for rc
      by (simp flip: choose_rpc_simps(9))
    with choose_entry [OF inv0 i(1,2)] i(3) s True show ?thesis
      by (auto simp: set_module_def Let_def m0_def [symmetric])
  next
    case False
    show ?thesis
    proof (cases "find (\<lambda>i. module = cv_module (convs m0 ! i)) [0 ..< length (convs m0)]")
      case None
      with s False have "new_module lb module m0 = Some ((fatal, result), m')"
        by (auto simp: set_module_def Let_def m0_def [symmetric])
      with new_module_ok [OF inv0 lb not_alias [OF None]] show ?thesis by blast
    next
      case (Some i)
      then have i: "i < length (convs m0)" "module = cv_module (convs m0 ! i)" by (auto simp: find_Some_iff)
      note other = False
      show ?thesis
      proof (cases "cv_result (convs m0 ! i) = 0")
        case True
        have "cv_rc (convs m0 ! i) \<noteq> None"
          using inv0 i(1) True by (auto simp: conv_inv_def table_ok_def conv_ok_def dest!: nth_mem split: option.splits)
        with choose_entry [OF inv0 i(1)] i(2) s Some True other show ?thesis
          by (auto simp: set_module_def Let_def m0_def [symmetric] split: if_splits)
      next
        case False
        with s Some inv0 other show ?thesis
          by (auto simp: set_module_def Let_def m0_def [symmetric] set_ok_def split: if_splits)
      qed
    qed
  qed
  with reached_from [of lb module m0 m' m] 0 st show ?thesis by (auto simp: set_ok_def)
qed

subsection \<open>Closing\<close>

text \<open>The closing handshake of a stream ends, whatever \<open>errno\<close> is.\<close>

definition hangs_up :: "libs \<Rightarrow> usp \<Rightarrow> bool" where
  "hangs_up lb u \<longleftrightarrow> (\<forall>e s. USP_close_connection (lb_shutdown lb) (u\<lparr>us_errno := e, internal_string := s\<rparr>) \<noteq> None)"

lemma chosen_stream:
  "r < length (conns m) \<Longrightarrow> us (cl (choose_rpc (Some r) m)) =
     (stream_of m r)\<lparr>us_errno := us_errno (us (cl m)), internal_string := internal_string (us (cl m))\<rparr>"
  using put_back_stream [of r m] by (simp add: choose_rpc_def set_rpc_def Let_def)

lemma close_connection_returns:
  assumes "r < length (conns m)" and "cn_open (conns m ! r)" and "hangs_up lb (stream_of m r)"
  shows "close_connection lb r m \<noteq> None"
proof -
  from assms(3) obtain x v where "USP_close_connection (lb_shutdown lb) (us (cl (choose_rpc (Some r) m))) = Some (x, v)"
    unfolding chosen_stream [OF assms(1)] by (metis hangs_up_def not_Some_eq prod.collapse)
  with assms(2) show ?thesis by (simp add: close_connection_def close_rpc_def Let_def)
qed

lemma close_connection_step:
  assumes "r < length (conns m)" and "close_connection lb r m = Some m'"
  shows "length (conns m') = length (conns m) \<and> opens m' = (opens m)[r := False] \<and>
    cur_us m' = None \<and> \<not> connected (cl m') \<and> (\<forall>s < length (conns m). s \<noteq> r \<longrightarrow> stream_of m' s = stream_of m s)"
proof -
  define m1 where "m1 = choose_rpc (Some r) m"
  have o: "opens m1 = opens m" "length (conns m1) = length (conns m)" by (simp_all add: m1_def)
  have s: "cn_stream (conns m1 ! s) = stream_of m s" if "s < length (conns m)" "s \<noteq> r" for s
    using that put_back_stream [of s m] by (simp add: m1_def choose_rpc_def Let_def)
  from assms(2) obtain v where "m' = m1\<lparr>cl := (cl m1)\<lparr>us := v, connected := False\<rparr>, cur_us := None,
      conns := (conns m1)[r := (conns m1 ! r)\<lparr>cn_stream := v, cn_open := False\<rparr>]\<rparr>"
    by (cases "USP_close_connection (lb_shutdown lb) (us (cl m1))")
      (auto simp: close_connection_def m1_def [symmetric] close_rpc_def Let_def split: if_splits)
  with o s show ?thesis by (auto simp: map_update stream_of_def)
qed

lemma closed_one:
  assumes "r < length (conns m)" and "close_connection lb r m = Some m'" and "s < length (conns m)"
  shows "cn_open (conns m' ! s) = (cn_open (conns m ! s) \<and> s \<noteq> r)"
  using close_connection_step [OF assms(1,2)] assms(3)
  by (metis (full_types) length_map nth_list_update_eq nth_list_update_neq nth_map)

text \<open>The entries that are left name the connections that are still open.\<close>

definition names_open :: "conv list \<Rightarrow> mgr \<Rightarrow> bool" where
  "names_open cs m \<longleftrightarrow>
     (\<forall>c \<in> set cs. \<forall>r. cv_rc c = Some r \<longrightarrow> r < length (conns m) \<and> cn_open (conns m ! r)) \<and>
     (\<forall>r < length (conns m). cn_open (conns m ! r) \<longrightarrow> (\<exists>c \<in> set cs. cv_rc c = Some r))"

lemma names_open_close:
  assumes "names_open (c # cs) m" and "cv_rc c = Some r" and "close_connection lb r m = Some m'"
  shows "names_open (map (\<lambda>d. if cv_rc d = cv_rc c then d\<lparr>cv_rc := None\<rparr> else d) cs) m'"
proof -
  from assms have r: "r < length (conns m)" by (simp add: names_open_def)
  from close_connection_step [OF r assms(3)] have l: "length (conns m') = length (conns m)" by simp
  show ?thesis unfolding names_open_def
  proof (intro conjI ballI allI impI)
    fix d s assume d: "d \<in> set (map (\<lambda>d. if cv_rc d = cv_rc c then d\<lparr>cv_rc := None\<rparr> else d) cs)" "cv_rc d = Some s"
    then have "d \<in> set cs" "s \<noteq> r" using assms(2) by (auto split: if_splits)
    with d(2) assms(1) l closed_one [OF r assms(3)] show "s < length (conns m')" "cn_open (conns m' ! s)"
      by (auto simp: names_open_def)
  next
    fix s assume "s < length (conns m')" "cn_open (conns m' ! s)"
    with l closed_one [OF r assms(3)] have s: "s < length (conns m)" "cn_open (conns m ! s)" "s \<noteq> r" by auto
    with assms(1,2) obtain d where "d \<in> set cs" "cv_rc d = Some s" by (auto simp: names_open_def)
    with s(3) assms(2) show "\<exists>d \<in> set (map (\<lambda>d. if cv_rc d = cv_rc c then d\<lparr>cv_rc := None\<rparr> else d) cs). cv_rc d = Some s"
      by (intro bexI [of _ d]) force+
  qed
qed

lemma names_open_skip: "cv_rc c = None \<Longrightarrow> names_open (c # cs) m = names_open cs m"
  by (auto simp: names_open_def)

lemma clear_nothing: "map (\<lambda>d. if cv_rc d = None then d\<lparr>cv_rc := None\<rparr> else d) cs = cs"
  by (induction cs) auto

lemma flush_entries_step:
  assumes "names_open cs m" and "flush_entries lb cs m = Some m'"
  shows "length (conns m') = length (conns m) \<and> (\<forall>r < length (conns m). \<not> cn_open (conns m' ! r)) \<and>
    (m' = m \<or> cur_us m' = None \<and> \<not> connected (cl m'))"
  using assms
proof (induction lb cs m rule: flush_entries.induct)
  case (1 lb m)
  then show ?case by (simp add: names_open_def)
next
  case (2 lb c cs m)
  show ?case
  proof (cases "cv_rc c")
    case None
    with 2 show ?thesis by (simp add: names_open_skip clear_nothing)
  next
    case (Some r)
    with "2.prems" obtain m1 where m1: "close_connection lb r m = Some m1" by (auto split: bind_split_asm)
    from "2.prems" Some have r: "r < length (conns m)" by (simp add: names_open_def)
    from "2.IH" [of m1] names_open_close [OF "2.prems"(1) Some m1] "2.prems"(2) Some m1 close_connection_step [OF r m1]
    show ?thesis by auto
  qed
qed

lemma flush_entries_returns:
  assumes "names_open cs m" and "\<forall>r < length (conns m). cn_open (conns m ! r) \<longrightarrow> hangs_up lb (stream_of m r)"
  shows "flush_entries lb cs m \<noteq> None"
  using assms
proof (induction lb cs m rule: flush_entries.induct)
  case (2 lb c cs m)
  show ?case
  proof (cases "cv_rc c")
    case None
    with 2 show ?thesis by (simp add: names_open_skip clear_nothing)
  next
    case (Some r)
    with "2.prems" have r: "r < length (conns m)" "cn_open (conns m ! r)" "hangs_up lb (stream_of m r)" by (auto simp: names_open_def)
    from close_connection_returns [OF this] obtain m1 where m1: "close_connection lb r m = Some m1" by blast
    from "2.IH" [of m1] names_open_close [OF "2.prems"(1) Some m1] "2.prems"(2) Some m1
      close_connection_step [OF r(1) m1] closed_one [OF r(1) m1]
    show ?thesis by auto
  qed
qed simp

lemma inv_names_open: "conv_inv lb m \<Longrightarrow> names_open (convs m) m"
  by (fastforce simp: conv_inv_def table_ok_def conv_ok_def names_open_def split: option.splits)

lemma flush_convs_returns:
  assumes "conv_inv lb m" and "\<forall>r < length (conns m). cn_open (conns m ! r) \<longrightarrow> hangs_up lb (stream_of m r)"
  shows "flush_convs lb m \<noteq> None"
  using flush_entries_returns [OF inv_names_open [OF assms(1)] assms(2)]
  by (auto simp: flush_convs_def convs_def split: option.splits)

lemma flush_convs_closes:
  assumes inv: "conv_inv lb m" and f: "flush_convs lb m = Some m'"
  shows "length (conns m') = length (conns m) \<and> (\<forall>c \<in> set (conns m'). \<not> cn_open c) \<and>
    cur_us m' = None \<and> get_module m' = None \<and> conv_inv lb m'"
proof -
  from f obtain m1 where m1: "flush_entries lb (convs m) m = Some m1"
    and m': "m' = (if conv_base m = None then m1 else m1\<lparr>conv_base := None, max_convs := 0, cur_conv := -1\<rparr>)"
    by (auto simp: flush_convs_def convs_def split: option.splits bind_split_asm)
  from flush_entries_step [OF inv_names_open [OF inv] m1]
  have c: "length (conns m1) = length (conns m)" "\<forall>r < length (conns m). \<not> cn_open (conns m1 ! r)"
    "m1 = m \<or> cur_us m1 = None \<and> \<not> connected (cl m1)" by auto
  from c inv have u: "cur_us m1 = None" "\<not> connected (cl m1)" by (cases "cur_us m"; auto simp: conv_inv_def)+
  have same: "conv_base m = None \<Longrightarrow> m1 = m" using m1 by (simp add: convs_def)
  have e: "convs m' = []" "conns m' = conns m1" "cur_us m' = cur_us m1" "cl m' = cl m1" "cur_conv m' = -1" "0 \<le> max_convs m'"
    using same inv by (auto simp: m' convs_def conv_inv_def)
  have no: "\<forall>x \<in> set (conns m'). \<not> cn_open x" using e c by (auto simp: in_set_conv_nth)
  then have "table_ok lb (convs m') (peers m') (opens m')" by (auto simp: e table_ok_def)
  with e u no c show ?thesis by (auto simp: get_module_def conv_inv_def)
qed

end
