(* ===== verification/Reach.thy ===== *)
theory Reach
  imports Connections
begin

text \<open>
  The client library in use: any sequence of the calls of \<^verbatim>\<open>interface.h\<close>, of \<open>set_module\<close> and of \<open>flush_convs\<close>.
\<close>

subsection \<open>Selecting a meeting\<close>

definition iface_inv :: "libs \<Rightarrow> iface \<Rightarrow> bool" where
  "iface_inv lb d \<longleftrightarrow> conv_inv lb (if_mgr d) \<and> (\<forall>mp \<in> set (meeting_list d). mt_module mp = ''discuss@'' @ mt_host mp)"

definition iface_start :: "client \<Rightarrow> iface" where
  "iface_start c = \<lparr>if_mgr = \<lparr>cl = c, cur_us = None, conns = [], tick = 0, myhostname = [], service_port = 0,
     conv_base = None, max_convs = 0, cur_conv = -1\<rparr>, meeting_list = [], cmtg = None, warnings = []\<rparr>"

lemma iface_start_inv: "\<not> connected c \<Longrightarrow> iface_inv lb (iface_start c)"
  by (simp add: iface_inv_def iface_start_def conv_inv_def table_ok_def convs_def)

lemma select_meeting_ok:
  assumes inv: "iface_inv lb d" and lb: "libs_ok lb" and s: "select_meeting lb nbp d = Some (code, d')"
  shows "iface_inv lb d'" and "\<exists>mp. cmtg d' = Some mp \<and> mt_path mp = nb_pathname nbp"
    and "code = 0 \<Longrightarrow> reached lb (''discuss@'' @ nb_hostname nbp) (if_mgr d) (if_mgr d')"
proof -
  define mp d0 where "mp = fst (case find (same_mtg_in nbp) (meeting_list d) of
      Some mp \<Rightarrow> (mp, d) | None \<Rightarrow> create_mblock (nb_hostname nbp) (nb_pathname nbp) d)"
    and "d0 = snd (case find (same_mtg_in nbp) (meeting_list d) of
      Some mp \<Rightarrow> (mp, d) | None \<Rightarrow> create_mblock (nb_hostname nbp) (nb_pathname nbp) d)"
  have mp: "mt_path mp = nb_pathname nbp" "mt_module mp = ''discuss@'' @ nb_hostname nbp"
    "\<forall>mp \<in> set (meeting_list d0). mt_module mp = ''discuss@'' @ mt_host mp" "if_mgr d0 = if_mgr d"
    using inv by (auto simp: mp_def d0_def create_mblock_def iface_inv_def same_mtg_in_def find_Some_iff Let_def split: option.split)
  from s obtain fatal result m where m: "set_module lb (Some (mt_module mp)) (if_mgr d) = Some ((fatal, result), m)"
    and c: "if result \<noteq> 0 \<and> fatal = 0
      then code = 0 \<and> d' = (log_warning result (''while connecting to '' @ mt_module mp) (d0\<lparr>if_mgr := m\<rparr>))\<lparr>cmtg := Some mp\<rparr>
      else code = result \<and> d' = (d0\<lparr>if_mgr := m\<rparr>)\<lparr>cmtg := Some mp\<rparr>"
    by (auto simp: select_meeting_def mp_def d0_def Let_def create_mblock_def split: option.splits bind_split_asm if_splits)
  from inv have "conv_inv lb (if_mgr d)" by (simp add: iface_inv_def)
  from set_module_ok [OF this lb m] have k: "conv_inv lb m" "fatal = 0 \<Longrightarrow> reached lb (mt_module mp) (if_mgr d) m" "fatal \<noteq> 0 \<Longrightarrow> result \<noteq> 0"
    by (auto simp: set_ok_def)
  from c mp k(1) show "iface_inv lb d'" by (auto simp: iface_inv_def log_warning_def split: if_splits)
  from c mp show "\<exists>mp. cmtg d' = Some mp \<and> mt_path mp = nb_pathname nbp" by (auto split: if_splits)
  assume "code = 0"
  with c k(3) have "fatal = 0" by (auto split: if_splits)
  with c k(2) mp(2) show "reached lb (''discuss@'' @ nb_hostname nbp) (if_mgr d) (if_mgr d')"
    by (auto simp: log_warning_def split: if_splits)
qed

text \<open>
  A call \<open>f\<close> with the path that talks on the connection that has been set, as \<open>g\<close> does with the path, the version of the
  server and the state of the connection.
\<close>

definition does :: "(string \<Rightarrow> mgr \<Rightarrow> (int \<times> 'a option \<times> mgr) option) \<Rightarrow> (string \<Rightarrow> int \<Rightarrow> client \<Rightarrow> (int \<times> client) option) \<Rightarrow> bool" where
  "does f g \<longleftrightarrow> (\<forall>mtg m r x m'. f mtg m = Some (r, x, m') \<longrightarrow>
     talked m m' \<and> g mtg (get_conv_server_version m) (cl m) = Some (r, cl m'))"

lemma on_meeting_ok:
  assumes inv: "iface_inv lb d" and lb: "libs_ok lb" and f: "does f g" and o: "on_meeting lb nbp f d = Some (r, x, d')"
  obtains code d1 where "select_meeting lb nbp d = Some (code, d1)" "iface_inv lb d'" "talked (if_mgr d1) (if_mgr d')"
    "code = 0 \<Longrightarrow> g (nb_pathname nbp) (get_conv_server_version (if_mgr d1)) (cl (if_mgr d1)) = Some (r, cl (if_mgr d'))"
proof -
  from o obtain code d1 where s: "select_meeting lb nbp d = Some (code, d1)" by (auto simp: on_meeting_def split: bind_split_asm)
  from select_meeting_ok [OF inv lb s] obtain mp where i: "iface_inv lb d1" "cmtg d1 = Some mp" "mt_path mp = nb_pathname nbp" by blast
  have t: "talked m m" for m by (simp add: talked_def)
  show thesis
  proof (cases "code = 0")
    case False
    with o s i t show ?thesis by (intro that [OF s]) (auto simp: on_meeting_def)
  next
    case True
    with o s i obtain m where m: "f (nb_pathname nbp) (if_mgr d1) = Some (r, x, m)" "d' = d1\<lparr>if_mgr := m\<rparr>"
      by (auto simp: on_meeting_def split: bind_split_asm)
    with f have "talked (if_mgr d1) m" "g (nb_pathname nbp) (get_conv_server_version (if_mgr d1)) (cl (if_mgr d1)) = Some (r, cl m)"
      by (auto simp: does_def)
    with i m(2) conv_inv_talked show ?thesis by (intro that [OF s]) (auto simp: iface_inv_def)
  qed
qed

text \<open>What is left of the result of a stub: its code and the state of the connection.\<close>

abbreviation answer :: "'a stub_result \<Rightarrow> (int \<times> client) option" where
  "answer x \<equiv> map_option (\<lambda>(r, _, c). (r, c)) x"

context stub_call
begin

lemma call_talked: "call f m = Some (r, x, m') \<Longrightarrow> talked m m'"
  using call_only_stream talked_cl by metis

lemma call_answer: "call f m = Some (r, x, m') \<Longrightarrow> answer (f (cl m)) = Some (r, cl m')"
  by (auto simp: call_def split: if_splits bind_split_asm)

end

subsection \<open>Requests\<close>

text \<open>The calls on a meeting, and what a client may do otherwise.\<close>

datatype dsc_call = Add_trn string int
  | Add_trn2 string string int
  | Get_trn_info int
  | Get_trn_info2 int trn_info2
  | Get_trn_info3 int trn_info3
  | Set_trn_flags int int
  | Delete_trn int
  | Retrieve_trn int
  | Get_mtg_info
  | Get_trn int
  | Remove_mtg
  | Updated_mtg
  | Get_acl
  | Get_access string
  | Set_access string string
  | Delete_access string
  | Whoami

text \<open>What is left of a call: its code and the state.\<close>

abbreviation code_of :: "'a dsc_result \<Rightarrow> (int \<times> iface) option" where
  "code_of x \<equiv> map_option (\<lambda>(r, _, d). (r, d)) x"

fun do_request :: "libs \<Rightarrow> name_blk \<Rightarrow> dsc_call \<Rightarrow> iface \<Rightarrow> (int \<times> iface) option" where
  "do_request lb nbp (Add_trn s r) = (\<lambda>d. code_of (dsc_add_trn lb nbp s r d))"
| "do_request lb nbp (Add_trn2 s g r) = (\<lambda>d. code_of (dsc_add_trn2 lb nbp s g r d))"
| "do_request lb nbp (Get_trn_info n) = (\<lambda>d. code_of (dsc_get_trn_info lb nbp n d))"
| "do_request lb nbp (Get_trn_info2 n i) = (\<lambda>d. code_of (dsc_get_trn_info2 lb nbp n i d))"
| "do_request lb nbp (Get_trn_info3 n i) = (\<lambda>d. code_of (dsc_get_trn_info3 lb nbp n i d))"
| "do_request lb nbp (Set_trn_flags n b) = (\<lambda>d. code_of (dsc_set_trn_flags lb nbp n b d))"
| "do_request lb nbp (Delete_trn n) = (\<lambda>d. code_of (dsc_delete_trn lb nbp n d))"
| "do_request lb nbp (Retrieve_trn n) = (\<lambda>d. code_of (dsc_retrieve_trn lb nbp n d))"
| "do_request lb nbp Get_mtg_info = (\<lambda>d. code_of (dsc_get_mtg_info lb nbp d))"
| "do_request lb nbp (Get_trn n) = (\<lambda>d. code_of (dsc_get_trn lb nbp n d))"
| "do_request lb nbp Remove_mtg = (\<lambda>d. code_of (dsc_remove_mtg lb nbp d))"
| "do_request lb nbp Updated_mtg = (\<lambda>d. code_of (dsc_updated_mtg lb nbp d))"
| "do_request lb nbp Get_acl = (\<lambda>d. code_of (dsc_get_acl lb nbp d))"
| "do_request lb nbp (Get_access p) = (\<lambda>d. code_of (dsc_get_access lb nbp p d))"
| "do_request lb nbp (Set_access p s) = (\<lambda>d. code_of (dsc_set_access lb nbp p s d))"
| "do_request lb nbp (Delete_access p) = (\<lambda>d. code_of (dsc_delete_access lb nbp p d))"
| "do_request lb nbp Whoami = (\<lambda>d. code_of (dsc_whoami lb nbp d))"

text \<open>
  The stub for each of them, by the version of the server: the calls that a server does not have yet are replaced by the ones before
  them, and nothing is sent for flags that it does not know.
\<close>

fun stub_for :: "dsc_call \<Rightarrow> name_blk \<Rightarrow> string \<Rightarrow> int \<Rightarrow> client \<Rightarrow> (int \<times> client) option" where
  "stub_for (Add_trn s r) nbp = (\<lambda>mtg v c. answer (stub_add_trn mtg s r c))"
| "stub_for (Add_trn2 s g r) nbp = (\<lambda>mtg v c. if SERVER_2 \<le> v then answer (stub_add_trn2 mtg s g r c) else answer (stub_add_trn mtg s r c))"
| "stub_for (Get_trn_info n) nbp = (\<lambda>mtg v c. answer (stub_get_trn_info mtg n c))"
| "stub_for (Get_trn_info2 n i) nbp = (\<lambda>mtg v c.
     if SERVER_1 \<le> v then answer (stub_get_trn_info2 mtg n c) else answer (stub_get_trn_info mtg n c))"
| "stub_for (Get_trn_info3 n i) nbp = (\<lambda>mtg v c.
     if SERVER_2 \<le> v then answer (stub_get_trn_info3 mtg n c)
     else if SERVER_1 \<le> v then answer (stub_get_trn_info2 mtg n c) else answer (stub_get_trn_info mtg n c))"
| "stub_for (Set_trn_flags n b) nbp = (\<lambda>mtg v c.
     if SERVER_1 \<le> v then answer (stub_set_trn_flags mtg n b c) else Some (code_int NO_SUPPORT, c))"
| "stub_for (Delete_trn n) nbp = (\<lambda>mtg v c. answer (stub_delete_trn mtg n c))"
| "stub_for (Retrieve_trn n) nbp = (\<lambda>mtg v c. answer (stub_retrieve_trn mtg n c))"
| "stub_for Get_mtg_info nbp = (\<lambda>mtg v c. answer (stub_get_mtg_info mtg c))"
| "stub_for (Get_trn n) nbp = (\<lambda>mtg v c. answer (stub_get_trn mtg n c))"
| "stub_for Remove_mtg nbp = (\<lambda>mtg v c. answer (stub_remove_mtg mtg c))"
| "stub_for Updated_mtg nbp = (\<lambda>mtg v c. answer (stub_updated_mtg mtg (nb_date_attended nbp) (nb_last nbp) c))"
| "stub_for Get_acl nbp = (\<lambda>mtg v c. answer (stub_get_acl mtg c))"
| "stub_for (Get_access p) nbp = (\<lambda>mtg v c. answer (stub_get_access mtg p c))"
| "stub_for (Set_access p s) nbp = (\<lambda>mtg v c. answer (stub_set_access mtg p s c))"
| "stub_for (Delete_access p) nbp = (\<lambda>mtg v c. answer (stub_delete_access mtg p c))"
| "stub_for Whoami nbp = (\<lambda>mtg v c. answer (stub_dwhoami c))"

datatype action = Request name_blk dsc_call | Create_mtg string string string int int | Set_module "string option" | Flush

fun act :: "libs \<Rightarrow> action \<Rightarrow> iface \<Rightarrow> iface option" where
  "act lb (Request nbp q) d = map_option snd (do_request lb nbp q d)"
| "act lb (Create_mtg host path title public hidden) d =
     map_option (\<lambda>(_, _, d). d) (dsc_create_mtg lb host path title public hidden d)"
| "act lb (Set_module module) d = map_option (\<lambda>(_, m). d\<lparr>if_mgr := m\<rparr>) (set_module lb module (if_mgr d))"
| "act lb Flush d = map_option (\<lambda>m. d\<lparr>if_mgr := m\<rparr>) (flush_convs lb (if_mgr d))"

fun acts :: "libs \<Rightarrow> action list \<Rightarrow> iface \<Rightarrow> iface option" where
  "acts lb [] d = Some d"
| "acts lb (a # as) d = do { d \<leftarrow> act lb a d; acts lb as d }"

lemma does_call: "(\<And>mtg. stub_call (f mtg)) \<Longrightarrow> does (\<lambda>mtg. call (f mtg)) (\<lambda>mtg v c. answer (f mtg c))"
  unfolding does_def by (metis stub_call.call_talked stub_call.call_answer)

lemma does_versions:
  assumes "does f1 g1" and "does f2 g2"
  shows "does (\<lambda>mtg m. if k \<le> get_conv_server_version m then f1 mtg m else f2 mtg m)
    (\<lambda>mtg v c. if k \<le> v then g1 mtg v c else g2 mtg v c)"
  using assms by (simp add: does_def)

lemma does_then:
  assumes "does f g"
  shows "does (\<lambda>mtg m. do { (r, x, m) \<leftarrow> f mtg m; Some (r, h x, m) }) g"
  using assms by (auto simp: does_def split: bind_split_asm)

lemma does_none: "does (\<lambda>mtg m. Some (r, x, m)) (\<lambda>mtg v c. Some (r, c))"
  by (simp add: does_def talked_def)

lemmas does_stubs =
  add_stub.stub_call_axioms add2_stub.stub_call_axioms info_stub.stub_call_axioms info2_stub.stub_call_axioms
  info3_stub.stub_call_axioms delete_stub.stub_call_axioms retrieve_stub.stub_call_axioms mtg_info_stub.stub_call_axioms
  get_stub.stub_call_axioms remove_stub.stub_call_axioms updated_stub.stub_call_axioms get_acl_stub.stub_call_axioms
  get_access_stub.stub_call_axioms set_access_stub.stub_call_axioms delete_access_stub.stub_call_axioms
  flags_stub.stub_call_axioms whoami_stub.stub_call_axioms create_stub.stub_call_axioms

text \<open>Every request is a call on its meeting.\<close>

definition calls_on :: "libs \<Rightarrow> name_blk \<Rightarrow> (iface \<Rightarrow> (int \<times> iface) option) \<Rightarrow> (string \<Rightarrow> int \<Rightarrow> client \<Rightarrow> (int \<times> client) option) \<Rightarrow> bool" where
  "calls_on lb nbp g h \<longleftrightarrow>
     (\<exists>f :: string \<Rightarrow> mgr \<Rightarrow> (int \<times> unit option \<times> mgr) option. does f h \<and> g = (\<lambda>d. code_of (on_meeting lb nbp f d)))"

lemma calls_onI:
  assumes "does f h"
  shows "calls_on lb nbp (\<lambda>d. code_of (on_meeting lb nbp f d)) h"
proof -
  let ?f = "\<lambda>mtg m. map_option (\<lambda>(r, _, m). (r, None :: unit option, m)) (f mtg m)"
  have "code_of (on_meeting lb nbp f d) = code_of (on_meeting lb nbp ?f d)" for d
  proof (cases "select_meeting lb nbp d")
    case (Some cd)
    obtain code d1 where "cd = (code, d1)" by fastforce
    with Some show ?thesis
      by (cases "code = 0"; cases "cmtg d1"; cases "f (mt_path (the (cmtg d1))) (if_mgr d1)") (auto simp: on_meeting_def)
  qed (simp add: on_meeting_def)
  with assms show ?thesis unfolding calls_on_def
    by (intro exI [of _ ?f]) (auto simp: does_def)
qed

lemmas dsc_defs = dsc_add_trn_def dsc_add_trn2_def dsc_get_trn_info_def dsc_get_trn_info2_def dsc_get_trn_info3_def
  dsc_set_trn_flags_def dsc_delete_trn_def dsc_retrieve_trn_def dsc_get_mtg_info_def dsc_get_trn_def dsc_remove_mtg_def
  dsc_updated_mtg_def dsc_get_acl_def dsc_get_access_def dsc_set_access_def dsc_delete_access_def dsc_whoami_def

lemma request_calls: "calls_on lb nbp (do_request lb nbp q) (stub_for q nbp)"
  by (cases q; simp only: do_request.simps stub_for.simps dsc_defs;
      intro calls_onI does_versions does_then does_call does_none does_stubs)

text \<open>Whatever is done, the invariant stays.\<close>

lemma request_ok:
  assumes "iface_inv lb d" and "libs_ok lb" and "do_request lb nbp q d = Some (r, d')"
  obtains code d1 where "select_meeting lb nbp d = Some (code, d1)" "iface_inv lb d'" "talked (if_mgr d1) (if_mgr d')"
    "code = 0 \<Longrightarrow> stub_for q nbp (nb_pathname nbp) (get_conv_server_version (if_mgr d1)) (cl (if_mgr d1)) = Some (r, cl (if_mgr d'))"
proof -
  from request_calls [of lb nbp q] obtain f :: "string \<Rightarrow> mgr \<Rightarrow> (int \<times> unit option \<times> mgr) option"
    where f: "does f (stub_for q nbp)" "do_request lb nbp q = (\<lambda>d. code_of (on_meeting lb nbp f d))"
    by (auto simp: calls_on_def)
  with assms(3) obtain x where "on_meeting lb nbp f d = Some (r, x, d')" by auto
  from on_meeting_ok [OF assms(1,2) f(1) this] that show thesis by blast
qed

lemma create_ok:
  assumes inv: "iface_inv lb d" and lb: "libs_ok lb" and c: "dsc_create_mtg lb host path title public hidden d = Some (r, x, d')"
  shows "iface_inv lb d'"
proof -
  define d0 where "d0 = snd (create_mblock host path d)"
  from c obtain fatal code m where s: "set_module lb (Some (''discuss@'' @ host)) (if_mgr d) = Some ((fatal, code), m)"
    by (auto simp: dsc_create_mtg_def create_mblock_def Let_def split: bind_split_asm)
  from inv have i: "conv_inv lb (if_mgr d)" by (simp add: iface_inv_def)
  from set_module_ok [OF i lb s] have m: "conv_inv lb m" by (simp add: set_ok_def)
  from c s obtain m' where "talked m m'" "d' = d0\<lparr>if_mgr := m'\<rparr>"
    by (cases "code = 0") (auto simp: dsc_create_mtg_def create_mblock_def d0_def Let_def talked_def
        dest!: create_stub.call_talked split: bind_split_asm)
  with m inv conv_inv_talked show ?thesis by (auto simp: iface_inv_def d0_def create_mblock_def Let_def)
qed

lemma no_module_ok:
  assumes "conv_inv lb m" and "set_module lb None m = Some (x, m')"
  shows "conv_inv lb m'"
  using assms by (cases "cur_us m") (auto simp: set_module_def conv_inv_def convs_def split: option.splits)

lemma act_inv:
  assumes "iface_inv lb d" and "libs_ok lb" and "act lb a d = Some d'"
  shows "iface_inv lb d'"
proof (cases a)
  case (Request nbp q)
  with assms(3) obtain r where "do_request lb nbp q d = Some (r, d')" by auto
  from request_ok [OF assms(1,2) this] show ?thesis by blast
next
  case (Create_mtg host path title public hidden)
  with assms(3) obtain r x where "dsc_create_mtg lb host path title public hidden d = Some (r, x, d')" by auto
  from create_ok [OF assms(1,2) this] show ?thesis .
next
  case (Set_module module)
  with assms(3) obtain f r m where m: "set_module lb module (if_mgr d) = Some ((f, r), m)" "d' = d\<lparr>if_mgr := m\<rparr>" by auto
  from assms(1) have i: "conv_inv lb (if_mgr d)" by (simp add: iface_inv_def)
  have "conv_inv lb m"
  proof (cases module)
    case None
    with m(1) no_module_ok [OF i] show ?thesis by simp
  next
    case (Some x)
    with set_module_ok [OF i assms(2)] m(1) show ?thesis by (simp add: set_ok_def)
  qed
  with assms(1) m(2) show ?thesis by (simp add: iface_inv_def)
next
  case Flush
  with assms(3) obtain m where m: "flush_convs lb (if_mgr d) = Some m" "d' = d\<lparr>if_mgr := m\<rparr>" by auto
  from assms(1) have i: "conv_inv lb (if_mgr d)" by (simp add: iface_inv_def)
  from flush_convs_closes [OF i m(1)] assms(1) m(2) show ?thesis by (simp add: iface_inv_def)
qed

lemma acts_inv: "acts lb as d = Some d' \<Longrightarrow> iface_inv lb d \<Longrightarrow> libs_ok lb \<Longrightarrow> iface_inv lb d'"
  by (induction as arbitrary: d) (auto dest: act_inv split: bind_split_asm)

lemma used_inv:
  assumes "acts lb as (iface_start c) = Some d" and "\<not> connected c" and "libs_ok lb"
  shows "iface_inv lb d" and "conv_inv lb (if_mgr d)"
  using acts_inv [OF assms(1) iface_start_inv [OF assms(2)] assms(3)] by (simp_all add: iface_inv_def)

text \<open>An end that has closed the connection ends the handshake.\<close>

lemma begin_end_input [simp]: "us_in (snd (USP_begin_block u t)) = us_in u" "us_in (snd (USP_end_block u)) = us_in u"
  by (auto simp: USP_begin_block_def USP_end_block_def send_sub_block_def put_onto_net_def Let_def split: prod.splits)

lemma hangs_up_empty:
  assumes "us_in u = []"
  shows "hangs_up lb u"
proof -
  have r: "USP_rcv_blk v \<noteq> None" if "us_in v = []" for v
    using that by (subst USP_rcv_blk.simps) (simp add: get_from_net_eof)
  have "USP_close_connection sh v \<noteq> None" if "us_in v = []" for sh v
    using that r [of "snd (USP_end_block (snd (USP_begin_block (v\<lparr>us_errno := NoErr\<rparr>) CONNECTION_END)))"]
    by (auto simp: USP_close_connection_def Let_def)
  with assms show ?thesis by (simp add: hangs_up_def)
qed

subsection \<open>An example\<close>

text \<open>A user without tickets, whose name service knows one host by two names.  Its server hangs up at once.\<close>

definition demo_libs :: libs where
  "demo_libs = \<lparr>lb_gethostname = ''w20-575-1'',
     lb_gethostbyname = (\<lambda>_ h. if h = ''charon'' then Inr ''CHARON.MIT.EDU'' else if h = ''Charon'' then Inr ''charon.mit.edu''
       else if h = ''CHARON.MIT.EDU'' \<or> h = ''charon.mit.edu'' \<or> h = ''w20-575-1'' then Inr h else Inl 1),
     lb_getservbyname = Some 2100, lb_fallback_port = 2100, lb_path = None, lb_program = (\<lambda>_. False),
     lb_host_realm = (\<lambda>_. Some ''ATHENA.MIT.EDU''), lb_default_realm = ''ATHENA.MIT.EDU'', lb_krb5_mk_req = (\<lambda>_ _ _. Inl 1),
     lb_connect = (\<lambda>_ _ _. Stream (new_stream [])), lb_spawn = (\<lambda>_ _. Some (new_stream [])),
     lb_server = ''/usr/sbin/disserve'', lb_shutdown = SUCCESS\<rparr>"

definition demo_user :: client where
  "demo_user = \<lparr>fs = demo_fs [], us = new_stream [], tf = None, connected = False, cl_err = 0\<rparr>"

definition demo_block :: name_blk where
  "demo_block = \<lparr>nb_hostname = ''charon'', nb_pathname = ''/usr/spool/discuss/new_meetings'', nb_user_id = [], nb_aliases = [],
     nb_spare = [], nb_status = 0, nb_date_attended = 0, nb_last = 0\<rparr>"

definition demo_acts :: "action list" where
  "demo_acts = [Set_module (Some ''discuss@Charon''), Set_module (Some ''discuss@charon''), Request demo_block Whoami]"

lemma demo_libs_ok: "libs_ok demo_libs"
  by (simp add: libs_ok_def demo_libs_def)

lemma demo_user_idle: "\<not> connected demo_user"
  by (simp add: demo_user_def)

lemma demo_used:
  "map_option (\<lambda>d. (length (convs (if_mgr d)), map (\<lambda>r. us_in (stream_of (if_mgr d) r)) [0 ..< length (conns (if_mgr d))]))
     (acts demo_libs demo_acts (iface_start demo_user)) = Some (2, [[]])"
  by code_simp

lemma demo_selected:
  "map_option (\<lambda>(code, d). (code, map_option fst (do_request demo_libs demo_block Whoami (the (acts demo_libs demo_acts (iface_start demo_user))))))
     (select_meeting demo_libs demo_block (the (acts demo_libs demo_acts (iface_start demo_user)))) = Some (0, Some 104)"
  by code_simp

subsection \<open>Properties\<close>

text \<open>
  C21. Whatever a client does with the library, the table has room for its entries, the connections that it names are open, each open
  connection is in it, no two open connections go to the same server, and the stream in use has not been freed.
\<close>

theorem connections_kept:
  assumes "libs_ok lb" and "\<not> connected c" and "acts lb as (iface_start c) = Some d"
  shows "int (length (convs (if_mgr d))) \<le> max_convs (if_mgr d) \<and>
    (\<forall>e \<in> set (convs (if_mgr d)). \<forall>r. cv_rc e = Some r \<longrightarrow> cn_open (conns (if_mgr d) ! r) \<and>
       server (cn_peer (conns (if_mgr d) ! r)) = server (conv_peer e)) \<and>
    (\<forall>r < length (conns (if_mgr d)). cn_open (conns (if_mgr d) ! r) \<longrightarrow> (\<exists>e \<in> set (convs (if_mgr d)). cv_rc e = Some r)) \<and>
    (\<forall>r < length (conns (if_mgr d)). \<forall>s < length (conns (if_mgr d)).
       cn_open (conns (if_mgr d) ! r) \<and> cn_open (conns (if_mgr d) ! s) \<and>
       server (cn_peer (conns (if_mgr d) ! r)) = server (cn_peer (conns (if_mgr d) ! s)) \<longrightarrow> r = s) \<and>
    \<not> dangling (if_mgr d)"
proof -
  from used_inv(2) [OF assms(3,2,1)] have i: "conv_inv lb (if_mgr d)" .
  then have t: "table_ok lb (convs (if_mgr d)) (peers (if_mgr d)) (opens (if_mgr d))" by (simp add: conv_inv_def)
  have "\<not> dangling (if_mgr d)" using i by (cases "cur_us (if_mgr d)") (auto simp: dangling_def conv_inv_def)
  moreover have "\<forall>e \<in> set (convs (if_mgr d)). \<forall>r. cv_rc e = Some r \<longrightarrow> cn_open (conns (if_mgr d) ! r) \<and>
       server (cn_peer (conns (if_mgr d) ! r)) = server (conv_peer e)"
    using t by (fastforce simp: table_ok_def conv_ok_def split: option.splits)
  ultimately show ?thesis using i t by (simp add: conv_inv_def table_ok_def)
qed

theorem connections_kept_witness:
  "\<exists>d. acts demo_libs demo_acts (iface_start demo_user) = Some d \<and> length (convs (if_mgr d)) = 2 \<and> length (conns (if_mgr d)) = 1 \<and>
     (\<forall>e \<in> set (convs (if_mgr d)). \<forall>r. cv_rc e = Some r \<longrightarrow> cn_open (conns (if_mgr d) ! r)) \<and> \<not> dangling (if_mgr d)"
proof -
  from demo_used obtain d where "acts demo_libs demo_acts (iface_start demo_user) = Some d"
    "length (convs (if_mgr d)) = 2" "length (conns (if_mgr d)) = 1"
    by (auto dest!: arg_cong [of _ _ length])
  with connections_kept [OF demo_libs_ok demo_user_idle this(1)] show ?thesis by auto
qed

text \<open>
  C20. When a meeting has been selected without an error, a call on it is the stub for the version of the server there, with the meeting's path
  as the name of the meeting: it returns what the stub returns and leaves the connection as the stub does.  The connection is open and goes
  to a host that the name service has given for the meeting's host, and not a byte is sent to or read from any other connection.
\<close>

theorem request_reaches:
  assumes "libs_ok lb" and "\<not> connected c" and "acts lb as (iface_start c) = Some d"
    and "select_meeting lb nbp d = Some (0, d1)" and "do_request lb nbp q d = Some (code, d')"
  shows "\<exists>k p. stub_for q nbp (nb_pathname nbp) (get_conv_server_version (if_mgr d1)) (cl (if_mgr d1)) = Some (code, cl (if_mgr d')) \<and>
    map_option mt_path (cmtg d1) = Some (nb_pathname nbp) \<and>
    cur_us (if_mgr d') = Some k \<and> cn_open (conns (if_mgr d') ! k) \<and>
    goes_to lb (nb_hostname nbp) p \<and> server (cn_peer (conns (if_mgr d') ! k)) = server p \<and>
    (\<forall>s < length (conns (if_mgr d)). s \<noteq> k \<longrightarrow> stream_of (if_mgr d') s = stream_of (if_mgr d) s)"
proof -
  note i = used_inv(1) [OF assms(3,2,1)]
  from select_meeting_ok [OF i assms(1,4)] have s: "iface_inv lb d1" "map_option mt_path (cmtg d1) = Some (nb_pathname nbp)"
    "reached lb (''discuss@'' @ nb_hostname nbp) (if_mgr d) (if_mgr d1)" by auto
  from s(1) have "conv_inv lb (if_mgr d1)" by (simp add: iface_inv_def)
  from reached_goes_to [OF s(3) this] obtain k p where k: "cur_us (if_mgr d1) = Some k" "cn_open (conns (if_mgr d1) ! k)"
    "goes_to lb (nb_hostname nbp) p" "server (cn_peer (conns (if_mgr d1) ! k)) = server p"
    "\<forall>s < length (conns (if_mgr d)). s \<noteq> k \<longrightarrow> stream_of (if_mgr d1) s = stream_of (if_mgr d) s" by blast
  from request_ok [OF i assms(1,5)] assms(4) have t: "talked (if_mgr d1) (if_mgr d')"
    "stub_for q nbp (nb_pathname nbp) (get_conv_server_version (if_mgr d1)) (cl (if_mgr d1)) = Some (code, cl (if_mgr d'))" by fastforce+
  have "stream_of (if_mgr d') s = stream_of (if_mgr d1) s" if "s \<noteq> k" for s using talked_stream [OF t(1)] k(1) that by simp
  with t k s(2) show ?thesis by (intro exI [of _ k] exI [of _ p]) (simp add: talked_def)
qed

theorem request_reaches_witness:
  "\<exists>d d1 d' k. acts demo_libs demo_acts (iface_start demo_user) = Some d \<and> select_meeting demo_libs demo_block d = Some (0, d1) \<and>
     do_request demo_libs demo_block Whoami d = Some (104, d') \<and> cur_us (if_mgr d') = Some k \<and> cn_open (conns (if_mgr d') ! k) \<and>
     answer (stub_dwhoami (cl (if_mgr d1))) = Some (104, cl (if_mgr d'))"
proof -
  from demo_used obtain d where d: "acts demo_libs demo_acts (iface_start demo_user) = Some d" by auto
  with demo_selected obtain d1 d' where s: "select_meeting demo_libs demo_block d = Some (0, d1)"
    "do_request demo_libs demo_block Whoami d = Some (104, d')" by auto
  from request_reaches [OF demo_libs_ok demo_user_idle d s] d s show ?thesis by auto
qed

text \<open>
  C22. Whatever has been done before, when the other ends answer the closing handshake, flushing the conversations closes every connection
  that is open, none of them twice, and leaves an empty table and no stream in use.
\<close>

theorem flush_convs_once:
  assumes "libs_ok lb" and "\<not> connected c" and "acts lb as (iface_start c) = Some d"
    and "\<forall>r < length (conns (if_mgr d)). cn_open (conns (if_mgr d) ! r) \<longrightarrow> hangs_up lb (stream_of (if_mgr d) r)"
  shows "\<exists>m. flush_convs lb (if_mgr d) = Some m \<and> length (conns m) = length (conns (if_mgr d)) \<and>
    (\<forall>x \<in> set (conns m). \<not> cn_open x) \<and> convs m = [] \<and> cur_us m = None \<and> get_module m = None"
proof -
  note i = used_inv(2) [OF assms(3,2,1)]
  from flush_convs_returns [OF i assms(4)] obtain m where m: "flush_convs lb (if_mgr d) = Some m" by blast
  from flush_convs_closes [OF i m] have c: "length (conns m) = length (conns (if_mgr d))" "\<forall>x \<in> set (conns m). \<not> cn_open x"
    "cur_us m = None" "get_module m = None" by auto
  from m have "conv_base m = None" by (auto simp: flush_convs_def split: option.splits bind_split_asm)
  with m c show ?thesis by (simp add: convs_def)
qed

theorem flush_convs_once_witness:
  "\<exists>d m. acts demo_libs demo_acts (iface_start demo_user) = Some d \<and> flush_convs demo_libs (if_mgr d) = Some m \<and>
     length (conns m) = 1 \<and> (\<forall>x \<in> set (conns m). \<not> cn_open x)"
proof -
  from demo_used obtain d where d: "acts demo_libs demo_acts (iface_start demo_user) = Some d"
    "map (\<lambda>r. us_in (stream_of (if_mgr d) r)) [0 ..< length (conns (if_mgr d))] = [[]]" by auto
  from d(2) have l: "length (conns (if_mgr d)) = 1" by (auto dest!: arg_cong [of _ _ length])
  with d(2) have "\<forall>r < length (conns (if_mgr d)). cn_open (conns (if_mgr d) ! r) \<longrightarrow> hangs_up demo_libs (stream_of (if_mgr d) r)"
    by (simp add: hangs_up_empty)
  from flush_convs_once [OF demo_libs_ok demo_user_idle d(1) this] d(1) l show ?thesis by auto
qed

end
